(* ===== verification/Js_Number.thy ===== *)
theory Js_Number
  imports Complex_Main Prelude
begin

text \<open>
  The IEEE-754 double-precision numbers of JavaScript, as far as the expression language uses
  them. A finite non-zero double is the rational it denotes; negative zero, the two infinities
  and NaN are separate constructors. Every arithmetic operation computes the exact rational
  result and rounds it to nearest, ties to even (\<open>to_double\<close>), as the language specifies.
\<close>

datatype js_number = JsNaN | JsInf bool | JsNegZero | JsFin rat

section \<open>Rounding\<close>

function bit_length :: "int \<Rightarrow> int" where
  "bit_length n = (if n \<le> 0 then 0 else 1 + bit_length (n div 2))"
  by pat_completeness auto
termination
  by (relation "measure nat") auto

declare bit_length.simps [simp del]

definition pow2 :: "int \<Rightarrow> rat" where
  "pow2 k = (if 0 \<le> k then 2 ^ nat k else 1 / 2 ^ nat (- k))"

definition log2_floor :: "rat \<Rightarrow> int" where
  "log2_floor q = (let (n, d) = quotient_of q; k = bit_length n - bit_length d
    in if pow2 k \<le> q then k else k - 1)"

definition round_half_even :: "rat \<Rightarrow> int" where
  "round_half_even q = (let f = \<lfloor>q\<rfloor>; d = q - of_int f in
     if d < 1 / 2 then f else if 1 / 2 < d then f + 1 else if even f then f else f + 1)"

definition js_zero :: "bool \<Rightarrow> js_number" where
  "js_zero neg = (if neg then JsNegZero else JsFin 0)"

text \<open>
  The double nearest to \<open>q\<close>; \<open>neg\<close> is the sign of an exact zero. The unit in the last place is
  \<open>2 ^ u\<close>, at least the smallest subnormal; \<open>m\<close> units of it are at most \<open>2 ^ 53\<close>, so the result
  passes the largest double exactly when \<open>u\<close> exceeds 971, or \<open>m\<close> carried to \<open>2 ^ 53\<close> there.
\<close>

definition to_double :: "bool \<Rightarrow> rat \<Rightarrow> js_number" where
  "to_double neg q = (if q = 0 then js_zero neg else
     let a = \<bar>q\<bar>; s = (q < 0); u = max (log2_floor a - 52) (- 1074);
         m = round_half_even (a / pow2 u)
     in if 971 < u \<or> (u = 971 \<and> m = 9007199254740992) then JsInf s
        else if m = 0 then js_zero s
        else JsFin ((if s then - of_int m else of_int m) * pow2 u))"

section \<open>Classification and comparison\<close>

fun sign_bit :: "js_number \<Rightarrow> bool" where
  "sign_bit JsNaN = False"
| "sign_bit (JsInf s) = s"
| "sign_bit JsNegZero = True"
| "sign_bit (JsFin q) = (q < 0)"

fun is_finite :: "js_number \<Rightarrow> bool" where
  "is_finite JsNaN = False"
| "is_finite (JsInf s) = False"
| "is_finite JsNegZero = True"
| "is_finite (JsFin q) = True"

fun rat_of :: "js_number \<Rightarrow> rat" where
  "rat_of (JsFin q) = q"
| "rat_of _ = 0"

text \<open>\<open>x === y\<close>: NaN equals nothing, the two zeros are equal.\<close>

fun js_eq :: "js_number \<Rightarrow> js_number \<Rightarrow> bool" where
  "js_eq JsNaN y = False"
| "js_eq x JsNaN = False"
| "js_eq (JsInf s) y = (y = JsInf s)"
| "js_eq x (JsInf s) = False"
| "js_eq x y = (rat_of x = rat_of y)"

fun js_lt :: "js_number \<Rightarrow> js_number \<Rightarrow> bool" where
  "js_lt JsNaN y = False"
| "js_lt x JsNaN = False"
| "js_lt (JsInf s) y = (s \<and> y \<noteq> JsInf True)"
| "js_lt x (JsInf s) = (\<not> s)"
| "js_lt x y = (rat_of x < rat_of y)"

definition js_le :: "js_number \<Rightarrow> js_number \<Rightarrow> bool" where
  "js_le x y = (js_lt x y \<or> js_eq x y)"

definition is_zero :: "js_number \<Rightarrow> bool" where
  "is_zero x = (x = JsNegZero \<or> x = JsFin 0)"

section \<open>Arithmetic\<close>

fun js_neg :: "js_number \<Rightarrow> js_number" where
  "js_neg JsNaN = JsNaN"
| "js_neg (JsInf s) = JsInf (\<not> s)"
| "js_neg JsNegZero = JsFin 0"
| "js_neg (JsFin q) = (if q = 0 then JsNegZero else JsFin (- q))"

fun js_add :: "js_number \<Rightarrow> js_number \<Rightarrow> js_number" where
  "js_add JsNaN y = JsNaN"
| "js_add x JsNaN = JsNaN"
| "js_add (JsInf s) (JsInf t) = (if s = t then JsInf s else JsNaN)"
| "js_add (JsInf s) y = JsInf s"
| "js_add x (JsInf t) = JsInf t"
| "js_add JsNegZero JsNegZero = JsNegZero"
| "js_add x y = to_double False (rat_of x + rat_of y)"

definition js_sub :: "js_number \<Rightarrow> js_number \<Rightarrow> js_number" where
  "js_sub x y = js_add x (js_neg y)"

definition js_mul :: "js_number \<Rightarrow> js_number \<Rightarrow> js_number" where
  "js_mul x y = (let s = (sign_bit x \<noteq> sign_bit y) in
     if x = JsNaN \<or> y = JsNaN then JsNaN
     else if \<not> is_finite x \<or> \<not> is_finite y
       then (if is_zero x \<or> is_zero y then JsNaN else JsInf s)
     else to_double s (rat_of x * rat_of y))"

definition js_div :: "js_number \<Rightarrow> js_number \<Rightarrow> js_number" where
  "js_div x y = (let s = (sign_bit x \<noteq> sign_bit y) in
     if x = JsNaN \<or> y = JsNaN then JsNaN
     else if \<not> is_finite x then (if \<not> is_finite y then JsNaN else JsInf s)
     else if \<not> is_finite y then js_zero s
     else if is_zero y then (if is_zero x then JsNaN else JsInf s)
     else to_double s (rat_of x / rat_of y))"

text \<open>Truncation towards zero, for the remainder operator.\<close>

definition rat_trunc :: "rat \<Rightarrow> int" where
  "rat_trunc q = (if q < 0 then \<lceil>q\<rceil> else \<lfloor>q\<rfloor>)"

definition js_mod :: "js_number \<Rightarrow> js_number \<Rightarrow> js_number" where
  "js_mod x y =
     (if x = JsNaN \<or> y = JsNaN \<or> \<not> is_finite x \<or> is_zero y then JsNaN
      else if \<not> is_finite y \<or> is_zero x then x
      else to_double (sign_bit x)
        (rat_of x - rat_of y * of_int (rat_trunc (rat_of x / rat_of y))))"

section \<open>The functions of Math\<close>

fun js_abs :: "js_number \<Rightarrow> js_number" where
  "js_abs JsNaN = JsNaN"
| "js_abs (JsInf s) = JsInf False"
| "js_abs JsNegZero = JsFin 0"
| "js_abs (JsFin q) = JsFin \<bar>q\<bar>"

fun js_floor :: "js_number \<Rightarrow> js_number" where
  "js_floor (JsFin q) = JsFin (of_int \<lfloor>q\<rfloor>)"
| "js_floor x = x"

definition signed_int :: "rat \<Rightarrow> int \<Rightarrow> js_number" where
  "signed_int q r = (if r = 0 \<and> q < 0 then JsNegZero else JsFin (of_int r))"

fun js_ceil :: "js_number \<Rightarrow> js_number" where
  "js_ceil (JsFin q) = signed_int q \<lceil>q\<rceil>"
| "js_ceil x = x"

fun js_round :: "js_number \<Rightarrow> js_number" where
  "js_round (JsFin q) = signed_int q \<lfloor>q + 1 / 2\<rfloor>"
| "js_round x = x"

definition js_min :: "js_number \<Rightarrow> js_number \<Rightarrow> js_number" where
  "js_min x y =
     (if x = JsNaN \<or> y = JsNaN then JsNaN
      else if js_lt x y then x else if js_lt y x then y
      else if x = JsNegZero then x else y)"

definition js_max :: "js_number \<Rightarrow> js_number \<Rightarrow> js_number" where
  "js_max x y =
     (if x = JsNaN \<or> y = JsNaN then JsNaN
      else if js_lt y x then x else if js_lt x y then y
      else if x = JsNegZero then y else x)"

section \<open>Integers as numbers, and decimal literals\<close>

definition js_of_nat :: "nat \<Rightarrow> js_number" where
  "js_of_nat n = to_double False (of_nat n)"

definition digit_value :: "char \<Rightarrow> int" where
  "digit_value c = of_char c - 48"

definition digits_value :: "string \<Rightarrow> int" where
  "digits_value ds = foldl (\<lambda>n c. 10 * n + digit_value c) 0 ds"

text \<open>
  \<open>Number(raw)\<close> on text made of digits and dots that starts with a digit: one dot at most, and
  then the decimal value, rounded.
\<close>

definition parse_decimal :: "string \<Rightarrow> js_number" where
  "parse_decimal raw =
     (let whole = takeWhile is_digit raw; rest = dropWhile is_digit raw in
      if rest = [] then to_double False (of_int (digits_value whole))
      else let frac = tl rest in
        if list_all is_digit frac
        then to_double False (of_int (digits_value (whole @ frac)) / 10 ^ length frac)
        else JsNaN)"

section \<open>The rounding is the nearest double\<close>

text \<open>
  A rational is a double when it is an integer of at most 53 bits scaled by a power of two
  between the smallest subnormal and the largest exponent.
\<close>

definition is_double :: "rat \<Rightarrow> bool" where
  "is_double q \<longleftrightarrow> (\<exists>m u. q = of_int m * pow2 u \<and> \<bar>m\<bar> < 2 ^ 53 \<and> - 1074 \<le> u \<and> u \<le> 971)"

fun representable :: "js_number \<Rightarrow> bool" where
  "representable (JsFin q) = is_double q"
| "representable _ = True"

lemma pow2_pos [simp]: "0 < pow2 k"
  by (simp add: pow2_def)

lemma pow2_nonzero [simp]: "pow2 k \<noteq> 0"
  using pow2_pos [of k] by linarith

lemma pow2_0 [simp]: "pow2 0 = 1"
  by (simp add: pow2_def)

lemma pow2_Suc: "pow2 (k + 1) = 2 * pow2 k"
proof (cases "0 \<le> k")
  case True
  then show ?thesis by (simp add: pow2_def nat_add_distrib)
next
  case False
  then obtain n where n: "k = - int (Suc n)"
    by (metis negD not_le_imp_less)
  show ?thesis
    by (cases n) (simp_all add: n pow2_def nat_add_distrib)
qed

lemma pow2_add_nat: "pow2 (k + int n) = 2 ^ n * pow2 k"
proof (induction n)
  case 0
  then show ?case by simp
next
  case (Suc n)
  have "pow2 (k + int (Suc n)) = pow2 ((k + int n) + 1)" by (simp add: algebra_simps)
  also have "\<dots> = 2 * pow2 (k + int n)" by (rule pow2_Suc)
  finally show ?case using Suc by simp
qed

lemma pow2_add: "pow2 (j + k) = pow2 j * pow2 k"
proof (cases "0 \<le> k")
  case True
  then obtain n where k: "k = int n" using nonneg_eq_int by blast
  show ?thesis using pow2_add_nat [of j n] pow2_add_nat [of 0 n] k by simp
next
  case False
  then obtain n where k: "k = - int n" by (metis int_cases2 of_nat_0_le_iff)
  have "pow2 j = 2 ^ n * pow2 (j + k)" using pow2_add_nat [of "j + k" n] k by simp
  moreover have "1 = 2 ^ n * pow2 k" using pow2_add_nat [of k n] k by simp
  ultimately show ?thesis
    by (metis mult.assoc mult.commute mult.right_neutral)
qed

lemma pow2_mono: "j \<le> k \<Longrightarrow> pow2 j \<le> pow2 k"
proof -
  assume "j \<le> k"
  then obtain n where "k = j + int n" using zle_iff_zadd by blast
  then show ?thesis using less_imp_le [OF pow2_pos [of j]]
    by (simp add: pow2_add_nat mult_le_cancel_right1)
qed

lemma pow2_nat: "0 \<le> k \<Longrightarrow> pow2 k = 2 ^ nat k"
  by (simp add: pow2_def)

lemma bit_length_bounds:
  "0 < n \<Longrightarrow> 0 < bit_length n \<and> pow2 (bit_length n - 1) \<le> of_int n \<and> of_int n < pow2 (bit_length n)"
proof (induction n rule: bit_length.induct)
  case (1 n)
  show ?case
  proof (cases "n = 1")
    case True
    have "bit_length 1 = 1" by (simp add: bit_length.simps)
    with True show ?thesis by (simp add: pow2_def)
  next
    case False
    let ?h = "n div 2"
    from False "1.prems" have h: "0 < ?h" by simp
    with "1.IH" "1.prems" have IH: "0 < bit_length ?h" "pow2 (bit_length ?h - 1) \<le> of_int ?h"
        "of_int ?h < pow2 (bit_length ?h)"
      by auto
    have bl: "bit_length n = 1 + bit_length ?h"
      using "1.prems" by (subst bit_length.simps) simp
    have lo: "2 * (of_int ?h :: rat) \<le> of_int n" and hi: "(of_int n :: rat) \<le> 2 * of_int ?h + 1"
      by linarith+
    have "pow2 (bit_length n - 1) = 2 * pow2 (bit_length ?h - 1)"
      using pow2_Suc [of "bit_length ?h - 1"] by (simp add: bl)
    with IH(2) lo have "pow2 (bit_length n - 1) \<le> of_int n" by linarith
    moreover have "of_int n < pow2 (bit_length n)"
    proof -
      have pw: "pow2 (bit_length ?h) = of_int (2 ^ nat (bit_length ?h))"
        using IH(1) by (simp add: pow2_nat)
      with IH(3) have "?h < 2 ^ nat (bit_length ?h)" by (simp only: of_int_less_iff)
      then have "?h + 1 \<le> 2 ^ nat (bit_length ?h)" by simp
      then have "n < 2 * 2 ^ nat (bit_length ?h)" by linarith
      then have "(of_int n :: rat) < of_int (2 * 2 ^ nat (bit_length ?h))"
        by (simp only: of_int_less_iff)
      then show ?thesis using pow2_Suc [of "bit_length ?h"] pw by (simp add: bl add.commute)
    qed
    ultimately show ?thesis using bl IH(1) by simp
  qed
qed

lemma log2_floor_bounds:
  assumes "0 < q"
  shows "pow2 (log2_floor q) \<le> q" and "q < pow2 (log2_floor q + 1)"
proof -
  obtain n d where nd: "quotient_of q = (n, d)" by force
  then have d: "0 < d" by (rule quotient_of_denom_pos)
  from nd have q: "q = of_int n / of_int d" by (rule quotient_of_div)
  with assms d have n: "0 < n" by (simp add: zero_less_divide_iff)
  let ?k = "bit_length n - bit_length d"
  note bn = bit_length_bounds [OF n] and bd = bit_length_bounds [OF d]
  have d': "(0 :: rat) < of_int d" using d by simp
  have "q < pow2 (?k + 1)"
  proof -
    have "of_int n < pow2 (bit_length n)" using bn by simp
    also have "\<dots> = pow2 (?k + 1) * pow2 (bit_length d - 1)"
      by (simp add: pow2_add [symmetric])
    also have "\<dots> \<le> pow2 (?k + 1) * of_int d"
      using bd by (simp add: mult_left_mono less_imp_le)
    finally show ?thesis using d' by (simp add: q divide_less_eq)
  qed
  moreover have "pow2 (?k - 1) \<le> q"
  proof -
    have "pow2 (?k - 1) * of_int d \<le> pow2 (?k - 1) * pow2 (bit_length d)"
      using bd by (simp add: mult_left_mono less_imp_le)
    also have "\<dots> = pow2 (bit_length n - 1)" by (simp add: pow2_add [symmetric])
    also have "\<dots> \<le> of_int n" using bn by simp
    finally show ?thesis using d' by (simp add: q le_divide_eq)
  qed
  ultimately show "pow2 (log2_floor q) \<le> q" "q < pow2 (log2_floor q + 1)"
    by (auto simp: log2_floor_def nd Let_def)
qed

lemma round_half_even_error: "\<bar>of_int (round_half_even q) - q\<bar> \<le> 1 / 2"
proof -
  have "of_int \<lfloor>q\<rfloor> \<le> q" "q < of_int \<lfloor>q\<rfloor> + 1" by linarith+
  then show ?thesis by (auto simp: round_half_even_def Let_def)
qed

lemma round_half_even_of_int [simp]: "round_half_even (of_int k) = k"
  by (simp add: round_half_even_def)

lemma round_half_even_le: "q \<le> of_int k \<Longrightarrow> round_half_even q \<le> k"
proof (rule ccontr)
  assume q: "q \<le> of_int k" and "\<not> round_half_even q \<le> k"
  then have r: "of_int k + 1 \<le> (of_int (round_half_even q) :: rat)"
    by (metis not_le of_int_1 of_int_add of_int_le_iff zless_imp_add1_zle)
  have "q \<noteq> of_int k" using r by auto
  with q have "\<lfloor>q\<rfloor> < k" by (simp add: floor_less_iff)
  then have "round_half_even q \<le> k"
    by (simp add: round_half_even_def Let_def)
  with \<open>\<not> round_half_even q \<le> k\<close> show False by simp
qed

lemma round_half_even_nonneg: "0 \<le> q \<Longrightarrow> 0 \<le> round_half_even q"
  by (simp add: round_half_even_def Let_def)

text \<open>The exponent of the last place of \<open>a\<close>, and the number of units.\<close>

definition ulp_exp :: "rat \<Rightarrow> int" where
  "ulp_exp a = max (log2_floor a - 52) (- 1074)"

lemma units_bound:
  assumes "0 < a"
  shows "round_half_even (a / pow2 (ulp_exp a)) \<le> 9007199254740992"
proof -
  have "a < pow2 (log2_floor a + 1)" using assms by (rule log2_floor_bounds)
  also have "\<dots> \<le> pow2 (ulp_exp a + 53)" by (rule pow2_mono) (simp add: ulp_exp_def)
  also have "\<dots> = pow2 (ulp_exp a) * 9007199254740992"
    by (simp add: pow2_add) (simp add: pow2_def)
  finally have "a / pow2 (ulp_exp a) \<le> of_int 9007199254740992"
    by (simp add: divide_le_eq mult.commute)
  then show ?thesis by (rule round_half_even_le)
qed

lemma to_double_nonzero:
  "q \<noteq> 0 \<Longrightarrow> to_double neg q =
    (let u = ulp_exp \<bar>q\<bar>; m = round_half_even (\<bar>q\<bar> / pow2 u)
     in if 971 < u \<or> (u = 971 \<and> m = 9007199254740992) then JsInf (q < 0)
        else if m = 0 then js_zero (q < 0)
        else JsFin ((if q < 0 then - of_int m else of_int m) * pow2 u))"
  by (simp add: to_double_def ulp_exp_def Let_def)

lemma is_double_scaled:
  assumes "\<bar>m\<bar> \<le> 9007199254740992" "- 1074 \<le> u" "u \<le> 971"
    and carry: "u = 971 \<Longrightarrow> \<bar>m\<bar> \<noteq> 9007199254740992"
  shows "is_double (of_int m * pow2 u)"
proof (cases "\<bar>m\<bar> = 9007199254740992")
  case True
  have "u \<noteq> 971" using carry True by blast
  with assms(3) have "u + 1 \<le> 971" by simp
  moreover have "m = 9007199254740992 \<or> m = - 9007199254740992" using True by linarith
  then have "m = 2 * 4503599627370496 \<or> m = 2 * - 4503599627370496" by simp
  then obtain k where k: "m = 2 * k" "\<bar>k\<bar> < 2 ^ 53"
    by (elim disjE) (rule that, assumption, simp)+
  ultimately show ?thesis using assms(2) unfolding is_double_def
    by (intro exI [of _ k] exI [of _ "u + 1"]) (simp add: pow2_Suc)
next
  case False
  with assms show ?thesis unfolding is_double_def by (intro exI [of _ m] exI [of _ u]) auto
qed

lemma is_double_0 [simp]: "is_double 0"
  unfolding is_double_def by (intro exI [of _ 0]) simp

lemma to_double_representable: "representable (to_double neg q)"
proof (cases "q = 0")
  case True
  then show ?thesis by (simp add: to_double_def js_zero_def)
next
  case False
  let ?u = "ulp_exp \<bar>q\<bar>" and ?m = "round_half_even (\<bar>q\<bar> / pow2 (ulp_exp \<bar>q\<bar>))"
  note eq = to_double_nonzero [OF False, of neg, unfolded Let_def]
  from False have a: "0 < \<bar>q\<bar>" by simp
  have m: "0 \<le> ?m" "?m \<le> 9007199254740992"
    using units_bound [OF a] by (auto intro!: round_half_even_nonneg divide_nonneg_pos)
  have u: "- 1074 \<le> ?u" by (simp add: ulp_exp_def)
  have zero: "representable (js_zero s)" for s
    by (simp add: js_zero_def)
  show ?thesis
  proof (cases "971 < ?u \<or> (?u = 971 \<and> ?m = 9007199254740992)")
    case True
    then show ?thesis unfolding eq by (simp only: if_True representable.simps)
  next
    case fits: False
    then have "is_double (of_int k * pow2 ?u)" if "\<bar>k\<bar> = ?m" for k
      using that m u by (intro is_double_scaled) auto
    from this [of "- ?m"] this [of ?m] m(1)
    have d: "is_double (- of_int ?m * pow2 ?u)" "is_double (of_int ?m * pow2 ?u)"
      by (simp_all only: of_int_minus abs_minus_cancel abs_of_nonneg)
    then have "is_double ((if q < 0 then - of_int ?m else of_int ?m) * pow2 ?u)"
      by (cases "q < 0") (simp_all only: if_True if_False)
    then show ?thesis
      unfolding eq if_not_P [OF fits] by (cases "?m = 0") (simp_all only: simp_thms zero representable.simps if_True if_False)
  qed
qed

text \<open>A double is its own nearest double: rounding is the identity on what is representable.\<close>

lemma to_double_id:
  assumes "is_double q" "q \<noteq> 0"
  shows "to_double neg q = JsFin q"
proof -
  from assms(1) obtain m u where q: "q = of_int m * pow2 u" and m: "\<bar>m\<bar> < 2 ^ 53"
    and u: "- 1074 \<le> u" "u \<le> 971" by (auto simp: is_double_def)
  let ?a = "\<bar>q\<bar>" and ?v = "ulp_exp \<bar>q\<bar>"
  from assms(2) have a: "0 < ?a" by simp
  have aq: "?a = of_int \<bar>m\<bar> * pow2 u" using less_imp_le [OF pow2_pos [of u]] by (simp add: q abs_mult)
  have "of_int \<bar>m\<bar> < (2 ^ 53 :: rat)" using m by (metis of_int_less_iff of_int_numeral of_int_power)
  then have "?a < 2 ^ 53 * pow2 u" by (simp add: aq)
  then have up: "?a < pow2 (u + 53)" using pow2_add_nat [of u 53] by simp
  have lg: "log2_floor ?a < u + 53"
  proof (rule ccontr)
    assume "\<not> log2_floor ?a < u + 53"
    then have "pow2 (u + 53) \<le> pow2 (log2_floor ?a)" by (intro pow2_mono) simp
    also have "\<dots> \<le> ?a" using a by (rule log2_floor_bounds)
    finally show False using up by simp
  qed
  with u have v: "?v \<le> u" "?v \<le> 971" "- 1074 \<le> ?v" by (auto simp: ulp_exp_def)
  obtain n where n: "u = ?v + int n" using v(1) zle_iff_zadd by blast
  let ?k = "\<bar>m\<bar> * 2 ^ n"
  have "pow2 u = 2 ^ n * pow2 ?v" by (subst n) (rule pow2_add_nat)
  with aq have k: "?a = of_int ?k * pow2 ?v" by simp
  then have "?a / pow2 ?v = of_int ?k" by (metis nonzero_mult_div_cancel_right pow2_nonzero)
  then have r: "round_half_even (?a / pow2 ?v) = ?k" by (simp only: round_half_even_of_int)
  have "?k \<noteq> 0" using a k by auto
  have not_carry: "\<not> (?v = 971 \<and> ?k = 9007199254740992)"
  proof
    assume "?v = 971 \<and> ?k = 9007199254740992"
    with n u have "n = 0" by simp
    with \<open>?v = 971 \<and> ?k = 9007199254740992\<close> m show False by simp
  qed
  have "(if q < 0 then - of_int ?k else of_int ?k) * pow2 ?v = q"
  proof (cases "q < 0")
    case True
    then have "q = - \<bar>q\<bar>" by simp
    with k True show ?thesis by (simp only: if_True mult_minus_left)
  next
    case False
    then have "q = \<bar>q\<bar>" by simp
    with k False show ?thesis by (simp only: if_False)
  qed
  moreover have "\<not> (971 < ?v \<or> (?v = 971 \<and> ?k = 9007199254740992))"
    using v(2) not_carry by linarith
  ultimately show ?thesis
    using \<open>?k \<noteq> 0\<close> by (simp only: to_double_nonzero [OF assms(2)] Let_def r if_False)
qed

text \<open>Every arithmetic operator yields a double, whatever its operands.\<close>

lemma js_zero_representable [simp]: "representable (js_zero s)"
  by (simp add: js_zero_def)

lemma js_add_representable: "representable (js_add x y)"
  by (cases "(x, y)" rule: js_add.cases) (simp_all add: to_double_representable)

lemma is_double_minus [simp]: "is_double (- q) \<longleftrightarrow> is_double q"
proof -
  have flip: "is_double (- p)" if "is_double p" for p
  proof -
    from that obtain m u where "p = of_int m * pow2 u" "\<bar>m\<bar> < 2 ^ 53" "- 1074 \<le> u" "u \<le> 971"
      by (auto simp: is_double_def)
    then show ?thesis unfolding is_double_def by (intro exI [of _ "- m"] exI [of _ u]) simp
  qed
  from flip [of q] flip [of "- q"] show ?thesis by auto
qed

lemma js_neg_representable [simp]: "representable (js_neg x) \<longleftrightarrow> representable x"
  by (cases x) auto

lemma js_abs_representable: "representable x \<Longrightarrow> representable (js_abs x)"
  by (cases x) (auto simp: abs_if)

lemma js_sub_representable: "representable (js_sub x y)"
  by (simp add: js_sub_def js_add_representable)

lemma js_mul_representable: "representable (js_mul x y)"
  by (simp add: js_mul_def Let_def to_double_representable)

lemma js_div_representable: "representable (js_div x y)"
  by (simp add: js_div_def Let_def to_double_representable)

lemma js_mod_representable: "representable x \<Longrightarrow> representable (js_mod x y)"
  by (simp add: js_mod_def to_double_representable)

lemma js_min_representable: "representable x \<Longrightarrow> representable y \<Longrightarrow> representable (js_min x y)"
  by (simp add: js_min_def)

lemma js_max_representable: "representable x \<Longrightarrow> representable y \<Longrightarrow> representable (js_max x y)"
  by (simp add: js_max_def)

text \<open>An integer between a double and zero, rounded away by at most a unit, is a double.\<close>

lemma is_double_of_int_small: "\<bar>k\<bar> \<le> 9007199254740992 \<Longrightarrow> is_double (of_int k)"
  using is_double_scaled [of k 0] by simp

lemma big_double_is_int:
  assumes "is_double q" "9007199254740992 \<le> \<bar>q\<bar>"
  shows "q = of_int \<lfloor>q\<rfloor>"
proof -
  from assms(1) obtain m u where q: "q = of_int m * pow2 u" and m: "\<bar>m\<bar> < 2 ^ 53"
    by (auto simp: is_double_def)
  have "0 \<le> u"
  proof (rule ccontr)
    assume "\<not> 0 \<le> u"
    then have "pow2 u \<le> 1" using pow2_mono [of u 0] by simp
    have "\<bar>q\<bar> = of_int \<bar>m\<bar> * pow2 u" using less_imp_le [OF pow2_pos [of u]] by (simp add: q abs_mult)
    also have "\<dots> \<le> of_int \<bar>m\<bar> * 1" using \<open>pow2 u \<le> 1\<close> by (intro mult_left_mono) auto
    also have "\<dots> < of_int 9007199254740992" using m by (simp only: of_int_less_iff mult_1_right) simp
    finally show False using assms(2) by simp
  qed
  then have "q = of_int (m * 2 ^ nat u)" by (simp add: q pow2_nat)
  then show ?thesis by simp
qed

lemma is_double_rounded_int:
  assumes "is_double q" "\<bar>of_int k - q\<bar> \<le> 1" "q = of_int \<lfloor>q\<rfloor> \<Longrightarrow> of_int k = q"
  shows "is_double (of_int k)"
proof (cases "9007199254740992 \<le> \<bar>q\<bar>")
  case True
  then show ?thesis using assms big_double_is_int by metis
next
  case False
  have "\<bar>of_int k\<bar> < (9007199254740992 + 1 :: rat)" using False assms(2) by linarith
  then have "\<bar>k\<bar> < 9007199254740993" by linarith
  then show ?thesis by (intro is_double_of_int_small) simp
qed

lemma js_floor_representable: "representable x \<Longrightarrow> representable (js_floor x)"
proof (cases x)
  case (JsFin q)
  assume "representable x"
  moreover have "\<bar>of_int \<lfloor>q\<rfloor> - q\<bar> \<le> 1" by linarith
  ultimately show ?thesis using JsFin by (auto intro: is_double_rounded_int)
qed auto

lemma js_ceil_representable: "representable x \<Longrightarrow> representable (js_ceil x)"
proof (cases x)
  case (JsFin q)
  assume "representable x"
  moreover have "\<bar>of_int \<lceil>q\<rceil> - q\<bar> \<le> 1" by linarith
  moreover have "q = of_int \<lfloor>q\<rfloor> \<Longrightarrow> of_int \<lceil>q\<rceil> = q" by (metis ceiling_of_int)
  ultimately show ?thesis using JsFin by (auto simp: signed_int_def intro: is_double_rounded_int)
qed auto

lemma js_round_representable: "representable x \<Longrightarrow> representable (js_round x)"
proof (cases x)
  case (JsFin q)
  assume "representable x"
  moreover have "\<bar>of_int \<lfloor>q + 1 / 2\<rfloor> - q\<bar> \<le> 1" by linarith
  moreover have "of_int \<lfloor>q + 1 / 2\<rfloor> = q" if "q = of_int \<lfloor>q\<rfloor>"
  proof -
    have "\<lfloor>of_int \<lfloor>q\<rfloor> + 1 / 2 :: rat\<rfloor> = \<lfloor>q\<rfloor>" by linarith
    with that show ?thesis by metis
  qed
  ultimately show ?thesis using JsFin by (auto simp: signed_int_def intro: is_double_rounded_int)
qed auto

lemma js_of_nat_representable [simp]: "representable (js_of_nat n)"
  by (simp add: js_of_nat_def to_double_representable)

lemma parse_decimal_representable [simp]: "representable (parse_decimal raw)"
  by (simp add: parse_decimal_def Let_def to_double_representable)

named_theorems representable_intros \<open>operations whose results are doubles\<close>

lemmas number_ops_representable [representable_intros] =
  js_add_representable js_sub_representable js_mul_representable js_div_representable
  js_mod_representable js_min_representable js_max_representable js_abs_representable
  js_floor_representable js_ceil_representable js_round_representable

end
