(* ===== verification/Enterprise_Types.thy ===== *)
theory Enterprise_Types
  imports Prelude Js_Number
begin

text \<open>
  The domain contracts of \<^verbatim>\<open>src/enterprise/types.ts\<close>: workflow trees, the ontology bound to
  each node, governance policies and decisions, and the plan of one run. A TypeScript object
  type is a record, a closed string union a datatype, an optional field an \<^typ>\<open>'a option\<close>
  (absence is \<^const>\<open>None\<close>). \<open>WorkflowNodeDefinition\<close> is recursive through its children and is a
  datatype with named selectors.
\<close>

type_synonym EnterpriseId = string

datatype EnterpriseMode = ModeEnforce | ModeObserve | ModeOff

section \<open>Ontology declarations\<close>

datatype OntologyValueType = TyString | TyNumber | TyBoolean | TyDate | TyId

datatype OntologyValue = VStr string | VNum js_number | VBool bool | VNull

record OntologyProperty =
  prop_id :: EnterpriseId
  prop_type :: OntologyValueType
  prop_primaryKey :: "bool option"
  prop_required :: "bool option"
  prop_description :: "string option"

record OntologyEntity =
  ent_id :: EnterpriseId
  ent_title :: "string option"
  ent_description :: "string option"
  ent_properties :: "OntologyProperty list option"

datatype OntologyCardinality = OneToOne | OneToMany | ManyToOne | ManyToMany

record OntologyRelationship =
  rel_id :: EnterpriseId
  rel_from :: EnterpriseId
  rel_to :: EnterpriseId
  rel_cardinality :: "OntologyCardinality option"
  rel_inverse :: "string option"
  rel_description :: "string option"

record OntologyActionParameter =
  par_id :: EnterpriseId
  par_type :: OntologyValueType
  par_required :: "bool option"
  par_description :: "string option"

datatype EffectKind = EffRead | EffCreate | EffUpdate | EffDelete

record OntologyObjectEffect =
  oe_entity :: EnterpriseId
  oe_kind :: EffectKind
  oe_description :: "string option"

record OntologyCallEffect =
  ce_tool :: string
  ce_description :: "string option"

datatype LinkKind = Link | Unlink

record OntologyLinkEffect =
  le_kind :: LinkKind
  le_relationship :: EnterpriseId
  le_from :: "string option"
  le_to :: "string option"
  le_description :: "string option"

datatype OntologyActionEffect =
    ObjectEffect OntologyObjectEffect
  | CallEffect OntologyCallEffect
  | LinkEffect OntologyLinkEffect

record OntologyAction =
  act_id :: EnterpriseId
  act_title :: "string option"
  act_description :: "string option"
  act_tools :: "string list option"
  act_parameters :: "OntologyActionParameter list option"
  act_preconditions :: "string list option"
  act_effects :: "OntologyActionEffect list option"

record OntologyFunction =
  fn_id :: EnterpriseId
  fn_title :: "string option"
  fn_description :: "string option"
  fn_entity :: EnterpriseId
  fn_expression :: string
  fn_returns :: OntologyValueType

record OntologyConstraint =
  con_id :: EnterpriseId
  con_description :: string

record OntologyBinding =
  entities :: "OntologyEntity list option"
  relationships :: "OntologyRelationship list option"
  actions :: "OntologyAction list option"
  ont_functions :: "OntologyFunction list option"
  constraints :: "OntologyConstraint list option"
  allowedTools :: "string list option"
  deniedTools :: "string list option"
  knowledgeFoundations :: "string list option"
  mcpServers :: "string list option"
  contextHints :: "string list option"
  guidance :: "string option"
  skills :: "string list option"
  expectedOutput :: "string option"
  audit :: "bool option"

text \<open>The empty object literal the sources use for an absent ontology.\<close>

definition empty_binding :: OntologyBinding where
  "empty_binding = \<lparr> entities = None, relationships = None, actions = None, ont_functions = None,
     constraints = None, allowedTools = None, deniedTools = None, knowledgeFoundations = None,
     mcpServers = None, contextHints = None, guidance = None, skills = None,
     expectedOutput = None, audit = None \<rparr>"

section \<open>Workflow trees\<close>

datatype WorkflowNodeDefinition = WorkflowNode
  (wn_id: EnterpriseId)
  (wn_title: string)
  (wn_description: "string option")
  (wn_ontology: "OntologyBinding option")
  (wn_children: "WorkflowNodeDefinition list option")

datatype WorkflowTreeTrigger = TrigUser | TrigSystem | TrigSubagent

record WorkflowTreeMatch =
  match_keywords :: "string list option"
  match_triggers :: "WorkflowTreeTrigger list option"
  match_priority :: "int option"

datatype WorkflowCapabilityGrants = GrantsExplicit

record WorkflowTreeDefinition =
  tree_executionModel :: "string option"
  tree_id :: EnterpriseId
  tree_version :: string
  tree_name :: string
  tree_description :: "string option"
  tree_match :: "WorkflowTreeMatch option"
  tree_capabilityGrants :: "WorkflowCapabilityGrants option"
  tree_root :: WorkflowNodeDefinition

section \<open>Governance\<close>

datatype GovernanceEffect = EffAllow | EffDeny | EffAudit | EffRequireApproval

datatype TimeoutBehavior = TimeoutAllow | TimeoutDeny

datatype ApprovalSeverity = SevInfo | SevWarning | SevCritical

record GovernanceApprovalSettings =
  ap_timeoutMs :: "nat option"
  ap_timeoutBehavior :: "TimeoutBehavior option"
  ap_severity :: "ApprovalSeverity option"

record GovernancePolicy =
  pol_id :: EnterpriseId
  pol_description :: "string option"
  pol_effect :: GovernanceEffect
  pol_trees :: "string list option"
  pol_nodes :: "string list option"
  pol_tools :: "string list option"
  pol_actions :: "string list option"
  pol_knowledge :: "string list option"
  pol_approval :: "GovernanceApprovalSettings option"

datatype DecisionSource = SrcOntology | SrcPolicy | SrcDefault

record GovernanceDecision =
  dec_effect :: GovernanceEffect
  dec_policyId :: "EnterpriseId option"
  dec_source :: DecisionSource
  dec_reason :: string
  dec_approval :: "GovernanceApprovalSettings option"
  dec_ontologyOmission :: bool
  dec_outwardActionId :: "EnterpriseId option"

section \<open>Run plans\<close>

record EnterprisePlanNode =
  nodeId :: EnterpriseId
  parentId :: "EnterpriseId option"
  seq :: nat
  node_title :: string
  node_description :: "string option"
  ontology :: OntologyBinding

datatype RouteSource = RoutePlanner | RouteWholeTree

record EnterpriseRoutePlan =
  rp_routes :: "EnterpriseId list"
  rp_rationale :: string
  rp_source :: RouteSource
  rp_selectedNodes :: nat
  rp_totalNodes :: nat
  rp_invalidRoutes :: "string list option"

datatype WorkflowTreeSource =
    SourcePlanner | SourceOnlyCandidate | SourceNoMatch | SourceUnavailable | SourceFallback

record EnterpriseRunPlan =
  executionModel :: "string option"
  runId :: string
  treeId :: EnterpriseId
  treeVersion :: string
  treeName :: string
  matchedBy :: WorkflowTreeSource
  treeRationale :: "string option"
  treeHash :: "string option"
  requestSummary :: string
  nodes :: "EnterprisePlanNode list"
  plan_route :: "EnterpriseRoutePlan option"
  activeNodeId :: EnterpriseId
  mcpGoverned :: "bool option"
  mcpAttachments :: "string list option"
  mcpDeniedTools :: "string list option"
  capabilityGrants :: "WorkflowCapabilityGrants option"
  grantedSkills :: "string list option"
  plan_mode :: EnterpriseMode
  createdAt :: int

end
