(* ===== verification/Tree_References.thy ===== *)
theory Tree_References
  imports Enterprise_Types
begin

text \<open>
  \<^verbatim>\<open>src/enterprise/tree-references.ts\<close>: what a workflow tree references from its node ontology
  (knowledge foundations, tool globs, skills, MCP servers). A visit over the tree is the list of
  its nodes, root first and then the children depth first; a collector that adds to a \<open>Set\<close> on
  each visit and sorts it at the end is \<^const>\<open>sorted_set\<close> of the concatenated contributions.
\<close>

section \<open>The traversal\<close>

text \<open>\<open>walkWorkflowNodes\<close>, as the list of the nodes in the order they are visited.\<close>

fun walkWorkflowNodes :: "WorkflowNodeDefinition \<Rightarrow> WorkflowNodeDefinition list" where
  "walkWorkflowNodes (WorkflowNode i t d ont cs) =
     WorkflowNode i t d ont cs #
       (case cs of None \<Rightarrow> [] | Some ks \<Rightarrow> concat (map walkWorkflowNodes ks))"

definition node_children :: "WorkflowNodeDefinition \<Rightarrow> WorkflowNodeDefinition list" where
  "node_children n = opt_list (wn_children n)"

definition node_binding :: "WorkflowNodeDefinition \<Rightarrow> OntologyBinding" where
  "node_binding n = (case wn_ontology n of None \<Rightarrow> empty_binding | Some b \<Rightarrow> b)"

text \<open>The nodes below a node, as a relation: the node itself, or a node below one of its children.\<close>

inductive descendant :: "WorkflowNodeDefinition \<Rightarrow> WorkflowNodeDefinition \<Rightarrow> bool" where
  self: "descendant n n"
| below: "c \<in> set (node_children n) \<Longrightarrow> descendant c d \<Longrightarrow> descendant n d"

lemma walkWorkflowNodes_eq:
  "walkWorkflowNodes n = n # concat (map walkWorkflowNodes (node_children n))"
  by (cases n) (simp add: node_children_def opt_list_def split: option.split)

lemma walk_root [simp]: "n \<in> set (walkWorkflowNodes n)"
  by (subst walkWorkflowNodes_eq) simp

lemma hd_walk [simp]: "hd (walkWorkflowNodes n) = n"
  by (subst walkWorkflowNodes_eq) simp

lemma walk_not_Nil [simp]: "walkWorkflowNodes n \<noteq> []"
  by (subst walkWorkflowNodes_eq) simp

lemma child_smaller: "c \<in> set (node_children n) \<Longrightarrow> size c < size n"
proof (cases n)
  case (WorkflowNode i t d ont cs)
  assume "c \<in> set (node_children n)"
  with WorkflowNode obtain ks where ks: "cs = Some ks" "c \<in> set ks"
    by (auto simp: node_children_def opt_list_def split: option.splits)
  from ks(2) have "size c \<le> size_list size ks" by (rule size_list_estimation') simp
  with WorkflowNode ks(1) show ?thesis by simp
qed

lemma node_induct [case_names node]:
  assumes "\<And>n. (\<And>c. c \<in> set (node_children n) \<Longrightarrow> P c) \<Longrightarrow> P n"
  shows "P n"
  by (induction n rule: measure_induct_rule [of size]) (metis assms child_smaller)

lemma walk_descendant: "d \<in> set (walkWorkflowNodes n) \<longleftrightarrow> descendant n d"
proof (induction n rule: node_induct)
  case (node n)
  show ?case
  proof
    assume "d \<in> set (walkWorkflowNodes n)"
    then have "d = n \<or> (\<exists>c \<in> set (node_children n). d \<in> set (walkWorkflowNodes c))"
      by (subst (asm) walkWorkflowNodes_eq) auto
    then show "descendant n d"
      using node by (auto intro: descendant.intros)
  next
    assume "descendant n d"
    then show "d \<in> set (walkWorkflowNodes n)"
      by cases (use node in \<open>auto simp: walkWorkflowNodes_eq [of n]\<close>)
  qed
qed

section \<open>The collectors\<close>

definition collect_refs :: "(OntologyBinding \<Rightarrow> string list) \<Rightarrow> WorkflowTreeDefinition \<Rightarrow> string list" where
  "collect_refs f tree = sorted_set (concat (map (f \<circ> node_binding) (walkWorkflowNodes (tree_root tree))))"

definition collectReferencedFoundationIds :: "WorkflowTreeDefinition \<Rightarrow> string list" where
  "collectReferencedFoundationIds = collect_refs (\<lambda>b. opt_list (knowledgeFoundations b))"

definition treeHasUnboundedKnowledgeScope :: "WorkflowTreeDefinition \<Rightarrow> bool" where
  "treeHasUnboundedKnowledgeScope tree =
     (if tree_capabilityGrants tree = Some GrantsExplicit then False
      else list_ex (\<lambda>n. opt_list (knowledgeFoundations (node_binding n)) = [])
        (walkWorkflowNodes (tree_root tree)))"

definition call_effect_tools :: "OntologyAction \<Rightarrow> string list" where
  "call_effect_tools a =
     concat (map (\<lambda>e. case e of CallEffect c \<Rightarrow> [ce_tool c] | _ \<Rightarrow> []) (opt_list (act_effects a)))"

definition collectReferencedToolGlobs :: "WorkflowTreeDefinition \<Rightarrow> string list" where
  "collectReferencedToolGlobs =
     collect_refs (\<lambda>b. opt_list (allowedTools b) @ concat (map call_effect_tools (opt_list (actions b))))"

definition collectReferencedSkills :: "WorkflowTreeDefinition \<Rightarrow> string list" where
  "collectReferencedSkills = collect_refs (\<lambda>b. opt_list (skills b))"

definition collectReferencedMcpServers :: "WorkflowTreeDefinition \<Rightarrow> string list" where
  "collectReferencedMcpServers = collect_refs (\<lambda>b. opt_list (mcpServers b))"

lemma collect_refs_props:
  "set (collect_refs f tree) = (\<Union>n \<in> {n. descendant (tree_root tree) n}. set (f (node_binding n)))"
  "sorted (collect_refs f tree)" "distinct (collect_refs f tree)"
  by (auto simp: collect_refs_def walk_descendant)

text \<open>
  The portability manifest of a bundle is complete and minimal: a foundation id is listed by
  \<open>collectReferencedFoundationIds\<close> exactly when some node of the tree, at any depth, names it,
  and the list is sorted without repetitions.
\<close>

theorem referenced_foundations_exact:
  "(f \<in> set (collectReferencedFoundationIds tree) \<longleftrightarrow>
     (\<exists>n. descendant (tree_root tree) n \<and> f \<in> set (opt_list (knowledgeFoundations (node_binding n)))))
   \<and> sorted (collectReferencedFoundationIds tree) \<and> distinct (collectReferencedFoundationIds tree)"
  by (auto simp: collectReferencedFoundationIds_def collect_refs_props)

end
