(* ===== verification/Expr_Syntax.thy ===== *)
theory Expr_Syntax
  imports Enterprise_Types
begin

text \<open>
  The syntax of ontology expressions, \<^verbatim>\<open>src/enterprise/ontology-expression.ts\<close>: the expression
  tree, the tokenizer and the recursive-descent parser. A parser method works on the remaining
  tokens instead of an index into the token array, and takes a fuel argument; running out of it
  is the error \<open>OutOfFuel\<close>, which the theory \<open>Expr_Parser\<close> shows never to happen for the
  fuel the entry point supplies.
\<close>

section \<open>Expression trees\<close>

datatype UnaryOp = UNeg | UNot

datatype BinaryOp = OpOr | OpAnd | OpEq | OpNe | OpLt | OpLe | OpGt | OpGe
  | OpAdd | OpSub | OpMul | OpDiv | OpMod

datatype CallName = FnAbs | FnRound | FnFloor | FnCeil | FnLower | FnUpper | FnLength
  | FnMin | FnMax | FnCoalesce

datatype Node =
    Literal OntologyValue
  | Property string
  | Unary UnaryOp Node
  | Binary BinaryOp Node Node
  | Ternary Node Node Node
  | Call CallName "Node list"

fun op_text :: "BinaryOp \<Rightarrow> string" where
  "op_text OpOr = ''||''"
| "op_text OpAnd = ''&&''"
| "op_text OpEq = ''==''"
| "op_text OpNe = ''!=''"
| "op_text OpLt = ''<''"
| "op_text OpLe = ''<=''"
| "op_text OpGt = ''>''"
| "op_text OpGe = ''>=''"
| "op_text OpAdd = ''+''"
| "op_text OpSub = ''-''"
| "op_text OpMul = ''*''"
| "op_text OpDiv = ''/''"
| "op_text OpMod = ''%''"

text \<open>The callable helpers with their arity.\<close>

definition CALLS :: "(string \<times> CallName \<times> nat) list" where
  "CALLS = [(''abs'', FnAbs, 1), (''round'', FnRound, 1), (''floor'', FnFloor, 1),
     (''ceil'', FnCeil, 1), (''lower'', FnLower, 1), (''upper'', FnUpper, 1),
     (''length'', FnLength, 1), (''min'', FnMin, 2), (''max'', FnMax, 2), (''coalesce'', FnCoalesce, 2)]"

fun call_text :: "CallName \<Rightarrow> string" where
  "call_text FnAbs = ''abs''"
| "call_text FnRound = ''round''"
| "call_text FnFloor = ''floor''"
| "call_text FnCeil = ''ceil''"
| "call_text FnLower = ''lower''"
| "call_text FnUpper = ''upper''"
| "call_text FnLength = ''length''"
| "call_text FnMin = ''min''"
| "call_text FnMax = ''max''"
| "call_text FnCoalesce = ''coalesce''"

fun call_arity :: "CallName \<Rightarrow> nat" where
  "call_arity FnMin = 2"
| "call_arity FnMax = 2"
| "call_arity FnCoalesce = 2"
| "call_arity _ = 1"

lemma CALLS_complete: "map_of CALLS (call_text f) = Some (f, call_arity f)"
  by (cases f) (simp_all add: CALLS_def)

lemma CALLS_sound: "map_of CALLS name = Some (f, n) \<Longrightarrow> name = call_text f \<and> n = call_arity f"
proof (drule map_of_SomeD)
  assume "(name, f, n) \<in> set CALLS"
  then show ?thesis by (simp add: CALLS_def) (elim disjE conjE; simp)
qed

lemma op_text_inj [simp]: "op_text a = op_text b \<longleftrightarrow> a = b"
  by (cases a; cases b; simp)

section \<open>Tokenizer\<close>

datatype Token = TNumber js_number | TString string | TProperty string | TName string
  | TPunct string | TEnd

text \<open>Multi-character operators first.\<close>

definition PUNCT :: "string list" where
  "PUNCT = [''||'', ''&&'', ''=='', ''!='', ''<='', ''>='', ''<'', ''>'', ''+'', ''-'', ''*'',
     ''/'', ''%'', ''!'', ''('', '')'', '','', ''?'', '':'']"

definition name_char :: "char \<Rightarrow> bool" where
  "name_char c = (is_lower c \<or> is_digit c \<or> c = CHR ''-'')"

definition property_ref_char :: "char \<Rightarrow> bool" where
  "property_ref_char c = (name_char c \<or> c = CHR ''.'')"

definition number_char :: "char \<Rightarrow> bool" where
  "number_char c = (is_digit c \<or> c = CHR ''.'')"

text \<open>\<open>PROPERTY_ID_PATTERN\<close>: dot-separated segments, each a letter or digit and then name characters.\<close>

definition id_segment :: "string \<Rightarrow> bool" where
  "id_segment seg = (case seg of [] \<Rightarrow> False
     | c # cs \<Rightarrow> (is_lower c \<or> is_digit c) \<and> list_all name_char cs)"

definition property_id_ok :: "string \<Rightarrow> bool" where
  "property_id_ok ref = list_all id_segment (split_on (CHR ''.'') ref)"

definition at_position :: "nat \<Rightarrow> string" where
  "at_position n = '' at position '' @ show_nat n"

lemma find_PUNCT: "List.find P PUNCT = Some p \<Longrightarrow> 0 < length p"
  by (drule find_Some_mem) (auto simp: PUNCT_def)

function tokenize_at :: "nat \<Rightarrow> string \<Rightarrow> Token list result" where
  "tokenize_at i [] = Inr [TEnd]"
| "tokenize_at i (c # cs) =
     (if is_space c then tokenize_at (i + 1) cs
      else if c = CHR ''$'' then
        (let ref = takeWhile property_ref_char cs in
         if ref = [] then Inl (''expected a property id after '' @ quoted ''$'' @ at_position i)
         else if \<not> property_id_ok ref
           then Inl (quoted (CHR ''$'' # ref) @ at_position i @ '' is not a valid property id'')
         else bind_result (tokenize_at (i + 1 + length ref) (dropWhile property_ref_char cs))
           (\<lambda>ts. Inr (TProperty ref # ts)))
      else if c = CHR 0x27 \<or> c = CHR 0x22 then
        (if c \<notin> set cs then Inl (''unterminated string starting'' @ at_position i)
         else let s = takeWhile (\<lambda>d. d \<noteq> c) cs in
           bind_result (tokenize_at (i + 2 + length s) (tl (dropWhile (\<lambda>d. d \<noteq> c) cs)))
             (\<lambda>ts. Inr (TString s # ts)))
      else if is_digit c then
        (let raw = takeWhile number_char (c # cs); value = parse_decimal raw in
         if \<not> is_finite value then Inl (''invalid number '' @ quoted raw @ at_position i)
         else bind_result (tokenize_at (i + length raw) (dropWhile number_char (c # cs)))
           (\<lambda>ts. Inr (TNumber value # ts)))
      else if is_lower c then
        (let name = takeWhile name_char (c # cs) in
         bind_result (tokenize_at (i + length name) (dropWhile name_char (c # cs)))
           (\<lambda>ts. Inr (TName name # ts)))
      else case List.find (startsWith (c # cs)) PUNCT of
          None \<Rightarrow> Inl (''unexpected character '' @ quoted [c] @ at_position i)
        | Some p \<Rightarrow> bind_result (tokenize_at (i + length p) (drop (length p) (c # cs)))
            (\<lambda>ts. Inr (TPunct p # ts)))"
  by pat_completeness auto
termination
proof (relation "measure (\<lambda>(i, s). length s)", goal_cases)
  case (4 i c cs x)
  have "length (dropWhile (\<lambda>d. d \<noteq> c) cs) \<le> length cs" by (rule length_dropWhile_le)
  then show ?case by simp
next
  case (5 i c cs raw v)
  have "length (dropWhile number_char cs) \<le> length cs" by (rule length_dropWhile_le)
  with 5 show ?case by (simp add: number_char_def)
next
  case (6 i c cs name)
  have "length (dropWhile name_char cs) \<le> length cs" by (rule length_dropWhile_le)
  with 6 show ?case by (simp add: name_char_def)
next
  case (7 i c cs p)
  then show ?case by (auto dest: find_PUNCT)
qed (simp_all add: length_dropWhile_le le_imp_less_Suc)

declare tokenize_at.simps [simp del]

definition tokenize :: "string \<Rightarrow> Token list result" where
  "tokenize source = tokenize_at 0 source"

section \<open>Parser\<close>

datatype parse_error = OutOfFuel | SyntaxError string

text \<open>Binary tiers, loosest binding first.\<close>

definition BINARY_TIERS :: "BinaryOp list list" where
  "BINARY_TIERS = [[OpOr], [OpAnd], [OpEq, OpNe], [OpLt, OpLe, OpGt, OpGe],
     [OpAdd, OpSub], [OpMul, OpDiv, OpMod]]"

fun peek :: "Token list \<Rightarrow> Token" where
  "peek [] = TEnd"
| "peek (t # ts) = t"

fun eatPunct :: "string \<Rightarrow> Token list \<Rightarrow> Token list option" where
  "eatPunct v (TPunct w # ts) = (if w = v then Some ts else None)"
| "eatPunct v ts = None"

definition find_op :: "BinaryOp list \<Rightarrow> Token list \<Rightarrow> BinaryOp option" where
  "find_op ops ts = List.find (\<lambda>p. peek ts = TPunct (op_text p)) ops"

definition unknown_function :: "string \<Rightarrow> string" where
  "unknown_function name = ''unknown function '' @ quoted name @ ''; available: '' @
     join '', '' (sort (map fst CALLS))"

definition wrong_arity :: "string \<Rightarrow> nat \<Rightarrow> nat \<Rightarrow> string" where
  "wrong_arity name n got = quoted name @ '' takes '' @ show_nat n @ '' argument(s), got '' @ show_nat got"

type_synonym 'a parsed = "parse_error + 'a \<times> Token list"

function (sequential) parseTernary :: "nat \<Rightarrow> Token list \<Rightarrow> Node parsed"
  and parseBinary :: "nat \<Rightarrow> nat \<Rightarrow> Token list \<Rightarrow> Node parsed"
  and parseBinaryLoop :: "nat \<Rightarrow> nat \<Rightarrow> BinaryOp list \<Rightarrow> Node \<Rightarrow> Token list \<Rightarrow> Node parsed"
  and parseUnary :: "nat \<Rightarrow> Token list \<Rightarrow> Node parsed"
  and parsePrimary :: "nat \<Rightarrow> Token list \<Rightarrow> Node parsed"
  and parseCall :: "nat \<Rightarrow> string \<Rightarrow> Token list \<Rightarrow> Node parsed"
  and parseArgs :: "nat \<Rightarrow> Node list \<Rightarrow> Token list \<Rightarrow> Node list parsed" where
  "parseTernary 0 ts = Inl OutOfFuel"
| "parseTernary (Suc f) ts =
     bind_result (parseBinary f 0 ts) (\<lambda>(condition, ts1).
       case eatPunct ''?'' ts1 of
         None \<Rightarrow> Inr (condition, ts1)
       | Some ts2 \<Rightarrow> bind_result (parseTernary f ts2) (\<lambda>(whenTrue, ts3).
           case eatPunct '':'' ts3 of
             None \<Rightarrow> Inl (SyntaxError (''expected '' @ quoted '':'' @ '' to complete the '' @
               quoted ''? :'' @ '' expression''))
           | Some ts4 \<Rightarrow> bind_result (parseTernary f ts4) (\<lambda>(whenFalse, ts5).
               Inr (Ternary condition whenTrue whenFalse, ts5))))"
| "parseBinary 0 tier ts = Inl OutOfFuel"
| "parseBinary (Suc f) tier ts =
     (case nth_opt BINARY_TIERS tier of
        None \<Rightarrow> parseUnary f ts
      | Some ops \<Rightarrow> bind_result (parseBinary f (tier + 1) ts)
          (\<lambda>(left, ts1). parseBinaryLoop f tier ops left ts1))"
| "parseBinaryLoop 0 tier ops left ts = Inl OutOfFuel"
| "parseBinaryLoop (Suc f) tier ops left ts =
     (case find_op ops ts of
        None \<Rightarrow> Inr (left, ts)
      | Some p \<Rightarrow> bind_result (parseBinary f (tier + 1) (tl ts))
          (\<lambda>(right, ts1). parseBinaryLoop f tier ops (Binary p left right) ts1))"
| "parseUnary 0 ts = Inl OutOfFuel"
| "parseUnary (Suc f) ts =
     (case eatPunct ''-'' ts of
        Some ts1 \<Rightarrow> bind_result (parseUnary f ts1) (\<lambda>(operand, ts2). Inr (Unary UNeg operand, ts2))
      | None \<Rightarrow> (case eatPunct ''!'' ts of
          Some ts1 \<Rightarrow> bind_result (parseUnary f ts1) (\<lambda>(operand, ts2). Inr (Unary UNot operand, ts2))
        | None \<Rightarrow> parsePrimary f ts))"
| "parsePrimary 0 ts = Inl OutOfFuel"
| "parsePrimary (Suc f) ts =
     (case eatPunct ''('' ts of
        Some ts1 \<Rightarrow> bind_result (parseTernary f ts1) (\<lambda>(inner, ts2).
          case eatPunct '')'' ts2 of
            None \<Rightarrow> Inl (SyntaxError (''expected '' @ quoted '')''))
          | Some ts3 \<Rightarrow> Inr (inner, ts3))
      | None \<Rightarrow> (case peek ts of
          TNumber n \<Rightarrow> Inr (Literal (VNum n), tl ts)
        | TString s \<Rightarrow> Inr (Literal (VStr s), tl ts)
        | TProperty i \<Rightarrow> Inr (Property i, tl ts)
        | TName name \<Rightarrow>
            (if name = ''true'' \<or> name = ''false'' then Inr (Literal (VBool (name = ''true'')), tl ts)
             else if name = ''null'' then Inr (Literal VNull, tl ts)
             else parseCall f name (tl ts))
        | _ \<Rightarrow> Inl (SyntaxError ''expected a value'')))"
| "parseCall 0 name ts = Inl OutOfFuel"
| "parseCall (Suc f) name ts =
     (case map_of CALLS name of
        None \<Rightarrow> Inl (SyntaxError (unknown_function name))
      | Some (fn, arity) \<Rightarrow> (case eatPunct ''('' ts of
          None \<Rightarrow> Inl (SyntaxError (''expected '' @ quoted ''('' @ '' after '' @ quoted name))
        | Some ts1 \<Rightarrow> bind_result
            (case eatPunct '')'' ts1 of
               Some ts2 \<Rightarrow> Inr ([], ts2)
             | None \<Rightarrow> bind_result (parseArgs f [] ts1) (\<lambda>(args, ts2).
                 case eatPunct '')'' ts2 of
                   None \<Rightarrow> Inl (SyntaxError (''expected '' @ quoted '')'' @ '' to close '' @
                     quoted (name @ ''('')))
                 | Some ts3 \<Rightarrow> Inr (args, ts3)))
            (\<lambda>(args, ts4).
               if length args \<noteq> arity
               then Inl (SyntaxError (wrong_arity name arity (length args)))
               else Inr (Call fn args, ts4))))"
| "parseArgs 0 args ts = Inl OutOfFuel"
| "parseArgs (Suc f) args ts =
     bind_result (parseTernary f ts) (\<lambda>(arg, ts1).
       case eatPunct '','' ts1 of
         None \<Rightarrow> Inr (args @ [arg], ts1)
       | Some ts2 \<Rightarrow> parseArgs f (args @ [arg]) ts2)"
  by pat_completeness auto
termination
  by (relation "measure (case_sum (case_sum fst (case_sum fst fst))
      (case_sum (case_sum fst fst) (case_sum fst fst)))") simp_all

text \<open>Eleven units of fuel for every token and as many to start with.\<close>

definition parse_fuel :: "Token list \<Rightarrow> nat" where
  "parse_fuel ts = 11 * length ts + 11"

definition parse_tokens :: "Token list \<Rightarrow> parse_error + Node" where
  "parse_tokens ts = bind_result (parseTernary (parse_fuel ts) ts) (\<lambda>(node, rest).
     if peek rest \<noteq> TEnd then Inl (SyntaxError ''unexpected trailing input'') else Inr node)"

definition parseOntologyExpression :: "string \<Rightarrow> parse_error + Node" where
  "parseOntologyExpression source =
     (if trim source = [] then Inl (SyntaxError ''expression must not be blank'')
      else case tokenize source of
        Inl e \<Rightarrow> Inl (SyntaxError e)
      | Inr ts \<Rightarrow> parse_tokens ts)"

text \<open>\<open>ontologyExpressionProperties\<close>: the property ids the expression reads, sorted.\<close>

fun node_properties :: "Node \<Rightarrow> string list" where
  "node_properties (Literal v) = []"
| "node_properties (Property i) = [i]"
| "node_properties (Unary u n) = node_properties n"
| "node_properties (Binary p l r) = node_properties l @ node_properties r"
| "node_properties (Ternary c t e) = node_properties c @ node_properties t @ node_properties e"
| "node_properties (Call fn args) = concat (map node_properties args)"

definition ontologyExpressionProperties :: "Node \<Rightarrow> string list" where
  "ontologyExpressionProperties e = sorted_set (node_properties e)"

end
