(* ===== verification/Expr_Parser.thy ===== *)
theory Expr_Parser
  imports Expr_Syntax
begin

text \<open>
  What the expression parser guarantees. \<open>consumes\<close>: every parser method leaves fewer tokens than
  it was given. \<open>fuelled\<close>: the fuel of the entry point is never used up. \<open>approx\<close>: more fuel never
  changes an answer, so that the \<open>evT\<close>, \<open>evB\<close>, ... rules can speak of a parse without naming the
  fuel. \<open>unparse\<close> prints a tree with the fewest parentheses, and \<open>inverts\<close> is the invariant by
  which parsing it gives the tree back. \<open>builds_ok\<close>: the trees returned are well formed.
\<close>

section \<open>Parsing consumes tokens\<close>

lemma eatPunct_Some [simp]: "eatPunct v ts = Some r \<longleftrightarrow> ts = TPunct v # r"
  by (cases "(v, ts)" rule: eatPunct.cases) auto

lemma find_op_Some:
  "find_op ops ts = Some p \<Longrightarrow> \<exists>r. ts = TPunct (op_text p) # r \<and> p \<in> set ops"
  by (cases ts) (auto simp: find_op_def dest: find_Some_mem)

lemma peek_Cons: "peek ts \<noteq> TEnd \<Longrightarrow> \<exists>r. ts = peek ts # r"
  by (cases ts) auto

definition consumes :: "nat \<Rightarrow> bool" where
  "consumes f \<longleftrightarrow>
     (\<forall>ts n r. parseTernary f ts = Inr (n, r) \<longrightarrow> length r < length ts) \<and>
     (\<forall>k ts n r. parseBinary f k ts = Inr (n, r) \<longrightarrow> length r < length ts) \<and>
     (\<forall>k ops l ts n r. parseBinaryLoop f k ops l ts = Inr (n, r) \<longrightarrow> length r \<le> length ts) \<and>
     (\<forall>ts n r. parseUnary f ts = Inr (n, r) \<longrightarrow> length r < length ts) \<and>
     (\<forall>ts n r. parsePrimary f ts = Inr (n, r) \<longrightarrow> length r < length ts) \<and>
     (\<forall>name ts n r. parseCall f name ts = Inr (n, r) \<longrightarrow> length r < length ts) \<and>
     (\<forall>as ts bs r. parseArgs f as ts = Inr (bs, r) \<longrightarrow> length r < length ts)"

lemma consumes_0: "consumes 0"
  by (simp add: consumes_def)

lemma consumes_Suc:
  assumes c: "consumes f"
  shows "consumes (Suc f)"
proof -
  from c have T: "\<And>ts n r. parseTernary f ts = Inr (n, r) \<Longrightarrow> length r < length ts"
    and B: "\<And>k ts n r. parseBinary f k ts = Inr (n, r) \<Longrightarrow> length r < length ts"
    and L: "\<And>k ops l ts n r. parseBinaryLoop f k ops l ts = Inr (n, r) \<Longrightarrow> length r \<le> length ts"
    and U: "\<And>ts n r. parseUnary f ts = Inr (n, r) \<Longrightarrow> length r < length ts"
    and P: "\<And>ts n r. parsePrimary f ts = Inr (n, r) \<Longrightarrow> length r < length ts"
    and C: "\<And>name ts n r. parseCall f name ts = Inr (n, r) \<Longrightarrow> length r < length ts"
    and A: "\<And>as ts bs r. parseArgs f as ts = Inr (bs, r) \<Longrightarrow> length r < length ts"
    by (simp_all add: consumes_def)
  have "length r < length ts" if "parseTernary (Suc f) ts = Inr (n, r)" for ts n r
    using that by (auto split: option.splits dest!: T B)
  moreover have "length r < length ts" if "parseBinary (Suc f) k ts = Inr (n, r)" for k ts n r
    using that by (auto split: option.splits dest!: U B L)
  moreover have "length r \<le> length ts" if "parseBinaryLoop (Suc f) k ops l ts = Inr (n, r)"
    for k ops l ts n r
    using that by (auto split: option.splits dest!: B L find_op_Some)
  moreover have "length r < length ts" if "parseUnary (Suc f) ts = Inr (n, r)" for ts n r
    using that by (auto split: option.splits dest!: U P)
  moreover have "length r < length ts" if "parsePrimary (Suc f) ts = Inr (n, r)" for ts n r
    using that by (cases ts; cases "hd ts") (auto split: option.splits if_splits dest!: T C)
  moreover have "length r < length ts" if "parseCall (Suc f) name ts = Inr (n, r)" for name ts n r
    using that by (auto split: option.splits if_splits dest!: A)
  moreover have "length r < length ts" if "parseArgs (Suc f) as ts = Inr (bs, r)" for as ts bs r
    using that by (auto split: option.splits dest!: T A)
  ultimately show ?thesis unfolding consumes_def by blast
qed

lemma consumes: "consumes f"
  by (induction f) (simp_all add: consumes_0 consumes_Suc)

lemma parse_shorter:
  "parseTernary f ts = Inr (n, r) \<Longrightarrow> length r < length ts"
  "parseBinary f k ts = Inr (n, r) \<Longrightarrow> length r < length ts"
  "parseBinaryLoop f k ops l ts = Inr (n, r) \<Longrightarrow> length r \<le> length ts"
  "parseUnary f ts = Inr (n, r) \<Longrightarrow> length r < length ts"
  "parsePrimary f ts = Inr (n, r) \<Longrightarrow> length r < length ts"
  "parseCall f name ts = Inr (n, r) \<Longrightarrow> length r < length ts"
  "parseArgs f as ts = Inr (bs, r) \<Longrightarrow> length r < length ts"
  by (use consumes [of f] in \<open>auto simp: consumes_def\<close>)

section \<open>The fuel suffices\<close>

text \<open>
  A chain of calls on the same tokens passes the ternary, the six tiers, the tier below them, the
  unary and the primary level; every other call happens after at least one token was read.
\<close>

definition fuelled :: "nat \<Rightarrow> bool" where
  "fuelled f \<longleftrightarrow>
     (\<forall>ts. parseTernary f ts = Inl OutOfFuel \<longrightarrow> f < 11 * length ts + 10) \<and>
     (\<forall>k ts. parseBinary f k ts = Inl OutOfFuel \<longrightarrow> k \<le> 6 \<longrightarrow> f + k < 11 * length ts + 9) \<and>
     (\<forall>k ops l ts. parseBinaryLoop f k ops l ts = Inl OutOfFuel \<longrightarrow> k < 6 \<longrightarrow> f < 11 * length ts + 1) \<and>
     (\<forall>ts. parseUnary f ts = Inl OutOfFuel \<longrightarrow> f < 11 * length ts + 2) \<and>
     (\<forall>ts. parsePrimary f ts = Inl OutOfFuel \<longrightarrow> f < 11 * length ts + 1) \<and>
     (\<forall>name ts. parseCall f name ts = Inl OutOfFuel \<longrightarrow> f < 11 * length ts + 1) \<and>
     (\<forall>as ts. parseArgs f as ts = Inl OutOfFuel \<longrightarrow> f < 11 * length ts + 11)"

lemma tiers: "nth_opt BINARY_TIERS k = Some ops \<Longrightarrow> k < 6"
  by (simp add: BINARY_TIERS_def)

lemma fuelled_0: "fuelled 0"
  by (auto simp: fuelled_def)

lemma fuelled_Suc:
  assumes c: "fuelled f"
  shows "fuelled (Suc f)"
proof -
  from c have T: "\<And>ts. parseTernary f ts = Inl OutOfFuel \<Longrightarrow> f < 11 * length ts + 10"
    and B: "\<And>k ts. parseBinary f k ts = Inl OutOfFuel \<Longrightarrow> k \<le> 6 \<Longrightarrow> f + k < 11 * length ts + 9"
    and L: "\<And>k ops l ts. parseBinaryLoop f k ops l ts = Inl OutOfFuel \<Longrightarrow> k < 6 \<Longrightarrow> f < 11 * length ts + 1"
    and U: "\<And>ts. parseUnary f ts = Inl OutOfFuel \<Longrightarrow> f < 11 * length ts + 2"
    and P: "\<And>ts. parsePrimary f ts = Inl OutOfFuel \<Longrightarrow> f < 11 * length ts + 1"
    and C: "\<And>name ts. parseCall f name ts = Inl OutOfFuel \<Longrightarrow> f < 11 * length ts + 1"
    and A: "\<And>as ts. parseArgs f as ts = Inl OutOfFuel \<Longrightarrow> f < 11 * length ts + 11"
    by (simp_all add: fuelled_def)
  have "Suc f < 11 * length ts + 10" if "parseTernary (Suc f) ts = Inl OutOfFuel" for ts
    using that by (auto split: option.splits prod.splits dest!: parse_shorter T B)
  moreover have "Suc f + k < 11 * length ts + 9"
    if "parseBinary (Suc f) k ts = Inl OutOfFuel" "k \<le> 6" for k ts
    using that
    by (auto split: option.splits prod.splits dest: tiers dest!: parse_shorter U B L simp del: nth_opt_Some)
  moreover have "Suc f < 11 * length ts + 1"
    if "parseBinaryLoop (Suc f) k ops l ts = Inl OutOfFuel" "k < 6" for k ops l ts
    using that by (auto split: option.splits prod.splits dest!: parse_shorter find_op_Some B L)
  moreover have "Suc f < 11 * length ts + 2" if "parseUnary (Suc f) ts = Inl OutOfFuel" for ts
    using that by (auto split: option.splits prod.splits dest!: U P)
  moreover have "Suc f < 11 * length ts + 1" if "parsePrimary (Suc f) ts = Inl OutOfFuel" for ts
    using that by (cases ts; cases "hd ts") (auto split: option.splits prod.splits if_splits dest!: T C)
  moreover have "Suc f < 11 * length ts + 1" if "parseCall (Suc f) name ts = Inl OutOfFuel" for name ts
    using that by (auto split: option.splits prod.splits if_splits dest!: A)
  moreover have "Suc f < 11 * length ts + 11" if "parseArgs (Suc f) as ts = Inl OutOfFuel" for as ts
    using that by (auto split: option.splits prod.splits dest!: parse_shorter T A)
  ultimately show ?thesis unfolding fuelled_def by blast
qed

lemma fuelled: "fuelled f"
  by (induction f) (simp_all add: fuelled_0 fuelled_Suc)

section \<open>More fuel changes nothing\<close>

lemmas parser_simps = parseTernary.simps parseBinary.simps parseBinaryLoop.simps parseUnary.simps
  parsePrimary.simps parseCall.simps parseArgs.simps

declare parser_simps [simp del] eatPunct_Some [simp del] nth_opt_Some [simp del] nth_opt_None [simp del]

definition approx :: "parse_error + 'a \<Rightarrow> parse_error + 'a \<Rightarrow> bool" where
  "approx a b \<longleftrightarrow> a = Inl OutOfFuel \<or> a = b"

lemma approx_refl [simp, intro]: "approx a a"
  by (simp add: approx_def)

lemma approx_bind:
  "approx a b \<Longrightarrow> (\<And>x. a = Inr x \<Longrightarrow> approx (f x) (g x)) \<Longrightarrow> approx (bind_result a f) (bind_result b g)"
  by (cases a) (auto simp: approx_def)

lemma approx_Inr: "approx a b \<Longrightarrow> a = Inr x \<Longrightarrow> b = Inr x"
  by (auto simp: approx_def)

definition fuel_mono :: "nat \<Rightarrow> bool" where
  "fuel_mono f \<longleftrightarrow>
     (\<forall>ts. approx (parseTernary f ts) (parseTernary (Suc f) ts)) \<and>
     (\<forall>k ts. approx (parseBinary f k ts) (parseBinary (Suc f) k ts)) \<and>
     (\<forall>k ops l ts. approx (parseBinaryLoop f k ops l ts) (parseBinaryLoop (Suc f) k ops l ts)) \<and>
     (\<forall>ts. approx (parseUnary f ts) (parseUnary (Suc f) ts)) \<and>
     (\<forall>ts. approx (parsePrimary f ts) (parsePrimary (Suc f) ts)) \<and>
     (\<forall>name ts. approx (parseCall f name ts) (parseCall (Suc f) name ts)) \<and>
     (\<forall>as ts. approx (parseArgs f as ts) (parseArgs (Suc f) as ts))"

lemma fuel_mono_0: "fuel_mono 0"
  by (simp add: fuel_mono_def approx_def parser_simps)

lemma fuel_mono_Suc:
  assumes c: "fuel_mono f"
  shows "fuel_mono (Suc f)"
proof -
  from c have IH: "\<And>ts. approx (parseTernary f ts) (parseTernary (Suc f) ts)"
    "\<And>k ts. approx (parseBinary f k ts) (parseBinary (Suc f) k ts)"
    "\<And>k ops l ts. approx (parseBinaryLoop f k ops l ts) (parseBinaryLoop (Suc f) k ops l ts)"
    "\<And>ts. approx (parseUnary f ts) (parseUnary (Suc f) ts)"
    "\<And>ts. approx (parsePrimary f ts) (parsePrimary (Suc f) ts)"
    "\<And>name ts. approx (parseCall f name ts) (parseCall (Suc f) name ts)"
    "\<And>as ts. approx (parseArgs f as ts) (parseArgs (Suc f) as ts)"
    by (simp_all only: fuel_mono_def)
  have "approx (parseTernary (Suc f) ts) (parseTernary (Suc (Suc f)) ts)" for ts
    unfolding parseTernary.simps(2) [of f ts] parseTernary.simps(2) [of "Suc f" ts]
    by (auto intro!: approx_bind IH split: option.splits)
  moreover have "approx (parseBinary (Suc f) k ts) (parseBinary (Suc (Suc f)) k ts)" for k ts
    unfolding parseBinary.simps(2) [of f k ts] parseBinary.simps(2) [of "Suc f" k ts]
    by (auto intro!: approx_bind IH split: option.splits)
  moreover have "approx (parseBinaryLoop (Suc f) k ops l ts) (parseBinaryLoop (Suc (Suc f)) k ops l ts)" for k ops l ts
    unfolding parseBinaryLoop.simps(2) [of f k ops l ts] parseBinaryLoop.simps(2) [of "Suc f" k ops l ts]
    by (auto intro!: approx_bind IH split: option.splits)
  moreover have "approx (parseUnary (Suc f) ts) (parseUnary (Suc (Suc f)) ts)" for ts
    unfolding parseUnary.simps(2) [of f ts] parseUnary.simps(2) [of "Suc f" ts]
    by (auto intro!: approx_bind IH split: option.splits)
  moreover have "approx (parsePrimary (Suc f) ts) (parsePrimary (Suc (Suc f)) ts)" for ts
    unfolding parsePrimary.simps(2) [of f ts] parsePrimary.simps(2) [of "Suc f" ts]
    by (auto intro!: approx_bind IH split: option.splits Token.splits)
  moreover have "approx (parseCall (Suc f) name ts) (parseCall (Suc (Suc f)) name ts)" for name ts
    unfolding parseCall.simps(2) [of f name ts] parseCall.simps(2) [of "Suc f" name ts]
    by (auto intro!: approx_bind IH split: option.splits)
  moreover have "approx (parseArgs (Suc f) as ts) (parseArgs (Suc (Suc f)) as ts)" for as ts
    unfolding parseArgs.simps(2) [of f as ts] parseArgs.simps(2) [of "Suc f" as ts]
    by (auto intro!: approx_bind IH split: option.splits)
  ultimately show ?thesis unfolding fuel_mono_def by blast
qed

lemma fuel_mono: "fuel_mono f"
  by (induction f) (simp_all add: fuel_mono_0 fuel_mono_Suc)

lemma mono_step:
  assumes "\<And>f. approx (g f) (g (Suc f))" "g f = Inr x" "f \<le> f'"
  shows "g f' = Inr x"
  using assms(3) by (induction f' rule: dec_induct) (use assms(1,2) in \<open>auto dest: approx_Inr\<close>)

lemma approx_step:
  "approx (parseTernary f ts) (parseTernary (Suc f) ts)"
  "approx (parseBinary f k ts) (parseBinary (Suc f) k ts)"
  "approx (parseBinaryLoop f k ops l ts) (parseBinaryLoop (Suc f) k ops l ts)"
  "approx (parseUnary f ts) (parseUnary (Suc f) ts)"
  "approx (parsePrimary f ts) (parsePrimary (Suc f) ts)"
  "approx (parseCall f name ts) (parseCall (Suc f) name ts)"
  "approx (parseArgs f as ts) (parseArgs (Suc f) as ts)"
  by (use fuel_mono [of f] in \<open>simp_all only: fuel_mono_def\<close>)

lemma more_fuel_parseTernary: "parseTernary f ts = Inr x \<Longrightarrow> f \<le> f' \<Longrightarrow> parseTernary f' ts = Inr x"
  by (rule mono_step [where g = "\<lambda>f. parseTernary f ts", OF approx_step(1)])

lemma more_fuel_parseBinary: "parseBinary f k ts = Inr x \<Longrightarrow> f \<le> f' \<Longrightarrow> parseBinary f' k ts = Inr x"
  by (rule mono_step [where g = "\<lambda>f. parseBinary f k ts", OF approx_step(2)])

lemma more_fuel_parseBinaryLoop: "parseBinaryLoop f k ops l ts = Inr x \<Longrightarrow> f \<le> f' \<Longrightarrow> parseBinaryLoop f' k ops l ts = Inr x"
  by (rule mono_step [where g = "\<lambda>f. parseBinaryLoop f k ops l ts", OF approx_step(3)])

lemma more_fuel_parseUnary: "parseUnary f ts = Inr x \<Longrightarrow> f \<le> f' \<Longrightarrow> parseUnary f' ts = Inr x"
  by (rule mono_step [where g = "\<lambda>f. parseUnary f ts", OF approx_step(4)])

lemma more_fuel_parsePrimary: "parsePrimary f ts = Inr x \<Longrightarrow> f \<le> f' \<Longrightarrow> parsePrimary f' ts = Inr x"
  by (rule mono_step [where g = "\<lambda>f. parsePrimary f ts", OF approx_step(5)])

lemma more_fuel_parseCall: "parseCall f name ts = Inr x \<Longrightarrow> f \<le> f' \<Longrightarrow> parseCall f' name ts = Inr x"
  by (rule mono_step [where g = "\<lambda>f. parseCall f name ts", OF approx_step(6)])

lemma more_fuel_parseArgs: "parseArgs f as ts = Inr x \<Longrightarrow> f \<le> f' \<Longrightarrow> parseArgs f' as ts = Inr x"
  by (rule mono_step [where g = "\<lambda>f. parseArgs f as ts", OF approx_step(7)])

lemmas more_fuel = more_fuel_parseTernary more_fuel_parseBinary more_fuel_parseBinaryLoop more_fuel_parseUnary more_fuel_parsePrimary more_fuel_parseCall more_fuel_parseArgs


text \<open>
  What a parser method yields given enough fuel, with one rule per branch that succeeds: the
  parser of the source, without the fuel.
\<close>

definition evT :: "Token list \<Rightarrow> Node \<times> Token list \<Rightarrow> bool" where
  "evT ts x \<longleftrightarrow> (\<exists>f. parseTernary f ts = Inr x)"
definition evB :: "nat \<Rightarrow> Token list \<Rightarrow> Node \<times> Token list \<Rightarrow> bool" where
  "evB k ts x \<longleftrightarrow> (\<exists>f. parseBinary f k ts = Inr x)"
definition evL :: "nat \<Rightarrow> Node \<Rightarrow> Token list \<Rightarrow> Node \<times> Token list \<Rightarrow> bool" where
  "evL k l ts x \<longleftrightarrow> (\<exists>f. parseBinaryLoop f k (BINARY_TIERS ! k) l ts = Inr x)"
definition evU :: "Token list \<Rightarrow> Node \<times> Token list \<Rightarrow> bool" where
  "evU ts x \<longleftrightarrow> (\<exists>f. parseUnary f ts = Inr x)"
definition evP :: "Token list \<Rightarrow> Node \<times> Token list \<Rightarrow> bool" where
  "evP ts x \<longleftrightarrow> (\<exists>f. parsePrimary f ts = Inr x)"
definition evA :: "Node list \<Rightarrow> Token list \<Rightarrow> Node list \<times> Token list \<Rightarrow> bool" where
  "evA as ts x \<longleftrightarrow> (\<exists>f. parseArgs f as ts = Inr x)"

lemmas ev_defs = evT_def evB_def evL_def evU_def evP_def evA_def

text \<open>Two runs succeed with a common amount of fuel.\<close>

lemma ev_B_T: "evB k ts x \<Longrightarrow> evT us y \<Longrightarrow> \<exists>f. parseBinary f k ts = Inr x \<and> parseTernary f us = Inr y"
  unfolding ev_defs by (metis max.cobounded1 max.cobounded2 more_fuel)

lemma ev_B_L: "evB k ts x \<Longrightarrow> evL j l us y \<Longrightarrow>
    \<exists>f. parseBinary f k ts = Inr x \<and> parseBinaryLoop f j (BINARY_TIERS ! j) l us = Inr y"
  unfolding ev_defs by (metis max.cobounded1 max.cobounded2 more_fuel)

lemma ev_T_T: "evT ts x \<Longrightarrow> evT us y \<Longrightarrow> \<exists>f. parseTernary f ts = Inr x \<and> parseTernary f us = Inr y"
  unfolding ev_defs by (metis max.cobounded1 max.cobounded2 more_fuel)

lemma ev_T_A: "evT ts x \<Longrightarrow> evA as us y \<Longrightarrow> \<exists>f. parseTernary f ts = Inr x \<and> parseArgs f as us = Inr y"
  unfolding ev_defs by (metis max.cobounded1 max.cobounded2 more_fuel)

lemma eatPunct_same [simp]: "eatPunct v (TPunct v # ts) = Some ts"
  by simp

lemma evT_plain: "evB 0 ts (c, r) \<Longrightarrow> eatPunct ''?'' r = None \<Longrightarrow> evT ts (c, r)"
proof -
  assume "evB 0 ts (c, r)" "eatPunct ''?'' r = None"
  then obtain f where "parseBinary f 0 ts = Inr (c, r)" by (auto simp: evB_def)
  with \<open>eatPunct ''?'' r = None\<close> have "parseTernary (Suc f) ts = Inr (c, r)"
    by (simp add: parser_simps)
  then show ?thesis unfolding evT_def ..
qed

lemma evT_ternary:
  assumes "evB 0 ts (c, TPunct ''?'' # us)" "evT us (a, TPunct '':'' # vs)" "evT vs (b, r)"
  shows "evT ts (Ternary c a b, r)"
proof -
  obtain f1 where f1: "parseBinary f1 0 ts = Inr (c, TPunct ''?'' # us)"
    "parseTernary f1 us = Inr (a, TPunct '':'' # vs)"
    using ev_B_T [OF assms(1,2)] by auto
  obtain f2 where f2: "parseTernary f2 vs = Inr (b, r)" using assms(3) by (auto simp: evT_def)
  have "parseTernary (Suc (max f1 f2)) ts = Inr (Ternary c a b, r)"
    using more_fuel_parseBinary [OF f1(1), of "max f1 f2"] more_fuel_parseTernary [OF f1(2), of "max f1 f2"]
      more_fuel_parseTernary [OF f2, of "max f1 f2"]
    by (simp add: parser_simps)
  then show ?thesis unfolding evT_def ..
qed

lemma tier_Some: "k < 6 \<Longrightarrow> nth_opt BINARY_TIERS k = Some (BINARY_TIERS ! k)"
  by (simp add: nth_opt_Some BINARY_TIERS_def)

lemma tier_None: "nth_opt BINARY_TIERS 6 = None"
  by (simp add: nth_opt_None BINARY_TIERS_def)

lemma evB_unary: "evU ts x \<Longrightarrow> evB 6 ts x"
proof -
  assume "evU ts x"
  then obtain f where "parseUnary f ts = Inr x" by (auto simp: evU_def)
  then have "parseBinary (Suc f) 6 ts = Inr x" by (simp add: parser_simps tier_None)
  then show ?thesis unfolding evB_def ..
qed

lemma evB_tier:
  assumes "k < 6" "evB (k + 1) ts (l, us)" "evL k l us x"
  shows "evB k ts x"
proof -
  obtain f where "parseBinary f (k + 1) ts = Inr (l, us)"
    "parseBinaryLoop f k (BINARY_TIERS ! k) l us = Inr x"
    using ev_B_L [OF assms(2,3)] by auto
  then have "parseBinary (Suc f) k ts = Inr x"
    using assms(1) by (simp add: parser_simps tier_Some)
  then show ?thesis unfolding evB_def ..
qed

lemma evL_stop: "find_op (BINARY_TIERS ! k) ts = None \<Longrightarrow> evL k l ts (l, ts)"
  unfolding evL_def by (intro exI [of _ "Suc 0"]) (simp add: parser_simps)

lemma evL_step:
  assumes "find_op (BINARY_TIERS ! k) (t # ts) = Some p" "evB (k + 1) ts (r, us)"
    "evL k (Binary p l r) us x"
  shows "evL k l (t # ts) x"
proof -
  obtain f where "parseBinary f (k + 1) ts = Inr (r, us)"
    "parseBinaryLoop f k (BINARY_TIERS ! k) (Binary p l r) us = Inr x"
    using ev_B_L [OF assms(2,3)] by auto
  then have "parseBinaryLoop (Suc f) k (BINARY_TIERS ! k) l (t # ts) = Inr x"
    using assms(1) by (simp add: parser_simps)
  then show ?thesis unfolding evL_def ..
qed


lemma evU_sign:
  assumes "evU ts (n, r)"
  shows "evU (TPunct ''-'' # ts) (Unary UNeg n, r)" and "evU (TPunct ''!'' # ts) (Unary UNot n, r)"
proof -
  from assms obtain f where "parseUnary f ts = Inr (n, r)" by (auto simp: evU_def)
  then have "parseUnary (Suc f) (TPunct ''-'' # ts) = Inr (Unary UNeg n, r)"
    "parseUnary (Suc f) (TPunct ''!'' # ts) = Inr (Unary UNot n, r)"
    by (simp_all add: parser_simps)
  then show "evU (TPunct ''-'' # ts) (Unary UNeg n, r)" "evU (TPunct ''!'' # ts) (Unary UNot n, r)"
    unfolding evU_def by blast+
qed

lemma evU_primary:
  assumes "evP ts x" "eatPunct ''-'' ts = None" "eatPunct ''!'' ts = None"
  shows "evU ts x"
proof -
  from assms(1) obtain f where "parsePrimary f ts = Inr x" by (auto simp: evP_def)
  with assms(2,3) have "parseUnary (Suc f) ts = Inr x" by (simp add: parser_simps)
  then show ?thesis unfolding evU_def ..
qed

lemma evP_paren:
  assumes "evT ts (n, TPunct '')'' # r)"
  shows "evP (TPunct ''('' # ts) (n, r)"
proof -
  from assms obtain f where "parseTernary f ts = Inr (n, TPunct '')'' # r)" by (auto simp: evT_def)
  then have "parsePrimary (Suc f) (TPunct ''('' # ts) = Inr (n, r)" by (simp add: parser_simps)
  then show ?thesis unfolding evP_def ..
qed

lemma evA_last: "evT ts (a, r) \<Longrightarrow> eatPunct '','' r = None \<Longrightarrow> evA as ts (as @ [a], r)"
proof -
  assume "evT ts (a, r)" "eatPunct '','' r = None"
  then obtain f where "parseTernary f ts = Inr (a, r)" by (auto simp: evT_def)
  with \<open>eatPunct '','' r = None\<close> have "parseArgs (Suc f) as ts = Inr (as @ [a], r)"
    by (simp add: parser_simps)
  then show ?thesis unfolding evA_def ..
qed

lemma evA_more:
  assumes "evT ts (a, TPunct '','' # us)" "evA (as @ [a]) us x"
  shows "evA as ts x"
proof -
  obtain f where "parseTernary f ts = Inr (a, TPunct '','' # us)" "parseArgs f (as @ [a]) us = Inr x"
    using ev_T_A [OF assms] by auto
  then have "parseArgs (Suc f) as ts = Inr x" by (simp add: parser_simps)
  then show ?thesis unfolding evA_def ..
qed

lemma call_text_no_keyword: "call_text fn \<noteq> ''true''" "call_text fn \<noteq> ''false''" "call_text fn \<noteq> ''null''"
  by (cases fn; simp)+

lemma evP_call:
  assumes "evA [] ts (args, TPunct '')'' # r)" "length args = call_arity fn" "eatPunct '')'' ts = None"
  shows "evP (TName (call_text fn) # TPunct ''('' # ts) (Call fn args, r)"
proof -
  from assms(1) obtain f where "parseArgs f [] ts = Inr (args, TPunct '')'' # r)" by (auto simp: evA_def)
  then have "parseCall (Suc f) (call_text fn) (TPunct ''('' # ts) = Inr (Call fn args, r)"
    using assms(2,3) by (simp add: parser_simps CALLS_complete)
  then have "parsePrimary (Suc (Suc f)) (TName (call_text fn) # TPunct ''('' # ts) = Inr (Call fn args, r)"
    by (subst parsePrimary.simps) (simp add: call_text_no_keyword)
  then show ?thesis unfolding evP_def ..
qed

section \<open>A printer with the fewest parentheses\<close>

text \<open>
  The reference the parser is judged by: \<open>unparse v\<close> prints a node where an operand of binding
  level \<open>v\<close> is expected, with parentheses only around a looser operator. Level 0 is the
  conditional, levels 1 to 6 the binary tiers, 7 the unary operators, 8 the primaries. A binary
  operator prints its left operand at its own level and its right operand one level up, which
  says that every tier associates to the left.
\<close>

fun op_tier :: "BinaryOp \<Rightarrow> nat" where
  "op_tier OpOr = 0"
| "op_tier OpAnd = 1"
| "op_tier OpEq = 2"
| "op_tier OpNe = 2"
| "op_tier OpLt = 3"
| "op_tier OpLe = 3"
| "op_tier OpGt = 3"
| "op_tier OpGe = 3"
| "op_tier OpAdd = 4"
| "op_tier OpSub = 4"
| "op_tier OpMul = 5"
| "op_tier OpDiv = 5"
| "op_tier OpMod = 5"

fun literal_token :: "OntologyValue \<Rightarrow> Token" where
  "literal_token (VNum n) = TNumber n"
| "literal_token (VStr s) = TString s"
| "literal_token (VBool b) = TName (if b then ''true'' else ''false'')"
| "literal_token VNull = TName ''null''"

definition paren_if :: "bool \<Rightarrow> Token list \<Rightarrow> Token list" where
  "paren_if b ts = (if b then TPunct ''('' # ts @ [TPunct '')''] else ts)"

lemma paren_if_simps [simp]:
  "paren_if True ts = TPunct ''('' # ts @ [TPunct '')'']" "paren_if False ts = ts"
  by (simp_all add: paren_if_def)

fun join_args :: "Token list list \<Rightarrow> Token list" where
  "join_args [] = []"
| "join_args [a] = a"
| "join_args (a # b # as) = a @ TPunct '','' # join_args (b # as)"

fun unparse :: "nat \<Rightarrow> Node \<Rightarrow> Token list" where
  "unparse v (Literal x) = [literal_token x]"
| "unparse v (Property i) = [TProperty i]"
| "unparse v (Unary u n) =
     paren_if (7 < v) (TPunct (case u of UNeg \<Rightarrow> ''-'' | UNot \<Rightarrow> ''!'') # unparse 7 n)"
| "unparse v (Binary p l r) =
     paren_if (op_tier p + 1 < v)
       (unparse (op_tier p + 1) l @ TPunct (op_text p) # unparse (op_tier p + 2) r)"
| "unparse v (Ternary c a b) =
     paren_if (0 < v) (unparse 1 c @ TPunct ''?'' # unparse 0 a @ TPunct '':'' # unparse 0 b)"
| "unparse v (Call fn args) =
     TName (call_text fn) # TPunct ''('' # join_args (map (unparse 0) args) @ [TPunct '')'']"

text \<open>The trees the parser can build: every call has the arity of its function.\<close>

fun well_formed :: "Node \<Rightarrow> bool" where
  "well_formed (Literal v) = True"
| "well_formed (Property i) = True"
| "well_formed (Unary u n) = well_formed n"
| "well_formed (Binary p l r) = (well_formed l \<and> well_formed r)"
| "well_formed (Ternary c a b) = (well_formed c \<and> well_formed a \<and> well_formed b)"
| "well_formed (Call fn args) = (length args = call_arity fn \<and> list_all well_formed args)"

text \<open>No operator of tier \<open>k\<close> or tighter starts the rest of the input.\<close>

definition quiet :: "nat \<Rightarrow> Token list \<Rightarrow> bool" where
  "quiet k ts \<longleftrightarrow> (\<forall>i. k \<le> i \<longrightarrow> i < 6 \<longrightarrow> find_op (BINARY_TIERS ! i) ts = None)"

lemma quiet_mono: "quiet k ts \<Longrightarrow> k \<le> j \<Longrightarrow> quiet j ts"
  by (auto simp: quiet_def)

lemma tier_cases: "i < 6 \<Longrightarrow> i = 0 \<or> i = 1 \<or> i = 2 \<or> i = 3 \<or> i = 4 \<or> i = (5::nat)"
  by linarith

lemma find_op_tier:
  "i < 6 \<Longrightarrow> find_op (BINARY_TIERS ! i) (TPunct (op_text p) # ts) = (if op_tier p = i then Some p else None)"
  by (drule tier_cases) (elim disjE; cases p; simp add: find_op_def BINARY_TIERS_def)

lemma find_op_other:
  "i < 6 \<Longrightarrow> peek ts \<notin> range (\<lambda>p. TPunct (op_text p)) \<Longrightarrow> find_op (BINARY_TIERS ! i) ts = None"
  by (auto simp: find_op_def find_None_iff)

lemma quiet_op: "op_tier p < k \<Longrightarrow> quiet k (TPunct (op_text p) # ts)"
  by (auto simp: quiet_def find_op_tier)

lemma quiet_other: "peek ts \<notin> range (\<lambda>p. TPunct (op_text p)) \<Longrightarrow> quiet k ts"
  by (auto simp: quiet_def find_op_other)

lemma op_text_not [simp]:
  "op_text p \<noteq> ''?''" "op_text p \<noteq> '':''" "op_text p \<noteq> '')''" "op_text p \<noteq> '','' " "op_text p \<noteq> ''(''" "op_text p \<noteq> ''!''"
  by (cases p; simp)+

lemma quiet_closers [simp]:
  "quiet k (TPunct ''?'' # ts)" "quiet k (TPunct '':'' # ts)" "quiet k (TPunct '')'' # ts)"
  "quiet k (TPunct '','' # ts)" "quiet k [TEnd]"
  by (rule quiet_other; simp add: image_iff; metis op_text_not)+


section \<open>Parsing inverts printing\<close>

text \<open>
  What the parser does with a printed node \<open>n\<close> in front of any input \<open>rest\<close>: as a primary, as
  a unary, at a binary tier (it continues in that tier's loop with \<open>n\<close> as the left operand), and
  as a whole expression.
\<close>

definition inverts :: "Node \<Rightarrow> bool" where
  "inverts n \<longleftrightarrow>
     (\<forall>rest. evU (unparse 7 n @ rest) (n, rest)) \<and>
     (\<forall>k rest x. k < 6 \<longrightarrow> quiet (k + 1) rest \<longrightarrow> evL k n rest x \<longrightarrow> evB k (unparse (k + 1) n @ rest) x) \<and>
     (\<forall>rest. quiet 0 rest \<longrightarrow> eatPunct ''?'' rest = None \<longrightarrow> evT (unparse 0 n @ rest) (n, rest))"

lemma invertsD:
  assumes "inverts n"
  shows inverts_U: "evU (unparse 7 n @ rest) (n, rest)"
    and inverts_L: "k < 6 \<Longrightarrow> quiet (k + 1) rest \<Longrightarrow> evL k n rest x \<Longrightarrow> evB k (unparse (k + 1) n @ rest) x"
    and inverts_T: "quiet 0 rest \<Longrightarrow> eatPunct ''?'' rest = None \<Longrightarrow> evT (unparse 0 n @ rest) (n, rest)"
  using assms unfolding inverts_def by blast+

lemma inverts_B:
  assumes "inverts n" "k \<le> 6" "quiet k rest"
  shows "evB k (unparse (k + 1) n @ rest) (n, rest)"
proof (cases "k < 6")
  case True
  have "evL k n rest (n, rest)"
    using assms(3) True by (intro evL_stop) (auto simp: quiet_def)
  with True assms show ?thesis by (intro inverts_L) (auto intro: quiet_mono)
next
  case False
  with assms(2) have "k = 6" by simp
  with inverts_U [OF assms(1), of rest] show ?thesis by (auto intro: evB_unary)
qed

text \<open>A printing that parses as a unary parses at every tier.\<close>

lemma unary_at_tier:
  assumes u: "\<And>rest. evU (us @ rest) (n, rest)" and "k \<le> 6" "quiet k rest"
  shows "evB k (us @ rest) (n, rest)"
  using assms(2,3)
proof (induction k rule: inc_induct)
  case base
  show ?case by (rule evB_unary) (rule u)
next
  case (step k)
  then have "evB (Suc k) (us @ rest) (n, rest)" using quiet_mono [of k rest "Suc k"] by simp
  then show ?case
    using step by (intro evB_tier [of k _ n rest] evL_stop) (auto simp: quiet_def)
qed

lemma unary_in_loop:
  assumes u: "\<And>rest. evU (us @ rest) (n, rest)" and "k < 6" "quiet (k + 1) rest" "evL k n rest x"
  shows "evB k (us @ rest) x"
  using assms(2-4) unary_at_tier [OF u, of "k + 1" rest] by (intro evB_tier [of k _ n rest]) auto

lemma evT_of_tier0:
  "evB 0 (us @ rest) (n, rest) \<Longrightarrow> eatPunct ''?'' rest = None \<Longrightarrow> evT (us @ rest) (n, rest)"
  by (rule evT_plain)

lemma inverts_atom:
  assumes u: "\<And>rest. evU (us @ rest) (n, rest)" and same: "\<And>v. v \<le> 7 \<Longrightarrow> unparse v n = us"
  shows "inverts n"
  unfolding inverts_def
  using unary_in_loop [OF u] unary_at_tier [OF u, of 0] u
  by (auto simp: same intro: evT_plain)

lemma evU_literal: "evU (literal_token v # rest) (Literal v, rest)"
proof (rule evU_primary)
  have "parsePrimary (Suc 0) (literal_token v # rest) = Inr (Literal v, rest)"
    by (cases v) (simp_all add: parser_simps)
  then show "evP (literal_token v # rest) (Literal v, rest)" unfolding evP_def ..
qed (cases v; simp)+

lemma evU_property: "evU (TProperty i # rest) (Property i, rest)"
proof (rule evU_primary)
  have "parsePrimary (Suc 0) (TProperty i # rest) = Inr (Property i, rest)"
    by (simp add: parser_simps)
  then show "evP (TProperty i # rest) (Property i, rest)" unfolding evP_def ..
qed simp_all

lemma evU_parens: "evT (ts @ TPunct '')'' # rest) (n, TPunct '')'' # rest) \<Longrightarrow>
    evU ((TPunct ''('' # ts @ [TPunct '')'']) @ rest) (n, rest)"
  by (intro evU_primary) (auto intro: evP_paren)

lemma inverts_unary: "inverts n \<Longrightarrow> inverts (Unary u n)"
  by (rule inverts_atom [where us = "TPunct (case u of UNeg \<Rightarrow> ''-'' | UNot \<Rightarrow> ''!'') # unparse 7 n"])
    (cases u; simp add: paren_if_def evU_sign inverts_U)+

lemma inverts_ternary:
  assumes "inverts c" "inverts a" "inverts b"
  shows "inverts (Ternary c a b)"
proof -
  have T: "evT (unparse 0 (Ternary c a b) @ rest) (Ternary c a b, rest)"
    if "quiet 0 rest" "eatPunct ''?'' rest = None" for rest
  proof -
    let ?vs = "unparse 0 b @ rest"
    let ?us = "unparse 0 a @ TPunct '':'' # ?vs"
    have "evB 0 (unparse 1 c @ TPunct ''?'' # ?us) (c, TPunct ''?'' # ?us)"
      using inverts_B [OF assms(1), of 0] by simp
    moreover have "evT ?us (a, TPunct '':'' # ?vs)"
      by (rule inverts_T [OF assms(2)]) simp_all
    moreover have "evT ?vs (b, rest)" using assms(3) that by (rule inverts_T)
    ultimately show ?thesis by (simp add: paren_if_def evT_ternary)
  qed
  have U: "evU ((TPunct ''('' # unparse 0 (Ternary c a b) @ [TPunct '')'']) @ rest) (Ternary c a b, rest)" for rest
    by (rule evU_parens) (rule T; simp)
  have pr: "unparse v (Ternary c a b) = TPunct ''('' # unparse 0 (Ternary c a b) @ [TPunct '')'']" if "0 < v" for v
    using that by (simp add: paren_if_def)
  have "evB k (unparse (k + 1) (Ternary c a b) @ rest) x"
    if "k < 6" "quiet (k + 1) rest" "evL k (Ternary c a b) rest x" for k rest x
    using unary_in_loop [OF U that] by (simp only: pr)
  then show ?thesis
    unfolding inverts_def using U T pr [of 7] by simp
qed

lemma inverts_binary:
  assumes "inverts l" "inverts r"
  shows "inverts (Binary p l r)"
proof -
  let ?n = "Binary p l r" and ?t = "op_tier p"
  let ?bare = "unparse (?t + 1) l @ TPunct (op_text p) # unparse (?t + 2) r"
  have t: "?t < 6" by (cases p) simp_all
  have at_tier: "evB ?t (?bare @ rest) x" if "quiet (?t + 1) rest" "evL ?t ?n rest x" for rest x
  proof -
    let ?us = "unparse (?t + 2) r @ rest"
    have "evB (?t + 1) ?us (r, rest)"
      using inverts_B [OF assms(2), of "?t + 1" rest] t that(1) by simp
    then have "evL ?t l (TPunct (op_text p) # ?us) x"
      using that(2) t by (intro evL_step [where p = p]) (simp_all add: find_op_tier)
    moreover have "quiet (?t + 1) (TPunct (op_text p) # ?us)" by (rule quiet_op) simp
    ultimately show ?thesis using inverts_L [OF assms(1) t] by simp
  qed
  have below: "evB k (?bare @ rest) (?n, rest)" if "k \<le> ?t" "quiet k rest" for k rest
    using that
  proof (induction k rule: inc_induct)
    case base
    with t show ?case
      by (intro at_tier evL_stop) (auto simp: quiet_def)
  next
    case (step k)
    then have "evB (Suc k) (?bare @ rest) (?n, rest)" using quiet_mono [of k rest "Suc k"] by simp
    then show ?case
      using step t by (intro evB_tier [of k _ ?n rest] evL_stop) (auto simp: quiet_def)
  qed
  have T: "evT (?bare @ rest) (?n, rest)" if "quiet 0 rest" "eatPunct ''?'' rest = None" for rest
    using that below [of 0 rest] by (auto intro: evT_plain)
  have U: "evU ((TPunct ''('' # ?bare @ [TPunct '')'']) @ rest) (?n, rest)" for rest
    by (rule evU_parens) (rule T; simp)
  have loop: "evB k (unparse (k + 1) ?n @ rest) x"
    if k: "k < 6" "quiet (k + 1) rest" "evL k ?n rest x" for k rest x
  proof -
    consider "?t < k" | "k = ?t" | "k < ?t" by linarith
    then show ?thesis
    proof cases
      case 1
      then show ?thesis using unary_in_loop [OF U k] by (simp add: paren_if_def)
    next
      case 2
      then show ?thesis using at_tier [of rest x] k by (simp add: paren_if_def)
    next
      case 3
      then show ?thesis
        using below [of "k + 1" rest] k evB_tier [of k "?bare @ rest" ?n rest x]
        by (simp add: paren_if_def)
    qed
  qed
  show ?thesis
    unfolding inverts_def using loop T U t by (simp add: paren_if_def)
qed

lemma args_parse:
  assumes "\<And>a. a \<in> set args \<Longrightarrow> inverts a" "args \<noteq> []"
  shows "evA as (join_args (map (unparse 0) args) @ TPunct '')'' # rest) (as @ args, TPunct '')'' # rest)"
  using assms
proof (induction args arbitrary: as)
  case Nil
  then show ?case by simp
next
  case (Cons a args)
  show ?case
  proof (cases args)
    case Nil
    with Cons.prems show ?thesis
      by (auto intro!: evA_last inverts_T)
  next
    case (Cons b bs)
    have "evT (unparse 0 a @ TPunct '','' # join_args (map (unparse 0) args) @ TPunct '')'' # rest)
        (a, TPunct '','' # join_args (map (unparse 0) args) @ TPunct '')'' # rest)"
      using Cons.prems by (intro inverts_T) auto
    moreover have "evA (as @ [a]) (join_args (map (unparse 0) args) @ TPunct '')'' # rest)
        ((as @ [a]) @ args, TPunct '')'' # rest)"
      using Cons.prems Cons by (intro Cons.IH) auto
    ultimately show ?thesis using Cons by (auto intro: evA_more)
  qed
qed

lemma unparse_head: "unparse v n \<noteq> [] \<and> hd (unparse v n) \<noteq> TPunct '')''"
proof (induction v n rule: unparse.induct)
  case (1 v x)
  then show ?case by (cases x) simp_all
next
  case (3 v u n)
  then show ?case by (cases u) (simp_all add: paren_if_def)
qed (auto simp: paren_if_def)

lemma inverts_call:
  assumes "\<And>a. a \<in> set args \<Longrightarrow> inverts a" "length args = call_arity fn"
  shows "inverts (Call fn args)"
proof (rule inverts_atom)
  have ne: "args \<noteq> []" using assms(2) by (cases fn) auto
  then obtain b bs where args: "args = b # bs" by (cases args) auto
  obtain h hs where h: "unparse 0 b = h # hs" "h \<noteq> TPunct '')''"
    using unparse_head [of 0 b] by (cases "unparse 0 b") auto
  have eat: "eatPunct '')'' (join_args (map (unparse 0) args) @ ts) = None" for ts
  proof (cases "join_args (map (unparse 0) args) @ ts")
    case (Cons u us)
    then have "u = h" using h args by (cases bs) auto
    with Cons h(2) show ?thesis by (cases u) (auto split: if_splits)
  qed simp
  show "evU ((TName (call_text fn) # TPunct ''('' # join_args (map (unparse 0) args) @ [TPunct '')'']) @ rest)
      (Call fn args, rest)" for rest
    using args_parse [OF assms(1) ne, of "[]" rest] assms(2) eat
    by (intro evU_primary) (simp_all add: evP_call)
qed simp_all

lemma well_formed_inverts: "well_formed n \<Longrightarrow> inverts n"
proof (induction n)
  case (Literal v)
  show ?case by (rule inverts_atom [where us = "[literal_token v]"]) (simp_all add: evU_literal)
next
  case (Property i)
  show ?case by (rule inverts_atom [where us = "[TProperty i]"]) (simp_all add: evU_property)
next
  case (Call fn args)
  then show ?case by (auto simp: list_all_iff intro: inverts_call)
qed (auto intro: inverts_unary inverts_binary inverts_ternary)

lemma no_out_of_fuel: "parseTernary (parse_fuel ts) ts \<noteq> Inl OutOfFuel"
  using fuelled [of "parse_fuel ts"] unfolding fuelled_def parse_fuel_def by force

lemma fuel_error:
  assumes "parseTernary (parse_fuel ts) ts = Inl e"
  shows "parseTernary (max f (parse_fuel ts)) ts = Inl e"
proof -
  from assms no_out_of_fuel [of ts] have "e \<noteq> OutOfFuel" by auto
  have "parse_fuel ts \<le> g \<Longrightarrow> parseTernary g ts = Inl e" for g
  proof (induction g rule: dec_induct)
    case base
    show ?case by (rule assms)
  next
    case (step g)
    with approx_step(1) [of g ts] \<open>e \<noteq> OutOfFuel\<close> show ?case by (auto simp: approx_def)
  qed
  then show ?thesis by simp
qed

lemma evT_parse:
  assumes "evT ts x"
  shows "parseTernary (parse_fuel ts) ts = Inr x"
proof -
  from assms obtain f where f: "parseTernary f ts = Inr x" by (auto simp: evT_def)
  let ?m = "max f (parse_fuel ts)"
  have "parseTernary ?m ts = Inr x" using f by (rule more_fuel_parseTernary) simp
  moreover have "parseTernary (parse_fuel ts) ts = Inr y \<Longrightarrow> parseTernary ?m ts = Inr y" for y
    by (erule more_fuel_parseTernary) simp
  moreover have "parseTernary (parse_fuel ts) ts = Inl e \<Longrightarrow> parseTernary ?m ts = Inl e" for e
    using fuel_error [of ts e f] by blast
  ultimately show ?thesis
    by (cases "parseTernary (parse_fuel ts) ts") auto
qed


section \<open>What the tokenizer and the parser guarantee\<close>

definition token_ok :: "Token \<Rightarrow> bool" where
  "token_ok t = (case t of TNumber n \<Rightarrow> is_finite n \<and> representable n
     | TProperty i \<Rightarrow> property_id_ok i | _ \<Rightarrow> True)"

fun node_ok :: "Node \<Rightarrow> bool" where
  "node_ok (Literal v) = (case v of VNum n \<Rightarrow> is_finite n \<and> representable n | _ \<Rightarrow> True)"
| "node_ok (Property i) = property_id_ok i"
| "node_ok (Unary u n) = node_ok n"
| "node_ok (Binary p l r) = (node_ok l \<and> node_ok r)"
| "node_ok (Ternary c a b) = (node_ok c \<and> node_ok a \<and> node_ok b)"
| "node_ok (Call fn args) = (length args = call_arity fn \<and> list_all node_ok args)"

lemma node_ok_well_formed: "node_ok n \<Longrightarrow> well_formed n"
  by (induction n) (auto simp: list_all_iff)

lemma tokenize_at_ok: "tokenize_at i s = Inr ts \<Longrightarrow> list_all token_ok ts"
proof (induction "length s" arbitrary: i s ts rule: less_induct)
  case less
  have IH: "tokenize_at j u = Inr us \<Longrightarrow> length u < length s \<Longrightarrow> list_all token_ok us" for j u us
    using less.hyps by blast
  have drop: "length (dropWhile P xs) < length s" if "length xs < length s" for P and xs :: string
    using length_dropWhile_le [of P xs] that by linarith
  have simple: "token_ok (TString x)" "token_ok (TName x)" "token_ok (TPunct x)" "token_ok TEnd" for x
    by (simp_all add: token_ok_def)
  show ?case
  proof (cases s)
    case Nil
    with less.prems show ?thesis by (auto simp: tokenize_at.simps simple)
  next
    case (Cons c cs)
    note eq = less.prems [unfolded Cons tokenize_at.simps]
    consider "is_space c" | "\<not> is_space c" "c = CHR ''$''"
      | "\<not> is_space c" "c \<noteq> CHR ''$''" "c = CHR 0x27 \<or> c = CHR 0x22"
      | "\<not> is_space c" "c \<noteq> CHR ''$''" "\<not> (c = CHR 0x27 \<or> c = CHR 0x22)" "is_digit c"
      | "\<not> is_space c" "c \<noteq> CHR ''$''" "\<not> (c = CHR 0x27 \<or> c = CHR 0x22)" "\<not> is_digit c" "is_lower c"
      | "\<not> is_space c" "c \<noteq> CHR ''$''" "\<not> (c = CHR 0x27 \<or> c = CHR 0x22)" "\<not> is_digit c" "\<not> is_lower c"
      by blast
    then show ?thesis
    proof cases
      case 1
      with eq IH [of "i + 1" cs] Cons show ?thesis by simp
    next
      case 2
      with eq Cons show ?thesis
        by (auto simp: Let_def token_ok_def length_dropWhile_le le_imp_less_Suc split: if_splits dest!: IH)
    next
      case 3
      have "length (tl (dropWhile (\<lambda>d. d \<noteq> c) cs)) < length s"
        using length_dropWhile_le [of "\<lambda>d. d \<noteq> c" cs] Cons by (simp add: le_imp_less_Suc)
      with 3 eq show ?thesis
        by (simp only: Let_def if_False if_True simp_thms split: if_splits) (auto simp: simple dest: IH)
    next
      case 4
      then have "number_char c" by (simp add: number_char_def)
      with 4 eq Cons show ?thesis
        by (auto simp: Let_def token_ok_def split: if_splits dest!: IH simp: length_dropWhile_le le_imp_less_Suc)
    next
      case 5
      then have "name_char c" by (simp add: name_char_def)
      with 5 eq Cons show ?thesis
        by (auto simp: Let_def simple split: if_splits dest!: IH simp: length_dropWhile_le le_imp_less_Suc)
    next
      case 6
      with eq Cons show ?thesis
        by (auto simp: Let_def simple split: option.splits dest!: IH dest: find_PUNCT)
    qed
  qed
qed

lemma tokenize_ok: "tokenize s = Inr ts \<Longrightarrow> list_all token_ok ts"
  unfolding tokenize_def by (rule tokenize_at_ok)

definition builds_ok :: "nat \<Rightarrow> bool" where
  "builds_ok f \<longleftrightarrow>
     (\<forall>ts n r. parseTernary f ts = Inr (n, r) \<longrightarrow> list_all token_ok ts \<longrightarrow> node_ok n \<and> list_all token_ok r) \<and>
     (\<forall>k ts n r. parseBinary f k ts = Inr (n, r) \<longrightarrow> list_all token_ok ts \<longrightarrow> node_ok n \<and> list_all token_ok r) \<and>
     (\<forall>k ops l ts n r. parseBinaryLoop f k ops l ts = Inr (n, r) \<longrightarrow> list_all token_ok ts \<longrightarrow> node_ok l \<longrightarrow>
        node_ok n \<and> list_all token_ok r) \<and>
     (\<forall>ts n r. parseUnary f ts = Inr (n, r) \<longrightarrow> list_all token_ok ts \<longrightarrow> node_ok n \<and> list_all token_ok r) \<and>
     (\<forall>ts n r. parsePrimary f ts = Inr (n, r) \<longrightarrow> list_all token_ok ts \<longrightarrow> node_ok n \<and> list_all token_ok r) \<and>
     (\<forall>name ts n r. parseCall f name ts = Inr (n, r) \<longrightarrow> list_all token_ok ts \<longrightarrow> node_ok n \<and> list_all token_ok r) \<and>
     (\<forall>as ts bs r. parseArgs f as ts = Inr (bs, r) \<longrightarrow> list_all token_ok ts \<longrightarrow> list_all node_ok as \<longrightarrow>
        list_all node_ok bs \<and> list_all token_ok r)"

lemma builds_ok_Suc:
  assumes c: "builds_ok f"
  shows "builds_ok (Suc f)"
proof -
  from c have
    T: "\<And>ts n r. parseTernary f ts = Inr (n, r) \<Longrightarrow> list_all token_ok ts \<Longrightarrow> node_ok n \<and> list_all token_ok r"
    and B: "\<And>k ts n r. parseBinary f k ts = Inr (n, r) \<Longrightarrow> list_all token_ok ts \<Longrightarrow> node_ok n \<and> list_all token_ok r"
    and L: "\<And>k ops l ts n r. parseBinaryLoop f k ops l ts = Inr (n, r) \<Longrightarrow> list_all token_ok ts \<Longrightarrow>
      node_ok l \<Longrightarrow> node_ok n \<and> list_all token_ok r"
    and U: "\<And>ts n r. parseUnary f ts = Inr (n, r) \<Longrightarrow> list_all token_ok ts \<Longrightarrow> node_ok n \<and> list_all token_ok r"
    and P: "\<And>ts n r. parsePrimary f ts = Inr (n, r) \<Longrightarrow> list_all token_ok ts \<Longrightarrow> node_ok n \<and> list_all token_ok r"
    and C: "\<And>name ts n r. parseCall f name ts = Inr (n, r) \<Longrightarrow> list_all token_ok ts \<Longrightarrow> node_ok n \<and> list_all token_ok r"
    and A: "\<And>as ts bs r. parseArgs f as ts = Inr (bs, r) \<Longrightarrow> list_all token_ok ts \<Longrightarrow> list_all node_ok as \<Longrightarrow>
      list_all node_ok bs \<and> list_all token_ok r"
    by (simp_all add: builds_ok_def)
  have "node_ok n \<and> list_all token_ok r" if "parseTernary (Suc f) ts = Inr (n, r)" "list_all token_ok ts" for ts n r
    using that by (auto simp: parseTernary.simps eatPunct_Some split: option.splits dest!: T B)
  moreover have "node_ok n \<and> list_all token_ok r"
    if "parseBinary (Suc f) k ts = Inr (n, r)" "list_all token_ok ts" for k ts n r
    using that by (auto simp: parseBinary.simps split: option.splits dest!: U B dest: L)
  moreover have "node_ok n \<and> list_all token_ok r"
    if "parseBinaryLoop (Suc f) k ops l ts = Inr (n, r)" "list_all token_ok ts" "node_ok l" for k ops l ts n r
  proof (cases "find_op ops ts")
    case None
    with that show ?thesis by (simp add: parseBinaryLoop.simps)
  next
    case (Some p)
    with that obtain m us where m: "parseBinary f (k + 1) (tl ts) = Inr (m, us)"
      "parseBinaryLoop f k ops (Binary p l m) us = Inr (n, r)"
      by (auto simp: parseBinaryLoop.simps)
    have "list_all token_ok (tl ts)" using that(2) by (cases ts) auto
    with B [OF m(1)] L [OF m(2)] that(3) show ?thesis by simp
  qed
  moreover have "node_ok n \<and> list_all token_ok r" if "parseUnary (Suc f) ts = Inr (n, r)" "list_all token_ok ts" for ts n r
    using that by (auto simp: parseUnary.simps eatPunct_Some split: option.splits dest!: U P)
  moreover have "node_ok n \<and> list_all token_ok r" if "parsePrimary (Suc f) ts = Inr (n, r)" "list_all token_ok ts" for ts n r
    using that
    by (cases ts; cases "hd ts")
      (auto simp: parsePrimary.simps eatPunct_Some token_ok_def split: option.splits if_splits dest!: T C)
  moreover have "node_ok n \<and> list_all token_ok r"
    if "parseCall (Suc f) name ts = Inr (n, r)" "list_all token_ok ts" for name ts n r
    using that
    by (auto simp: parseCall.simps eatPunct_Some split: option.splits if_splits dest!: A CALLS_sound)
  moreover have "list_all node_ok bs \<and> list_all token_ok r"
    if "parseArgs (Suc f) as ts = Inr (bs, r)" "list_all token_ok ts" "list_all node_ok as" for as ts bs r
    using that by (auto simp: parseArgs.simps eatPunct_Some split: option.splits dest!: T dest!: A)
  ultimately show ?thesis unfolding builds_ok_def by blast
qed

lemma builds_ok: "builds_ok f"
proof (induction f)
  case 0
  show ?case by (simp add: builds_ok_def parser_simps)
next
  case (Suc f)
  then show ?case by (rule builds_ok_Suc)
qed

lemma parse_tokens_ok: "parse_tokens ts = Inr n \<Longrightarrow> list_all token_ok ts \<Longrightarrow> node_ok n"
  using builds_ok [of "parse_fuel ts"]
  unfolding parse_tokens_def builds_ok_def by (auto split: if_splits)

lemma parse_expression_ok: "parseOntologyExpression s = Inr n \<Longrightarrow> node_ok n"
  unfolding parseOntologyExpression_def
  by (auto split: if_splits sum.splits intro: parse_tokens_ok tokenize_ok)

text \<open>
  C1. The parser is total on import: whatever the source text, the recursive descent answers with a
  tree or a message within the fuel the entry point gives it, and a tree it returns is well formed:
  every call has its function's arity, every number literal is a finite double, and every property
  reference is an id the schema admits.
\<close>

theorem parse_total_and_well_formed:
  "parseOntologyExpression source \<noteq> Inl OutOfFuel
   \<and> (case parseOntologyExpression source of Inl _ \<Rightarrow> True | Inr n \<Rightarrow> node_ok n)"
proof -
  have "parse_tokens ts \<noteq> Inl OutOfFuel" for ts
    using no_out_of_fuel [of ts] by (auto simp: parse_tokens_def split: if_splits)
  then have "parseOntologyExpression source \<noteq> Inl OutOfFuel"
    by (auto simp: parseOntologyExpression_def split: sum.splits)
  then show ?thesis by (auto split: sum.splits dest: parse_expression_ok)
qed

text \<open>
  C2. The parser inverts the printer with the fewest parentheses, for every well-formed tree: this
  pins the precedence of the six binary tiers, the conditional and the unary operators, and that
  every binary tier associates to the left and the conditional to the right.
\<close>

theorem parse_unparse:
  assumes "well_formed n"
  shows "parse_tokens (unparse 0 n @ [TEnd]) = Inr n"
proof -
  have "evT (unparse 0 n @ [TEnd]) (n, [TEnd])"
    by (rule inverts_T [OF well_formed_inverts [OF assms]]) simp_all
  then show ?thesis by (simp add: parse_tokens_def evT_parse)
qed

theorem parse_unparse_witness:
  "well_formed (Binary OpSub (Binary OpSub (Property ''a'') (Property ''b'')) (Binary OpMul (Property ''c'') (Call FnAbs [Property ''d''])))
   \<and> parse_tokens (unparse 0 (Binary OpSub (Binary OpSub (Property ''a'') (Property ''b'')) (Binary OpMul (Property ''c'') (Call FnAbs [Property ''d'']))) @ [TEnd])
     = Inr (Binary OpSub (Binary OpSub (Property ''a'') (Property ''b'')) (Binary OpMul (Property ''c'') (Call FnAbs [Property ''d''])))"
  by (rule conjI, simp, rule parse_unparse, simp)

declare nth_opt_Some [simp] nth_opt_None [simp]

end
