(* ===== verification/Expr_Eval.thy ===== *)
theory Expr_Eval
  imports Expr_Parser
begin

text \<open>
  The evaluator and the type checker of ontology expressions,
  \<^verbatim>\<open>src/enterprise/ontology-expression.ts\<close>. An \<open>EvalError\<close> is a constructor of
  \<open>eval_error\<close> per place that throws one, and \<open>eval_message\<close> is its text; the type checker's
  \<open>TypeError_\<close> is the message itself. The scope is the object's own properties.
\<close>

section \<open>Types of values\<close>

datatype ExpressionType = ENumber | EString | EBoolean | ENull

fun type_text :: "ExpressionType \<Rightarrow> string" where
  "type_text ENumber = ''number''"
| "type_text EString = ''string''"
| "type_text EBoolean = ''boolean''"
| "type_text ENull = ''null''"

fun expressionTypeOf :: "OntologyValueType \<Rightarrow> ExpressionType" where
  "expressionTypeOf TyNumber = ENumber"
| "expressionTypeOf TyBoolean = EBoolean"
| "expressionTypeOf _ = EString"

text \<open>\<open>typeof\<close>, with \<open>null\<close> for the null value.\<close>

fun value_type :: "OntologyValue \<Rightarrow> ExpressionType" where
  "value_type (VNum n) = ENumber"
| "value_type (VStr s) = EString"
| "value_type (VBool b) = EBoolean"
| "value_type VNull = ENull"

definition ontologyValueMatchesType :: "OntologyValue \<Rightarrow> OntologyValueType \<Rightarrow> bool" where
  "ontologyValueMatchesType v ty = (v = VNull \<or> value_type v = expressionTypeOf ty)"

section \<open>Evaluator\<close>

datatype eval_error =
    ExpectsGot string ExpressionType "ExpressionType option"
  | NotComparable BinaryOp ExpressionType ExpressionType
  | DivisionByZero
  | NonFinite
  | MalformedCall

text \<open>\<open>describe\<close>: the type's name, and \<open>undefined\<close> for an argument that is not there.\<close>

fun describe :: "ExpressionType option \<Rightarrow> string" where
  "describe None = ''undefined''"
| "describe (Some t) = type_text t"

fun eval_message :: "eval_error \<Rightarrow> string" where
  "eval_message (ExpectsGot ctxt want got) =
     ctxt @ '' expects a '' @ type_text want @ '', got '' @ describe got"
| "eval_message (NotComparable op l r) =
     quoted (op_text op) @ '' expects two numbers or two strings, got '' @ type_text l @ '' and '' @ type_text r"
| "eval_message DivisionByZero = ''division by zero''"
| "eval_message NonFinite = ''expression produced a non-finite number''"
| "eval_message MalformedCall = ''Cannot read properties of undefined (reading 'kind')''"

fun asNumber :: "OntologyValue option \<Rightarrow> string \<Rightarrow> eval_error + js_number" where
  "asNumber (Some (VNum n)) ctxt = Inr n"
| "asNumber v ctxt = Inl (ExpectsGot ctxt ENumber (map_option value_type v))"

fun asString :: "OntologyValue option \<Rightarrow> string \<Rightarrow> eval_error + string" where
  "asString (Some (VStr s)) ctxt = Inr s"
| "asString v ctxt = Inl (ExpectsGot ctxt EString (map_option value_type v))"

fun asBoolean :: "OntologyValue option \<Rightarrow> string \<Rightarrow> eval_error + bool" where
  "asBoolean (Some (VBool b)) ctxt = Inr b"
| "asBoolean v ctxt = Inl (ExpectsGot ctxt EBoolean (map_option value_type v))"

fun orderedCompare :: "BinaryOp \<Rightarrow> ('a \<Rightarrow> 'a \<Rightarrow> bool) \<Rightarrow> ('a \<Rightarrow> 'a \<Rightarrow> bool) \<Rightarrow> 'a \<Rightarrow> 'a \<Rightarrow> bool" where
  "orderedCompare OpLt lt le l r = lt l r"
| "orderedCompare OpLe lt le l r = le l r"
| "orderedCompare OpGt lt le l r = lt r l"
| "orderedCompare _ lt le l r = le r l"

fun compare_values :: "BinaryOp \<Rightarrow> OntologyValue \<Rightarrow> OntologyValue \<Rightarrow> eval_error + bool" where
  "compare_values op (VNum l) (VNum r) = Inr (orderedCompare op js_lt js_le l r)"
| "compare_values op (VStr l) (VStr r) = Inr (orderedCompare op (<) (\<le>) l r)"
| "compare_values op l r = Inl (NotComparable op (value_type l) (value_type r))"

text \<open>\<open>===\<close> on ontology values.\<close>

fun strict_equal :: "OntologyValue \<Rightarrow> OntologyValue \<Rightarrow> bool" where
  "strict_equal (VNum l) (VNum r) = js_eq l r"
| "strict_equal l r = (l = r)"

definition numeric ::
  "string \<Rightarrow> (js_number \<Rightarrow> js_number \<Rightarrow> js_number) \<Rightarrow> OntologyValue option \<Rightarrow> OntologyValue option \<Rightarrow>
   eval_error + OntologyValue" where
  "numeric ctxt f l r = bind_result (asNumber l ctxt) (\<lambda>x. bind_result (asNumber r ctxt) (\<lambda>y. Inr (VNum (f x y))))"

text \<open>The strict operators of \<open>evaluateBinary\<close>, on the two values already computed.\<close>

definition divide ::
  "string \<Rightarrow> (js_number \<Rightarrow> js_number \<Rightarrow> js_number) \<Rightarrow> OntologyValue \<Rightarrow> OntologyValue \<Rightarrow> eval_error + OntologyValue" where
  "divide ctxt f l r = bind_result (asNumber (Some r) ctxt) (\<lambda>divisor.
     if is_zero divisor then Inl DivisionByZero
     else bind_result (asNumber (Some l) ctxt) (\<lambda>x. Inr (VNum (f x divisor))))"

fun strict_binary :: "BinaryOp \<Rightarrow> OntologyValue \<Rightarrow> OntologyValue \<Rightarrow> eval_error + OntologyValue" where
  "strict_binary OpEq l r = Inr (VBool (strict_equal l r))"
| "strict_binary OpNe l r = Inr (VBool (\<not> strict_equal l r))"
| "strict_binary OpAdd l r =
     (if value_type l = EString \<or> value_type r = EString
      then bind_result (asString (Some l) (quoted ''+'')) (\<lambda>x.
           bind_result (asString (Some r) (quoted ''+'')) (\<lambda>y. Inr (VStr (x @ y))))
      else numeric (quoted ''+'') js_add (Some l) (Some r))"
| "strict_binary OpSub l r = numeric (quoted ''-'') js_sub (Some l) (Some r)"
| "strict_binary OpMul l r = numeric (quoted ''*'') js_mul (Some l) (Some r)"
| "strict_binary OpDiv l r = divide (quoted ''/'') js_div l r"
| "strict_binary OpMod l r = divide (quoted ''%'') js_mod l r"
| "strict_binary op l r = bind_result (compare_values op l r) (\<lambda>b. Inr (VBool b))"

text \<open>The strict helpers of \<open>evaluateCall\<close>, on the arguments already computed.\<close>

definition numeric1 :: "string \<Rightarrow> (js_number \<Rightarrow> js_number) \<Rightarrow> OntologyValue option \<Rightarrow> eval_error + OntologyValue" where
  "numeric1 ctxt f v = bind_result (asNumber v ctxt) (\<lambda>x. Inr (VNum (f x)))"

fun strict_call :: "CallName \<Rightarrow> OntologyValue option \<Rightarrow> OntologyValue option \<Rightarrow> eval_error + OntologyValue" where
  "strict_call FnAbs a b = numeric1 (quoted ''abs'') js_abs a"
| "strict_call FnRound a b = numeric1 (quoted ''round'') js_round a"
| "strict_call FnFloor a b = numeric1 (quoted ''floor'') js_floor a"
| "strict_call FnCeil a b = numeric1 (quoted ''ceil'') js_ceil a"
| "strict_call FnLower a b = bind_result (asString a (quoted ''lower'')) (\<lambda>s. Inr (VStr (toLowerCase s)))"
| "strict_call FnUpper a b = bind_result (asString a (quoted ''upper'')) (\<lambda>s. Inr (VStr (toUpperCase s)))"
| "strict_call FnLength a b = bind_result (asString a (quoted ''length'')) (\<lambda>s. Inr (VNum (js_of_nat (length s))))"
| "strict_call FnMin a b = numeric (quoted ''min'') js_min a b"
| "strict_call fn a b = numeric (quoted ''max'') js_max a b"

type_synonym OntologyScope = "(string \<times> OntologyValue) list"

text \<open>The check \<open>evaluate\<close> makes of every intermediate value.\<close>

fun check_finite :: "OntologyValue \<Rightarrow> eval_error + OntologyValue" where
  "check_finite (VNum n) = (if is_finite n then Inr (VNum n) else Inl NonFinite)"
| "check_finite v = Inr v"

text \<open>\<open>args.map((arg) => evaluate(arg, scope))\<close>: left to right, the first error wins.\<close>

fun sequence_results :: "('e + 'a) list \<Rightarrow> 'e + 'a list" where
  "sequence_results [] = Inr []"
| "sequence_results (m # ms) = bind_result m (\<lambda>x. bind_result (sequence_results ms) (\<lambda>xs. Inr (x # xs)))"

fun evaluate :: "Node \<Rightarrow> OntologyScope \<Rightarrow> eval_error + OntologyValue" where
  "evaluate (Literal v) scope = check_finite v"
| "evaluate (Property i) scope = check_finite (case map_of scope i of Some v \<Rightarrow> v | None \<Rightarrow> VNull)"
| "evaluate (Unary UNeg n) scope = bind_result (evaluate n scope) (\<lambda>v.
     bind_result (asNumber (Some v) (quoted ''-'')) (\<lambda>x. check_finite (VNum (js_neg x))))"
| "evaluate (Unary UNot n) scope = bind_result (evaluate n scope) (\<lambda>v.
     bind_result (asBoolean (Some v) (quoted ''!'')) (\<lambda>b. check_finite (VBool (\<not> b))))"
| "evaluate (Binary op l r) scope =
     (if op = OpAnd \<or> op = OpOr
      then bind_result (evaluate l scope) (\<lambda>lv.
           bind_result (asBoolean (Some lv) (quoted (op_text op))) (\<lambda>lb.
             if op = OpAnd \<and> \<not> lb then Inr (VBool False)
             else if op = OpOr \<and> lb then Inr (VBool True)
             else bind_result (evaluate r scope) (\<lambda>rv.
                  bind_result (asBoolean (Some rv) (quoted (op_text op))) (\<lambda>rb. Inr (VBool rb)))))
      else bind_result (evaluate l scope) (\<lambda>lv.
           bind_result (evaluate r scope) (\<lambda>rv.
           bind_result (strict_binary op lv rv) check_finite)))"
| "evaluate (Ternary c a b) scope = bind_result (evaluate c scope) (\<lambda>cv.
     bind_result (asBoolean (Some cv) (quoted ''? :'' @ '' condition'')) (\<lambda>t.
       if t then evaluate a scope else evaluate b scope))"
| "evaluate (Call fn args) scope =
     (if fn = FnCoalesce
      then (case args of
             primary # rest \<Rightarrow> bind_result (evaluate primary scope) (\<lambda>v.
               if v = VNull
               then (case rest of fallback # _ \<Rightarrow> evaluate fallback scope | [] \<Rightarrow> Inl MalformedCall)
               else Inr v)
           | [] \<Rightarrow> Inl MalformedCall)
      else bind_result (sequence_results (map (\<lambda>a. evaluate a scope) args)) (\<lambda>vs.
           bind_result (strict_call fn (nth_opt vs 0) (nth_opt vs 1)) check_finite))"

definition evaluateOntologyExpression :: "Node \<Rightarrow> OntologyScope \<Rightarrow> OntologyValue result" where
  "evaluateOntologyExpression e scope = (case evaluate e scope of
     Inr v \<Rightarrow> Inr v | Inl err \<Rightarrow> Inl (eval_message err))"

section \<open>Type checker\<close>

definition unify :: "ExpressionType \<Rightarrow> ExpressionType \<Rightarrow> string \<Rightarrow> ExpressionType result" where
  "unify l r ctxt =
     (if l = r then Inr l
      else if l = ENull then Inr r
      else if r = ENull then Inr l
      else Inl (ctxt @ '' mixes '' @ type_text l @ '' and '' @ type_text r))"

text \<open>\<open>expect\<close>, of a type that is \<^const>\<open>None\<close> when the argument is not there.\<close>

definition expect_type :: "ExpressionType option \<Rightarrow> ExpressionType \<Rightarrow> string \<Rightarrow> ExpressionType result" where
  "expect_type actual wanted ctxt =
     (if actual \<noteq> Some wanted
      then Inl (ctxt @ '' expects '' @ type_text wanted @ '', got '' @ describe actual)
      else Inr wanted)"

definition concreteOperand :: "ExpressionType \<Rightarrow> ExpressionType \<Rightarrow> string \<Rightarrow> ExpressionType result" where
  "concreteOperand l r ctxt =
     (if l = ENull \<or> r = ENull then Inl (ctxt @ '' cannot operate on null'') else unify l r ctxt)"

fun infer_call :: "CallName \<Rightarrow> ExpressionType option \<Rightarrow> ExpressionType option \<Rightarrow> ExpressionType result" where
  "infer_call FnLower a b = expect_type a EString (quoted ''lower'')"
| "infer_call FnUpper a b = expect_type a EString (quoted ''upper'')"
| "infer_call FnLength a b = bind_result (expect_type a EString (quoted ''length'')) (\<lambda>_. Inr ENumber)"
| "infer_call FnMin a b = bind_result (expect_type a ENumber (quoted ''min'')) (\<lambda>_. expect_type b ENumber (quoted ''min''))"
| "infer_call FnMax a b = bind_result (expect_type a ENumber (quoted ''max'')) (\<lambda>_. expect_type b ENumber (quoted ''max''))"
| "infer_call FnCoalesce a b = (case (a, b) of
     (Some l, Some r) \<Rightarrow> unify l r (quoted ''coalesce'')
   | _ \<Rightarrow> Inl (quoted ''coalesce'' @ '' mixes '' @ describe a @ '' and '' @ describe b))"
| "infer_call fn a b = expect_type a ENumber (quoted (call_text fn))"

definition ordered_operand :: "ExpressionType \<Rightarrow> ExpressionType \<Rightarrow> string \<Rightarrow> string \<Rightarrow> ExpressionType result" where
  "ordered_operand l r op verb = bind_result (concreteOperand l r op) (\<lambda>operand.
     if operand \<noteq> ENumber \<and> operand \<noteq> EString then Inl (op @ verb @ type_text operand) else Inr operand)"

fun infer_binary :: "BinaryOp \<Rightarrow> ExpressionType \<Rightarrow> ExpressionType \<Rightarrow> ExpressionType result" where
  "infer_binary op l r = (let q = quoted (op_text op) in
     if op = OpAnd \<or> op = OpOr
     then bind_result (expect_type (Some l) EBoolean q) (\<lambda>_. expect_type (Some r) EBoolean q)
     else if op = OpEq \<or> op = OpNe then bind_result (unify l r q) (\<lambda>_. Inr EBoolean)
     else if op \<in> {OpLt, OpLe, OpGt, OpGe}
     then bind_result (ordered_operand l r q '' orders numbers or strings, got '') (\<lambda>_. Inr EBoolean)
     else if op = OpAdd then ordered_operand l r q '' adds numbers or concatenates strings, got ''
     else bind_result (expect_type (Some l) ENumber q) (\<lambda>_. expect_type (Some r) ENumber q))"

type_synonym OntologyPropertyTypes = "(string \<times> OntologyValueType) list"

fun infer :: "Node \<Rightarrow> OntologyPropertyTypes \<Rightarrow> ExpressionType result" where
  "infer (Literal v) props = Inr (value_type v)"
| "infer (Property i) props = (case map_of props i of
     None \<Rightarrow> Inl (quoted (CHR ''$'' # i) @ '' is not a declared property'')
   | Some declared \<Rightarrow> Inr (expressionTypeOf declared))"
| "infer (Unary UNeg n) props = bind_result (infer n props) (\<lambda>t. expect_type (Some t) ENumber (quoted ''-''))"
| "infer (Unary UNot n) props = bind_result (infer n props) (\<lambda>t. expect_type (Some t) EBoolean (quoted ''!''))"
| "infer (Binary op l r) props = bind_result (infer l props) (\<lambda>lt.
     bind_result (infer r props) (\<lambda>rt. infer_binary op lt rt))"
| "infer (Ternary c a b) props = bind_result (infer c props) (\<lambda>ct.
     bind_result (expect_type (Some ct) EBoolean (quoted ''? :'' @ '' condition'')) (\<lambda>_.
     bind_result (infer a props) (\<lambda>ta. bind_result (infer b props) (\<lambda>tb.
       unify ta tb (quoted ''? :'' @ '' branches'')))))"
| "infer (Call fn args) props = bind_result (sequence_results (map (\<lambda>a. infer a props) args)) (\<lambda>ts.
     infer_call fn (nth_opt ts 0) (nth_opt ts 1))"

definition inferOntologyExpressionType :: "Node \<Rightarrow> OntologyPropertyTypes \<Rightarrow> ExpressionType result" where
  "inferOntologyExpressionType e props = infer e props"

end
