(* ===== verification/Expr_Soundness.thy ===== *)
theory Expr_Soundness
  imports Expr_Eval
begin

text \<open>
  What the evaluator and the type checker of ontology expressions guarantee: the values returned
  (\<open>evaluate_ok\<close>), type soundness with and without nulls (\<open>infer_sound\<close>), which properties an
  expression reads, and the laziness of the null guards.
\<close>


section \<open>Values an evaluation can return\<close>

fun value_ok :: "OntologyValue \<Rightarrow> bool" where
  "value_ok (VNum n) = (is_finite n \<and> representable n)"
| "value_ok v = True"

fun value_representable :: "OntologyValue \<Rightarrow> bool" where
  "value_representable (VNum n) = representable n"
| "value_representable v = True"

definition scope_ok :: "OntologyScope \<Rightarrow> bool" where
  "scope_ok scope = list_all (\<lambda>(k, v). value_representable v) scope"

lemma check_finite_Inr: "check_finite v = Inr w \<longleftrightarrow> w = v \<and> (\<forall>n. v = VNum n \<longrightarrow> is_finite n)"
  by (cases v) auto

lemma check_finite_ok: "check_finite v = Inr w \<Longrightarrow> value_representable v \<Longrightarrow> value_ok w"
  by (cases v) (auto split: if_splits)

lemma asNumber_Inr [simp]: "asNumber v ctxt = Inr n \<longleftrightarrow> v = Some (VNum n)"
  by (cases "(v, ctxt)" rule: asNumber.cases) auto

lemma asString_Inr [simp]: "asString v ctxt = Inr s \<longleftrightarrow> v = Some (VStr s)"
  by (cases "(v, ctxt)" rule: asString.cases) auto

lemma asBoolean_Inr [simp]: "asBoolean v ctxt = Inr b \<longleftrightarrow> v = Some (VBool b)"
  by (cases "(v, ctxt)" rule: asBoolean.cases) auto

lemma sequence_results_Inr:
  "sequence_results ms = Inr xs \<longleftrightarrow> ms = map Inr xs"
  by (induction ms arbitrary: xs) (auto simp: Cons_eq_map_conv)

lemma sequence_results_Inl:
  "sequence_results ms = Inl e \<Longrightarrow> \<exists>m \<in> set ms. m = Inl e"
  by (induction ms) auto

lemma strict_binary_representable:
  "strict_binary op l r = Inr v \<Longrightarrow> value_ok l \<Longrightarrow> value_ok r \<Longrightarrow> value_representable v"
  by (cases op) (auto simp: numeric_def divide_def intro: representable_intros split: if_splits)

lemma strict_call_representable:
  "strict_call fn (nth_opt vs 0) (nth_opt vs 1) = Inr v \<Longrightarrow> list_all value_ok vs \<Longrightarrow> value_representable v"
proof -
  assume args: "list_all value_ok vs"
  have "representable n" if "nth_opt vs i = Some (VNum n)" for i n
    using args that by (metis list_all_length nth_opt_Some value_ok.simps(1))
  moreover assume "strict_call fn (nth_opt vs 0) (nth_opt vs 1) = Inr v"
  ultimately show ?thesis
    by (cases fn) (auto simp: numeric_def numeric1_def simp del: nth_opt_Some intro!: representable_intros)
qed

lemma evaluate_ok:
  "evaluate n scope = Inr v \<Longrightarrow> node_ok n \<Longrightarrow> scope_ok scope \<Longrightarrow> value_ok v"
proof (induction n scope arbitrary: v rule: evaluate.induct)
  case (1 u scope)
  then show ?case by (cases v) (auto simp: check_finite_Inr)
next
  case (2 i scope)
  have "value_representable (case map_of scope i of Some v \<Rightarrow> v | None \<Rightarrow> VNull)"
    using "2.prems"(3) by (auto simp: scope_ok_def list_all_iff dest: map_of_SomeD split: option.splits)
  with "2.prems"(1) show ?case by (auto intro: check_finite_ok)
next
  case (3 n scope)
  then show ?case by (auto split: if_splits intro: js_neg_representable)
next
  case (4 n scope)
  then show ?case by (auto split: if_splits)
next
  case (5 op l r scope)
  show ?case
  proof (cases "op = OpAnd \<or> op = OpOr")
    case True
    with "5.prems" show ?thesis by (auto split: if_splits)
  next
    case False
    with "5.prems" obtain lv rv w where ev: "evaluate l scope = Inr lv" "evaluate r scope = Inr rv"
      "strict_binary op lv rv = Inr w" "check_finite w = Inr v" by auto
    have "value_ok lv" "value_ok rv" using False ev(1,2) "5.prems" "5.IH" by simp_all
    then have "value_representable w" by (rule strict_binary_representable [OF ev(3)])
    then show ?thesis by (rule check_finite_ok [OF ev(4)])
  qed
next
  case (6 c a b scope)
  then show ?case by (auto split: if_splits)
next
  case (7 fn args scope)
  show ?case
  proof (cases "fn = FnCoalesce")
    case True
    with "7.prems" "7.IH" show ?thesis by (auto split: list.splits if_splits)
  next
    case False
    with "7.prems" obtain vs w where vs: "map (\<lambda>a. evaluate a scope) args = map Inr vs"
      "strict_call fn (nth_opt vs 0) (nth_opt vs 1) = Inr w" "check_finite w = Inr v"
      by (auto simp: sequence_results_Inr)
    have "list_all value_ok vs"
      unfolding list_all_length
    proof (intro allI impI)
      fix i assume i: "i < length vs"
      with vs(1) have len: "length args = length vs" by (metis length_map)
      have "evaluate (args ! i) scope = Inr (vs ! i)"
        using i len vs(1) by (metis nth_map)
      moreover have "args ! i \<in> set args" "node_ok (args ! i)"
        using "7.prems"(2) i len by (simp_all add: list_all_length)
      ultimately show "value_ok (vs ! i)"
        using "7.IH"(3) [OF False] "7.prems"(3) by blast
    qed
    then show ?thesis by (rule check_finite_ok [OF vs(3) strict_call_representable [OF vs(2)]])
  qed
qed

section \<open>Type soundness\<close>

text \<open>
  An object conforms to the declared property types when every property it carries matches its
  declaration (null always does), which is what the import check and the object store enforce.
\<close>

definition conforms :: "OntologyScope \<Rightarrow> OntologyPropertyTypes \<Rightarrow> bool" where
  "conforms scope props = list_all (\<lambda>(i, ty). case map_of scope i of
     Some v \<Rightarrow> ontologyValueMatchesType v ty | None \<Rightarrow> True) props"

text \<open>The errors a well-typed expression may still meet: the arithmetic ones, and a null
  operand where nulls can occur.\<close>

fun benign :: "bool \<Rightarrow> eval_error \<Rightarrow> bool" where
  "benign nulls (ExpectsGot ctxt want got) = (nulls \<and> got = Some ENull)"
| "benign nulls (NotComparable op l r) = (nulls \<and> (l = ENull \<or> r = ENull))"
| "benign nulls DivisionByZero = True"
| "benign nulls NonFinite = True"
| "benign nulls MalformedCall = False"

definition typed_value :: "bool \<Rightarrow> OntologyValue \<Rightarrow> ExpressionType \<Rightarrow> bool" where
  "typed_value nulls v t = (if v = VNull then nulls else value_type v = t)"

definition has_type :: "bool \<Rightarrow> eval_error + OntologyValue \<Rightarrow> ExpressionType \<Rightarrow> bool" where
  "has_type nulls r t = (case r of Inr v \<Rightarrow> typed_value nulls v t | Inl e \<Rightarrow> benign nulls e)"

lemma has_type_simps [simp]:
  "has_type z (Inr v) t \<longleftrightarrow> typed_value z v t"
  "has_type z (Inl e) t \<longleftrightarrow> benign z e"
  by (simp_all add: has_type_def)

lemma has_type_bind [intro]:
  "has_type z r t \<Longrightarrow> (\<And>v. r = Inr v \<Longrightarrow> typed_value z v t \<Longrightarrow> has_type z (f v) u) \<Longrightarrow>
   has_type z (bind_result r f) u"
  by (cases r) auto

lemma has_type_check_finite: "has_type z r t \<Longrightarrow> has_type z (bind_result r check_finite) t"
  by (cases r; simp) (rename_tac v, case_tac v; auto)

lemma value_type_cases:
  "value_type v = ENumber \<longleftrightarrow> (\<exists>n. v = VNum n)" "value_type v = EString \<longleftrightarrow> (\<exists>s. v = VStr s)"
  "value_type v = EBoolean \<longleftrightarrow> (\<exists>b. v = VBool b)" "value_type v = ENull \<longleftrightarrow> v = VNull"
  by (cases v; simp)+

lemma expect_type_Inr [simp]: "expect_type a w ctxt = Inr t \<longleftrightarrow> a = Some w \<and> t = w"
  by (auto simp: expect_type_def)

lemma unify_Inr: "unify l r ctxt = Inr t \<longleftrightarrow> (l = t \<and> r = t) \<or> (l = ENull \<and> r = t) \<or> (r = ENull \<and> l = t)"
  by (auto simp: unify_def)

lemma ordered_operand_Inr:
  "ordered_operand l r op verb = Inr t \<longleftrightarrow> l = t \<and> r = t \<and> (t = ENumber \<or> t = EString)"
  by (auto simp: ordered_operand_def concreteOperand_def unify_def split: if_splits)

lemma typed_value_simps:
  "typed_value z v ENumber \<longleftrightarrow> (z \<and> v = VNull) \<or> (\<exists>n. v = VNum n)"
  "typed_value z v EString \<longleftrightarrow> (z \<and> v = VNull) \<or> (\<exists>s. v = VStr s)"
  "typed_value z v EBoolean \<longleftrightarrow> (z \<and> v = VNull) \<or> (\<exists>b. v = VBool b)"
  "typed_value z v ENull \<longleftrightarrow> z \<and> v = VNull"
  by (auto simp: typed_value_def value_type_cases)

lemma strict_binary_typed:
  "infer_binary op lt rt = Inr t \<Longrightarrow> op \<noteq> OpAnd \<Longrightarrow> op \<noteq> OpOr \<Longrightarrow> typed_value z l lt \<Longrightarrow> typed_value z r rt \<Longrightarrow>
   has_type z (strict_binary op l r) t"
  by (cases op)
    (auto simp: Let_def ordered_operand_Inr unify_Inr typed_value_simps numeric_def divide_def split: if_splits)

lemma strict_call_typed:
  assumes "infer_call fn a b = Inr t" "fn \<noteq> FnCoalesce"
    "\<And>ta. a = Some ta \<Longrightarrow> \<exists>v. x = Some v \<and> typed_value z v ta"
    "\<And>tb. b = Some tb \<Longrightarrow> \<exists>v. y = Some v \<and> typed_value z v tb"
  shows "has_type z (strict_call fn x y) t"
  using assms
  by (cases fn) (auto simp: typed_value_simps numeric_def numeric1_def)


lemma has_type_asBoolean:
  assumes "has_type z r EBoolean" "\<And>b. r = Inr (VBool b) \<Longrightarrow> has_type z (f b) t"
  shows "has_type z (bind_result r (\<lambda>v. bind_result (asBoolean (Some v) ctxt) f)) t"
proof (cases r)
  case (Inr v)
  with assms show ?thesis by (cases v) (simp_all add: typed_value_def split: if_splits)
qed (use assms in simp)

lemma has_type_asNumber:
  assumes "has_type z r ENumber" "\<And>b. r = Inr (VNum b) \<Longrightarrow> has_type z (f b) t"
  shows "has_type z (bind_result r (\<lambda>v. bind_result (asNumber (Some v) ctxt) f)) t"
proof (cases r)
  case (Inr v)
  with assms show ?thesis by (cases v) (simp_all add: typed_value_def split: if_splits)
qed (use assms in simp)

lemma has_type_mono: "has_type z r t \<Longrightarrow> t = u \<or> t = ENull \<Longrightarrow> has_type z r u"
  by (cases r) (auto simp: typed_value_def value_type_cases)

lemma has_type_fin: "typed_value z v t \<Longrightarrow> has_type z (check_finite v) t"
  by (cases v) auto

text \<open>Where null cannot come from: the literal, and a property that is unset.\<close>

fun null_free :: "Node \<Rightarrow> bool" where
  "null_free (Literal v) = (v \<noteq> VNull)"
| "null_free (Property i) = True"
| "null_free (Unary u n) = null_free n"
| "null_free (Binary p l r) = (null_free l \<and> null_free r)"
| "null_free (Ternary c a b) = (null_free c \<and> null_free a \<and> null_free b)"
| "null_free (Call fn args) = list_all null_free args"

definition all_set :: "Node \<Rightarrow> OntologyScope \<Rightarrow> bool" where
  "all_set n scope = list_all (\<lambda>i. case map_of scope i of Some v \<Rightarrow> v \<noteq> VNull | None \<Rightarrow> False) (node_properties n)"

lemma all_set_simps [simp]:
  "all_set (Property i) scope \<longleftrightarrow> (\<exists>v. map_of scope i = Some v \<and> v \<noteq> VNull)"
  "all_set (Unary u n) scope \<longleftrightarrow> all_set n scope"
  "all_set (Binary p l r) scope \<longleftrightarrow> all_set l scope \<and> all_set r scope"
  "all_set (Ternary n l r) scope \<longleftrightarrow> all_set n scope \<and> all_set l scope \<and> all_set r scope"
  "all_set (Call fn args) scope \<longleftrightarrow> (\<forall>a \<in> set args. all_set a scope)"
  by (auto simp: all_set_def list_all_iff split: option.splits)

lemma conforms_lookup:
  "conforms scope props \<Longrightarrow> map_of props i = Some ty \<Longrightarrow> z \<or> all_set (Property i) scope \<Longrightarrow>
   typed_value z (case map_of scope i of Some v \<Rightarrow> v | None \<Rightarrow> VNull) (expressionTypeOf ty)"
proof -
  assume "conforms scope props" "map_of props i = Some ty" "z \<or> all_set (Property i) scope"
  moreover from this have "(i, ty) \<in> set props" by (auto dest: map_of_SomeD)
  ultimately show ?thesis
    by (cases "map_of scope i")
      (auto simp: conforms_def list_all_iff ontologyValueMatchesType_def typed_value_def dest!: bspec)
qed

lemma sequence_results_nth:
  "sequence_results (map f args) = Inr ts \<longleftrightarrow>
   length ts = length args \<and> (\<forall>i < length args. f (args ! i) = Inr (ts ! i))"
  by (auto simp: sequence_results_Inr list_eq_iff_nth_eq)

lemma sequence_args:
  assumes "sequence_results (map f args) = Inr ts" "sequence_results (map g args) = Inr vs"
    "nth_opt ts i = Some t"
  shows "\<exists>a v. nth_opt args i = Some a \<and> f a = Inr t \<and> nth_opt vs i = Some v \<and> g a = Inr v"
  using assms unfolding sequence_results_nth nth_opt_Some by auto

lemma infer_sound:
  "infer n props = Inr t \<Longrightarrow> conforms scope props \<Longrightarrow> z \<or> null_free n \<and> all_set n scope \<Longrightarrow>
   has_type z (evaluate n scope) t"
proof (induction n scope arbitrary: t rule: evaluate.induct)
  case (1 u scope)
  then show ?case by (auto intro: has_type_fin simp: typed_value_def)
next
  case (2 i scope)
  then obtain ty where "map_of props i = Some ty" "t = expressionTypeOf ty" by (auto split: option.splits)
  with "2.prems" show ?case unfolding evaluate.simps by (intro has_type_fin) (auto intro: conforms_lookup)
next
  case (3 n scope)
  then show ?case by (auto intro!: has_type_asNumber has_type_fin simp: typed_value_simps)
next
  case (4 n scope)
  then show ?case by (auto intro!: has_type_asBoolean simp: typed_value_simps)
next
  case (5 op l r scope)
  then obtain lt rt where ty: "infer l props = Inr lt" "infer r props = Inr rt" "infer_binary op lt rt = Inr t"
    by auto
  show ?case
  proof (cases "op = OpAnd \<or> op = OpOr")
    case True
    with ty have b: "lt = EBoolean" "rt = EBoolean" "t = EBoolean" by (auto simp: Let_def)
    have L: "has_type z (evaluate l scope) EBoolean" using True ty b "5.prems" "5.IH" by auto
    have R: "has_type z (evaluate r scope) EBoolean"
      if "evaluate l scope = Inr (VBool lb)" "\<not> (op = OpAnd \<and> \<not> lb)" "\<not> (op = OpOr \<and> lb)" for lb
      using True ty b "5.prems" "5.IH" that by auto
    have V: "has_type z (Inr (VBool x)) EBoolean" for x by (simp add: typed_value_simps)
    show ?thesis
      using True b L R V
      by (auto intro!: has_type_asBoolean)
  next
    case False
    have L: "has_type z (evaluate l scope) lt" using False ty "5.prems" "5.IH" by auto
    have R: "has_type z (evaluate r scope) rt" if "evaluate l scope = Inr lv" for lv
      using False ty "5.prems" "5.IH" that by auto
    have "has_type z (strict_binary op lv rv) t" if "typed_value z lv lt" "typed_value z rv rt" for lv rv
      using False ty(3) that by (intro strict_binary_typed) auto
    then have "has_type z (bind_result (evaluate l scope) (\<lambda>lv. bind_result (evaluate r scope)
        (\<lambda>rv. bind_result (strict_binary op lv rv) check_finite))) t"
      by (intro has_type_bind [OF L] has_type_bind [OF R] has_type_check_finite)
    with False show ?thesis by simp
  qed
next
  case (6 c a b scope)
  then obtain ta tb where ty: "infer c props = Inr EBoolean" "infer a props = Inr ta" "infer b props = Inr tb"
    "unify ta tb (quoted ''? :'' @ '' branches'') = Inr t" by auto
  have C: "has_type z (evaluate c scope) EBoolean" using ty "6.prems" "6.IH" by auto
  have A: "has_type z (evaluate a scope) ta" if "evaluate c scope = Inr (VBool True)"
    using ty "6.prems" "6.IH" that by auto
  have B: "has_type z (evaluate b scope) tb" if "evaluate c scope = Inr (VBool False)"
    using ty "6.prems" "6.IH" that by auto
  have "ta = t \<or> ta = ENull" "tb = t \<or> tb = ENull" using ty(4) by (auto simp: unify_Inr)
  then show ?case
    unfolding evaluate.simps
    by (intro has_type_asBoolean [OF C]) (auto intro: has_type_mono [OF A] has_type_mono [OF B])
next
  case (7 fn args scope)
  then obtain ts where ts: "sequence_results (map (\<lambda>a. infer a props) args) = Inr ts"
    "infer_call fn (nth_opt ts 0) (nth_opt ts 1) = Inr t" by auto
  have argz: "z \<or> null_free a \<and> all_set a scope" if "a \<in> set args" for a
    using "7.prems"(3) that by (auto simp: list_all_iff)
  show ?case
  proof (cases "fn = FnCoalesce")
    case True
    with ts(2) obtain l r where lr: "nth_opt ts 0 = Some l" "nth_opt ts 1 = Some r" "unify l r (quoted ''coalesce'') = Inr t"
      by (auto split: option.splits simp del: nth_opt_Some)
    from ts(1) have map: "map (\<lambda>a. infer a props) args = map Inr ts" by (simp add: sequence_results_Inr)
    with lr obtain p q rest where args: "args = p # q # rest" "infer p props = Inr l" "infer q props = Inr r"
      by (cases args; cases "tl args"; cases ts; cases "tl ts") auto
    have P: "has_type z (evaluate p scope) l" using True args "7.prems" "7.IH" by auto
    have Q: "has_type z (evaluate q scope) r" if "evaluate p scope = Inr VNull"
      using True args "7.prems" "7.IH" that by auto
    have "typed_value z v l \<Longrightarrow> v \<noteq> VNull \<Longrightarrow> typed_value z v t" for v
      using lr(3) by (auto simp: unify_Inr typed_value_def value_type_cases)
    moreover have "r = t \<or> r = ENull" using lr(3) by (auto simp: unify_Inr)
    ultimately show ?thesis
      using True args by (auto intro!: has_type_bind [OF P] intro: has_type_mono [OF Q])
  next
    case False
    show ?thesis
    proof (cases "sequence_results (map (\<lambda>a. evaluate a scope) args)")
      case (Inl e)
      then obtain a where a: "a \<in> set args" "evaluate a scope = Inl e" by (auto dest!: sequence_results_Inl)
      with ts(1) obtain ta where "infer a props = Inr ta"
        by (auto simp: sequence_results_Inr) (metis (no_types, lifting) image_iff image_set list.set_map)
      then have "has_type z (evaluate a scope) ta" using a(1) False "7.IH"(3) "7.prems"(2) argz by blast
      with Inl False a show ?thesis by simp
    next
      case (Inr vs)
      have arg: "\<exists>v. nth_opt vs i = Some v \<and> typed_value z v u" if "nth_opt ts i = Some u" for i u
      proof -
        from sequence_args [OF ts(1) Inr that] obtain a v
          where a: "nth_opt args i = Some a" "infer a props = Inr u" "nth_opt vs i = Some v" "evaluate a scope = Inr v"
          by blast
        then have "a \<in> set args" by (auto simp: in_set_conv_nth)
        then have "has_type z (evaluate a scope) u" using a False "7.IH"(3) "7.prems"(2) argz by blast
        with a show ?thesis by auto
      qed
      have "has_type z (strict_call fn (nth_opt vs 0) (nth_opt vs 1)) t"
        by (rule strict_call_typed [OF ts(2) False]) (use arg in blast)+
      then show ?thesis using False Inr by (simp add: has_type_check_finite)
    qed
  qed
qed

lemma infer_declares: "infer n props = Inr t \<Longrightarrow> set (node_properties n) \<subseteq> set (map fst props)"
proof (induction n arbitrary: t)
  case (Property i)
  then obtain ty where "map_of props i = Some ty" by (auto split: option.splits)
  then have "(i, ty) \<in> set props" by (rule map_of_SomeD)
  then show ?case by force
next
  case (Unary u n)
  then show ?case by (cases u) auto
next
  case (Binary p l r)
  then obtain a b where "infer l props = Inr a" "infer r props = Inr b" by auto
  with Binary.IH show ?case by (simp del: set_map)
next
  case (Ternary c a b)
  then obtain x y z where "infer c props = Inr x" "infer a props = Inr y" "infer b props = Inr z" by auto
  with Ternary.IH show ?case by (simp del: set_map)
next
  case (Call fn args)
  then obtain ts where ts: "map (\<lambda>a. infer a props) args = map Inr ts" by (auto simp: sequence_results_Inr)
  have "set (node_properties a) \<subseteq> set (map fst props)" if "a \<in> set args" for a
  proof -
    from that obtain i where "i < length args" "args ! i = a" by (auto simp: in_set_conv_nth)
    with ts have "infer a props = Inr (ts ! i)" by (metis length_map nth_map)
    then show ?thesis by (rule Call.IH [OF that])
  qed
  then show ?case by auto
qed simp

lemma evaluate_reads:
  "(\<And>i. i \<in> set (node_properties n) \<Longrightarrow> map_of s1 i = map_of s2 i) \<Longrightarrow> evaluate n s1 = evaluate n s2"
proof (induction n)
  case (Unary u n)
  then show ?case by (cases u) auto
next
  case (Call fn args)
  then have args: "evaluate a s1 = evaluate a s2" if "a \<in> set args" for a
    using that by auto
  then have maps: "map (\<lambda>a. evaluate a s1) args = map (\<lambda>a. evaluate a s2) args" by simp
  have "args = p # q # r \<Longrightarrow> evaluate p s1 = evaluate p s2 \<and> evaluate q s1 = evaluate q s2"
    "args = [p] \<Longrightarrow> evaluate p s1 = evaluate p s2" for p q r
    using args by simp_all
  then show ?case unfolding evaluate.simps maps by (auto split: list.split cong: if_cong)
qed (auto cong: if_cong)

section \<open>Properties of the language\<close>

text \<open>
  C3. A well-typed expression evaluated on a conforming object returns null or a value of its
  inferred type, and the only errors left are a null operand, a division by zero and an arithmetic
  overflow: a string never meets a number, and nothing but null is ever compared across types.
\<close>

theorem well_typed_expressions_do_not_go_wrong:
  assumes "infer n props = Inr t" "conforms scope props"
  shows "case evaluate n scope of
      Inr v \<Rightarrow> v = VNull \<or> value_type v = t
    | Inl (ExpectsGot ctxt want got) \<Rightarrow> got = Some ENull
    | Inl (NotComparable op l r) \<Rightarrow> l = ENull \<or> r = ENull
    | Inl DivisionByZero \<Rightarrow> True
    | Inl NonFinite \<Rightarrow> True
    | Inl MalformedCall \<Rightarrow> False"
  using infer_sound [where z = True, OF assms]
  by (auto simp: has_type_def typed_value_def split: sum.splits eval_error.splits if_splits)

theorem well_typed_witness:
  "case evaluate (Binary OpGe (Call FnCoalesce [Property ''score'', Literal (VNum (JsFin 0))]) (Literal (VNum (JsFin 75))))
      [(''score'', VNum (JsFin 80))] of
      Inr v \<Rightarrow> v = VNull \<or> value_type v = EBoolean
    | Inl (ExpectsGot ctxt want got) \<Rightarrow> got = Some ENull
    | Inl (NotComparable op l r) \<Rightarrow> l = ENull \<or> r = ENull
    | Inl DivisionByZero \<Rightarrow> True
    | Inl NonFinite \<Rightarrow> True
    | Inl MalformedCall \<Rightarrow> False"
  by (rule well_typed_expressions_do_not_go_wrong [where props = "[(''score'', TyNumber)]"])
    (simp_all add: nth_opt_def unify_def ordered_operand_Inr conforms_def ontologyValueMatchesType_def)

text \<open>
  On an object that carries every property the expression reads, a well-typed expression without
  a null literal always yields a value of exactly its inferred type, unless the arithmetic itself
  divides by zero or overflows.
\<close>

theorem complete_objects_evaluate:
  assumes "infer n props = Inr t" "conforms scope props" "null_free n" "all_set n scope"
  shows "(\<exists>v. evaluate n scope = Inr v \<and> value_type v = t)
    \<or> evaluate n scope = Inl DivisionByZero \<or> evaluate n scope = Inl NonFinite"
proof -
  have "has_type False (evaluate n scope) t"
    by (rule infer_sound) (use assms in auto)
  then show ?thesis
    by (auto simp: has_type_def typed_value_def split: sum.splits if_splits elim!: benign.elims)
qed

theorem complete_objects_witness:
  "(\<exists>v. evaluate (Binary OpAdd (Property ''a'') (Property ''b'')) [(''a'', VStr ''x''), (''b'', VStr ''y'')] = Inr v
      \<and> value_type v = EString)
    \<or> evaluate (Binary OpAdd (Property ''a'') (Property ''b'')) [(''a'', VStr ''x''), (''b'', VStr ''y'')] = Inl DivisionByZero
    \<or> evaluate (Binary OpAdd (Property ''a'') (Property ''b'')) [(''a'', VStr ''x''), (''b'', VStr ''y'')] = Inl NonFinite"
  by (rule complete_objects_evaluate [where props = "[(''a'', TyString), (''b'', TyId)]"])
    (simp_all add: unify_def ordered_operand_Inr conforms_def ontologyValueMatchesType_def)

text \<open>
  A number an evaluation returns is a finite double, on whatever object: overflow, NaN and the
  infinities are errors at the node that produces them, intermediate results included.
\<close>

theorem results_are_finite_doubles:
  assumes "parseOntologyExpression source = Inr n" "scope_ok scope" "evaluate n scope = Inr (VNum x)"
  shows "is_finite x \<and> representable x"
  using evaluate_ok [OF assms(3) parse_expression_ok [OF assms(1)] assms(2)] by simp

text \<open>
  The type checker accepts only expressions whose references are all declared, and an evaluation
  reads nothing but the properties \<open>ontologyExpressionProperties\<close> lists: objects that agree on
  those evaluate alike.
\<close>

theorem references_declared_and_exhaustive:
  assumes "infer n props = Inr t"
  shows "set (ontologyExpressionProperties n) \<subseteq> set (map fst props)
    \<and> evaluateOntologyExpression n (filter (\<lambda>(i, v). i \<in> set (ontologyExpressionProperties n)) scope)
      = evaluateOntologyExpression n scope"
proof -
  let ?in = "\<lambda>i. i \<in> set (node_properties n)"
  have "map_of (filter (\<lambda>(i, v). ?in i) scope) i = map_of scope i" if "?in i" for i
    using that by (induction scope) auto
  then have "evaluate n (filter (\<lambda>(i, v). ?in i) scope) = evaluate n scope"
    by (intro evaluate_reads)
  then show ?thesis
    using infer_declares [OF assms] by (simp add: ontologyExpressionProperties_def evaluateOntologyExpression_def)
qed

theorem references_declared_witness:
  "set (ontologyExpressionProperties (Unary UNeg (Property ''amount''))) \<subseteq> {''amount'', ''name''}
    \<and> evaluateOntologyExpression (Unary UNeg (Property ''amount'')) [(''amount'', VNum (JsFin 3))]
      = evaluateOntologyExpression (Unary UNeg (Property ''amount'')) [(''name'', VStr ''x''), (''amount'', VNum (JsFin 3))]"
  using references_declared_and_exhaustive [of "Unary UNeg (Property ''amount'')" "[(''amount'', TyNumber), (''name'', TyString)]"
    ENumber "[(''name'', VStr ''x''), (''amount'', VNum (JsFin 3))]"]
  by (simp add: ontologyExpressionProperties_def sorted_set_def)

text \<open>
  The null guards are lazy: a comparison with null in front of \<open>&&\<close> or \<open>||\<close> decides an
  unset property without evaluating the other side, and \<open>coalesce\<close> evaluates its fallback only when
  the property is unset.
\<close>

theorem null_guards_are_lazy:
  "(if map_of scope p = None \<or> map_of scope p = Some VNull then
      evaluate (Binary OpAnd (Binary OpNe (Property p) (Literal VNull)) r) scope = Inr (VBool False)
      \<and> evaluate (Binary OpOr (Binary OpEq (Property p) (Literal VNull)) r) scope = Inr (VBool True)
      \<and> evaluate (Call FnCoalesce [Property p, r]) scope = evaluate r scope
    else evaluate (Call FnCoalesce [Property p, r]) scope = evaluate (Property p) scope)"
proof (cases "map_of scope p")
  case (Some v)
  then show ?thesis by (cases v) auto
qed auto

theorem results_are_finite_witness:
  "is_finite (js_add (JsFin 1) (JsFin 2)) \<and> representable (js_add (JsFin 1) (JsFin 2))"
  by (rule results_are_finite_doubles
    [where source = "''$a + 2''" and n = "Binary OpAdd (Property ''a'') (Literal (VNum (JsFin 2)))" and scope = "[(''a'', VNum (JsFin 1))]"])
    (code_simp, use is_double_of_int_small [of 1] in \<open>simp add: scope_ok_def\<close>, code_simp)

end
