(* ===== verification/Tool_Catalog.thy ===== *)
theory Tool_Catalog
  imports Enterprise_Types
begin

text \<open>
  The core tools and their groups, \<^verbatim>\<open>src/agents/tool-catalog.ts\<close>. A definition keeps the
  fields policy reads: the id, the section, the profiles and whether the tool joins the
  \<^verbatim>\<open>openclaw\<close> group. Labels and descriptions are display text and are left out.
\<close>

datatype ToolProfileId = ProfMinimal | ProfCoding | ProfMessaging | ProfFull

record CoreToolDefinition =
  tool_id :: string
  tool_sectionId :: string
  tool_profiles :: "ToolProfileId list"
  tool_includeInOpenClawGroup :: bool

definition core_tool :: "string \<Rightarrow> string \<Rightarrow> ToolProfileId list \<Rightarrow> bool \<Rightarrow> CoreToolDefinition" where
  "core_tool i s ps b = \<lparr> tool_id = i, tool_sectionId = s, tool_profiles = ps, tool_includeInOpenClawGroup = b \<rparr>"

definition CORE_TOOL_DEFINITIONS :: "CoreToolDefinition list" where
  "CORE_TOOL_DEFINITIONS = [
     core_tool ''read'' ''fs'' [ProfCoding] False,
     core_tool ''write'' ''fs'' [ProfCoding] False,
     core_tool ''edit'' ''fs'' [ProfCoding] False,
     core_tool ''apply_patch'' ''fs'' [ProfCoding] False,
     core_tool ''exec'' ''runtime'' [ProfCoding] False,
     core_tool ''process'' ''runtime'' [ProfCoding] False,
     core_tool ''code_execution'' ''runtime'' [ProfCoding] True,
     core_tool ''web_search'' ''web'' [ProfCoding] True,
     core_tool ''web_fetch'' ''web'' [ProfCoding] True,
     core_tool ''x_search'' ''web'' [ProfCoding] True,
     core_tool ''memory_search'' ''memory'' [ProfCoding] True,
     core_tool ''memory_get'' ''memory'' [ProfCoding] True,
     core_tool ''sessions_list'' ''sessions'' [ProfCoding, ProfMessaging] True,
     core_tool ''sessions_history'' ''sessions'' [ProfCoding, ProfMessaging] True,
     core_tool ''sessions_send'' ''sessions'' [ProfCoding, ProfMessaging] True,
     core_tool ''sessions_spawn'' ''sessions'' [ProfCoding] True,
     core_tool ''sessions_yield'' ''sessions'' [ProfCoding] True,
     core_tool ''subagents'' ''sessions'' [ProfCoding] True,
     core_tool ''session_status'' ''sessions'' [ProfMinimal, ProfCoding, ProfMessaging] True,
     core_tool ''browser'' ''ui'' [] True,
     core_tool ''canvas'' ''ui'' [] False,
     core_tool ''message'' ''messaging'' [ProfMessaging] True,
     core_tool ''heartbeat_respond'' ''automation'' [] True,
     core_tool ''cron'' ''automation'' [ProfCoding] True,
     core_tool ''gateway'' ''automation'' [] True,
     core_tool ''nodes'' ''nodes'' [] True,
     core_tool ''agents_list'' ''agents'' [] True,
     core_tool ''complete_step'' ''workflow'' [ProfMinimal, ProfCoding, ProfMessaging] True,
     core_tool ''reopen_step'' ''workflow'' [ProfMinimal, ProfCoding, ProfMessaging] True,
     core_tool ''knowledge_search'' ''enterprise'' [] False,
     core_tool ''search_objects'' ''enterprise'' [] False,
     core_tool ''get_neighbors'' ''enterprise'' [] False,
     core_tool ''compute_function'' ''enterprise'' [] False,
     core_tool ''invoke_action'' ''enterprise-write'' [] False,
     core_tool ''get_goal'' ''agents'' [ProfCoding] True,
     core_tool ''create_goal'' ''agents'' [ProfCoding] True,
     core_tool ''update_goal'' ''agents'' [ProfCoding] True,
     core_tool ''update_plan'' ''agents'' [ProfCoding] True,
     core_tool ''skill_workshop'' ''agents'' [ProfCoding] True,
     core_tool ''image'' ''media'' [ProfCoding] True,
     core_tool ''image_generate'' ''media'' [ProfCoding] True,
     core_tool ''music_generate'' ''media'' [ProfCoding] True,
     core_tool ''video_generate'' ''media'' [ProfCoding] True,
     core_tool ''tts'' ''media'' [] True]"

definition CORE_TOOL_SECTION_ORDER :: "string list" where
  "CORE_TOOL_SECTION_ORDER = [''fs'', ''runtime'', ''web'', ''memory'', ''sessions'', ''ui'', ''messaging'',
     ''automation'', ''nodes'', ''agents'', ''media'', ''enterprise'', ''enterprise-write'', ''workflow'']"

text \<open>The groups, built in one pass over the definitions, \<open>group:openclaw\<close> in front.\<close>

definition buildCoreToolGroupMap :: "(string \<times> string list) list" where
  "buildCoreToolGroupMap =
     (''group:openclaw'', map tool_id (filter tool_includeInOpenClawGroup CORE_TOOL_DEFINITIONS)) #
     fold (\<lambda>tool m. let groupId = ''group:'' @ tool_sectionId tool;
                        ids = (case map_of m groupId of None \<Rightarrow> [] | Some l \<Rightarrow> l)
                    in AList.update groupId (ids @ [tool_id tool]) m)
       CORE_TOOL_DEFINITIONS []"

definition TOOL_GROUPS :: "(string \<times> string list) list" where
  "TOOL_GROUPS = buildCoreToolGroupMap"

definition listCoreToolIdsForProfile :: "ToolProfileId \<Rightarrow> string list" where
  "listCoreToolIdsForProfile profile =
     map tool_id (filter (\<lambda>t. profile \<in> set (tool_profiles t)) CORE_TOOL_DEFINITIONS)"

text \<open>The allow list of a profile; none of them has a deny list.\<close>

fun CORE_TOOL_PROFILES :: "ToolProfileId \<Rightarrow> string list" where
  "CORE_TOOL_PROFILES ProfMinimal = listCoreToolIdsForProfile ProfMinimal"
| "CORE_TOOL_PROFILES ProfCoding = listCoreToolIdsForProfile ProfCoding @ [''bundle-mcp'']"
| "CORE_TOOL_PROFILES ProfMessaging = listCoreToolIdsForProfile ProfMessaging @ [''bundle-mcp'']"
| "CORE_TOOL_PROFILES ProfFull = [''*'']"

section \<open>The groups partition the tools\<close>

lemma group_fold_lookup:
  "map_of (fold (\<lambda>tool m. let groupId = ''group:'' @ tool_sectionId tool;
                        ids = (case map_of m groupId of None \<Rightarrow> [] | Some l \<Rightarrow> l)
                    in AList.update groupId (ids @ [tool_id tool]) m) tools m) (''group:'' @ s) =
   (case filter (\<lambda>t. tool_sectionId t = s) tools of
      [] \<Rightarrow> map_of m (''group:'' @ s)
    | ts \<Rightarrow> Some ((case map_of m (''group:'' @ s) of None \<Rightarrow> [] | Some l \<Rightarrow> l) @ map tool_id ts))"
proof (induction tools arbitrary: m)
  case Nil
  then show ?case by simp
next
  case (Cons t ts)
  then show ?case
    by (auto simp: Let_def js_map.lookup_insert split: list.splits option.splits)
qed

lemma section_group:
  "s \<noteq> ''openclaw'' \<Longrightarrow> map_of TOOL_GROUPS (''group:'' @ s) =
     (case filter (\<lambda>t. tool_sectionId t = s) CORE_TOOL_DEFINITIONS of
        [] \<Rightarrow> None | ts \<Rightarrow> Some (map tool_id ts))"
  using group_fold_lookup [of CORE_TOOL_DEFINITIONS "[]" s]
  by (auto simp: TOOL_GROUPS_def buildCoreToolGroupMap_def split: list.splits)

lemma distinct_tool_ids: "distinct (map tool_id CORE_TOOL_DEFINITIONS)"
  by code_simp

lemma every_section_is_ordered: "set (map tool_sectionId CORE_TOOL_DEFINITIONS) = set CORE_TOOL_SECTION_ORDER"
  by code_simp

end
