(* ===== verification/Tool_Policy.thy ===== *)
theory Tool_Policy
  imports Tool_Catalog
begin

text \<open>
  Matching of tool names against allow and deny lists: \<^verbatim>\<open>src/agents/glob-pattern.ts\<close>,
  \<^verbatim>\<open>src/agents/tool-policy-shared.ts\<close> and \<^verbatim>\<open>src/agents/tool-policy-match.ts\<close>.

  \<open>normalizeToolName\<close> looks the name up in an object literal without an own-property check, so
  \<^verbatim>\<open>constructor\<close> and \<^verbatim>\<open>__proto__\<close>, the two lower-case keys of \<open>Object.prototype\<close>, come back
  as a host object instead of a string. \<open>NHost\<close> is that case; its text is what the object converts
  to where a regular expression is tested against it.
\<close>

section \<open>Glob patterns\<close>

datatype CompiledGlobPattern = GlobAll | GlobExact string | GlobRegex string

definition line_terminator :: "char \<Rightarrow> bool" where
  "line_terminator c = (c = CHR 0x0A \<or> c = CHR 0x0D)"

text \<open>
  The regular expression \<open>^...$\<close> of a glob: the escaped characters stand for themselves, \<open>*\<close> is
  \<open>.*\<close>, and \<open>.\<close> does not match a line terminator.
\<close>

function glob_match :: "string \<Rightarrow> string \<Rightarrow> bool" where
  "glob_match [] s = (s = [])"
| "glob_match (p # ps) s =
     (if p = CHR ''*''
      then glob_match ps s \<or>
        (case s of [] \<Rightarrow> False | c # cs \<Rightarrow> \<not> line_terminator c \<and> glob_match (p # ps) cs)
      else (case s of [] \<Rightarrow> False | c # cs \<Rightarrow> c = p \<and> glob_match ps cs))"
  by pat_completeness auto
termination
  by (relation "measure (\<lambda>(p, s). length p + length s)") auto

declare glob_match.simps(2) [simp del]

section \<open>Normalised names\<close>

definition TOOL_NAME_ALIASES :: "(string \<times> string) list" where
  "TOOL_NAME_ALIASES = [(''bash'', ''exec''), (''apply-patch'', ''apply_patch'')]"

text \<open>What the two lower-case keys of \<open>Object.prototype\<close> hold, converted to text.\<close>

definition prototype_keys :: "(string \<times> string) list" where
  "prototype_keys = [(''constructor'', ''function Object() { [native code] }''),
     (''__proto__'', ''[object Object]'')]"

datatype NormalizedName = NName string | NHost string

fun name_text :: "NormalizedName \<Rightarrow> string" where
  "name_text (NName s) = s"
| "name_text (NHost s) = s"

definition normalizeLowercaseStringOrEmpty :: "string \<Rightarrow> string" where
  "normalizeLowercaseStringOrEmpty s = toLowerCase (trim s)"

definition normalizeToolName :: "string \<Rightarrow> NormalizedName" where
  "normalizeToolName name = (let n = normalizeLowercaseStringOrEmpty name in
     case map_of TOOL_NAME_ALIASES n of
       Some target \<Rightarrow> NName target
     | None \<Rightarrow> (case map_of prototype_keys n of Some text \<Rightarrow> NHost text | None \<Rightarrow> NName n))"

text \<open>Normalising an entry a second time, as the glob compiler does; a host object reads as blank.\<close>

fun normalize_entry :: "NormalizedName \<Rightarrow> string" where
  "normalize_entry (NName s) = (case normalizeToolName s of NName t \<Rightarrow> t | NHost t \<Rightarrow> [])"
| "normalize_entry (NHost s) = []"

definition normalizeToolList :: "string list \<Rightarrow> NormalizedName list" where
  "normalizeToolList xs = filter (\<lambda>n. n \<noteq> NName []) (map normalizeToolName xs)"

definition expandToolGroups :: "string list \<Rightarrow> NormalizedName list" where
  "expandToolGroups xs = dedup (concat (map
     (\<lambda>v. case map_of TOOL_GROUPS (name_text v) of
        Some ids \<Rightarrow> map NName ids | None \<Rightarrow> [v]) (normalizeToolList xs)))"

definition compileGlobPattern :: "NormalizedName \<Rightarrow> CompiledGlobPattern" where
  "compileGlobPattern raw = (let n = normalize_entry raw in
     if n = [] then GlobExact []
     else if n = ''*'' then GlobAll
     else if CHR ''*'' \<notin> set n then GlobExact n
     else GlobRegex n)"

definition compileGlobPatterns :: "NormalizedName list \<Rightarrow> CompiledGlobPattern list" where
  "compileGlobPatterns raw = filter (\<lambda>p. p \<noteq> GlobExact []) (map compileGlobPattern raw)"

fun matches_pattern :: "NormalizedName \<Rightarrow> CompiledGlobPattern \<Rightarrow> bool" where
  "matches_pattern v GlobAll = True"
| "matches_pattern v (GlobExact p) = (v = NName p)"
| "matches_pattern v (GlobRegex p) = glob_match p (name_text v)"

definition matchesAnyGlobPattern :: "NormalizedName \<Rightarrow> CompiledGlobPattern list \<Rightarrow> bool" where
  "matchesAnyGlobPattern v patterns = list_ex (matches_pattern v) patterns"

section \<open>Allow and deny lists\<close>

record ToolPolicy =
  pl_allow :: "string list option"
  pl_deny :: "string list option"

definition makeToolPolicyMatcher :: "ToolPolicy \<Rightarrow> string \<Rightarrow> bool" where
  "makeToolPolicyMatcher policy name =
     (let deny = compileGlobPatterns (expandToolGroups (opt_list (pl_deny policy)));
          allow = compileGlobPatterns (expandToolGroups (opt_list (pl_allow policy)));
          normalized = normalizeToolName name
      in if matchesAnyGlobPattern normalized deny then False
         else if allow = [] then True
         else if matchesAnyGlobPattern normalized allow then True
         else normalized = NName ''apply_patch'' \<and> matchesAnyGlobPattern (NName ''write'') allow)"

definition isToolAllowedByPolicyName :: "string \<Rightarrow> ToolPolicy option \<Rightarrow> bool" where
  "isToolAllowedByPolicyName name policy =
     (case policy of None \<Rightarrow> True | Some p \<Rightarrow> makeToolPolicyMatcher p name)"

definition isToolAllowedByPolicies :: "string \<Rightarrow> ToolPolicy option list \<Rightarrow> bool" where
  "isToolAllowedByPolicies name policies = list_all (isToolAllowedByPolicyName name) policies"

text \<open>The two one-sided policies the enterprise code asks about.\<close>

abbreviation allow_only :: "string list \<Rightarrow> ToolPolicy option" where
  "allow_only globs \<equiv> Some \<lparr> pl_allow = Some globs, pl_deny = None \<rparr>"

abbreviation deny_only :: "string list \<Rightarrow> ToolPolicy option" where
  "deny_only globs \<equiv> Some \<lparr> pl_allow = None, pl_deny = Some globs \<rparr>"

section \<open>Facts about globs\<close>

lemma glob_match_char:
  "p \<noteq> CHR ''*'' \<Longrightarrow> glob_match (p # ps) s \<longleftrightarrow> (\<exists>cs. s = p # cs \<and> glob_match ps cs)"
  by (subst glob_match.simps(2)) (auto split: list.splits)

lemma glob_match_literal: "CHR ''*'' \<notin> set p \<Longrightarrow> glob_match p s \<longleftrightarrow> p = s"
proof (induction p arbitrary: s)
  case (Cons c p)
  then have "glob_match (c # p) s \<longleftrightarrow> (\<exists>cs. s = c # cs \<and> p = cs)" by (subst glob_match_char) auto
  then show ?case by auto
qed auto

lemma glob_match_star_step:
  "glob_match (CHR ''*'' # ps) s \<longleftrightarrow> glob_match ps s \<or>
     (\<exists>c cs. s = c # cs \<and> \<not> line_terminator c \<and> glob_match (CHR ''*'' # ps) cs)"
  by (subst glob_match.simps) (auto split: list.splits)

text \<open>A star stands for any text without a line terminator.\<close>

lemma glob_match_star:
  "glob_match (CHR ''*'' # ps) s \<longleftrightarrow>
     (\<exists>u v. s = u @ v \<and> list_all (\<lambda>c. \<not> line_terminator c) u \<and> glob_match ps v)"
proof (induction s)
  case Nil
  then show ?case by (subst glob_match_star_step) simp
next
  case (Cons c cs)
  show ?case
  proof
    assume "glob_match (CHR ''*'' # ps) (c # cs)"
    then have "glob_match ps (c # cs) \<or> \<not> line_terminator c \<and> glob_match (CHR ''*'' # ps) cs"
      unfolding glob_match_star_step [of ps "c # cs"] by simp
    then consider "glob_match ps (c # cs)" | "\<not> line_terminator c" "glob_match (CHR ''*'' # ps) cs"
      by blast
    then show "\<exists>u v. c # cs = u @ v \<and> list_all (\<lambda>c. \<not> line_terminator c) u \<and> glob_match ps v"
    proof cases
      case 1
      then show ?thesis by (intro exI [of _ "[]"] exI [of _ "c # cs"]) simp
    next
      case 2
      with Cons obtain u v where "cs = u @ v" "list_all (\<lambda>c. \<not> line_terminator c) u" "glob_match ps v" by auto
      with 2 show ?thesis by (intro exI [of _ "c # u"] exI [of _ v]) simp
    qed
  next
    assume "\<exists>u v. c # cs = u @ v \<and> list_all (\<lambda>c. \<not> line_terminator c) u \<and> glob_match ps v"
    then obtain u v where uv: "c # cs = u @ v" "list_all (\<lambda>c. \<not> line_terminator c) u" "glob_match ps v" by blast
    show "glob_match (CHR ''*'' # ps) (c # cs)"
    proof (cases u)
      case Nil
      with uv show ?thesis unfolding glob_match_star_step [of ps "c # cs"] by simp
    next
      case (Cons d ds)
      with uv Cons.IH have "\<not> line_terminator c" "glob_match (CHR ''*'' # ps) cs" by auto
      then show ?thesis unfolding glob_match_star_step [of ps "c # cs"] by simp
    qed
  qed
qed

lemma glob_match_append_literal:
  "CHR ''*'' \<notin> set p \<Longrightarrow> glob_match (p @ q) s \<longleftrightarrow> (\<exists>t. s = p @ t \<and> glob_match q t)"
  by (induction p arbitrary: s) (auto simp: glob_match_char)

lemma glob_match_tail:
  "glob_match (p @ CHR ''*'' # q) s \<Longrightarrow> CHR ''*'' \<notin> set q \<Longrightarrow> \<exists>t. s = t @ q"
proof (induction p arbitrary: s)
  case Nil
  then show ?case by (auto simp: glob_match_star glob_match_literal)
next
  case (Cons c cs)
  show ?case
  proof (cases "c = CHR ''*''")
    case True
    with Cons.prems(1) obtain u v where "s = u @ v" "glob_match (cs @ CHR ''*'' # q) v"
      by (auto simp: glob_match_star)
    with Cons.IH Cons.prems(2) obtain t where "s = u @ t @ q" by blast
    then show ?thesis by (intro exI [of _ "u @ t"]) simp
  next
    case False
    with Cons.prems(1) obtain v where "s = c # v" "glob_match (cs @ CHR ''*'' # q) v"
      by (auto simp: glob_match_char)
    with Cons.IH Cons.prems(2) obtain t where "s = c # t @ q" by blast
    then show ?thesis by (intro exI [of _ "c # t"]) simp
  qed
qed

text \<open>
  What a glob denotes, without the matcher: its pieces between the stars, in order, with any text
  free of line terminators between two of them.
\<close>

fun weave :: "string list \<Rightarrow> string list \<Rightarrow> string" where
  "weave (p # ps) (u # us) = p @ u @ weave ps us"
| "weave ps us = concat ps"

definition glob_denotes :: "string \<Rightarrow> string \<Rightarrow> bool" where
  "glob_denotes p s \<longleftrightarrow> (\<exists>us. Suc (length us) = length (split_on (CHR ''*'') p) \<and>
     list_all (list_all (\<lambda>c. \<not> line_terminator c)) us \<and> s = weave (split_on (CHR ''*'') p) us)"

lemma split_on_nonempty [simp]: "split_on c p \<noteq> []"
  by (induction p) (auto split: list.splits)

lemma glob_match_denotes: "glob_match p s \<longleftrightarrow> glob_denotes p s"
proof (induction p arbitrary: s)
  case Nil
  then show ?case by (simp add: glob_denotes_def)
next
  case (Cons c p)
  obtain seg segs where split: "split_on (CHR ''*'') p = seg # segs"
    by (cases "split_on (CHR ''*'') p") simp_all
  show ?case
  proof (cases "c = CHR ''*''")
    case True
    have "glob_match (c # p) s \<longleftrightarrow> (\<exists>u v. s = u @ v \<and> list_all (\<lambda>c. \<not> line_terminator c) u \<and> glob_denotes p v)"
      using True Cons by (simp add: glob_match_star)
    also have "\<dots> \<longleftrightarrow> glob_denotes (c # p) s"
      (is "?L \<longleftrightarrow> ?R")
    proof
      assume ?L
      then obtain u us where "list_all (\<lambda>c. \<not> line_terminator c) u" "Suc (length us) = length (seg # segs)"
        "list_all (list_all (\<lambda>c. \<not> line_terminator c)) us" "s = u @ weave (seg # segs) us"
        by (auto simp: glob_denotes_def split)
      then show ?R using True split
        by (auto simp: glob_denotes_def intro!: exI [of _ "u # us"])
    next
      assume ?R
      then obtain us where "length us = length (seg # segs)"
        "list_all (list_all (\<lambda>c. \<not> line_terminator c)) us" "s = weave ([] # seg # segs) us"
        using True split by (auto simp: glob_denotes_def)
      then obtain u vs where "us = u # vs" "length (u # vs) = length (seg # segs)" by (cases us) auto
      with \<open>list_all (list_all _) us\<close> \<open>s = _\<close>
      have "s = u @ weave (seg # segs) vs" "list_all (\<lambda>c. \<not> line_terminator c) u"
        "glob_denotes p (weave (seg # segs) vs)"
        by (auto simp: glob_denotes_def split)
      then show ?L by blast
    qed
    finally show ?thesis .
  next
    case False
    have lit: "glob_match (c # p) s \<longleftrightarrow> (\<exists>t. s = c # t \<and> glob_denotes p t)"
      using False Cons by (auto simp: glob_match_char)
    have "weave ((c # seg) # segs) us = c # weave (seg # segs) us" for us
      by (cases us) auto
    with False split show ?thesis
      unfolding lit by (auto simp: glob_denotes_def)
  qed
qed

section \<open>Facts about policies\<close>

lemma not_matched_by_no_pattern [simp]: "matchesAnyGlobPattern v [] = False"
  by (simp add: matchesAnyGlobPattern_def)

lemma matchesAny_append [simp]:
  "matchesAnyGlobPattern v (ps @ qs) \<longleftrightarrow> matchesAnyGlobPattern v ps \<or> matchesAnyGlobPattern v qs"
  by (simp add: matchesAnyGlobPattern_def)

lemma compile_empty [simp]: "compileGlobPatterns (expandToolGroups []) = []"
  by (simp add: compileGlobPatterns_def expandToolGroups_def normalizeToolList_def)

definition selector_matches :: "string list \<Rightarrow> NormalizedName \<Rightarrow> bool" where
  "selector_matches globs v = matchesAnyGlobPattern v (compileGlobPatterns (expandToolGroups globs))"

lemma deny_only_iff: "isToolAllowedByPolicyName n (deny_only globs) \<longleftrightarrow> \<not> selector_matches globs (normalizeToolName n)"
  by (simp add: isToolAllowedByPolicyName_def makeToolPolicyMatcher_def selector_matches_def Let_def)

lemma selector_matches_iff:
  "selector_matches globs v \<longleftrightarrow> (\<exists>e \<in> set (expandToolGroups globs). compileGlobPattern e \<noteq> GlobExact [] \<and>
     matches_pattern v (compileGlobPattern e))"
  by (auto simp: selector_matches_def matchesAnyGlobPattern_def compileGlobPatterns_def list_ex_iff)

lemma set_expandToolGroups:
  "set (expandToolGroups (xs @ ys)) = set (expandToolGroups xs) \<union> set (expandToolGroups ys)"
  by (simp add: expandToolGroups_def normalizeToolList_def)

lemma selector_matches_append [simp]:
  "selector_matches (xs @ ys) v \<longleftrightarrow> selector_matches xs v \<or> selector_matches ys v"
  by (auto simp: selector_matches_iff set_expandToolGroups)

lemma selector_matches_Cons: "selector_matches (x # xs) v \<longleftrightarrow> selector_matches [x] v \<or> selector_matches xs v"
  using selector_matches_append [of "[x]" xs v] by simp

lemma selector_matches_any: "selector_matches globs v \<longleftrightarrow> (\<exists>g \<in> set globs. selector_matches [g] v)"
proof (induction globs)
  case Nil
  then show ?case by (simp add: selector_matches_iff expandToolGroups_def normalizeToolList_def)
next
  case (Cons g gs)
  then show ?case by (subst selector_matches_Cons) simp
qed

section \<open>Properties\<close>

text \<open>
  A glob matches exactly the texts made of its pieces in order, with text free of line
  terminators in the place of every star: the search over split points misses none and adds none.
\<close>

theorem glob_match_is_its_denotation: "glob_match p s = glob_denotes p s"
  by (rule glob_match_denotes)

text \<open>
  Deny lists compose as a conjunction, whatever the allow list: a tool passes a policy with more
  deny entries exactly when it passes the policy without them and each further entry on its own, so
  an entry can only take tools away and no allow entry gives one back.
\<close>

theorem deny_entries_only_remove:
  "isToolAllowedByPolicyName n (Some \<lparr> pl_allow = a, pl_deny = Some (d @ e) \<rparr>)
   = (isToolAllowedByPolicyName n (Some \<lparr> pl_allow = a, pl_deny = Some d \<rparr>)
      \<and> list_all (\<lambda>g. isToolAllowedByPolicyName n (deny_only [g])) e)"
proof -
  have "list_all (\<lambda>g. isToolAllowedByPolicyName n (deny_only [g])) e
      \<longleftrightarrow> \<not> selector_matches e (normalizeToolName n)"
    by (subst selector_matches_any) (simp add: deny_only_iff list_all_iff)
  then show ?thesis
    using selector_matches_append [of d e "normalizeToolName n"]
    by (auto simp: isToolAllowedByPolicyName_def makeToolPolicyMatcher_def Let_def selector_matches_def)
qed

text \<open>
  An allow list that names only \<^verbatim>\<open>constructor\<close> allows every tool, and a deny list that names
  it denies nothing, not even a tool of that name: the alias table is read without an own-property
  check, the name normalises to a host object, and the glob compiler drops the entry as blank.
\<close>

theorem constructor_entries_are_dropped:
  "isToolAllowedByPolicyName n (allow_only [''constructor''])
   \<and> isToolAllowedByPolicyName n (deny_only [''constructor''])"
proof -
  have "compileGlobPatterns (expandToolGroups [''constructor'']) = []" by code_simp
  then show ?thesis
    by (simp add: isToolAllowedByPolicyName_def makeToolPolicyMatcher_def Let_def)
qed

text \<open>
  The capability groups keep apart what their names promise: the group of the read tools of the
  ontology holds neither the tool that writes it nor the step tools, the write group holds only the
  write tool, and the workflow group only the two step tools.
\<close>

theorem capability_groups_are_separate:
  "map_of TOOL_GROUPS ''group:enterprise''
     = Some [''knowledge_search'', ''search_objects'', ''get_neighbors'', ''compute_function'']
   \<and> map_of TOOL_GROUPS ''group:enterprise-write'' = Some [''invoke_action'']
   \<and> map_of TOOL_GROUPS ''group:workflow'' = Some [''complete_step'', ''reopen_step'']"
  by code_simp

end
