(* ===== verification/Mcp_Names.thy ===== *)
theory Mcp_Names
  imports Tool_Policy
begin

text \<open>
  The names a runtime can give an MCP tool, \<^verbatim>\<open>src/enterprise/mcp-callable-names.ts\<close>: the
  rewrites a native harness applies, and the reading of a selector against the shapes they
  leave. The regular expressions of the source are written out on strings.
\<close>

section \<open>Rewrites\<close>

definition is_hex :: "char \<Rightarrow> bool" where
  "is_hex c = (is_digit c \<or> (CHR ''a'' \<le> c \<and> c \<le> CHR ''f''))"

definition responses_char :: "char \<Rightarrow> bool" where
  "responses_char c = (is_upper c \<or> is_lower c \<or> is_digit c \<or> c = CHR ''_'')"

definition codexNamespace :: "string \<Rightarrow> string" where
  "codexNamespace server = (let sanitized = map (\<lambda>c. if responses_char c then c else CHR ''_'') server
     in if sanitized = [] then ''_'' else sanitized)"

definition COLLISION_HASH_LENGTH :: nat where
  "COLLISION_HASH_LENGTH = 12"

definition CODEX_NAMESPACE_TRUNCATION_LIMIT :: nat where
  "CODEX_NAMESPACE_TRUNCATION_LIMIT = 49"

definition LEGACY_PREFIX :: string where
  "LEGACY_PREFIX = ''mcp__''"

definition trimCodexNamespace :: "string \<Rightarrow> string" where
  "trimCodexNamespace namespace = rev (dropWhile (\<lambda>c. c = CHR ''_'') (rev namespace))"

definition trimCodexToolName :: "string \<Rightarrow> string" where
  "trimCodexToolName tool = dropWhile (\<lambda>c. c = CHR ''_'') tool"

definition codexHookToolName :: "string \<Rightarrow> string \<Rightarrow> string" where
  "codexHookToolName namespace tool =
     (let joined = trimCodexNamespace (codexNamespace namespace) @ ''__'' @ trimCodexToolName (codexNamespace tool)
      in if startsWith joined LEGACY_PREFIX then joined else LEGACY_PREFIX @ joined)"

definition withLegacyPrefix :: "string \<Rightarrow> string" where
  "withLegacyPrefix namespace =
     (if startsWith namespace LEGACY_PREFIX then namespace else LEGACY_PREFIX @ namespace)"

text \<open>The spellings of one server name, before trimming and lower-casing.\<close>

definition hook_forms :: "string \<Rightarrow> string list" where
  "hook_forms base = (let prefixed = withLegacyPrefix base in
     [base, prefixed, take CODEX_NAMESPACE_TRUNCATION_LIMIT base,
      take CODEX_NAMESPACE_TRUNCATION_LIMIT prefixed])"

definition codexHookNamespaces :: "string list \<Rightarrow> string list" where
  "codexHookNamespaces names = dedup (filter (\<lambda>t. t \<noteq> [])
     (map (\<lambda>form. toLowerCase (trimCodexNamespace form))
       (concat (map (\<lambda>name. concat (map hook_forms (dedup [name, codexNamespace name]))) names))))"

section \<open>Reading a selector\<close>

record DenialToolPart =
  dt_tool :: string
  dt_hashed :: bool

text \<open>
  \<open>^<namespace>_+[0-9a-f]{12}__(.*)$\<close>: the hash cannot start with an underscore, so the separator
  is every underscore there is; the rest holds no line terminator.
\<close>

definition hashed_part :: "string \<Rightarrow> string \<Rightarrow> string option" where
  "hashed_part entry namespace =
     (if \<not> startsWith entry namespace then None
      else let rest = drop (length namespace) entry;
               hash = dropWhile (\<lambda>c. c = CHR ''_'') rest;
               tool = drop (COLLISION_HASH_LENGTH + 2) hash
           in if hash \<noteq> rest \<and> COLLISION_HASH_LENGTH \<le> length hash
                 \<and> list_all is_hex (take COLLISION_HASH_LENGTH hash)
                 \<and> startsWith (drop COLLISION_HASH_LENGTH hash) ''__''
                 \<and> list_all (\<lambda>c. \<not> line_terminator c) tool
              then Some tool else None)"

definition plain_part :: "string \<Rightarrow> string \<Rightarrow> string option" where
  "plain_part entry namespace = (let plain = namespace @ ''__'' in
     if startsWith entry plain \<and> length plain < length entry then Some (drop (length plain) entry) else None)"

fun first_some :: "('a \<Rightarrow> 'b option) \<Rightarrow> 'a list \<Rightarrow> 'b option" where
  "first_some f [] = None"
| "first_some f (x # xs) = (case f x of Some y \<Rightarrow> Some y | None \<Rightarrow> first_some f xs)"

definition mcpDenialToolPart :: "string \<Rightarrow> string list \<Rightarrow> DenialToolPart option" where
  "mcpDenialToolPart entry namespaces =
     (case first_some (hashed_part entry) namespaces of
        Some tool \<Rightarrow> Some \<lparr> dt_tool = tool, dt_hashed = True \<rparr>
      | None \<Rightarrow> map_option (\<lambda>tool. \<lparr> dt_tool = tool, dt_hashed = False \<rparr>)
          (first_some (plain_part entry) namespaces))"

text \<open>\<open>(^|_)[0-9a-f]{12}$\<close>.\<close>

definition isUnrecoverableToolPart :: "string \<Rightarrow> bool" where
  "isUnrecoverableToolPart toolPart =
     (let n = length toolPart - COLLISION_HASH_LENGTH in
      COLLISION_HASH_LENGTH \<le> length toolPart \<and> list_all is_hex (drop n toolPart)
      \<and> (n = 0 \<or> toolPart ! (n - 1) = CHR ''_''))"

section \<open>The hash slot\<close>

text \<open>A wildcard extends every reachable point to the end of the name.\<close>

fun seen_scan :: "bool \<Rightarrow> bool list \<Rightarrow> bool list" where
  "seen_scan seen [] = []"
| "seen_scan seen (v # vs) = (seen \<or> v) # seen_scan (seen \<or> v) vs"

definition slot_step :: "(char \<Rightarrow> bool) list \<Rightarrow> bool \<times> bool list \<Rightarrow> char \<Rightarrow> bool \<times> bool list" where
  "slot_step accepts st token = (case st of (atStart, reachable) \<Rightarrow>
     if token = CHR ''*'' then (atStart, seen_scan atStart reachable)
     else (False, map2 (\<lambda>previous accept. previous \<and> accept token) (atStart # reachable) accepts))"

definition slot_accepts :: "string \<Rightarrow> string \<Rightarrow> (char \<Rightarrow> bool) list" where
  "slot_accepts prefix suffix = map (=) prefix @ replicate COLLISION_HASH_LENGTH is_hex @ map (=) suffix"

definition globMatchesHashSlot :: "string \<Rightarrow> string \<Rightarrow> string \<Rightarrow> bool" where
  "globMatchesHashSlot pattern prefix suffix =
     (let accepts = slot_accepts prefix suffix;
          (atStart, reachable) = foldl (slot_step accepts) (True, map (\<lambda>_. False) accepts) pattern
      in if accepts = [] then atStart else last reachable)"

section \<open>Overlap of two globs\<close>

definition glob_head :: "string \<Rightarrow> string" where
  "glob_head p = hd (split_on (CHR ''*'') p)"

definition glob_tail :: "string \<Rightarrow> string" where
  "glob_tail p = rev (takeWhile (\<lambda>c. c \<noteq> CHR ''*'') (rev p))"

definition patternsCanShareACall :: "string \<Rightarrow> string \<Rightarrow> bool" where
  "patternsCanShareACall a b =
     (let left = toLowerCase (trim a); right = toLowerCase (trim b) in
      if left = [] \<or> right = [] \<or> left = ''*'' \<or> right = ''*'' then True
      else if CHR ''*'' \<notin> set right then \<not> isToolAllowedByPolicyName right (deny_only [left])
      else if CHR ''*'' \<notin> set left then \<not> isToolAllowedByPolicyName left (deny_only [right])
      else if \<not> startsWith (glob_head left) (glob_head right) \<and> \<not> startsWith (glob_head right) (glob_head left)
      then False
      else endsWith (glob_tail left) (glob_tail right) \<or> endsWith (glob_tail right) (glob_tail left))"

section \<open>The slot matcher is exact\<close>

lemma glob_match_snoc:
  "p \<noteq> CHR ''*'' \<Longrightarrow> glob_match (ps @ [p]) s \<longleftrightarrow> (\<exists>t. s = t @ [p] \<and> glob_match ps t)"
proof (induction ps arbitrary: s)
  case Nil
  then show ?case by (auto simp: glob_match_char)
next
  case (Cons c cs)
  show ?case
  proof (cases "c = CHR ''*''")
    case True
    then show ?thesis using Cons by (auto simp: glob_match_star) (metis append_assoc)+
  next
    case False
    then show ?thesis using Cons by (auto simp: glob_match_char)
  qed
qed

lemma glob_match_snoc_star:
  "glob_match (ps @ [CHR ''*'']) s \<longleftrightarrow>
     (\<exists>t u. s = t @ u \<and> list_all (\<lambda>c. \<not> line_terminator c) u \<and> glob_match ps t)"
proof (induction ps arbitrary: s)
  case Nil
  then show ?case by (auto simp: glob_match_star)
next
  case (Cons c cs)
  show ?case
  proof (cases "c = CHR ''*''")
    case True
    show ?thesis
    proof
      assume "glob_match ((c # cs) @ [CHR ''*'']) s"
      with True Cons obtain v t u where "s = v @ t @ u" "list_all (\<lambda>c. \<not> line_terminator c) v"
        "list_all (\<lambda>c. \<not> line_terminator c) u" "glob_match cs t"
        by (auto simp: glob_match_star)
      then show "\<exists>t u. s = t @ u \<and> list_all (\<lambda>c. \<not> line_terminator c) u \<and> glob_match (c # cs) t"
        using True by (intro exI [of _ "v @ t"] exI [of _ u]) (auto simp: glob_match_star)
    next
      assume "\<exists>t u. s = t @ u \<and> list_all (\<lambda>c. \<not> line_terminator c) u \<and> glob_match (c # cs) t"
      then obtain v t u where "s = v @ t @ u" "list_all (\<lambda>c. \<not> line_terminator c) v"
        "list_all (\<lambda>c. \<not> line_terminator c) u" "glob_match cs t"
        using True by (auto simp: glob_match_star)
      moreover from this have "glob_match (cs @ [CHR ''*'']) (t @ u)" using Cons by blast
      ultimately show "glob_match ((c # cs) @ [CHR ''*'']) s" using True by (auto simp: glob_match_star)
    qed
  next
    case False
    show ?thesis
    proof
      assume "glob_match ((c # cs) @ [CHR ''*'']) s"
      with False Cons obtain t u where "s = (c # t) @ u"
        "list_all (\<lambda>c. \<not> line_terminator c) u" "glob_match cs t"
        by (auto simp: glob_match_char)
      then show "\<exists>t u. s = t @ u \<and> list_all (\<lambda>c. \<not> line_terminator c) u \<and> glob_match (c # cs) t"
        using False by (intro exI [of _ "c # t"] exI [of _ u]) (auto simp: glob_match_char)
    next
      assume "\<exists>t u. s = t @ u \<and> list_all (\<lambda>c. \<not> line_terminator c) u \<and> glob_match (c # cs) t"
      then obtain t u where "s = c # t @ u" "list_all (\<lambda>c. \<not> line_terminator c) u" "glob_match cs t"
        using False by (auto simp: glob_match_char)
      moreover from this have "glob_match (cs @ [CHR ''*'']) (t @ u)" using Cons by blast
      ultimately show "glob_match ((c # cs) @ [CHR ''*'']) s" using False by (auto simp: glob_match_char)
    qed
  qed
qed

fun fits :: "(char \<Rightarrow> bool) list \<Rightarrow> string \<Rightarrow> bool" where
  "fits [] s = (s = [])"
| "fits (a # as) s = (\<exists>c t. s = c # t \<and> a c \<and> fits as t)"

definition inhabited :: "(char \<Rightarrow> bool) list \<Rightarrow> bool" where
  "inhabited accepts \<longleftrightarrow> (\<forall>a \<in> set accepts. (\<exists>c. a c) \<and> (\<forall>c. a c \<longrightarrow> \<not> line_terminator c))"

definition reaches :: "(char \<Rightarrow> bool) list \<Rightarrow> string \<Rightarrow> nat \<Rightarrow> bool" where
  "reaches accepts p k \<longleftrightarrow> (\<exists>s. fits (take k accepts) s \<and> glob_match p s)"

lemma fits_append: "fits (as @ bs) s \<longleftrightarrow> (\<exists>t u. s = t @ u \<and> fits as t \<and> fits bs u)"
proof (induction as arbitrary: s)
  case (Cons a as)
  show ?case
  proof
    assume "fits ((a # as) @ bs) s"
    then obtain c t u where "s = (c # t) @ u" "fits (a # as) (c # t)" "fits bs u" by (auto simp: Cons)
    then show "\<exists>t u. s = t @ u \<and> fits (a # as) t \<and> fits bs u" by blast
  next
    assume "\<exists>t u. s = t @ u \<and> fits (a # as) t \<and> fits bs u"
    then obtain c t u where "s = c # t @ u" "a c" "fits as t" "fits bs u" by auto
    moreover from this have "fits (as @ bs) (t @ u)" using Cons by blast
    ultimately show "fits ((a # as) @ bs) s" by simp
  qed
qed simp

lemma fits_length: "fits as s \<Longrightarrow> length s = length as"
  by (induction as arbitrary: s) auto

lemma fits_split: "fits as (t @ u) \<Longrightarrow> fits (take (length t) as) t"
proof (induction t arbitrary: as)
  case (Cons c t)
  then show ?case by (cases as) auto
qed simp

lemma fits_clean: "fits accepts s \<Longrightarrow> inhabited accepts \<Longrightarrow> list_all (\<lambda>c. \<not> line_terminator c) s"
  by (induction accepts arbitrary: s) (auto simp: inhabited_def)

lemma fits_ex: "inhabited accepts \<Longrightarrow> \<exists>s. fits accepts s"
proof (induction accepts)
  case (Cons a as)
  then obtain c t where "a c" "fits as t" unfolding inhabited_def by (metis list.set_intros)
  then have "fits (a # as) (c # t)" by simp
  then show ?case by (rule exI)
qed (auto intro: exI [of _ "[]"])

lemma fits_snoc: "fits (as @ [a]) s \<longleftrightarrow> (\<exists>t c. s = t @ [c] \<and> fits as t \<and> a c)"
proof -
  have "fits [a] u \<longleftrightarrow> (\<exists>c. u = [c] \<and> a c)" for u by auto
  then have "fits (as @ [a]) s \<longleftrightarrow> (\<exists>t u. s = t @ u \<and> fits as t \<and> (\<exists>c. u = [c] \<and> a c))"
    by (simp only: fits_append)
  also have "\<dots> \<longleftrightarrow> (\<exists>t c. s = t @ [c] \<and> fits as t \<and> a c)" by metis
  finally show ?thesis .
qed

lemma reaches_0: "reaches accepts p 0 \<longleftrightarrow> glob_match p []"
  by (simp add: reaches_def)

lemma reaches_char:
  assumes "p \<noteq> CHR ''*''" "k < length accepts"
  shows "reaches accepts (ps @ [p]) (Suc k) \<longleftrightarrow> reaches accepts ps k \<and> (accepts ! k) p"
  using assms
  by (auto simp: reaches_def take_Suc_conv_app_nth fits_snoc glob_match_snoc)

lemma reaches_star:
  assumes "inhabited accepts" "k \<le> length accepts"
  shows "reaches accepts (ps @ [CHR ''*'']) k \<longleftrightarrow> (\<exists>i \<le> k. reaches accepts ps i)"
proof
  assume "reaches accepts (ps @ [CHR ''*'']) k"
  then obtain t u where tu: "fits (take k accepts) (t @ u)" "glob_match ps t"
    by (auto simp: reaches_def glob_match_snoc_star)
  then have len: "length t + length u = k"
    using assms(2) by (auto dest!: fits_length)
  have "fits (take (length t) accepts) t"
    using fits_split [OF tu(1)] len by (simp add: min_def)
  with tu len show "\<exists>i \<le> k. reaches accepts ps i"
    by (intro exI [of _ "length t"]) (auto simp: reaches_def)
next
  assume "\<exists>i \<le> k. reaches accepts ps i"
  then obtain i t where i: "i \<le> k" "fits (take i accepts) t" "glob_match ps t" by (auto simp: reaches_def)
  let ?rest = "drop i (take k accepts)"
  have rest: "inhabited ?rest"
    using assms(1) by (auto simp: inhabited_def dest: in_set_dropD in_set_takeD)
  then obtain u where u: "fits ?rest u" using fits_ex by blast
  have "take k accepts = take i accepts @ ?rest"
    using i(1) by (metis append_take_drop_id min.absorb1 take_take)
  then have "fits (take k accepts) (t @ u)" using i u fits_append by metis
  with fits_clean [OF u rest] i show "reaches accepts (ps @ [CHR ''*'']) k"
    by (auto simp: reaches_def glob_match_snoc_star)
qed

lemma seen_scan_map:
  "seen_scan (\<exists>i \<le> m. f i) (map (\<lambda>k. f (Suc k)) [m..<n]) = map (\<lambda>k. \<exists>i \<le> Suc k. f i) [m..<n]"
proof (induction "n - m" arbitrary: m)
  case (Suc d)
  then have "[m..<n] = m # [Suc m..<n]" by (simp add: upt_conv_Cons)
  moreover have "(\<exists>i \<le> m. f i) \<or> f (Suc m) \<longleftrightarrow> (\<exists>i \<le> Suc m. f i)" by (auto simp: le_Suc_eq)
  moreover have "d = n - Suc m" using Suc by simp
  ultimately show ?case using Suc.hyps(1) [of "Suc m"] by simp
qed simp

lemma slot_fold:
  assumes "inhabited accepts"
  shows "foldl (slot_step accepts) (True, map (\<lambda>_. False) accepts) p =
    (reaches accepts p 0, map (\<lambda>k. reaches accepts p (Suc k)) [0..<length accepts])"
proof (induction p rule: rev_induct)
  case Nil
  have "\<not> reaches accepts [] (Suc k)" if "k < length accepts" for k
    using that by (auto simp: reaches_def take_Suc_conv_app_nth fits_snoc)
  then show ?case by (auto simp: reaches_0 map_replicate_const [symmetric] intro!: nth_equalityI)
next
  case (snoc c p)
  let ?n = "length accepts"
  show ?case
  proof (cases "c = CHR ''*''")
    case True
    have "seen_scan (reaches accepts p 0) (map (\<lambda>k. reaches accepts p (Suc k)) [0..<?n])
        = map (\<lambda>k. reaches accepts (p @ [CHR ''*'']) (Suc k)) [0..<?n]"
      using seen_scan_map [of 0 "reaches accepts p" ?n] assms
      by (auto simp: reaches_star)
    moreover have "reaches accepts (p @ [CHR ''*'']) 0 = reaches accepts p 0"
      using assms by (simp add: reaches_star)
    ultimately show ?thesis using True unfolding foldl_append snoc by (simp add: slot_step_def)
  next
    case False
    have "map2 (\<lambda>previous accept. previous \<and> accept c)
        (reaches accepts p 0 # map (\<lambda>k. reaches accepts p (Suc k)) [0..<?n]) accepts
      = map (\<lambda>k. reaches accepts (p @ [c]) (Suc k)) [0..<?n]"
      using False by (intro nth_equalityI) (auto simp: reaches_char nth_Cons split: nat.splits)
    moreover have "\<not> reaches accepts (p @ [c]) 0"
      using False by (simp add: reaches_0 glob_match_snoc)
    ultimately show ?thesis using False unfolding foldl_append snoc by (simp add: slot_step_def)
  qed
qed

lemma slot_inhabited:
  assumes "list_all (\<lambda>c. \<not> line_terminator c) (prefix @ suffix)"
  shows "inhabited (slot_accepts prefix suffix)"
proof -
  have "\<not> line_terminator c" if "is_hex c" for c
    using that by (auto simp: is_hex_def is_digit_def line_terminator_def less_eq_char_def)
  moreover have "is_hex (CHR ''a'')" by code_simp
  ultimately show ?thesis
    using assms by (auto simp: slot_accepts_def inhabited_def list_all_iff)
qed

lemma fits_slot:
  "fits (slot_accepts prefix suffix) s \<longleftrightarrow>
     (\<exists>h. length h = COLLISION_HASH_LENGTH \<and> list_all is_hex h \<and> s = prefix @ h @ suffix)"
proof -
  have lit: "fits (map (=) p) t \<longleftrightarrow> t = p" for p t :: string
    by (induction p arbitrary: t) auto
  have rep: "fits (replicate n is_hex) t \<longleftrightarrow> length t = n \<and> list_all is_hex t" for n t
  proof (induction n arbitrary: t)
    case (Suc n)
    then show ?case by (cases t) auto
  qed auto
  show ?thesis unfolding slot_accepts_def fits_append lit rep by blast
qed

lemma globMatchesHashSlot_exact:
  assumes "list_all (\<lambda>c. \<not> line_terminator c) (prefix @ suffix)"
  shows "globMatchesHashSlot pattern prefix suffix \<longleftrightarrow>
    (\<exists>h. length h = COLLISION_HASH_LENGTH \<and> list_all is_hex h \<and> glob_match pattern (prefix @ h @ suffix))"
proof -
  let ?a = "slot_accepts prefix suffix"
  have ne: "?a \<noteq> []" by (simp add: slot_accepts_def COLLISION_HASH_LENGTH_def)
  then have "last (map (\<lambda>k. reaches ?a pattern (Suc k)) [0..<length ?a]) = reaches ?a pattern (length ?a)"
    by (simp add: last_map)
  then have "globMatchesHashSlot pattern prefix suffix \<longleftrightarrow> reaches ?a pattern (length ?a)"
    using ne slot_fold [OF slot_inhabited [OF assms], of pattern] by (simp add: globMatchesHashSlot_def Let_def)
  also have "\<dots> \<longleftrightarrow> (\<exists>h. length h = COLLISION_HASH_LENGTH \<and> list_all is_hex h \<and> glob_match pattern (prefix @ h @ suffix))"
    by (auto simp: reaches_def fits_slot)
  finally show ?thesis .
qed


section \<open>Overlapping globs are seen to overlap\<close>

lemma is_space_lower [simp]: "is_space (lower_char c) = is_space c"
  by (cases c) (simp add: string_simps less_eq_char_def; auto)

lemma trim_toLowerCase: "trim (toLowerCase s) = toLowerCase (trim s)"
proof -
  have "dropWhile is_space (map lower_char t) = map lower_char (dropWhile is_space t)" for t
    by (induction t) simp_all
  then show ?thesis by (simp add: trim_def toLowerCase_def rev_map)
qed

lemma normalize_idem [simp]:
  "normalizeLowercaseStringOrEmpty (toLowerCase (trim s)) = normalizeLowercaseStringOrEmpty s"
  by (simp add: normalizeLowercaseStringOrEmpty_def trim_toLowerCase)

lemma normalizeToolName_idem: "normalizeToolName (toLowerCase (trim s)) = normalizeToolName s"
  by (simp add: normalizeToolName_def)

lemma normalize_targets: "map_of TOOL_NAME_ALIASES n = Some t \<Longrightarrow> normalizeToolName t = NName t"
  by (auto simp: TOOL_NAME_ALIASES_def split: if_splits) code_simp+

lemma normalizeToolName_stable: "normalizeToolName s = NName t \<Longrightarrow> normalizeToolName t = NName t"
proof -
  assume s: "normalizeToolName s = NName t"
  let ?n = "normalizeLowercaseStringOrEmpty s"
  show ?thesis
  proof (cases "map_of TOOL_NAME_ALIASES ?n")
    case None
    with s have "t = ?n" by (auto simp: normalizeToolName_def Let_def split: option.splits)
    with s show ?thesis by (metis normalizeLowercaseStringOrEmpty_def normalizeToolName_idem)
  next
    case (Some u)
    with s have "u = t" by (simp add: normalizeToolName_def Let_def)
    with Some show ?thesis by (simp add: normalize_targets)
  qed
qed

lemma glob_not_alias:
  assumes "CHR ''*'' \<in> set (toLowerCase (trim s))"
  shows "normalizeToolName s = NName (toLowerCase (trim s))"
proof -
  let ?n = "toLowerCase (trim s)"
  have "map_of TOOL_NAME_ALIASES ?n = None" "map_of prototype_keys ?n = None"
    using assms by (auto simp: TOOL_NAME_ALIASES_def prototype_keys_def split: if_splits)
  then show ?thesis by (simp add: normalizeToolName_def normalizeLowercaseStringOrEmpty_def)
qed

definition not_a_group :: "string \<Rightarrow> bool" where
  "not_a_group g = (map_of TOOL_GROUPS (name_text (normalizeToolName g)) = None)"

lemma selector_matches_single:
  assumes "not_a_group g"
  shows "selector_matches [g] v \<longleftrightarrow> (case normalizeToolName g of NHost _ \<Rightarrow> False
    | NName t \<Rightarrow> t \<noteq> [] \<and> (if t = ''*'' then True else if CHR ''*'' \<in> set t then glob_match t (name_text v)
        else v = NName t))"
proof (cases "normalizeToolName g")
  case (NName t)
  show ?thesis
  proof (cases "t = []")
    case True
    with NName show ?thesis by (simp add: selector_matches_iff expandToolGroups_def normalizeToolList_def)
  next
    case False
    with NName assms have "expandToolGroups [g] = [NName t]"
      by (simp add: expandToolGroups_def normalizeToolList_def not_a_group_def dedup_def)
    with NName False normalizeToolName_stable [OF NName] show ?thesis
      by (auto simp: selector_matches_iff compileGlobPattern_def Let_def)
  qed
next
  case (NHost t)
  with assms have "expandToolGroups [g] = [NHost t]"
    by (simp add: expandToolGroups_def normalizeToolList_def not_a_group_def dedup_def)
  with NHost show ?thesis by (simp add: selector_matches_iff compileGlobPattern_def)
qed

lemma split_on_head: "hd (split_on c p) = takeWhile (\<lambda>d. d \<noteq> c) p"
  by (induction p) (auto split: list.splits)

lemma glob_head_prefix: "glob_match p s \<Longrightarrow> CHR ''*'' \<in> set p \<Longrightarrow> startsWith s (glob_head p)"
proof -
  assume m: "glob_match p s" "CHR ''*'' \<in> set p"
  let ?h = "takeWhile (\<lambda>d. d \<noteq> CHR ''*'') p"
  have "p = ?h @ dropWhile (\<lambda>d. d \<noteq> CHR ''*'') p" by simp
  moreover have "CHR ''*'' \<notin> set ?h" by (auto dest: set_takeWhileD)
  ultimately obtain t where "s = ?h @ t" using m(1) glob_match_append_literal by metis
  then show ?thesis by (simp add: glob_head_def split_on_head)
qed

lemma glob_tail_suffix: "glob_match p s \<Longrightarrow> CHR ''*'' \<in> set p \<Longrightarrow> \<exists>t. s = t @ glob_tail p"
proof -
  assume m: "glob_match p s" "CHR ''*'' \<in> set p"
  from m(2) obtain a b where ab: "p = a @ CHR ''*'' # b" "CHR ''*'' \<notin> set b"
    by (metis split_list_last)
  have "glob_tail p = b"
    using ab by (simp add: glob_tail_def takeWhile_append)
  with glob_match_tail [of a b s] m(1) ab show ?thesis by simp
qed

lemma prefixes_comparable: "startsWith s p \<Longrightarrow> startsWith s q \<Longrightarrow> startsWith p q \<or> startsWith q p"
  by (auto simp: startsWith_iff append_eq_append_conv2)

lemma suffixes_comparable: "s = t @ p \<Longrightarrow> s = u @ q \<Longrightarrow> endsWith p q \<or> endsWith q p"
  by (auto simp: endsWith_iff append_eq_append_conv2)

lemma concrete_covered:
  assumes "not_a_group g" "selector_matches [g] v" "CHR ''*'' \<notin> set (toLowerCase (trim g))"
  shows "v = normalizeToolName g"
proof -
  have "CHR ''*'' \<notin> set t" if "normalizeToolName g = NName t" for t
    using that assms(3)
    by (auto simp: normalizeToolName_def normalizeLowercaseStringOrEmpty_def Let_def TOOL_NAME_ALIASES_def
        split: option.splits if_splits)
  with assms(1,2) show ?thesis by (auto simp: selector_matches_single split: NormalizedName.splits if_splits)
qed

lemma not_a_group_lower [simp]: "not_a_group (toLowerCase (trim g)) = not_a_group g"
  by (simp add: not_a_group_def normalizeToolName_idem)

lemma selector_matches_lower:
  "not_a_group g \<Longrightarrow> selector_matches [toLowerCase (trim g)] v = selector_matches [g] v"
  by (simp add: selector_matches_single normalizeToolName_idem)

lemma share_sound:
  assumes groups: "not_a_group a" "not_a_group b"
    and m: "selector_matches [a] v" "selector_matches [b] v"
  shows "patternsCanShareACall a b"
proof -
  let ?l = "toLowerCase (trim a)" and ?r = "toLowerCase (trim b)"
  consider "?l = [] \<or> ?r = [] \<or> ?l = ''*'' \<or> ?r = ''*''"
    | "CHR ''*'' \<notin> set ?r" | "CHR ''*'' \<in> set ?r" "CHR ''*'' \<notin> set ?l"
    | "CHR ''*'' \<in> set ?r" "CHR ''*'' \<in> set ?l" "?l \<noteq> ''*''" "?r \<noteq> ''*''"
    by blast
  then show ?thesis
  proof cases
    case 1
    then show ?thesis by (auto simp: patternsCanShareACall_def Let_def)
  next
    case 2
    then have "v = normalizeToolName ?r" using concrete_covered groups m normalizeToolName_idem by metis
    with m groups have "\<not> isToolAllowedByPolicyName ?r (deny_only [?l])"
      by (simp add: deny_only_iff selector_matches_lower)
    with 2 show ?thesis by (auto simp: patternsCanShareACall_def Let_def)
  next
    case 3
    then have "v = normalizeToolName ?l" using concrete_covered groups m normalizeToolName_idem by metis
    with m groups have "\<not> isToolAllowedByPolicyName ?l (deny_only [?r])"
      by (simp add: deny_only_iff selector_matches_lower)
    with 3 show ?thesis by (auto simp: patternsCanShareACall_def Let_def)
  next
    case 4
    then have g: "glob_match ?l (name_text v)" "glob_match ?r (name_text v)"
      using m groups by (auto simp: selector_matches_single glob_not_alias)
    have "startsWith (glob_head ?l) (glob_head ?r) \<or> startsWith (glob_head ?r) (glob_head ?l)"
    using g 4 glob_head_prefix prefixes_comparable by metis
    moreover have "endsWith (glob_tail ?l) (glob_tail ?r) \<or> endsWith (glob_tail ?r) (glob_tail ?l)"
      using g 4 glob_tail_suffix suffixes_comparable by metis
    ultimately show ?thesis using 4 by (auto simp: patternsCanShareACall_def Let_def)
  qed
qed

section \<open>Properties\<close>

text \<open>
  Matching a glob against the shape of a hashed name is exact: it succeeds when and only when
  some twelve hexadecimal digits in the slot give a name the glob matches.
\<close>

theorem hash_slot_matching_is_exact:
  assumes "list_all (\<lambda>c. \<not> line_terminator c) (prefix @ suffix)"
  shows "globMatchesHashSlot pattern prefix suffix
    = (\<exists>h. length h = COLLISION_HASH_LENGTH \<and> list_all is_hex h \<and> glob_match pattern (prefix @ h @ suffix))"
  by (rule globMatchesHashSlot_exact [OF assms])

theorem hash_slot_matching_witness:
  "globMatchesHashSlot ''srv_a1*__del'' ''srv_'' ''__del''
   \<and> (\<exists>h. length h = COLLISION_HASH_LENGTH \<and> list_all is_hex h \<and> glob_match ''srv_a1*__del'' (''srv_'' @ h @ ''__del''))"
proof -
  have slot: "globMatchesHashSlot ''srv_a1*__del'' ''srv_'' ''__del''" by code_simp
  moreover have "list_all (\<lambda>c. \<not> line_terminator c) (''srv_'' @ ''__del'')" by code_simp
  ultimately show ?thesis using hash_slot_matching_is_exact by blast
qed

text \<open>
  The overlap test between two selectors errs only one way: whenever some tool name is selected
  by both, it says the two can share a call. (A core-tool group is the exception: it stands for a
  list of names the test does not expand.)
\<close>

theorem overlapping_selectors_are_recognised:
  assumes "map_of TOOL_GROUPS (name_text (normalizeToolName a)) = None"
    "map_of TOOL_GROUPS (name_text (normalizeToolName b)) = None"
    "\<not> isToolAllowedByPolicyName n (deny_only [a])" "\<not> isToolAllowedByPolicyName n (deny_only [b])"
  shows "patternsCanShareACall a b"
  by (rule share_sound [of a b "normalizeToolName n"]) (use assms in \<open>auto simp: deny_only_iff not_a_group_def\<close>)

theorem overlapping_selectors_witness: "patternsCanShareACall ''GitHub__*'' ''github__*read''"
  by (rule overlapping_selectors_are_recognised [where n = "''github__read''"]) code_simp+

end
