(* ===== verification/Workflow_Control.thy ===== *)
theory Workflow_Control
  imports Enterprise_Types
begin

text \<open>
  The run's own control tools, \<^verbatim>\<open>src/enterprise/workflow-control.ts\<close>.
\<close>

text \<open>The MCP registration a tool object carries, absent for every other tool.\<close>

record McpRegistration =
  serverName :: string
  safeServerName :: string
  registeredToolName :: string

definition WORKFLOW_STEP_ADVANCE_TOOL :: string where
  "WORKFLOW_STEP_ADVANCE_TOOL = ''complete_step''"

definition WORKFLOW_STEP_REOPEN_TOOL :: string where
  "WORKFLOW_STEP_REOPEN_TOOL = ''reopen_step''"

definition isOurBareTool :: "string \<Rightarrow> McpRegistration option \<Rightarrow> string \<Rightarrow> bool" where
  "isOurBareTool toolName mcpTool expected =
     (if mcpTool \<noteq> None then False else toLowerCase (trim toolName) = expected)"

definition isDirectWorkflowTool :: "string \<Rightarrow> McpRegistration option \<Rightarrow> bool" where
  "isDirectWorkflowTool toolName mcpTool =
     (isOurBareTool toolName mcpTool WORKFLOW_STEP_ADVANCE_TOOL
      \<or> isOurBareTool toolName mcpTool WORKFLOW_STEP_REOPEN_TOOL)"

definition isWorkflowControlTool :: "string \<Rightarrow> McpRegistration option \<Rightarrow> bool" where
  "isWorkflowControlTool toolName mcpTool = isOurBareTool toolName mcpTool WORKFLOW_STEP_ADVANCE_TOOL"

lemma control_tool_is_direct: "isWorkflowControlTool t m \<Longrightarrow> isDirectWorkflowTool t m"
  by (simp add: isWorkflowControlTool_def isDirectWorkflowTool_def)

lemma reopen_is_not_control:
  "isOurBareTool t m WORKFLOW_STEP_REOPEN_TOOL \<Longrightarrow> \<not> isWorkflowControlTool t m"
  by (simp add: isWorkflowControlTool_def isOurBareTool_def WORKFLOW_STEP_ADVANCE_TOOL_def
      WORKFLOW_STEP_REOPEN_TOOL_def split: if_splits)

end
