(* ===== verification/Governance.thy ===== *)
theory Governance
  imports Mcp_Names Workflow_Control Expr_Eval
begin

text \<open>
  Governance of tool calls, knowledge retrieval and run starts, \<^verbatim>\<open>src/enterprise/governance.ts\<close>:
  the scope the active step's ontology declares first, then the policies an operator configured.
\<close>

section \<open>Selectors\<close>

definition resolveGovernancePolicies :: "GovernancePolicy list option \<Rightarrow> GovernancePolicy list" where
  "resolveGovernancePolicies configured = opt_list configured"

text \<open>\<open>xs?.length\<close> read for its truth value.\<close>

definition has_entries :: "'a list option \<Rightarrow> bool" where
  "has_entries xs = (opt_list xs \<noteq> [])"

definition matchesSelector :: "string \<Rightarrow> string list option \<Rightarrow> bool" where
  "matchesSelector value globs =
     (if \<not> has_entries globs then True
      else isToolAllowedByPolicyName value (allow_only (opt_list globs)))"

definition hasSubjectSelectors :: "GovernancePolicy \<Rightarrow> bool" where
  "hasSubjectSelectors policy =
     (has_entries (pol_tools policy) \<or> has_entries (pol_actions policy) \<or> has_entries (pol_knowledge policy))"

definition policyTargetsNode :: "GovernancePolicy \<Rightarrow> string \<Rightarrow> bool" where
  "policyTargetsNode policy node = matchesSelector node (pol_nodes policy)"

definition policyTargetsTree :: "GovernancePolicy \<Rightarrow> string \<Rightarrow> bool" where
  "policyTargetsTree policy tree = matchesSelector tree (pol_trees policy)"

definition policyTargetsAction :: "GovernancePolicy \<Rightarrow> string \<Rightarrow> bool" where
  "policyTargetsAction policy action = matchesSelector action (pol_actions policy)"

record GovernanceScope =
  gs_treeId :: string
  gs_nodeIds :: "string list"
  gs_actionIds :: "string list"

definition policyCanFireInScope :: "GovernancePolicy \<Rightarrow> GovernanceScope \<Rightarrow> bool" where
  "policyCanFireInScope policy scope =
     (policyTargetsTree policy (gs_treeId scope)
      \<and> (\<not> has_entries (pol_nodes policy) \<or> list_ex (policyTargetsNode policy) (gs_nodeIds scope))
      \<and> (\<not> has_entries (pol_actions policy) \<or> list_ex (policyTargetsAction policy) (gs_actionIds scope)))"

section \<open>The identity of an MCP call\<close>

record McpCallIdentity =
  identities :: "string list"
  namespaces :: "string list"
  toolParts :: "string list"

record McpOwnership =
  own_name :: string
  own_namespaces :: "string list"
  own_toolPart :: string

definition hashSlotShapes :: "string \<Rightarrow> string list \<Rightarrow> (string \<times> string) list" where
  "hashSlotShapes namespace parts = concat (map (\<lambda>tool.
     [(namespace @ ''_'', ''__'' @ tool), (namespace @ ''__'', ''__'' @ tool), (namespace @ ''__'', [])]
     @ map (\<lambda>i. (namespace @ ''__'' @ take (i + 1) tool @ ''_'', [])) [0..<length tool]) parts)"

definition rewrittenNameReachesCall :: "string \<Rightarrow> string list \<Rightarrow> string list \<Rightarrow> bool" where
  "rewrittenNameReachesCall entry nss parts =
     (let selector = toLowerCase (trim entry);
          named = (case mcpDenialToolPart selector nss of
              None \<Rightarrow> False
            | Some m \<Rightarrow>
                isUnrecoverableToolPart (dt_tool m)
                \<or> (dt_hashed m \<and>
                   (if dt_tool m = [] then [] \<in> set parts
                    else list_ex (\<lambda>tool. \<not> isToolAllowedByPolicyName tool (deny_only [dt_tool m])) parts)))
      in if named then True
         else if CHR ''*'' \<notin> set selector then False
         else list_ex (\<lambda>ns. list_ex (\<lambda>(prefix, suffix). globMatchesHashSlot selector prefix suffix)
                (hashSlotShapes ns parts)) nss)"

definition selectorsCoverCall :: "string list \<Rightarrow> McpCallIdentity \<Rightarrow> bool" where
  "selectorsCoverCall selectors call =
     (if list_ex (\<lambda>identity. matchesSelector identity (Some selectors)) (identities call) then True
      else namespaces call \<noteq> []
        \<and> list_ex (\<lambda>selector. rewrittenNameReachesCall selector (namespaces call) (toolParts call)) selectors)"

definition mcpToolAliases :: "string \<Rightarrow> McpOwnership option \<Rightarrow> bool \<Rightarrow> string list" where
  "mcpToolAliases toolName ownership includeBareServer = dedup (trim toolName #
     (case ownership of None \<Rightarrow> [] | Some own \<Rightarrow> concat (map (\<lambda>ns.
        [ns @ ''__'' @ own_toolPart own, ''mcp__'' @ ns @ ''__'' @ own_toolPart own,
         codexHookToolName ns (own_toolPart own),
         codexHookToolName (withLegacyPrefix ns) (own_toolPart own)]
        @ (if includeBareServer then [ns, ''mcp__'' @ ns] else [])) (own_namespaces own))))"

definition mcpServerOwningTool :: "McpRegistration option \<Rightarrow> string list \<Rightarrow> McpOwnership option" where
  "mcpServerOwningTool mcpTool registered = (case mcpTool of
     None \<Rightarrow> None
   | Some stamped \<Rightarrow>
       if serverName stamped \<notin> set registered then None
       else Some \<lparr> own_name = serverName stamped,
              own_namespaces = dedup [serverName stamped, safeServerName stamped],
              own_toolPart = registeredToolName stamped \<rparr>)"

definition attachesMcpServer :: "EnterprisePlanNode list \<Rightarrow> string \<Rightarrow> bool" where
  "attachesMcpServer path server =
     list_ex (\<lambda>n. server \<in> set (opt_list (mcpServers (ontology n)))) path"

text \<open>The three spellings \<open>evaluateToolCallGovernance\<close> gives a call.\<close>

definition call_identity :: "string \<Rightarrow> McpOwnership option \<Rightarrow> McpCallIdentity" where
  "call_identity toolName ownership = (case ownership of
     None \<Rightarrow> \<lparr> identities = [toolName], namespaces = [], toolParts = [] \<rparr>
   | Some own \<Rightarrow> \<lparr> identities = mcpToolAliases toolName ownership False,
       namespaces = codexHookNamespaces (own_namespaces own),
       toolParts = dedup [toLowerCase (own_toolPart own), toLowerCase (codexNamespace (own_toolPart own)),
         toLowerCase (trimCodexToolName (codexNamespace (own_toolPart own)))] \<rparr>)"

section \<open>Actions on the path\<close>

text \<open>Last declaration wins; a \<open>Map\<close> keeps the place of the first.\<close>

definition effectiveActionsOnPath :: "EnterprisePlanNode list \<Rightarrow> OntologyAction list" where
  "effectiveActionsOnPath path = map snd (fold (\<lambda>action m. AList.update (act_id action) action m)
     (concat (map (\<lambda>n. opt_list (actions (ontology n))) path)) [])"

definition actionsCoveringTool :: "EnterprisePlanNode list \<Rightarrow> McpCallIdentity \<Rightarrow> OntologyAction list" where
  "actionsCoveringTool path call = filter (\<lambda>action. case act_tools action of
       None \<Rightarrow> True
     | Some tools \<Rightarrow> tools \<noteq> [] \<and> selectorsCoverCall tools call) (effectiveActionsOnPath path)"

fun call_effect_tool :: "OntologyActionEffect \<Rightarrow> string option" where
  "call_effect_tool (CallEffect e) = Some (ce_tool e)"
| "call_effect_tool _ = None"

definition outwardActionsOnPath :: "EnterprisePlanNode list \<Rightarrow> (OntologyAction \<times> string list) list" where
  "outwardActionsOnPath path = filter (\<lambda>(action, tools). tools \<noteq> [])
     (map (\<lambda>action. (action, List.map_filter call_effect_tool (opt_list (act_effects action))))
       (effectiveActionsOnPath path))"

section \<open>The contract of an outward action\<close>

text \<open>
  The value of one argument of a call. Tool parameters are untyped at run time: next to an
  ontology value an argument can be an object or an array, and reading a name the call does not
  pass can reach \<open>Object.prototype\<close>.
\<close>

datatype CallArg = ArgValue OntologyValue | ArgUndefined | ArgObject | ArgFunction

datatype CallParams = NotAnObject | ParamObject "(string \<times> CallArg) list"

definition object_prototype :: "(string \<times> CallArg) list" where
  "object_prototype = (''__proto__'', ArgObject) # map (\<lambda>k. (k, ArgFunction))
     [''constructor'', ''hasOwnProperty'', ''isPrototypeOf'', ''propertyIsEnumerable'', ''toLocaleString'',
      ''toString'', ''valueOf'', ''__defineGetter__'', ''__defineSetter__'', ''__lookupGetter__'', ''__lookupSetter__'']"

definition read_arg :: "(string \<times> CallArg) list \<Rightarrow> string \<Rightarrow> CallArg" where
  "read_arg args key = (case map_of args key of
     Some v \<Rightarrow> v
   | None \<Rightarrow> (case map_of object_prototype key of Some v \<Rightarrow> v | None \<Rightarrow> ArgUndefined))"

fun typeof_arg :: "CallArg \<Rightarrow> string" where
  "typeof_arg (ArgValue v) = type_text (value_type v)"
| "typeof_arg ArgUndefined = ''undefined''"
| "typeof_arg ArgObject = ''object''"
| "typeof_arg ArgFunction = ''function''"

fun value_type_text :: "OntologyValueType \<Rightarrow> string" where
  "value_type_text TyString = ''string''"
| "value_type_text TyNumber = ''number''"
| "value_type_text TyBoolean = ''boolean''"
| "value_type_text TyDate = ''date''"
| "value_type_text TyId = ''id''"

fun arg_matches_type :: "CallArg \<Rightarrow> OntologyValueType \<Rightarrow> bool" where
  "arg_matches_type (ArgValue v) ty = ontologyValueMatchesType v ty"
| "arg_matches_type _ ty = False"

definition parameter_violation :: "string \<Rightarrow> (string \<times> CallArg) list \<Rightarrow> OntologyActionParameter \<Rightarrow> string option" where
  "parameter_violation action args p =
     (let v = read_arg args (par_id p) in
      if v = ArgUndefined \<or> v = ArgValue VNull
      then (if truthy (par_required p)
            then Some (''action '' @ quoted action @ '' requires '' @ quoted (par_id p) @ '', which this call did not pass'')
            else None)
      else if \<not> arg_matches_type v (par_type p)
      then Some (''action '' @ quoted action @ '' declares '' @ quoted (par_id p) @ '' as '' @
             value_type_text (par_type p) @ '', but this call passed '' @ typeof_arg v)
      else None)"

definition actionContractViolation :: "OntologyAction \<Rightarrow> (string \<times> CallArg) list \<Rightarrow> string option" where
  "actionContractViolation action args =
     (let parameters = opt_list (act_parameters action);
          declared = dedup (map par_id parameters)
      in if length declared \<noteq> length parameters
         then Some (''action '' @ quoted (act_id action) @ '' declares the same parameter more than once'')
         else case List.find (\<lambda>name. name \<notin> set declared) (map fst args) of
           Some name \<Rightarrow> Some (''action '' @ quoted (act_id action) @ '' does not declare a parameter '' @
             quoted name @ ''; it declares: '' @
             (if declared = [] then ''(none)'' else join '', '' (sorted_set declared)))
         | None \<Rightarrow> first_some (parameter_violation (act_id action) args) parameters)"

definition callArguments :: "CallParams \<Rightarrow> (string \<times> CallArg) list" where
  "callArguments raw = (case raw of NotAnObject \<Rightarrow> [] | ParamObject args \<Rightarrow> args)"

definition foldCallableName :: "string \<Rightarrow> string" where
  "foldCallableName value = toLowerCase (map (\<lambda>c. if c = CHR ''-'' then CHR ''_'' else c) (withLegacyPrefix value))"

definition outwardSelectorMatchesName :: "string \<Rightarrow> string \<Rightarrow> bool" where
  "outwardSelectorMatchesName selector toolName =
     matchesSelector (foldCallableName toolName) (Some [foldCallableName selector])"

definition outwardTargetsServer :: "(OntologyAction \<times> string list) list \<Rightarrow> string list \<Rightarrow> bool" where
  "outwardTargetsServer outward nss =
     (let prefixes = map (\<lambda>name. foldCallableName name @ ''__'') nss in
      list_ex (\<lambda>(action, tools). list_ex (\<lambda>selector.
        list_ex (startsWith (foldCallableName selector)) prefixes) tools) outward)"

text \<open>\<open>{ decision }\<close>, \<open>{ action }\<close> or null.\<close>

datatype OutwardOutcome = OutwardDecision GovernanceDecision | OutwardAction OntologyAction | OutwardNone

definition hard_denial :: "string \<Rightarrow> GovernanceDecision" where
  "hard_denial reason = \<lparr> dec_effect = EffDeny, dec_policyId = None, dec_source = SrcOntology,
     dec_reason = reason, dec_approval = None, dec_ontologyOmission = False, dec_outwardActionId = None \<rparr>"

definition outwardActionDecision ::
  "EnterprisePlanNode list \<Rightarrow> McpCallIdentity \<Rightarrow> string \<Rightarrow> (string \<times> CallArg) list \<Rightarrow> bool \<Rightarrow> string list \<Rightarrow>
   OutwardOutcome" where
  "outwardActionDecision path call toolName args mcpAttached nss =
     (let outward = outwardActionsOnPath path in
      if outward = [] then OutwardNone
      else let covering = map fst (filter (\<lambda>(action, tools). selectorsCoverCall tools call
                 \<or> list_ex (\<lambda>selector. outwardSelectorMatchesName selector toolName) tools) outward)
      in if covering = []
         then (if \<not> mcpAttached \<or> \<not> outwardTargetsServer outward nss then OutwardNone
               else OutwardDecision (hard_denial (''tool '' @ quoted toolName @
                 '' is not one of the outward actions workflow step '' @
                 quoted (if path = [] then ''?'' else nodeId (last path)) @
                 '' declares; give an action a call effect naming it to make it reachable here'')))
         else (case List.find (\<lambda>action. actionContractViolation action args = None) covering of
             Some action \<Rightarrow> OutwardAction action
           | None \<Rightarrow> OutwardDecision (hard_denial
               (case actionContractViolation (hd covering) args of
                  Some reason \<Rightarrow> reason
                | None \<Rightarrow> ''tool '' @ quoted toolName @ '' does not satisfy its ontology action''))))"

section \<open>The scope of a step\<close>

definition CORE_FLOOR_TOOLS :: "string list" where
  "CORE_FLOOR_TOOLS = [''message'', ''read'', ''memory_search'']"

definition isCoreFloorTool :: "string \<Rightarrow> bool" where
  "isCoreFloorTool toolName = (toLowerCase (trim toolName) \<in> set CORE_FLOOR_TOOLS)"

datatype ViolationKind = ViolationDenied | ViolationScope | ViolationUngranted

record OntologyScopeViolation =
  viol_node :: EnterprisePlanNode
  viol_kind :: ViolationKind

definition foldNative :: "string \<Rightarrow> string" where
  "foldNative value = map (\<lambda>c. if responses_char c \<or> c = CHR ''*'' then c else CHR ''_'') value"

text \<open>Pass 1 of the scope check at one node: does its \<open>deniedTools\<close> name the call?\<close>

definition node_denies :: "string \<Rightarrow> bool \<Rightarrow> McpOwnership option \<Rightarrow> McpCallIdentity \<Rightarrow> EnterprisePlanNode \<Rightarrow> bool" where
  "node_denies toolName mcpAttached ownership call node =
     (let deny = opt_list (deniedTools (ontology node));
          denyIdentities = (if mcpAttached then mcpToolAliases toolName ownership True else [toolName]);
          allowed = (\<lambda>identity. isToolAllowedByPolicyName identity (deny_only deny)
             \<and> (\<not> mcpAttached \<or> isToolAllowedByPolicyName (foldNative identity) (deny_only (map foldNative deny))))
      in deny \<noteq> []
         \<and> (list_ex (\<lambda>identity. \<not> allowed identity) denyIdentities
            \<or> (mcpAttached \<and> list_ex (\<lambda>entry. rewrittenNameReachesCall entry (namespaces call) (toolParts call)) deny)))"

definition allows_tool :: "string \<Rightarrow> EnterprisePlanNode \<Rightarrow> bool" where
  "allows_tool toolName node =
     isToolAllowedByPolicyName toolName (allow_only (opt_list (allowedTools (ontology node))))"

definition ontologyScopeViolation ::
  "EnterprisePlanNode list \<Rightarrow> string \<Rightarrow> bool \<Rightarrow> McpOwnership option \<Rightarrow> McpCallIdentity \<Rightarrow> bool \<Rightarrow>
   OntologyScopeViolation option" where
  "ontologyScopeViolation path toolName mcpAttached ownership call grantsExplicitly =
     (case List.find (node_denies toolName mcpAttached ownership call) path of
        Some node \<Rightarrow> Some \<lparr> viol_node = node, viol_kind = ViolationDenied \<rparr>
      | None \<Rightarrow>
          if mcpAttached then None
          else if grantsExplicitly \<and> \<not> mcpAttached \<and> isCoreFloorTool toolName then None
          else (case List.find (\<lambda>n. has_entries (allowedTools (ontology n)) \<and> \<not> allows_tool toolName n) path of
              Some node \<Rightarrow> Some \<lparr> viol_node = node, viol_kind = ViolationScope \<rparr>
            | None \<Rightarrow>
                if grantsExplicitly
                   \<and> \<not> list_ex (\<lambda>n. has_entries (allowedTools (ontology n)) \<and> allows_tool toolName n) path
                   \<and> path \<noteq> []
                then Some \<lparr> viol_node = last path, viol_kind = ViolationUngranted \<rparr>
                else None))"

section \<open>Policies\<close>

text \<open>How a call names its ontology action: \<open>carriesAction\<close> and \<open>actionId\<close>.\<close>

definition actionSelectorMatches ::
  "GovernancePolicy \<Rightarrow> OntologyAction list \<Rightarrow> string option \<Rightarrow> bool \<Rightarrow> string list \<Rightarrow> bool" where
  "actionSelectorMatches policy coveringActions actionId carriesAction declaredActions =
     (if carriesAction
      then (case actionId of
          None \<Rightarrow> False
        | Some a \<Rightarrow> a \<in> set declaredActions \<and> matchesSelector a (pol_actions policy))
      else list_ex (\<lambda>action. matchesSelector (act_id action) (pol_actions policy)) coveringActions)"

definition policyAppliesToToolCall ::
  "GovernancePolicy \<Rightarrow> string \<Rightarrow> EnterprisePlanNode list \<Rightarrow> McpCallIdentity \<Rightarrow> OntologyAction list \<Rightarrow>
   string option \<Rightarrow> bool \<Rightarrow> string list \<Rightarrow> bool" where
  "policyAppliesToToolCall policy tree path call coveringActions actionId carriesAction declaredActions =
     (let toolScoped = has_entries (pol_tools policy); actionScoped = has_entries (pol_actions policy) in
      if \<not> toolScoped \<and> \<not> actionScoped then False
      else if has_entries (pol_knowledge policy) then False
      else if toolScoped \<and> \<not> selectorsCoverCall (opt_list (pol_tools policy)) call then False
      else if actionScoped
        \<and> \<not> actionSelectorMatches policy coveringActions actionId carriesAction declaredActions then False
      else matchesSelector tree (pol_trees policy)
        \<and> list_ex (\<lambda>n. matchesSelector (nodeId n) (pol_nodes policy)) path)"

definition policyAppliesToRun :: "GovernancePolicy \<Rightarrow> string \<Rightarrow> string \<Rightarrow> bool" where
  "policyAppliesToRun policy tree rootNode =
     (if hasSubjectSelectors policy then False
      else matchesSelector tree (pol_trees policy) \<and> matchesSelector rootNode (pol_nodes policy))"

definition policyAppliesToKnowledge ::
  "GovernancePolicy \<Rightarrow> string \<Rightarrow> EnterprisePlanNode list \<Rightarrow> string \<Rightarrow> bool" where
  "policyAppliesToKnowledge policy tree path foundation =
     (if \<not> has_entries (pol_knowledge policy) \<or> \<not> matchesSelector foundation (pol_knowledge policy) then False
      else if has_entries (pol_tools policy) \<or> has_entries (pol_actions policy) then False
      else matchesSelector tree (pol_trees policy)
        \<and> list_ex (\<lambda>n. matchesSelector (nodeId n) (pol_nodes policy)) path)"

fun first_found :: "('a \<Rightarrow> bool) list \<Rightarrow> 'a list \<Rightarrow> 'a option" where
  "first_found [] xs = None"
| "first_found (P # Ps) xs = (case List.find P xs of Some x \<Rightarrow> Some x | None \<Rightarrow> first_found Ps xs)"

fun generated_reason :: "string \<Rightarrow> GovernancePolicy \<Rightarrow> string" where
  "generated_reason subject policy = (case pol_effect policy of
     EffDeny \<Rightarrow> subject @ '' is denied by governance policy '' @ quoted (pol_id policy)
   | EffRequireApproval \<Rightarrow> subject @ '' requires approval by governance policy '' @ quoted (pol_id policy)
   | EffAllow \<Rightarrow> ''allowed by governance policy '' @ quoted (pol_id policy)
   | EffAudit \<Rightarrow> ''audited by governance policy '' @ quoted (pol_id policy))"

definition resolvePolicyDecision :: "GovernancePolicy list \<Rightarrow> string \<Rightarrow> GovernanceDecision option" where
  "resolvePolicyDecision matching subject =
     (case first_found (map (\<lambda>e p. pol_effect p = e) [EffDeny, EffRequireApproval, EffAllow, EffAudit]) matching of
        None \<Rightarrow> None
      | Some winner \<Rightarrow>
          let description = (case pol_description winner of None \<Rightarrow> [] | Some d \<Rightarrow> trim d) in
          Some \<lparr> dec_effect = pol_effect winner, dec_policyId = Some (pol_id winner), dec_source = SrcPolicy,
            dec_reason = (if description = [] then generated_reason subject winner else description),
            dec_approval = (if pol_effect winner = EffRequireApproval then pol_approval winner else None),
            dec_ontologyOmission = False, dec_outwardActionId = None \<rparr>)"

definition default_allow :: "string \<Rightarrow> GovernanceDecision" where
  "default_allow reason = \<lparr> dec_effect = EffAllow, dec_policyId = None, dec_source = SrcDefault,
     dec_reason = reason, dec_approval = None, dec_ontologyOmission = False, dec_outwardActionId = None \<rparr>"

definition evaluateKnowledgeRetrievalGovernance ::
  "EnterpriseRunPlan \<Rightarrow> EnterprisePlanNode \<Rightarrow> string \<Rightarrow> GovernancePolicy list \<Rightarrow> GovernanceDecision" where
  "evaluateKnowledgeRetrievalGovernance plan node foundation policies =
     (case resolvePolicyDecision
        (filter (\<lambda>p. policyAppliesToKnowledge p (treeId plan) [node] foundation) policies)
        (''knowledge foundation '' @ quoted foundation) of
        Some decision \<Rightarrow> decision
      | None \<Rightarrow> default_allow ''no governance policy restricts this knowledge foundation'')"

definition evaluateRunStartGovernance :: "EnterpriseRunPlan \<Rightarrow> GovernancePolicy list \<Rightarrow> GovernanceDecision" where
  "evaluateRunStartGovernance plan policies =
     (let rootNode = (case nodes plan of [] \<Rightarrow> activeNodeId plan | n # _ \<Rightarrow> nodeId n) in
      case resolvePolicyDecision (filter (\<lambda>p. policyAppliesToRun p (treeId plan) rootNode) policies)
        (''workflow tree '' @ quoted (treeId plan)) of
        Some decision \<Rightarrow> decision
      | None \<Rightarrow> default_allow ''no governance policy restricts this workflow tree'')"

section \<open>The decision on a tool call\<close>

record ToolCall =
  tc_toolName :: string
  tc_actionId :: "string option"
  tc_carriesAction :: bool
  tc_mcpTool :: "McpRegistration option"
  tc_mcpServers :: "string list"
  tc_tracksSteps :: bool
  tc_toolParams :: CallParams

text \<open>The prompt an omission raises: no policy, deny when nobody answers.\<close>

definition omission_reason :: "string \<Rightarrow> OntologyScopeViolation \<Rightarrow> string" where
  "omission_reason toolName v =
     (if viol_kind v = ViolationUngranted
      then ''tool '' @ quoted toolName @ '' is not granted to workflow step '' @ quoted (nodeId (viol_node v)) @
        ''. This work-map grants capabilities explicitly, so allowing it here is a one-off; to grant it for good, name it in that step's ontology.allowedTools.''
      else ''tool '' @ quoted toolName @ '' is outside the ontology tool scope of workflow step '' @
        quoted (nodeId (viol_node v)) @
        ''. Allowing it here is a one-off; to change it for good, widen that step's ontology.allowedTools.'')"

definition omission_decision :: "string \<Rightarrow> OntologyScopeViolation \<Rightarrow> GovernanceDecision" where
  "omission_decision toolName v = \<lparr> dec_effect = EffRequireApproval, dec_policyId = None, dec_source = SrcOntology,
     dec_reason = omission_reason toolName v,
     dec_approval = Some \<lparr> ap_timeoutMs = None, ap_timeoutBehavior = Some TimeoutDeny, ap_severity = Some SevWarning \<rparr>,
     dec_ontologyOmission = True, dec_outwardActionId = None \<rparr>"

text \<open>\<open>{ ...decision.approval, timeoutBehavior: 'deny' }\<close>.\<close>

definition deny_on_timeout :: "GovernanceApprovalSettings option \<Rightarrow> GovernanceApprovalSettings" where
  "deny_on_timeout ap = (case ap of
     None \<Rightarrow> \<lparr> ap_timeoutMs = None, ap_timeoutBehavior = Some TimeoutDeny, ap_severity = None \<rparr>
   | Some a \<Rightarrow> a \<lparr> ap_timeoutBehavior := Some TimeoutDeny \<rparr>)"

definition withOutwardAction :: "OntologyAction option \<Rightarrow> GovernanceDecision \<Rightarrow> GovernanceDecision" where
  "withOutwardAction satisfied decision = (case satisfied of
     None \<Rightarrow> decision | Some a \<Rightarrow> decision \<lparr> dec_outwardActionId := Some (act_id a) \<rparr>)"

text \<open>The lanes after the outward one: the policies, and what an omission makes of them.\<close>

definition combine_decision :: "GovernanceDecision option \<Rightarrow> GovernanceDecision option \<Rightarrow> GovernanceDecision" where
  "combine_decision omission decision = (case omission of
     Some ask \<Rightarrow> (case decision of
         Some d \<Rightarrow>
           if dec_effect d = EffDeny then d
           else if dec_effect d = EffRequireApproval
           then d \<lparr> dec_approval := Some (deny_on_timeout (dec_approval d)), dec_ontologyOmission := True \<rparr>
           else ask
       | None \<Rightarrow> ask)
   | None \<Rightarrow> (case decision of
         Some d \<Rightarrow> d
       | None \<Rightarrow> default_allow ''no governance policy restricts this tool call''))"

definition matching_policies ::
  "EnterpriseRunPlan \<Rightarrow> EnterprisePlanNode \<Rightarrow> McpCallIdentity \<Rightarrow> ToolCall \<Rightarrow> GovernancePolicy list \<Rightarrow> GovernancePolicy list" where
  "matching_policies plan node call c policies =
     (let covering = actionsCoveringTool [node] call;
          declared = map act_id (effectiveActionsOnPath [node])
      in filter (\<lambda>p. policyAppliesToToolCall p (treeId plan) [node] call covering
           (tc_actionId c) (tc_carriesAction c) declared) policies)"

text \<open>
  What follows once nothing denied the call outright: the outward lane, then the omission and the
  policies, with the satisfied outward action stamped onto the decision.
\<close>

definition outward_lanes ::
  "EnterpriseRunPlan \<Rightarrow> EnterprisePlanNode \<Rightarrow> GovernancePolicy list \<Rightarrow> ToolCall \<Rightarrow> McpCallIdentity \<Rightarrow> bool \<Rightarrow>
   McpOwnership option \<Rightarrow> OntologyScopeViolation option \<Rightarrow> GovernanceDecision" where
  "outward_lanes plan node policies c call attached ownership violation =
     (let outward = outwardActionDecision [node] call (tc_toolName c) (callArguments (tc_toolParams c)) attached
            (case ownership of Some own \<Rightarrow> own_namespaces own | None \<Rightarrow> [])
      in case outward of
           OutwardDecision d \<Rightarrow> d
         | _ \<Rightarrow>
           let satisfied = (case outward of OutwardAction a \<Rightarrow> Some a | _ \<Rightarrow> None);
               omission = (case violation of
                   Some v \<Rightarrow> if satisfied = None then Some (omission_decision (tc_toolName c) v) else None
                 | None \<Rightarrow> None);
               subject = (case tc_actionId c of
                   Some a \<Rightarrow> ''action '' @ quoted a | None \<Rightarrow> ''tool '' @ quoted (tc_toolName c))
           in withOutwardAction satisfied (combine_decision omission
                (resolvePolicyDecision (matching_policies plan node call c policies) subject)))"

definition evaluateToolCallGovernance ::
  "EnterpriseRunPlan \<Rightarrow> EnterprisePlanNode \<Rightarrow> GovernancePolicy list \<Rightarrow> ToolCall \<Rightarrow> GovernanceDecision" where
  "evaluateToolCallGovernance plan node policies c =
     (if tc_tracksSteps c \<and> isWorkflowControlTool (tc_toolName c) (tc_mcpTool c)
      then default_allow ''workflow step advancement is not a governed capability''
      else
        let ownership = mcpServerOwningTool (tc_mcpTool c) (tc_mcpServers c);
            mcpIsGoverned = truthy (mcpGoverned plan);
            attached = (case ownership of
                Some own \<Rightarrow> mcpIsGoverned \<and> attachesMcpServer [node] (own_name own) | None \<Rightarrow> False)
        in if ownership \<noteq> None \<and> mcpIsGoverned \<and> \<not> attached
           then hard_denial (''MCP server '' @ quoted (own_name (the ownership)) @
             '' is not attached to workflow step '' @ quoted (nodeId node) @
             ''; the step must name it in ontology.mcpServers'')
           else
             let call = call_identity (tc_toolName c) ownership;
                 violation = ontologyScopeViolation [node] (tc_toolName c) attached ownership call
                   (capabilityGrants plan = Some GrantsExplicit)
             in case violation of
                  Some v \<Rightarrow>
                    if viol_kind v = ViolationDenied
                    then hard_denial (''tool '' @ quoted (tc_toolName c) @ '' is denied at workflow step '' @
                      quoted (nodeId (viol_node v)) @ '' by ontology.deniedTools'')
                    else outward_lanes plan node policies c call attached ownership (Some v)
                | None \<Rightarrow> outward_lanes plan node policies c call attached ownership None)"

end
