(* ===== verification/Governance_Laws.thy ===== *)
theory Governance_Laws
  imports Governance
begin

text \<open>
  The laws of the governance gate the properties rest on: how the matching policies resolve, the
  case analysis of the gate (\<open>gate_cases\<close>, \<open>lanes_cases\<close>), and the contract of an outward action
  stated declaratively (\<open>contract_met\<close>).
\<close>

section \<open>Resolution of the matching policies\<close>

definition strictness :: "GovernanceEffect \<Rightarrow> nat" where
  "strictness e = (case e of EffDeny \<Rightarrow> 3 | EffRequireApproval \<Rightarrow> 2 | EffAllow \<Rightarrow> 1 | EffAudit \<Rightarrow> 0)"

lemma find_ex: "(\<exists>x. List.find P xs = Some x) \<longleftrightarrow> (\<exists>x \<in> set xs. P x)"
  by (metis find_None_iff find_Some_mem not_None_eq)

lemma first_found_None:
  "first_found (map (\<lambda>e p. pol_effect p = e) es) ps = None \<longleftrightarrow> (\<forall>p \<in> set ps. pol_effect p \<notin> set es)"
proof (induction es)
  case (Cons e es)
  show ?case
  proof (cases "List.find (\<lambda>p. pol_effect p = e) ps")
    case None
    moreover from None have "\<forall>p \<in> set ps. pol_effect p \<noteq> e" by (simp add: find_None_iff)
    ultimately show ?thesis using Cons by auto
  next
    case (Some w)
    with find_Some_mem [OF Some] show ?thesis by auto
  qed
qed simp

lemma all_effects: "e \<in> set [EffDeny, EffRequireApproval, EffAllow, EffAudit]"
  by (cases e) simp_all

lemma resolve_None: "resolvePolicyDecision ps subject = None \<longleftrightarrow> ps = []"
proof -
  have "resolvePolicyDecision ps subject = None \<longleftrightarrow>
      first_found (map (\<lambda>e p. pol_effect p = e) [EffDeny, EffRequireApproval, EffAllow, EffAudit]) ps = None"
    unfolding resolvePolicyDecision_def Let_def by (simp split: option.splits)
  also have "\<dots> \<longleftrightarrow> ps = []"
    unfolding first_found_None using all_effects by (cases ps) auto
  finally show ?thesis .
qed

lemma first_found_effect:
  "first_found (map (\<lambda>e p. pol_effect p = e) es) ps = Some w \<Longrightarrow>
   w \<in> set ps \<and> (\<exists>i < length es. pol_effect w = es ! i \<and> (\<forall>j < i. \<forall>p \<in> set ps. pol_effect p \<noteq> es ! j))"
proof (induction es)
  case (Cons e es)
  show ?case
  proof (cases "List.find (\<lambda>p. pol_effect p = e) ps")
    case None
    with Cons obtain i where i: "w \<in> set ps" "i < length es" "pol_effect w = es ! i"
      "\<forall>j < i. \<forall>p \<in> set ps. pol_effect p \<noteq> es ! j" by auto
    have "\<forall>p \<in> set ps. pol_effect p \<noteq> e" using None by (auto simp: find_None_iff)
    with i show ?thesis
      by (intro conjI exI [of _ "Suc i"]) (auto simp: nth_Cons split: nat.splits)
  next
    case (Some v)
    with Cons.prems have "v = w" by simp
    with find_Some_mem [OF Some] show ?thesis by (intro conjI exI [of _ 0]) auto
  qed
qed simp

lemma resolve_Some:
  assumes "resolvePolicyDecision ps subject = Some d"
  shows "\<exists>w \<in> set ps. dec_policyId d = Some (pol_id w) \<and> dec_effect d = pol_effect w \<and> dec_source d = SrcPolicy
    \<and> dec_outwardActionId d = None \<and> \<not> dec_ontologyOmission d \<and> (\<forall>p \<in> set ps. strictness (pol_effect p) \<le> strictness (pol_effect w))"
proof -
  let ?es = "[EffDeny, EffRequireApproval, EffAllow, EffAudit]"
  from assms obtain w where w: "first_found (map (\<lambda>e p. pol_effect p = e) ?es) ps = Some w"
    and d: "dec_policyId d = Some (pol_id w)" "dec_effect d = pol_effect w" "dec_source d = SrcPolicy"
      "dec_outwardActionId d = None" "\<not> dec_ontologyOmission d"
    by (auto simp: resolvePolicyDecision_def Let_def split: option.splits)
  from first_found_effect [OF w] obtain i where i: "w \<in> set ps" "i < length ?es" "pol_effect w = ?es ! i"
    "\<forall>j < i. \<forall>p \<in> set ps. pol_effect p \<noteq> ?es ! j" by blast
  have "strictness (pol_effect p) \<le> strictness (pol_effect w)" if p: "p \<in> set ps" for p
  proof -
    have "i = 0 \<or> i = 1 \<or> i = 2 \<or> i = 3" using i(2) by (simp add: less_Suc_eq numeral_2_eq_2 numeral_3_eq_3)
    moreover have "pol_effect p \<noteq> ?es ! 0" if "0 < i" using i(4) p that by blast
    moreover have "pol_effect p \<noteq> ?es ! 1" if "1 < i" using i(4) p that by blast
    moreover have "pol_effect p \<noteq> ?es ! 2" if "2 < i" using i(4) p that by blast
    ultimately show ?thesis using i(3)
      by (cases "pol_effect p") (auto simp: strictness_def numeral_2_eq_2 numeral_3_eq_3)
  qed
  with i(1) d show ?thesis by blast
qed

lemma strictness_inj: "strictness a = strictness b \<Longrightarrow> a = b"
  by (cases a; cases b) (simp_all add: strictness_def)

lemma resolve_effect_set:
  assumes "set ps = set qs"
  shows "map_option dec_effect (resolvePolicyDecision ps s) = map_option dec_effect (resolvePolicyDecision qs s)"
proof (cases "resolvePolicyDecision ps s")
  case None
  with assms have "qs = []" by (simp add: resolve_None)
  with None show ?thesis by (simp add: resolve_None)
next
  case (Some d)
  then have "qs \<noteq> []" using assms resolve_None [of ps s] by auto
  then obtain e where e: "resolvePolicyDecision qs s = Some e" by (metis resolve_None not_None_eq)
  from resolve_Some [OF Some] resolve_Some [OF e] assms
  have "strictness (dec_effect d) \<le> strictness (dec_effect e)" "strictness (dec_effect e) \<le> strictness (dec_effect d)"
    by (metis)+
  with Some e show ?thesis by (simp add: strictness_inj)
qed

lemma resolve_deny:
  assumes "p \<in> set ps" "pol_effect p = EffDeny"
  shows "\<exists>d. resolvePolicyDecision ps s = Some d \<and> dec_effect d = EffDeny"
proof -
  obtain d where d: "resolvePolicyDecision ps s = Some d"
    using assms(1) by (metis resolve_None not_None_eq empty_iff empty_set)
  from resolve_Some [OF d] assms have "strictness EffDeny \<le> strictness (dec_effect d)" by metis
  then have "dec_effect d = EffDeny" by (cases "dec_effect d") (simp_all add: strictness_def)
  with d show ?thesis by blast
qed

section \<open>The gate, case by case\<close>

lemma hard_denial_simps [simp]:
  "dec_effect (hard_denial r) = EffDeny" "dec_outwardActionId (hard_denial r) = None"
  by (simp_all add: hard_denial_def)

lemma withOutward_simps [simp]:
  "dec_effect (withOutwardAction a d) = dec_effect d"
  "dec_ontologyOmission (withOutwardAction a d) = dec_ontologyOmission d"
  "dec_approval (withOutwardAction a d) = dec_approval d"
  by (simp_all add: withOutwardAction_def split: option.splits)

lemma withOutward_None [simp]: "withOutwardAction None d = d"
  by (simp add: withOutwardAction_def)

definition control_call :: "ToolCall \<Rightarrow> bool" where
  "control_call c = (tc_tracksSteps c \<and> isWorkflowControlTool (tc_toolName c) (tc_mcpTool c))"

definition call_owner :: "ToolCall \<Rightarrow> McpOwnership option" where
  "call_owner c = mcpServerOwningTool (tc_mcpTool c) (tc_mcpServers c)"

definition call_attached :: "EnterpriseRunPlan \<Rightarrow> EnterprisePlanNode \<Rightarrow> ToolCall \<Rightarrow> bool" where
  "call_attached plan node c = (case call_owner c of
     Some own \<Rightarrow> truthy (mcpGoverned plan) \<and> attachesMcpServer [node] (own_name own) | None \<Rightarrow> False)"

definition the_call :: "ToolCall \<Rightarrow> McpCallIdentity" where
  "the_call c = call_identity (tc_toolName c) (call_owner c)"

definition the_violation :: "EnterpriseRunPlan \<Rightarrow> EnterprisePlanNode \<Rightarrow> ToolCall \<Rightarrow> OntologyScopeViolation option" where
  "the_violation plan node c = ontologyScopeViolation [node] (tc_toolName c) (call_attached plan node c)
     (call_owner c) (the_call c) (capabilityGrants plan = Some GrantsExplicit)"

lemmas gate_defs = call_owner_def call_attached_def the_call_def the_violation_def control_call_def

lemma gate_cases:
  assumes "\<not> control_call c"
  obtains (denial) r where "evaluateToolCallGovernance plan node policies c = hard_denial r"
  | (lanes) "evaluateToolCallGovernance plan node policies c =
        outward_lanes plan node policies c (the_call c) (call_attached plan node c) (call_owner c) (the_violation plan node c)"
      "\<And>v. the_violation plan node c = Some v \<Longrightarrow> viol_kind v \<noteq> ViolationDenied"
      "call_owner c \<noteq> None \<Longrightarrow> truthy (mcpGoverned plan) \<Longrightarrow> call_attached plan node c"
proof -
  have E: "evaluateToolCallGovernance plan node policies c =
    (if call_owner c \<noteq> None \<and> truthy (mcpGoverned plan) \<and> \<not> call_attached plan node c
     then hard_denial (''MCP server '' @ quoted (own_name (the (call_owner c))) @
             '' is not attached to workflow step '' @ quoted (nodeId node) @
             ''; the step must name it in ontology.mcpServers'')
     else case the_violation plan node c of
         Some v \<Rightarrow> if viol_kind v = ViolationDenied
           then hard_denial (''tool '' @ quoted (tc_toolName c) @ '' is denied at workflow step '' @
                      quoted (nodeId (viol_node v)) @ '' by ontology.deniedTools'')
           else outward_lanes plan node policies c (the_call c) (call_attached plan node c) (call_owner c) (Some v)
       | None \<Rightarrow> outward_lanes plan node policies c (the_call c) (call_attached plan node c) (call_owner c) None)"
    using assms unfolding evaluateToolCallGovernance_def Let_def gate_defs by (simp only: if_False)
  show thesis
  proof (cases "call_owner c \<noteq> None \<and> truthy (mcpGoverned plan) \<and> \<not> call_attached plan node c")
    case True
    show thesis by (rule denial, rule trans [OF E], rule if_P [OF True])
  next
    case False
    note E' = E [unfolded if_not_P [OF False]]
    show thesis
    proof (cases "the_violation plan node c")
      case None
      with E' False show thesis by (intro lanes) auto
    next
      case (Some v)
      show thesis
      proof (cases "viol_kind v = ViolationDenied")
        case True
        show thesis
          by (rule denial, rule trans [OF E'], unfold Some option.case, rule if_P [OF True])
      next
        case nd: False
        with Some E' False show thesis by (intro lanes) auto
      qed
    qed
  qed
qed

definition the_omission :: "EnterpriseRunPlan \<Rightarrow> EnterprisePlanNode \<Rightarrow> ToolCall \<Rightarrow> OntologyAction option \<Rightarrow> GovernanceDecision option" where
  "the_omission plan node c satisfied = (case the_violation plan node c of
     Some v \<Rightarrow> if satisfied = None then Some (omission_decision (tc_toolName c) v) else None | None \<Rightarrow> None)"

definition the_outward :: "EnterpriseRunPlan \<Rightarrow> EnterprisePlanNode \<Rightarrow> ToolCall \<Rightarrow> OutwardOutcome" where
  "the_outward plan node c = outwardActionDecision [node] (the_call c) (tc_toolName c) (callArguments (tc_toolParams c))
     (call_attached plan node c) (case call_owner c of Some own \<Rightarrow> own_namespaces own | None \<Rightarrow> [])"

lemma outward_decision_denies: "the_outward plan node c = OutwardDecision d \<Longrightarrow> \<exists>r. d = hard_denial r"
  by (auto simp: the_outward_def outwardActionDecision_def Let_def split: if_splits option.splits)

lemma lanes_cases:
  obtains (denial) r where "outward_lanes plan node policies c (the_call c) (call_attached plan node c) (call_owner c)
      (the_violation plan node c) = hard_denial r"
  | (combine) s subject where "outward_lanes plan node policies c (the_call c) (call_attached plan node c) (call_owner c)
      (the_violation plan node c) = withOutwardAction s (combine_decision (the_omission plan node c s)
        (resolvePolicyDecision (matching_policies plan node (the_call c) c policies) subject))"
      "the_outward plan node c = (case s of None \<Rightarrow> OutwardNone | Some a \<Rightarrow> OutwardAction a)"
proof (cases "the_outward plan node c")
  case (OutwardDecision d)
  then obtain r where "d = hard_denial r" using outward_decision_denies by blast
  with OutwardDecision show thesis
    by (intro denial [of r]) (simp add: outward_lanes_def the_outward_def Let_def)
next
  case (OutwardAction a)
  show thesis
    by (rule combine [of "Some a"])
      (use OutwardAction in \<open>auto simp: outward_lanes_def the_outward_def the_omission_def Let_def split: option.splits\<close>)
next
  case OutwardNone
  show thesis
    by (rule combine [of None])
      (use OutwardNone in \<open>auto simp: outward_lanes_def the_outward_def the_omission_def Let_def split: option.splits\<close>)
qed

section \<open>What an outward action must satisfy\<close>

text \<open>
  The contract, declaratively: distinct parameters, no argument beyond them, every required one
  passed, and every value passed of its declared type.
\<close>

definition arg_absent :: "CallArg \<Rightarrow> bool" where
  "arg_absent v = (v = ArgUndefined \<or> v = ArgValue VNull)"

definition contract_met :: "OntologyAction \<Rightarrow> (string \<times> CallArg) list \<Rightarrow> bool" where
  "contract_met action args = (let ps = opt_list (act_parameters action) in
     distinct (map par_id ps) \<and> set (map fst args) \<subseteq> set (map par_id ps)
     \<and> list_all (\<lambda>p. (truthy (par_required p) \<longrightarrow> \<not> arg_absent (read_arg args (par_id p)))
          \<and> (arg_absent (read_arg args (par_id p)) \<or> arg_matches_type (read_arg args (par_id p)) (par_type p))) ps)"

lemma first_some_None: "first_some f xs = None \<longleftrightarrow> (\<forall>x \<in> set xs. f x = None)"
  by (induction xs) (auto split: option.splits)

lemma length_dedup: "length (dedup xs) = length xs \<longleftrightarrow> distinct xs"
proof -
  have "length (dedup xs) = card (set xs)" by (simp add: dedup_def length_remdups_card_conv)
  then show ?thesis by (metis card_distinct distinct_card)
qed

lemma contract_iff: "actionContractViolation action args = None \<longleftrightarrow> contract_met action args"
proof -
  let ?ps = "opt_list (act_parameters action)"
  have "parameter_violation i args p = None \<longleftrightarrow> (truthy (par_required p) \<longrightarrow> \<not> arg_absent (read_arg args (par_id p)))
      \<and> (arg_absent (read_arg args (par_id p)) \<or> arg_matches_type (read_arg args (par_id p)) (par_type p))" for i p
    by (auto simp: parameter_violation_def arg_absent_def Let_def split: if_splits)
  moreover have "List.find (\<lambda>name. name \<notin> set (dedup (map par_id ?ps))) (map fst args) = None
      \<longleftrightarrow> set (map fst args) \<subseteq> set (map par_id ?ps)"
    by (auto simp: find_None_iff)
  moreover have "length (dedup (map par_id ?ps)) = length ?ps \<longleftrightarrow> distinct (map par_id ?ps)"
    using length_dedup [of "map par_id ?ps"] by simp
  ultimately show ?thesis
    unfolding actionContractViolation_def contract_met_def Let_def
    by (auto simp: first_some_None list_all_iff split: option.splits)
qed

lemma outward_action_met:
  assumes "the_outward plan node c = OutwardAction a"
  shows "a \<in> set (effectiveActionsOnPath [node]) \<and> contract_met a (callArguments (tc_toolParams c))
    \<and> (\<exists>e. CallEffect e \<in> set (opt_list (act_effects a)))"
proof -
  from assms have f: "List.find (\<lambda>action. actionContractViolation action (callArguments (tc_toolParams c)) = None)
      (map fst (filter (\<lambda>(action, tools). selectorsCoverCall tools (the_call c)
         \<or> list_ex (\<lambda>selector. outwardSelectorMatchesName selector (tc_toolName c)) tools)
        (outwardActionsOnPath [node]))) = Some a"
    by (auto simp: the_outward_def outwardActionDecision_def Let_def split: if_splits option.splits)
  from find_Some_mem [OF f] obtain tools where t: "(a, tools) \<in> set (outwardActionsOnPath [node])"
    and ok: "actionContractViolation a (callArguments (tc_toolParams c)) = None" by auto
  from t have "a \<in> set (effectiveActionsOnPath [node])"
    "List.map_filter call_effect_tool (opt_list (act_effects a)) \<noteq> []"
    by (auto simp: outwardActionsOnPath_def)
  moreover have "\<exists>e. CallEffect e \<in> set es" if "List.map_filter call_effect_tool es \<noteq> []" for es
    using that
  proof (induction es)
    case (Cons x xs)
    then show ?case by (cases x) (auto simp: List.map_filter_simps)
  qed (simp add: List.map_filter_simps)
  ultimately show ?thesis using ok by (auto simp: contract_iff)
qed

end
