(* ===== verification/Sample_Data.thy ===== *)
theory Sample_Data
  imports Enterprise_Types
begin

text \<open>Concrete nodes, plans and policies that the witnesses of the properties evaluate on.\<close>

definition sample_action :: OntologyAction where
  "sample_action = \<lparr> act_id = ''refund'', act_title = None, act_description = None, act_tools = Some [''pay__*''],
     act_parameters = Some [\<lparr> par_id = ''case'', par_type = TyId, par_required = Some True, par_description = None \<rparr>],
     act_preconditions = None, act_effects = Some [CallEffect \<lparr> ce_tool = ''pay__refund'', ce_description = None \<rparr>] \<rparr>"

definition sample_binding :: OntologyBinding where
  "sample_binding = empty_binding \<lparr> actions := Some [sample_action], allowedTools := Some [''read''],
     deniedTools := Some [''exec''] \<rparr>"

definition sample_node :: EnterprisePlanNode where
  "sample_node = \<lparr> nodeId = ''intake'', parentId = None, seq = 0, node_title = ''Intake'',
     node_description = None, ontology = sample_binding \<rparr>"

definition sample_plan :: EnterpriseRunPlan where
  "sample_plan = \<lparr> executionModel = Some ''steps'', runId = ''r1'', treeId = ''claims'', treeVersion = ''1'',
     treeName = ''Claims'', matchedBy = SourcePlanner, treeRationale = None, treeHash = None,
     requestSummary = ''x'', nodes = [sample_node], plan_route = None, activeNodeId = ''intake'',
     mcpGoverned = Some True, mcpAttachments = None, mcpDeniedTools = None, capabilityGrants = None,
     grantedSkills = None, plan_mode = ModeEnforce, createdAt = 0 \<rparr>"

definition sample_policy :: "string \<Rightarrow> GovernanceEffect \<Rightarrow> GovernancePolicy" where
  "sample_policy i e = \<lparr> pol_id = i, pol_description = None, pol_effect = e, pol_trees = None, pol_nodes = None,
     pol_tools = Some [''web_*''], pol_actions = None, pol_knowledge = None, pol_approval = None \<rparr>"

end
