(* ===== verification/Governance_Properties.thy ===== *)
theory Governance_Properties
  imports Governance_Laws Sample_Data
begin

text \<open>The properties of the governance gate.\<close>

abbreviation applies :: "EnterpriseRunPlan \<Rightarrow> EnterprisePlanNode \<Rightarrow> ToolCall \<Rightarrow> GovernancePolicy \<Rightarrow> bool" where
  "applies plan node c p \<equiv> policyAppliesToToolCall p (treeId plan) [node] (the_call c)
     (actionsCoveringTool [node] (the_call c)) (tc_actionId c) (tc_carriesAction c)
     (map act_id (effectiveActionsOnPath [node]))"

definition sample_call :: "string \<Rightarrow> ToolCall" where
  "sample_call tool = \<lparr> tc_toolName = tool, tc_actionId = None, tc_carriesAction = False, tc_mcpTool = None,
     tc_mcpServers = [''pay''], tc_tracksSteps = True, tc_toolParams = NotAnObject \<rparr>"

definition sample_mcp_call :: "CallParams \<Rightarrow> ToolCall" where
  "sample_mcp_call args = \<lparr> tc_toolName = ''pay__refund'', tc_actionId = None, tc_carriesAction = False,
     tc_mcpTool = Some \<lparr> serverName = ''pay'', safeServerName = ''pay'', registeredToolName = ''refund'' \<rparr>,
     tc_mcpServers = [''pay''], tc_tracksSteps = True, tc_toolParams = args \<rparr>"

text \<open>A step that attaches the server and denies its tool under a name with a collision hash.\<close>

definition deny_sample_node :: EnterprisePlanNode where
  "deny_sample_node = sample_node \<lparr> ontology := (ontology sample_node)
     \<lparr> deniedTools := Some [''mcp__pay_0123456789ab__refund''], mcpServers := Some [''pay''] \<rparr> \<rparr>"

definition deny_sample_plan :: EnterpriseRunPlan where
  "deny_sample_plan = sample_plan \<lparr> mcpGoverned := Some True \<rparr>"

lemma set_matching_policies:
  "set (matching_policies plan node (the_call c) c policies) = {p \<in> set policies. applies plan node c p}"
  by (auto simp: matching_policies_def Let_def)

lemma combine_deny: "dec_effect d = EffDeny \<Longrightarrow> dec_effect (combine_decision om (Some d)) = EffDeny"
  by (simp add: combine_decision_def split: option.splits)

lemma deny_policy_denies:
  assumes "p \<in> set policies" "pol_effect p = EffDeny" "applies plan node c p" "\<not> control_call c"
  shows "dec_effect (evaluateToolCallGovernance plan node policies c) = EffDeny"
  using assms(4)
proof (cases rule: gate_cases [of c plan node policies])
  case lanes
  show ?thesis
  proof (cases rule: lanes_cases [of plan node policies c])
    case (combine s subject)
    obtain d where "resolvePolicyDecision (matching_policies plan node (the_call c) c policies) subject = Some d"
      "dec_effect d = EffDeny"
      using resolve_deny [of p "matching_policies plan node (the_call c) c policies"] assms
      by (auto simp: set_matching_policies)
    with combine(1) lanes(1) show ?thesis by (simp add: combine_deny)
  qed (simp add: lanes(1))
qed simp

text \<open>
  C4. A deny policy that applies to the call denies it: no allow policy, no position in the list, no
  approval, no scope omission and no outward action changes that. Only the run's own step-advance
  tool is exempt.
\<close>

theorem deny_policy_wins:
  assumes "p \<in> set policies" "pol_effect p = EffDeny" "applies plan node c p"
    "\<not> (tc_tracksSteps c \<and> isWorkflowControlTool (tc_toolName c) (tc_mcpTool c))"
  shows "dec_effect (evaluateToolCallGovernance plan node policies c) = EffDeny"
  using deny_policy_denies assms unfolding control_call_def by blast

theorem deny_policy_wins_witness:
  "dec_effect (evaluateToolCallGovernance sample_plan sample_node
     [sample_policy ''a'' EffAllow, sample_policy ''b'' EffDeny] (sample_call ''web_fetch'')) = EffDeny"
  by (rule deny_policy_wins [of "sample_policy ''b'' EffDeny"]) code_simp+

lemma find_path1: "List.find P [x] = (if P x then Some x else None)"
  by simp

lemma violation_denied:
  "node_denies (tc_toolName c) (call_attached plan node c) (call_owner c) (the_call c) node \<Longrightarrow>
   the_violation plan node c = Some \<lparr> viol_node = node, viol_kind = ViolationDenied \<rparr>"
  by (simp add: the_violation_def ontologyScopeViolation_def)

text \<open>
  An entry of \<open>deniedTools\<close> names a call by its reported name. The call of an attached MCP server it also names by an
  alias of the registration, the bare server included; by such an alias after the characters the Responses API
  refuses are replaced, in the entry as well; and by a name Codex rewrites the call to.
\<close>

definition entry_names_call :: "EnterpriseRunPlan \<Rightarrow> EnterprisePlanNode \<Rightarrow> ToolCall \<Rightarrow> string \<Rightarrow> bool" where
  "entry_names_call plan node c entry =
     (if call_attached plan node c
      then list_ex (\<lambda>identity. \<not> isToolAllowedByPolicyName identity (deny_only [entry])
             \<or> \<not> isToolAllowedByPolicyName (foldNative identity) (deny_only [foldNative entry]))
             (mcpToolAliases (tc_toolName c) (call_owner c) True)
           \<or> rewrittenNameReachesCall entry (namespaces (the_call c)) (toolParts (the_call c))
      else \<not> isToolAllowedByPolicyName (tc_toolName c) (deny_only [entry]))"

lemma denied_by_entry:
  "isToolAllowedByPolicyName n (deny_only (map f deny)) \<longleftrightarrow> (\<forall>entry \<in> set deny. isToolAllowedByPolicyName n (deny_only [f entry]))"
  unfolding deny_only_iff by (subst selector_matches_any) auto

lemma node_denies_iff:
  "node_denies (tc_toolName c) (call_attached plan node c) (call_owner c) (the_call c) node
   \<longleftrightarrow> (\<exists>entry \<in> set (opt_list (deniedTools (ontology node))). entry_names_call plan node c entry)"
proof -
  define deny where "deny = opt_list (deniedTools (ontology node))"
  have plain: "isToolAllowedByPolicyName n (deny_only deny) \<longleftrightarrow> (\<forall>entry \<in> set deny. isToolAllowedByPolicyName n (deny_only [entry]))" for n
    using denied_by_entry [of n "\<lambda>entry. entry" deny] by simp
  note folded = denied_by_entry [of _ foldNative deny]
  show ?thesis
  proof (cases "call_attached plan node c")
    case True
    then show ?thesis unfolding node_denies_def entry_names_call_def Let_def list_ex_iff deny_def [symmetric] plain folded
      by (cases "deny = []") (simp_all, blast)
  next
    case False
    then show ?thesis unfolding node_denies_def entry_names_call_def Let_def list_ex_iff deny_def [symmetric] plain folded
      by auto
  qed
qed

lemma node_denial:
  assumes "node_denies (tc_toolName c) (call_attached plan node c) (call_owner c) (the_call c) node" "\<not> control_call c"
  shows "\<exists>reason. evaluateToolCallGovernance plan node policies c = hard_denial reason"
proof -
  from assms(1) have v: "the_violation plan node c = Some \<lparr> viol_node = node, viol_kind = ViolationDenied \<rparr>"
    by (rule violation_denied)
  show ?thesis using assms(2)
    by (cases rule: gate_cases [of c plan node policies]) (use v in auto)
qed

text \<open>
  C5. A call that an entry of the active step's \<open>deniedTools\<close> names is denied outright, whatever the policies, the
  attachment, the outward actions or an approval say: by the reported name, or, for the call of an attached MCP
  server, also by any alias of its registration, the bare server included, by such an alias as the Responses API
  rewrites it, or by a name Codex rewrites the call to. The denial comes from the work-map and leaves nothing to
  approve. The run's own step-advance tool is exempt.
\<close>

theorem denied_tools_are_denied:
  assumes "entry \<in> set (opt_list (deniedTools (ontology node)))" "entry_names_call plan node c entry"
    "\<not> (tc_tracksSteps c \<and> isWorkflowControlTool (tc_toolName c) (tc_mcpTool c))"
  shows "\<exists>reason. evaluateToolCallGovernance plan node policies c =
    \<lparr> dec_effect = EffDeny, dec_policyId = None, dec_source = SrcOntology, dec_reason = reason, dec_approval = None,
      dec_ontologyOmission = False, dec_outwardActionId = None \<rparr>"
proof -
  have "node_denies (tc_toolName c) (call_attached plan node c) (call_owner c) (the_call c) node"
    unfolding node_denies_iff using assms(1,2) by blast
  moreover from assms(3) have "\<not> control_call c" unfolding control_call_def .
  ultimately show ?thesis using node_denial [of c plan node policies] by (simp add: hard_denial_def)
qed

theorem denied_tools_are_denied_witness:
  "dec_effect (evaluateToolCallGovernance sample_plan sample_node [sample_policy ''a'' EffAllow] (sample_call ''Bash'')) = EffDeny
   \<and> dec_effect (evaluateToolCallGovernance deny_sample_plan deny_sample_node [sample_policy ''a'' EffAllow] (sample_mcp_call NotAnObject)) = EffDeny"
proof -
  have "\<exists>reason. evaluateToolCallGovernance sample_plan sample_node [sample_policy ''a'' EffAllow] (sample_call ''Bash'') =
    \<lparr> dec_effect = EffDeny, dec_policyId = None, dec_source = SrcOntology, dec_reason = reason, dec_approval = None,
      dec_ontologyOmission = False, dec_outwardActionId = None \<rparr>"
    by (rule denied_tools_are_denied [of "''exec''"]) code_simp+
  moreover have "\<exists>reason. evaluateToolCallGovernance deny_sample_plan deny_sample_node [sample_policy ''a'' EffAllow] (sample_mcp_call NotAnObject) =
    \<lparr> dec_effect = EffDeny, dec_policyId = None, dec_source = SrcOntology, dec_reason = reason, dec_approval = None,
      dec_ontologyOmission = False, dec_outwardActionId = None \<rparr>"
    by (rule denied_tools_are_denied [of "''mcp__pay_0123456789ab__refund''"]) code_simp+
  ultimately show ?thesis by auto
qed

text \<open>
  C6. A call the step's scope does not cover is never let through in silence. It is denied, or a
  human is asked and no answer means no, or an outward action the step declares authorises exactly
  this call: one whose effects include a call and whose parameter contract the arguments meet. Allow
  and audit policies do not widen a scope, and an approval policy loses its allow-on-timeout.
\<close>

theorem omissions_fail_closed:
  assumes "the_violation plan node c = Some v"
    "\<not> (tc_tracksSteps c \<and> isWorkflowControlTool (tc_toolName c) (tc_mcpTool c))"
  shows "let d = evaluateToolCallGovernance plan node policies c in
      dec_effect d = EffDeny
    \<or> (dec_effect d = EffRequireApproval \<and> dec_ontologyOmission d
       \<and> map_option ap_timeoutBehavior (dec_approval d) = Some (Some TimeoutDeny))
    \<or> (\<exists>a \<in> set (effectiveActionsOnPath [node]). dec_outwardActionId d = Some (act_id a)
       \<and> contract_met a (callArguments (tc_toolParams c)) \<and> (\<exists>e. CallEffect e \<in> set (opt_list (act_effects a))))"
proof -
  from assms(2) have "\<not> control_call c" unfolding control_call_def .
  then show ?thesis
  proof (cases rule: gate_cases [of c plan node policies])
    case lanes
    show ?thesis
    proof (cases rule: lanes_cases [of plan node policies c])
      case (combine s subject)
      show ?thesis
      proof (cases s)
        case None
        with combine(1) lanes(1) assms(1) show ?thesis
          by (auto simp: the_omission_def combine_decision_def omission_decision_def deny_on_timeout_def
              split: option.splits)
      next
        case (Some a)
        with combine have "the_outward plan node c = OutwardAction a" by simp
        from outward_action_met [OF this] show ?thesis
          using Some combine(1) lanes(1) by (auto simp: withOutwardAction_def)
      qed
    qed (simp add: lanes(1))
  qed simp
qed

theorem omissions_fail_closed_witness:
  "let d = evaluateToolCallGovernance sample_plan sample_node [sample_policy ''a'' EffAllow] (sample_call ''web_fetch'') in
      dec_effect d = EffDeny
    \<or> (dec_effect d = EffRequireApproval \<and> dec_ontologyOmission d
       \<and> map_option ap_timeoutBehavior (dec_approval d) = Some (Some TimeoutDeny))
    \<or> (\<exists>a \<in> set (effectiveActionsOnPath [sample_node]). dec_outwardActionId d = Some (act_id a)
       \<and> contract_met a (callArguments (tc_toolParams (sample_call ''web_fetch'')))
       \<and> (\<exists>e. CallEffect e \<in> set (opt_list (act_effects a))))"
  by (rule omissions_fail_closed [where v = "\<lparr> viol_node = sample_node, viol_kind = ViolationScope \<rparr>"]) code_simp+

lemma outward_stamp_met:
  assumes "dec_outwardActionId (evaluateToolCallGovernance plan node policies c) = Some i"
  shows "\<exists>a \<in> set (effectiveActionsOnPath [node]). act_id a = i
    \<and> contract_met a (callArguments (tc_toolParams c)) \<and> (\<exists>e. CallEffect e \<in> set (opt_list (act_effects a)))"
proof (cases "control_call c")
  case True
  with assms show ?thesis by (simp add: evaluateToolCallGovernance_def control_call_def default_allow_def)
next
  case False
  then show ?thesis
  proof (cases rule: gate_cases [of c plan node policies])
    case lanes
    show ?thesis
    proof (cases rule: lanes_cases [of plan node policies c])
      case (combine s subject)
      have none: "dec_outwardActionId d = None"
        if "d = combine_decision (the_omission plan node c s)
          (resolvePolicyDecision (matching_policies plan node (the_call c) c policies) subject)" for d
        using that resolve_Some [of _ subject]
        by (auto simp: combine_decision_def the_omission_def omission_decision_def default_allow_def split: option.splits if_splits)
      show ?thesis
      proof (cases s)
        case None
        with combine(1) lanes(1) assms none show ?thesis by simp
      next
        case (Some a)
        with combine have "the_outward plan node c = OutwardAction a" by simp
        from outward_action_met [OF this] show ?thesis
          using Some combine(1) lanes(1) assms by (auto simp: withOutwardAction_def)
      qed
    qed (use assms in \<open>simp add: lanes(1)\<close>)
  qed (use assms in simp)
qed

text \<open>
  A decision is stamped with an outward action only when the active step declares that action
  with a call effect and the arguments meet its contract: distinct parameters, none passed beyond
  them, every required one present, every value of its declared type.
\<close>

theorem stamped_calls_meet_their_contract:
  assumes "dec_outwardActionId (evaluateToolCallGovernance plan node policies c) = Some i"
  shows "\<exists>a \<in> set (effectiveActionsOnPath [node]). act_id a = i
    \<and> contract_met a (callArguments (tc_toolParams c)) \<and> (\<exists>e. CallEffect e \<in> set (opt_list (act_effects a)))"
  using assms by (rule outward_stamp_met)

theorem stamped_calls_witness:
  "\<exists>a \<in> set (effectiveActionsOnPath [sample_node]). act_id a = ''refund''
    \<and> contract_met a (callArguments (tc_toolParams (sample_mcp_call (ParamObject [(''case'', ArgValue (VStr ''c-7''))]))))
    \<and> (\<exists>e. CallEffect e \<in> set (opt_list (act_effects a)))"
  by (rule stamped_calls_meet_their_contract
    [where policies = "[]" and plan = "sample_plan \<lparr> mcpGoverned := Some False \<rparr>"]) code_simp

text \<open>
  The order of the configured policies, and repeating one, never changes the effect of a decision:
  of a tool call, of a retrieval, or of a run start.
\<close>

theorem policy_order_is_irrelevant:
  assumes "set policies = set policies'"
  shows "dec_effect (evaluateToolCallGovernance plan node policies c)
      = dec_effect (evaluateToolCallGovernance plan node policies' c)
    \<and> dec_effect (evaluateKnowledgeRetrievalGovernance plan node f policies)
      = dec_effect (evaluateKnowledgeRetrievalGovernance plan node f policies')
    \<and> dec_effect (evaluateRunStartGovernance plan policies) = dec_effect (evaluateRunStartGovernance plan policies')"
proof -
  have eff: "map_option dec_effect (resolvePolicyDecision (filter P policies) s)
      = map_option dec_effect (resolvePolicyDecision (filter P policies') s)" for P s
    by (rule resolve_effect_set) (use assms in auto)
  have combine: "map_option dec_effect d = map_option dec_effect d' \<Longrightarrow>
      dec_effect (combine_decision om d) = dec_effect (combine_decision om d')" for om d d'
    by (cases d; cases d'; cases om) (auto simp: combine_decision_def)
  have default: "map_option dec_effect d = map_option dec_effect d' \<Longrightarrow>
      dec_effect (case d of Some x \<Rightarrow> x | None \<Rightarrow> y) = dec_effect (case d' of Some x \<Rightarrow> x | None \<Rightarrow> y)" for d d' y
    by (cases d; cases d') auto
  have "dec_effect (outward_lanes plan node policies c call att own v)
      = dec_effect (outward_lanes plan node policies' c call att own v)" for call att own v
    unfolding outward_lanes_def Let_def matching_policies_def
    by (cases "outwardActionDecision [node] call (tc_toolName c) (callArguments (tc_toolParams c)) att
        (case own of Some own \<Rightarrow> own_namespaces own | None \<Rightarrow> [])")
      (simp_all add: combine [OF eff])
  then have "dec_effect (evaluateToolCallGovernance plan node policies c)
      = dec_effect (evaluateToolCallGovernance plan node policies' c)"
    unfolding evaluateToolCallGovernance_def Let_def by (auto split: option.splits)
  moreover have "dec_effect (evaluateKnowledgeRetrievalGovernance plan node f policies)
      = dec_effect (evaluateKnowledgeRetrievalGovernance plan node f policies')"
    unfolding evaluateKnowledgeRetrievalGovernance_def by (rule default [OF eff])
  moreover have "dec_effect (evaluateRunStartGovernance plan policies) = dec_effect (evaluateRunStartGovernance plan policies')"
    unfolding evaluateRunStartGovernance_def Let_def by (rule default [OF eff])
  ultimately show ?thesis by blast
qed

theorem policy_order_witness:
  "dec_effect (evaluateToolCallGovernance sample_plan sample_node [sample_policy ''a'' EffAllow, sample_policy ''b'' EffDeny]
      (sample_call ''read''))
      = dec_effect (evaluateToolCallGovernance sample_plan sample_node [sample_policy ''b'' EffDeny, sample_policy ''a'' EffAllow]
      (sample_call ''read''))"
  using policy_order_is_irrelevant [of "[sample_policy ''a'' EffAllow, sample_policy ''b'' EffDeny]"
    "[sample_policy ''b'' EffDeny, sample_policy ''a'' EffAllow]" sample_plan sample_node "sample_call ''read''" "''kb''"]
  by auto

text \<open>
  The scope test that export uses is a superset of the gate: a policy that applies to some call at
  some step of the tree can fire in the scope that lists the tree's steps and declared actions.
\<close>

theorem applying_policies_can_fire:
  assumes "applies plan node c p" "gs_treeId scope = treeId plan" "nodeId node \<in> set (gs_nodeIds scope)"
    "set (map act_id (opt_list (actions (ontology node)))) \<subseteq> set (gs_actionIds scope)"
  shows "policyCanFireInScope p scope"
proof -
  have keys: "fst ` set (fold (\<lambda>action m. AList.update (act_id action) action m) as m)
      \<subseteq> fst ` set m \<union> act_id ` set as
    \<and> (list_all (\<lambda>(k, a). act_id a = k) m \<longrightarrow>
        list_all (\<lambda>(k, a). act_id a = k) (fold (\<lambda>action m. AList.update (act_id action) action m) as m))"
    for as :: "OntologyAction list" and m
  proof (induction as arbitrary: m)
    case (Cons a as)
    have "list_all (\<lambda>(k, a). act_id a = k) m \<Longrightarrow> list_all (\<lambda>(k, a). act_id a = k) (AList.update (act_id a) a m)"
      by (induction m) auto
    with Cons [of "AList.update (act_id a) a m"] show ?case by (auto simp: dom_update)
  qed simp
  have declared: "act_id a \<in> set (gs_actionIds scope)" if "a \<in> set (effectiveActionsOnPath [node])" for a
  proof -
    let ?m = "fold (\<lambda>action m. AList.update (act_id action) action m) (opt_list (actions (ontology node))) []"
    from that obtain k where k: "(k, a) \<in> set ?m" by (auto simp: effectiveActionsOnPath_def)
    with keys [of "opt_list (actions (ontology node))" "[]"] have "act_id a = k" "k \<in> act_id ` set (opt_list (actions (ontology node)))"
      by (force simp: list_all_iff)+
    with assms(4) show ?thesis by auto
  qed
  have "list_ex (policyTargetsNode p) (gs_nodeIds scope)" if "has_entries (pol_nodes p)"
    using assms(1,3) that
    by (auto simp: policyAppliesToToolCall_def Let_def policyTargetsNode_def list_ex_iff split: if_splits)
  moreover have "list_ex (policyTargetsAction p) (gs_actionIds scope)" if h: "has_entries (pol_actions p)"
  proof -
    have "actionSelectorMatches p (actionsCoveringTool [node] (the_call c)) (tc_actionId c) (tc_carriesAction c)
        (map act_id (effectiveActionsOnPath [node]))"
      using assms(1) h by (auto simp: policyAppliesToToolCall_def Let_def split: if_splits)
    then obtain a where "a \<in> set (effectiveActionsOnPath [node])" "matchesSelector (act_id a) (pol_actions p)"
      by (auto simp: actionSelectorMatches_def actionsCoveringTool_def list_ex_iff split: if_splits option.splits)
    with declared show ?thesis by (auto simp: policyTargetsAction_def list_ex_iff)
  qed
  moreover have "policyTargetsTree p (gs_treeId scope)"
    using assms(1,2) by (auto simp: policyAppliesToToolCall_def Let_def policyTargetsTree_def split: if_splits)
  ultimately show ?thesis by (auto simp: policyCanFireInScope_def)
qed

theorem applying_policies_witness:
  "policyCanFireInScope (sample_policy ''b'' EffDeny)
     \<lparr> gs_treeId = ''claims'', gs_nodeIds = [''review'', ''intake''], gs_actionIds = [''refund''] \<rparr>"
  by (rule applying_policies_can_fire [where plan = sample_plan and node = sample_node and c = "sample_call ''web_fetch''"])
    code_simp+

text \<open>
  On a work-map that governs MCP servers, a call of an operator-registered server the active step
  does not attach is denied, whatever the policies and the step's allow-list.
\<close>

theorem unattached_servers_are_denied:
  assumes "tc_mcpTool c = Some m" "serverName m \<in> set (tc_mcpServers c)" "truthy (mcpGoverned plan)"
    "serverName m \<notin> set (opt_list (mcpServers (ontology node)))"
  shows "dec_effect (evaluateToolCallGovernance plan node policies c) = EffDeny"
  using assms
  by (simp add: evaluateToolCallGovernance_def Let_def mcpServerOwningTool_def attachesMcpServer_def
      isWorkflowControlTool_def isOurBareTool_def)

theorem unattached_servers_witness:
  "dec_effect (evaluateToolCallGovernance sample_plan sample_node [] (sample_mcp_call NotAnObject)) = EffDeny"
  by (rule unattached_servers_are_denied [where m = "\<lparr> serverName = ''pay'', safeServerName = ''pay'', registeredToolName = ''refund'' \<rparr>"])
    (simp_all add: sample_mcp_call_def sample_plan_def sample_node_def sample_binding_def empty_binding_def)

text \<open>
  Retrieval and run starts are decided by the strictest policy that applies, in the order deny,
  require approval, allow, audit, and allowed by default when none does.
\<close>

theorem strictest_policy_decides:
  "(let ps = filter (\<lambda>p. policyAppliesToKnowledge p (treeId plan) [node] f) policies;
        d = evaluateKnowledgeRetrievalGovernance plan node f policies
    in if ps = [] then dec_effect d = EffAllow \<and> dec_source d = SrcDefault
       else dec_effect d \<in> pol_effect ` set ps \<and> list_all (\<lambda>p. strictness (pol_effect p) \<le> strictness (dec_effect d)) ps)
   \<and> (let ps = filter (\<lambda>p. policyAppliesToRun p (treeId plan)
            (case nodes plan of [] \<Rightarrow> activeNodeId plan | n # _ \<Rightarrow> nodeId n)) policies;
        d = evaluateRunStartGovernance plan policies
    in if ps = [] then dec_effect d = EffAllow \<and> dec_source d = SrcDefault
       else dec_effect d \<in> pol_effect ` set ps \<and> list_all (\<lambda>p. strictness (pol_effect p) \<le> strictness (dec_effect d)) ps)"
proof -
  have main: "if ps = [] then dec_effect d = EffAllow \<and> dec_source d = SrcDefault
      else dec_effect d \<in> pol_effect ` set ps \<and> list_all (\<lambda>p. strictness (pol_effect p) \<le> strictness (dec_effect d)) ps"
    if "d = (case resolvePolicyDecision ps s of Some x \<Rightarrow> x | None \<Rightarrow> default_allow r)" for ps d s r
  proof (cases "resolvePolicyDecision ps s")
    case None
    with that show ?thesis by (simp add: resolve_None default_allow_def)
  next
    case (Some x)
    then have "ps \<noteq> []" using resolve_None by (metis option.distinct(1))
    with resolve_Some [OF Some] Some that show ?thesis by (auto simp: list_all_iff)
  qed
  show ?thesis
    unfolding Let_def
    by (intro conjI main) (simp_all only: evaluateKnowledgeRetrievalGovernance_def evaluateRunStartGovernance_def Let_def)
qed

end
