(* ===== verification/Route_Planner.thy ===== *)
theory Route_Planner
  imports Tree_References
begin

text \<open>
  Choosing a work-map and a route through it,
  \<^verbatim>\<open>packages/enterprise-planner/src/route-planner.ts\<close>. The planner package works on the shape of a
  tree; the core passes its own \<^typ>\<open>WorkflowTreeDefinition\<close>, and so does the model. The
  model call itself is a parameter: a function from what it is shown to its answer, which can be an
  exception or a value of the wrong shape.

  The climb from an endpoint to the root is a \<^verbatim>\<open>while\<close> loop over the parent map; it is given fuel,
  and running out is \<^const>\<open>None\<close>, so that a loop that does not end would show as such.
\<close>

section \<open>Rendering the candidates\<close>

definition SUMMARY_MAX_CHARS :: nat where
  "SUMMARY_MAX_CHARS = 120"

definition TREE_SUMMARY_MAX_CHARS :: nat where
  "TREE_SUMMARY_MAX_CHARS = 600"

definition MIN_NODES_TO_PLAN :: nat where
  "MIN_NODES_TO_PLAN = 2"

text \<open>\<open>s.replace(/\s+/g, ' ')\<close>.\<close>

fun collapse_spaces :: "string \<Rightarrow> string" where
  "collapse_spaces [] = []"
| "collapse_spaces [c] = (if is_space c then '' '' else [c])"
| "collapse_spaces (c # d # cs) =
     (if is_space c then (if is_space d then collapse_spaces (d # cs) else CHR '' '' # collapse_spaces (d # cs))
      else c # collapse_spaces (d # cs))"

definition ellipsis :: char where
  "ellipsis = CHR 0x85"

definition em_dash :: char where
  "em_dash = CHR 0x97"

definition shorten :: "string option \<Rightarrow> nat \<Rightarrow> string" where
  "shorten text maxChars = (case text of
     None \<Rightarrow> []
   | Some t \<Rightarrow> if t = [] then [] else
       let flat = trim (collapse_spaces t)
       in if maxChars < length flat then take (maxChars - 1) flat @ [ellipsis] else flat)"

text \<open>\<open>walk\<close>: every node with its depth, parents first.\<close>

fun walk :: "WorkflowNodeDefinition \<Rightarrow> nat \<Rightarrow> (WorkflowNodeDefinition \<times> nat) list" where
  "walk (WorkflowNode i t d ont cs) depth =
     (WorkflowNode i t d ont cs, depth) #
       (case cs of None \<Rightarrow> [] | Some ks \<Rightarrow> concat (map (\<lambda>c. walk c (depth + 1)) ks))"

definition countTreeNodes :: "WorkflowTreeDefinition \<Rightarrow> nat" where
  "countTreeNodes tree = length (walk (tree_root tree) 0)"

definition digest_line :: "WorkflowNodeDefinition \<times> nat \<Rightarrow> string" where
  "digest_line p = (case p of (node, depth) \<Rightarrow>
     let summary = shorten (wn_description node) SUMMARY_MAX_CHARS
     in concat (replicate depth ''  '') @ wn_id node @ '' '' @ [em_dash] @ '' '' @ wn_title node @
        (if summary = [] then [] else '': '' @ summary))"

definition newline :: string where
  "newline = [CHR 0x0A]"

definition buildRouteCandidateDigest :: "WorkflowTreeDefinition \<Rightarrow> string" where
  "buildRouteCandidateDigest tree = join newline (map digest_line (walk (tree_root tree) 0))"

definition buildPlanCandidateDigest :: "WorkflowTreeDefinition list \<Rightarrow> string" where
  "buildPlanCandidateDigest trees = join (newline @ newline) (map (\<lambda>tree.
     let summary = shorten (tree_description tree) TREE_SUMMARY_MAX_CHARS
     in join newline
       [''# '' @ tree_id tree @ '' '' @ [em_dash] @ '' '' @ tree_name tree @
          (if summary = [] then [] else '': '' @ summary),
        buildRouteCandidateDigest tree]) trees)"

section \<open>Routes\<close>

text \<open>The two maps \<open>collect\<close> fills, in the order of the walk; a later node of the same id wins.\<close>

fun collect_parents :: "WorkflowNodeDefinition \<Rightarrow> string option \<Rightarrow> (string \<times> string option) list" where
  "collect_parents (WorkflowNode i t d ont cs) parent =
     (i, parent) # (case cs of None \<Rightarrow> [] | Some ks \<Rightarrow> concat (map (\<lambda>c. collect_parents c (Some i)) ks))"

definition js_map_of :: "('k \<times> 'v) list \<Rightarrow> ('k \<times> 'v) list" where
  "js_map_of entries = fold (\<lambda>(k, v) m. AList.update k v m) entries []"

text \<open>\<open>while (parent) { nodeIds.add(parent); parent = parentOf.get(parent) ?? null }\<close>\<close>

fun climb :: "nat \<Rightarrow> (string \<times> string option) list \<Rightarrow> string option \<Rightarrow> string list \<Rightarrow> string list option" where
  "climb fuel parentOf None ids = Some ids"
| "climb 0 parentOf (Some p) ids = (if p = [] then Some ids else None)"
| "climb (Suc fuel) parentOf (Some p) ids =
     (if p = [] then Some ids
      else climb fuel parentOf (case map_of parentOf p of Some q \<Rightarrow> q | None \<Rightarrow> None) (set_add p ids))"

fun resolve_routes ::
  "nat \<Rightarrow> (string \<times> string option) list \<Rightarrow> string list \<Rightarrow> string list \<Rightarrow> string list \<Rightarrow>
   (string list \<times> string list) option" where
  "resolve_routes fuel parentOf [] ids invalid = Some (ids, invalid)"
| "resolve_routes fuel parentOf (raw # routes) ids invalid =
     (let route = trim raw in
      case map_of parentOf route of
        None \<Rightarrow> resolve_routes fuel parentOf routes ids (invalid @ [raw])
      | Some parent \<Rightarrow> (case climb fuel parentOf parent (set_add route ids) of
            None \<Rightarrow> None
          | Some ids' \<Rightarrow> resolve_routes fuel parentOf routes ids' invalid))"

definition resolveRouteNodeIds :: "WorkflowTreeDefinition \<Rightarrow> string list \<Rightarrow> (string list \<times> string list) option" where
  "resolveRouteNodeIds tree routes =
     (let parentOf = js_map_of (collect_parents (tree_root tree) None)
      in resolve_routes (length parentOf) parentOf routes [] [])"

record EnterpriseRouteSelection =
  rs_routes :: "string list"
  rs_nodeIds :: "string list option"
  rs_rationale :: string
  rs_source :: RouteSource
  rs_invalidRoutes :: "string list"

definition wholeTree :: "string \<Rightarrow> string list \<Rightarrow> EnterpriseRouteSelection" where
  "wholeTree rationale invalid = \<lparr> rs_routes = [], rs_nodeIds = None, rs_rationale = rationale,
     rs_source = RouteWholeTree, rs_invalidRoutes = invalid \<rparr>"

text \<open>\<open>rationale?.trim() || fallback\<close>.\<close>

definition trim_or :: "string option \<Rightarrow> string \<Rightarrow> string" where
  "trim_or text fallback = (case text of
     None \<Rightarrow> fallback | Some t \<Rightarrow> if trim t = [] then fallback else trim t)"

text \<open>Outer \<^const>\<open>None\<close>: the climb does not end; inner \<^const>\<open>None\<close>: no valid complete route.\<close>

definition resolveRoute ::
  "WorkflowTreeDefinition \<Rightarrow> string list \<Rightarrow> string option \<Rightarrow> EnterpriseRouteSelection option option" where
  "resolveRoute tree routes rationale = (case resolveRouteNodeIds tree routes of
     None \<Rightarrow> None
   | Some (ids, invalid) \<Rightarrow> Some (
       if ids = [] \<or> invalid \<noteq> [] then None
       else if length ids = countTreeNodes tree
         then Some (wholeTree (trim_or rationale ''route planner selected the whole tree'') invalid)
       else let valid = map trim (filter (\<lambda>r. r \<notin> set invalid) routes)
         in Some \<lparr> rs_routes = valid, rs_nodeIds = Some ids,
              rs_rationale = trim_or rationale (''selected '' @ join '', '' valid),
              rs_source = RoutePlanner, rs_invalidRoutes = invalid \<rparr>))"

section \<open>Selecting the work-map\<close>

datatype WorkflowPlanDecision =
    Decided "string option" "string list" "string option"
  | Clarification string string
  | PlannerUnavailable
  | PlannerFailed

datatype PlannerAnswer = Threw string | Answered WorkflowPlanDecision | IllShaped

datatype SelectionNext = NextExecute | NextClarify string | NextBlocked string

record EnterpriseWorkflowSelection =
  sel_tree :: WorkflowTreeDefinition
  sel_treeSource :: WorkflowTreeSource
  sel_treeRationale :: string
  sel_route :: EnterpriseRouteSelection
  sel_next :: SelectionNext

definition selectionWithoutModel ::
  "WorkflowTreeDefinition \<Rightarrow> WorkflowTreeSource \<Rightarrow> string \<Rightarrow> string \<Rightarrow> EnterpriseWorkflowSelection" where
  "selectionWithoutModel tree treeSource treeReason routeReason =
     \<lparr> sel_tree = tree, sel_treeSource = treeSource, sel_treeRationale = treeReason,
       sel_route = wholeTree routeReason [],
       sel_next = (if 1 < countTreeNodes tree
         then NextBlocked ''This work-map needs a route planner before its steps can execute.''
         else NextExecute) \<rparr>"

definition failClosedWorkflowSelection ::
  "WorkflowTreeDefinition list \<Rightarrow> WorkflowTreeDefinition \<Rightarrow> string \<Rightarrow> EnterpriseWorkflowSelection" where
  "failClosedWorkflowSelection trees defaultTree reason =
     (let tree = (case List.find (\<lambda>t. tree_id t \<noteq> tree_id defaultTree) trees of
         Some t \<Rightarrow> t | None \<Rightarrow> defaultTree)
      in (selectionWithoutModel tree SourceFallback reason ''no steps executed'')
         \<lparr> sel_next := NextBlocked
           ''Workflow routing failed. No workflow steps were executed. Retry or clarify the intended operation.'' \<rparr>)"

type_synonym WorkflowPlanner = "WorkflowTreeDefinition list \<Rightarrow> string \<Rightarrow> string \<Rightarrow> PlannerAnswer"

definition unplanned :: "WorkflowTreeDefinition \<Rightarrow> string \<Rightarrow> EnterpriseWorkflowSelection" where
  "unplanned defaultTree reason =
     selectionWithoutModel defaultTree SourceUnavailable reason ''the default tree has no route to plan''"

definition handle_decided ::
  "WorkflowTreeDefinition list \<Rightarrow> WorkflowTreeDefinition \<Rightarrow> string option \<Rightarrow> string list \<Rightarrow> string option \<Rightarrow>
   EnterpriseWorkflowSelection option" where
  "handle_decided trees defaultTree choice routes rationale = (case choice of
     None \<Rightarrow> Some (selectionWithoutModel defaultTree SourceNoMatch
        (trim_or rationale ''no work-map applies to this request'') ''the default tree has no route to plan'')
   | Some chosen \<Rightarrow>
       (case map_of (js_map_of (map (\<lambda>t. (tree_id t, t)) trees)) (trim chosen) of
          None \<Rightarrow> Some (failClosedWorkflowSelection trees defaultTree
            (''workflow planner named an unknown tree ('' @ chosen @ '')''))
        | Some tree \<Rightarrow> (case resolveRoute tree routes rationale of
              None \<Rightarrow> None
            | Some None \<Rightarrow> Some (failClosedWorkflowSelection trees defaultTree
                ''workflow planner selected no valid complete route'')
            | Some (Some route) \<Rightarrow> Some \<lparr> sel_tree = tree, sel_treeSource = SourcePlanner,
                sel_treeRationale = trim_or rationale (''selected '' @ tree_id tree),
                sel_route = route, sel_next = NextExecute \<rparr>)))"

definition handle_answer ::
  "WorkflowTreeDefinition list \<Rightarrow> WorkflowTreeDefinition \<Rightarrow> PlannerAnswer \<Rightarrow> EnterpriseWorkflowSelection option" where
  "handle_answer trees defaultTree answer = (case answer of
     Threw message \<Rightarrow> Some (failClosedWorkflowSelection trees defaultTree
       (''workflow planner failed ('' @ message @ '')''))
   | IllShaped \<Rightarrow> Some (failClosedWorkflowSelection trees defaultTree
       ''workflow planner returned an unsupported shape'')
   | Answered PlannerUnavailable \<Rightarrow> Some (unplanned defaultTree ''no workflow planner is configured for this run'')
   | Answered PlannerFailed \<Rightarrow> Some (failClosedWorkflowSelection trees defaultTree
       ''workflow planner returned no decision'')
   | Answered (Clarification chosen question) \<Rightarrow>
       (case map_of (js_map_of (map (\<lambda>t. (tree_id t, t)) trees)) (trim chosen) of
          None \<Rightarrow> Some (failClosedWorkflowSelection trees defaultTree
            ''workflow planner returned an invalid clarification'')
        | Some tree \<Rightarrow>
            if trim question = [] \<or> 1000 < length (trim question)
            then Some (failClosedWorkflowSelection trees defaultTree
              ''workflow planner returned an invalid clarification'')
            else Some ((selectionWithoutModel tree SourcePlanner ''request needs clarification'' ''no steps executed'')
              \<lparr> sel_next := NextClarify (trim question) \<rparr>))
   | Answered (Decided choice routes rationale) \<Rightarrow> handle_decided trees defaultTree choice routes rationale)"

definition nothing_to_decide ::
  "WorkflowTreeDefinition list \<Rightarrow> WorkflowTreeDefinition \<Rightarrow> bool \<Rightarrow> EnterpriseWorkflowSelection option" where
  "nothing_to_decide trees defaultTree planned =
     (let only = (case trees of [] \<Rightarrow> defaultTree | t # _ \<Rightarrow> t) in
      if filter (\<lambda>t. tree_id t \<noteq> tree_id defaultTree) trees = []
         \<and> (\<not> planned \<or> countTreeNodes only < MIN_NODES_TO_PLAN)
      then Some (selectionWithoutModel only SourceOnlyCandidate ''no work-map is installed for this trigger''
        (if \<not> planned then ''no route planner configured''
         else ''tree has '' @ show_nat (countTreeNodes only) @ '' nodes; planning it is not worth a model call''))
      else None)"

definition selectWorkflowPlan ::
  "WorkflowTreeDefinition list \<Rightarrow> WorkflowTreeDefinition \<Rightarrow> string \<Rightarrow> WorkflowPlanner option \<Rightarrow>
   EnterpriseWorkflowSelection option" where
  "selectWorkflowPlan trees defaultTree requestText planner =
     (case nothing_to_decide trees defaultTree (planner \<noteq> None) of
        Some selection \<Rightarrow> Some selection
      | None \<Rightarrow> (case planner of
          None \<Rightarrow> Some (unplanned defaultTree ''no workflow planner is wired for this runtime'')
        | Some ask \<Rightarrow> handle_answer trees defaultTree
            (ask trees requestText (buildPlanCandidateDigest trees))))"

section \<open>Facts about routes\<close>

definition tree_ids :: "WorkflowNodeDefinition \<Rightarrow> string list" where
  "tree_ids n = map wn_id (walkWorkflowNodes n)"

text \<open>What the schema guarantees of a tree: every node has an id of its own, and none is blank.\<close>

definition unique_ids :: "WorkflowTreeDefinition \<Rightarrow> bool" where
  "unique_ids tree = (distinct (tree_ids (tree_root tree)) \<and> [] \<notin> set (tree_ids (tree_root tree)))"

lemma tree_ids_eq: "tree_ids n = wn_id n # concat (map tree_ids (node_children n))"
  unfolding tree_ids_def [abs_def] by (subst walkWorkflowNodes_eq) (simp add: map_concat comp_def)

lemma collect_parents_eq:
  "collect_parents n parent = (wn_id n, parent) # concat (map (\<lambda>c. collect_parents c (Some (wn_id n))) (node_children n))"
  by (cases n) (simp add: node_children_def opt_list_def split: option.split)

lemma collect_parents_keys: "map fst (collect_parents n parent) = tree_ids n"
proof (induction n arbitrary: parent rule: node_induct)
  case (node n)
  then show ?case
    by (simp add: collect_parents_eq [of n] tree_ids_eq [of n] map_concat comp_def cong: map_cong)
qed

lemma countTreeNodes_ids: "countTreeNodes tree = length (tree_ids (tree_root tree))"
proof -
  have "map fst (walk n d) = walkWorkflowNodes n" for n d
  proof (induction n arbitrary: d rule: node_induct)
    case (node n)
    have "walk n d = (n, d) # concat (map (\<lambda>c. walk c (d + 1)) (node_children n))"
      by (cases n) (simp add: node_children_def opt_list_def split: option.split)
    with node show ?case
      by (simp add: walkWorkflowNodes_eq [of n] map_concat comp_def cong: map_cong)
  qed
  then have "length (walk n d) = length (walkWorkflowNodes n)" for n d
    by (metis length_map)
  then show ?thesis by (simp add: countTreeNodes_def tree_ids_def)
qed

lemma update_new: "k \<notin> fst ` set m \<Longrightarrow> AList.update k v m = m @ [(k, v)]"
  by (induction m) auto

lemma js_map_of_distinct: "distinct (map fst es) \<Longrightarrow> js_map_of es = es"
  unfolding js_map_of_def
proof (induction es rule: rev_induct)
  case (snoc e es)
  then show ?case by (cases e) (simp add: update_new)
qed simp

text \<open>Climbing from a parent adds a set of ids within a number of steps, whatever was there before.\<close>

definition climbs :: "(string \<times> string option) list \<Rightarrow> string option \<Rightarrow> nat \<Rightarrow> string set \<Rightarrow> bool" where
  "climbs pm p k S \<longleftrightarrow> (\<forall>ids fuel. k \<le> fuel \<longrightarrow> (\<exists>ids'. climb fuel pm p ids = Some ids'
     \<and> set ids' = set ids \<union> S \<and> (distinct ids \<longrightarrow> distinct ids')))"

lemma climbs_None: "climbs pm None k {}"
  by (simp add: climbs_def)

lemma climbs_Some:
  assumes "map_of pm i = Some q" "i \<noteq> []" "climbs pm q k S"
  shows "climbs pm (Some i) (Suc k) (insert i S)"
  unfolding climbs_def
proof (intro allI impI)
  fix ids :: "string list" and fuel
  assume "Suc k \<le> fuel"
  then obtain f where f: "fuel = Suc f" "k \<le> f" by (cases fuel) auto
  from assms(3) f(2) obtain ids' where "climb f pm q (set_add i ids) = Some ids'"
    "set ids' = set (set_add i ids) \<union> S" "distinct (set_add i ids) \<longrightarrow> distinct ids'"
    unfolding climbs_def by blast
  with assms(1,2) f(1) show "\<exists>ids'. climb fuel pm (Some i) ids = Some ids' \<and> set ids' = set ids \<union> insert i S
      \<and> (distinct ids \<longrightarrow> distinct ids')"
    by auto
qed

text \<open>The ids of the nodes of \<open>n\<close> whose subtree holds the id \<open>x\<close>: the endpoint and what precedes it.\<close>

definition above :: "WorkflowNodeDefinition \<Rightarrow> string \<Rightarrow> string set" where
  "above n x = wn_id ` {a \<in> set (walkWorkflowNodes n). x \<in> set (tree_ids a)}"

lemma above_notin: "x \<notin> set (tree_ids n) \<Longrightarrow> above n x = {}"
proof -
  have "set (tree_ids a) \<subseteq> set (tree_ids n)" if "a \<in> set (walkWorkflowNodes n)" for a
    using that
  proof (induction n rule: node_induct)
    case (node n)
    then show ?case
      by (auto simp: walkWorkflowNodes_eq [of n] tree_ids_eq [of n])
  qed
  then show "x \<notin> set (tree_ids n) \<Longrightarrow> above n x = {}" by (auto simp: above_def)
qed

lemma above_eq: "above n x = (if x \<in> set (tree_ids n) then {wn_id n} else {}) \<union> (\<Union>c \<in> set (node_children n). above c x)"
  by (auto simp: above_def walkWorkflowNodes_eq [of n])

lemma climbs_in_tree:
  assumes "distinct (tree_ids n)" "[] \<notin> set (tree_ids n)" "climbs pm parent k S"
    "\<And>i q. (i, q) \<in> set (collect_parents n parent) \<Longrightarrow> map_of pm i = Some q" "x \<in> set (tree_ids n)"
  shows "\<exists>q k' T. map_of pm x = Some q \<and> climbs pm q k' T \<and> k' < k + length (tree_ids n) \<and> insert x T = S \<union> above n x"
  using assms
proof (induction n arbitrary: parent k S rule: node_induct)
  case (node n)
  have here: "map_of pm (wn_id n) = Some parent"
    using node.prems(4) [of "wn_id n" parent] by (simp add: collect_parents_eq [of n])
  show ?case
  proof (cases "x = wn_id n")
    case True
    have "x \<notin> set (tree_ids c)" if "c \<in> set (node_children n)" for c
      using that node.prems(1) True by (auto simp: tree_ids_eq [of n])
    then have "above n x = {x}" using True by (auto simp: above_eq [of n] above_notin tree_ids_eq [of n])
    then show ?thesis
      using True here node.prems(3) by (intro exI [of _ parent] exI [of _ k] exI [of _ S]) (simp add: tree_ids_eq [of n])
  next
    case False
    with node.prems(5) obtain c where c: "c \<in> set (node_children n)" "x \<in> set (tree_ids c)"
      by (auto simp: tree_ids_eq [of n])
    have sub: "distinct (tree_ids c)" "[] \<notin> set (tree_ids c)"
      using node.prems(1,2) c(1) by (auto simp: tree_ids_eq [of n] distinct_concat_iff)
    have "wn_id n \<noteq> []" using node.prems(2) by (metis list.set_intros(1) tree_ids_eq)
    then have up: "climbs pm (Some (wn_id n)) (Suc k) (insert (wn_id n) S)"
      using climbs_Some [OF here _ node.prems(3)] by simp
    have "\<And>i q. (i, q) \<in> set (collect_parents c (Some (wn_id n))) \<Longrightarrow> map_of pm i = Some q"
      using node.prems(4) c(1) by (auto simp: collect_parents_eq [of n])
    from node.IH [OF c(1) sub up this c(2)] obtain q k' T where
      ih: "map_of pm x = Some q" "climbs pm q k' T" "k' < Suc k + length (tree_ids c)"
        "insert x T = insert (wn_id n) S \<union> above c x" by auto
    have other: "above d x = {}" if "d \<in> set (node_children n)" "d \<noteq> c" for d
    proof (rule above_notin, rule notI)
      assume "x \<in> set (tree_ids d)"
      moreover have "distinct (concat (map tree_ids (node_children n)))"
        using node.prems(1) by (simp add: tree_ids_eq [of n])
      moreover from c(1) obtain xs ys where "node_children n = xs @ c # ys" by (meson split_list)
      ultimately show False using c(2) that by auto
    qed
    have "above n x = insert (wn_id n) (above c x)"
      using node.prems(5) c(1) other by (auto simp: above_eq [of n])
    moreover have "length (tree_ids c) < length (tree_ids n)"
    proof -
      have "length (tree_ids c) \<le> length (concat (map tree_ids (node_children n)))"
        using c(1) by (simp add: length_concat member_le_sum_list)
      then show ?thesis by (simp add: tree_ids_eq [of n])
    qed
    ultimately show ?thesis using ih by (intro exI [of _ q] exI [of _ k'] exI [of _ T]) auto
  qed
qed

definition selected_ids :: "WorkflowTreeDefinition \<Rightarrow> string list \<Rightarrow> string set" where
  "selected_ids tree routes = (\<Union>r \<in> set routes. above (tree_root tree) (trim r))"

definition valid_routes :: "WorkflowTreeDefinition \<Rightarrow> string list \<Rightarrow> bool" where
  "valid_routes tree routes = list_all (\<lambda>r. trim r \<in> set (tree_ids (tree_root tree))) routes"

lemma endpoint_climbs:
  assumes "unique_ids tree" "x \<in> set (tree_ids (tree_root tree))"
    "pm = js_map_of (collect_parents (tree_root tree) None)"
  shows "\<exists>q T. map_of pm x = Some q \<and> climbs pm q (length pm) T \<and> insert x T = above (tree_root tree) x"
proof -
  let ?r = "tree_root tree"
  from assms(1) have u: "distinct (tree_ids ?r)" "[] \<notin> set (tree_ids ?r)" by (auto simp: unique_ids_def)
  have keys: "map fst (collect_parents ?r None) = tree_ids ?r" by (rule collect_parents_keys)
  then have pm: "pm = collect_parents ?r None" using js_map_of_distinct u(1) assms(3) by metis
  have look: "map_of pm i = Some q" if "(i, q) \<in> set (collect_parents ?r None)" for i q
    using that u(1) keys pm by (simp add: map_of_eq_Some_iff)
  from climbs_in_tree [OF u climbs_None [of pm 0] look assms(2)]
  obtain q k T where "map_of pm x = Some q" "climbs pm q k T" "k < length (tree_ids ?r)" "insert x T = above ?r x"
    by auto
  moreover have "length pm = length (tree_ids ?r)" using keys pm by (metis length_map)
  ultimately show ?thesis unfolding climbs_def by (metis (no_types, lifting) less_imp_le order_trans)
qed

lemma known_routes:
  "unique_ids tree \<Longrightarrow> map_of (js_map_of (collect_parents (tree_root tree) None)) x = None \<longleftrightarrow>
   x \<notin> set (tree_ids (tree_root tree))"
proof -
  assume "unique_ids tree"
  then have "js_map_of (collect_parents (tree_root tree) None) = collect_parents (tree_root tree) None"
    by (simp add: js_map_of_distinct collect_parents_keys unique_ids_def)
  then show ?thesis
    by (metis collect_parents_keys list.set_map map_of_eq_None_iff)
qed

lemma resolve_routes_exact:
  assumes "unique_ids tree" "pm = js_map_of (collect_parents (tree_root tree) None)" "distinct ids"
  shows "\<exists>ids'. resolve_routes (length pm) pm routes ids invalid
      = Some (ids', invalid @ filter (\<lambda>r. trim r \<notin> set (tree_ids (tree_root tree))) routes)
    \<and> distinct ids' \<and> set ids' = set ids \<union> selected_ids tree routes"
  using assms(3)
proof (induction routes arbitrary: ids invalid)
  case Nil
  then show ?case by (simp add: selected_ids_def)
next
  case (Cons r rs)
  show ?case
  proof (cases "trim r \<in> set (tree_ids (tree_root tree))")
    case False
    then have "map_of pm (trim r) = None" using known_routes [OF assms(1)] assms(2) by simp
    moreover have "above (tree_root tree) (trim r) = {}" using False by (rule above_notin)
    ultimately show ?thesis using Cons.IH [OF Cons.prems, of "invalid @ [r]"] False
      by (simp add: selected_ids_def Let_def)
  next
    case True
    from endpoint_climbs [OF assms(1) True assms(2)] obtain q T where
      q: "map_of pm (trim r) = Some q" "climbs pm q (length pm) T" "insert (trim r) T = above (tree_root tree) (trim r)"
      by blast
    from q(2) Cons.prems obtain ids2 where ids2: "climb (length pm) pm q (set_add (trim r) ids) = Some ids2"
      "set ids2 = set (set_add (trim r) ids) \<union> T" "distinct ids2"
      unfolding climbs_def by (metis distinct_set_add order_refl)
    from Cons.IH [OF ids2(3), of invalid] q ids2 True show ?thesis
      by (auto simp: selected_ids_def Let_def)
  qed
qed

lemma resolveRouteNodeIds_exact:
  assumes "unique_ids tree"
  shows "\<exists>ids. resolveRouteNodeIds tree routes
      = Some (ids, filter (\<lambda>r. trim r \<notin> set (tree_ids (tree_root tree))) routes)
    \<and> distinct ids \<and> set ids = selected_ids tree routes"
  using resolve_routes_exact [OF assms refl, of "[]" routes "[]"] by (simp add: resolveRouteNodeIds_def Let_def)

lemma resolveRoute_cases:
  assumes "unique_ids tree" "resolveRoute tree routes rationale = Some (Some sel)"
  shows "valid_routes tree routes \<and> routes \<noteq> [] \<and>
    (case rs_nodeIds sel of
       None \<Rightarrow> selected_ids tree routes = set (tree_ids (tree_root tree))
     | Some ids \<Rightarrow> distinct ids \<and> set ids = selected_ids tree routes)"
proof -
  obtain ids where ids: "resolveRouteNodeIds tree routes
      = Some (ids, filter (\<lambda>r. trim r \<notin> set (tree_ids (tree_root tree))) routes)"
    "distinct ids" "set ids = selected_ids tree routes"
    using resolveRouteNodeIds_exact [OF assms(1)] by blast
  have "ids \<noteq> []" and valid: "valid_routes tree routes"
    using assms(2) ids(1) by (auto simp: resolveRoute_def valid_routes_def list_all_iff filter_empty_conv split: if_splits)
  moreover have "routes \<noteq> []" using \<open>ids \<noteq> []\<close> ids(3) by (auto simp: selected_ids_def)
  moreover have "set ids \<subseteq> set (tree_ids (tree_root tree))"
    using ids(3) by (auto simp: selected_ids_def above_def tree_ids_def)
  then have "length ids = countTreeNodes tree \<Longrightarrow> set ids = set (tree_ids (tree_root tree))"
    using ids(2) assms(1) by (metis card_subset_eq countTreeNodes_ids distinct_card finite_set unique_ids_def)
  ultimately show ?thesis using assms(2) ids
    by (auto simp: resolveRoute_def wholeTree_def Let_def split: if_splits)
qed

lemma js_map_of_lookup: "map_of (js_map_of es) k = Some v \<Longrightarrow> (k, v) \<in> set es"
  unfolding js_map_of_def
proof (induction es rule: rev_induct)
  case (snoc e es)
  then show ?case by (cases e) (auto simp: js_map.lookup_insert split: if_splits)
qed simp

text \<open>The two ways a selection can go on to execute.\<close>

lemma executing_selection:
  assumes "list_all unique_ids trees" "selectWorkflowPlan trees defaultTree requestText planner = Some sel"
    "sel_next sel = NextExecute"
  shows "(countTreeNodes (sel_tree sel) \<le> 1 \<and> rs_nodeIds (sel_route sel) = None)
    \<or> (\<exists>ask choice routes rationale. planner = Some ask
        \<and> ask trees requestText (buildPlanCandidateDigest trees) = Answered (Decided (Some choice) routes rationale)
        \<and> sel_tree sel \<in> set trees \<and> tree_id (sel_tree sel) = trim choice
        \<and> valid_routes (sel_tree sel) routes \<and> routes \<noteq> []
        \<and> (case rs_nodeIds (sel_route sel) of
             None \<Rightarrow> selected_ids (sel_tree sel) routes = set (tree_ids (tree_root (sel_tree sel)))
           | Some ids \<Rightarrow> distinct ids \<and> set ids = selected_ids (sel_tree sel) routes))"
proof (cases "nothing_to_decide trees defaultTree (planner \<noteq> None)")
  case (Some s)
  with assms show ?thesis
    by (auto simp: selectWorkflowPlan_def nothing_to_decide_def selectionWithoutModel_def wholeTree_def Let_def
        split: if_splits)
next
  case None
  show ?thesis
  proof (cases planner)
    case None
    with \<open>nothing_to_decide trees defaultTree (planner \<noteq> None) = None\<close> assms(2,3) show ?thesis
      by (auto simp: selectWorkflowPlan_def unplanned_def selectionWithoutModel_def wholeTree_def split: if_splits)
  next
    case (Some ask)
    let ?a = "ask trees requestText (buildPlanCandidateDigest trees)"
    from None Some assms(2) have h: "handle_answer trees defaultTree ?a = Some sel"
      by (simp add: selectWorkflowPlan_def)
    consider (decided) choice routes rationale where "?a = Answered (Decided (Some choice) routes rationale)"
      | (plain) "countTreeNodes (sel_tree sel) \<le> 1 \<and> rs_nodeIds (sel_route sel) = None"
      using h assms(3)
      by (auto simp: handle_answer_def handle_decided_def unplanned_def failClosedWorkflowSelection_def Let_def
          selectionWithoutModel_def wholeTree_def
          split: PlannerAnswer.splits WorkflowPlanDecision.splits option.splits if_splits)
    then show ?thesis
    proof cases
      case decided
      let ?m = "js_map_of (map (\<lambda>t. (tree_id t, t)) trees)"
      from h decided assms(3) obtain tree route where
        t: "map_of ?m (trim choice) = Some tree" "resolveRoute tree routes rationale = Some (Some route)"
          "sel_tree sel = tree" "sel_route sel = route"
        by (auto simp: handle_answer_def handle_decided_def failClosedWorkflowSelection_def Let_def split: option.splits)
      from js_map_of_lookup [OF t(1)] have mem: "tree \<in> set trees" "tree_id tree = trim choice" by auto
      with assms(1) have "unique_ids tree" by (simp add: list_all_iff)
      from resolveRoute_cases [OF this t(2)] mem t decided Some show ?thesis by blast
    qed simp
  qed
qed

lemma resolveRoute_total: "unique_ids tree \<Longrightarrow> resolveRoute tree routes rationale \<noteq> None"
  using resolveRouteNodeIds_exact [of tree routes] by (auto simp: resolveRoute_def Let_def)

lemma selectionWithoutModel_simps [simp]:
  "sel_tree (selectionWithoutModel tree s r r') = tree"
  "sel_route (selectionWithoutModel tree s r r') = wholeTree r' []"
  by (simp_all add: selectionWithoutModel_def)

lemma failClosed_simps [simp]:
  "sel_next (failClosedWorkflowSelection trees defaultTree r) \<noteq> NextExecute"
  "sel_tree (failClosedWorkflowSelection trees defaultTree r) \<in> insert defaultTree (set trees)"
  "rs_nodeIds (sel_route (failClosedWorkflowSelection trees defaultTree r)) = None"
  "rs_routes (sel_route (failClosedWorkflowSelection trees defaultTree r)) = []"
  by (auto simp: failClosedWorkflowSelection_def Let_def wholeTree_def dest: find_Some_mem split: option.split)

text \<open>What every answer leads to: a candidate or the default, and no route unless it executes.\<close>

definition selection_ok ::
  "WorkflowTreeDefinition list \<Rightarrow> WorkflowTreeDefinition \<Rightarrow> EnterpriseWorkflowSelection option \<Rightarrow> bool" where
  "selection_ok trees defaultTree r = (case r of None \<Rightarrow> False
     | Some sel \<Rightarrow> sel_tree sel \<in> insert defaultTree (set trees)
         \<and> (sel_next sel = NextExecute \<or> (rs_nodeIds (sel_route sel) = None \<and> rs_routes (sel_route sel) = [])))"

lemma selection_ok_without_model [simp]:
  "tree \<in> insert defaultTree (set trees) \<Longrightarrow> selection_ok trees defaultTree (Some (selectionWithoutModel tree s r r'))"
  "tree \<in> insert defaultTree (set trees) \<Longrightarrow>
     selection_ok trees defaultTree (Some ((selectionWithoutModel tree s r r') \<lparr> sel_next := n \<rparr>))"
  "selection_ok trees defaultTree (Some (failClosedWorkflowSelection trees defaultTree r))"
  using failClosed_simps(2) [of trees defaultTree r] by (auto simp: selection_ok_def wholeTree_def)

lemma candidate_found:
  "map_of (js_map_of (map (\<lambda>t. (tree_id t, t)) trees)) k = Some tree \<Longrightarrow> tree \<in> set trees"
  by (drule js_map_of_lookup) auto

lemma handle_decided_ok:
  assumes "list_all unique_ids trees"
  shows "selection_ok trees defaultTree (handle_decided trees defaultTree choice routes rationale)"
proof (cases choice)
  case None
  then show ?thesis by (simp add: handle_decided_def)
next
  case (Some chosen)
  let ?found = "map_of (js_map_of (map (\<lambda>t. (tree_id t, t)) trees)) (trim chosen)"
  show ?thesis
  proof (cases ?found)
    case None
    then show ?thesis using Some by (simp add: handle_decided_def)
  next
    case tree: (Some tree)
    with assms have "tree \<in> set trees" "unique_ids tree" by (auto dest!: candidate_found simp: list_all_iff)
    then obtain r where "resolveRoute tree routes rationale = Some r" using resolveRoute_total by blast
    with Some tree \<open>tree \<in> set trees\<close> show ?thesis
      by (cases r) (simp_all add: handle_decided_def, simp add: selection_ok_def)
  qed
qed

lemma selectWorkflowPlan_ok:
  assumes "list_all unique_ids trees"
  shows "selection_ok trees defaultTree (selectWorkflowPlan trees defaultTree requestText planner)"
proof (cases "nothing_to_decide trees defaultTree (planner \<noteq> None)")
  case (Some s)
  then show ?thesis
    by (auto simp: selectWorkflowPlan_def nothing_to_decide_def Let_def split: if_splits list.splits)
next
  case None
  then show ?thesis
    using handle_decided_ok [OF assms]
    by (auto simp: selectWorkflowPlan_def handle_answer_def unplanned_def dest: candidate_found
        split: option.split PlannerAnswer.split WorkflowPlanDecision.split)
qed

section \<open>Properties\<close>

text \<open>
  Resolving a route on a tree whose steps have ids of their own always ends, and selects exactly
  the steps on the way from the root to a named endpoint, each once: an ancestor of an endpoint is
  always selected, and nothing below or beside it ever is. The rejected routes are exactly the
  names of no step.
\<close>

theorem route_resolution_exact:
  assumes "unique_ids tree"
  shows "\<exists>ids. resolveRouteNodeIds tree routes
      = Some (ids, filter (\<lambda>r. trim r \<notin> set (tree_ids (tree_root tree))) routes)
    \<and> distinct ids
    \<and> set ids = {wn_id a | a. a \<in> set (walkWorkflowNodes (tree_root tree)) \<and> (\<exists>r \<in> set routes. trim r \<in> set (tree_ids a))}"
proof -
  have "selected_ids tree routes
      = {wn_id a | a. a \<in> set (walkWorkflowNodes (tree_root tree)) \<and> (\<exists>r \<in> set routes. trim r \<in> set (tree_ids a))}"
    by (auto simp: selected_ids_def above_def)
  with resolveRouteNodeIds_exact [OF assms, of routes] show ?thesis by simp
qed

definition sample_tree :: WorkflowTreeDefinition where
  "sample_tree = \<lparr> tree_executionModel = None, tree_id = ''claims'', tree_version = ''1'', tree_name = ''Claims'',
     tree_description = None, tree_match = None, tree_capabilityGrants = None,
     tree_root = WorkflowNode ''intake'' ''Intake'' None None (Some
       [WorkflowNode ''triage'' ''Triage'' None None (Some [WorkflowNode ''pay'' ''Pay'' None None None]),
        WorkflowNode ''close'' ''Close'' None None None]) \<rparr>"

theorem route_resolution_witness:
  "\<exists>ids. resolveRouteNodeIds sample_tree ['' pay'', ''nowhere''] = Some (ids, [''nowhere'']) \<and> distinct ids
    \<and> set ids = {wn_id a | a. a \<in> set (walkWorkflowNodes (tree_root sample_tree))
        \<and> (\<exists>r \<in> set ['' pay'', ''nowhere'']. trim r \<in> set (tree_ids a))}"
proof -
  have "unique_ids sample_tree" by code_simp
  moreover have "filter (\<lambda>r. trim r \<notin> set (tree_ids (tree_root sample_tree))) ['' pay'', ''nowhere''] = [''nowhere'']"
    by code_simp
  ultimately show ?thesis using route_resolution_exact [of sample_tree "['' pay'', ''nowhere'']"] by metis
qed

text \<open>
  C7. A selection that goes on to execute either has a single step, so that there was nothing to
  choose, or is the planner's own explicit decision: a candidate work-map it named, through endpoints
  that all exist, with exactly the steps leading to them. An exception, an unusable answer, an
  unknown work-map and a route with one invalid name never execute anything.
\<close>

theorem execution_needs_a_valid_choice:
  assumes "list_all unique_ids trees" "selectWorkflowPlan trees defaultTree requestText planner = Some sel"
    "sel_next sel = NextExecute"
  shows "(countTreeNodes (sel_tree sel) \<le> 1 \<and> rs_nodeIds (sel_route sel) = None)
    \<or> (\<exists>ask choice routes rationale. planner = Some ask
        \<and> ask trees requestText (buildPlanCandidateDigest trees) = Answered (Decided (Some choice) routes rationale)
        \<and> sel_tree sel \<in> set trees \<and> tree_id (sel_tree sel) = trim choice
        \<and> valid_routes (sel_tree sel) routes \<and> routes \<noteq> []
        \<and> (case rs_nodeIds (sel_route sel) of
             None \<Rightarrow> selected_ids (sel_tree sel) routes = set (tree_ids (tree_root (sel_tree sel)))
           | Some ids \<Rightarrow> distinct ids \<and> set ids = selected_ids (sel_tree sel) routes))"
  using assms by (rule executing_selection)

theorem execution_needs_a_valid_choice_witness:
  "\<exists>sel. selectWorkflowPlan [sample_tree] (sample_tree \<lparr> tree_id := ''assist'' \<rparr>) ''pay me''
      (Some (\<lambda>_ _ _. Answered (Decided (Some ''claims'') [''triage''] None))) = Some sel
    \<and> ((countTreeNodes (sel_tree sel) \<le> 1 \<and> rs_nodeIds (sel_route sel) = None)
    \<or> (\<exists>ask choice routes rationale. Some (\<lambda>_ _ _. Answered (Decided (Some ''claims'') [''triage''] None)) = Some ask
        \<and> ask [sample_tree] ''pay me'' (buildPlanCandidateDigest [sample_tree]) = Answered (Decided (Some choice) routes rationale)
        \<and> sel_tree sel \<in> set [sample_tree] \<and> tree_id (sel_tree sel) = trim choice
        \<and> valid_routes (sel_tree sel) routes \<and> routes \<noteq> []
        \<and> (case rs_nodeIds (sel_route sel) of
             None \<Rightarrow> selected_ids (sel_tree sel) routes = set (tree_ids (tree_root (sel_tree sel)))
           | Some ids \<Rightarrow> distinct ids \<and> set ids = selected_ids (sel_tree sel) routes)))"
proof -
  let ?run = "selectWorkflowPlan [sample_tree] (sample_tree \<lparr> tree_id := ''assist'' \<rparr>) ''pay me''
      (Some (\<lambda>_ _ _. Answered (Decided (Some ''claims'') [''triage''] None)))"
  have "map_option sel_next ?run = Some NextExecute" by code_simp
  then obtain sel where sel: "?run = Some sel" "sel_next sel = NextExecute" by auto
  have "list_all unique_ids [sample_tree]" by code_simp
  from execution_needs_a_valid_choice [OF this sel] sel(1) show ?thesis by blast
qed

text \<open>
  Selecting always answers: on work-maps whose steps have ids of their own the selection ends, whatever
  the planner answers, throws or leaves out; the bound tree is one of the candidates or the default, and
  a selection that is blocked or asks back carries no route.
\<close>

theorem selection_always_answers:
  assumes "list_all unique_ids trees"
  shows "\<exists>sel. selectWorkflowPlan trees defaultTree requestText planner = Some sel
    \<and> sel_tree sel \<in> insert defaultTree (set trees)
    \<and> (sel_next sel \<noteq> NextExecute \<longrightarrow> rs_nodeIds (sel_route sel) = None \<and> rs_routes (sel_route sel) = [])"
  using selectWorkflowPlan_ok [OF assms, of defaultTree requestText planner]
  by (auto simp: selection_ok_def split: option.splits)

theorem selection_always_answers_witness:
  "\<exists>sel. selectWorkflowPlan [sample_tree] sample_tree ''hello'' (Some (\<lambda>_ _ _. Threw ''timeout'')) = Some sel
    \<and> sel_tree sel \<in> {sample_tree}"
proof -
  have "list_all unique_ids [sample_tree]" by code_simp
  from selection_always_answers [OF this, of sample_tree "''hello''" "Some (\<lambda>_ _ _. Threw ''timeout'')"]
  show ?thesis by auto
qed

end
