(* ===== verification/Run_Plan.thy ===== *)
theory Run_Plan
  imports Route_Planner "HOL-Library.Sublist" "HOL-Library.Multiset"
begin

text \<open>
  Candidate work-maps and the plan of one run, \<^verbatim>\<open>src/enterprise/plan.ts\<close>. Secret redaction
  (\<^verbatim>\<open>logging/redact.ts\<close>), the SHA-256 of a tree's canonical JSON and \<open>localeCompare\<close> are
  parameters, arguments of the functions that use them: \<open>redact\<close>, \<open>hashTree\<close> and \<open>collate\<close>.
\<close>

section \<open>Built-in trees\<close>

definition BUILTIN_ASSIST_TREE :: WorkflowTreeDefinition where
  "BUILTIN_ASSIST_TREE = \<lparr> tree_executionModel = None, tree_id = ''clawworks.assist'', tree_version = ''1.0.0'',
     tree_name = ''General assistance'', tree_description = Some ''Default enterprise workflow for user requests.'',
     tree_match = Some \<lparr> match_keywords = None, match_triggers = Some [TrigUser, TrigSubagent], match_priority = Some (- 100) \<rparr>,
     tree_capabilityGrants = None,
     tree_root = WorkflowNode ''assist'' ''Assist with the user request'' None (Some empty_binding) None \<rparr>"

definition BUILTIN_SYSTEM_TREE :: WorkflowTreeDefinition where
  "BUILTIN_SYSTEM_TREE = \<lparr> tree_executionModel = None, tree_id = ''clawworks.system'', tree_version = ''1.0.0'',
     tree_name = ''System maintenance'', tree_description = Some ''Default enterprise workflow for system-triggered runs.'',
     tree_match = Some \<lparr> match_keywords = None, match_triggers = Some [TrigSystem], match_priority = Some (- 100) \<rparr>,
     tree_capabilityGrants = None,
     tree_root = WorkflowNode ''system'' ''Run the scheduled system task'' None (Some empty_binding) None \<rparr>"

section \<open>Candidates\<close>

definition REQUEST_SUMMARY_MAX_CHARS :: nat where
  "REQUEST_SUMMARY_MAX_CHARS = 300"

definition MODEL_TEXT_MAX_CHARS :: nat where
  "MODEL_TEXT_MAX_CHARS = 300"

definition classifyWorkflowTrigger :: "string option \<Rightarrow> string option \<Rightarrow> WorkflowTreeTrigger" where
  "classifyWorkflowTrigger trigger spawnedBy =
     (if opt_list spawnedBy \<noteq> [] then TrigSubagent
      else if trigger \<in> {Some ''cron'', Some ''heartbeat'', Some ''memory'', Some ''overflow''} then TrigSystem
      else TrigUser)"

text \<open>\<open>xs.toSorted(compare)\<close>: a stable insertion sort, the result any stable sort has for a consistent comparison.\<close>

fun insert_by :: "('a \<Rightarrow> 'a \<Rightarrow> int) \<Rightarrow> 'a \<Rightarrow> 'a list \<Rightarrow> 'a list" where
  "insert_by compare x [] = [x]"
| "insert_by compare x (y # ys) = (if compare x y \<le> 0 then x # y # ys else y # insert_by compare x ys)"

definition sort_by :: "('a \<Rightarrow> 'a \<Rightarrow> int) \<Rightarrow> 'a list \<Rightarrow> 'a list" where
  "sort_by compare xs = foldr (insert_by compare) xs []"

definition tree_priority :: "WorkflowTreeDefinition \<Rightarrow> int" where
  "tree_priority tree = (case tree_match tree of
     None \<Rightarrow> 0 | Some m \<Rightarrow> (case match_priority m of None \<Rightarrow> 0 | Some p \<Rightarrow> p))"

definition tree_triggers :: "WorkflowTreeDefinition \<Rightarrow> WorkflowTreeTrigger list" where
  "tree_triggers tree = (case tree_match tree of
     None \<Rightarrow> [TrigUser]
   | Some m \<Rightarrow> if opt_list (match_triggers m) = [] then [TrigUser] else opt_list (match_triggers m))"

definition compare_trees :: "(string \<Rightarrow> string \<Rightarrow> int) \<Rightarrow> WorkflowTreeDefinition \<Rightarrow> WorkflowTreeDefinition \<Rightarrow> int" where
  "compare_trees collate l r = (let byPriority = tree_priority r - tree_priority l in
     if byPriority \<noteq> 0 then byPriority else collate (tree_id l) (tree_id r))"

record WorkflowTreeCandidates =
  wc_candidates :: "WorkflowTreeDefinition list"
  wc_defaultTree :: WorkflowTreeDefinition

definition collectWorkflowTreeCandidates ::
  "(string \<Rightarrow> string \<Rightarrow> int) \<Rightarrow> WorkflowTreeTrigger \<Rightarrow> WorkflowTreeDefinition list \<Rightarrow> WorkflowTreeCandidates" where
  "collectWorkflowTreeCandidates collate trigger trees =
     (let builtinDefault = (if trigger = TrigSystem then BUILTIN_SYSTEM_TREE else BUILTIN_ASSIST_TREE);
          defaultTree = (case List.find (\<lambda>t. tree_id t = tree_id builtinDefault) trees of
              Some t \<Rightarrow> t | None \<Rightarrow> builtinDefault);
          matching = filter (\<lambda>t. trigger \<in> set (tree_triggers t)) trees;
          candidates = sort_by (compare_trees collate) matching
      in \<lparr> wc_candidates = (if list_ex (\<lambda>t. tree_id t = tree_id defaultTree) candidates then candidates
             else candidates @ [defaultTree]),
           wc_defaultTree = defaultTree \<rparr>)"

section \<open>The plan\<close>

text \<open>
  \<open>flattenPlanNodes\<close>: the kept nodes of the subtree, depth first; a node that is not kept prunes its
  branch. The sequence number is the number of nodes planned before it.
\<close>

fun flatten_visit :: "WorkflowNodeDefinition \<Rightarrow> (string \<Rightarrow> bool) \<Rightarrow> string option \<Rightarrow>
    EnterprisePlanNode list \<Rightarrow> EnterprisePlanNode list" where
  "flatten_visit (WorkflowNode i t d ont cs) keep parent planned =
     (if \<not> keep i then planned
      else let here = planned @ [\<lparr> nodeId = i, parentId = parent, seq = length planned, node_title = t,
             node_description = d, ontology = (case ont of None \<Rightarrow> empty_binding | Some b \<Rightarrow> b) \<rparr>]
        in case cs of None \<Rightarrow> here
           | Some ks \<Rightarrow> fold (\<lambda>child acc. flatten_visit child keep (Some i) acc) ks here)"

definition flattenPlanNodes :: "WorkflowNodeDefinition \<Rightarrow> string list option \<Rightarrow> EnterprisePlanNode list" where
  "flattenPlanNodes rootNode keep =
     flatten_visit rootNode (case keep of None \<Rightarrow> (\<lambda>_. True) | Some ids \<Rightarrow> (\<lambda>i. i \<in> set ids)) None []"

definition summarize :: "nat \<Rightarrow> (string \<Rightarrow> string) \<Rightarrow> string \<Rightarrow> string" where
  "summarize limit redact text = (let redacted = trim (collapse_spaces (redact text)) in
     if length redacted \<le> limit then redacted else take (limit - 1) redacted @ [ellipsis])"

definition summarizeModelText :: "(string \<Rightarrow> string) \<Rightarrow> string \<Rightarrow> string" where
  "summarizeModelText redact text = summarize MODEL_TEXT_MAX_CHARS redact text"

definition summarizeRequestText :: "(string \<Rightarrow> string) \<Rightarrow> string \<Rightarrow> string" where
  "summarizeRequestText redact text = summarize REQUEST_SUMMARY_MAX_CHARS redact text"

fun treeDeclaresMcpAttachment :: "WorkflowNodeDefinition \<Rightarrow> bool" where
  "treeDeclaresMcpAttachment (WorkflowNode i t d ont cs) =
     ((case ont of None \<Rightarrow> False | Some b \<Rightarrow> mcpServers b \<noteq> None)
      \<or> (case cs of None \<Rightarrow> False | Some ks \<Rightarrow> list_ex treeDeclaresMcpAttachment ks))"

record RunPlanRequest =
  rq_runId :: string
  rq_requestText :: string
  rq_mode :: EnterpriseMode
  rq_tree :: WorkflowTreeDefinition
  rq_matchedBy :: WorkflowTreeSource
  rq_treeRationale :: "string option"
  rq_route :: "EnterpriseRouteSelection option"
  rq_now :: int

text \<open>The fields every planned node contributes to, as an ordered set.\<close>

definition plan_union :: "(OntologyBinding \<Rightarrow> 'a list option) \<Rightarrow> EnterprisePlanNode list \<Rightarrow> 'a list" where
  "plan_union field ns = dedup (concat (map (\<lambda>n. opt_list (field (ontology n))) ns))"

definition plan_route_of ::
  "(string \<Rightarrow> string) \<Rightarrow> string list option \<Rightarrow> nat \<Rightarrow> nat \<Rightarrow> EnterpriseRouteSelection \<Rightarrow> EnterpriseRoutePlan" where
  "plan_route_of redact routeNodeIds selectedCount treeCount route =
     \<lparr> rp_routes = (if routeNodeIds \<noteq> None then rs_routes route else []),
       rp_rationale = summarizeModelText redact (rs_rationale route),
       rp_source = (if routeNodeIds \<noteq> None then rs_source route else RouteWholeTree),
       rp_selectedNodes = selectedCount, rp_totalNodes = treeCount,
       rp_invalidRoutes = (if rs_invalidRoutes route \<noteq> []
         then Some (map (summarizeModelText redact) (rs_invalidRoutes route)) else None) \<rparr>"

text \<open>The object the plan is, once the nodes are laid out, and the two checks that come before it.\<close>

definition plan_record ::
  "(string \<Rightarrow> string) \<Rightarrow> (WorkflowTreeDefinition \<Rightarrow> string) \<Rightarrow> (string \<Rightarrow> string \<Rightarrow> int) \<Rightarrow> RunPlanRequest \<Rightarrow>
   string list option \<Rightarrow> EnterprisePlanNode list \<Rightarrow> EnterpriseRunPlan" where
  "plan_record redact hashTree collate params routeNodeIds planned =
     (let tree = rq_tree params;
          grants = tree_capabilityGrants tree;
          governed = (grants = Some GrantsExplicit \<or> treeDeclaresMcpAttachment (tree_root tree));
          denied = sort (plan_union deniedTools planned)
      in \<lparr> executionModel = (if opt_list (tree_executionModel tree) = [] then None else tree_executionModel tree),
           runId = rq_runId params, treeId = tree_id tree, treeVersion = tree_version tree,
           treeName = tree_name tree, matchedBy = rq_matchedBy params,
           treeRationale = (if opt_list (rq_treeRationale params) = [] then None
             else map_option (summarizeModelText redact) (rq_treeRationale params)),
           treeHash = Some (hashTree tree),
           requestSummary = summarizeRequestText redact (rq_requestText params),
           nodes = planned,
           plan_route = map_option
             (plan_route_of redact routeNodeIds (length planned) (countTreeNodes tree)) (rq_route params),
           activeNodeId = nodeId (hd planned),
           mcpGoverned = (if governed then Some True else None),
           mcpAttachments = (if governed then Some (sort_by collate (plan_union mcpServers planned)) else None),
           mcpDeniedTools = (if denied \<noteq> [] then Some denied else None),
           capabilityGrants = grants,
           grantedSkills = (if grants \<noteq> None then Some (sort_by collate (plan_union skills planned)) else None),
           plan_mode = rq_mode params, createdAt = rq_now params \<rparr>)"

definition buildEnterpriseRunPlan ::
  "(string \<Rightarrow> string) \<Rightarrow> (WorkflowTreeDefinition \<Rightarrow> string) \<Rightarrow> (string \<Rightarrow> string \<Rightarrow> int) \<Rightarrow> RunPlanRequest \<Rightarrow>
   EnterpriseRunPlan result" where
  "buildEnterpriseRunPlan redact hashTree collate params =
     (let top = tree_root (rq_tree params);
          wanted = (case rq_route params of None \<Rightarrow> None | Some r \<Rightarrow> rs_nodeIds r);
          routeNodeIds = (case wanted of
              None \<Rightarrow> None | Some ids \<Rightarrow> if wn_id top \<in> set ids then Some ids else None)
      in if wanted \<noteq> None \<and> routeNodeIds = None then Inl ''Workflow route does not include its root step.''
         else let planned = flattenPlanNodes top routeNodeIds
         in if routeNodeIds \<noteq> None \<and> length planned \<noteq> length (opt_list routeNodeIds)
            then Inl ''Workflow route contains unknown steps or omits a predecessor.''
            else Inr (plan_record redact hashTree collate params routeNodeIds planned))"

definition findPlanNode :: "EnterpriseRunPlan \<Rightarrow> string \<Rightarrow> EnterprisePlanNode option" where
  "findPlanNode plan i = List.find (\<lambda>n. nodeId n = i) (nodes plan)"

definition enterpriseStepSequence :: "EnterpriseRunPlan \<Rightarrow> string list" where
  "enterpriseStepSequence plan = map nodeId (nodes plan)"

text \<open>\<open>while (index < steps.length && completed.has(steps[index])) index += 1\<close>\<close>

fun finished_prefix :: "string list \<Rightarrow> string list \<Rightarrow> nat" where
  "finished_prefix [] completed = 0"
| "finished_prefix (s # steps) completed = (if s \<in> set completed then Suc (finished_prefix steps completed) else 0)"

definition firstUnfinishedStep :: "string list \<Rightarrow> string list \<Rightarrow> string option" where
  "firstUnfinishedStep steps completed =
     (let index = finished_prefix steps completed in if index = 0 then None else nth_opt steps index)"

definition ontologyHasGuidance :: "OntologyBinding \<Rightarrow> bool" where
  "ontologyHasGuidance b =
     (opt_list (constraints b) \<noteq> [] \<or> opt_list (contextHints b) \<noteq> [] \<or> opt_list (guidance b) \<noteq> []
      \<or> opt_list (skills b) \<noteq> [] \<or> opt_list (allowedTools b) \<noteq> [] \<or> opt_list (deniedTools b) \<noteq> []
      \<or> opt_list (actions b) \<noteq> [] \<or> opt_list (knowledgeFoundations b) \<noteq> [] \<or> opt_list (mcpServers b) \<noteq> []
      \<or> opt_list (expectedOutput b) \<noteq> [] \<or> opt_list (entities b) \<noteq> [] \<or> opt_list (relationships b) \<noteq> []
      \<or> opt_list (ont_functions b) \<noteq> [])"

definition passiveDefaultHashes :: "(WorkflowTreeDefinition \<Rightarrow> string) \<Rightarrow> (string \<times> string) list" where
  "passiveDefaultHashes hashTree =
     js_map_of (map (\<lambda>t. (tree_id t, hashTree t)) [BUILTIN_ASSIST_TREE, BUILTIN_SYSTEM_TREE])"

definition planTracksSteps :: "(WorkflowTreeDefinition \<Rightarrow> string) \<Rightarrow> EnterpriseRunPlan \<Rightarrow> bool" where
  "planTracksSteps hashTree plan = (case map_of (passiveDefaultHashes hashTree) (treeId plan) of
     None \<Rightarrow> True | Some passive \<Rightarrow> treeHash plan \<noteq> Some passive)"


section \<open>What the flattening plans\<close>

definition plan_node :: "nat \<times> WorkflowNodeDefinition \<times> string option \<Rightarrow> EnterprisePlanNode" where
  "plan_node = (\<lambda>(k, n, p). \<lparr> nodeId = wn_id n, parentId = p, seq = k, node_title = wn_title n,
     node_description = wn_description n, ontology = node_binding n \<rparr>)"

text \<open>The nodes the visit keeps with the parent it gives them, in the order it plans them.\<close>

fun kept :: "WorkflowNodeDefinition \<Rightarrow> (string \<Rightarrow> bool) \<Rightarrow> string option \<Rightarrow> (WorkflowNodeDefinition \<times> string option) list" where
  "kept (WorkflowNode i t d ont cs) keep parent =
     (if keep i then (WorkflowNode i t d ont cs, parent) #
        (case cs of None \<Rightarrow> [] | Some ks \<Rightarrow> concat (map (\<lambda>c. kept c keep (Some i)) ks)) else [])"

lemma kept_eq: "kept n keep parent = (if keep (wn_id n)
    then (n, parent) # concat (map (\<lambda>c. kept c keep (Some (wn_id n))) (node_children n)) else [])"
  by (cases n) (simp add: node_children_def opt_list_def split: option.split)

lemma flatten_visit_eq: "flatten_visit n keep parent acc = (if keep (wn_id n)
    then fold (\<lambda>c acc. flatten_visit c keep (Some (wn_id n)) acc) (node_children n)
      (acc @ [plan_node (length acc, n, parent)]) else acc)"
  by (cases n) (simp add: node_children_def plan_node_def node_binding_def Let_def split: option.split)

lemma flatten_visit_kept:
  "flatten_visit n keep parent acc = acc @ map plan_node (enumerate (length acc) (kept n keep parent))"
proof (induction n arbitrary: parent acc rule: node_induct)
  case (node n)
  have children: "fold (\<lambda>c acc. flatten_visit c keep p acc) cs acc
      = acc @ map plan_node (enumerate (length acc) (concat (map (\<lambda>c. kept c keep p) cs)))"
    if "set cs \<subseteq> set (node_children n)" for cs p acc
    using that by (induction cs arbitrary: acc) (auto simp: node.IH enumerate_append_eq)
  show ?case
    by (simp add: flatten_visit_eq [of n] kept_eq [of n] children)
qed

lemma flattenPlanNodes_kept: "flattenPlanNodes n keep
    = map plan_node (enumerate 0 (kept n (case keep of None \<Rightarrow> (\<lambda>_. True) | Some ids \<Rightarrow> (\<lambda>i. i \<in> set ids)) None))"
  by (simp add: flattenPlanNodes_def flatten_visit_kept)

lemma kept_subseq: "subseq (map (wn_id \<circ> fst) (kept n keep parent)) (filter keep (tree_ids n))"
proof (induction n arbitrary: parent rule: node_induct)
  case (node n)
  have "subseq (concat (map (\<lambda>c. map (wn_id \<circ> fst) (kept c keep p)) cs)) (concat (map (\<lambda>c. filter keep (tree_ids c)) cs))"
    if "set cs \<subseteq> set (node_children n)" for cs p
    using that by (induction cs) (auto intro: list_emb_append_mono node.IH)
  from this [of "node_children n"] show ?case
    by (simp add: kept_eq [of n] tree_ids_eq [of n] map_concat filter_concat comp_def)
qed

lemma kept_all:
  assumes "\<And>a x. a \<in> set (walkWorkflowNodes n) \<Longrightarrow> x \<in> set (tree_ids a) \<Longrightarrow> keep x \<Longrightarrow> keep (wn_id a)"
  shows "map (wn_id \<circ> fst) (kept n keep parent) = filter keep (tree_ids n)"
  using assms
proof (induction n arbitrary: parent rule: node_induct)
  case (node n)
  have below: "map (wn_id \<circ> fst) (kept c keep p) = filter keep (tree_ids c)" if "c \<in> set (node_children n)" for c p
    using that node.prems by (intro node.IH) (auto simp: walkWorkflowNodes_eq [of n])
  show ?case
  proof (cases "keep (wn_id n)")
    case True
    with below show ?thesis
      by (simp add: kept_eq [of n] tree_ids_eq [of n] map_concat filter_concat comp_def cong: map_cong)
  next
    case False
    with node.prems [OF walk_root] have "filter keep (tree_ids n) = []" by (auto simp: filter_empty_conv)
    with False show ?thesis by (simp add: kept_eq [of n])
  qed
qed

lemma concat_splitD:
  "concat yss = xs @ y # zs \<Longrightarrow> \<exists>pre l post u v. yss = pre @ l # post \<and> l = u @ y # v \<and> xs = concat pre @ u"
proof (induction yss arbitrary: xs)
  case (Cons ys yss)
  then have "ys @ concat yss = xs @ y # zs" by simp
  then consider us where "ys = xs @ us" "us @ concat yss = y # zs" | us where "ys @ us = xs" "concat yss = us @ y # zs"
    by (auto simp: append_eq_append_conv2)
  then show ?case
  proof cases
    case 1
    show ?thesis
    proof (cases us)
      case Nil
      with 1 Cons.IH [of "[]"] obtain pre l post u v where
        "yss = pre @ l # post" "l = u @ y # v" "[] = concat pre @ u" by auto
      with 1 Nil show ?thesis
        by (intro exI [of _ "ys # pre"] exI [of _ l] exI [of _ post] exI [of _ u] exI [of _ v]) simp
    next
      case (Cons w ws)
      with 1 show ?thesis
        by (intro exI [of _ "[]"] exI [of _ ys] exI [of _ yss] exI [of _ xs] exI [of _ ws]) simp
    qed
  next
    case 2
    from Cons.IH [OF 2(2)] obtain pre l post u v where
      "yss = pre @ l # post" "l = u @ y # v" "us = concat pre @ u" by auto
    with 2 show ?thesis
      by (intro exI [of _ "ys # pre"] exI [of _ l] exI [of _ post] exI [of _ u] exI [of _ v]) simp
  qed
qed simp

text \<open>A kept node comes after the node it names as its parent, the first one apart.\<close>

lemma kept_parents:
  "kept n keep parent = xs @ (m, q) # ys \<Longrightarrow> (xs = [] \<and> q = parent) \<or> (\<exists>a \<in> fst ` set xs. q = Some (wn_id a))"
proof (induction n arbitrary: parent xs ys rule: node_induct)
  case (node n)
  show ?case
  proof (cases xs)
    case Nil
    with node.prems show ?thesis by (auto simp: kept_eq [of n] split: if_splits)
  next
    case (Cons x xs')
    with node.prems have x: "x = (n, parent)"
      and rest: "concat (map (\<lambda>c. kept c keep (Some (wn_id n))) (node_children n)) = xs' @ (m, q) # ys"
      by (auto simp: kept_eq [of n] split: if_splits)
    from concat_splitD [OF rest] obtain pre l post u v where
      l: "map (\<lambda>c. kept c keep (Some (wn_id n))) (node_children n) = pre @ l # post" "l = u @ (m, q) # v" "xs' = concat pre @ u"
      by blast
    have "l \<in> set (map (\<lambda>c. kept c keep (Some (wn_id n))) (node_children n))" unfolding l(1) by simp
    then obtain c where c: "c \<in> set (node_children n)" "kept c keep (Some (wn_id n)) = u @ (m, q) # v"
      using l(2) by auto
    from node.IH [OF c] show ?thesis using Cons x l(3) by auto
  qed
qed

text \<open>
  What holds of every plan: at least one step, distinct step ids, sequence numbers that count from
  zero, a first step that is the active one and has no parent, and every other step after its parent.
\<close>

definition plan_steps_ok :: "EnterprisePlanNode list \<Rightarrow> bool" where
  "plan_steps_ok ns \<longleftrightarrow> ns \<noteq> [] \<and> distinct (map nodeId ns) \<and> map seq ns = [0..<length ns] \<and> parentId (hd ns) = None
     \<and> (\<forall>i < length ns. i \<noteq> 0 \<longrightarrow> (\<exists>j < i. parentId (ns ! i) = Some (nodeId (ns ! j))))"

lemma subseq_distinct: "subseq xs ys \<Longrightarrow> distinct ys \<Longrightarrow> distinct xs"
  by (auto simp: subseq_conv_nths intro: distinct_nthsI)

lemma subseq_sorted: "subseq xs ys \<Longrightarrow> sorted ys \<Longrightarrow> sorted xs"
  by (induction rule: list_emb.induct) (auto dest: list_emb_set)

lemma steps_of_kept: "map nodeId (map plan_node (enumerate k xs)) = map (wn_id \<circ> fst) xs"
  by (induction xs arbitrary: k) (auto simp: plan_node_def)

lemma seq_of_kept: "map seq (map plan_node (enumerate k xs)) = [k..<k + length xs]"
  by (induction xs arbitrary: k) (auto simp: plan_node_def upt_rec)

lemma flatten_steps_ok:
  assumes "distinct (tree_ids n)" "keep = None \<or> wn_id n \<in> set (opt_list keep)"
  shows "plan_steps_ok (flattenPlanNodes n keep)" "nodeId (hd (flattenPlanNodes n keep)) = wn_id n"
proof -
  let ?keep = "case keep of None \<Rightarrow> (\<lambda>_. True) | Some ids \<Rightarrow> (\<lambda>i. i \<in> set ids)"
  let ?ks = "kept n ?keep None"
  have ids: "map nodeId (flattenPlanNodes n keep) = map (wn_id \<circ> fst) ?ks"
    by (simp only: flattenPlanNodes_kept steps_of_kept)
  have seqs: "map seq (flattenPlanNodes n keep) = [0..<length ?ks]"
    using seq_of_kept [of 0 ?ks] by (simp only: flattenPlanNodes_kept) simp
  have len: "length (flattenPlanNodes n keep) = length ?ks" using ids by (metis length_map)
  have at: "flattenPlanNodes n keep ! i = plan_node (i, ?ks ! i)" if "i < length ?ks" for i
    using that by (simp add: flattenPlanNodes_kept nth_enumerate_eq)
  have root: "?keep (wn_id n)" using assms(2) by (cases keep) auto
  then obtain rest where first: "?ks = (n, None) # rest" by (simp add: kept_eq [of n])
  then have ne: "flattenPlanNodes n keep \<noteq> []" using len by auto
  have hd: "hd (flattenPlanNodes n keep) = plan_node (0, n, None)"
    using at [of 0] first ne by (simp add: hd_conv_nth)
  then show "nodeId (hd (flattenPlanNodes n keep)) = wn_id n" by (simp add: plan_node_def)
  have "distinct (map nodeId (flattenPlanNodes n keep))"
    unfolding ids using kept_subseq [of n ?keep None] assms(1) by (metis distinct_filter subseq_distinct)
  moreover have "\<exists>j < i. parentId (flattenPlanNodes n keep ! i) = Some (nodeId (flattenPlanNodes n keep ! j))"
    if i: "i < length (flattenPlanNodes n keep)" "i \<noteq> 0" for i
  proof -
    obtain m q where mq: "?ks ! i = (m, q)" by fastforce
    have "?ks = take i ?ks @ (m, q) # drop (Suc i) ?ks" using i(1) len mq by (metis id_take_nth_drop)
    from kept_parents [OF this] i first obtain a where "a \<in> fst ` set (take i ?ks)" "q = Some (wn_id a)"
      by (cases i) auto
    then obtain j where "j < i" "q = Some (wn_id (fst (?ks ! j)))"
      using i(1) len by (auto simp: in_set_conv_nth)
    with i len at mq show ?thesis
      by (intro exI [of _ j]) (simp add: plan_node_def case_prod_unfold)
  qed
  ultimately show "plan_steps_ok (flattenPlanNodes n keep)"
    unfolding plan_steps_ok_def using ne seqs len hd by (simp add: plan_node_def)
qed

text \<open>A set of steps closed under going to the parent is planned whole.\<close>

lemma walk_trans: "a \<in> set (walkWorkflowNodes n) \<Longrightarrow> set (walkWorkflowNodes a) \<subseteq> set (walkWorkflowNodes n)"
proof (induction n rule: node_induct)
  case (node n)
  then show ?case by (auto simp: walkWorkflowNodes_eq [of n])
qed

lemma selected_ids_closed:
  assumes "unique_ids tree" "a \<in> set (walkWorkflowNodes (tree_root tree))" "x \<in> set (tree_ids a)"
    "x \<in> selected_ids tree routes"
  shows "wn_id a \<in> selected_ids tree routes"
proof -
  from assms(4) obtain r b where b: "r \<in> set routes" "b \<in> set (walkWorkflowNodes (tree_root tree))"
    "x = wn_id b" "trim r \<in> set (tree_ids b)" by (auto simp: selected_ids_def above_def)
  from assms(3) obtain b' where b': "b' \<in> set (walkWorkflowNodes a)" "x = wn_id b'" by (auto simp: tree_ids_def)
  have "inj_on wn_id (set (walkWorkflowNodes (tree_root tree)))"
    using assms(1) by (auto simp: unique_ids_def tree_ids_def distinct_map)
  with b b' walk_trans [OF assms(2)] have "b' = b" by (auto dest: inj_onD)
  with b'(1) b(4) walk_trans have "trim r \<in> set (tree_ids a)" by (fastforce simp: tree_ids_def)
  with b(1) assms(2) show ?thesis by (auto simp: selected_ids_def above_def)
qed

lemma root_selected: "valid_routes tree routes \<Longrightarrow> routes \<noteq> [] \<Longrightarrow> wn_id (tree_root tree) \<in> selected_ids tree routes"
  by (cases routes) (auto simp: valid_routes_def selected_ids_def above_def)

lemma selected_subset: "selected_ids tree routes \<subseteq> set (tree_ids (tree_root tree))"
  by (auto simp: selected_ids_def above_def tree_ids_def)

text \<open>The order of the steps of a tree is depth first; a route keeps the steps it selects in that order.\<close>

lemma flatten_ids_closed:
  assumes "\<And>a x. a \<in> set (walkWorkflowNodes n) \<Longrightarrow> x \<in> set (tree_ids a) \<Longrightarrow> x \<in> set ids \<Longrightarrow> wn_id a \<in> set ids"
  shows "map nodeId (flattenPlanNodes n (Some ids)) = filter (\<lambda>i. i \<in> set ids) (tree_ids n)"
  unfolding flattenPlanNodes_kept steps_of_kept using assms by (intro trans [OF kept_all]) auto

lemma flatten_ids_all: "map nodeId (flattenPlanNodes n None) = tree_ids n"
  unfolding flattenPlanNodes_kept steps_of_kept using kept_all [of n "\<lambda>_. True" None] by simp

lemma flatten_matches_route:
  assumes "distinct (tree_ids n)" "distinct ids" "length (flattenPlanNodes n (Some ids)) = length ids"
  shows "map nodeId (flattenPlanNodes n (Some ids)) = filter (\<lambda>i. i \<in> set ids) (tree_ids n)"
    "set (map nodeId (flattenPlanNodes n (Some ids))) = set ids"
proof -
  let ?steps = "map nodeId (flattenPlanNodes n (Some ids))" let ?all = "filter (\<lambda>i. i \<in> set ids) (tree_ids n)"
  have sub: "subseq ?steps ?all"
    using kept_subseq [of n "\<lambda>i. i \<in> set ids" None] by (simp only: flattenPlanNodes_kept steps_of_kept option.case)
  have "distinct ?steps" using sub assms(1) by (metis distinct_filter subseq_distinct)
  moreover have "set ?steps \<subseteq> set ids"
  proof -
    from sub obtain N where "?steps = nths ?all N" by (auto simp: subseq_conv_nths)
    then have "set ?steps \<subseteq> set ?all" by (metis set_nths_subset)
    then show ?thesis by auto
  qed
  ultimately show set: "set ?steps = set ids"
    using assms(2,3) by (metis card_subset_eq distinct_card finite_set length_map)
  have "length ?all = card (set ?all)" using assms(1) by (metis distinct_card distinct_filter)
  also have "\<dots> \<le> card (set ids)" by (rule card_mono) auto
  also have "\<dots> = length ?steps" using assms(2,3) by (simp add: distinct_card)
  finally show "?steps = ?all" using sub by (metis list_emb_length le_antisym subseq_same_length)
qed

lemma plan_record_simps [simp]:
  "nodes (plan_record redact hashTree collate params ids planned) = planned"
  "activeNodeId (plan_record redact hashTree collate params ids planned) = nodeId (hd planned)"
  "requestSummary (plan_record redact hashTree collate params ids planned) = summarizeRequestText redact (rq_requestText params)"
  "treeRationale (plan_record redact hashTree collate params ids planned) =
     (if opt_list (rq_treeRationale params) = [] then None
      else map_option (summarizeModelText redact) (rq_treeRationale params))"
  "plan_route (plan_record redact hashTree collate params ids planned) =
     map_option (plan_route_of redact ids (length planned) (countTreeNodes (rq_tree params))) (rq_route params)"
  by (simp_all add: plan_record_def Let_def)

lemma build_plan_record:
  "buildEnterpriseRunPlan redact hashTree collate params = Inr plan \<Longrightarrow>
   \<exists>ids planned. plan = plan_record redact hashTree collate params ids planned"
  by (auto simp: buildEnterpriseRunPlan_def Let_def split: if_split_asm)

lemma length_summarize: "1 \<le> limit \<Longrightarrow> length (summarize limit redact text) \<le> limit"
  by (simp add: summarize_def Let_def)

lemma summarize_redacted: "redact text = redact text' \<Longrightarrow> summarize limit redact text = summarize limit redact text'"
  by (simp add: summarize_def)

lemma mset_insert_by: "mset (insert_by compare x xs) = add_mset x (mset xs)"
  by (induction xs) auto

lemma mset_sort_by [simp]: "mset (sort_by compare xs) = mset xs"
  unfolding sort_by_def by (induction xs) (simp_all add: mset_insert_by)

lemma set_sort_by [simp]: "set (sort_by compare xs) = set xs"
  using mset_sort_by by (metis set_mset_mset)

text \<open>Sorting by a comparison sorts by every order that the comparison decides.\<close>

lemma sorted_insert_by:
  assumes "\<And>x y. compare x y \<le> 0 \<Longrightarrow> R x y" "\<And>x y. 0 < compare x y \<Longrightarrow> R y x" "transp R" "sorted_wrt R xs"
  shows "sorted_wrt R (insert_by compare x xs)"
  using assms(4)
proof (induction xs)
  case (Cons y ys)
  have mem: "set (insert_by compare x ys) = insert x (set ys)"
    by (metis mset_insert_by set_mset_add_mset_insert set_mset_mset)
  show ?case
  proof (cases "compare x y \<le> 0")
    case True
    with Cons.prems assms(1,3) show ?thesis by (auto dest: transpD)
  next
    case False
    with Cons assms(2) mem show ?thesis by auto
  qed
qed simp

lemma sorted_sort_by:
  assumes "\<And>x y. compare x y \<le> 0 \<Longrightarrow> R x y" "\<And>x y. 0 < compare x y \<Longrightarrow> R y x" "transp R"
  shows "sorted_wrt R (sort_by compare xs)"
  unfolding sort_by_def by (induction xs) (auto intro: sorted_insert_by [OF assms])

lemma finished_prefix_take: "set (take (finished_prefix steps completed) steps) \<subseteq> set completed"
  by (induction steps) auto

lemma finished_prefix_next:
  "finished_prefix steps completed < length steps \<Longrightarrow> steps ! finished_prefix steps completed \<notin> set completed"
  by (induction steps) (auto split: if_splits)

definition takes_routes :: "WorkflowTreeDefinition \<Rightarrow> EnterpriseRouteSelection \<Rightarrow> string list \<Rightarrow> bool" where
  "takes_routes tree route routes \<longleftrightarrow> valid_routes tree routes \<and> routes \<noteq> []
    \<and> (case rs_nodeIds route of
        None \<Rightarrow> selected_ids tree routes = set (tree_ids (tree_root tree))
      | Some ids \<Rightarrow> distinct ids \<and> set ids = selected_ids tree routes)"

lemma resolved_route_planned:
  assumes "unique_ids (rq_tree params)" "takes_routes (rq_tree params) route routes" "rq_route params = Some route"
  shows "\<exists>plan. buildEnterpriseRunPlan redact hashTree collate params = Inr plan
    \<and> enterpriseStepSequence plan
        = filter (\<lambda>i. i \<in> selected_ids (rq_tree params) routes) (tree_ids (tree_root (rq_tree params)))
    \<and> plan_steps_ok (nodes plan) \<and> activeNodeId plan = wn_id (tree_root (rq_tree params))"
proof -
  let ?tree = "rq_tree params" let ?root = "tree_root (rq_tree params)"
  note c = assms(2) [unfolded takes_routes_def]
  from c have root: "wn_id ?root \<in> selected_ids ?tree routes" by (simp add: root_selected)
  from assms(1) have d: "distinct (tree_ids ?root)" by (simp add: unique_ids_def)
  have sel: "map nodeId (flattenPlanNodes ?root (rs_nodeIds route))
      = filter (\<lambda>i. i \<in> selected_ids ?tree routes) (tree_ids ?root)"
  proof (cases "rs_nodeIds route")
    case None
    with c have "selected_ids ?tree routes = set (tree_ids ?root)" by simp
    then show ?thesis by (simp add: None flatten_ids_all)
  next
    case (Some ids)
    with c have ids: "set ids = selected_ids ?tree routes" by simp
    have "wn_id a \<in> set ids" if "a \<in> set (walkWorkflowNodes ?root)" "x \<in> set (tree_ids a)" "x \<in> set ids" for a x
      using selected_ids_closed [OF assms(1) that(1,2), of routes] that(3) ids by simp
    from flatten_ids_closed [OF this] show ?thesis by (simp add: Some ids)
  qed
  have "rs_nodeIds route = None \<or> wn_id ?root \<in> set (opt_list (rs_nodeIds route))"
    using c root by (cases "rs_nodeIds route") auto
  note ok = flatten_steps_ok [OF d this]
  have len: "length (flattenPlanNodes ?root (Some ids)) = length ids" if "rs_nodeIds route = Some ids" for ids
  proof -
    from that c have ids: "distinct ids" "set ids = selected_ids ?tree routes" by auto
    have "length (flattenPlanNodes ?root (Some ids)) = length (filter (\<lambda>i. i \<in> set ids) (tree_ids ?root))"
      using sel that ids(2) by (metis length_map)
    also have "\<dots> = card (set ids)"
    proof -
      have "set (filter (\<lambda>i. i \<in> set ids) (tree_ids ?root)) = set ids"
        using selected_subset [of ?tree routes] ids(2) by auto
      then show ?thesis using d by (metis distinct_card distinct_filter)
    qed
    finally show ?thesis using ids(1) by (simp add: distinct_card)
  qed
  show ?thesis
  proof (cases "rs_nodeIds route")
    case None
    then show ?thesis using sel ok assms(3)
      by (simp add: buildEnterpriseRunPlan_def enterpriseStepSequence_def Let_def)
  next
    case (Some ids)
    with c root have "wn_id ?root \<in> set ids" by simp
    then show ?thesis using sel ok assms(3) Some len
      by (simp add: buildEnterpriseRunPlan_def enterpriseStepSequence_def Let_def)
  qed
qed


lemma single_node_plan:
  assumes "countTreeNodes (rq_tree params) \<le> 1" "rq_route params = Some route" "rs_nodeIds route = None"
  shows "\<exists>plan. buildEnterpriseRunPlan redact hashTree collate params = Inr plan
    \<and> enterpriseStepSequence plan = tree_ids (tree_root (rq_tree params)) \<and> plan_steps_ok (nodes plan)"
proof -
  have "distinct (tree_ids (tree_root (rq_tree params)))"
    using assms(1) by (cases "tree_ids (tree_root (rq_tree params))") (auto simp: countTreeNodes_ids)
  from flatten_steps_ok [OF this, of None] assms(2,3) show ?thesis
    by (simp add: buildEnterpriseRunPlan_def enterpriseStepSequence_def flatten_ids_all Let_def)
qed

lemma builtin_tree_serves [simp]:
  "trigger \<in> set (tree_triggers BUILTIN_ASSIST_TREE) \<longleftrightarrow> trigger \<noteq> TrigSystem"
  "trigger \<in> set (tree_triggers BUILTIN_SYSTEM_TREE) \<longleftrightarrow> trigger = TrigSystem"
  by (cases trigger; simp add: tree_triggers_def BUILTIN_ASSIST_TREE_def BUILTIN_SYSTEM_TREE_def)+

lemma builtin_ids [simp]:
  "unique_ids BUILTIN_ASSIST_TREE" "unique_ids BUILTIN_SYSTEM_TREE"
  by code_simp+

lemma candidates_cases:
  "t \<in> insert (wc_defaultTree (collectWorkflowTreeCandidates collate trigger trees))
      (set (wc_candidates (collectWorkflowTreeCandidates collate trigger trees)))
   \<Longrightarrow> (t \<in> set trees \<and> trigger \<in> set (tree_triggers t))
     \<or> t = wc_defaultTree (collectWorkflowTreeCandidates collate trigger trees)"
  by (auto simp: collectWorkflowTreeCandidates_def Let_def split: if_splits)

lemma default_tree_cases:
  "wc_defaultTree (collectWorkflowTreeCandidates collate trigger trees)
   \<in> set trees \<union> {BUILTIN_ASSIST_TREE, BUILTIN_SYSTEM_TREE}"
  by (auto simp: collectWorkflowTreeCandidates_def Let_def dest: find_Some_mem split: option.split)

section \<open>Properties\<close>

definition sample_request :: "EnterpriseRouteSelection option \<Rightarrow> RunPlanRequest" where
  "sample_request route = \<lparr> rq_runId = ''r1'', rq_requestText = ''pay claim 7'', rq_mode = ModeEnforce,
     rq_tree = sample_tree, rq_matchedBy = SourcePlanner, rq_treeRationale = Some ''it is a claim'',
     rq_route = route, rq_now = 5 \<rparr>"

definition sample_route :: EnterpriseRouteSelection where
  "sample_route = \<lparr> rs_routes = [''pay''], rs_nodeIds = Some [''pay'', ''triage'', ''intake''],
     rs_rationale = ''selected pay'', rs_source = RoutePlanner, rs_invalidRoutes = [] \<rparr>"

lemma sample_tree_ids: "unique_ids sample_tree" "rq_tree (sample_request r) = sample_tree" "rq_route (sample_request r) = r"
  by (code_simp, simp_all add: sample_request_def)

text \<open>
  From a request to its plan: when the work-maps of the registry have steps with ids of their own, a
  selection that goes on to execute is always planned. The bound tree serves the run's trigger or is the
  trigger's default, the steps are the whole tree's when it has a single step and otherwise exactly those
  leading to the endpoints the planner named, in the tree's depth-first order, and the plan is well formed
  (distinct steps, sequence numbers that count from zero, every step after its parent).
\<close>

theorem executing_runs_are_planned:
  assumes "list_all unique_ids trees" "cands = collectWorkflowTreeCandidates collate trigger trees"
    "selectWorkflowPlan (wc_candidates cands) (wc_defaultTree cands) requestText planner = Some sel"
    "sel_next sel = NextExecute" "rq_tree params = sel_tree sel" "rq_route params = Some (sel_route sel)"
  shows "(trigger \<in> set (tree_triggers (sel_tree sel)) \<or> sel_tree sel = wc_defaultTree cands)
    \<and> (\<exists>plan. buildEnterpriseRunPlan redact hashTree collate params = Inr plan \<and> plan_steps_ok (nodes plan)
        \<and> (countTreeNodes (sel_tree sel) \<le> 1 \<or> (\<exists>routes. valid_routes (sel_tree sel) routes
             \<and> enterpriseStepSequence plan
               = filter (\<lambda>i. i \<in> selected_ids (sel_tree sel) routes) (tree_ids (tree_root (sel_tree sel))))))"
proof -
  let ?c = "wc_candidates cands" let ?d = "wc_defaultTree cands"
  have u: "list_all unique_ids (?d # ?c)"
    using assms(1,2) candidates_cases [of _ collate trigger trees] default_tree_cases [of collate trigger trees]
    by (fastforce simp: list_all_iff)
  then have uc: "list_all unique_ids ?c" by simp
  have mem: "sel_tree sel \<in> insert ?d (set ?c)"
    using selectWorkflowPlan_ok [OF uc, of ?d requestText planner] assms(3) by (simp add: selection_ok_def)
  then have serves: "trigger \<in> set (tree_triggers (sel_tree sel)) \<or> sel_tree sel = ?d"
    using candidates_cases assms(2) by blast
  from executing_selection [OF uc assms(3,4)]
  consider (single) "countTreeNodes (sel_tree sel) \<le> 1" "rs_nodeIds (sel_route sel) = None"
    | (route) routes where "takes_routes (sel_tree sel) (sel_route sel) routes"
    unfolding takes_routes_def by (elim disjE exE conjE) simp_all
  then show ?thesis
  proof cases
    case single
    then show ?thesis using single_node_plan [of params "sel_route sel" redact hashTree collate] assms(5,6) serves by auto
  next
    case route
    have "unique_ids (rq_tree params)" using u mem assms(5) by (auto simp: list_all_iff)
    from resolved_route_planned [OF this, of "sel_route sel" routes redact hashTree collate] route assms(5,6)
    obtain plan where "buildEnterpriseRunPlan redact hashTree collate params = Inr plan" "plan_steps_ok (nodes plan)"
      "enterpriseStepSequence plan
        = filter (\<lambda>i. i \<in> selected_ids (sel_tree sel) routes) (tree_ids (tree_root (sel_tree sel)))"
      by auto
    moreover have "valid_routes (sel_tree sel) routes" using route by (simp add: takes_routes_def)
    ultimately show ?thesis using serves by blast
  qed
qed

theorem executing_runs_witness:
  "\<exists>sel plan. selectWorkflowPlan [sample_tree, BUILTIN_ASSIST_TREE] BUILTIN_ASSIST_TREE ''pay claim 7''
        (Some (\<lambda>_ _ _. Answered (Decided (Some ''claims'') [''pay''] None))) = Some sel
    \<and> buildEnterpriseRunPlan id tree_id (\<lambda>_ _. 0) (sample_request (Some (sel_route sel))) = Inr plan
    \<and> plan_steps_ok (nodes plan)"
proof -
  let ?c = "collectWorkflowTreeCandidates (\<lambda>_ _. 0) TrigUser [sample_tree]"
  let ?ask = "Some (\<lambda>_ _ _. Answered (Decided (Some ''claims'') [''pay''] None))"
  have c: "wc_candidates ?c = [sample_tree, BUILTIN_ASSIST_TREE]" "wc_defaultTree ?c = BUILTIN_ASSIST_TREE"
    by code_simp+
  have "map_option (\<lambda>s. (sel_next s, tree_id (sel_tree s)))
      (selectWorkflowPlan [sample_tree, BUILTIN_ASSIST_TREE] BUILTIN_ASSIST_TREE ''pay claim 7'' ?ask)
      = Some (NextExecute, ''claims'')" by code_simp
  then obtain sel where sel: "sel_next sel = NextExecute" "tree_id (sel_tree sel) = ''claims''"
    "selectWorkflowPlan [sample_tree, BUILTIN_ASSIST_TREE] BUILTIN_ASSIST_TREE ''pay claim 7'' ?ask = Some sel" by auto
  have uc: "list_all unique_ids [sample_tree]" "list_all unique_ids [sample_tree, BUILTIN_ASSIST_TREE]" by code_simp+
  have "sel_tree sel \<in> insert BUILTIN_ASSIST_TREE (set [sample_tree, BUILTIN_ASSIST_TREE])"
    using selectWorkflowPlan_ok [OF uc(2), of BUILTIN_ASSIST_TREE "''pay claim 7''" ?ask] sel(3)
    by (simp add: selection_ok_def)
  moreover have "tree_id BUILTIN_ASSIST_TREE \<noteq> ''claims''" by (simp add: BUILTIN_ASSIST_TREE_def)
  ultimately have "sel_tree sel = sample_tree" using sel(2) by auto
  with executing_runs_are_planned [OF uc(1) refl, of "\<lambda>_ _. 0" TrigUser "''pay claim 7''" ?ask sel
      "sample_request (Some (sel_route sel))" id tree_id] sel c
  show ?thesis by (auto simp: sample_tree_ids)
qed

text \<open>
  C8. A plan never holds a step its route does not: whatever route is handed in, a plan that is built
  has exactly the steps of that route, each once, in the tree's order and after its parent. An unknown
  id or a missing predecessor is an error, not a wider plan.
\<close>

theorem plans_follow_their_route:
  assumes "unique_ids (rq_tree params)" "rq_route params = Some route" "rs_nodeIds route = Some ids" "distinct ids"
    "buildEnterpriseRunPlan redact hashTree collate params = Inr plan"
  shows "set (enterpriseStepSequence plan) = set ids
    \<and> enterpriseStepSequence plan = filter (\<lambda>i. i \<in> set ids) (tree_ids (tree_root (rq_tree params)))
    \<and> plan_steps_ok (nodes plan) \<and> activeNodeId plan = wn_id (tree_root (rq_tree params))"
proof -
  let ?root = "tree_root (rq_tree params)"
  from assms(1) have d: "distinct (tree_ids ?root)" by (simp add: unique_ids_def)
  from assms(2,3,5) have b: "wn_id ?root \<in> set ids" "length (flattenPlanNodes ?root (Some ids)) = length ids"
    "nodes plan = flattenPlanNodes ?root (Some ids)" "activeNodeId plan = nodeId (hd (nodes plan))"
    by (auto simp: buildEnterpriseRunPlan_def Let_def split: if_splits)
  from flatten_matches_route [OF d assms(4) b(2)] flatten_steps_ok [OF d, of "Some ids"] b show ?thesis
    by (simp add: enterpriseStepSequence_def)
qed

theorem plans_follow_their_route_witness:
  "\<exists>plan. buildEnterpriseRunPlan id tree_id (\<lambda>_ _. 0) (sample_request (Some sample_route)) = Inr plan
    \<and> set (enterpriseStepSequence plan) = {''pay'', ''triage'', ''intake''}"
proof -
  let ?r = "sample_request (Some sample_route)" let ?b = "buildEnterpriseRunPlan id tree_id (\<lambda>_ _. 0) ?r"
  have "isl ?b = False" by code_simp
  then obtain plan where plan: "?b = Inr plan" by (cases ?b) auto
  have route: "rs_nodeIds sample_route = Some [''pay'', ''triage'', ''intake'']" by (simp add: sample_route_def)
  have "set (enterpriseStepSequence plan) = set [''pay'', ''triage'', ''intake'']"
    by (rule plans_follow_their_route [OF _ _ route _ plan, THEN conjunct1]) (simp_all add: sample_tree_ids)
  then have "set (enterpriseStepSequence plan) = {''pay'', ''triage'', ''intake''}" by simp
  with plan show ?thesis by blast
qed

text \<open>
  Every text a plan stores about the request is redacted and bounded: no summary is longer than 300
  code units, and two requests the redaction does not distinguish have the same plan.
\<close>

theorem plan_text_redacted_and_bounded:
  assumes "buildEnterpriseRunPlan redact hashTree collate params = Inr plan"
  shows "length (requestSummary plan) \<le> 300
    \<and> (\<forall>t. treeRationale plan = Some t \<longrightarrow> length t \<le> 300)
    \<and> (\<forall>r. plan_route plan = Some r \<longrightarrow> length (rp_rationale r) \<le> 300
         \<and> (\<forall>t \<in> set (opt_list (rp_invalidRoutes r)). length t \<le> 300))
    \<and> (\<forall>text. redact text = redact (rq_requestText params) \<longrightarrow>
         buildEnterpriseRunPlan redact hashTree collate (params \<lparr> rq_requestText := text \<rparr>) = Inr plan)"
proof -
  have len: "length (summarize 300 redact t) \<le> 300" for t by (rule length_summarize) simp
  from build_plan_record [OF assms] obtain ids planned where
    plan: "plan = plan_record redact hashTree collate params ids planned" by blast
  have 1: "length (requestSummary plan) \<le> 300"
    unfolding plan plan_record_simps summarizeRequestText_def REQUEST_SUMMARY_MAX_CHARS_def by (rule len)
  have 2: "\<forall>t. treeRationale plan = Some t \<longrightarrow> length t \<le> 300"
    unfolding plan plan_record_simps by (auto simp: summarizeModelText_def MODEL_TEXT_MAX_CHARS_def len)
  have 3: "\<forall>r. plan_route plan = Some r \<longrightarrow> length (rp_rationale r) \<le> 300
         \<and> (\<forall>t \<in> set (opt_list (rp_invalidRoutes r)). length t \<le> 300)"
    unfolding plan plan_record_simps
    by (auto simp: plan_route_of_def summarizeModelText_def MODEL_TEXT_MAX_CHARS_def len)
  have 4: "buildEnterpriseRunPlan redact hashTree collate (params \<lparr> rq_requestText := t \<rparr>) = Inr plan"
    if "redact t = redact (rq_requestText params)" for t
  proof -
    have "plan_record redact hashTree collate (params \<lparr> rq_requestText := t \<rparr>)
        = plan_record redact hashTree collate params"
      using summarize_redacted [of redact, OF that]
      by (intro ext) (simp add: plan_record_def summarizeRequestText_def)
    moreover have "rq_tree (params \<lparr> rq_requestText := t \<rparr>) = rq_tree params"
      "rq_route (params \<lparr> rq_requestText := t \<rparr>) = rq_route params" by simp_all
    ultimately have "buildEnterpriseRunPlan redact hashTree collate (params \<lparr> rq_requestText := t \<rparr>)
        = buildEnterpriseRunPlan redact hashTree collate params"
      by (simp only: buildEnterpriseRunPlan_def)
    with assms show ?thesis by simp
  qed
  from 1 2 3 4 show ?thesis by blast
qed

theorem plan_text_witness:
  "\<exists>plan. buildEnterpriseRunPlan (\<lambda>_. ''[redacted]'') tree_id (\<lambda>_ _. 0) (sample_request None) = Inr plan
    \<and> length (requestSummary plan) \<le> 300"
proof -
  let ?b = "buildEnterpriseRunPlan (\<lambda>_. ''[redacted]'') tree_id (\<lambda>_ _. 0) (sample_request None)"
  have "isl ?b = False" by code_simp
  then obtain plan where plan: "?b = Inr plan" by (cases ?b) auto
  from plan_text_redacted_and_bounded [OF this] plan show ?thesis by blast
qed

text \<open>
  Which trees a request can be bound to: every tree that serves the trigger, in order of descending
  priority, and the default, which is always among them; nothing else, so a run of one trigger class
  is never bound to a work-map of another.
\<close>

theorem candidates_serve_the_trigger:
  "set (wc_candidates (collectWorkflowTreeCandidates collate trigger trees))
      \<union> {wc_defaultTree (collectWorkflowTreeCandidates collate trigger trees)}
    = {t \<in> set trees. trigger \<in> set (tree_triggers t)}
      \<union> {wc_defaultTree (collectWorkflowTreeCandidates collate trigger trees)}
   \<and> (\<exists>t \<in> set (wc_candidates (collectWorkflowTreeCandidates collate trigger trees)).
        tree_id t = tree_id (wc_defaultTree (collectWorkflowTreeCandidates collate trigger trees)))
   \<and> (\<exists>serving extra. wc_candidates (collectWorkflowTreeCandidates collate trigger trees) = serving @ extra
        \<and> sorted_wrt (\<lambda>l r. tree_priority r \<le> tree_priority l) serving
        \<and> (extra = [] \<or> extra = [wc_defaultTree (collectWorkflowTreeCandidates collate trigger trees)]))"
proof -
  define found where "found = sort_by (compare_trees collate) (filter (\<lambda>t. trigger \<in> set (tree_triggers t)) trees)"
  define default where "default = wc_defaultTree (collectWorkflowTreeCandidates collate trigger trees)"
  have set: "set found = {t \<in> set trees. trigger \<in> set (tree_triggers t)}" by (simp add: found_def)
  have sorted: "sorted_wrt (\<lambda>l r. tree_priority r \<le> tree_priority l) found"
    unfolding found_def
    by (rule sorted_sort_by) (auto simp: compare_trees_def Let_def transp_def split: if_splits)
  have c: "wc_candidates (collectWorkflowTreeCandidates collate trigger trees)
      = (if list_ex (\<lambda>t. tree_id t = tree_id default) found then found else found @ [default])"
    by (simp add: collectWorkflowTreeCandidates_def default_def found_def Let_def)
  show ?thesis unfolding default_def [symmetric] c
    using set sorted by (auto simp: list_ex_iff)
qed

text \<open>
  Resuming never skips work: the step a resumed run opens on is unfinished and every step before it
  is finished; it is absent exactly when the first step is unfinished or no step is.
\<close>

theorem resume_skips_no_unfinished_step:
  "(\<forall>step. firstUnfinishedStep steps completed = Some step \<longrightarrow>
      (\<exists>k. 0 < k \<and> k < length steps \<and> steps ! k = step \<and> step \<notin> set completed \<and> set (take k steps) \<subseteq> set completed))
   \<and> (firstUnfinishedStep steps completed = None \<longleftrightarrow>
      steps = [] \<or> hd steps \<notin> set completed \<or> set steps \<subseteq> set completed)"
proof -
  let ?k = "finished_prefix steps completed"
  have le: "?k \<le> length steps" by (induction steps) auto
  have "\<exists>k. 0 < k \<and> k < length steps \<and> steps ! k = step \<and> step \<notin> set completed \<and> set (take k steps) \<subseteq> set completed"
    if "firstUnfinishedStep steps completed = Some step" for step
    using that finished_prefix_take [of steps completed] finished_prefix_next [of steps completed]
    by (auto simp: firstUnfinishedStep_def Let_def split: if_splits)
  moreover have "?k = 0 \<longleftrightarrow> steps = [] \<or> hd steps \<notin> set completed" by (cases steps) auto
  moreover have "?k = length steps \<longleftrightarrow> set steps \<subseteq> set completed"
    using finished_prefix_take [of steps completed] finished_prefix_next [of steps completed] le
    by (metis le_neq_implies_less nth_mem subsetD take_all_iff)
  ultimately show ?thesis using le by (auto simp: firstUnfinishedStep_def Let_def)
qed

theorem resume_witness:
  "firstUnfinishedStep [''intake'', ''triage'', ''pay''] [''intake''] = Some ''triage''
   \<and> (\<exists>k. 0 < k \<and> k < 3 \<and> [''intake'', ''triage'', ''pay''] ! k = ''triage'' \<and> ''triage'' \<notin> set [''intake'']
       \<and> set (take k [''intake'', ''triage'', ''pay'']) \<subseteq> set [''intake''])"
proof -
  have *: "firstUnfinishedStep [''intake'', ''triage'', ''pay''] [''intake''] = Some ''triage''" by code_simp
  from resume_skips_no_unfinished_step [of "[''intake'', ''triage'', ''pay'']" "[''intake'']"] * show ?thesis
    by (metis One_nat_def Suc_1 length_Cons list.size(3) numeral_3_eq_3)
qed

end
