(* ===== verification/Active_Runs.thy ===== *)
theory Active_Runs
  imports Run_Plan Governance_Laws
begin

text \<open>
  The process-local registry of \<^verbatim>\<open>src/enterprise/active-runs.ts\<close>: the active runs by run id, the run
  each session executes, and the questions launch-time callers ask of a run. A run object is shared by
  reference in the source and only ever reached through the registry under its plan's run id, so an
  assignment to a field of it is an update of its entry.

  The trace sink of a run is a callback that must never throw, made for one execution of it; what it
  receives is appended to \<open>trace\<close> under the run and its execution. Whether a run has a sink is a field of
  the run.
\<close>

section \<open>Events and runs\<close>

datatype SteerOrigin = OriginUser | OriginRuntime

datatype ActionWrite =
    DispatchedCall string
  | ObjectWrite EnterpriseId string EffectKind
  | LinkWrite EnterpriseId string string LinkKind

record DecisionRecord =
  dr_toolName :: string
  dr_actionId :: "string option"
  dr_toolCallId :: "string option"
  dr_effect :: GovernanceEffect
  dr_enforced :: bool
  dr_approved :: "(bool \<times> string) option"
  dr_policyId :: "string option"
  dr_source :: DecisionSource
  dr_reason :: string

datatype TraceEvent =
    GovernanceDecided (te_node: string) DecisionRecord
  | NodeEntered (te_node: string) (te_seq: nat) (te_title: string) (te_call: "string option")
  | NodeCompleted (te_node: string) (te_seq: nat) (te_title: string) (te_summary: string) (te_call: "string option")
  | ActionInvoked (te_node: string) string "ActionWrite list" "(string \<times> CallArg) list"
  | RunSteered "string option" SteerOrigin string
  | NodeReopened (te_node: string) (te_seq: nat) (te_title: string) (te_from: string) (te_invalidated: "string list")
      (te_reason: string) (te_call: "string option")

record EnterpriseActiveRun =
  run_plan :: EnterpriseRunPlan
  run_executionId :: "string option"
  run_policies :: "GovernancePolicy list"
  run_mcpServers :: "string list option"
  run_sessionId :: "string option"
  run_sink :: bool
  run_treeRequiredProperties :: "(string \<times> string list) list option"
  run_routeCompleted :: "bool option"
  run_reopenCount :: "nat option"

record Registry =
  activeRuns :: "(string \<times> EnterpriseActiveRun) list"
  sessionActiveRuns :: "(string \<times> string) list"
  trace :: "((string \<times> string option) \<times> TraceEvent) list"

definition empty_registry :: Registry where
  "empty_registry = \<lparr> activeRuns = [], sessionActiveRuns = [], trace = [] \<rparr>"

text \<open>\<open>run.sink?.(event)\<close>, and an assignment to the fields of a registered run.\<close>

definition sink_key :: "EnterpriseActiveRun \<Rightarrow> string \<times> string option" where
  "sink_key run = (runId (run_plan run), run_executionId run)"

definition emit :: "EnterpriseActiveRun \<Rightarrow> TraceEvent \<Rightarrow> Registry \<Rightarrow> Registry" where
  "emit run event st = (if run_sink run then st \<lparr> trace := trace st @ [(sink_key run, event)] \<rparr> else st)"

definition set_run :: "string \<Rightarrow> EnterpriseActiveRun \<Rightarrow> Registry \<Rightarrow> Registry" where
  "set_run i run st = st \<lparr> activeRuns := AList.update i run (activeRuns st) \<rparr>"

section \<open>The registry\<close>

definition getEnterpriseActiveRun :: "Registry \<Rightarrow> string \<Rightarrow> EnterpriseActiveRun option" where
  "getEnterpriseActiveRun st i = map_of (activeRuns st) i"

definition getSessionActiveRunId :: "Registry \<Rightarrow> string \<Rightarrow> string option" where
  "getSessionActiveRunId st s = map_of (sessionActiveRuns st) s"

text \<open>A session id is used only when it is a nonempty string.\<close>

definition session_of :: "EnterpriseActiveRun \<Rightarrow> string option" where
  "session_of run = (case run_sessionId run of None \<Rightarrow> None | Some s \<Rightarrow> if s = [] then None else Some s)"

definition registerEnterpriseActiveRun :: "EnterpriseActiveRun \<Rightarrow> Registry \<Rightarrow> Registry" where
  "registerEnterpriseActiveRun run st =
     (let st' = set_run (runId (run_plan run)) run st in
      case session_of run of None \<Rightarrow> st'
      | Some s \<Rightarrow> st' \<lparr> sessionActiveRuns := AList.update s (runId (run_plan run)) (sessionActiveRuns st') \<rparr>)"

text \<open>\<open>if (sessionActiveRuns().get(s) === runId) sessionActiveRuns().delete(s)\<close>\<close>

definition drop_link :: "string option \<Rightarrow> string \<Rightarrow> (string \<times> string) list \<Rightarrow> (string \<times> string) list" where
  "drop_link session i links = (case session of None \<Rightarrow> links
     | Some s \<Rightarrow> if map_of links s = Some i then AList.delete s links else links)"

definition adoptEnterpriseActiveRunSessionId :: "string \<Rightarrow> string \<Rightarrow> Registry \<Rightarrow> Registry" where
  "adoptEnterpriseActiveRunSessionId i s st = (case getEnterpriseActiveRun st i of
     None \<Rightarrow> st
   | Some run \<Rightarrow>
       if s = [] \<or> run_sessionId run = Some s then st
       else (set_run i (run \<lparr> run_sessionId := Some s \<rparr>) st)
         \<lparr> sessionActiveRuns := AList.update s i (drop_link (session_of run) i (sessionActiveRuns st)) \<rparr>)"

definition unregisterEnterpriseActiveRun :: "string \<Rightarrow> Registry \<Rightarrow> Registry" where
  "unregisterEnterpriseActiveRun i st =
     st \<lparr> activeRuns := AList.delete i (activeRuns st),
          sessionActiveRuns := (case getEnterpriseActiveRun st i of
              None \<Rightarrow> sessionActiveRuns st
            | Some run \<Rightarrow> drop_link (session_of run) i (sessionActiveRuns st)) \<rparr>"

section \<open>Questions asked of a run\<close>

text \<open>A run id that is absent or empty names no run.\<close>

definition run_of :: "Registry \<Rightarrow> string option \<Rightarrow> EnterpriseActiveRun option" where
  "run_of st i = (case i of None \<Rightarrow> None | Some r \<Rightarrow> if r = [] then None else getEnterpriseActiveRun st r)"

definition enterpriseRunEnforces :: "Registry \<Rightarrow> string option \<Rightarrow> bool" where
  "enterpriseRunEnforces st i = (case run_of st i of None \<Rightarrow> False | Some run \<Rightarrow> plan_mode (run_plan run) = ModeEnforce)"

definition enterpriseRunGovernsToolNames :: "Registry \<Rightarrow> string option \<Rightarrow> bool" where
  "enterpriseRunGovernsToolNames st i = (case run_of st i of
     None \<Rightarrow> False
   | Some run \<Rightarrow>
       capabilityGrants (run_plan run) = Some GrantsExplicit
       \<or> list_ex (\<lambda>n. opt_list (allowedTools (ontology n)) \<noteq> [] \<or> opt_list (deniedTools (ontology n)) \<noteq> []) (nodes (run_plan run))
       \<or> list_ex (\<lambda>p. policyTargetsTree p (treeId (run_plan run))) (run_policies run))"

definition enterpriseRunGrantedSkills :: "Registry \<Rightarrow> string option \<Rightarrow> string list option" where
  "enterpriseRunGrantedSkills st i = (case run_of st i of
     None \<Rightarrow> None
   | Some run \<Rightarrow>
       if plan_mode (run_plan run) \<noteq> ModeEnforce \<or> capabilityGrants (run_plan run) \<noteq> Some GrantsExplicit then None
       else Some (opt_list (grantedSkills (run_plan run))))"

text \<open>
  \<open>Object.entries(config.mcp.servers)\<close> with an entry dropped when its \<open>enabled\<close> is \<open>false\<close>. The entries
  are the name and that field, absent when the server value has none.
\<close>

definition resolveEnterpriseMcpServers :: "(string \<times> bool option) list option \<Rightarrow> string list" where
  "resolveEnterpriseMcpServers servers = map fst (filter (\<lambda>(name, enabled). enabled \<noteq> Some False) (opt_list servers))"

section \<open>Facts about the registry\<close>

lemma set_run_simps [simp]:
  "getEnterpriseActiveRun (set_run i run st) j = (if j = i then Some run else getEnterpriseActiveRun st j)"
  "sessionActiveRuns (set_run i run st) = sessionActiveRuns st" "trace (set_run i run st) = trace st"
  by (simp_all add: set_run_def getEnterpriseActiveRun_def update_conv')

lemma emit_simps [simp]:
  "activeRuns (emit run ev st) = activeRuns st" "sessionActiveRuns (emit run ev st) = sessionActiveRuns st"
  "getEnterpriseActiveRun (emit run ev st) i = getEnterpriseActiveRun st i"
  "trace (emit run ev st) = trace st @ (if run_sink run then [(sink_key run, ev)] else [])"
  by (simp_all add: emit_def getEnterpriseActiveRun_def)

lemma drop_link_lookup [simp]:
  "map_of (drop_link session i links) s = (if session = Some s \<and> map_of links s = Some i then None else map_of links s)"
  by (simp add: drop_link_def delete_conv' split: option.split)

text \<open>What each operation does to the two maps.\<close>

lemma register_lookup [simp]:
  "getEnterpriseActiveRun (registerEnterpriseActiveRun run st) i =
     (if i = runId (run_plan run) then Some run else getEnterpriseActiveRun st i)"
  "getSessionActiveRunId (registerEnterpriseActiveRun run st) s =
     (if session_of run = Some s then Some (runId (run_plan run)) else getSessionActiveRunId st s)"
  by (simp_all add: registerEnterpriseActiveRun_def getSessionActiveRunId_def getEnterpriseActiveRun_def set_run_def
      update_conv' Let_def split: option.split)

definition adopts :: "Registry \<Rightarrow> string \<Rightarrow> string \<Rightarrow> EnterpriseActiveRun \<Rightarrow> bool" where
  "adopts st i s run \<longleftrightarrow> getEnterpriseActiveRun st i = Some run \<and> s \<noteq> [] \<and> run_sessionId run \<noteq> Some s"

lemma adopt_lookup:
  "adopts st i s run \<Longrightarrow> getEnterpriseActiveRun (adoptEnterpriseActiveRunSessionId i s st) j =
     (if j = i then Some (run \<lparr> run_sessionId := Some s \<rparr>) else getEnterpriseActiveRun st j)"
  "adopts st i s run \<Longrightarrow> getSessionActiveRunId (adoptEnterpriseActiveRunSessionId i s st) t =
     (if t = s then Some i else if session_of run = Some t \<and> getSessionActiveRunId st t = Some i then None
      else getSessionActiveRunId st t)"
  by (simp_all add: adopts_def adoptEnterpriseActiveRunSessionId_def getSessionActiveRunId_def getEnterpriseActiveRun_def
      set_run_def update_conv')

lemma adopt_idle: "\<nexists>run. adopts st i s run \<Longrightarrow> adoptEnterpriseActiveRunSessionId i s st = st"
  by (auto simp: adopts_def adoptEnterpriseActiveRunSessionId_def split: option.split)

lemma unregister_lookup [simp]:
  "getEnterpriseActiveRun (unregisterEnterpriseActiveRun i st) j = (if j = i then None else getEnterpriseActiveRun st j)"
  "getSessionActiveRunId (unregisterEnterpriseActiveRun i st) s =
     (if getSessionActiveRunId st s = Some i \<and> (\<exists>run. getEnterpriseActiveRun st i = Some run \<and> session_of run = Some s)
      then None else getSessionActiveRunId st s)"
  by (simp_all add: unregisterEnterpriseActiveRun_def getSessionActiveRunId_def getEnterpriseActiveRun_def delete_conv'
      split: option.split)

text \<open>
  The registry is well formed: a run is kept under its plan's run id, and every session link names an
  active run of that session.
\<close>

definition registry_ok :: "Registry \<Rightarrow> bool" where
  "registry_ok st \<longleftrightarrow> (\<forall>i run. getEnterpriseActiveRun st i = Some run \<longrightarrow> runId (run_plan run) = i)
    \<and> (\<forall>s i. getSessionActiveRunId st s = Some i \<longrightarrow> (\<exists>run. getEnterpriseActiveRun st i = Some run \<and> session_of run = Some s))"

lemma registry_okD:
  "registry_ok st \<Longrightarrow> getEnterpriseActiveRun st i = Some run \<Longrightarrow> runId (run_plan run) = i"
  by (simp add: registry_ok_def)

lemma empty_registry_ok: "registry_ok empty_registry"
  by (simp add: registry_ok_def empty_registry_def getEnterpriseActiveRun_def getSessionActiveRunId_def)

text \<open>A run id may be registered again, as a retry does, as long as it stays with its session.\<close>

definition may_register :: "Registry \<Rightarrow> EnterpriseActiveRun \<Rightarrow> bool" where
  "may_register st run = (case getEnterpriseActiveRun st (runId (run_plan run)) of
     None \<Rightarrow> True | Some old \<Rightarrow> session_of old = session_of run)"

lemma registry_okI:
  assumes "\<And>i run. getEnterpriseActiveRun st i = Some run \<Longrightarrow> runId (run_plan run) = i"
    "\<And>s i. getSessionActiveRunId st s = Some i \<Longrightarrow> \<exists>run. getEnterpriseActiveRun st i = Some run \<and> session_of run = Some s"
  shows "registry_ok st"
  using assms by (simp add: registry_ok_def)

lemma registry_link:
  "registry_ok st \<Longrightarrow> getSessionActiveRunId st s = Some i \<Longrightarrow>
   \<exists>run. getEnterpriseActiveRun st i = Some run \<and> session_of run = Some s"
  by (simp add: registry_ok_def)

lemma register_ok:
  assumes "registry_ok st" "may_register st run"
  shows "registry_ok (registerEnterpriseActiveRun run st)"
proof (rule registry_okI)
  fix i r
  assume "getEnterpriseActiveRun (registerEnterpriseActiveRun run st) i = Some r"
  then show "runId (run_plan r) = i" using registry_okD [OF assms(1)] by (auto split: if_splits)
next
  fix s i
  assume h: "getSessionActiveRunId (registerEnterpriseActiveRun run st) s = Some i"
  show "\<exists>r. getEnterpriseActiveRun (registerEnterpriseActiveRun run st) i = Some r \<and> session_of r = Some s"
  proof (cases "session_of run = Some s")
    case False
    with h obtain r where "getEnterpriseActiveRun st i = Some r" "session_of r = Some s"
      using registry_link [OF assms(1)] by auto
    with False assms(2) show ?thesis by (auto simp: may_register_def)
  qed (use h in auto)
qed

lemma adopt_ok:
  assumes "registry_ok st"
  shows "registry_ok (adoptEnterpriseActiveRunSessionId i s st)"
proof (cases "\<exists>run. adopts st i s run")
  case False
  with assms show ?thesis by (simp add: adopt_idle)
next
  case True
  then obtain run where a: "adopts st i s run" by blast
  then have run: "getEnterpriseActiveRun st i = Some run" "s \<noteq> []" by (auto simp: adopts_def)
  show ?thesis
  proof (rule registry_okI)
    fix j r
    assume "getEnterpriseActiveRun (adoptEnterpriseActiveRunSessionId i s st) j = Some r"
    then show "runId (run_plan r) = j"
      using registry_okD [OF assms] run by (auto simp: adopt_lookup [OF a] split: if_splits)
  next
    fix t j
    assume h: "getSessionActiveRunId (adoptEnterpriseActiveRunSessionId i s st) t = Some j"
    show "\<exists>r. getEnterpriseActiveRun (adoptEnterpriseActiveRunSessionId i s st) j = Some r \<and> session_of r = Some t"
    proof (cases "t = s")
      case True
      with h have j: "j = i" by (simp add: adopt_lookup [OF a])
      show ?thesis unfolding j using True run by (simp add: adopt_lookup [OF a] session_of_def)
    next
      case False
      with h have old: "getSessionActiveRunId st t = Some j" "\<not> (session_of run = Some t \<and> j = i)"
        by (auto simp: adopt_lookup [OF a] split: if_splits)
      with registry_link [OF assms old(1)] run show ?thesis by (auto simp: adopt_lookup [OF a])
    qed
  qed
qed

lemma unregister_ok:
  assumes "registry_ok st"
  shows "registry_ok (unregisterEnterpriseActiveRun i st)"
proof (rule registry_okI)
  fix j run
  assume "getEnterpriseActiveRun (unregisterEnterpriseActiveRun i st) j = Some run"
  then show "runId (run_plan run) = j" using registry_okD [OF assms] by (auto split: if_splits)
next
  fix s j
  assume "getSessionActiveRunId (unregisterEnterpriseActiveRun i st) s = Some j"
  then show "\<exists>run. getEnterpriseActiveRun (unregisterEnterpriseActiveRun i st) j = Some run \<and> session_of run = Some s"
    using registry_link [OF assms, of s] by (auto split: if_splits)
qed

end
