(* ===== verification/Run_Steps.thy ===== *)
theory Run_Steps
  imports Active_Runs
begin

text \<open>
  The step cursor of a run, \<^verbatim>\<open>src/enterprise/runtime.ts\<close>: finishing the step the run stands on, going back
  to one it has closed, and what the trace records of both. \<open>redact\<close> and \<open>hashTree\<close> are the parameters of
  the plan's own functions.
\<close>

section \<open>The cursor\<close>

definition resolveEnterpriseMode :: "EnterpriseMode option \<Rightarrow> EnterpriseMode" where
  "resolveEnterpriseMode configured = (case configured of None \<Rightarrow> ModeEnforce | Some m \<Rightarrow> m)"

definition runTracksSteps :: "(WorkflowTreeDefinition \<Rightarrow> string) \<Rightarrow> EnterpriseActiveRun \<Rightarrow> bool" where
  "runTracksSteps hashTree run = planTracksSteps hashTree (run_plan run)"

definition enterpriseRunTracksSteps :: "(WorkflowTreeDefinition \<Rightarrow> string) \<Rightarrow> Registry \<Rightarrow> string \<Rightarrow> bool" where
  "enterpriseRunTracksSteps hashTree st i = (case getEnterpriseActiveRun st i of
     None \<Rightarrow> False | Some run \<Rightarrow> runTracksSteps hashTree run)"

record EnterpriseStepRef =
  sr_nodeId :: string
  sr_title :: string
  sr_ordinal :: nat
  sr_total :: nat

datatype EnterpriseStepAdvance =
    AdvUnmediated
  | AdvNoSteps
  | WrongStep EnterpriseStepRef
  | AlreadyComplete EnterpriseStepRef
  | Advanced EnterpriseStepRef EnterpriseStepRef
  | RouteComplete EnterpriseStepRef

definition stepRef :: "EnterpriseActiveRun \<Rightarrow> string \<Rightarrow> EnterpriseStepRef option" where
  "stepRef run i = (case findPlanNode (run_plan run) i of
     None \<Rightarrow> None
   | Some node \<Rightarrow>
       let steps = enterpriseStepSequence (run_plan run)
       in Some \<lparr> sr_nodeId = nodeId node, sr_title = node_title node,
            sr_ordinal = (case index_of i steps of None \<Rightarrow> 0 | Some k \<Rightarrow> k + 1),
            sr_total = length steps \<rparr>)"

text \<open>An assignment to \<open>run.plan.activeNodeId\<close>.\<close>

definition move_cursor :: "string \<Rightarrow> EnterpriseActiveRun \<Rightarrow> EnterpriseActiveRun" where
  "move_cursor i run = run \<lparr> run_plan := (run_plan run) \<lparr> activeNodeId := i \<rparr> \<rparr>"

definition node_seq :: "EnterpriseActiveRun \<Rightarrow> string \<Rightarrow> nat" where
  "node_seq run i = (case findPlanNode (run_plan run) i of None \<Rightarrow> 0 | Some n \<Rightarrow> seq n)"

text \<open>A summary the model gave, redacted and bounded, or the empty string.\<close>

definition model_text :: "(string \<Rightarrow> string) \<Rightarrow> string option \<Rightarrow> string" where
  "model_text redact t = (if opt_list t = [] then [] else summarizeModelText redact (opt_list t))"

text \<open>An optional string that is dropped when it is empty.\<close>

definition present :: "string option \<Rightarrow> string option" where
  "present t = (if opt_list t = [] then None else t)"

definition nextStep :: "string list \<Rightarrow> string \<Rightarrow> string option" where
  "nextStep steps i = nth_opt steps (case index_of i steps of None \<Rightarrow> 0 | Some k \<Rightarrow> k + 1)"

definition enter_next ::
  "string \<Rightarrow> EnterpriseActiveRun \<Rightarrow> EnterpriseStepRef \<Rightarrow> string option \<Rightarrow> Registry \<Rightarrow> Registry \<times> EnterpriseStepAdvance" where
  "enter_next i run active toolCallId st =
     (let next = nextStep (enterpriseStepSequence (run_plan run)) (activeNodeId (run_plan run))
      in if opt_list next = []
         then (set_run i (run \<lparr> run_routeCompleted := Some True \<rparr>) st, RouteComplete active)
         else case findPlanNode (run_plan run) (opt_list next) of
             None \<Rightarrow> (st, RouteComplete active)
           | Some to \<Rightarrow>
               let run' = move_cursor (nodeId to) run;
                   entered = NodeEntered (nodeId to) (seq to) (node_title to) (present toolCallId)
               in (emit run' entered (set_run i run' st),
                   Advanced active (case stepRef run' (nodeId to) of
                       Some r \<Rightarrow> r | None \<Rightarrow> active \<lparr> sr_nodeId := nodeId to \<rparr>)))"

definition completeEnterpriseStep ::
  "(string \<Rightarrow> string) \<Rightarrow> (WorkflowTreeDefinition \<Rightarrow> string) \<Rightarrow> string \<Rightarrow> string option \<Rightarrow> string option \<Rightarrow>
   string option \<Rightarrow> Registry \<Rightarrow> Registry \<times> EnterpriseStepAdvance" where
  "completeEnterpriseStep redact hashTree i expectedNodeId summary toolCallId st =
     (case getEnterpriseActiveRun st i of
        None \<Rightarrow> (st, AdvUnmediated)
      | Some run \<Rightarrow>
          if \<not> runTracksSteps hashTree run then (st, AdvNoSteps)
          else let activeId = activeNodeId (run_plan run)
          in case stepRef run activeId of
               None \<Rightarrow> (st, AdvNoSteps)
             | Some active \<Rightarrow>
                 if opt_list expectedNodeId \<noteq> [] \<and> expectedNodeId \<noteq> Some activeId then (st, WrongStep active)
                 else if truthy (run_routeCompleted run) then (st, AlreadyComplete active)
                 else enter_next i run active toolCallId
                   (emit run (NodeCompleted (sr_nodeId active) (node_seq run (sr_nodeId active)) (sr_title active)
                      (model_text redact summary) (present toolCallId)) st))"

section \<open>Going back\<close>

definition MAX_STEP_REOPENS_PER_RUN :: nat where
  "MAX_STEP_REOPENS_PER_RUN = 10"

datatype EnterpriseStepReopen =
    ReUnmediated
  | ReNoSteps
  | UnknownStep "string list"
  | NotBehind EnterpriseStepRef
  | Exhausted EnterpriseStepRef nat
  | Reopened EnterpriseStepRef EnterpriseStepRef

definition reopens :: "EnterpriseActiveRun \<Rightarrow> nat" where
  "reopens run = (case run_reopenCount run of None \<Rightarrow> 0 | Some n \<Rightarrow> n)"

text \<open>The cursor's place on the route as \<open>indexOf\<close> gives it: every index is behind an absent one.\<close>

definition at_or_after :: "nat \<Rightarrow> nat option \<Rightarrow> bool" where
  "at_or_after target active = (case active of None \<Rightarrow> True | Some a \<Rightarrow> a \<le> target)"

definition reopenEnterpriseStep ::
  "(string \<Rightarrow> string) \<Rightarrow> (WorkflowTreeDefinition \<Rightarrow> string) \<Rightarrow> string \<Rightarrow> string \<Rightarrow> string option \<Rightarrow>
   string option \<Rightarrow> Registry \<Rightarrow> Registry \<times> EnterpriseStepReopen" where
  "reopenEnterpriseStep redact hashTree i target reason toolCallId st =
     (case getEnterpriseActiveRun st i of
        None \<Rightarrow> (st, ReUnmediated)
      | Some run \<Rightarrow>
          if \<not> runTracksSteps hashTree run then (st, ReNoSteps)
          else let steps = enterpriseStepSequence (run_plan run); activeId = activeNodeId (run_plan run)
          in case index_of target steps of
               None \<Rightarrow> (st, UnknownStep steps)
             | Some targetIndex \<Rightarrow> (case stepRef run activeId of
                   None \<Rightarrow> (st, ReNoSteps)
                 | Some active \<Rightarrow>
                     if at_or_after targetIndex (index_of activeId steps) \<and> \<not> truthy (run_routeCompleted run)
                     then (st, NotBehind active)
                     else case findPlanNode (run_plan run) target of
                         None \<Rightarrow> (st, UnknownStep steps)
                       | Some to \<Rightarrow>
                           if MAX_STEP_REOPENS_PER_RUN \<le> reopens run
                           then (st, Exhausted active MAX_STEP_REOPENS_PER_RUN)
                           else let run' = (move_cursor (nodeId to) run)
                                      \<lparr> run_reopenCount := Some (reopens run + 1), run_routeCompleted := Some False \<rparr>;
                                    reopened = NodeReopened (nodeId to) (seq to) (node_title to) activeId
                                      (drop targetIndex steps) (model_text redact reason) (present toolCallId)
                                in (emit run' reopened (set_run i run' st),
                                    Reopened active (case stepRef run' (nodeId to) of
                                        Some r \<Rightarrow> r | None \<Rightarrow> active \<lparr> sr_nodeId := nodeId to \<rparr>))))"

definition recordEnterpriseRunSteer ::
  "(string \<Rightarrow> string) \<Rightarrow> (WorkflowTreeDefinition \<Rightarrow> string) \<Rightarrow> string \<Rightarrow> string \<Rightarrow> SteerOrigin \<Rightarrow> Registry \<Rightarrow> Registry" where
  "recordEnterpriseRunSteer redact hashTree i t origin st = (case getEnterpriseActiveRun st i of
     None \<Rightarrow> st
   | Some run \<Rightarrow> emit run (RunSteered
       (if runTracksSteps hashTree run then Some (activeNodeId (run_plan run)) else None)
       origin (summarizeModelText redact t)) st)"

definition enterpriseRunActiveStep ::
  "(WorkflowTreeDefinition \<Rightarrow> string) \<Rightarrow> Registry \<Rightarrow> string \<Rightarrow> EnterpriseStepRef option" where
  "enterpriseRunActiveStep hashTree st i = (case getEnterpriseActiveRun st i of
     None \<Rightarrow> None
   | Some run \<Rightarrow> if \<not> runTracksSteps hashTree run then None else stepRef run (activeNodeId (run_plan run)))"

end
