(* ===== verification/Run_Gate.thy ===== *)
theory Run_Gate
  imports Run_Steps Governance_Properties
begin

text \<open>
  The per-tool-call gate of \<^verbatim>\<open>src/enterprise/runtime.ts\<close>: the verdict on a call, what it records, and the
  record of an approval once a human has answered. A sink never throws, so the guards around it have no
  counterpart; the evaluation throws when the active step is missing from the plan, which is the only
  exception its own code raises.
\<close>

section \<open>Recording\<close>

record EnterpriseToolCallVerdict =
  vd_decision :: GovernanceDecision
  vd_nodeId :: string
  vd_treeId :: string
  vd_mode :: EnterpriseMode
  vd_blocked :: bool
  vd_requiresApproval :: bool

record GateCall =
  gc_toolName :: string
  gc_mcpTool :: "McpRegistration option"
  gc_toolCallId :: "string option"
  gc_actionId :: "string option"
  gc_record :: "bool option"
  gc_released :: "bool option"
  gc_toolParams :: CallParams

definition recordEnterpriseActionInvoked ::
  "string \<Rightarrow> string \<Rightarrow> ActionWrite list \<Rightarrow> (string \<times> CallArg) list \<Rightarrow> Registry \<Rightarrow> Registry" where
  "recordEnterpriseActionInvoked i action writes context st = (case getEnterpriseActiveRun st i of
     None \<Rightarrow> st
   | Some run \<Rightarrow> emit run (ActionInvoked (activeNodeId (run_plan run)) action writes context) st)"

definition recordDecision :: "EnterpriseActiveRun \<Rightarrow> EnterpriseToolCallVerdict \<Rightarrow> GateCall \<Rightarrow> Registry \<Rightarrow> Registry" where
  "recordDecision run verdict call st = emit run (GovernanceDecided (vd_nodeId verdict)
     \<lparr> dr_toolName = gc_toolName call, dr_actionId = gc_actionId call, dr_toolCallId = present (gc_toolCallId call),
       dr_effect = dec_effect (vd_decision verdict), dr_enforced = vd_blocked verdict, dr_approved = None,
       dr_policyId = dec_policyId (vd_decision verdict), dr_source = dec_source (vd_decision verdict),
       dr_reason = dec_reason (vd_decision verdict) \<rparr>) st"

datatype EnterpriseApprovalOutcome = Approved | Denied

definition recordEnterpriseApprovalResolution ::
  "string \<Rightarrow> EnterpriseToolCallVerdict \<Rightarrow> GateCall \<Rightarrow> EnterpriseApprovalOutcome \<Rightarrow> string \<Rightarrow> Registry \<Rightarrow> Registry" where
  "recordEnterpriseApprovalResolution i verdict call outcome resolution st = (case getEnterpriseActiveRun st i of
     None \<Rightarrow> st
   | Some run \<Rightarrow> emit run (GovernanceDecided (vd_nodeId verdict)
       \<lparr> dr_toolName = gc_toolName call, dr_actionId = gc_actionId call, dr_toolCallId = present (gc_toolCallId call),
         dr_effect = EffRequireApproval, dr_enforced = (outcome = Denied), dr_approved = Some (outcome = Approved, resolution),
         dr_policyId = dec_policyId (vd_decision verdict), dr_source = dec_source (vd_decision verdict),
         dr_reason = dec_reason (vd_decision verdict) \<rparr>) st)"

section \<open>Ontology writes\<close>

definition toolCarriesOntologyAction :: "string \<Rightarrow> bool" where
  "toolCarriesOntologyAction toolName = (toolName = ''invoke_action'')"

definition ONTOLOGY_WRITE_OPT_INS :: "string list" where
  "ONTOLOGY_WRITE_OPT_INS = [''invoke_action'', ''group:enterprise-write'']"

definition explicitlyAllowsOntologyWrites :: "EnterprisePlanNode \<Rightarrow> bool" where
  "explicitlyAllowsOntologyWrites node =
     list_ex (\<lambda>t. toLowerCase (trim t) \<in> set ONTOLOGY_WRITE_OPT_INS) (opt_list (allowedTools (ontology node)))"

definition runAllowsOntologyWrites :: "Registry \<Rightarrow> string \<Rightarrow> bool" where
  "runAllowsOntologyWrites st i = (case getEnterpriseActiveRun st i of
     None \<Rightarrow> False | Some run \<Rightarrow> list_ex explicitlyAllowsOntologyWrites (nodes (run_plan run)))"

definition activeNodeAllowsWrites :: "EnterpriseRunPlan \<Rightarrow> bool" where
  "activeNodeAllowsWrites plan = (case findPlanNode plan (activeNodeId plan) of
     None \<Rightarrow> False | Some node \<Rightarrow> explicitlyAllowsOntologyWrites node)"

definition readInvokedActionId :: "string \<Rightarrow> CallParams \<Rightarrow> string option" where
  "readInvokedActionId toolName params = (case params of
     NotAnObject \<Rightarrow> None
   | ParamObject args \<Rightarrow>
       if \<not> toolCarriesOntologyAction toolName then None
       else case read_arg args ''action'' of
           ArgValue (VStr a) \<Rightarrow> if trim a = [] then None else Some (trim a)
         | _ \<Rightarrow> None)"

section \<open>The gate\<close>

definition verdict_for :: "EnterpriseRunPlan \<Rightarrow> string \<Rightarrow> GovernanceDecision \<Rightarrow> EnterpriseToolCallVerdict" where
  "verdict_for plan node d = \<lparr> vd_decision = d, vd_nodeId = node, vd_treeId = treeId plan, vd_mode = plan_mode plan,
     vd_blocked = (dec_effect d = EffDeny \<and> plan_mode plan = ModeEnforce),
     vd_requiresApproval = (dec_effect d = EffRequireApproval \<and> plan_mode plan = ModeEnforce) \<rparr>"

definition failed_decision :: "EnterpriseMode \<Rightarrow> string \<Rightarrow> GovernanceDecision" where
  "failed_decision mode message = \<lparr> dec_effect = (if mode = ModeEnforce then EffDeny else EffAllow), dec_policyId = None,
     dec_source = SrcDefault, dec_reason = ''enterprise governance evaluation failed: '' @ message,
     dec_approval = None, dec_ontologyOmission = False, dec_outwardActionId = None \<rparr>"

definition writes_decision :: "EnterprisePlanNode \<Rightarrow> GovernanceDecision" where
  "writes_decision node = hard_denial (''workflow step '' @ quoted (nodeId node) @
     '' does not allow ontology writes; a step must name invoke_action in its allowedTools'')"

definition tool_call_of :: "(WorkflowTreeDefinition \<Rightarrow> string) \<Rightarrow> EnterpriseActiveRun \<Rightarrow> GateCall \<Rightarrow> ToolCall" where
  "tool_call_of hashTree run call = \<lparr> tc_toolName = gc_toolName call, tc_actionId = gc_actionId call,
     tc_carriesAction = toolCarriesOntologyAction (gc_toolName call), tc_mcpTool = gc_mcpTool call,
     tc_mcpServers = opt_list (run_mcpServers run), tc_tracksSteps = runTracksSteps hashTree run,
     tc_toolParams = gc_toolParams call \<rparr>"

text \<open>What the gate writes to the trail once the governance decision is made.\<close>

definition record_verdict ::
  "string \<Rightarrow> EnterpriseActiveRun \<Rightarrow> EnterprisePlanNode \<Rightarrow> EnterpriseToolCallVerdict \<Rightarrow> GateCall \<Rightarrow> Registry \<Rightarrow> Registry" where
  "record_verdict i run node verdict call st =
     (let d = vd_decision verdict;
          silentDefaultAllow = (dec_effect d = EffAllow \<and> dec_source d = SrcDefault \<and> \<not> truthy (audit (ontology node)));
          shouldRecord = (vd_blocked verdict \<or> gc_record call \<noteq> Some False);
          st' = (if shouldRecord \<and> \<not> silentDefaultAllow \<and> \<not> vd_requiresApproval verdict
                 then recordDecision run verdict call st else st)
      in if gc_released call \<noteq> Some False \<and> opt_list (dec_outwardActionId d) \<noteq> [] \<and> \<not> vd_blocked verdict
            \<and> \<not> vd_requiresApproval verdict \<and> dec_effect d \<noteq> EffDeny
         then recordEnterpriseActionInvoked i (opt_list (dec_outwardActionId d)) [DispatchedCall (gc_toolName call)]
                (callArguments (gc_toolParams call)) st'
         else st')"

definition evaluateEnterpriseToolCall ::
  "(WorkflowTreeDefinition \<Rightarrow> string) \<Rightarrow> string option \<Rightarrow> GateCall \<Rightarrow> Registry \<Rightarrow>
   Registry \<times> EnterpriseToolCallVerdict option" where
  "evaluateEnterpriseToolCall hashTree i call st = (case run_of st i of
     None \<Rightarrow> (st, None)
   | Some run \<Rightarrow>
       let plan = run_plan run in
       case findPlanNode plan (activeNodeId plan) of
         None \<Rightarrow>
           let verdict = verdict_for plan (activeNodeId plan) (failed_decision (plan_mode plan)
                 (''active workflow node '' @ quoted (activeNodeId plan) @ '' missing from plan''))
           in (recordDecision run verdict call st, Some verdict)
       | Some node \<Rightarrow>
           if toolCarriesOntologyAction (gc_toolName call) \<and> \<not> activeNodeAllowsWrites plan
           then let verdict = verdict_for plan (nodeId node) (writes_decision node)
                in (if vd_blocked verdict \<or> gc_record call \<noteq> Some False
                      then recordDecision run verdict call st else st, Some verdict)
           else let decision = evaluateToolCallGovernance plan node (run_policies run) (tool_call_of hashTree run call);
                    verdict = verdict_for plan (nodeId node) decision
                in (record_verdict (opt_list i) run node verdict call st, Some verdict))"

end
