(* ===== verification/Run_Machine.thy ===== *)
theory Run_Machine
  imports Run_Gate
begin

text \<open>
  The runs as a state machine. Every operation of \<^verbatim>\<open>active-runs.ts\<close> and \<^verbatim>\<open>runtime.ts\<close> that changes state
  is an event of \<open>RunOp\<close>; \<open>reachable\<close> holds of the registries the process can be in. The route of a run is
  abstracted to three numbers, its steps, how many of them stand finished and how often the run went back,
  and the operations of the code are shown to implement the two transitions of that machine.
\<close>

section \<open>The abstract route\<close>

record Route =
  route_total :: nat
  route_finished :: nat
  route_backs :: nat

definition route_complete :: "Route \<Rightarrow> Route" where
  "route_complete r = (if route_finished r < route_total r then r \<lparr> route_finished := route_finished r + 1 \<rparr> else r)"

definition route_reopen :: "nat \<Rightarrow> Route \<Rightarrow> Route" where
  "route_reopen k r = (if k < route_finished r \<and> route_backs r < 10 then r \<lparr> route_finished := k, route_backs := route_backs r + 1 \<rparr> else r)"

section \<open>Runs\<close>

definition steps_of :: "EnterpriseActiveRun \<Rightarrow> string list" where
  "steps_of run = enterpriseStepSequence (run_plan run)"

definition cursor :: "EnterpriseActiveRun \<Rightarrow> string" where
  "cursor run = activeNodeId (run_plan run)"

definition run_ok :: "EnterpriseActiveRun \<Rightarrow> bool" where
  "run_ok run \<longleftrightarrow> plan_steps_ok (nodes (run_plan run)) \<and> [] \<notin> set (steps_of run) \<and> cursor run \<in> set (steps_of run)
    \<and> (truthy (run_routeCompleted run) \<longrightarrow> cursor run = last (steps_of run)) \<and> reopens run \<le> 10"

definition position :: "EnterpriseActiveRun \<Rightarrow> nat" where
  "position run = (case index_of (cursor run) (steps_of run) of Some k \<Rightarrow> k | None \<Rightarrow> 0)"

definition route_of :: "EnterpriseActiveRun \<Rightarrow> Route" where
  "route_of run = \<lparr> route_total = length (steps_of run),
     route_finished = (if truthy (run_routeCompleted run) then length (steps_of run) else position run),
     route_backs = reopens run \<rparr>"

lemma run_ok_steps:
  assumes "run_ok run"
  shows "distinct (steps_of run)" "steps_of run \<noteq> []" "position run < length (steps_of run)"
    "steps_of run ! position run = cursor run" "index_of (cursor run) (steps_of run) = Some (position run)"
proof -
  show d: "distinct (steps_of run)" and "steps_of run \<noteq> []"
    using assms by (auto simp: run_ok_def plan_steps_ok_def steps_of_def enterpriseStepSequence_def)
  from assms obtain k where k: "index_of (cursor run) (steps_of run) = Some k"
    using index_of_ex by (force simp: run_ok_def)
  then show "index_of (cursor run) (steps_of run) = Some (position run)" by (simp add: position_def)
  from k index_of_Some [OF k] show "position run < length (steps_of run)" "steps_of run ! position run = cursor run"
    by (auto simp: position_def)
qed

lemma find_step: "i \<in> set (enterpriseStepSequence plan) \<Longrightarrow> \<exists>n. findPlanNode plan i = Some n \<and> nodeId n = i \<and> n \<in> set (nodes plan)"
proof -
  assume "i \<in> set (enterpriseStepSequence plan)"
  then have "\<exists>n \<in> set (nodes plan). nodeId n = i" by (auto simp: enterpriseStepSequence_def)
  then obtain n where "List.find (\<lambda>n. nodeId n = i) (nodes plan) = Some n"
    by (cases "List.find (\<lambda>n. nodeId n = i) (nodes plan)") (auto simp: find_None_iff)
  with find_Some_mem [OF this] show ?thesis by (auto simp: findPlanNode_def)
qed

lemma find_step_id: "findPlanNode plan i = Some n \<Longrightarrow> nodeId n = i"
  by (auto simp: findPlanNode_def dest: find_Some_mem)

lemma move_cursor_simps [simp]:
  "steps_of (move_cursor i run) = steps_of run" "cursor (move_cursor i run) = i"
  "nodes (run_plan (move_cursor i run)) = nodes (run_plan run)" "runId (run_plan (move_cursor i run)) = runId (run_plan run)"
  "run_sink (move_cursor i run) = run_sink run" "run_executionId (move_cursor i run) = run_executionId run"
  "run_routeCompleted (move_cursor i run) = run_routeCompleted run" "run_reopenCount (move_cursor i run) = run_reopenCount run"
  "run_sessionId (move_cursor i run) = run_sessionId run" "plan_mode (run_plan (move_cursor i run)) = plan_mode (run_plan run)"
  by (simp_all add: move_cursor_def steps_of_def cursor_def enterpriseStepSequence_def)

lemma run_update_simps [simp]:
  "steps_of (run \<lparr> run_routeCompleted := b \<rparr>) = steps_of run" "cursor (run \<lparr> run_routeCompleted := b \<rparr>) = cursor run"
  "steps_of (run \<lparr> run_reopenCount := c \<rparr>) = steps_of run" "cursor (run \<lparr> run_reopenCount := c \<rparr>) = cursor run"
  "steps_of (run \<lparr> run_sessionId := s \<rparr>) = steps_of run" "cursor (run \<lparr> run_sessionId := s \<rparr>) = cursor run"
  "reopens (run \<lparr> run_routeCompleted := b \<rparr>) = reopens run" "reopens (run \<lparr> run_sessionId := s \<rparr>) = reopens run"
  "reopens (run \<lparr> run_reopenCount := Some k \<rparr>) = k" "reopens (move_cursor i run) = reopens run"
  by (simp_all add: steps_of_def cursor_def reopens_def move_cursor_def)

lemma stepRef_ok: "run_ok run \<Longrightarrow> \<exists>r. stepRef run (cursor run) = Some r \<and> sr_nodeId r = cursor run
    \<and> sr_ordinal r = position run + 1 \<and> sr_total r = length (steps_of run)"
proof -
  assume ok: "run_ok run"
  then obtain n where "findPlanNode (run_plan run) (cursor run) = Some n" "nodeId n = cursor run"
    using find_step by (auto simp: run_ok_def steps_of_def)
  with run_ok_steps(5) [OF ok] show ?thesis by (simp add: stepRef_def steps_of_def Let_def)
qed

section \<open>Finishing a step\<close>

definition completed_run :: "EnterpriseActiveRun \<Rightarrow> EnterpriseActiveRun" where
  "completed_run run = (if position run + 1 < length (steps_of run)
     then move_cursor (steps_of run ! (position run + 1)) run else run \<lparr> run_routeCompleted := Some True \<rparr>)"

lemma completed_run_simps [simp]:
  "steps_of (completed_run run) = steps_of run" "runId (run_plan (completed_run run)) = runId (run_plan run)"
  "sink_key (completed_run run) = sink_key run" "run_sink (completed_run run) = run_sink run"
  "reopens (completed_run run) = reopens run" "session_of (completed_run run) = session_of run"
  by (simp_all add: completed_run_def sink_key_def session_of_def)

lemma completed_run_ok:
  assumes "run_ok run" "\<not> truthy (run_routeCompleted run)"
  shows "run_ok (completed_run run)" "route_of (completed_run run) = route_complete (route_of run)"
proof -
  note s = run_ok_steps [OF assms(1)]
  have last: "cursor run = last (steps_of run)" if "\<not> position run + 1 < length (steps_of run)"
    using that s by (metis Suc_eq_plus1 Suc_lessI diff_Suc_1 last_conv_nth)
  have nxt: "index_of (steps_of run ! (position run + 1)) (steps_of run) = Some (position run + 1)"
    if "position run + 1 < length (steps_of run)"
    using that s(1) by (rule_tac index_of_nth)
  show "run_ok (completed_run run)"
    using assms last by (auto simp: run_ok_def completed_run_def)
  show "route_of (completed_run run) = route_complete (route_of run)"
    using assms(2) s(3) nxt by (auto simp: route_of_def route_complete_def completed_run_def position_def)
qed

text \<open>What a call of \<^const>\<open>completeEnterpriseStep\<close> does: nothing, or one step forward with its events.\<close>

definition accepts_completion :: "(WorkflowTreeDefinition \<Rightarrow> string) \<Rightarrow> EnterpriseActiveRun \<Rightarrow> string option \<Rightarrow> bool" where
  "accepts_completion hashTree run expected \<longleftrightarrow> runTracksSteps hashTree run
     \<and> (opt_list expected = [] \<or> expected = Some (cursor run)) \<and> \<not> truthy (run_routeCompleted run)"

lemma complete_effect:
  assumes "getEnterpriseActiveRun st i = Some run" "run_ok run"
  shows "fst (completeEnterpriseStep redact hashTree i expected summary call st) =
    (if accepts_completion hashTree run expected
     then \<lparr> activeRuns = AList.update i (completed_run run) (activeRuns st), sessionActiveRuns = sessionActiveRuns st,
            trace = trace st @ (if run_sink run
              then (sink_key run, NodeCompleted (cursor run) (node_seq run (cursor run))
                      (sr_title (the (stepRef run (cursor run)))) (model_text redact summary) (present call))
                   # (if position run + 1 < length (steps_of run)
                      then [(sink_key run, NodeEntered (steps_of run ! (position run + 1))
                              (seq (the (findPlanNode (run_plan run) (steps_of run ! (position run + 1)))))
                              (node_title (the (findPlanNode (run_plan run) (steps_of run ! (position run + 1))))) (present call))]
                      else [])
              else []) \<rparr>
     else st)"
proof -
  from stepRef_ok [OF assms(2)] obtain r where r: "stepRef run (cursor run) = Some r" "sr_nodeId r = cursor run" by blast
  note s = run_ok_steps [OF assms(2)]
  show ?thesis
  proof (cases "accepts_completion hashTree run expected")
    case False
    then show ?thesis using assms(1) r
      by (auto simp: completeEnterpriseStep_def accepts_completion_def cursor_def Let_def)
  next
    case True
    then have c: "completeEnterpriseStep redact hashTree i expected summary call st
        = enter_next i run r call (emit run (NodeCompleted (sr_nodeId r) (node_seq run (sr_nodeId r)) (sr_title r)
            (model_text redact summary) (present call)) st)"
      using assms(1) r by (auto simp: completeEnterpriseStep_def accepts_completion_def cursor_def Let_def)
    have nxt: "nextStep (steps_of run) (cursor run) = nth_opt (steps_of run) (position run + 1)"
      by (simp add: nextStep_def s(5))
    show ?thesis
    proof (cases "position run + 1 < length (steps_of run)")
      case last: False
      with nxt have "nextStep (steps_of run) (cursor run) = None" by (simp add: nth_opt_def)
      with last True r show ?thesis unfolding c
        by (simp add: enter_next_def steps_of_def cursor_def completed_run_def emit_def set_run_def)
    next
      case more: True
      let ?n = "steps_of run ! (position run + 1)"
      from more have "?n \<in> set (steps_of run)" by simp
      moreover have "?n \<noteq> []" using assms(2) more by (metis nth_mem run_ok_def)
      moreover obtain to where "findPlanNode (run_plan run) ?n = Some to" "nodeId to = ?n"
        using find_step [of ?n "run_plan run"] more by (auto simp: steps_of_def)
      moreover have "nextStep (steps_of run) (cursor run) = Some ?n" using nxt more by (simp add: nth_opt_def)
      ultimately show ?thesis unfolding c using more True r
        by (simp add: enter_next_def steps_of_def cursor_def completed_run_def emit_def set_run_def sink_key_def Let_def)
    qed
  qed
qed

section \<open>Going back\<close>

definition reopened_run :: "nat \<Rightarrow> EnterpriseActiveRun \<Rightarrow> EnterpriseActiveRun" where
  "reopened_run k run = (move_cursor (steps_of run ! k) run)
     \<lparr> run_reopenCount := Some (reopens run + 1), run_routeCompleted := Some False \<rparr>"

lemma reopened_run_simps [simp]:
  "steps_of (reopened_run k run) = steps_of run" "runId (run_plan (reopened_run k run)) = runId (run_plan run)"
  "sink_key (reopened_run k run) = sink_key run" "run_sink (reopened_run k run) = run_sink run"
  "session_of (reopened_run k run) = session_of run"
  by (simp_all add: reopened_run_def sink_key_def session_of_def)

lemma reopened_run_ok:
  assumes "run_ok run" "k < route_finished (route_of run)" "reopens run < 10"
  shows "run_ok (reopened_run k run)" "route_of (reopened_run k run) = route_reopen k (route_of run)"
proof -
  note s = run_ok_steps [OF assms(1)]
  from assms(2) s(3) have k: "k < length (steps_of run)" by (auto simp: route_of_def split: if_splits)
  then have "index_of (steps_of run ! k) (steps_of run) = Some k" using s(1) by (rule_tac index_of_nth)
  then show "route_of (reopened_run k run) = route_reopen k (route_of run)"
    using assms(2,3) by (simp add: route_of_def route_reopen_def reopened_run_def position_def reopens_def)
  show "run_ok (reopened_run k run)"
    using assms(1,3) k by (simp add: run_ok_def reopened_run_def reopens_def)
qed

definition accepts_reopen :: "(WorkflowTreeDefinition \<Rightarrow> string) \<Rightarrow> EnterpriseActiveRun \<Rightarrow> string \<Rightarrow> nat option" where
  "accepts_reopen hashTree run target = (case index_of target (steps_of run) of
     None \<Rightarrow> None
   | Some k \<Rightarrow> if runTracksSteps hashTree run \<and> k < route_finished (route_of run) \<and> reopens run < 10 then Some k else None)"

lemma reopen_effect:
  assumes "getEnterpriseActiveRun st i = Some run" "run_ok run"
  shows "fst (reopenEnterpriseStep redact hashTree i target reason call st) =
    (case accepts_reopen hashTree run target of
       None \<Rightarrow> st
     | Some k \<Rightarrow> \<lparr> activeRuns = AList.update i (reopened_run k run) (activeRuns st), sessionActiveRuns = sessionActiveRuns st,
            trace = trace st @ (if run_sink run
              then [(sink_key run, NodeReopened target (node_seq run target)
                      (node_title (the (findPlanNode (run_plan run) target))) (cursor run)
                      (drop k (steps_of run)) (model_text redact reason) (present call))]
              else []) \<rparr>)"
proof -
  from stepRef_ok [OF assms(2)] obtain r where r: "stepRef run (cursor run) = Some r" by blast
  note s = run_ok_steps [OF assms(2)]
  show ?thesis
  proof (cases "index_of target (steps_of run)")
    case None
    then show ?thesis using assms(1)
      by (simp add: reopenEnterpriseStep_def accepts_reopen_def Let_def steps_of_def del: index_of_None)
  next
    case (Some k)
    then have k: "steps_of run ! k = target" "k < length (steps_of run)" using index_of_Some by fastforce+
    then have "target \<in> set (steps_of run)" by auto
    then obtain to where to: "findPlanNode (run_plan run) target = Some to" "nodeId to = target"
      using find_step [of target "run_plan run"] by (auto simp: steps_of_def)
    have behind: "(at_or_after k (index_of (cursor run) (steps_of run)) \<and> \<not> truthy (run_routeCompleted run))
        \<longleftrightarrow> \<not> k < route_finished (route_of run)"
      using k(2) by (auto simp: at_or_after_def s(5) route_of_def)
    show ?thesis
    proof (cases "runTracksSteps hashTree run \<and> k < route_finished (route_of run) \<and> reopens run < 10")
      case True
      with behind have nb: "\<not> (at_or_after k (index_of (cursor run) (steps_of run)) \<and> \<not> truthy (run_routeCompleted run))"
        by blast
      from True show ?thesis
        using assms(1) Some to r k
        by (simp only: reopenEnterpriseStep_def accepts_reopen_def Let_def MAX_STEP_REOPENS_PER_RUN_def
            steps_of_def [symmetric] cursor_def [symmetric] option.case if_not_P [OF nb])
          (simp add: reopened_run_def emit_def set_run_def sink_key_def node_seq_def)
    next
      case False
      then show ?thesis
        using assms(1) Some to r behind
        by (auto simp: reopenEnterpriseStep_def accepts_reopen_def Let_def MAX_STEP_REOPENS_PER_RUN_def
            steps_of_def [symmetric] cursor_def [symmetric])
    qed
  qed
qed

section \<open>The trail\<close>

text \<open>Replaying the trail of an execution: a completion adds its step, going back takes the steps it invalidates.\<close>

fun credit :: "TraceEvent \<Rightarrow> string set \<Rightarrow> string set" where
  "credit (NodeCompleted n q t s c) done = insert n done"
| "credit (NodeReopened n q t f invalidated r c) done = done - set invalidated"
| "credit _ done = done"

definition replay :: "string list \<Rightarrow> TraceEvent list \<Rightarrow> string set" where
  "replay carriedOver evs = fold credit evs (set carriedOver)"

fun is_completion :: "TraceEvent \<Rightarrow> bool" where
  "is_completion (NodeCompleted n q t s c) = True"
| "is_completion _ = False"

fun is_reopening :: "TraceEvent \<Rightarrow> bool" where
  "is_reopening (NodeReopened n q t f invalidated r c) = True"
| "is_reopening _ = False"

definition events_of :: "string \<times> string option \<Rightarrow> ((string \<times> string option) \<times> TraceEvent) list \<Rightarrow> TraceEvent list" where
  "events_of key tr = map snd (filter (\<lambda>e. fst e = key) tr)"

lemma replay_simps [simp]:
  "replay cs [] = set cs" "replay cs (evs @ [e]) = credit e (replay cs evs)"
  by (simp_all add: replay_def)

lemma replay_append: "replay cs (evs @ evs') = fold credit evs' (replay cs evs)"
  by (simp add: replay_def)

lemma events_of_simps [simp]:
  "events_of key [] = []" "events_of key (tr @ tr') = events_of key tr @ events_of key tr'"
  "events_of key (map (Pair key') evs) = (if key' = key then evs else [])"
  by (simp_all add: events_of_def comp_def)

text \<open>
  The step an execution opened on is the one its trail enters before anything is finished or reopened; the steps of
  the route before it are the ones a resumed run carried over from an earlier execution.
\<close>

fun opened_on :: "TraceEvent list \<Rightarrow> string option" where
  "opened_on [] = None"
| "opened_on (NodeEntered n q t c # evs) = Some n"
| "opened_on (NodeCompleted n q t s c # evs) = None"
| "opened_on (NodeReopened n q t f invalidated r c # evs) = None"
| "opened_on (e # evs) = opened_on evs"

lemma opened_on_append: "opened_on evs' = None \<Longrightarrow> opened_on (evs @ evs') = opened_on evs"
  by (induction evs rule: opened_on.induct) simp_all

definition carried_steps :: "EnterpriseActiveRun \<Rightarrow> TraceEvent list \<Rightarrow> string list" where
  "carried_steps run evs = (case opened_on evs of None \<Rightarrow> [] | Some n \<Rightarrow> takeWhile (\<lambda>s. s \<noteq> n) (steps_of run))"

lemma carried_session [simp]: "carried_steps (run \<lparr> run_sessionId := i \<rparr>) evs = carried_steps run evs"
  by (cases "opened_on evs") (simp_all add: carried_steps_def)

lemma carried_append: "opened_on evs' = None \<Longrightarrow> steps_of run' = steps_of run \<Longrightarrow> carried_steps run' (evs @ evs') = carried_steps run evs"
  by (cases "opened_on evs") (simp_all add: carried_steps_def opened_on_append)

text \<open>The trail tells how far the run is, and how much work it has been through.\<close>

definition progress_ok :: "EnterpriseActiveRun \<Rightarrow> TraceEvent list \<Rightarrow> bool" where
  "progress_ok run evs \<longleftrightarrow> replay (carried_steps run evs) evs = set (take (route_finished (route_of run)) (steps_of run))
     \<and> length (filter is_completion evs) \<le> route_backs (route_of run) * length (steps_of run) + route_finished (route_of run)
     \<and> length (filter is_reopening evs) = route_backs (route_of run)"

definition machine_ok :: "Registry \<Rightarrow> bool" where
  "machine_ok st \<longleftrightarrow> registry_ok st
     \<and> (\<forall>i run. getEnterpriseActiveRun st i = Some run \<longrightarrow> run_ok run
          \<and> (run_sink run \<longrightarrow> progress_ok run (events_of (sink_key run) (trace st))))"

text \<open>An operation on one run keeps the invariant when its events tell how far it moved the run.\<close>

lemma run_update_ok:
  assumes "machine_ok st" "getEnterpriseActiveRun st i = Some run"
    and runs: "\<And>j. getEnterpriseActiveRun st' j = (if j = i then Some run' else getEnterpriseActiveRun st j)"
    and links: "sessionActiveRuns st' = sessionActiveRuns st"
    and trail: "trace st' = trace st @ (if run_sink run then map (Pair (sink_key run)) evs else [])"
    and same: "sink_key run' = sink_key run" "run_sink run' = run_sink run" "session_of run' = session_of run"
    and ok: "run_ok run'" "progress_ok run (events_of (sink_key run) (trace st)) \<Longrightarrow>
       progress_ok run' (events_of (sink_key run) (trace st) @ evs)"
  shows "machine_ok st'"
proof -
  have reg: "registry_ok st" using assms(1) by (simp add: machine_ok_def)
  have id: "runId (run_plan run') = i" using same(1) registry_okD [OF reg assms(2)] by (simp add: sink_key_def)
  have "registry_ok st'"
  proof (rule registry_okI)
    fix j r assume "getEnterpriseActiveRun st' j = Some r"
    then show "runId (run_plan r) = j" using runs registry_okD [OF reg] id by (auto split: if_splits)
  next
    fix s j assume "getSessionActiveRunId st' s = Some j"
    then have "getSessionActiveRunId st s = Some j" by (simp add: getSessionActiveRunId_def links)
    from registry_link [OF reg this] show "\<exists>r. getEnterpriseActiveRun st' j = Some r \<and> session_of r = Some s"
      using runs assms(2) same(3) by auto
  qed
  moreover have "run_ok r \<and> (run_sink r \<longrightarrow> progress_ok r (events_of (sink_key r) (trace st')))"
    if "getEnterpriseActiveRun st' j = Some r" for j r
  proof (cases "j = i")
    case True
    with that runs have r: "r = run'" by simp
    show ?thesis unfolding r using ok assms(1,2) same(1,2) trail by (auto simp: machine_ok_def)
  next
    case False
    with that runs have old: "getEnterpriseActiveRun st j = Some r" by simp
    have "sink_key r \<noteq> sink_key run"
      using registry_okD [OF reg old] registry_okD [OF reg assms(2)] False by (simp add: sink_key_def)
    then have "events_of (sink_key r) (trace st') = events_of (sink_key r) (trace st)"
      using trail by auto
    with old assms(1) show ?thesis by (simp add: machine_ok_def)
  qed
  ultimately show ?thesis by (simp add: machine_ok_def)
qed

section \<open>Events and reachable registries\<close>

datatype RunOp =
    BeginRun EnterpriseActiveRun "string list"
  | AdoptSession string string
  | EndRun string
  | CompleteStep string "string option" "string option" "string option"
  | ReopenStep string string "string option" "string option"
  | Steer string string SteerOrigin
  | JudgeCall "string option" GateCall
  | ResolveApproval string EnterpriseToolCallVerdict GateCall EnterpriseApprovalOutcome string
  | CommitAction string string "ActionWrite list" "(string \<times> CallArg) list"

text \<open>
  What \<^verbatim>\<open>run-mediation.ts\<close> does in one turn once a run may start: it registers it, places its cursor on the first step
  the execution it resumes left unfinished, \<open>completed\<close> being what that one finished (nothing when none is resumed),
  and enters the step. The whole begin, with the trail it opens in the database, is \<open>activate_run\<close> of \<^verbatim>\<open>Run_Mediation\<close>.
\<close>

definition opening_cursor :: "EnterpriseRunPlan \<Rightarrow> bool \<Rightarrow> string option \<Rightarrow> string" where
  "opening_cursor plan tracks resumeStep =
     (let steps = enterpriseStepSequence plan
      in if tracks \<and> steps \<noteq> [] \<and> (opt_list resumeStep \<noteq> [] \<or> activeNodeId plan \<notin> set steps)
         then (case resumeStep of Some s \<Rightarrow> s | None \<Rightarrow> hd steps) else activeNodeId plan)"

definition opened_run :: "(WorkflowTreeDefinition \<Rightarrow> string) \<Rightarrow> string list \<Rightarrow> EnterpriseActiveRun \<Rightarrow> EnterpriseActiveRun" where
  "opened_run hashTree completed run = move_cursor (opening_cursor (run_plan run) (runTracksSteps hashTree run)
     (firstUnfinishedStep (enterpriseStepSequence (run_plan run)) completed)) run"

definition enter_opening :: "(WorkflowTreeDefinition \<Rightarrow> string) \<Rightarrow> EnterpriseActiveRun \<Rightarrow> Registry \<Rightarrow> Registry" where
  "enter_opening hashTree run st = (if runTracksSteps hashTree run
     then (case findPlanNode (run_plan run) (activeNodeId (run_plan run)) of
         Some node \<Rightarrow> emit run (NodeEntered (nodeId node) (seq node) (node_title node) None) st
       | None \<Rightarrow> st) else st)"

definition begin_run :: "(WorkflowTreeDefinition \<Rightarrow> string) \<Rightarrow> EnterpriseActiveRun \<Rightarrow> string list \<Rightarrow> Registry \<Rightarrow> Registry" where
  "begin_run hashTree run completed st = (let run1 = opened_run hashTree completed run
     in enter_opening hashTree run1 (registerEnterpriseActiveRun run1 st))"

fun perform ::
  "(string \<Rightarrow> string) \<Rightarrow> (WorkflowTreeDefinition \<Rightarrow> string) \<Rightarrow> RunOp \<Rightarrow> Registry \<Rightarrow> Registry" where
  "perform redact hashTree (BeginRun run completed) st = begin_run hashTree run completed st"
| "perform redact hashTree (AdoptSession i s) st = adoptEnterpriseActiveRunSessionId i s st"
| "perform redact hashTree (EndRun i) st = unregisterEnterpriseActiveRun i st"
| "perform redact hashTree (CompleteStep i expected summary call) st =
     fst (completeEnterpriseStep redact hashTree i expected summary call st)"
| "perform redact hashTree (ReopenStep i target reason call) st =
     fst (reopenEnterpriseStep redact hashTree i target reason call st)"
| "perform redact hashTree (Steer i t origin) st = recordEnterpriseRunSteer redact hashTree i t origin st"
| "perform redact hashTree (JudgeCall i call) st = fst (evaluateEnterpriseToolCall hashTree i call st)"
| "perform redact hashTree (ResolveApproval i verdict call outcome resolution) st =
     recordEnterpriseApprovalResolution i verdict call outcome resolution st"
| "perform redact hashTree (CommitAction i action writes context) st =
     recordEnterpriseActionInvoked i action writes context st"

text \<open>
  A run begins on the plan it was just given, in an execution of its own, and a run id that is still
  active is only begun again by its own session. What the resumed execution finished may be anything.
\<close>

definition fresh_run :: "Registry \<Rightarrow> EnterpriseActiveRun \<Rightarrow> bool" where
  "fresh_run st run \<longleftrightarrow> plan_steps_ok (nodes (run_plan run)) \<and> [] \<notin> set (steps_of run) \<and> cursor run = hd (steps_of run)
    \<and> \<not> truthy (run_routeCompleted run) \<and> reopens run = 0 \<and> events_of (sink_key run) (trace st) = []"

fun admissible :: "Registry \<Rightarrow> RunOp \<Rightarrow> bool" where
  "admissible st (BeginRun run completed) = (may_register st run \<and> fresh_run st run)"
| "admissible st _ = True"

inductive reachable :: "(string \<Rightarrow> string) \<Rightarrow> (WorkflowTreeDefinition \<Rightarrow> string) \<Rightarrow> Registry \<Rightarrow> bool"
  for redact hashTree where
  start: "reachable redact hashTree empty_registry"
| operate: "reachable redact hashTree st \<Longrightarrow> admissible st op \<Longrightarrow> reachable redact hashTree (perform redact hashTree op st)"

inductive_cases reachableE: "reachable redact hashTree st"

section \<open>The invariant\<close>

lemma route_of_simps [simp]:
  "route_finished (route_of run) = (if truthy (run_routeCompleted run) then length (steps_of run) else position run)"
  "route_backs (route_of run) = reopens run" "route_total (route_of run) = length (steps_of run)"
  by (simp_all add: route_of_def)

lemma empty_machine_ok: "machine_ok empty_registry"
  using empty_registry_ok by (simp add: machine_ok_def) (simp add: empty_registry_def getEnterpriseActiveRun_def)

text \<open>The cursor opens on a step of the route, and behind it are carried steps only.\<close>

lemma resumed_place:
  assumes "firstUnfinishedStep steps completed = Some s"
  obtains k where "k < length steps" "steps ! k = s" "set (take k steps) \<subseteq> set completed"
proof -
  have "nth_opt steps (finished_prefix steps completed) = Some s"
    using assms by (auto simp: firstUnfinishedStep_def Let_def split: if_splits)
  with that [of "finished_prefix steps completed"] show thesis
    using finished_prefix_take by (auto simp: nth_opt_def split: if_splits)
qed

lemma opened_run_place:
  assumes "fresh_run st run"
  obtains k where "k < length (steps_of run)" "cursor (opened_run hashTree completed run) = steps_of run ! k"
    "set (take k (steps_of run)) \<subseteq> set completed" "runTracksSteps hashTree run \<or> k = 0"
proof -
  let ?steps = "steps_of run"
  have ne: "?steps \<noteq> []" "[] \<notin> set ?steps" and head: "activeNodeId (run_plan run) = hd ?steps"
    using assms by (auto simp: fresh_run_def plan_steps_ok_def steps_of_def enterpriseStepSequence_def cursor_def)
  have active: "activeNodeId (run_plan run) \<in> set ?steps" "?steps ! 0 = activeNodeId (run_plan run)"
    using ne(1) head by (simp_all add: hd_conv_nth)
  show thesis
  proof (cases "runTracksSteps hashTree run \<and> firstUnfinishedStep ?steps completed \<noteq> None")
    case True
    then obtain s where s: "firstUnfinishedStep ?steps completed = Some s" by auto
    from resumed_place [OF s] obtain k where k: "k < length ?steps" "?steps ! k = s" "set (take k ?steps) \<subseteq> set completed" .
    with ne(2) have "s \<noteq> []" by (metis nth_mem)
    with True s ne(1) k that [of k] show thesis by (auto simp: opened_run_def opening_cursor_def steps_of_def Let_def)
  next
    case False
    then have "cursor (opened_run hashTree completed run) = activeNodeId (run_plan run)"
      using active(1) by (auto simp: opened_run_def opening_cursor_def steps_of_def Let_def)
    with that [of 0] ne(1) active(2) show thesis by simp
  qed
qed

lemma tracks_move_cursor [simp]: "runTracksSteps hashTree (move_cursor i run) = runTracksSteps hashTree run"
  by (cases "map_of (passiveDefaultHashes hashTree) (treeId (run_plan run))")
    (simp_all add: runTracksSteps_def planTracksSteps_def move_cursor_def)

lemma opened_run_simps [simp]:
  "steps_of (opened_run hashTree completed run) = steps_of run" "sink_key (opened_run hashTree completed run) = sink_key run"
  "nodes (run_plan (opened_run hashTree completed run)) = nodes (run_plan run)" "reopens (opened_run hashTree completed run) = reopens run"
  "run_routeCompleted (opened_run hashTree completed run) = run_routeCompleted run" "run_sink (opened_run hashTree completed run) = run_sink run"
  "runTracksSteps hashTree' (opened_run hashTree completed run) = runTracksSteps hashTree' run"
  by (simp_all add: opened_run_def sink_key_def)

lemma carried_opened [simp]: "carried_steps (opened_run hashTree completed run) evs = carried_steps run evs"
  by (cases "opened_on evs") (simp_all add: carried_steps_def)

lemma enter_opening_simps [simp]:
  "activeRuns (enter_opening hashTree run st) = activeRuns st" "sessionActiveRuns (enter_opening hashTree run st) = sessionActiveRuns st"
  "getEnterpriseActiveRun (enter_opening hashTree run st) j = getEnterpriseActiveRun st j"
  by (simp_all add: enter_opening_def split: option.split)

lemma register_trace [simp]: "trace (registerEnterpriseActiveRun run st) = trace st"
  by (simp add: registerEnterpriseActiveRun_def Let_def split: option.split)

lemma opening_event:
  assumes "cursor run \<in> set (steps_of run)"
  obtains q t where "trace (enter_opening hashTree run st)
    = trace st @ (if run_sink run \<and> runTracksSteps hashTree run then [(sink_key run, NodeEntered (cursor run) q t None)] else [])"
proof -
  from assms obtain node where "findPlanNode (run_plan run) (cursor run) = Some node" "nodeId node = cursor run"
    using find_step by (auto simp: steps_of_def)
  with that [of "seq node" "node_title node"] show thesis by (auto simp: enter_opening_def cursor_def)
qed

lemma take_before: "distinct xs \<Longrightarrow> k < length xs \<Longrightarrow> takeWhile (\<lambda>x. x \<noteq> xs ! k) xs = take k xs"
  by (rule takeWhile_eq_take_P_nth) (auto simp: nth_eq_iff_index_eq)

lemma begun_run:
  assumes "fresh_run st run" and run1: "run1 = opened_run hashTree completed run"
  shows "run_ok run1" "run_sink run \<Longrightarrow> progress_ok run1 (events_of (sink_key run) (trace (begin_run hashTree run completed st)))"
    "set (carried_steps run1 (events_of (sink_key run) (trace (begin_run hashTree run completed st)))) \<subseteq> set completed"
    "\<And>key. key \<noteq> sink_key run \<Longrightarrow> events_of key (trace (begin_run hashTree run completed st)) = events_of key (trace st)"
proof -
  obtain k where
    k: "k < length (steps_of run)" "cursor run1 = steps_of run ! k" "set (take k (steps_of run)) \<subseteq> set completed"
      "runTracksSteps hashTree run \<or> k = 0"
    unfolding run1 by (rule opened_run_place [OF assms(1), where hashTree = hashTree and completed = completed])
  have d: "distinct (steps_of run)" and fresh: "\<not> truthy (run_routeCompleted run)" "reopens run = 0" "events_of (sink_key run) (trace st) = []"
    using assms(1) by (auto simp: fresh_run_def plan_steps_ok_def steps_of_def enterpriseStepSequence_def)
  have on: "cursor run1 \<in> set (steps_of run1)" using k(1,2) by (simp add: run1)
  show "run_ok run1" using assms(1) on by (simp add: run_ok_def fresh_run_def run1)
  have fin: "route_finished (route_of run1) = k"
    using fresh(1) index_of_nth [OF d k(1)] k(2) by (simp add: run1 position_def)
  obtain q t where tr: "trace (enter_opening hashTree run1 (registerEnterpriseActiveRun run1 st))
    = trace st @ (if run_sink run1 \<and> runTracksSteps hashTree run1 then [(sink_key run1, NodeEntered (cursor run1) q t None)] else [])"
    using opening_event [OF on, of hashTree "registerEnterpriseActiveRun run1 st"] by auto
  then have evs: "events_of (sink_key run) (trace (begin_run hashTree run completed st))
      = (if run_sink run \<and> runTracksSteps hashTree run then [NodeEntered (steps_of run ! k) q t None] else [])"
    using fresh(3) k(2) by (simp add: begin_run_def run1 Let_def) (simp add: events_of_def)
  have carried: "carried_steps run1 [NodeEntered (steps_of run ! k) q t None] = take k (steps_of run)" "carried_steps run1 [] = []"
    using take_before [OF d k(1)] by (simp_all add: carried_steps_def run1)
  show "progress_ok run1 (events_of (sink_key run) (trace (begin_run hashTree run completed st)))" if "run_sink run"
    using that k(4) fresh(2) carried fin by (auto simp: progress_ok_def evs replay_def run1 simp del: route_of_simps(1))
  show "set (carried_steps run1 (events_of (sink_key run) (trace (begin_run hashTree run completed st)))) \<subseteq> set completed"
    using k(3) carried by (auto simp: evs)
  show "events_of key (trace (begin_run hashTree run completed st)) = events_of key (trace st)" if "key \<noteq> sink_key run" for key
    using that tr by (simp add: begin_run_def run1 Let_def) (simp add: events_of_def)
qed

lemma begin_machine_ok:
  assumes "machine_ok st" "may_register st run" "fresh_run st run"
  shows "machine_ok (begin_run hashTree run completed st)"
proof -
  have reg: "registry_ok st" using assms(1) by (simp add: machine_ok_def)
  define run1 where "run1 = opened_run hashTree completed run"
  note b = begun_run [OF assms(3) run1_def]
  have "runId (run_plan run1) = runId (run_plan run)" "session_of run1 = session_of run"
    by (simp_all add: run1_def opened_run_def session_of_def)
  then have may: "may_register st run1" using assms(2) by (simp only: may_register_def)
  have regs: "getEnterpriseActiveRun (begin_run hashTree run completed st) j = getEnterpriseActiveRun (registerEnterpriseActiveRun run1 st) j"
    "getSessionActiveRunId (begin_run hashTree run completed st) s = getSessionActiveRunId (registerEnterpriseActiveRun run1 st) s" for j s
    by (simp_all add: begin_run_def run1_def Let_def getSessionActiveRunId_def)
  have registered: "registry_ok (registerEnterpriseActiveRun run1 st)" using reg may by (rule register_ok)
  have "registry_ok (begin_run hashTree run completed st)"
  proof (rule registry_okI)
    show "runId (run_plan r) = j" if "getEnterpriseActiveRun (begin_run hashTree run completed st) j = Some r" for j r
      using that unfolding regs by (rule registry_okD [OF registered])
    show "\<exists>r. getEnterpriseActiveRun (begin_run hashTree run completed st) j = Some r \<and> session_of r = Some s"
      if "getSessionActiveRunId (begin_run hashTree run completed st) s = Some j" for s j
      using that unfolding regs by (rule registry_link [OF registered])
  qed
  moreover have "run_ok r \<and> (run_sink r \<longrightarrow> progress_ok r (events_of (sink_key r) (trace (begin_run hashTree run completed st))))"
    if g: "getEnterpriseActiveRun (begin_run hashTree run completed st) i = Some r" for i r
  proof (cases "r = run1")
    case True
    then show ?thesis using b(1,2) by (simp add: run1_def)
  next
    case False
    with g have old: "getEnterpriseActiveRun st i = Some r" "i \<noteq> runId (run_plan run1)" by (auto simp: regs split: if_splits)
    then have "sink_key r \<noteq> sink_key run"
      using registry_okD [OF reg old(1)] by (auto simp: sink_key_def run1_def opened_run_def)
    with old(1) b(4) assms(1) show ?thesis by (simp add: machine_ok_def)
  qed
  ultimately show ?thesis by (simp add: machine_ok_def)
qed

lemma same_runs_ok:
  assumes "machine_ok st" "registry_ok st'" "trace st' = trace st"
    "\<And>i r. getEnterpriseActiveRun st' i = Some r \<Longrightarrow> \<exists>r' s. getEnterpriseActiveRun st i = Some r' \<and> (r = r' \<or> r = r' \<lparr> run_sessionId := s \<rparr>)"
  shows "machine_ok st'"
proof -
  have "run_ok r \<and> (run_sink r \<longrightarrow> progress_ok r (events_of (sink_key r) (trace st')))"
    if g: "getEnterpriseActiveRun st' i = Some r" for i r
  proof -
    from assms(4) [OF g] obtain r' s where r': "getEnterpriseActiveRun st i = Some r'" "r = r' \<or> r = r' \<lparr> run_sessionId := s \<rparr>"
      by blast
    with assms(1) have "run_ok r'" "run_sink r' \<longrightarrow> progress_ok r' (events_of (sink_key r') (trace st))"
      by (auto simp: machine_ok_def)
    moreover have "run_ok (r' \<lparr> run_sessionId := s \<rparr>) = run_ok r'" "progress_ok (r' \<lparr> run_sessionId := s \<rparr>) = progress_ok r'"
      "sink_key (r' \<lparr> run_sessionId := s \<rparr>) = sink_key r'"
      by (simp_all add: run_ok_def progress_ok_def fun_eq_iff position_def sink_key_def)
    ultimately show ?thesis using r'(2) assms(3) by auto
  qed
  with assms(2) show ?thesis by (simp add: machine_ok_def)
qed

lemma adopt_machine_ok: "machine_ok st \<Longrightarrow> machine_ok (adoptEnterpriseActiveRunSessionId i s st)"
proof (rule same_runs_ok)
  assume m: "machine_ok st"
  show "machine_ok st" by fact
  show "registry_ok (adoptEnterpriseActiveRunSessionId i s st)" using m adopt_ok by (simp add: machine_ok_def)
  show "trace (adoptEnterpriseActiveRunSessionId i s st) = trace st"
    by (simp add: adoptEnterpriseActiveRunSessionId_def split: option.split)
  show "\<exists>r' s. getEnterpriseActiveRun st j = Some r' \<and> (r = r' \<or> r = r' \<lparr> run_sessionId := s \<rparr>)"
    if "getEnterpriseActiveRun (adoptEnterpriseActiveRunSessionId i s st) j = Some r" for j r
  proof (cases "\<exists>run. adopts st i s run")
    case True
    then obtain run where a: "adopts st i s run" by blast
    then show ?thesis using that by (auto simp: adopt_lookup [OF a] adopts_def split: if_splits)
  next
    case False
    then show ?thesis using that by (auto simp: adopt_idle)
  qed
qed

lemma end_machine_ok: "machine_ok st \<Longrightarrow> machine_ok (unregisterEnterpriseActiveRun i st)"
proof (rule same_runs_ok)
  assume m: "machine_ok st"
  show "machine_ok st" by fact
  show "registry_ok (unregisterEnterpriseActiveRun i st)" using m unregister_ok by (simp add: machine_ok_def)
  show "trace (unregisterEnterpriseActiveRun i st) = trace st" by (simp add: unregisterEnterpriseActiveRun_def)
qed (auto split: if_splits)

text \<open>Completing and reopening.\<close>

lemma complete_machine_ok:
  assumes m: "machine_ok st"
  shows "machine_ok (fst (completeEnterpriseStep redact hashTree i expected summary call st))"
proof (cases "getEnterpriseActiveRun st i")
  case None
  then show ?thesis using m by (simp add: completeEnterpriseStep_def)
next
  case (Some run)
  with m have ok: "run_ok run" by (simp add: machine_ok_def)
  note e = complete_effect [OF Some ok, of redact hashTree expected summary call]
  show ?thesis
  proof (cases "accepts_completion hashTree run expected")
    case False
    with e m show ?thesis by simp
  next
    case acc: True
    then have nc: "\<not> truthy (run_routeCompleted run)" by (simp add: accepts_completion_def)
    note s = run_ok_steps [OF ok]
    let ?completed = "NodeCompleted (cursor run) (node_seq run (cursor run)) (sr_title (the (stepRef run (cursor run))))
        (model_text redact summary) (present call)"
    define entered where "entered = (if position run + 1 < length (steps_of run)
        then [NodeEntered (steps_of run ! (position run + 1))
               (seq (the (findPlanNode (run_plan run) (steps_of run ! (position run + 1)))))
               (node_title (the (findPlanNode (run_plan run) (steps_of run ! (position run + 1))))) (present call)]
        else [])"
    have fin: "route_finished (route_of (completed_run run)) = position run + 1"
      using completed_run_ok(2) [OF ok nc] s(3) nc by (simp only: route_complete_def) (simp add: route_of_def)
    have tk: "set (take (position run + 1) (steps_of run)) = insert (cursor run) (set (take (position run) (steps_of run)))"
      using s(3,4) by (simp add: take_Suc_conv_app_nth)
    have neutral: "fold credit entered X = X" "filter is_completion entered = []" "filter is_reopening entered = []" for X
      by (auto simp: entered_def)
    show ?thesis
    proof (rule run_update_ok [OF m Some, where run' = "completed_run run" and evs = "?completed # entered"])
      have "carried_steps (completed_run run) (es @ ?completed # entered) = carried_steps run es" for es
        by (rule carried_append) simp_all
      then show "progress_ok (completed_run run) (es @ ?completed # entered)" if "progress_ok run es" for es
        using that fin tk neutral nc by (simp add: progress_ok_def replay_append del: route_of_simps(1)) (simp add: nc)
    qed (use e acc completed_run_ok(1) [OF ok nc] in \<open>simp_all add: entered_def getEnterpriseActiveRun_def update_conv'\<close>)
  qed
qed

lemma reopen_machine_ok:
  assumes m: "machine_ok st"
  shows "machine_ok (fst (reopenEnterpriseStep redact hashTree i target reason call st))"
proof (cases "getEnterpriseActiveRun st i")
  case None
  then show ?thesis using m by (simp add: reopenEnterpriseStep_def)
next
  case (Some run)
  with m have ok: "run_ok run" by (simp add: machine_ok_def)
  note e = reopen_effect [OF Some ok, of redact hashTree target reason call]
  show ?thesis
  proof (cases "accepts_reopen hashTree run target")
    case None
    with e m show ?thesis by simp
  next
    case acc: (Some k)
    then have k: "k < route_finished (route_of run)" "reopens run < 10"
      by (simp_all add: accepts_reopen_def split: option.splits if_splits del: route_of_simps)
    note s = run_ok_steps [OF ok]
    from k(1) s(3) have kn: "k < length (steps_of run)" by (simp split: if_splits)
    note r = reopened_run_ok [OF ok k]
    have fin: "route_of (reopened_run k run) = route_of run \<lparr> route_finished := k, route_backs := reopens run + 1 \<rparr>"
      using r(2) k by (simp add: route_reopen_def del: route_of_simps(1))
    have cut: "set (take f (steps_of run)) - set (drop k (steps_of run)) = set (take k (steps_of run))" if "k < f" for f
    proof -
      have "take f (steps_of run) = take k (steps_of run) @ take (f - k) (drop k (steps_of run))"
        using that by (metis less_imp_le_nat le_add_diff_inverse take_add)
      moreover have "set (take k (steps_of run)) \<inter> set (drop k (steps_of run)) = {}"
        using s(1) by (metis append_take_drop_id distinct_append)
      moreover have "set (take (f - k) (drop k (steps_of run))) \<subseteq> set (drop k (steps_of run))" by (rule set_take_subset)
      ultimately show ?thesis by auto
    qed
    let ?reopened = "NodeReopened target (node_seq run target) (node_title (the (findPlanNode (run_plan run) target)))
        (cursor run) (drop k (steps_of run)) (model_text redact reason) (present call)"
    have le: "route_finished (route_of run) \<le> length (steps_of run)" using s(3) by simp
    show ?thesis
    proof (rule run_update_ok [OF m Some, where run' = "reopened_run k run" and evs = "[?reopened]"])
      have "carried_steps (reopened_run k run) (es @ [?reopened]) = carried_steps run es" for es
        by (rule carried_append) simp_all
      then show "progress_ok (reopened_run k run) (es @ [?reopened])" if "progress_ok run es" for es
        using that fin cut [OF k(1)] le by (simp add: progress_ok_def del: route_of_simps(1))
    qed (use e acc r(1) in \<open>simp_all add: getEnterpriseActiveRun_def update_conv'\<close>)
  qed
qed

text \<open>Events that only record leave the runs and their progress alone.\<close>

fun neutral :: "TraceEvent \<Rightarrow> bool" where
  "neutral (NodeCompleted n q t s c) = False"
| "neutral (NodeReopened n q t f invalidated r c) = False"
| "neutral (NodeEntered n q t c) = False"
| "neutral _ = True"

lemma emit_machine_ok:
  assumes "machine_ok st" "getEnterpriseActiveRun st i = Some run" "neutral ev"
  shows "machine_ok (emit run ev st)"
proof (rule run_update_ok [OF assms(1,2), where run' = run and evs = "[ev]"])
  show "run_ok run" using assms(1,2) by (simp add: machine_ok_def)
  have "opened_on [ev] = None" using assms(3) by (cases ev) simp_all
  then have "carried_steps run (es @ [ev]) = carried_steps run es" for es by (rule carried_append) simp
  then show "progress_ok run (es @ [ev])" if "progress_ok run es" for es
    using that assms(3) by (cases ev) (auto simp: progress_ok_def)
qed (use assms(2) in auto)

lemma record_machine_ok:
  assumes "machine_ok st" "getEnterpriseActiveRun st i = Some run"
  shows "machine_ok (recordDecision run verdict call st)"
  unfolding recordDecision_def using assms by (rule emit_machine_ok) simp

lemma invoked_machine_ok: "machine_ok st \<Longrightarrow> machine_ok (recordEnterpriseActionInvoked i action writes context st)"
  by (auto simp: recordEnterpriseActionInvoked_def intro: emit_machine_ok split: option.split)

lemma record_lookup [simp]:
  "getEnterpriseActiveRun (recordDecision run verdict call st) j = getEnterpriseActiveRun st j"
  "getEnterpriseActiveRun (recordEnterpriseActionInvoked i action writes context st) j = getEnterpriseActiveRun st j"
  by (simp_all add: recordDecision_def recordEnterpriseActionInvoked_def split: option.split)

lemma run_of_Some: "run_of st i = Some run \<Longrightarrow> getEnterpriseActiveRun st (opt_list i) = Some run"
  by (auto simp: run_of_def split: option.splits if_splits)

lemma judge_machine_ok:
  assumes "machine_ok st"
  shows "machine_ok (fst (evaluateEnterpriseToolCall hashTree i call st))"
proof (cases "run_of st i")
  case None
  with assms show ?thesis by (simp add: evaluateEnterpriseToolCall_def)
next
  case (Some run)
  note rec = record_machine_ok [OF assms run_of_Some [OF Some]]
  have "machine_ok (record_verdict (opt_list i) run node verdict call st)" for node verdict
    using rec assms invoked_machine_ok by (simp add: record_verdict_def Let_def)
  with Some rec assms show ?thesis
    by (simp add: evaluateEnterpriseToolCall_def Let_def split: option.split)
qed

lemma perform_machine_ok:
  assumes "machine_ok st" "admissible st op"
  shows "machine_ok (perform redact hashTree op st)"
proof (cases op)
  case (Steer i t origin)
  with assms show ?thesis
    by (auto simp: recordEnterpriseRunSteer_def intro: emit_machine_ok split: option.split)
next
  case (ResolveApproval i verdict call outcome resolution)
  with assms show ?thesis
    by (auto simp: recordEnterpriseApprovalResolution_def intro: emit_machine_ok split: option.split)
qed (use assms in \<open>auto intro: begin_machine_ok adopt_machine_ok end_machine_ok complete_machine_ok reopen_machine_ok
    judge_machine_ok invoked_machine_ok\<close>)

lemma reachable_machine_ok: "reachable redact hashTree st \<Longrightarrow> machine_ok st"
  by (induction rule: reachable.induct) (auto intro: empty_machine_ok perform_machine_ok)

end
