(* ===== verification/Systems.thy ===== *)
theory Systems
  imports Prelude
begin

text \<open>
  Interfaces the stateful components share: a system of guarded operations that keep an invariant, and a
  concrete system that implements an abstract one through an abstraction function. The lemmas about runs
  of many operations are proved here once; the components interpret the locales on their own operations.
\<close>

section \<open>Guarded operations\<close>

text \<open>A run of operations, each of which must be admissible where it is performed.\<close>

fun run_ops :: "('s \<Rightarrow> 'op \<Rightarrow> bool) \<Rightarrow> ('op \<Rightarrow> 's \<Rightarrow> 's) \<Rightarrow> 'op list \<Rightarrow> 's \<Rightarrow> 's option" where
  "run_ops admissible perform [] s = Some s"
| "run_ops admissible perform (op # ops) s =
     (if admissible s op then run_ops admissible perform ops (perform op s) else None)"

lemma run_ops_append:
  "run_ops admissible perform (ops @ ops') s =
     (case run_ops admissible perform ops s of None \<Rightarrow> None | Some t \<Rightarrow> run_ops admissible perform ops' t)"
  by (induction ops arbitrary: s) auto

locale guarded_system =
  fixes inv :: "'s \<Rightarrow> bool"
    and admissible :: "'s \<Rightarrow> 'op \<Rightarrow> bool"
    and perform :: "'op \<Rightarrow> 's \<Rightarrow> 's"
  assumes keeps: "inv s \<Longrightarrow> admissible s op \<Longrightarrow> inv (perform op s)"
begin

lemma run_keeps: "inv s \<Longrightarrow> run_ops admissible perform ops s = Some t \<Longrightarrow> inv t"
  by (induction ops arbitrary: s) (auto split: if_splits intro: keeps)

lemma run_keeps_between:
  assumes "inv s" "run_ops admissible perform (ops @ ops') s = Some t"
  shows "\<exists>u. run_ops admissible perform ops s = Some u \<and> inv u"
  using assms run_keeps by (auto simp: run_ops_append split: option.splits)

end

section \<open>Refinement\<close>

locale refinement = guarded_system +
  fixes abs :: "'s \<Rightarrow> 'a"
    and astep :: "'op \<Rightarrow> 'a \<Rightarrow> 'a"
  assumes simulates: "inv s \<Longrightarrow> admissible s op \<Longrightarrow> abs (perform op s) = astep op (abs s)"
begin

lemma run_simulates:
  "inv s \<Longrightarrow> run_ops admissible perform ops s = Some t \<Longrightarrow> abs t = fold astep ops (abs s)"
proof (induction ops arbitrary: s)
  case (Cons op ops)
  then have "admissible s op" "run_ops admissible perform ops (perform op s) = Some t" by (auto split: if_splits)
  with Cons.IH [of "perform op s"] Cons.prems(1) show ?case by (simp add: simulates keeps)
qed simp

lemma abstract_invariant:
  assumes "inv s" "run_ops admissible perform ops s = Some t"
    and "P (abs s)" "\<And>op a. P a \<Longrightarrow> P (astep op a)"
  shows "P (abs t)"
proof -
  have "P (fold astep ops a)" if "P a" for a
    using that assms(4) by (induction ops arbitrary: a) auto
  then show ?thesis using run_simulates [OF assms(1,2)] assms(3) by simp
qed

end

end
