(* ===== verification/Run_Properties.thy ===== *)
theory Run_Properties
  imports Run_Machine Systems
begin

text \<open>
  What holds of the runs: the step machine of a run implements the abstract route, a registry that is
  reachable keeps its invariant, and the gate's verdicts follow the mode of the run.
\<close>

section \<open>The registry as a guarded system\<close>

interpretation registry: guarded_system machine_ok admissible "perform redact hashTree" for redact hashTree
  by unfold_locales (rule perform_machine_ok)

section \<open>The cursor implements the abstract route\<close>

datatype CursorOp = Forward | Back nat

fun move :: "CursorOp \<Rightarrow> EnterpriseActiveRun \<Rightarrow> EnterpriseActiveRun" where
  "move Forward run = (if truthy (run_routeCompleted run) then run else completed_run run)"
| "move (Back k) run = (if k < route_finished (route_of run) \<and> reopens run < 10 then reopened_run k run else run)"

fun route_step :: "CursorOp \<Rightarrow> Route \<Rightarrow> Route" where
  "route_step Forward r = route_complete r"
| "route_step (Back k) r = route_reopen k r"

lemma move_ok: "run_ok run \<Longrightarrow> run_ok (move op run)"
  by (cases op) (auto simp del: route_of_simps intro: completed_run_ok(1) reopened_run_ok(1))

lemma move_route:
  assumes "run_ok run"
  shows "route_of (move op run) = route_step op (route_of run)"
proof (cases op)
  case Forward
  show ?thesis
  proof (cases "truthy (run_routeCompleted run)")
    case True
    then have "route_complete (route_of run) = route_of run" by (simp add: route_complete_def)
    with Forward True show ?thesis by simp
  next
    case False
    with Forward completed_run_ok(2) [OF assms False] show ?thesis by simp
  qed
next
  case (Back k)
  show ?thesis
  proof (cases "k < route_finished (route_of run) \<and> reopens run < 10")
    case True
    with Back reopened_run_ok(2) [OF assms] show ?thesis by (simp del: route_of_simps)
  next
    case False
    then have "route_reopen k (route_of run) = route_of run" by (simp only: route_reopen_def route_of_simps(2) if_not_P if_False)
    with Back False show ?thesis by (simp only: move.simps route_step.simps if_not_P if_False)
  qed
qed

interpretation cursor: refinement run_ok "\<lambda>_ _. True" move route_of route_step
  by unfold_locales (erule move_ok move_route)+

lemma move_steps [simp]: "steps_of (move op run) = steps_of run"
  by (cases op) simp_all

declare move.simps [simp del]

lemma tracks_cong:
  "treeId p = treeId q \<Longrightarrow> treeHash p = treeHash q \<Longrightarrow> planTracksSteps hashTree p = planTracksSteps hashTree q"
  by (simp only: planTracksSteps_def)

lemma move_tracks [simp]: "runTracksSteps hashTree (move op run) = runTracksSteps hashTree run"
proof -
  have "treeId (run_plan (move op run)) = treeId (run_plan run) \<and> treeHash (run_plan (move op run)) = treeHash (run_plan run)"
    by (cases op) (simp_all add: move.simps completed_run_def reopened_run_def move_cursor_def)
  then show ?thesis unfolding runTracksSteps_def by (intro tracks_cong) simp_all
qed

text \<open>The calls of the code move the cursor of a tracked run this way.\<close>

lemma complete_moves:
  assumes "machine_ok st" "getEnterpriseActiveRun st i = Some run" "runTracksSteps hashTree run"
    "opt_list expected = [] \<or> expected = Some (cursor run)"
  shows "getEnterpriseActiveRun (fst (completeEnterpriseStep redact hashTree i expected summary call st)) i = Some (move Forward run)"
proof -
  have "run_ok run" using assms(1,2) by (simp add: machine_ok_def)
  from complete_effect [OF assms(2) this, of redact hashTree expected summary call] assms show ?thesis
    by (auto simp: move.simps accepts_completion_def getEnterpriseActiveRun_def update_conv')
qed

lemma reopen_moves:
  assumes "machine_ok st" "getEnterpriseActiveRun st i = Some run" "runTracksSteps hashTree run" "k < length (steps_of run)"
  shows "getEnterpriseActiveRun (fst (reopenEnterpriseStep redact hashTree i (steps_of run ! k) reason call st)) i = Some (move (Back k) run)"
proof -
  have ok: "run_ok run" using assms(1,2) by (simp add: machine_ok_def)
  then have "index_of (steps_of run ! k) (steps_of run) = Some k" using assms(4) run_ok_steps(1) index_of_nth by blast
  with reopen_effect [OF assms(2) ok, of redact hashTree "steps_of run ! k" reason call] assms show ?thesis
    by (auto simp: move.simps accepts_reopen_def getEnterpriseActiveRun_def update_conv' simp del: route_of_simps)
qed

section \<open>A concrete run\<close>

text \<open>The witnesses follow a run of the sample work-map that has closed its first step.\<close>

definition sample_run :: EnterpriseActiveRun where
  "sample_run = \<lparr> run_plan = sample_plan \<lparr> nodes := flattenPlanNodes (tree_root sample_tree) None \<rparr>,
     run_executionId = Some ''e1'', run_policies = [], run_mcpServers = None, run_sessionId = Some ''s1'',
     run_sink = True, run_treeRequiredProperties = None, run_routeCompleted = None, run_reopenCount = None \<rparr>"

definition sample_registry :: Registry where
  "sample_registry = perform id tree_id (CompleteStep ''r1'' None None None)
     (perform id tree_id (BeginRun sample_run []) empty_registry)"

text \<open>A run of the same work-map that resumes an execution which had closed the first step, and closes the second.\<close>

definition resumed_registry :: Registry where
  "resumed_registry = perform id tree_id (CompleteStep ''r1'' None None None)
     (perform id tree_id (BeginRun sample_run [''intake'']) empty_registry)"

lemma sample_admissible: "admissible empty_registry (BeginRun sample_run completed)"
proof -
  have "unique_ids sample_tree" by code_simp
  then have "plan_steps_ok (flattenPlanNodes (tree_root sample_tree) None)"
    by (intro flatten_steps_ok(1)) (simp_all add: unique_ids_def)
  moreover have "[] \<notin> set (steps_of sample_run) \<and> cursor sample_run = hd (steps_of sample_run)
      \<and> \<not> truthy (run_routeCompleted sample_run) \<and> reopens sample_run = 0
      \<and> may_register empty_registry sample_run \<and> events_of (sink_key sample_run) (trace empty_registry) = []"
    by code_simp
  ultimately show ?thesis by (simp add: fresh_run_def) (simp add: sample_run_def)
qed

lemma sample_reachable: "reachable id tree_id sample_registry" "reachable id tree_id resumed_registry"
proof -
  have "reachable id tree_id (perform id tree_id (BeginRun sample_run completed) empty_registry)" for completed
    by (rule operate [OF start sample_admissible])
  then show "reachable id tree_id sample_registry" "reachable id tree_id resumed_registry"
    unfolding sample_registry_def resumed_registry_def by (rule operate, simp)+
qed

lemma sample_current: "\<exists>run. getEnterpriseActiveRun sample_registry ''r1'' = Some run \<and> run_sink run
    \<and> activeNodeId (run_plan run) = ''triage'' \<and> \<not> truthy (run_routeCompleted run) \<and> run_sessionId run = Some ''s1''
    \<and> enterpriseStepSequence (run_plan run) = [''intake'', ''triage'', ''pay'', ''close''] \<and> runTracksSteps tree_id run
    \<and> reopens run = 0 \<and> position run = 1"
proof -
  have "map_option (\<lambda>run. (run_sink run, activeNodeId (run_plan run), truthy (run_routeCompleted run), run_sessionId run,
      enterpriseStepSequence (run_plan run), runTracksSteps tree_id run, reopens run, position run))
      (getEnterpriseActiveRun sample_registry ''r1'')
    = Some (True, ''triage'', False, Some ''s1'', [''intake'', ''triage'', ''pay'', ''close''], True, 0, 1)" by code_simp
  then show ?thesis by auto
qed

section \<open>Properties of the runs\<close>

text \<open>
  C9. Whatever is called in whatever order, in every registry the process can be in, runs that resumed an earlier
  execution included, an active run is kept under its own run id, its cursor stands on a step of its route, and a
  session link names an active run of exactly that session.
\<close>

theorem registry_stays_coherent:
  assumes "reachable redact hashTree st"
  shows "(\<forall>i run. getEnterpriseActiveRun st i = Some run \<longrightarrow>
      runId (run_plan run) = i \<and> activeNodeId (run_plan run) \<in> set (enterpriseStepSequence (run_plan run)))
    \<and> (\<forall>s i. getSessionActiveRunId st s = Some i \<longrightarrow>
        (\<exists>run. getEnterpriseActiveRun st i = Some run \<and> run_sessionId run = Some s))"
proof -
  from assms have m: "machine_ok st" by (rule reachable_machine_ok)
  then have reg: "registry_ok st" by (simp add: machine_ok_def)
  have "activeNodeId (run_plan run) \<in> set (enterpriseStepSequence (run_plan run))"
    if "getEnterpriseActiveRun st i = Some run" for i run
    using that m by (auto simp: machine_ok_def run_ok_def cursor_def steps_of_def)
  moreover have "\<exists>run. getEnterpriseActiveRun st i = Some run \<and> run_sessionId run = Some s"
    if "getSessionActiveRunId st s = Some i" for s i
    using registry_link [OF reg that] by (auto simp: session_of_def split: option.splits if_splits)
  ultimately show ?thesis using registry_okD [OF reg] by blast
qed

theorem registry_coherent_witness:
  "\<exists>run. getEnterpriseActiveRun sample_registry ''r1'' = Some run \<and> runId (run_plan run) = ''r1''
     \<and> activeNodeId (run_plan run) \<in> set (enterpriseStepSequence (run_plan run))"
  using registry_stays_coherent [OF sample_reachable(1)] sample_current by blast

text \<open>
  C10. The trail never lies about the route: in every reachable registry, replaying the events of an execution (a
  completion adds its step, going back takes the steps it invalidates) from the steps it carried over gives exactly
  the steps before the cursor, and the whole route once it is complete. So no step is skipped and none is closed
  twice without having been reopened. An execution carries over the steps of the route before the one it opened on,
  none unless it resumes another, and then only steps that one had finished.
\<close>

theorem trail_replays_to_the_cursor:
  assumes "reachable redact hashTree st" "getEnterpriseActiveRun st i = Some run" "run_sink run"
  shows "replay (carried_steps run (events_of (sink_key run) (trace st))) (events_of (sink_key run) (trace st)) =
      (if truthy (run_routeCompleted run) then set (enterpriseStepSequence (run_plan run))
       else set (takeWhile (\<lambda>s. s \<noteq> activeNodeId (run_plan run)) (enterpriseStepSequence (run_plan run))))
    \<and> (\<forall>new completed. admissible st (BeginRun new completed) \<longrightarrow>
        set (carried_steps new (events_of (sink_key new) (trace (perform redact hashTree (BeginRun new completed) st)))) \<subseteq> set completed)"
proof (intro conjI allI impI)
  from assms have ok: "run_ok run" and p: "progress_ok run (events_of (sink_key run) (trace st))"
    using reachable_machine_ok by (auto simp: machine_ok_def)
  note s = run_ok_steps [OF ok]
  have "takeWhile (\<lambda>x. x \<noteq> cursor run) (steps_of run) = take (position run) (steps_of run)"
    using take_before [OF s(1,3)] s(4) by simp
  with p show "replay (carried_steps run (events_of (sink_key run) (trace st))) (events_of (sink_key run) (trace st)) =
      (if truthy (run_routeCompleted run) then set (enterpriseStepSequence (run_plan run))
       else set (takeWhile (\<lambda>s. s \<noteq> activeNodeId (run_plan run)) (enterpriseStepSequence (run_plan run))))"
    by (simp add: progress_ok_def steps_of_def cursor_def)
  fix new completed
  assume "admissible st (BeginRun new completed)"
  then have "fresh_run st new" by simp
  from begun_run(3) [OF this refl, of hashTree completed]
  show "set (carried_steps new (events_of (sink_key new) (trace (perform redact hashTree (BeginRun new completed) st)))) \<subseteq> set completed"
    by (simp add: carried_opened)
qed

theorem trail_replays_witness:
  "\<exists>run. getEnterpriseActiveRun resumed_registry ''r1'' = Some run \<and> activeNodeId (run_plan run) = ''pay''
     \<and> carried_steps run (events_of (sink_key run) (trace resumed_registry)) = [''intake'']
     \<and> replay [''intake''] (events_of (sink_key run) (trace resumed_registry)) = {''intake'', ''triage''}"
proof -
  have "map_option (\<lambda>run. (run_sink run, activeNodeId (run_plan run), truthy (run_routeCompleted run),
      enterpriseStepSequence (run_plan run), carried_steps run (events_of (sink_key run) (trace resumed_registry))))
      (getEnterpriseActiveRun resumed_registry ''r1'')
    = Some (True, ''pay'', False, [''intake'', ''triage'', ''pay'', ''close''], [''intake''])" by code_simp
  then obtain run where r: "getEnterpriseActiveRun resumed_registry ''r1'' = Some run" "run_sink run"
    "activeNodeId (run_plan run) = ''pay''" "\<not> truthy (run_routeCompleted run)"
    "enterpriseStepSequence (run_plan run) = [''intake'', ''triage'', ''pay'', ''close'']"
    "carried_steps run (events_of (sink_key run) (trace resumed_registry)) = [''intake'']" by auto
  from trail_replays_to_the_cursor [OF sample_reachable(2) r(1,2)] r show ?thesis by auto
qed

text \<open>
  C11. A run cannot loop: over its whole life an execution goes back at most ten times and closes at most
  eleven times as many steps as its route has.
\<close>

theorem runs_are_bounded:
  assumes "reachable redact hashTree st" "getEnterpriseActiveRun st i = Some run" "run_sink run"
  shows "length (filter is_reopening (events_of (sink_key run) (trace st))) \<le> 10
    \<and> length (filter is_completion (events_of (sink_key run) (trace st))) \<le> 11 * length (enterpriseStepSequence (run_plan run))"
proof -
  from assms have ok: "run_ok run" and p: "progress_ok run (events_of (sink_key run) (trace st))"
    using reachable_machine_ok by (auto simp: machine_ok_def)
  let ?n = "length (steps_of run)"
  from ok have "reopens run \<le> 10" by (simp add: run_ok_def)
  then have "reopens run * ?n \<le> 10 * ?n" by simp
  moreover have "route_finished (route_of run) \<le> ?n" using run_ok_steps(3) [OF ok] by simp
  ultimately have "reopens run * ?n + route_finished (route_of run) \<le> 11 * ?n" by linarith
  with p \<open>reopens run \<le> 10\<close> show ?thesis by (simp add: progress_ok_def steps_of_def del: route_of_simps(1))
qed

theorem runs_are_bounded_witness:
  "\<exists>run. getEnterpriseActiveRun sample_registry ''r1'' = Some run
     \<and> length (filter is_completion (events_of (sink_key run) (trace sample_registry))) \<le> 44"
proof -
  from sample_current obtain run where r: "getEnterpriseActiveRun sample_registry ''r1'' = Some run" "run_sink run"
    "enterpriseStepSequence (run_plan run) = [''intake'', ''triage'', ''pay'', ''close'']" by blast
  from runs_are_bounded [OF sample_reachable(1) r(1,2)] r show ?thesis by auto
qed

text \<open>
  C12. The two cursor operations implement the abstract route: finishing the current step moves the number of
  finished steps from \<open>k\<close> to \<open>k + 1\<close> and never past the end, and reopening step \<open>k\<close> makes \<open>k\<close> steps finished,
  which is refused at or after the current step and after ten times. Neither touches another run.
\<close>

theorem cursor_implements_the_route:
  assumes "reachable redact hashTree st" "getEnterpriseActiveRun st i = Some run" "runTracksSteps hashTree run"
    "k < length (enterpriseStepSequence (run_plan run))"
  shows "(\<exists>run'. getEnterpriseActiveRun (fst (completeEnterpriseStep redact hashTree i None summary call st)) i = Some run'
        \<and> route_of run' = route_complete (route_of run))
    \<and> (\<exists>run'. getEnterpriseActiveRun (fst (reopenEnterpriseStep redact hashTree i
            (enterpriseStepSequence (run_plan run) ! k) reason call st)) i = Some run'
        \<and> route_of run' = route_reopen k (route_of run))
    \<and> (\<forall>j. j \<noteq> i \<longrightarrow>
         getEnterpriseActiveRun (fst (completeEnterpriseStep redact hashTree i None summary call st)) j = getEnterpriseActiveRun st j
       \<and> getEnterpriseActiveRun (fst (reopenEnterpriseStep redact hashTree i
            (enterpriseStepSequence (run_plan run) ! k) reason call st)) j = getEnterpriseActiveRun st j)"
proof -
  from assms have m: "machine_ok st" and ok: "run_ok run" using reachable_machine_ok by (auto simp: machine_ok_def)
  have "getEnterpriseActiveRun (fst (completeEnterpriseStep redact hashTree i None summary call st)) j = getEnterpriseActiveRun st j"
    "getEnterpriseActiveRun (fst (reopenEnterpriseStep redact hashTree i (steps_of run ! k) reason call st)) j = getEnterpriseActiveRun st j"
    if "j \<noteq> i" for j
    using that by (simp_all add: complete_effect [OF assms(2) ok] reopen_effect [OF assms(2) ok]
        getEnterpriseActiveRun_def update_conv' split: option.split)
  moreover note complete_moves [OF m assms(2,3), of None redact summary call]
    reopen_moves [OF m assms(2,3), of k redact reason call]
  ultimately show ?thesis using assms(4) move_route [OF ok, of Forward] move_route [OF ok, of "Back k"]
    by (auto simp: steps_of_def simp del: route_of_simps)
qed

theorem cursor_implements_witness:
  "\<exists>run run'. getEnterpriseActiveRun sample_registry ''r1'' = Some run
     \<and> getEnterpriseActiveRun (fst (reopenEnterpriseStep id tree_id ''r1'' ''intake'' None None sample_registry)) ''r1'' = Some run'
     \<and> route_of run' = \<lparr> route_total = 4, route_finished = 0, route_backs = 1 \<rparr>"
proof -
  from sample_current obtain run where r: "getEnterpriseActiveRun sample_registry ''r1'' = Some run" "runTracksSteps tree_id run"
    "\<not> truthy (run_routeCompleted run)" "reopens run = 0" "position run = 1"
    "enterpriseStepSequence (run_plan run) = [''intake'', ''triage'', ''pay'', ''close'']" by blast
  then have "route_reopen 0 (route_of run) = \<lparr> route_total = 4, route_finished = 0, route_backs = 1 \<rparr>"
    by (simp add: route_reopen_def route_of_def steps_of_def)
  with cursor_implements_the_route [OF sample_reachable(1) r(1,2), where k = 0 and reason = None and call = None and summary = None] r show ?thesis by auto
qed

text \<open>Completing again and again.\<close>

definition complete_once ::
  "(string \<Rightarrow> string) \<Rightarrow> (WorkflowTreeDefinition \<Rightarrow> string) \<Rightarrow> string \<Rightarrow> Registry \<Rightarrow> Registry" where
  "complete_once redact hashTree i st = fst (completeEnterpriseStep redact hashTree i None None None st)"

lemma complete_once_ok:
  assumes "machine_ok st" "getEnterpriseActiveRun st i = Some run" "runTracksSteps hashTree run"
  shows "machine_ok (complete_once redact hashTree i st)"
    "getEnterpriseActiveRun (complete_once redact hashTree i st) i = Some (move Forward run)"
  unfolding complete_once_def using complete_machine_ok [OF assms(1)] complete_moves [OF assms] by simp_all

lemma complete_times:
  assumes "machine_ok st" "getEnterpriseActiveRun st i = Some run" "runTracksSteps hashTree run"
  shows "getEnterpriseActiveRun ((complete_once redact hashTree i ^^ n) st) i = Some ((move Forward ^^ n) run)
    \<and> machine_ok ((complete_once redact hashTree i ^^ n) st) \<and> runTracksSteps hashTree ((move Forward ^^ n) run)"
proof (induction n)
  case (Suc n)
  then show ?case using complete_once_ok by simp
qed (use assms in simp)

lemma forward_times:
  assumes "run_ok run"
  shows "run_ok ((move Forward ^^ n) run) \<and> steps_of ((move Forward ^^ n) run) = steps_of run
    \<and> route_finished (route_of ((move Forward ^^ n) run)) = min (route_finished (route_of run) + n) (length (steps_of run))"
proof (induction n)
  case 0
  then show ?case using assms run_ok_steps(3) [OF assms] by simp
next
  case (Suc n)
  let ?r = "(move Forward ^^ n) run"
  have "route_of (move Forward ?r) = route_complete (route_of ?r)"
    using Suc move_route [of ?r Forward] by (simp del: route_of_simps)
  with Suc move_ok [of ?r Forward] show ?case
    by (auto simp: route_complete_def min_def simp del: route_of_simps(1))
qed

text \<open>
  C13. Every tracked run can be finished: from any reachable registry, calling \<open>complete_step\<close> once for every
  step that is not finished closes the route, with the cursor left on its last step.
\<close>

theorem tracked_runs_can_finish:
  assumes "reachable redact hashTree st" "getEnterpriseActiveRun st i = Some run" "runTracksSteps hashTree run"
    "n = length (enterpriseStepSequence (run_plan run)) - route_finished (route_of run)"
  shows "\<exists>run'. getEnterpriseActiveRun ((complete_once redact hashTree i ^^ n) st) i = Some run'
    \<and> truthy (run_routeCompleted run')
    \<and> enterpriseStepSequence (run_plan run') = enterpriseStepSequence (run_plan run)
    \<and> activeNodeId (run_plan run') = last (enterpriseStepSequence (run_plan run))"
proof -
  from assms have m: "machine_ok st" and ok: "run_ok run" using reachable_machine_ok by (auto simp: machine_ok_def)
  let ?r = "(move Forward ^^ n) run"
  note f = forward_times [OF ok, of n]
  have "route_finished (route_of run) \<le> length (steps_of run)" using run_ok_steps(3) [OF ok] by simp
  then have "route_finished (route_of ?r) = length (steps_of ?r)"
    using f assms(4) by (simp add: steps_of_def del: route_of_simps(1))
  then have "truthy (run_routeCompleted ?r)" using f run_ok_steps(3) [of ?r] by (auto split: if_splits)
  with f complete_times [OF m assms(2,3), where n = n and redact = redact] show ?thesis
    by (auto simp: run_ok_def steps_of_def cursor_def)
qed

theorem tracked_runs_can_finish_witness:
  "\<exists>run'. getEnterpriseActiveRun ((complete_once id tree_id ''r1'' ^^ 3) sample_registry) ''r1'' = Some run'
     \<and> truthy (run_routeCompleted run') \<and> activeNodeId (run_plan run') = ''close''"
proof -
  from sample_current obtain run where r: "getEnterpriseActiveRun sample_registry ''r1'' = Some run" "runTracksSteps tree_id run"
    "\<not> truthy (run_routeCompleted run)" "position run = 1"
    "enterpriseStepSequence (run_plan run) = [''intake'', ''triage'', ''pay'', ''close'']" by blast
  then have "3 = length (enterpriseStepSequence (run_plan run)) - route_finished (route_of run)" by simp
  from tracked_runs_can_finish [OF sample_reachable(1) r(1,2) this] r show ?thesis by auto
qed

end
