(* ===== verification/Gate_Properties.thy ===== *)
theory Gate_Properties
  imports Run_Properties
begin

text \<open>What the per-call gate of a run promises: its verdicts, its records, and what it lets out.\<close>

section \<open>What the gate returns and records\<close>

lemma verdict_for_simps [simp]:
  "vd_decision (verdict_for plan node d) = d" "vd_nodeId (verdict_for plan node d) = node"
  "vd_mode (verdict_for plan node d) = plan_mode plan"
  "vd_blocked (verdict_for plan node d) \<longleftrightarrow> dec_effect d = EffDeny \<and> plan_mode plan = ModeEnforce"
  "vd_requiresApproval (verdict_for plan node d) \<longleftrightarrow> dec_effect d = EffRequireApproval \<and> plan_mode plan = ModeEnforce"
  by (simp_all add: verdict_for_def)

lemma recordDecision_simps [simp]:
  "activeRuns (recordDecision run v call st) = activeRuns st"
  "sessionActiveRuns (recordDecision run v call st) = sessionActiveRuns st"
  by (simp_all add: recordDecision_def)

lemma recordDecision_trace:
  "run_sink run \<Longrightarrow> \<exists>d. dr_enforced d = vd_blocked v \<and> dr_toolName d = gc_toolName call \<and> dr_effect d = dec_effect (vd_decision v)
    \<and> trace (recordDecision run v call st) = trace st @ [(sink_key run, GovernanceDecided (vd_nodeId v) d)]"
  by (simp add: recordDecision_def)

lemma invoked_simps [simp]:
  "activeRuns (recordEnterpriseActionInvoked i a w ctx st) = activeRuns st"
  "sessionActiveRuns (recordEnterpriseActionInvoked i a w ctx st) = sessionActiveRuns st"
  by (simp_all add: recordEnterpriseActionInvoked_def split: option.split)

lemma record_verdict_simps [simp]:
  "activeRuns (record_verdict i run node v call st) = activeRuns st"
  "sessionActiveRuns (record_verdict i run node v call st) = sessionActiveRuns st"
  by (simp_all add: record_verdict_def Let_def)

lemma record_verdict_blocked:
  "vd_blocked v \<Longrightarrow> dec_effect (vd_decision v) = EffDeny \<Longrightarrow> \<not> vd_requiresApproval v \<Longrightarrow>
   record_verdict i run node v call st = recordDecision run v call st"
  by (simp add: record_verdict_def Let_def)

lemma hard_denial_effect [simp]: "dec_effect (writes_decision node) = EffDeny" "dec_outwardActionId (writes_decision node) = None"
  by (simp_all add: writes_decision_def hard_denial_def)

lemma failed_decision_effect [simp]:
  "dec_effect (failed_decision mode m) = (if mode = ModeEnforce then EffDeny else EffAllow)"
  by (simp add: failed_decision_def)

text \<open>The three ways a call of a mediated run is judged.\<close>

lemma judge_cases:
  assumes "run_of st i = Some run"
  obtains (missing) m where "findPlanNode (run_plan run) (activeNodeId (run_plan run)) = None"
      "evaluateEnterpriseToolCall hashTree i call st =
        (let v = verdict_for (run_plan run) (activeNodeId (run_plan run)) (failed_decision (plan_mode (run_plan run)) m)
         in (recordDecision run v call st, Some v))"
  | (refused) node where "findPlanNode (run_plan run) (activeNodeId (run_plan run)) = Some node"
      "toolCarriesOntologyAction (gc_toolName call)" "\<not> activeNodeAllowsWrites (run_plan run)"
      "evaluateEnterpriseToolCall hashTree i call st =
        (let v = verdict_for (run_plan run) (nodeId node) (writes_decision node)
         in (if vd_blocked v \<or> gc_record call \<noteq> Some False then recordDecision run v call st else st, Some v))"
  | (judged) node where "findPlanNode (run_plan run) (activeNodeId (run_plan run)) = Some node"
      "toolCarriesOntologyAction (gc_toolName call) \<longrightarrow> activeNodeAllowsWrites (run_plan run)"
      "evaluateEnterpriseToolCall hashTree i call st =
        (let v = verdict_for (run_plan run) (nodeId node)
               (evaluateToolCallGovernance (run_plan run) node (run_policies run) (tool_call_of hashTree run call))
         in (record_verdict (opt_list i) run node v call st, Some v))"
proof (cases "findPlanNode (run_plan run) (activeNodeId (run_plan run))")
  case None
  with assms show thesis by (intro missing) (simp_all add: evaluateEnterpriseToolCall_def Let_def)
next
  case (Some node)
  show thesis
  proof (cases "toolCarriesOntologyAction (gc_toolName call) \<and> \<not> activeNodeAllowsWrites (run_plan run)")
    case True
    with assms Some show thesis by (intro refused) (simp_all add: evaluateEnterpriseToolCall_def Let_def)
  next
    case False
    with assms Some show thesis by (intro judged) (auto simp: evaluateEnterpriseToolCall_def Let_def)
  qed
qed

section \<open>Properties\<close>

definition sample_gate_call :: "string \<Rightarrow> GateCall" where
  "sample_gate_call tool = \<lparr> gc_toolName = tool, gc_mcpTool = None, gc_toolCallId = Some ''t1'', gc_actionId = None,
     gc_record = None, gc_released = None, gc_toolParams = NotAnObject \<rparr>"

text \<open>
  C14. The gate fails closed and observe mode never interferes: every call of a mediated run gets a verdict,
  which blocks exactly the denials of enforce mode and asks exactly for its approvals; a plan that has lost
  its active step blocks everything in enforce mode; judging changes no run and no session; and a blocked
  call always leaves one decision in the trail, recorded as enforced, even when recording was not asked for.
\<close>

theorem gate_fails_closed:
  assumes "run_of st i = Some run" "evaluateEnterpriseToolCall hashTree i call st = (st', verdict)"
  shows "\<exists>v. verdict = Some v \<and> vd_mode v = plan_mode (run_plan run)
    \<and> (vd_blocked v \<longleftrightarrow> plan_mode (run_plan run) = ModeEnforce \<and> dec_effect (vd_decision v) = EffDeny)
    \<and> (vd_requiresApproval v \<longleftrightarrow> plan_mode (run_plan run) = ModeEnforce \<and> dec_effect (vd_decision v) = EffRequireApproval)
    \<and> (findPlanNode (run_plan run) (activeNodeId (run_plan run)) = None \<longrightarrow>
         (vd_blocked v \<longleftrightarrow> plan_mode (run_plan run) = ModeEnforce))
    \<and> activeRuns st' = activeRuns st \<and> sessionActiveRuns st' = sessionActiveRuns st
    \<and> (vd_blocked v \<and> run_sink run \<longrightarrow> (\<exists>d. dr_enforced d \<and> dr_toolName d = gc_toolName call
         \<and> trace st' = trace st @ [(sink_key run, GovernanceDecided (vd_nodeId v) d)]))"
  using assms(1)
proof (cases rule: judge_cases [of st i run hashTree call])
  case (missing m)
  with assms(2) show ?thesis
    using recordDecision_trace [of run "verdict_for (run_plan run) (activeNodeId (run_plan run))
      (failed_decision (plan_mode (run_plan run)) m)" call st]
    by (auto simp: Let_def)
next
  case (refused node)
  with assms(2) show ?thesis
    using recordDecision_trace [of run "verdict_for (run_plan run) (nodeId node) (writes_decision node)" call st]
    by (auto simp: Let_def)
next
  case (judged node)
  with assms(2) show ?thesis
    using recordDecision_trace [of run "verdict_for (run_plan run) (nodeId node)
      (evaluateToolCallGovernance (run_plan run) node (run_policies run) (tool_call_of hashTree run call))" call st]
    by (auto simp: Let_def record_verdict_blocked)
qed

theorem gate_fails_closed_witness:
  "\<exists>st' v. evaluateEnterpriseToolCall tree_id (Some ''r1'') (sample_gate_call ''exec'') sample_registry = (st', Some v)
    \<and> \<not> vd_blocked v \<and> \<not> vd_requiresApproval v \<and> activeRuns st' = activeRuns sample_registry"
proof -
  obtain run where r: "run_of sample_registry (Some ''r1'') = Some run"
    using sample_current by (auto simp: run_of_def)
  obtain st' verdict where e: "evaluateEnterpriseToolCall tree_id (Some ''r1'') (sample_gate_call ''exec'') sample_registry = (st', verdict)"
    by fastforce
  have "map_option (\<lambda>v. dec_effect (vd_decision v))
      (snd (evaluateEnterpriseToolCall tree_id (Some ''r1'') (sample_gate_call ''exec'') sample_registry)) = Some EffAllow"
    by code_simp
  with gate_fails_closed [OF r e] e show ?thesis by auto
qed

text \<open>
  C15. Ontology writes need the step's own consent: in enforce mode a call of \<open>invoke_action\<close> from a step that
  does not name it is blocked before any policy or approval is looked at, and nothing is recorded as
  having happened.
\<close>

theorem writes_need_consent:
  assumes "run_of st i = Some run" "plan_mode (run_plan run) = ModeEnforce"
    "findPlanNode (run_plan run) (activeNodeId (run_plan run)) = Some node" "gc_toolName call = ''invoke_action''"
    "\<not> explicitlyAllowsOntologyWrites node" "evaluateEnterpriseToolCall hashTree i call st = (st', verdict)"
  shows "\<exists>v. verdict = Some v \<and> vd_blocked v \<and> dec_source (vd_decision v) = SrcOntology
    \<and> (\<exists>evs. trace st' = trace st @ evs \<and> (\<forall>e \<in> set evs. \<exists>d. snd e = GovernanceDecided (nodeId node) d \<and> dr_enforced d))"
  using assms(1)
proof (cases rule: judge_cases [of st i run hashTree call])
  case (refused n)
  with assms have n: "n = node" by simp
  show ?thesis using refused assms n
    by (auto simp: Let_def recordDecision_def writes_decision_def hard_denial_def)
qed (use assms in \<open>auto simp: toolCarriesOntologyAction_def activeNodeAllowsWrites_def\<close>)

theorem writes_need_consent_witness:
  "\<exists>st' v. evaluateEnterpriseToolCall tree_id (Some ''r1'') (sample_gate_call ''invoke_action'') sample_registry = (st', Some v)
    \<and> vd_blocked v"
proof -
  obtain run where r: "run_of sample_registry (Some ''r1'') = Some run"
    using sample_current by (auto simp: run_of_def)
  have "map_option (\<lambda>run. plan_mode (run_plan run) = ModeEnforce \<and> \<not> activeNodeAllowsWrites (run_plan run)
      \<and> findPlanNode (run_plan run) (activeNodeId (run_plan run)) \<noteq> None) (run_of sample_registry (Some ''r1'')) = Some True"
    by code_simp
  with r obtain node where h: "plan_mode (run_plan run) = ModeEnforce" "\<not> explicitlyAllowsOntologyWrites node"
    "findPlanNode (run_plan run) (activeNodeId (run_plan run)) = Some node"
    by (auto simp: activeNodeAllowsWrites_def)
  obtain st' verdict where e: "evaluateEnterpriseToolCall tree_id (Some ''r1'') (sample_gate_call ''invoke_action'') sample_registry = (st', verdict)"
    by fastforce
  from writes_need_consent [OF r h(1,3) _ h(2) e] e show ?thesis by (auto simp: sample_gate_call_def)
qed

text \<open>
  C16. The trail claims a dispatch only for a call that was let out: when judging a call appends an outward
  action, the call was released, neither blocked nor waiting for an approval, and the active step declares
  that action with a call effect whose contract the arguments meet.
\<close>

theorem dispatches_are_authorised:
  assumes "run_of st i = Some run" "evaluateEnterpriseToolCall hashTree i call st = (st', Some v)"
    "trace st' = trace st @ evs" "(key, ActionInvoked n a w args) \<in> set evs"
  shows "gc_released call \<noteq> Some False \<and> \<not> vd_blocked v \<and> \<not> vd_requiresApproval v \<and> dec_effect (vd_decision v) \<noteq> EffDeny
    \<and> (\<exists>node action. findPlanNode (run_plan run) (activeNodeId (run_plan run)) = Some node
        \<and> action \<in> set (effectiveActionsOnPath [node]) \<and> act_id action = a
        \<and> contract_met action (callArguments (gc_toolParams call))
        \<and> (\<exists>e. CallEffect e \<in> set (opt_list (act_effects action))))"
  using assms(1)
proof (cases rule: judge_cases [of st i run hashTree call])
  case (judged node)
  let ?d = "evaluateToolCallGovernance (run_plan run) node (run_policies run) (tool_call_of hashTree run call)"
  let ?v = "verdict_for (run_plan run) (nodeId node) ?d"
  from judged assms(2) have v: "v = ?v" "st' = record_verdict (opt_list i) run node ?v call st" by (auto simp: Let_def)
  have run: "getEnterpriseActiveRun st (opt_list i) = Some run" using assms(1) by (rule run_of_Some)
  have out: "gc_released call \<noteq> Some False \<and> opt_list (dec_outwardActionId ?d) \<noteq> [] \<and> \<not> vd_blocked ?v
      \<and> \<not> vd_requiresApproval ?v \<and> dec_effect ?d \<noteq> EffDeny \<and> a = opt_list (dec_outwardActionId ?d)"
    using assms(3,4) v(2) run
    by (auto simp: record_verdict_def recordEnterpriseActionInvoked_def recordDecision_def Let_def split: if_splits)
  then have "dec_outwardActionId ?d = Some a" by (cases "dec_outwardActionId ?d") auto
  from outward_stamp_met [OF this] judged(1) out v(1) show ?thesis
    by (auto simp: tool_call_of_def)
qed (use assms in \<open>auto simp: Let_def recordDecision_def split: if_splits\<close>)

definition sample_outward_registry :: Registry where
  "sample_outward_registry = registerEnterpriseActiveRun
     (sample_run \<lparr> run_plan := sample_plan \<lparr> mcpGoverned := Some False \<rparr> \<rparr>) empty_registry"

definition sample_outward_call :: GateCall where
  "sample_outward_call = (let c = sample_mcp_call (ParamObject [(''case'', ArgValue (VStr ''c-7''))]) in
     (sample_gate_call (tc_toolName c)) \<lparr> gc_mcpTool := tc_mcpTool c, gc_toolParams := tc_toolParams c \<rparr>)"

theorem dispatches_are_authorised_witness:
  "\<exists>st' v. evaluateEnterpriseToolCall tree_id (Some ''r1'') sample_outward_call sample_outward_registry = (st', Some v)
    \<and> \<not> vd_blocked v \<and> (\<exists>key n w args. (key, ActionInvoked n ''refund'' w args) \<in> set (trace st'))"
proof -
  let ?r = "evaluateEnterpriseToolCall tree_id (Some ''r1'') sample_outward_call sample_outward_registry"
  obtain run where r: "run_of sample_outward_registry (Some ''r1'') = Some run"
    by (cases "run_of sample_outward_registry (Some ''r1'')") (code_simp, simp)
  have "(trace (fst ?r), map_option (\<lambda>v. True) (snd ?r)) = ([((''r1'', Some ''e1''),
      ActionInvoked ''intake'' ''refund'' [DispatchedCall ''pay__refund''] [(''case'', ArgValue (VStr ''c-7''))])], Some True)"
    by code_simp
  then have tr: "trace (fst ?r) = [((''r1'', Some ''e1''),
      ActionInvoked ''intake'' ''refund'' [DispatchedCall ''pay__refund''] [(''case'', ArgValue (VStr ''c-7''))])]"
    and e: "map_option (\<lambda>v. True) (snd ?r) = Some True" by blast+
  from e obtain v where "?r = (fst ?r, Some v)" by (cases ?r) auto
  moreover have "trace (fst ?r) = trace sample_outward_registry @ trace (fst ?r)"
    by (simp add: sample_outward_registry_def registerEnterpriseActiveRun_def empty_registry_def Let_def set_run_def split: option.split)
  ultimately have "\<not> vd_blocked v"
    using dispatches_are_authorised [OF r, of tree_id sample_outward_call "fst ?r" v "trace (fst ?r)"] tr by auto
  with \<open>?r = (fst ?r, Some v)\<close> tr show ?thesis by (metis list.set_intros(1))
qed

end
