(* ===== verification/Tree_Schema.thy ===== *)
theory Tree_Schema
  imports Tree_References Governance
begin

text \<open>
  Validation of imported definitions, \<^verbatim>\<open>src/enterprise/schema.ts\<close>. The schema library parses a value into
  the record it describes and then runs the refinements, so the model starts from the record: \<open>tree_fields_ok\<close>
  is what the field schemas demand of it and \<open>tree_issues\<close> the list the refinement of a whole tree reports,
  with the path and the text of every issue. A definition is accepted when both are satisfied. The unknown keys
  a strict object refuses have no place in a record.
\<close>

section \<open>Field schemas\<close>

definition ENTERPRISE_ID_PATTERN :: "string \<Rightarrow> bool" where
  "ENTERPRISE_ID_PATTERN s = list_all id_segment (split_on (CHR ''.'') s)"

definition not_blank :: "string \<Rightarrow> bool" where
  "not_blank s = (trim s \<noteq> [])"

definition opt_ok :: "('a \<Rightarrow> bool) \<Rightarrow> 'a option \<Rightarrow> bool" where
  "opt_ok P x = (case x of None \<Rightarrow> True | Some v \<Rightarrow> P v)"

definition list_ok :: "('a \<Rightarrow> bool) \<Rightarrow> 'a list option \<Rightarrow> bool" where
  "list_ok P xs = list_all P (opt_list xs)"

text \<open>\<open>/^[a-z0-9]+(-[a-z0-9]+)*$/\<close>, at most 64 code units.\<close>

definition skill_name_ok :: "string \<Rightarrow> bool" where
  "skill_name_ok s = (length s \<le> 64 \<and>
     list_all (\<lambda>seg. seg \<noteq> [] \<and> list_all (\<lambda>c. is_lower c \<or> is_digit c) seg) (split_on (CHR ''-'') s))"

definition property_ok :: "OntologyProperty \<Rightarrow> bool" where
  "property_ok p = ENTERPRISE_ID_PATTERN (prop_id p)"

text \<open>The refinement of an object type: no property twice, at most one primary key.\<close>

definition entity_ok :: "OntologyEntity \<Rightarrow> bool" where
  "entity_ok e = (ENTERPRISE_ID_PATTERN (ent_id e) \<and> opt_ok (\<lambda>t. t \<noteq> []) (ent_title e)
     \<and> list_ok property_ok (ent_properties e)
     \<and> distinct (map prop_id (opt_list (ent_properties e)))
     \<and> length (filter (\<lambda>p. truthy (prop_primaryKey p)) (opt_list (ent_properties e))) \<le> 1)"

definition relationship_ok :: "OntologyRelationship \<Rightarrow> bool" where
  "relationship_ok r = (ENTERPRISE_ID_PATTERN (rel_id r) \<and> ENTERPRISE_ID_PATTERN (rel_from r)
     \<and> ENTERPRISE_ID_PATTERN (rel_to r) \<and> opt_ok not_blank (rel_inverse r))"

definition action_parameter_ok :: "OntologyActionParameter \<Rightarrow> bool" where
  "action_parameter_ok p = ENTERPRISE_ID_PATTERN (par_id p)"

fun effect_ok :: "OntologyActionEffect \<Rightarrow> bool" where
  "effect_ok (ObjectEffect e) = ENTERPRISE_ID_PATTERN (oe_entity e)"
| "effect_ok (CallEffect e) = not_blank (ce_tool e)"
| "effect_ok (LinkEffect e) = (ENTERPRISE_ID_PATTERN (le_relationship e) \<and> opt_ok ENTERPRISE_ID_PATTERN (le_from e)
     \<and> opt_ok ENTERPRISE_ID_PATTERN (le_to e))"

definition action_ok :: "OntologyAction \<Rightarrow> bool" where
  "action_ok a = (ENTERPRISE_ID_PATTERN (act_id a) \<and> opt_ok (\<lambda>t. t \<noteq> []) (act_title a)
     \<and> list_ok not_blank (act_tools a) \<and> list_ok action_parameter_ok (act_parameters a)
     \<and> list_ok not_blank (act_preconditions a) \<and> list_ok effect_ok (act_effects a))"

text \<open>The refinement of a function: its expression parses.\<close>

definition function_ok :: "OntologyFunction \<Rightarrow> bool" where
  "function_ok f = (ENTERPRISE_ID_PATTERN (fn_id f) \<and> opt_ok (\<lambda>t. t \<noteq> []) (fn_title f)
     \<and> ENTERPRISE_ID_PATTERN (fn_entity f) \<and> not_blank (fn_expression f)
     \<and> (case parseOntologyExpression (fn_expression f) of Inl e \<Rightarrow> False | Inr n \<Rightarrow> True))"

definition constraint_ok :: "OntologyConstraint \<Rightarrow> bool" where
  "constraint_ok c = (ENTERPRISE_ID_PATTERN (con_id c) \<and> con_description c \<noteq> [])"

definition binding_ok :: "OntologyBinding \<Rightarrow> bool" where
  "binding_ok b = (list_ok entity_ok (entities b) \<and> list_ok relationship_ok (relationships b)
     \<and> list_ok action_ok (actions b) \<and> list_ok function_ok (ont_functions b) \<and> list_ok constraint_ok (constraints b)
     \<and> list_ok not_blank (allowedTools b) \<and> list_ok not_blank (deniedTools b)
     \<and> list_ok ENTERPRISE_ID_PATTERN (knowledgeFoundations b) \<and> list_ok not_blank (contextHints b)
     \<and> opt_ok not_blank (guidance b) \<and> list_ok skill_name_ok (skills b) \<and> list_ok not_blank (mcpServers b))"

definition node_ok_fields :: "WorkflowNodeDefinition \<Rightarrow> bool" where
  "node_ok_fields n = (ENTERPRISE_ID_PATTERN (wn_id n) \<and> wn_title n \<noteq> [] \<and> opt_ok binding_ok (wn_ontology n))"

definition match_ok :: "WorkflowTreeMatch \<Rightarrow> bool" where
  "match_ok m = (opt_ok (\<lambda>ks. ks \<noteq> [] \<and> list_all not_blank ks) (match_keywords m)
     \<and> opt_ok (\<lambda>ts. ts \<noteq> []) (match_triggers m))"

text \<open>\<open>/^[^\s/@]+\/[^\s@]+$/\<close>: the first slash ends a non-empty provider.\<close>

definition execution_model_ok :: "string \<Rightarrow> bool" where
  "execution_model_ok s = (let provider = takeWhile (\<lambda>c. c \<noteq> CHR ''/'') s; rest = dropWhile (\<lambda>c. c \<noteq> CHR ''/'') s in
     length s \<le> 512 \<and> provider \<noteq> [] \<and> list_all (\<lambda>c. \<not> is_space c \<and> c \<noteq> CHR ''@'') provider
     \<and> 1 < length rest \<and> list_all (\<lambda>c. \<not> is_space c \<and> c \<noteq> CHR ''@'') (tl rest))"

definition tree_fields_ok :: "WorkflowTreeDefinition \<Rightarrow> bool" where
  "tree_fields_ok t = (ENTERPRISE_ID_PATTERN (tree_id t) \<and> tree_version t \<noteq> [] \<and> tree_name t \<noteq> []
     \<and> opt_ok match_ok (tree_match t) \<and> opt_ok execution_model_ok (tree_executionModel t)
     \<and> list_all node_ok_fields (walkWorkflowNodes (tree_root t)))"

section \<open>The catalog of a tree\<close>

record Issue =
  issue_path :: "string list"
  issue_message :: string

definition issue :: "string list \<Rightarrow> string \<Rightarrow> Issue" where
  "issue path message = \<lparr> issue_path = path, issue_message = message \<rparr>"

record EntityShape =
  shape_primaryKey :: "string option"
  shape_types :: "(string \<times> OntologyValueType) list"
  shape_required :: "string list"

record LinkShape =
  ls_cardinality :: "OntologyCardinality option"
  ls_inverse :: "string option"

record TreeCatalog =
  cat_seen :: "string list"
  cat_entities :: "string list"
  cat_shapes :: "(string \<times> EntityShape) list"
  cat_links :: "((string \<times> string \<times> string) \<times> LinkShape) list"
  cat_relationships :: "string list"
  cat_issues :: "Issue list"

definition empty_shape :: EntityShape where
  "empty_shape = \<lparr> shape_primaryKey = None, shape_types = [], shape_required = [] \<rparr>"

definition empty_catalog :: TreeCatalog where
  "empty_catalog = \<lparr> cat_seen = [], cat_entities = [], cat_shapes = [], cat_links = [], cat_relationships = [], cat_issues = [] \<rparr>"

fun cardinality_text :: "OntologyCardinality \<Rightarrow> string" where
  "cardinality_text OneToOne = ''one-to-one''"
| "cardinality_text OneToMany = ''one-to-many''"
| "cardinality_text ManyToOne = ''many-to-one''"
| "cardinality_text ManyToMany = ''many-to-many''"

definition declare_property ::
  "string \<Rightarrow> string list \<Rightarrow> OntologyProperty \<Rightarrow> EntityShape \<times> Issue list \<Rightarrow> EntityShape \<times> Issue list" where
  "declare_property ent path p st = (let (shape, issues) = st;
     conflict = (case map_of (shape_types shape) (prop_id p) of
         Some known \<Rightarrow> if known \<noteq> prop_type p
           then [issue (path @ [''properties'']) (''object type '' @ quoted ent @ '' declares property '' @ quoted (prop_id p) @
                  '' as both '' @ quoted (value_type_text known) @ '' and '' @ quoted (value_type_text (prop_type p)))]
           else []
       | None \<Rightarrow> []);
     shape1 = shape \<lparr> shape_types := AList.update (prop_id p) (prop_type p) (shape_types shape) \<rparr>;
     shape2 = (if truthy (prop_required p) then shape1 \<lparr> shape_required := set_add (prop_id p) (shape_required shape1) \<rparr> else shape1)
     in if \<not> truthy (prop_primaryKey p) then (shape2, issues @ conflict)
        else (shape2 \<lparr> shape_primaryKey := Some (prop_id p) \<rparr>, issues @ conflict @
          (case shape_primaryKey shape2 of
             Some key \<Rightarrow> if key \<noteq> [] \<and> key \<noteq> prop_id p
               then [issue (path @ [''properties'']) (''object type '' @ quoted ent @ '' declares two primary keys across the tree ('' @
                      quoted key @ '' and '' @ quoted (prop_id p) @ ''); its identity would be ambiguous'')]
               else []
           | None \<Rightarrow> [])))"

definition declare_entity :: "string list \<Rightarrow> nat \<times> OntologyEntity \<Rightarrow> TreeCatalog \<Rightarrow> TreeCatalog" where
  "declare_entity path ie st = (let (k, e) = ie;
     (shape, issues) = fold (declare_property (ent_id e) (path @ [''ontology'', ''entities'', show_nat k])) (opt_list (ent_properties e))
       (case map_of (cat_shapes st) (ent_id e) of Some s \<Rightarrow> s | None \<Rightarrow> empty_shape, cat_issues st)
     in st \<lparr> cat_entities := set_add (ent_id e) (cat_entities st), cat_shapes := AList.update (ent_id e) shape (cat_shapes st),
          cat_issues := issues \<rparr>)"

text \<open>One field of a repeated link type: a second value is an issue, a first one is kept.\<close>

definition field_conflict :: "('a \<Rightarrow> string) \<Rightarrow> string list \<Rightarrow> string \<Rightarrow> string \<Rightarrow> 'a option \<Rightarrow> 'a option \<Rightarrow> Issue list" where
  "field_conflict show path i field before now = (case (before, now) of
     (Some b, Some n) \<Rightarrow> if b = n then []
       else [issue (path @ [field]) (''link '' @ quoted i @ '' declares '' @ field @ '' as both '' @ quoted (show b) @ '' and '' @ quoted (show n))]
   | _ \<Rightarrow> [])"

definition keep_first :: "'a option \<Rightarrow> 'a option \<Rightarrow> 'a option" where
  "keep_first before now = (case before of Some b \<Rightarrow> Some b | None \<Rightarrow> now)"

definition declare_relationship :: "string list \<Rightarrow> nat \<times> OntologyRelationship \<Rightarrow> TreeCatalog \<Rightarrow> TreeCatalog" where
  "declare_relationship path ir st = (let (k, r) = ir; key = (rel_from r, rel_to r, rel_id r);
     rpath = path @ [''ontology'', ''relationships'', show_nat k];
     st1 = st \<lparr> cat_relationships := set_add (rel_id r) (cat_relationships st) \<rparr>
     in case map_of (cat_links st) key of
          None \<Rightarrow> st1 \<lparr> cat_links := AList.update key \<lparr> ls_cardinality = rel_cardinality r, ls_inverse = rel_inverse r \<rparr> (cat_links st) \<rparr>
        | Some known \<Rightarrow> st1 \<lparr> cat_links := AList.update key
              \<lparr> ls_cardinality = keep_first (ls_cardinality known) (rel_cardinality r),
                ls_inverse = keep_first (ls_inverse known) (rel_inverse r) \<rparr> (cat_links st),
            cat_issues := cat_issues st
              @ field_conflict cardinality_text rpath (rel_id r) ''cardinality'' (ls_cardinality known) (rel_cardinality r)
              @ field_conflict id rpath (rel_id r) ''inverse'' (ls_inverse known) (rel_inverse r) \<rparr>)"

definition visit_node :: "WorkflowNodeDefinition \<times> string list \<Rightarrow> TreeCatalog \<Rightarrow> TreeCatalog" where
  "visit_node np st = (let (n, path) = np;
     ont = (case wn_ontology n of None \<Rightarrow> empty_binding | Some b \<Rightarrow> b);
     st1 = st \<lparr> cat_seen := set_add (wn_id n) (cat_seen st),
       cat_issues := cat_issues st @ (if wn_id n \<in> set (cat_seen st)
         then [issue (path @ [''id'']) (''duplicate workflow node id '' @ quoted (wn_id n))] else []) \<rparr>;
     st2 = fold (declare_entity path) (enumerate 0 (opt_list (entities ont))) st1
     in fold (declare_relationship path) (enumerate 0 (opt_list (relationships ont))) st2)"

text \<open>The nodes in the order they are visited, each with its path.\<close>

fun visit_paths :: "string list \<Rightarrow> WorkflowNodeDefinition \<Rightarrow> (WorkflowNodeDefinition \<times> string list) list"
  and visit_children :: "string list \<Rightarrow> nat \<Rightarrow> WorkflowNodeDefinition list \<Rightarrow> (WorkflowNodeDefinition \<times> string list) list" where
  "visit_paths path (WorkflowNode i t d ont cs) = (WorkflowNode i t d ont cs, path) #
     (case cs of None \<Rightarrow> [] | Some ks \<Rightarrow> visit_children path 0 ks)"
| "visit_children path k [] = []"
| "visit_children path k (c # cs) = visit_paths (path @ [''children'', show_nat k]) c @ visit_children path (k + 1) cs"

definition catalog :: "WorkflowTreeDefinition \<Rightarrow> TreeCatalog" where
  "catalog tree = fold visit_node (visit_paths [''root''] (tree_root tree)) empty_catalog"

section \<open>References\<close>

fun is_call :: "OntologyActionEffect \<Rightarrow> bool" where
  "is_call (CallEffect e) = True"
| "is_call _ = False"

fun effect_issues :: "TreeCatalog \<Rightarrow> string list \<Rightarrow> OntologyAction \<Rightarrow> nat \<times> OntologyActionEffect \<Rightarrow> Issue list" where
  "effect_issues c path a (k, ObjectEffect e) = (if oe_entity e \<in> set (cat_entities c) then []
     else [issue (path @ [show_nat k, ''entity'']) (''action '' @ quoted (act_id a) @ '' effect references undeclared object type '' @
            quoted (oe_entity e))])"
| "effect_issues c path a (k, CallEffect e) = []"
| "effect_issues c path a (k, LinkEffect e) = (if le_relationship e \<in> set (cat_relationships c) then []
     else [issue (path @ [show_nat k, ''relationship'']) (''action '' @ quoted (act_id a) @
            '' effect references undeclared relationship '' @ quoted (le_relationship e))])"

definition action_issues :: "TreeCatalog \<Rightarrow> string list \<Rightarrow> nat \<times> OntologyAction \<Rightarrow> Issue list" where
  "action_issues c path ia = (let (k, a) = ia; effects = opt_list (act_effects a);
     epath = path @ [''ontology'', ''actions'', show_nat k, ''effects'']
     in (if list_ex is_call effects \<and> list_ex (\<lambda>e. \<not> is_call e) effects
         then [issue epath (''action '' @ quoted (act_id a) @ '' mixes an outward call with local effects; split it into one action '' @
                ''per side, because a call that has left cannot join the local transaction'')] else [])
        @ concat (map (effect_issues c epath a) (enumerate 0 effects)))"

definition function_issues :: "TreeCatalog \<Rightarrow> string list \<Rightarrow> nat \<times> OntologyFunction \<Rightarrow> Issue list" where
  "function_issues c path ifn = (let (k, f) = ifn; fpath = path @ [''ontology'', ''functions'', show_nat k] in
     case map_of (cat_shapes c) (fn_entity f) of
       None \<Rightarrow> [issue (fpath @ [''entity'']) (''function '' @ quoted (fn_id f) @ '' computes over undeclared object type '' @
                  quoted (fn_entity f))]
     | Some shape \<Rightarrow> (case parseOntologyExpression (fn_expression f) of
         Inl e \<Rightarrow> []
       | Inr n \<Rightarrow>
           let dangling = filter (\<lambda>p. map_of (shape_types shape) p = None) (ontologyExpressionProperties n) in
           if dangling \<noteq> []
           then map (\<lambda>p. issue (fpath @ [''expression'']) (''function '' @ quoted (fn_id f) @ '' reads '' @ quoted (CHR ''$'' # p) @
                  '', which object type '' @ quoted (fn_entity f) @ '' does not declare'')) dangling
           else (case inferOntologyExpressionType n (shape_types shape) of
             Inl e \<Rightarrow> [issue (fpath @ [''expression'']) (''function '' @ quoted (fn_id f) @ '': '' @ e)]
           | Inr t \<Rightarrow> if t = expressionTypeOf (fn_returns f) then []
               else [issue (fpath @ [''returns'']) (''function '' @ quoted (fn_id f) @ '' declares returns '' @
                      quoted (value_type_text (fn_returns f)) @ '' ('' @ type_text (expressionTypeOf (fn_returns f)) @
                      ''), but its expression yields '' @ type_text t)])))"

definition reference_issues :: "TreeCatalog \<Rightarrow> WorkflowNodeDefinition \<times> string list \<Rightarrow> Issue list" where
  "reference_issues c np = (let (n, path) = np; ont = (case wn_ontology n of None \<Rightarrow> empty_binding | Some b \<Rightarrow> b) in
     concat (map (action_issues c path) (enumerate 0 (opt_list (actions ont))))
     @ concat (map (function_issues c path) (enumerate 0 (opt_list (ont_functions ont)))))"

definition tree_issues :: "WorkflowTreeDefinition \<Rightarrow> Issue list" where
  "tree_issues tree = cat_issues (catalog tree)
     @ concat (map (reference_issues (catalog tree)) (visit_paths [''root''] (tree_root tree)))"

definition validateWorkflowTreeDefinition :: "WorkflowTreeDefinition \<Rightarrow> bool" where
  "validateWorkflowTreeDefinition tree = (tree_fields_ok tree \<and> tree_issues tree = [])"

section \<open>Policies\<close>

text \<open>
  The code units of the model a selector may not hold: the controls, the no-break space and the soft hyphen. The
  two units that stand for the ellipsis and the dash are visible text.
\<close>

definition selectorHasUnsafeChar :: "string \<Rightarrow> bool" where
  "selectorHasUnsafeChar s = list_ex (\<lambda>c. c < CHR '' '' \<or> (CHR 0x7F \<le> c \<and> c \<le> CHR 0x9F \<and> c \<notin> {CHR 0x85, CHR 0x97})
     \<or> c = CHR 0xA0 \<or> c = CHR 0xAD) s"

definition selector_ok :: "string list option \<Rightarrow> bool" where
  "selector_ok sel = opt_ok (\<lambda>xs. xs \<noteq> [] \<and> list_all (\<lambda>s. not_blank s \<and> \<not> selectorHasUnsafeChar s) xs) sel"

definition approval_settings_ok :: "GovernanceApprovalSettings \<Rightarrow> bool" where
  "approval_settings_ok a = opt_ok (\<lambda>n. 0 < n) (ap_timeoutMs a)"

definition policy_issues :: "GovernancePolicy \<Rightarrow> Issue list" where
  "policy_issues p =
     (if pol_effect p = EffRequireApproval \<and> opt_list (pol_tools p) = [] \<and> opt_list (pol_actions p) = []
      then [issue [''effect''] ''require_approval policies need a tools or actions selector; run-level approvals are not supported'']
      else [])
     @ (if pol_effect p \<noteq> EffRequireApproval \<and> pol_approval p \<noteq> None
        then [issue [''approval''] (''approval settings only apply when effect is '' @ quoted ''require_approval'')] else [])
     @ (if opt_list (pol_knowledge p) \<noteq> [] \<and> (opt_list (pol_tools p) \<noteq> [] \<or> opt_list (pol_actions p) \<noteq> [])
        then [issue [''knowledge''] (''a policy targets either tool calls (tools/actions) or knowledge retrieval (knowledge), '' @
               ''not both; split them into separate policies'')] else [])"

definition policy_ok :: "GovernancePolicy \<Rightarrow> bool" where
  "policy_ok p = (ENTERPRISE_ID_PATTERN (pol_id p) \<and> selector_ok (pol_trees p) \<and> selector_ok (pol_nodes p)
     \<and> selector_ok (pol_tools p) \<and> selector_ok (pol_actions p) \<and> selector_ok (pol_knowledge p)
     \<and> opt_ok approval_settings_ok (pol_approval p) \<and> policy_issues p = [])"

end
