(* ===== verification/Schema_Laws.thy ===== *)
theory Schema_Laws
  imports Tree_Schema Route_Planner Expr_Soundness
begin

text \<open>
  What an accepted tree guarantees: distinct node ids, one type per property over the whole tree, declared
  references and functions that type-check against the shape of their object type.
\<close>

section \<open>Folds that collect facts\<close>

text \<open>
  A fold over declarations keeps what it has established as long as no issue is reported, and an issue once
  reported stays.
\<close>

locale collecting_fold =
  fixes step :: "'x \<Rightarrow> 's \<Rightarrow> 's"
    and good :: "'s \<Rightarrow> bool"
    and extends :: "'s \<Rightarrow> 's \<Rightarrow> bool"
    and establishes :: "'x \<Rightarrow> 's \<Rightarrow> bool"
  assumes reflexive: "extends s s"
    and transitive: "extends s t \<Longrightarrow> extends t u \<Longrightarrow> extends s u"
    and backwards: "extends s t \<Longrightarrow> good t \<Longrightarrow> good s"
    and step_extends: "extends s (step x s)"
    and step_establishes: "good (step x s) \<Longrightarrow> establishes x (step x s)"
    and persists: "extends s t \<Longrightarrow> good t \<Longrightarrow> establishes x s \<Longrightarrow> establishes x t"
begin

lemma fold_extends: "extends s (fold step xs s)"
  by (induction xs arbitrary: s) (auto intro: reflexive transitive step_extends)

lemma fold_establishes: "good (fold step xs s) \<Longrightarrow> x \<in> set xs \<Longrightarrow> establishes x (fold step xs s)"
proof (induction xs arbitrary: s)
  case (Cons y ys)
  have ext: "extends (step y s) (fold step ys (step y s))" by (rule fold_extends)
  from Cons.prems(1) have good: "good (fold step ys (step y s))" by simp
  show ?case
  proof (cases "x \<in> set ys")
    case True
    with Cons.IH good show ?thesis by simp
  next
    case False
    with Cons.prems(2) have "x = y" by simp
    then show ?thesis using persists [OF ext good] step_establishes backwards [OF ext good] by simp
  qed
qed simp

end

section \<open>The nodes visited\<close>

lemma enumerated:
  assumes "x \<in> set xs"
  obtains k where "(k, x) \<in> set (enumerate 0 xs)"
proof -
  from assms obtain i where "i < length xs" "xs ! i = x" by (auto simp: in_set_conv_nth)
  then have "(i, x) \<in> set (enumerate 0 xs)" by (simp add: in_set_enumerate_eq)
  with that show ?thesis by blast
qed

lemma visit_paths_nodes:
  "map fst (visit_paths path n) = walkWorkflowNodes n"
  "map fst (visit_children path k cs) = concat (map walkWorkflowNodes cs)"
  by (induction path n and path k cs rule: visit_paths_visit_children.induct)
    (auto split: option.splits)

lemma visited:
  assumes "n \<in> set (walkWorkflowNodes root_node)"
  obtains path where "(n, path) \<in> set (visit_paths start root_node)"
proof -
  from assms have "n \<in> set (map fst (visit_paths start root_node))" by (simp only: visit_paths_nodes)
  with that show ?thesis by auto
qed

section \<open>Property types\<close>

definition shape_extends :: "EntityShape \<times> Issue list \<Rightarrow> EntityShape \<times> Issue list \<Rightarrow> bool" where
  "shape_extends s t \<longleftrightarrow> snd t = [] \<longrightarrow> snd s = [] \<and>
     (\<forall>i ty. map_of (shape_types (fst s)) i = Some ty \<longrightarrow> map_of (shape_types (fst t)) i = Some ty)"

definition shape_has :: "OntologyProperty \<Rightarrow> EntityShape \<times> Issue list \<Rightarrow> bool" where
  "shape_has p s \<longleftrightarrow> map_of (shape_types (fst s)) (prop_id p) = Some (prop_type p)"

lemma declare_property_facts:
  assumes "snd (declare_property ent path p s) = []"
  shows "snd s = []" "shape_types (fst (declare_property ent path p s)) = AList.update (prop_id p) (prop_type p) (shape_types (fst s))"
    "map_of (shape_types (fst s)) (prop_id p) \<in> {None, Some (prop_type p)}"
  using assms by (cases s; auto simp: declare_property_def Let_def split: option.splits if_splits)+

interpretation shapes: collecting_fold "declare_property ent path" "\<lambda>s. snd s = []" shape_extends shape_has for ent path
proof
  fix s x
  show "shape_extends s (declare_property ent path x s)"
    using declare_property_facts [of ent path x s] by (auto simp: shape_extends_def update_conv')
  show "snd (declare_property ent path x s) = [] \<Longrightarrow> shape_has x (declare_property ent path x s)"
    using declare_property_facts [of ent path x s] by (simp add: shape_has_def update_conv')
qed (auto simp: shape_extends_def shape_has_def)

section \<open>The catalog\<close>

definition type_in :: "TreeCatalog \<Rightarrow> string \<Rightarrow> string \<Rightarrow> OntologyValueType option" where
  "type_in c ent i = (case map_of (cat_shapes c) ent of None \<Rightarrow> None | Some shape \<Rightarrow> map_of (shape_types shape) i)"

definition catalog_extends :: "TreeCatalog \<Rightarrow> TreeCatalog \<Rightarrow> bool" where
  "catalog_extends c d \<longleftrightarrow> cat_issues d = [] \<longrightarrow> cat_issues c = [] \<and>
     (\<forall>ent i ty. type_in c ent i = Some ty \<longrightarrow> type_in d ent i = Some ty)
     \<and> set (cat_seen c) \<subseteq> set (cat_seen d)"

definition entity_in :: "nat \<times> OntologyEntity \<Rightarrow> TreeCatalog \<Rightarrow> bool" where
  "entity_in ke c \<longleftrightarrow> (\<forall>p \<in> set (opt_list (ent_properties (snd ke))). type_in c (ent_id (snd ke)) (prop_id p) = Some (prop_type p))"

lemma declare_entity_fold:
  "declare_entity path (k, e) c = (let s = fold (declare_property (ent_id e) (path @ [''ontology'', ''entities'', show_nat k]))
       (opt_list (ent_properties e)) (case map_of (cat_shapes c) (ent_id e) of Some s \<Rightarrow> s | None \<Rightarrow> empty_shape, cat_issues c)
     in c \<lparr> cat_entities := set_add (ent_id e) (cat_entities c), cat_shapes := AList.update (ent_id e) (fst s) (cat_shapes c),
          cat_issues := snd s \<rparr>)"
  by (simp add: declare_entity_def Let_def case_prod_beta)

lemma declare_entity_seen [simp]: "cat_seen (declare_entity path ke c) = cat_seen c"
  by (cases ke) (simp add: declare_entity_fold Let_def)

lemma declare_entity_extends: "catalog_extends c (declare_entity path ke c)"
proof (cases ke)
  case (Pair k e)
  let ?start = "(case map_of (cat_shapes c) (ent_id e) of Some s \<Rightarrow> s | None \<Rightarrow> empty_shape, cat_issues c)"
  let ?path = "path @ [''ontology'', ''entities'', show_nat k]"
  have "shape_extends ?start (fold (declare_property (ent_id e) ?path) (opt_list (ent_properties e)) ?start)"
    by (rule shapes.fold_extends)
  then show ?thesis
    by (auto simp: Pair declare_entity_fold Let_def catalog_extends_def shape_extends_def type_in_def update_conv'
        empty_shape_def split: option.splits if_splits)
qed

lemma declare_entity_establishes:
  "cat_issues (declare_entity path ke c) = [] \<Longrightarrow> entity_in ke (declare_entity path ke c)"
proof (cases ke)
  case (Pair k e)
  let ?start = "(case map_of (cat_shapes c) (ent_id e) of Some s \<Rightarrow> s | None \<Rightarrow> empty_shape, cat_issues c)"
  let ?path = "path @ [''ontology'', ''entities'', show_nat k]"
  assume "cat_issues (declare_entity path ke c) = []"
  then have good: "snd (fold (declare_property (ent_id e) ?path) (opt_list (ent_properties e)) ?start) = []"
    by (simp add: Pair declare_entity_fold Let_def)
  have "shape_has p (fold (declare_property (ent_id e) ?path) (opt_list (ent_properties e)) ?start)"
    if "p \<in> set (opt_list (ent_properties e))" for p
    by (rule shapes.fold_establishes [OF good that])
  then show ?thesis
    by (simp add: Pair declare_entity_fold Let_def entity_in_def type_in_def update_conv' shape_has_def)
qed

interpretation entities: collecting_fold "declare_entity path" "\<lambda>c. cat_issues c = []" catalog_extends entity_in for path
  by unfold_locales
    (auto simp: declare_entity_extends declare_entity_establishes, auto simp: catalog_extends_def entity_in_def)

lemma declare_relationship_facts [simp]:
  "cat_seen (declare_relationship path r c) = cat_seen c" "cat_shapes (declare_relationship path r c) = cat_shapes c"
  by (cases r; simp add: declare_relationship_def Let_def split: option.splits)+

lemma declare_relationship_issues: "cat_issues (declare_relationship path r c) = [] \<Longrightarrow> cat_issues c = []"
  by (cases r) (auto simp: declare_relationship_def Let_def split: option.splits)

lemma declare_relationships_facts [simp]:
  "cat_seen (fold (declare_relationship path) rs c) = cat_seen c"
  "cat_shapes (fold (declare_relationship path) rs c) = cat_shapes c"
  by (induction rs arbitrary: c) simp_all

lemma declare_relationships_issues: "cat_issues (fold (declare_relationship path) rs c) = [] \<Longrightarrow> cat_issues c = []"
  by (induction rs arbitrary: c) (auto dest: declare_relationship_issues)

lemma declare_relationships_extends: "catalog_extends c (fold (declare_relationship path) rs c)"
  by (auto simp: catalog_extends_def type_in_def dest: declare_relationships_issues)

definition node_in :: "WorkflowNodeDefinition \<times> string list \<Rightarrow> TreeCatalog \<Rightarrow> bool" where
  "node_in np c \<longleftrightarrow> wn_id (fst np) \<in> set (cat_seen c) \<and>
     (\<forall>e \<in> set (opt_list (entities (node_binding (fst np)))). entity_in (0, e) c)"

definition enter_node :: "WorkflowNodeDefinition \<times> string list \<Rightarrow> TreeCatalog \<Rightarrow> TreeCatalog" where
  "enter_node np c = c \<lparr> cat_seen := set_add (wn_id (fst np)) (cat_seen c),
     cat_issues := cat_issues c @ (if wn_id (fst np) \<in> set (cat_seen c)
       then [issue (snd np @ [''id'']) (''duplicate workflow node id '' @ quoted (wn_id (fst np)))] else []) \<rparr>"

lemma visit_node_split:
  "visit_node np c = fold (declare_relationship (snd np)) (enumerate 0 (opt_list (relationships (node_binding (fst np)))))
     (fold (declare_entity (snd np)) (enumerate 0 (opt_list (entities (node_binding (fst np))))) (enter_node np c))"
  by (cases np) (simp add: visit_node_def enter_node_def node_binding_def Let_def)

lemma enter_extends: "catalog_extends c (enter_node np c)"
  by (auto simp: catalog_extends_def enter_node_def type_in_def)

lemma catalog_trans: "catalog_extends c d \<Longrightarrow> catalog_extends d e \<Longrightarrow> catalog_extends c e"
  by (auto simp: catalog_extends_def)

lemma visit_extends: "catalog_extends c (visit_node np c)"
  unfolding visit_node_split
  by (rule catalog_trans [OF enter_extends catalog_trans [OF entities.fold_extends declare_relationships_extends]])

lemma declare_entities_seen [simp]: "cat_seen (fold (declare_entity path) es c) = cat_seen c"
  by (induction es arbitrary: c) simp_all

lemma visit_seen: "cat_seen (visit_node np c) = set_add (wn_id (fst np)) (cat_seen c)"
  by (simp add: visit_node_split enter_node_def)

lemma visit_establishes:
  assumes "cat_issues (visit_node np c) = []"
  shows "node_in np (visit_node np c)"
proof -
  let ?c1 = "fold (declare_entity (snd np)) (enumerate 0 (opt_list (entities (node_binding (fst np))))) (enter_node np c)"
  from assms have good: "cat_issues ?c1 = []" unfolding visit_node_split by (rule declare_relationships_issues)
  have same: "type_in (visit_node np c) = type_in ?c1" by (simp add: visit_node_split type_in_def fun_eq_iff)
  have "entity_in (0, e) (visit_node np c)" if e: "e \<in> set (opt_list (entities (node_binding (fst np))))" for e
  proof -
    from e obtain k where "(k, e) \<in> set (enumerate 0 (opt_list (entities (node_binding (fst np)))))"
      by (rule enumerated)
    from entities.fold_establishes [OF good this] show ?thesis by (simp add: entity_in_def same)
  qed
  then show ?thesis by (simp add: node_in_def visit_seen)
qed

interpretation nodes: collecting_fold visit_node "\<lambda>c. cat_issues c = []" catalog_extends node_in
  by unfold_locales
    (auto simp: visit_extends visit_establishes, auto simp: catalog_extends_def node_in_def entity_in_def)

section \<open>Accepted trees\<close>

lemma visits_distinct:
  assumes "cat_issues (fold visit_node nps c) = []"
  shows "distinct (map (wn_id \<circ> fst) nps) \<and> set (map (wn_id \<circ> fst) nps) \<inter> set (cat_seen c) = {}"
  using assms
proof (induction nps arbitrary: c)
  case (Cons np nps)
  then have IH: "distinct (map (wn_id \<circ> fst) nps) \<and> set (map (wn_id \<circ> fst) nps) \<inter> set (cat_seen (visit_node np c)) = {}"
    by (intro Cons.IH) (use Cons.prems in simp)
  have "cat_issues (visit_node np c) = []"
    using Cons.prems nodes.fold_extends [of "visit_node np c" nps] by (simp add: catalog_extends_def)
  then have "cat_issues (enter_node np c) = []"
    using catalog_trans [OF entities.fold_extends declare_relationships_extends] unfolding visit_node_split
    by (metis catalog_extends_def)
  then have "wn_id (fst np) \<notin> set (cat_seen c)" by (simp add: enter_node_def split: if_splits)
  with IH show ?case by (auto simp: visit_seen comp_def)
qed simp

lemma id_segment_nonempty: "ENTERPRISE_ID_PATTERN s \<Longrightarrow> s \<noteq> []"
  by (auto simp: ENTERPRISE_ID_PATTERN_def id_segment_def)

lemma valid_tree_ids:
  assumes "validateWorkflowTreeDefinition tree"
  shows "unique_ids tree"
proof -
  from assms have "cat_issues (fold visit_node (visit_paths [''root''] (tree_root tree)) empty_catalog) = []"
    by (simp add: validateWorkflowTreeDefinition_def tree_issues_def catalog_def)
  from visits_distinct [OF this] have "distinct (map wn_id (map fst (visit_paths [''root''] (tree_root tree))))" by simp
  then have "distinct (tree_ids (tree_root tree))" by (simp only: visit_paths_nodes tree_ids_def)
  moreover have "[] \<notin> set (tree_ids (tree_root tree))"
    using assms id_segment_nonempty
    by (force simp: validateWorkflowTreeDefinition_def tree_fields_ok_def node_ok_fields_def tree_ids_def list_all_iff)
  ultimately show ?thesis by (simp add: unique_ids_def)
qed

lemma valid_tree_types:
  assumes "validateWorkflowTreeDefinition tree" "n \<in> set (walkWorkflowNodes (tree_root tree))"
    "e \<in> set (opt_list (entities (node_binding n)))" "p \<in> set (opt_list (ent_properties e))"
  shows "type_in (catalog tree) (ent_id e) (prop_id p) = Some (prop_type p)"
proof -
  from assms(1) have good: "cat_issues (fold visit_node (visit_paths [''root''] (tree_root tree)) empty_catalog) = []"
    by (simp add: validateWorkflowTreeDefinition_def tree_issues_def catalog_def)
  from assms(2) obtain path where "(n, path) \<in> set (visit_paths [''root''] (tree_root tree))"
    by (rule visited)
  from nodes.fold_establishes [OF good this] assms(3,4) show ?thesis
    by (simp add: node_in_def entity_in_def catalog_def)
qed

lemma valid_tree_functions:
  assumes "validateWorkflowTreeDefinition tree" "n \<in> set (walkWorkflowNodes (tree_root tree))"
    "f \<in> set (opt_list (ont_functions (node_binding n)))"
  obtains expression shape where "parseOntologyExpression (fn_expression f) = Inr expression"
    "map_of (cat_shapes (catalog tree)) (fn_entity f) = Some shape"
    "infer expression (shape_types shape) = Inr (expressionTypeOf (fn_returns f))"
proof -
  from assms(2) obtain path where np: "(n, path) \<in> set (visit_paths [''root''] (tree_root tree))"
    by (rule visited)
  from assms(3) obtain k where k: "(k, f) \<in> set (enumerate 0 (opt_list (ont_functions (node_binding n))))"
    by (rule enumerated)
  from assms(1) np have "reference_issues (catalog tree) (n, path) = []"
    by (auto simp: validateWorkflowTreeDefinition_def tree_issues_def)
  with k have none: "function_issues (catalog tree) path (k, f) = []"
    by (auto simp: reference_issues_def Let_def node_binding_def)
  from assms(1,2) have "opt_ok binding_ok (wn_ontology n)"
    by (simp add: validateWorkflowTreeDefinition_def tree_fields_ok_def list_all_iff node_ok_fields_def)
  with assms(3) have "function_ok f"
    by (auto simp: opt_ok_def binding_ok_def list_ok_def list_all_iff node_binding_def empty_binding_def split: option.splits)
  then obtain expression where parsed: "parseOntologyExpression (fn_expression f) = Inr expression"
    by (auto simp: function_ok_def split: sum.splits)
  from none obtain shape where shape: "map_of (cat_shapes (catalog tree)) (fn_entity f) = Some shape"
    by (auto simp: function_issues_def Let_def split: option.splits)
  from none shape parsed have "infer expression (shape_types shape) = Inr (expressionTypeOf (fn_returns f))"
    by (auto simp: function_issues_def Let_def inferOntologyExpressionType_def split: sum.splits if_splits)
  with that parsed shape show ?thesis by blast
qed

end
