(* ===== verification/Object_Store.thy ===== *)
theory Object_Store
  imports Governance Prelude
begin

text \<open>
  The instance store of \<^verbatim>\<open>src/enterprise/object-store.sqlite.ts\<close>: the two tables of the shared
  state database, the operations on them and the reads the tools use. A table is the list of its rows in
  insertion order; a write handle and a read handle are the same state, since every call of the sources runs
  synchronously on one database. A row of objects holds the parsed form of its \<open>properties_json\<close>: the
  store writes \<open>JSON.stringify\<close> of a flat object and reads it back with \<open>JSON.parse\<close>, and
  \<open>json_value\<close> is what that makes of a value. Rows nothing in the program writes (a
  \<open>properties_json\<close> that is not an object, a time that is not a number) are outside the model.
\<close>

section \<open>Records and rows\<close>

type_synonym Properties = "(string \<times> OntologyValue) list"

record OntologyObjectRecord =
  obj_entity :: EnterpriseId
  obj_objectId :: string
  obj_properties :: Properties
  obj_updatedAt :: int

record OntologyLinkRecord =
  link_relationship :: EnterpriseId
  link_fromEntity :: EnterpriseId
  link_fromObjectId :: string
  link_toEntity :: EnterpriseId
  link_toObjectId :: string

record ObjectRow =
  row_tree :: EnterpriseId
  row_entity :: EnterpriseId
  row_object :: string
  row_properties :: Properties
  row_created :: int
  row_updated :: int

record LinkRow =
  lrow_tree :: EnterpriseId
  lrow_relationship :: EnterpriseId
  lrow_fromEntity :: EnterpriseId
  lrow_fromObject :: string
  lrow_toEntity :: EnterpriseId
  lrow_toObject :: string
  lrow_created :: int

record ObjectDb =
  db_objects :: "ObjectRow list"
  db_links :: "LinkRow list"

definition rowToObject :: "ObjectRow \<Rightarrow> OntologyObjectRecord" where
  "rowToObject r = \<lparr> obj_entity = row_entity r, obj_objectId = row_object r, obj_properties = row_properties r,
     obj_updatedAt = row_updated r \<rparr>"

definition rowToLink :: "LinkRow \<Rightarrow> OntologyLinkRecord" where
  "rowToLink r = \<lparr> link_relationship = lrow_relationship r, link_fromEntity = lrow_fromEntity r,
     link_fromObjectId = lrow_fromObject r, link_toEntity = lrow_toEntity r, link_toObjectId = lrow_toObject r \<rparr>"

text \<open>\<open>JSON.parse(JSON.stringify(v))\<close>: a number that is not finite becomes null, negative zero zero.\<close>

fun json_value :: "OntologyValue \<Rightarrow> OntologyValue" where
  "json_value (VNum n) = (if \<not> is_finite n then VNull else if n = JsNegZero then VNum (JsFin 0) else VNum n)"
| "json_value v = v"

definition json_properties :: "Properties \<Rightarrow> Properties" where
  "json_properties ps = map (\<lambda>(k, v). (k, json_value v)) ps"

section \<open>Which types can hold instances\<close>

definition is_primary :: "OntologyProperty \<Rightarrow> bool" where
  "is_primary p = truthy (prop_primaryKey p)"

fun addressable_walk :: "WorkflowNodeDefinition \<Rightarrow> string list \<Rightarrow> string list" where
  "addressable_walk (WorkflowNode i title descr ont ch) ids =
     fold addressable_walk (case ch of None \<Rightarrow> [] | Some cs \<Rightarrow> cs)
       (fold (\<lambda>entity ids. if list_ex is_primary (opt_list (ent_properties entity))
            then set_add (ent_id entity) ids else ids)
         (opt_list (case ont of None \<Rightarrow> None | Some b \<Rightarrow> entities b)) ids)"

definition addressableObjectEntityIds :: "WorkflowTreeDefinition \<Rightarrow> string list" where
  "addressableObjectEntityIds tree = addressable_walk (tree_root tree) []"

section \<open>Objects\<close>

type_synonym ObjectKey = "EnterpriseId \<times> EnterpriseId \<times> string"

definition object_key :: "ObjectRow \<Rightarrow> ObjectKey" where
  "object_key r = (row_tree r, row_entity r, row_object r)"

definition getOntologyObjectIn :: "ObjectDb \<Rightarrow> EnterpriseId \<Rightarrow> EnterpriseId \<Rightarrow> string \<Rightarrow> OntologyObjectRecord option" where
  "getOntologyObjectIn db tid ent i =
     map_option rowToObject (List.find (\<lambda>r. object_key r = (tid, ent, i)) (db_objects db))"

definition getOntologyObject :: "ObjectDb \<Rightarrow> EnterpriseId \<Rightarrow> EnterpriseId \<Rightarrow> string \<Rightarrow> OntologyObjectRecord option" where
  "getOntologyObject db tid ent i =
     map_option rowToObject (List.find (\<lambda>r. object_key r = (tid, ent, i)) (db_objects db))"

text \<open>\<open>INSERT \<dots> ON CONFLICT (tree_id, entity_id, object_id) DO UPDATE\<close>: the creation time survives.\<close>

definition put_object :: "ObjectKey \<Rightarrow> Properties \<times> int \<Rightarrow> ObjectDb \<Rightarrow> ObjectDb" where
  "put_object key v db = (let (props, now) = v; rows = db_objects db in
     db \<lparr> db_objects := (if list_ex (\<lambda>r. object_key r = key) rows
        then map (\<lambda>r. if object_key r = key then r \<lparr> row_properties := props, row_updated := now \<rparr> else r) rows
        else rows @ [\<lparr> row_tree = fst key, row_entity = fst (snd key), row_object = snd (snd key),
               row_properties = props, row_created = now, row_updated = now \<rparr>]) \<rparr>)"

definition upsertOntologyObject ::
  "EnterpriseId \<Rightarrow> EnterpriseId \<Rightarrow> string \<Rightarrow> Properties \<Rightarrow> int \<Rightarrow> ObjectDb \<Rightarrow> ObjectDb" where
  "upsertOntologyObject tid ent i props now db = put_object (tid, ent, i) (json_properties props, now) db"

section \<open>Links\<close>

type_synonym LinkKey = "EnterpriseId \<times> EnterpriseId \<times> string \<times> string"

definition link_key :: "LinkRow \<Rightarrow> LinkKey" where
  "link_key r = (lrow_tree r, lrow_relationship r, lrow_fromObject r, lrow_toObject r)"

text \<open>\<open>INSERT \<dots> ON CONFLICT (tree_id, relationship_id, from_object_id, to_object_id) DO NOTHING\<close>.\<close>

definition upsertOntologyLink :: "EnterpriseId \<Rightarrow> OntologyLinkRecord \<Rightarrow> int \<Rightarrow> ObjectDb \<Rightarrow> ObjectDb" where
  "upsertOntologyLink tid link now db =
     (let row = \<lparr> lrow_tree = tid, lrow_relationship = link_relationship link, lrow_fromEntity = link_fromEntity link,
            lrow_fromObject = link_fromObjectId link, lrow_toEntity = link_toEntity link,
            lrow_toObject = link_toObjectId link, lrow_created = now \<rparr>
      in if list_ex (\<lambda>r. link_key r = link_key row) (db_links db) then db
         else db \<lparr> db_links := db_links db @ [row] \<rparr>)"

text \<open>The deletions also say whether a row was there.\<close>

definition deleteOntologyLink ::
  "EnterpriseId \<Rightarrow> EnterpriseId \<Rightarrow> string \<Rightarrow> string \<Rightarrow> ObjectDb \<Rightarrow> bool \<times> ObjectDb" where
  "deleteOntologyLink tid rel from_id to_id db =
     (let hit = (\<lambda>r. link_key r = (tid, rel, from_id, to_id)) in
      (list_ex hit (db_links db), db \<lparr> db_links := filter (\<lambda>r. \<not> hit r) (db_links db) \<rparr>))"

definition drop_object :: "ObjectKey \<Rightarrow> ObjectDb \<Rightarrow> ObjectDb" where
  "drop_object key db = db \<lparr> db_objects := filter (\<lambda>r. object_key r \<noteq> key) (db_objects db) \<rparr>"

definition from_end :: "LinkRow \<Rightarrow> ObjectKey" where
  "from_end r = (lrow_tree r, lrow_fromEntity r, lrow_fromObject r)"

definition to_end :: "LinkRow \<Rightarrow> ObjectKey" where
  "to_end r = (lrow_tree r, lrow_toEntity r, lrow_toObject r)"

definition deleteOntologyObject :: "EnterpriseId \<Rightarrow> EnterpriseId \<Rightarrow> string \<Rightarrow> ObjectDb \<Rightarrow> bool \<times> ObjectDb" where
  "deleteOntologyObject tid ent i db =
     (let key = (tid, ent, i); db1 = drop_object key db;
          db2 = db1 \<lparr> db_links := filter (\<lambda>r. from_end r \<noteq> key) (db_links db1) \<rparr>
      in (list_ex (\<lambda>r. object_key r = key) (db_objects db),
          db2 \<lparr> db_links := filter (\<lambda>r. to_end r \<noteq> key) (db_links db2) \<rparr>))"

definition deleteOntologyObjectsForTree :: "EnterpriseId \<Rightarrow> ObjectDb \<Rightarrow> ObjectDb" where
  "deleteOntologyObjectsForTree tid db = db \<lparr> db_objects := filter (\<lambda>r. row_tree r \<noteq> tid) (db_objects db),
     db_links := filter (\<lambda>r. lrow_tree r \<noteq> tid) (db_links db) \<rparr>"

section \<open>Search\<close>

text \<open>\<open>LIKE '%...%' ESCAPE\<close> with the wildcards of the query escaped: a substring, in any ASCII case.\<close>

fun contains :: "string \<Rightarrow> string \<Rightarrow> bool" where
  "contains pat s = (startsWith s pat \<or> (case s of [] \<Rightarrow> False | _ # cs \<Rightarrow> contains pat cs))"

declare contains.simps [simp del]

text \<open>The text a value is matched on; the text SQLite gives a number is a parameter.\<close>

fun match_text :: "(js_number \<Rightarrow> string) \<Rightarrow> OntologyValue \<Rightarrow> string" where
  "match_text sql_number (VStr s) = s"
| "match_text sql_number (VNum n) = sql_number n"
| "match_text sql_number (VBool b) = (if b then ''true'' else ''false'')"
| "match_text sql_number VNull = ''null''"

definition property_matches ::
  "(js_number \<Rightarrow> string) \<Rightarrow> string \<Rightarrow> string list option \<Rightarrow> string \<times> OntologyValue \<Rightarrow> bool" where
  "property_matches sql_number pat visible prop =
     (contains (toLowerCase pat) (toLowerCase (match_text sql_number (snd prop)))
      \<and> (case visible of None \<Rightarrow> True | Some ids \<Rightarrow> fst prop \<in> set ids))"

definition projectProperties :: "OntologyObjectRecord \<Rightarrow> string list option \<Rightarrow> OntologyObjectRecord" where
  "projectProperties object visible = (case visible of None \<Rightarrow> object
     | Some ids \<Rightarrow> object \<lparr> obj_properties := filter (\<lambda>(p, v). p \<in> set ids) (obj_properties object) \<rparr>)"

text \<open>\<open>ORDER BY updated_at DESC, object_id ASC\<close>.\<close>

definition search_before :: "ObjectRow \<Rightarrow> ObjectRow \<Rightarrow> bool" where
  "search_before a b = (row_updated b < row_updated a \<or> (row_updated a = row_updated b \<and> row_object a \<le> row_object b))"

fun insert_row :: "('r \<Rightarrow> 'r \<Rightarrow> bool) \<Rightarrow> 'r \<Rightarrow> 'r list \<Rightarrow> 'r list" where
  "insert_row before r [] = [r]"
| "insert_row before r (s # rs) = (if before r s then r # s # rs else s # insert_row before r rs)"

definition order_by :: "('r \<Rightarrow> 'r \<Rightarrow> bool) \<Rightarrow> 'r list \<Rightarrow> 'r list" where
  "order_by before rs = foldr (insert_row before) rs []"

definition searchOntologyObjects ::
  "(js_number \<Rightarrow> string) \<Rightarrow> ObjectDb \<Rightarrow> EnterpriseId \<Rightarrow> EnterpriseId \<Rightarrow> string option \<Rightarrow> string list option \<Rightarrow> nat \<Rightarrow>
   OntologyObjectRecord list" where
  "searchOntologyObjects sql_number db tid ent pat visible limit =
     (let rows = filter (\<lambda>r. row_tree r = tid \<and> row_entity r = ent) (db_objects db);
          m = (case pat of None \<Rightarrow> [] | Some p \<Rightarrow> trim p);
          hits = (if m = [] then rows
                  else filter (\<lambda>r. list_ex (property_matches sql_number m visible) (row_properties r)) rows)
      in map (\<lambda>r. projectProperties (rowToObject r) visible) (take limit (order_by search_before hits)))"

section \<open>Neighbours\<close>

datatype Direction = Outbound | Inbound

record Neighbor =
  nb_link :: OntologyLinkRecord
  nb_direction :: Direction
  nb_object :: "OntologyObjectRecord option"

text \<open>Rows of one relationship come in table order.\<close>

definition link_before :: "LinkRow \<Rightarrow> LinkRow \<Rightarrow> bool" where
  "link_before a b = (lrow_relationship a \<le> lrow_relationship b)"

fun near_end :: "Direction \<Rightarrow> LinkRow \<Rightarrow> ObjectKey" where
  "near_end Outbound r = from_end r"
| "near_end Inbound r = to_end r"

definition select_links ::
  "ObjectDb \<Rightarrow> ObjectKey \<Rightarrow> string option \<Rightarrow> string list option \<Rightarrow> nat \<Rightarrow> Direction \<Rightarrow> LinkRow list" where
  "select_links db key relationship rels limit dir =
     take limit (order_by link_before (filter (\<lambda>r. near_end dir r = key \<and>
       (if relationship \<notin> {None, Some []} then Some (lrow_relationship r) = relationship
        else (case rels of Some rs \<Rightarrow> lrow_relationship r \<in> set rs | None \<Rightarrow> True))) (db_links db)))"

text \<open>The neighbour is the other end of the edge.\<close>

fun far_end :: "Direction \<Rightarrow> OntologyLinkRecord \<Rightarrow> EnterpriseId \<times> string" where
  "far_end Outbound link = (link_toEntity link, link_toObjectId link)"
| "far_end Inbound link = (link_fromEntity link, link_fromObjectId link)"

definition edge_visible :: "(string \<times> string list) list option \<Rightarrow> OntologyLinkRecord \<times> Direction \<Rightarrow> bool" where
  "edge_visible visible edge = (case visible of None \<Rightarrow> True
     | Some m \<Rightarrow> map_of m (fst (far_end (snd edge) (fst edge))) \<noteq> None)"

definition neighbor_edges ::
  "ObjectDb \<Rightarrow> ObjectKey \<Rightarrow> string option \<Rightarrow> string list option \<Rightarrow> (string \<times> string list) list option \<Rightarrow> nat \<Rightarrow>
   (OntologyLinkRecord \<times> Direction) list" where
  "neighbor_edges db key relationship rels visible limit =
     filter (edge_visible visible) (take limit
       (map (\<lambda>r. (rowToLink r, Outbound)) (select_links db key relationship rels limit Outbound) @
        map (\<lambda>r. (rowToLink r, Inbound)) (select_links db key relationship rels limit Inbound)))"

text \<open>One query per distinct neighbour type, its rows kept under the type and the id.\<close>

definition ids_by_entity :: "(EnterpriseId \<times> string) list \<Rightarrow> (string \<times> string list) list" where
  "ids_by_entity ends = foldl (\<lambda>m (ent, i). AList.update ent
     (set_add i (case map_of m ent of Some ids \<Rightarrow> ids | None \<Rightarrow> [])) m) [] ends"

definition fetch_objects ::
  "ObjectDb \<Rightarrow> EnterpriseId \<Rightarrow> (string \<times> string list) list \<Rightarrow> ((EnterpriseId \<times> string) \<times> OntologyObjectRecord) list" where
  "fetch_objects db tid wanted = foldl (\<lambda>m (ent, ids).
     foldl (\<lambda>m r. AList.update (ent, row_object r) (rowToObject r) m) m
       (filter (\<lambda>r. row_tree r = tid \<and> row_entity r = ent \<and> row_object r \<in> set ids) (db_objects db))) [] wanted"

definition getOntologyNeighbors ::
  "ObjectDb \<Rightarrow> ObjectKey \<Rightarrow> string option \<Rightarrow> string list option \<Rightarrow> (string \<times> string list) list option \<Rightarrow> nat \<Rightarrow>
   Neighbor list" where
  "getOntologyNeighbors db key relationship rels visible limit =
     (if rels = Some [] then []
      else let edges = neighbor_edges db key relationship rels visible limit;
               objects = fetch_objects db (fst key) (ids_by_entity (map (\<lambda>(link, dir). far_end dir link) edges))
           in map (\<lambda>(link, dir). \<lparr> nb_link = link, nb_direction = dir,
                nb_object = map_option (\<lambda>object. projectProperties object
                    (case visible of None \<Rightarrow> None | Some m \<Rightarrow> map_of m (fst (far_end dir link))))
                  (map_of objects (far_end dir link)) \<rparr>) edges)"

end
