(* ===== verification/Object_Laws.thy ===== *)
theory Object_Laws
  imports Object_Store
begin

text \<open>
  Laws of the instance store: the object table is a keyed store, what each operation leaves of the
  objects and of the links, and the batched lookup of neighbours as point lookups.
\<close>

section \<open>The object table as a keyed store\<close>

definition lookup_object :: "ObjectDb \<Rightarrow> ObjectKey \<Rightarrow> (Properties \<times> int) option" where
  "lookup_object db key =
     map_option (\<lambda>r. (row_properties r, row_updated r)) (List.find (\<lambda>r. object_key r = key) (db_objects db))"

lemma find_append: "List.find P (xs @ ys) = (case List.find P xs of Some x \<Rightarrow> Some x | None \<Rightarrow> List.find P ys)"
  by (induction xs) auto

lemma find_None_list_ex: "List.find P xs = None \<longleftrightarrow> \<not> list_ex P xs"
  by (auto simp: find_None_iff list_ex_iff)

lemma find_map_update:
  assumes "\<And>r. key (upd r) = key r"
  shows "List.find (\<lambda>r. key r = k') (map (\<lambda>r. if key r = k then upd r else r) rs) =
    map_option (\<lambda>r. if k' = k then upd r else r) (List.find (\<lambda>r. key r = k') rs)"
  using assms by (induction rs) auto

lemma find_filter_key:
  "List.find (\<lambda>r. key r = k') (filter (\<lambda>r. key r \<noteq> k) rs) =
     (if k' = k then None else List.find (\<lambda>r. key r = k') rs)"
  by (induction rs) auto

lemma object_key_update [simp]:
  "object_key (r \<lparr> row_properties := p, row_updated := u \<rparr>) = object_key r"
  by (simp add: object_key_def)

lemma lookup_put: "lookup_object (put_object k v db) k' = (if k' = k then Some v else lookup_object db k')"
proof (cases "list_ex (\<lambda>r. object_key r = k) (db_objects db)")
  case True
  then obtain r where "List.find (\<lambda>r. object_key r = k) (db_objects db) = Some r"
    using find_None_list_ex [of "\<lambda>r. object_key r = k" "db_objects db"] by fastforce
  with True show ?thesis
    by (cases v) (auto simp: lookup_object_def put_object_def Let_def option.map_comp comp_def
        find_map_update [where key = object_key] split: if_splits option.splits)
next
  case False
  then have none: "List.find (\<lambda>r. object_key r = k) (db_objects db) = None"
    by (simp add: find_None_list_ex)
  from False show ?thesis
    using none by (cases k; cases v) (auto simp: lookup_object_def put_object_def find_append object_key_def split: option.splits)
qed

lemma lookup_drop: "lookup_object (drop_object k db) k' = (if k' = k then None else lookup_object db k')"
  by (simp add: lookup_object_def drop_object_def find_filter_key)

interpretation objects: keyed_store lookup_object put_object drop_object
  by unfold_locales (rule lookup_put, rule lookup_drop)

lemma getOntologyObjectIn_lookup:
  "getOntologyObjectIn db tid ent i = map_option (\<lambda>(props, upd). \<lparr> obj_entity = ent, obj_objectId = i,
     obj_properties = props, obj_updatedAt = upd \<rparr>) (lookup_object db (tid, ent, i))"
  by (auto simp: getOntologyObjectIn_def lookup_object_def rowToObject_def object_key_def option.map_comp
      find_Some_iff intro!: map_option_cong split: option.splits)

lemma getOntologyObject_eq [simp]: "getOntologyObject = getOntologyObjectIn"
  by (intro ext) (simp add: getOntologyObject_def getOntologyObjectIn_def)

lemma getOntologyObjectIn_None [simp]:
  "getOntologyObjectIn db tid ent i = None \<longleftrightarrow> lookup_object db (tid, ent, i) = None"
  by (simp add: getOntologyObjectIn_lookup)

definition object_exists :: "ObjectDb \<Rightarrow> ObjectKey \<Rightarrow> bool" where
  "object_exists db key = (lookup_object db key \<noteq> None)"

text \<open>Every row is reached by a lookup of its key when the keys are distinct, the table's constraint.\<close>

definition keys_distinct :: "ObjectDb \<Rightarrow> bool" where
  "keys_distinct db = (distinct (map object_key (db_objects db)) \<and> distinct (map link_key (db_links db)))"

lemma find_key_distinct:
  "distinct (map key rs) \<Longrightarrow> r \<in> set rs \<Longrightarrow> List.find (\<lambda>s. key s = key r) rs = Some r"
  by (induction rs) (auto simp: image_iff)

lemma object_exists_iff: "object_exists db key \<longleftrightarrow> key \<in> object_key ` set (db_objects db)"
  by (auto simp: object_exists_def lookup_object_def find_None_iff)

section \<open>What each operation leaves\<close>

lemma lookup_upsert [simp]:
  "lookup_object (upsertOntologyObject tid ent i props now db) key =
     (if key = (tid, ent, i) then Some (json_properties props, now) else lookup_object db key)"
  by (simp add: upsertOntologyObject_def objects.lookup_insert)

lemma links_upsert [simp]: "db_links (upsertOntologyObject tid ent i props now db) = db_links db"
  by (simp add: upsertOntologyObject_def put_object_def Let_def split: prod.splits)

lemma objects_upsert_link [simp]: "db_objects (upsertOntologyLink tid link now db) = db_objects db"
  by (simp add: upsertOntologyLink_def Let_def)

lemma objects_delete_link [simp]: "db_objects (snd (deleteOntologyLink tid rel a b db)) = db_objects db"
  by (simp add: deleteOntologyLink_def Let_def)

lemma lookup_cong_objects: "db_objects db = db_objects db' \<Longrightarrow> lookup_object db = lookup_object db'"
  by (simp add: lookup_object_def fun_eq_iff)

lemma lookup_upsert_link [simp]: "lookup_object (upsertOntologyLink tid link now db) = lookup_object db"
  by (rule lookup_cong_objects) simp

lemma lookup_delete_link [simp]: "lookup_object (snd (deleteOntologyLink tid rel a b db)) = lookup_object db"
  by (rule lookup_cong_objects) simp

lemma lookup_delete [simp]:
  "lookup_object (snd (deleteOntologyObject tid ent i db)) key =
     (if key = (tid, ent, i) then None else lookup_object db key)"
proof -
  have "lookup_object (snd (deleteOntologyObject tid ent i db)) = lookup_object (drop_object (tid, ent, i) db)"
    by (rule lookup_cong_objects) (simp add: deleteOntologyObject_def Let_def)
  then show ?thesis by (simp add: objects.lookup_delete)
qed

lemma links_delete:
  "db_links (snd (deleteOntologyObject tid ent i db)) =
     filter (\<lambda>r. from_end r \<noteq> (tid, ent, i) \<and> to_end r \<noteq> (tid, ent, i)) (db_links db)"
  by (simp add: deleteOntologyObject_def drop_object_def Let_def conj_commute)

lemma links_delete_link:
  "set (db_links (snd (deleteOntologyLink tid rel a b db))) \<subseteq> set (db_links db)"
  by (auto simp: deleteOntologyLink_def Let_def)

lemma links_upsert_link:
  "r \<in> set (db_links (upsertOntologyLink tid link now db)) \<Longrightarrow> r \<in> set (db_links db) \<or>
     (from_end r = (tid, link_fromEntity link, link_fromObjectId link)
      \<and> to_end r = (tid, link_toEntity link, link_toObjectId link) \<and> lrow_relationship r = link_relationship link)"
  by (auto simp: upsertOntologyLink_def Let_def from_end_def to_end_def split: if_splits)

lemma map_if_key [simp]:
  "(\<And>r. key (upd r) = key r) \<Longrightarrow> map key (map (\<lambda>r. if P r then upd r else r) rs) = map key rs"
  by (induction rs) auto

lemma keys_distinct_ops [simp]:
  "keys_distinct db \<Longrightarrow> keys_distinct (upsertOntologyObject tid ent i props now db)"
  "keys_distinct db \<Longrightarrow> keys_distinct (snd (deleteOntologyObject tid ent i db))"
  "keys_distinct db \<Longrightarrow> keys_distinct (upsertOntologyLink tid link now db)"
  "keys_distinct db \<Longrightarrow> keys_distinct (snd (deleteOntologyLink tid rel a b db))"
  "keys_distinct db \<Longrightarrow> keys_distinct (deleteOntologyObjectsForTree tid db)"
proof -
  assume k: "keys_distinct db"
  have "object_key \<circ> (\<lambda>r. if object_key r = key then r \<lparr>row_properties := p, row_updated := now\<rparr> else r) = object_key" for key p
    by auto
  then show "keys_distinct (upsertOntologyObject tid ent i props now db)"
    using k by (auto simp: keys_distinct_def upsertOntologyObject_def put_object_def Let_def list_ex_iff
        object_key_def [of "ObjectRow.make _ _ _ _ _ _"] ObjectRow.defs)
      (auto simp: object_key_def)
  show "keys_distinct (snd (deleteOntologyObject tid ent i db))"
    "keys_distinct (snd (deleteOntologyLink tid rel a b db))"
    "keys_distinct (deleteOntologyObjectsForTree tid db)"
    using k by (auto simp: keys_distinct_def deleteOntologyObject_def drop_object_def deleteOntologyLink_def
        deleteOntologyObjectsForTree_def Let_def distinct_map_filter)
  show "keys_distinct (upsertOntologyLink tid link now db)"
    using k by (auto simp: keys_distinct_def upsertOntologyLink_def Let_def list_ex_iff)
qed

section \<open>Links that resolve\<close>

definition link_resolves :: "ObjectDb \<Rightarrow> LinkRow \<Rightarrow> bool" where
  "link_resolves db r = (object_exists db (from_end r) \<and> object_exists db (to_end r))"

definition no_dangling_links :: "ObjectDb \<Rightarrow> bool" where
  "no_dangling_links db = (\<forall>r \<in> set (db_links db). link_resolves db r)"

lemma no_dangling_upsert: "no_dangling_links db \<Longrightarrow> no_dangling_links (upsertOntologyObject tid ent i props now db)"
  by (auto simp: no_dangling_links_def link_resolves_def object_exists_def)

lemma no_dangling_delete: "no_dangling_links db \<Longrightarrow> no_dangling_links (snd (deleteOntologyObject tid ent i db))"
  by (auto simp: no_dangling_links_def link_resolves_def object_exists_def links_delete)

lemma no_dangling_unlink: "no_dangling_links db \<Longrightarrow> no_dangling_links (snd (deleteOntologyLink tid rel a b db))"
  using links_delete_link by (fastforce simp: no_dangling_links_def link_resolves_def object_exists_def)

lemma no_dangling_link:
  "no_dangling_links db \<Longrightarrow> object_exists db (tid, link_fromEntity link, link_fromObjectId link) \<Longrightarrow>
   object_exists db (tid, link_toEntity link, link_toObjectId link) \<Longrightarrow>
   no_dangling_links (upsertOntologyLink tid link now db)"
  using links_upsert_link by (fastforce simp: no_dangling_links_def link_resolves_def object_exists_def)

lemma no_dangling_clear: "no_dangling_links db \<Longrightarrow> no_dangling_links (deleteOntologyObjectsForTree tid db)"
  by (auto simp: no_dangling_links_def link_resolves_def object_exists_iff deleteOntologyObjectsForTree_def
      from_end_def to_end_def object_key_def image_iff)

end
