(* ===== verification/Ontology_Scope.thy ===== *)
theory Ontology_Scope
  imports Active_Runs Object_Laws
begin

text \<open>
  What a step of a run may address: \<^verbatim>\<open>src/enterprise/ontology-runtime.ts\<close>. The declarations of the
  active step are collated into maps, repeated declarations of one object type merged; the required
  properties of every type are gathered over the whole tree when the run is mediated.
\<close>

section \<open>Merging declarations\<close>

definition later :: "'a option \<Rightarrow> 'a option \<Rightarrow> 'a option" where
  "later base extension = (case extension of Some v \<Rightarrow> Some v | None \<Rightarrow> base)"

definition merge_property :: "OntologyProperty \<Rightarrow> OntologyProperty \<Rightarrow> OntologyProperty" where
  "merge_property existing p = \<lparr> prop_id = prop_id p, prop_type = prop_type p,
     prop_primaryKey = (if truthy (prop_primaryKey existing) \<or> truthy (prop_primaryKey p) then Some True
       else later (prop_primaryKey existing) (prop_primaryKey p)),
     prop_required = (if truthy (prop_required existing) \<or> truthy (prop_required p) then Some True
       else later (prop_required existing) (prop_required p)),
     prop_description = later (prop_description existing) (prop_description p) \<rparr>"

definition merge_properties :: "OntologyProperty list \<Rightarrow> OntologyProperty list \<Rightarrow> (string \<times> OntologyProperty) list" where
  "merge_properties base extension =
     foldl (\<lambda>m p. case map_of m (prop_id p) of
         None \<Rightarrow> AList.update (prop_id p) p m
       | Some existing \<Rightarrow> AList.update (prop_id p) (merge_property existing p) m)
       (foldl (\<lambda>m p. AList.update (prop_id p) p m) [] base) extension"

definition mergeEntity :: "OntologyEntity option \<Rightarrow> OntologyEntity \<Rightarrow> OntologyEntity" where
  "mergeEntity base extension = (case base of
     None \<Rightarrow> extension
   | Some b \<Rightarrow>
       let merged = merge_properties (opt_list (ent_properties b)) (opt_list (ent_properties extension)) in
       \<lparr> ent_id = ent_id extension, ent_title = later (ent_title b) (ent_title extension),
         ent_description = later (ent_description b) (ent_description extension),
         ent_properties = (if merged \<noteq> [] then Some (map snd merged)
           else later (ent_properties b) (ent_properties extension)) \<rparr>)"

record OntologyDeclarations =
  sc_entities :: "(string \<times> OntologyEntity) list"
  sc_relationships :: "(string \<times> OntologyRelationship) list"
  sc_actions :: "(string \<times> OntologyAction) list"
  sc_functions :: "(string \<times> OntologyFunction) list"

definition set_all :: "('a \<Rightarrow> string) \<Rightarrow> 'a list \<Rightarrow> (string \<times> 'a) list \<Rightarrow> (string \<times> 'a) list" where
  "set_all key xs m = foldl (\<lambda>m x. AList.update (key x) x m) m xs"

definition merge_node :: "OntologyDeclarations \<Rightarrow> OntologyBinding \<Rightarrow> OntologyDeclarations" where
  "merge_node scope ont = \<lparr>
     sc_entities = foldl (\<lambda>m e. AList.update (ent_id e) (mergeEntity (map_of m (ent_id e)) e) m)
       (sc_entities scope) (opt_list (entities ont)),
     sc_relationships = set_all rel_id (opt_list (relationships ont)) (sc_relationships scope),
     sc_actions = set_all act_id (opt_list (actions ont)) (sc_actions scope),
     sc_functions = set_all fn_id (opt_list (ont_functions ont)) (sc_functions scope) \<rparr>"

definition mergeOntologyDeclarations :: "OntologyBinding option list \<Rightarrow> OntologyDeclarations" where
  "mergeOntologyDeclarations bindings =
     foldl (\<lambda>scope b. case b of None \<Rightarrow> scope | Some ont \<Rightarrow> merge_node scope ont)
       \<lparr> sc_entities = [], sc_relationships = [], sc_actions = [], sc_functions = [] \<rparr> bindings"

section \<open>The scope of the active step\<close>

record NodeOntologyScope = OntologyDeclarations +
  sc_treeId :: EnterpriseId
  sc_nodeId :: EnterpriseId
  sc_enforce :: bool
  sc_treeRequired :: "(string \<times> string list) list"

definition resolveActiveOntologyScope :: "Registry \<Rightarrow> string \<Rightarrow> NodeOntologyScope option" where
  "resolveActiveOntologyScope st i = (case getEnterpriseActiveRun st i of
     None \<Rightarrow> None
   | Some run \<Rightarrow> (case findPlanNode (run_plan run) (activeNodeId (run_plan run)) of
       None \<Rightarrow> None
     | Some node \<Rightarrow>
         let d = mergeOntologyDeclarations [Some (ontology node)] in
         Some \<lparr> sc_entities = sc_entities d, sc_relationships = sc_relationships d, sc_actions = sc_actions d,
           sc_functions = sc_functions d, sc_treeId = treeId (run_plan run), sc_nodeId = nodeId node,
           sc_enforce = (plan_mode (run_plan run) = ModeEnforce),
           sc_treeRequired = (case run_treeRequiredProperties run of None \<Rightarrow> [] | Some m \<Rightarrow> m) \<rparr>))"

definition runDeclaresOntology :: "Registry \<Rightarrow> string \<Rightarrow> bool" where
  "runDeclaresOntology st i = (case getEnterpriseActiveRun st i of
     None \<Rightarrow> False
   | Some run \<Rightarrow> list_ex (\<lambda>n. opt_list (entities (ontology n)) \<noteq> [] \<or> opt_list (ont_functions (ontology n)) \<noteq> [])
       (nodes (run_plan run)))"

section \<open>Required properties of the tree\<close>

definition is_required :: "OntologyProperty \<Rightarrow> bool" where
  "is_required p = truthy (prop_required p)"

definition require_property :: "OntologyEntity \<Rightarrow> (string \<times> string list) list \<Rightarrow> OntologyProperty \<Rightarrow>
    (string \<times> string list) list" where
  "require_property e m p = (if is_required p
     then AList.update (ent_id e) (set_add (prop_id p) (case map_of m (ent_id e) of Some ids \<Rightarrow> ids | None \<Rightarrow> [])) m
     else m)"

fun required_walk :: "WorkflowNodeDefinition \<Rightarrow> (string \<times> string list) list \<Rightarrow> (string \<times> string list) list" where
  "required_walk (WorkflowNode i title descr ont ch) m =
     fold required_walk (case ch of None \<Rightarrow> [] | Some cs \<Rightarrow> cs)
       (fold (\<lambda>e m. foldl (require_property e) m (opt_list (ent_properties e)))
         (opt_list (case ont of None \<Rightarrow> None | Some b \<Rightarrow> entities b)) m)"

definition collectTreeRequiredProperties :: "WorkflowTreeDefinition \<Rightarrow> (string \<times> string list) list" where
  "collectTreeRequiredProperties tree = required_walk (tree_root tree) []"

definition primaryKeyOf :: "OntologyEntity \<Rightarrow> string option" where
  "primaryKeyOf e = map_option prop_id (List.find is_primary (opt_list (ent_properties e)))"

section \<open>Denials\<close>

datatype ScopeKind = KindObjectType | KindLinkType | KindFunction | KindAction

fun scope_kind_text :: "ScopeKind \<Rightarrow> string" where
  "scope_kind_text KindObjectType = ''object type''"
| "scope_kind_text KindLinkType = ''link type''"
| "scope_kind_text KindFunction = ''function''"
| "scope_kind_text KindAction = ''action''"

definition outOfScopeMessage :: "ScopeKind \<Rightarrow> string \<Rightarrow> string list \<Rightarrow> string" where
  "outOfScopeMessage kind requested available =
     scope_kind_text kind @ '' '' @ quoted requested @ '' is not in the ontology of this workflow step. Available '' @
     scope_kind_text kind @ ''s: '' @ (if available = [] then ''(none)'' else join '', '' (sort available))"


end
