(* ===== verification/Js_Text.thy ===== *)
theory Js_Text
  imports Js_Number
begin

text \<open>
  \<open>String(n)\<close> for a number and what \<open>JSON.stringify\<close> followed by \<open>JSON.parse\<close> makes of one: the language's
  shortest decimal text that reads back as the same double, and \<open>null\<close> for a value that is not finite.
\<close>

text \<open>The number of decimal digits before the point: the \<open>n\<close> with \<open>10 ^ (n - 1) \<le> q < 10 ^ n\<close>.\<close>

definition pow10 :: "int \<Rightarrow> rat" where
  "pow10 k = (if 0 \<le> k then 10 ^ nat k else 1 / 10 ^ nat (- k))"

fun decimal_exponent :: "nat \<Rightarrow> rat \<Rightarrow> int \<Rightarrow> int" where
  "decimal_exponent 0 q n = n"
| "decimal_exponent (Suc fuel) q n =
     (if q < pow10 (n - 1) then decimal_exponent fuel q (n - 1)
      else if pow10 n \<le> q then decimal_exponent fuel q (n + 1) else n)"

text \<open>The digits of \<open>q\<close> to \<open>k\<close> places that read back as \<open>q\<close>, the nearer neighbour first.\<close>

definition digits_of :: "rat \<Rightarrow> int \<Rightarrow> nat \<Rightarrow> nat option" where
  "digits_of q n k =
     (let scaled = q / pow10 (n - int k); near = round_half_even scaled;
          far = (if of_int near \<le> scaled then near + 1 else near - 1)
      in map_option nat (List.find (\<lambda>s. 10 ^ (k - 1) \<le> s \<and> s < 10 ^ k
           \<and> to_double False (of_int s * pow10 (n - int k)) = JsFin q) [near, far]))"

fun shortest :: "nat \<Rightarrow> rat \<Rightarrow> int \<Rightarrow> nat \<Rightarrow> nat \<times> nat" where
  "shortest 0 q n k = (nat (round_half_even (q / pow10 (n - int k))), k)"
| "shortest (Suc fuel) q n k = (case digits_of q n k of Some s \<Rightarrow> (s, k) | None \<Rightarrow> shortest fuel q n (k + 1))"

text \<open>The power of ten above \<open>q\<close> is tried first: it has one digit, and \<open>q\<close> may be the double just below it.\<close>

definition zeros :: "nat \<Rightarrow> string" where
  "zeros k = replicate k (CHR ''0'')"

definition positive_text :: "rat \<Rightarrow> string" where
  "positive_text q =
     (let m = decimal_exponent 400 q 1;
          (n, s, k) = (if to_double False (pow10 m) = JsFin q then (m + 1, 1, 1) else (m, shortest 17 q m 1));
          ds = show_nat s; e = n - 1
      in if int k \<le> n \<and> n \<le> 21 then ds @ zeros (nat (n - int k))
         else if 0 < n \<and> n \<le> 21 then take (nat n) ds @ ''.'' @ drop (nat n) ds
         else if - 6 < n \<and> n \<le> 0 then ''0.'' @ zeros (nat (- n)) @ ds
         else take 1 ds @ (if k = 1 then [] else ''.'' @ drop 1 ds) @ ''e'' @ (if 0 \<le> e then ''+'' else ''-'') @
           show_nat (nat \<bar>e\<bar>))"

fun number_text :: "js_number \<Rightarrow> string" where
  "number_text JsNaN = ''NaN''"
| "number_text (JsInf s) = (if s then ''-Infinity'' else ''Infinity'')"
| "number_text JsNegZero = ''0''"
| "number_text (JsFin q) = (if q = 0 then ''0'' else if q < 0 then ''-'' @ positive_text (- q) else positive_text q)"

end
