(* ===== verification/Ontology_Actions.thy ===== *)
theory Ontology_Actions
  imports Ontology_Scope Js_Text
begin

text \<open>
  The write path, \<^verbatim>\<open>src/enterprise/ontology-actions.ts\<close>: an action call is checked against its declared
  parameters, every effect is resolved into a planned write or edge, and only then is anything written.
  Arguments are what a tool call passes, read by name the way the language reads a property; the writes that
  are applied are the ones the trail records (\<^typ>\<open>ActionWrite\<close>).
\<close>

type_synonym Args = "(string \<times> CallArg) list"

section \<open>Parameters\<close>

definition check_parameter :: "OntologyAction \<Rightarrow> Args \<Rightarrow> OntologyActionParameter \<Rightarrow> string option" where
  "check_parameter action args p =
     (let v = read_arg args (par_id p) in
      if v = ArgUndefined \<or> v = ArgValue VNull
      then (if truthy (par_required p)
            then Some (''action '' @ quoted (act_id action) @ '' requires the parameter '' @ quoted (par_id p))
            else None)
      else if \<not> arg_matches_type v (par_type p)
      then Some (''parameter '' @ quoted (par_id p) @ '' of action '' @ quoted (act_id action) @ '' is declared '' @
             quoted (value_type_text (par_type p)) @ '' but got '' @ typeof_arg v)
      else None)"

definition validateParameters :: "OntologyAction \<Rightarrow> Args \<Rightarrow> string option" where
  "validateParameters action args =
     (let parameters = opt_list (act_parameters action);
          declared = dedup (map par_id parameters)
      in if length declared \<noteq> length parameters
         then Some (''action '' @ quoted (act_id action) @ '' declares the same parameter more than once'')
         else case List.find (\<lambda>name. name \<notin> set declared) (map fst args) of
           Some name \<Rightarrow> Some (''action '' @ quoted (act_id action) @ '' does not declare a parameter '' @
             quoted name @ ''; it declares: '' @ (if declared = [] then ''(none)'' else join '', '' (sort declared)))
         | None \<Rightarrow> first_some (check_parameter action args) parameters)"

definition validateStringIdentity :: "string \<Rightarrow> string \<Rightarrow> string option" where
  "validateStringIdentity parameterId identity =
     (if identity \<noteq> trim identity
      then Some (quoted parameterId @
        '' must not have leading or trailing whitespace: the ontology tools would trim it and lose the object'')
      else if identity = []
      then Some (quoted parameterId @ '' must not be blank: a blank identity cannot be addressed or traversed'')
      else None)"

text \<open>\<open>String(value)\<close> for the two kinds of value that can identify an object.\<close>

fun identity_text :: "OntologyValue \<Rightarrow> string" where
  "identity_text (VStr s) = s"
| "identity_text (VNum n) = number_text n"
| "identity_text _ = []"

fun is_identity :: "CallArg \<Rightarrow> bool" where
  "is_identity (ArgValue (VStr s)) = True"
| "is_identity (ArgValue (VNum n)) = True"
| "is_identity _ = False"

fun identity_error :: "string \<Rightarrow> CallArg \<Rightarrow> string option" where
  "identity_error parameterId (ArgValue (VStr s)) = validateStringIdentity parameterId s"
| "identity_error parameterId _ = None"

fun arg_value :: "CallArg \<Rightarrow> OntologyValue" where
  "arg_value (ArgValue v) = v"
| "arg_value _ = VNull"

section \<open>Object effects\<close>

fun kind_text :: "EffectKind \<Rightarrow> string" where
  "kind_text EffRead = ''read''"
| "kind_text EffCreate = ''create''"
| "kind_text EffUpdate = ''update''"
| "kind_text EffDelete = ''delete''"

record PlannedWrite =
  pw_entityId :: EnterpriseId
  pw_objectId :: string
  pw_kind :: EffectKind
  pw_properties :: "Properties option"

definition key_mismatch :: "OntologyAction \<Rightarrow> OntologyEntity \<Rightarrow> EnterpriseId \<Rightarrow> string \<Rightarrow> CallArg \<Rightarrow> string option" where
  "key_mismatch action e entityId primaryKey identity =
     (case List.find (\<lambda>p. prop_id p = primaryKey) (opt_list (ent_properties e)) of
       None \<Rightarrow> None
     | Some p \<Rightarrow> if arg_matches_type identity (prop_type p) then None
         else Some (''property '' @ quoted primaryKey @ '' of '' @ quoted entityId @ '' is declared '' @
           quoted (value_type_text (prop_type p)) @ '', but action '' @ quoted (act_id action) @ '' passed '' @
           typeof_arg identity))"

text \<open>A parameter named like a property writes that property.\<close>

fun map_parameters :: "OntologyAction \<Rightarrow> EnterpriseId \<Rightarrow> Args \<Rightarrow> OntologyProperty list \<Rightarrow> Properties \<Rightarrow> string list \<Rightarrow>
    (Properties \<times> string list) result" where
  "map_parameters action entityId args [] props consumed = Inr (props, consumed)"
| "map_parameters action entityId args (p # ps) props consumed =
     (let v = read_arg args (prop_id p) in
      if v = ArgUndefined then map_parameters action entityId args ps props consumed
      else if \<not> arg_matches_type v (prop_type p)
      then Inl (''property '' @ quoted (prop_id p) @ '' of '' @ quoted entityId @ '' is declared '' @
             quoted (value_type_text (prop_type p)) @ '', but action '' @ quoted (act_id action) @ '' would write '' @
             typeof_arg v)
      else if v = ArgValue VNull \<and> is_required p
      then Inl (''property '' @ quoted (prop_id p) @ '' of '' @ quoted entityId @ '' is required, so action '' @
             quoted (act_id action) @ '' cannot clear it'')
      else map_parameters action entityId args ps (AList.update (prop_id p) (arg_value v) props)
             (set_add (prop_id p) consumed))"

definition property_missing :: "Properties \<Rightarrow> string \<Rightarrow> bool" where
  "property_missing props i =
     (read_arg (map (\<lambda>(k, v). (k, ArgValue v)) props) i \<in> {ArgUndefined, ArgValue VNull})"

definition required_ids :: "NodeOntologyScope \<Rightarrow> OntologyEntity \<Rightarrow> EnterpriseId \<Rightarrow> string list" where
  "required_ids scope e entityId =
     dedup (map prop_id (filter is_required (opt_list (ent_properties e)))
       @ (case map_of (sc_treeRequired scope) entityId of Some ids \<Rightarrow> ids | None \<Rightarrow> []))"

definition plan_properties ::
  "NodeOntologyScope \<Rightarrow> OntologyAction \<Rightarrow> Args \<Rightarrow> OntologyEntity \<Rightarrow> EnterpriseId \<Rightarrow> EffectKind \<Rightarrow> string \<Rightarrow> OntologyValue \<Rightarrow>
   Properties \<Rightarrow> string list \<Rightarrow> (Properties \<times> string list) result" where
  "plan_properties scope action args e entityId kind primaryKey identity existing consumed =
     bind_result (map_parameters action entityId args (opt_list (ent_properties e)) existing consumed) (\<lambda>(mapped, used).
       let props = AList.update primaryKey identity mapped;
           missing = sort (filter (property_missing props) (required_ids scope e entityId))
       in if missing \<noteq> []
          then Inl (if kind = EffCreate
            then ''creating a '' @ quoted entityId @ '' needs its required properties: '' @ join '', '' missing
            else ''updating this '' @ quoted entityId @ '' would leave its required properties unset: '' @ join '', '' missing)
          else Inr (props, used))"

definition planEffect ::
  "ObjectDb \<Rightarrow> NodeOntologyScope \<Rightarrow> OntologyAction \<Rightarrow> Args \<Rightarrow> string list \<Rightarrow> OntologyObjectEffect \<Rightarrow>
   (PlannedWrite \<times> string list) result" where
  "planEffect db scope action args consumed effect =
     (let entityId = oe_entity effect; kind = oe_kind effect in
      case map_of (sc_entities scope) entityId of
        None \<Rightarrow> Inl (''action '' @ quoted (act_id action) @ '' writes object type '' @ quoted entityId @
          '', which this workflow step does not declare'')
      | Some e \<Rightarrow> (case primaryKeyOf e of
          None \<Rightarrow> Inl (''object type '' @ quoted entityId @
            '' declares no primaryKey, so an action cannot address an instance of it'')
        | Some primaryKey \<Rightarrow>
            let identity = read_arg args primaryKey in
            if \<not> is_identity identity
            then Inl (''action '' @ quoted (act_id action) @ '' must pass '' @ quoted primaryKey @ '' to identify the '' @
              quoted entityId @ '' object it '' @ kind_text kind @ ''s'')
            else case identity_error primaryKey identity of
              Some err \<Rightarrow> Inl err
            | None \<Rightarrow> (case key_mismatch action e entityId primaryKey identity of
                Some err \<Rightarrow> Inl err
              | None \<Rightarrow>
                  let objectId = identity_text (arg_value identity);
                      consumed = set_add primaryKey consumed;
                      existing = getOntologyObjectIn db (sc_treeId scope) entityId objectId;
                      planned = \<lparr> pw_entityId = entityId, pw_objectId = objectId, pw_kind = kind, pw_properties = None \<rparr>
                  in if kind = EffDelete
                     then (if existing = None
                           then Inl (''no '' @ quoted entityId @ '' object with id '' @ quoted objectId)
                           else Inr (planned, consumed))
                     else if kind = EffUpdate \<and> existing = None
                     then Inl (''no '' @ quoted entityId @ '' object with id '' @ quoted objectId @ '' to update'')
                     else if kind = EffCreate \<and> existing \<noteq> None
                     then Inl (''a '' @ quoted entityId @ '' object with id '' @ quoted objectId @ '' already exists'')
                     else bind_result (plan_properties scope action args e entityId kind primaryKey (arg_value identity)
                            (case existing of None \<Rightarrow> [] | Some object \<Rightarrow> obj_properties object) consumed)
                          (\<lambda>(props, used). Inr (planned \<lparr> pw_properties := Some props \<rparr>, used)))))"

section \<open>Graph effects\<close>

record PlannedLink =
  pl_kind :: LinkKind
  pl_link :: OntologyLinkRecord

text \<open>One end of the edge: which object type, which parameter, on which side.\<close>

definition resolve_end ::
  "NodeOntologyScope \<Rightarrow> OntologyAction \<Rightarrow> Args \<Rightarrow> OntologyRelationship \<Rightarrow> OntologyLinkEffect \<Rightarrow> string list \<Rightarrow>
   bool \<Rightarrow> EnterpriseId \<Rightarrow> string option \<Rightarrow> (string \<times> string) result" where
  "resolve_end scope action args rel effect seen is_from entityId parameter =
     (case map_of (sc_entities scope) entityId of
        None \<Rightarrow> Inl (''relationship '' @ quoted (le_relationship effect) @ (if is_from then '' starts at'' else '' ends at'') @
          '' object type '' @ quoted entityId @ '', which this workflow step does not declare'')
      | Some e \<Rightarrow> (case primaryKeyOf e of
          None \<Rightarrow> Inl (''object type '' @ quoted entityId @
            '' declares no primaryKey, so an action cannot address an instance of it'')
        | Some primaryKey \<Rightarrow>
            let parameterId = (case parameter of Some p \<Rightarrow> p | None \<Rightarrow> primaryKey);
                v = read_arg args parameterId
            in if rel_from rel = rel_to rel \<and> parameterId \<in> set seen
               then Inl (''action '' @ quoted (act_id action) @
                 '' must use distinct endpoint parameters for same-type relationship '' @ quoted (le_relationship effect) @
                 ''; set '' @ quoted ''from'' @ '' or '' @ quoted ''to'' @ '' to another declared parameter'')
               else if v = ArgUndefined
               then Inl (''action '' @ quoted (act_id action) @ '' must pass '' @ quoted parameterId @
                 '' to identify the '' @ quoted entityId @ '' it relates'')
               else if \<not> is_identity v
               then Inl (''action '' @ quoted (act_id action) @ '' passed '' @ typeof_arg v @ '' as '' @
                 quoted parameterId @ '', which cannot identify an object'')
               else case identity_error parameterId v of
                 Some err \<Rightarrow> Inl err
               | None \<Rightarrow> (case key_mismatch action e entityId primaryKey v of
                   Some err \<Rightarrow> Inl err
                 | None \<Rightarrow> Inr (parameterId, identity_text (arg_value v)))))"

definition planLinkEffect ::
  "NodeOntologyScope \<Rightarrow> OntologyAction \<Rightarrow> Args \<Rightarrow> string list \<Rightarrow> OntologyLinkEffect \<Rightarrow> (PlannedLink \<times> string list) result" where
  "planLinkEffect scope action args consumed effect =
     (case map_of (sc_relationships scope) (le_relationship effect) of
        None \<Rightarrow> Inl (''action '' @ quoted (act_id action) @ '' relates over '' @ quoted (le_relationship effect) @
          '', which this workflow step does not declare'')
      | Some rel \<Rightarrow>
          bind_result (resolve_end scope action args rel effect [] True (rel_from rel) (le_from effect)) (\<lambda>(from_par, from_id).
          bind_result (resolve_end scope action args rel effect [from_par] False (rel_to rel) (le_to effect)) (\<lambda>(to_par, to_id).
            Inr (\<lparr> pl_kind = le_kind effect, pl_link = \<lparr> link_relationship = le_relationship effect,
                     link_fromEntity = rel_from rel, link_fromObjectId = from_id,
                     link_toEntity = rel_to rel, link_toObjectId = to_id \<rparr> \<rparr>,
                 set_add to_par (set_add from_par consumed)))))"

section \<open>Plan, then apply\<close>

fun write_effect :: "OntologyActionEffect \<Rightarrow> OntologyObjectEffect option" where
  "write_effect (ObjectEffect e) = (if oe_kind e = EffRead then None else Some e)"
| "write_effect _ = None"

fun link_effect :: "OntologyActionEffect \<Rightarrow> OntologyLinkEffect option" where
  "link_effect (LinkEffect e) = Some e"
| "link_effect _ = None"

definition write_effects :: "OntologyAction \<Rightarrow> OntologyObjectEffect list" where
  "write_effects action = List.map_filter write_effect (opt_list (act_effects action))"

definition link_effects :: "OntologyAction \<Rightarrow> OntologyLinkEffect list" where
  "link_effects action = List.map_filter link_effect (opt_list (act_effects action))"

definition target_text :: "EnterpriseId \<Rightarrow> string \<Rightarrow> string" where
  "target_text entityId objectId = entityId @ ''/'' @ objectId"

definition write_target :: "PlannedWrite \<Rightarrow> string" where
  "write_target w = target_text (pw_entityId w) (pw_objectId w)"

definition no_write_message :: "OntologyAction \<Rightarrow> string" where
  "no_write_message action =
     (let outward = List.map_filter call_effect_tool (opt_list (act_effects action)) in
      if outward \<noteq> []
      then ''action '' @ quoted (act_id action) @ '' happens outside this workflow: call '' @
        join '' or '' (map quoted outward) @ '' directly with the action's parameters''
      else ''action '' @ quoted (act_id action) @ '' declares no write effects, so it cannot change any object'')"

text \<open>The planned writes so far are also the map of their targets.\<close>

fun plan_writes :: "ObjectDb \<Rightarrow> NodeOntologyScope \<Rightarrow> OntologyAction \<Rightarrow> Args \<Rightarrow> PlannedWrite list \<Rightarrow> string list \<Rightarrow>
    OntologyObjectEffect list \<Rightarrow> (PlannedWrite list \<times> string list) result" where
  "plan_writes db scope action args planned consumed [] = Inr (planned, consumed)"
| "plan_writes db scope action args planned consumed (effect # effects) =
     bind_result (planEffect db scope action args consumed effect) (\<lambda>(w, used).
       if write_target w \<in> set (map write_target planned)
       then Inl (''action '' @ quoted (act_id action) @ '' declares more than one effect on '' @ quoted (write_target w) @
              ''; effects are not ordered, so one object may be written once'')
       else plan_writes db scope action args (planned @ [w]) used effects)"

fun plan_links :: "NodeOntologyScope \<Rightarrow> OntologyAction \<Rightarrow> Args \<Rightarrow> PlannedLink list \<Rightarrow> string list \<Rightarrow> OntologyLinkEffect list \<Rightarrow>
    (PlannedLink list \<times> string list) result" where
  "plan_links scope action args planned consumed [] = Inr (planned, consumed)"
| "plan_links scope action args planned consumed (effect # effects) =
     bind_result (planLinkEffect scope action args consumed effect) (\<lambda>(l, used).
       plan_links scope action args (planned @ [l]) used effects)"

definition endpoint_error ::
  "ObjectDb \<Rightarrow> NodeOntologyScope \<Rightarrow> OntologyAction \<Rightarrow> PlannedWrite list \<Rightarrow> EnterpriseId \<times> string \<Rightarrow> string option" where
  "endpoint_error db scope action planned endpoint = (let (entityId, objectId) = endpoint in
     case List.find (\<lambda>w. write_target w = target_text entityId objectId) planned of
       Some w \<Rightarrow> if pw_kind w = EffDelete
         then Some (''action '' @ quoted (act_id action) @ '' cannot link deleted '' @ quoted entityId @ '' object '' @
                quoted objectId)
         else None
     | None \<Rightarrow> if getOntologyObjectIn db (sc_treeId scope) entityId objectId = None
         then Some (''action '' @ quoted (act_id action) @ '' cannot link missing '' @ quoted entityId @ '' object '' @
                quoted objectId)
         else None)"

definition link_error ::
  "ObjectDb \<Rightarrow> NodeOntologyScope \<Rightarrow> OntologyAction \<Rightarrow> PlannedWrite list \<Rightarrow> PlannedLink \<Rightarrow> string option" where
  "link_error db scope action planned l = (if pl_kind l = Unlink then None
     else first_some (endpoint_error db scope action planned)
       [(link_fromEntity (pl_link l), link_fromObjectId (pl_link l)), (link_toEntity (pl_link l), link_toObjectId (pl_link l))])"

definition apply_write :: "EnterpriseId \<Rightarrow> int \<Rightarrow> PlannedWrite \<Rightarrow> ObjectDb \<Rightarrow> ObjectDb" where
  "apply_write tid now w db = (if pw_kind w = EffDelete
     then snd (deleteOntologyObject tid (pw_entityId w) (pw_objectId w) db)
     else upsertOntologyObject tid (pw_entityId w) (pw_objectId w)
       (case pw_properties w of Some props \<Rightarrow> props | None \<Rightarrow> []) now db)"

definition apply_link :: "EnterpriseId \<Rightarrow> int \<Rightarrow> PlannedLink \<Rightarrow> ObjectDb \<Rightarrow> ObjectDb" where
  "apply_link tid now l db = (let link = pl_link l in
     if pl_kind l = Unlink
     then snd (deleteOntologyLink tid (link_relationship link) (link_fromObjectId link) (link_toObjectId link) db)
     else upsertOntologyLink tid link now db)"

definition recorded_write :: "PlannedWrite \<Rightarrow> ActionWrite" where
  "recorded_write w = ObjectWrite (pw_entityId w) (pw_objectId w) (pw_kind w)"

definition recorded_link :: "PlannedLink \<Rightarrow> ActionWrite" where
  "recorded_link l = LinkWrite (link_relationship (pl_link l)) (link_fromObjectId (pl_link l))
     (link_toObjectId (pl_link l)) (pl_kind l)"

text \<open>Everything before the first write.\<close>

definition plan_action ::
  "ObjectDb \<Rightarrow> NodeOntologyScope \<Rightarrow> OntologyAction \<Rightarrow> Args \<Rightarrow> (PlannedWrite list \<times> PlannedLink list \<times> string list) result" where
  "plan_action db scope action args = (case validateParameters action args of
     Some err \<Rightarrow> Inl err
   | None \<Rightarrow>
       if write_effects action = [] \<and> link_effects action = [] then Inl (no_write_message action)
       else bind_result (plan_writes db scope action args [] [] (write_effects action)) (\<lambda>(planned, consumed).
            bind_result (plan_links scope action args [] consumed (link_effects action)) (\<lambda>(plannedLinks, used).
              case first_some (link_error db scope action planned) plannedLinks of
                Some err \<Rightarrow> Inl err
              | None \<Rightarrow> Inr (planned, plannedLinks, used))))"

definition invokeOntologyAction ::
  "NodeOntologyScope \<Rightarrow> OntologyAction \<Rightarrow> Args \<Rightarrow> int \<Rightarrow> ObjectDb \<Rightarrow> (ActionWrite list \<times> Args) result \<times> ObjectDb" where
  "invokeOntologyAction scope action args now db = (case plan_action db scope action args of
     Inl err \<Rightarrow> (Inl err, db)
   | Inr (planned, plannedLinks, consumed) \<Rightarrow>
       (Inr (map recorded_write planned @ map recorded_link plannedLinks,
             filter (\<lambda>(name, v). name \<notin> set consumed) args),
        fold (apply_link (sc_treeId scope) now) plannedLinks
          (fold (apply_write (sc_treeId scope) now) planned db)))"

end
