(* ===== verification/Ontology_Tools.thy ===== *)
theory Ontology_Tools
  imports Ontology_Actions Run_Gate
begin

text \<open>
  The ontology tools of \<^verbatim>\<open>src/agents/tools/ontology-tools.ts\<close>: the body of each tool after its
  parameters are read. A tool answers with a payload or with the text of an error, and every one of them
  first resolves the scope of the run's active step.
\<close>

definition OBJECT_SEARCH_DEFAULT_LIMIT :: nat where "OBJECT_SEARCH_DEFAULT_LIMIT = 10"
definition NEIGHBOR_DEFAULT_LIMIT :: nat where "NEIGHBOR_DEFAULT_LIMIT = 20"

definition unmediated :: string where
  "unmediated = ''this run is not governed by a workflow tree, so it has no ontology''"

definition with_scope :: "Registry \<Rightarrow> string \<Rightarrow> (NodeOntologyScope \<Rightarrow> 'a result) \<Rightarrow> 'a result" where
  "with_scope st i body = (case resolveActiveOntologyScope st i of None \<Rightarrow> Inl unmediated | Some scope \<Rightarrow> body scope)"

definition visiblePropertiesOf :: "OntologyEntity \<Rightarrow> string list" where
  "visiblePropertiesOf e = map prop_id (opt_list (ent_properties e))"

definition not_addressable :: "string \<Rightarrow> string" where
  "not_addressable ent = ''object type '' @ quoted ent @ '' is not addressable from this workflow step''"

text \<open>An object type a read may start from: declared by the step, with a primary key.\<close>

definition readable_entity :: "NodeOntologyScope \<Rightarrow> string \<Rightarrow> OntologyEntity result" where
  "readable_entity scope ent = (case map_of (sc_entities scope) ent of
     None \<Rightarrow> Inl (outOfScopeMessage KindObjectType ent (map fst (sc_entities scope)))
   | Some declared \<Rightarrow> if primaryKeyOf declared = None then Inl (not_addressable ent) else Inr declared)"

section \<open>search_objects\<close>

record SearchAnswer =
  sa_entity :: string
  sa_count :: nat
  sa_objects :: "(string \<times> Properties) list"

definition search_objects ::
  "(js_number \<Rightarrow> string) \<Rightarrow> NodeOntologyScope \<Rightarrow> ObjectDb \<Rightarrow> string \<Rightarrow> string option \<Rightarrow> nat option \<Rightarrow> SearchAnswer result" where
  "search_objects sql_number scope db ent pat limit =
     bind_result (readable_entity scope ent) (\<lambda>declared.
       let objects = searchOntologyObjects sql_number db (sc_treeId scope) ent pat (Some (visiblePropertiesOf declared))
             (case limit of Some n \<Rightarrow> n | None \<Rightarrow> OBJECT_SEARCH_DEFAULT_LIMIT)
       in Inr \<lparr> sa_entity = ent, sa_count = length objects,
            sa_objects = map (\<lambda>object. (obj_objectId object, obj_properties object)) objects \<rparr>)"

section \<open>get_neighbors\<close>

record NeighborAnswer =
  na_relationship :: string
  na_direction :: Direction
  na_entity :: string
  na_objectId :: string
  na_properties :: "Properties option"

definition visible_neighbors :: "NodeOntologyScope \<Rightarrow> (string \<times> string list) list" where
  "visible_neighbors scope = map (\<lambda>(i, declared). (i, visiblePropertiesOf declared))
     (filter (\<lambda>(i, declared). primaryKeyOf declared \<noteq> None) (sc_entities scope))"

definition get_neighbors ::
  "NodeOntologyScope \<Rightarrow> ObjectDb \<Rightarrow> string \<Rightarrow> string \<Rightarrow> string option \<Rightarrow> nat option \<Rightarrow> NeighborAnswer list result" where
  "get_neighbors scope db ent objectId relationship limit =
     bind_result (readable_entity scope ent) (\<lambda>declared.
       if relationship \<noteq> None \<and> map_of (sc_relationships scope) (the relationship) = None
       then Inl (outOfScopeMessage KindLinkType (the relationship) (map fst (sc_relationships scope)))
       else Inr (map (\<lambda>neighbor. \<lparr> na_relationship = link_relationship (nb_link neighbor),
                na_direction = nb_direction neighbor,
                na_entity = fst (far_end (nb_direction neighbor) (nb_link neighbor)),
                na_objectId = snd (far_end (nb_direction neighbor) (nb_link neighbor)),
                na_properties = map_option obj_properties (nb_object neighbor) \<rparr>)
              (getOntologyNeighbors db (sc_treeId scope, ent, objectId) relationship
                (Some (map fst (sc_relationships scope))) (Some (visible_neighbors scope))
                (case limit of Some n \<Rightarrow> n | None \<Rightarrow> NEIGHBOR_DEFAULT_LIMIT))))"

section \<open>compute_function\<close>

record FunctionAnswer =
  fa_function :: string
  fa_entity :: string
  fa_objectId :: string
  fa_returns :: OntologyValueType
  fa_value :: OntologyValue

definition visible_view :: "OntologyEntity \<Rightarrow> Properties \<Rightarrow> Properties" where
  "visible_view e props = filter (\<lambda>(p, v). p \<in> set (visiblePropertiesOf e)) props"

definition hidden_properties :: "OntologyEntity \<Rightarrow> Node \<Rightarrow> string list" where
  "hidden_properties e expression = filter (\<lambda>p. p \<notin> set (visiblePropertiesOf e)) (ontologyExpressionProperties expression)"

fun parse_message :: "parse_error \<Rightarrow> string" where
  "parse_message (SyntaxError e) = e"
| "parse_message OutOfFuel = []"

definition evaluate_function :: "OntologyFunction \<Rightarrow> OntologyEntity \<Rightarrow> string \<Rightarrow> Properties \<Rightarrow> FunctionAnswer result" where
  "evaluate_function fn e objectId scoped = (case parseOntologyExpression (fn_expression fn) of
     Inl err \<Rightarrow> Inl (''function '' @ quoted (fn_id fn) @ '' no longer parses: '' @ parse_message err)
   | Inr expression \<Rightarrow>
       let hidden = hidden_properties e expression in
       if hidden \<noteq> []
       then Inl (''function '' @ quoted (fn_id fn) @ '' reads '' @
         join '', '' (map (\<lambda>p. quoted (CHR ''$'' # p)) hidden) @ '', which object type '' @
         quoted (fn_entity fn) @ '' does not declare in this workflow step'')
       else case evaluateOntologyExpression expression scoped of
         Inl err \<Rightarrow> Inl (''function '' @ quoted (fn_id fn) @ '' failed: '' @ err)
       | Inr v \<Rightarrow> Inr \<lparr> fa_function = fn_id fn, fa_entity = fn_entity fn, fa_objectId = objectId,
           fa_returns = fn_returns fn, fa_value = v \<rparr>)"

definition compute_function ::
  "NodeOntologyScope \<Rightarrow> ObjectDb \<Rightarrow> string \<Rightarrow> string \<Rightarrow> FunctionAnswer result" where
  "compute_function scope db functionId objectId = (case map_of (sc_functions scope) functionId of
     None \<Rightarrow> Inl (outOfScopeMessage KindFunction functionId (map fst (sc_functions scope)))
   | Some fn \<Rightarrow> (case map_of (sc_entities scope) (fn_entity fn) of
       None \<Rightarrow> Inl (not_addressable (fn_entity fn))
     | Some e \<Rightarrow>
         if primaryKeyOf e = None then Inl (not_addressable (fn_entity fn))
         else case getOntologyObject db (sc_treeId scope) (fn_entity fn) objectId of
           None \<Rightarrow> Inl (''no '' @ quoted (fn_entity fn) @ '' object with id '' @ quoted objectId)
         | Some object \<Rightarrow> evaluate_function fn e objectId (visible_view e (obj_properties object))))"

section \<open>invoke_action\<close>

text \<open>\<open>args\<close> absent, something that is not an object, or the arguments.\<close>

definition invoke_action ::
  "string \<Rightarrow> string \<Rightarrow> CallParams option \<Rightarrow> int \<Rightarrow> Registry \<times> ObjectDb \<Rightarrow>
   (string \<times> ActionWrite list) result \<times> (Registry \<times> ObjectDb)" where
  "invoke_action i actionId rawArgs now state = (let (st, db) = state in
     case resolveActiveOntologyScope st i of
       None \<Rightarrow> (Inl unmediated, state)
     | Some scope \<Rightarrow>
         if rawArgs = Some NotAnObject
         then (Inl (quoted ''args'' @ '' must be an object of the action's declared parameters''), state)
         else case map_of (sc_actions scope) actionId of
           None \<Rightarrow> (Inl (outOfScopeMessage KindAction actionId (map fst (sc_actions scope))), state)
         | Some action \<Rightarrow>
             let args = (case rawArgs of Some (ParamObject args) \<Rightarrow> args | _ \<Rightarrow> []) in
             (case invokeOntologyAction scope action args now db of
               (Inl err, db') \<Rightarrow> (Inl err, (st, db'))
             | (Inr (writes, context), db') \<Rightarrow>
                 (Inr (act_id action, writes), (recordEnterpriseActionInvoked i (act_id action) writes context st, db'))))"

end
