(* ===== verification/Ontology_Action_Laws.thy ===== *)
theory Ontology_Action_Laws
  imports Ontology_Actions
begin

text \<open>
  What a plan that was accepted guarantees, and what applying it leaves of the store.
\<close>

section \<open>Accepted plans\<close>

definition write_key :: "PlannedWrite \<Rightarrow> EnterpriseId \<times> string" where
  "write_key w = (pw_entityId w, pw_objectId w)"

definition declared_types :: "OntologyEntity \<Rightarrow> (string \<times> OntologyValueType) list" where
  "declared_types e = map (\<lambda>p. (prop_id p, prop_type p)) (opt_list (ent_properties e))"

definition existing_properties :: "ObjectDb \<Rightarrow> ObjectKey \<Rightarrow> Properties" where
  "existing_properties db key = (case lookup_object db key of None \<Rightarrow> [] | Some (props, u) \<Rightarrow> props)"

text \<open>The checks a planned write has passed.\<close>

definition write_checked :: "ObjectDb \<Rightarrow> NodeOntologyScope \<Rightarrow> OntologyAction \<Rightarrow> Args \<Rightarrow> PlannedWrite \<Rightarrow> bool" where
  "write_checked db scope action args w \<longleftrightarrow>
     (\<exists>e primaryKey identity c used. map_of (sc_entities scope) (pw_entityId w) = Some e \<and> primaryKeyOf e = Some primaryKey
        \<and> read_arg args primaryKey = ArgValue identity \<and> is_identity (ArgValue identity)
        \<and> pw_objectId w = identity_text identity
        \<and> (pw_kind w \<noteq> EffDelete \<longrightarrow> (\<exists>props. pw_properties w = Some props
            \<and> plan_properties scope action args e (pw_entityId w) (pw_kind w) primaryKey identity
                (existing_properties db (sc_treeId scope, pw_entityId w, pw_objectId w)) c = Inr (props, used))))
     \<and> (pw_kind w = EffCreate \<longleftrightarrow> \<not> object_exists db (sc_treeId scope, pw_entityId w, pw_objectId w))"

lemma is_identity_value: "is_identity a \<longleftrightarrow> (\<exists>v. a = ArgValue v \<and> is_identity (ArgValue v))"
  by (cases a) auto

lemma getOntologyObjectIn_properties:
  "(case getOntologyObjectIn db tid ent i of None \<Rightarrow> [] | Some object \<Rightarrow> obj_properties object) =
     existing_properties db (tid, ent, i)"
  by (auto simp: getOntologyObjectIn_lookup existing_properties_def split: option.splits)

lemma plan_effect_checked:
  assumes "planEffect db scope action args consumed effect = Inr (w, used)" "oe_kind effect \<noteq> EffRead"
  shows "pw_entityId w = oe_entity effect \<and> pw_kind w = oe_kind effect \<and> write_checked db scope action args w"
proof -
  let ?ent = "oe_entity effect" and ?kind = "oe_kind effect" and ?tid = "sc_treeId scope"
  from assms(1) obtain e where e: "map_of (sc_entities scope) ?ent = Some e"
    by (auto simp: planEffect_def Let_def split: option.splits)
  from assms(1) e obtain pk where pk: "primaryKeyOf e = Some pk"
    by (auto simp: planEffect_def Let_def split: option.splits)
  from assms(1) e pk have "is_identity (read_arg args pk)"
    by (auto simp: planEffect_def Let_def split: option.splits if_splits)
  then obtain v where v: "read_arg args pk = ArgValue v" "is_identity (ArgValue v)"
    using is_identity_value by blast
  from assms(1) e pk v have ok: "identity_error pk (ArgValue v) = None"
      "key_mismatch action e ?ent pk (ArgValue v) = None"
    by (auto simp: planEffect_def Let_def split: option.splits if_splits)
  let ?i = "identity_text v"
  have ex: "getOntologyObjectIn db ?tid ?ent ?i = None \<longleftrightarrow> \<not> object_exists db (?tid, ?ent, ?i)"
    unfolding object_exists_def getOntologyObjectIn_None by blast
  have known: "is_identity (read_arg args pk)" using v by simp
  consider (del) "?kind = EffDelete" | (other) "?kind = EffCreate \<or> ?kind = EffUpdate"
    using assms(2) by (cases ?kind) auto
  then show ?thesis
  proof cases
    case del
    with assms(1) e pk v ok have w: "w = \<lparr> pw_entityId = ?ent, pw_objectId = ?i, pw_kind = EffDelete, pw_properties = None \<rparr>"
        and "getOntologyObjectIn db ?tid ?ent ?i \<noteq> None"
      by (auto simp: planEffect_def Let_def split: if_splits)
    then show ?thesis using del e pk v ex by (auto simp: write_checked_def)
  next
    case other
    let ?planned = "\<lparr> pw_entityId = ?ent, pw_objectId = ?i, pw_kind = ?kind, pw_properties = None \<rparr>"
    from other assms(1) e pk v ok
    have kind: "?kind = EffCreate \<longleftrightarrow> getOntologyObjectIn db ?tid ?ent ?i = None"
      and "bind_result (plan_properties scope action args e ?ent ?kind pk v
            (existing_properties db (?tid, ?ent, ?i)) (set_add pk consumed))
          (\<lambda>(props, used). Inr (?planned \<lparr> pw_properties := Some props \<rparr>, used)) = Inr (w, used)"
      by (auto simp: planEffect_def Let_def getOntologyObjectIn_properties simp del: getOntologyObjectIn_None bind_result_Inr
          split: if_splits)
    then obtain props where "w = ?planned \<lparr> pw_properties := Some props \<rparr>"
        "plan_properties scope action args e ?ent ?kind pk v (existing_properties db (?tid, ?ent, ?i)) (set_add pk consumed)
          = Inr (props, used)"
      by auto
    then show ?thesis using other e pk v ex kind unfolding write_checked_def by auto
  qed
qed

lemma plan_writes_checked:
  assumes "plan_writes db scope action args planned consumed effects = Inr (ws, used)"
    "\<And>e. e \<in> set effects \<Longrightarrow> oe_kind e \<noteq> EffRead"
    "distinct (map write_target planned)" "\<And>w. w \<in> set planned \<Longrightarrow> write_checked db scope action args w"
  shows "map (\<lambda>w. (pw_entityId w, pw_kind w)) ws =
      map (\<lambda>w. (pw_entityId w, pw_kind w)) planned @ map (\<lambda>e. (oe_entity e, oe_kind e)) effects
    \<and> distinct (map write_target ws) \<and> (\<forall>w \<in> set ws. write_checked db scope action args w)"
  using assms
proof (induction effects arbitrary: planned consumed)
  case Nil
  then show ?case by auto
next
  case (Cons effect effects)
  from Cons.prems(1) obtain w c where w: "planEffect db scope action args consumed effect = Inr (w, c)"
      and new: "write_target w \<notin> set (map write_target planned)"
      and rest: "plan_writes db scope action args (planned @ [w]) c effects = Inr (ws, used)"
    by (auto split: if_splits)
  have checked: "pw_entityId w = oe_entity effect \<and> pw_kind w = oe_kind effect \<and> write_checked db scope action args w"
    using plan_effect_checked [OF w] Cons.prems(2) by simp
  have "map (\<lambda>w. (pw_entityId w, pw_kind w)) ws =
      map (\<lambda>w. (pw_entityId w, pw_kind w)) (planned @ [w]) @ map (\<lambda>e. (oe_entity e, oe_kind e)) effects
    \<and> distinct (map write_target ws) \<and> (\<forall>w \<in> set ws. write_checked db scope action args w)"
    by (rule Cons.IH [OF rest]) (use Cons.prems new checked in \<open>auto\<close>)
  with checked show ?case by auto
qed

text \<open>A planned edge follows its effect and the declared relationship.\<close>

definition link_checked :: "NodeOntologyScope \<Rightarrow> OntologyAction \<Rightarrow> PlannedLink \<Rightarrow> bool" where
  "link_checked scope action l \<longleftrightarrow>
     (\<exists>effect rel. effect \<in> set (link_effects action) \<and> le_kind effect = pl_kind l
        \<and> le_relationship effect = link_relationship (pl_link l)
        \<and> map_of (sc_relationships scope) (link_relationship (pl_link l)) = Some rel
        \<and> link_fromEntity (pl_link l) = rel_from rel \<and> link_toEntity (pl_link l) = rel_to rel
        \<and> map_of (sc_entities scope) (rel_from rel) \<noteq> None \<and> map_of (sc_entities scope) (rel_to rel) \<noteq> None)"

lemma resolve_end_declared:
  "resolve_end scope action args rel effect seen side ent par = Inr x \<Longrightarrow> map_of (sc_entities scope) ent \<noteq> None"
  by (auto simp: resolve_end_def split: option.splits)

lemma plan_link_checked:
  "planLinkEffect scope action args consumed effect = Inr (l, used) \<Longrightarrow> effect \<in> set (link_effects action) \<Longrightarrow>
   link_checked scope action l"
  by (auto simp: planLinkEffect_def link_checked_def split: option.splits prod.splits dest!: resolve_end_declared)

lemma plan_links_checked:
  "plan_links scope action args planned consumed effects = Inr (ls, used) \<Longrightarrow>
   set effects \<subseteq> set (link_effects action) \<Longrightarrow> (\<And>l. l \<in> set planned \<Longrightarrow> link_checked scope action l) \<Longrightarrow>
   l \<in> set ls \<Longrightarrow> link_checked scope action l"
proof (induction effects arbitrary: planned consumed)
  case Nil
  then show ?case by auto
next
  case (Cons effect effects)
  from Cons.prems(1) obtain l' c where l': "planLinkEffect scope action args consumed effect = Inr (l', c)"
      and rest: "plan_links scope action args (planned @ [l']) c effects = Inr (ls, used)"
    by auto
  show ?case
    by (rule Cons.IH [OF rest]) (use Cons.prems plan_link_checked [OF l'] in auto)
qed

lemma write_effects_kind: "e \<in> set (write_effects action) \<Longrightarrow> oe_kind e \<noteq> EffRead"
  by (auto simp: write_effects_def List.map_filter_def elim!: write_effect.elims split: if_splits)

lemma write_effects_declared:
  "e \<in> set (write_effects action) \<Longrightarrow> ObjectEffect e \<in> set (opt_list (act_effects action))"
  by (auto simp: write_effects_def List.map_filter_def elim!: write_effect.elims split: if_splits)

lemma link_effects_declared:
  "e \<in> set (link_effects action) \<Longrightarrow> LinkEffect e \<in> set (opt_list (act_effects action))"
  by (auto simp: link_effects_def List.map_filter_def elim!: link_effect.elims)

lemma plan_action_checked:
  assumes "plan_action db scope action args = Inr (ws, ls, used)"
  shows "map (\<lambda>w. (pw_entityId w, pw_kind w)) ws = map (\<lambda>e. (oe_entity e, oe_kind e)) (write_effects action)"
    "distinct (map write_target ws)" "\<And>w. w \<in> set ws \<Longrightarrow> write_checked db scope action args w"
    "\<And>l. l \<in> set ls \<Longrightarrow> link_checked scope action l"
    "\<And>l. l \<in> set ls \<Longrightarrow> link_error db scope action ws l = None"
proof -
  from assms obtain consumed where
      ws: "plan_writes db scope action args [] [] (write_effects action) = Inr (ws, consumed)"
      and ls: "plan_links scope action args [] consumed (link_effects action) = Inr (ls, used)"
      and err: "first_some (link_error db scope action ws) ls = None"
    by (auto simp: plan_action_def split: option.splits if_splits)
  note w = plan_writes_checked [OF ws]
  show "map (\<lambda>w. (pw_entityId w, pw_kind w)) ws = map (\<lambda>e. (oe_entity e, oe_kind e)) (write_effects action)"
    "distinct (map write_target ws)" "\<And>w. w \<in> set ws \<Longrightarrow> write_checked db scope action args w"
    using w write_effects_kind by auto
  show "\<And>l. l \<in> set ls \<Longrightarrow> link_checked scope action l"
    using plan_links_checked [OF ls] by auto
  show "\<And>l. l \<in> set ls \<Longrightarrow> link_error db scope action ws l = None"
    using err by (simp add: first_some_None)
qed

lemma distinct_write_keys: "distinct (map write_target ws) \<Longrightarrow> distinct (map write_key ws)"
proof -
  have "write_target w = target_text (fst (write_key w)) (snd (write_key w))" for w
    by (simp add: write_target_def write_key_def)
  then have "map write_target ws = map (\<lambda>(a, b). target_text a b) (map write_key ws)"
    by (simp add: case_prod_beta)
  then show "distinct (map write_target ws) \<Longrightarrow> distinct (map write_key ws)"
    using distinct_map [of "\<lambda>(a, b). target_text a b" "map write_key ws"] by simp
qed

section \<open>The store after the writes\<close>

definition written :: "int \<Rightarrow> PlannedWrite \<Rightarrow> (Properties \<times> int) option" where
  "written now w = (if pw_kind w = EffDelete then None
     else Some (json_properties (case pw_properties w of Some props \<Rightarrow> props | None \<Rightarrow> []), now))"

lemma lookup_apply_write:
  "lookup_object (apply_write tid now w db) key =
     (if key = (tid, write_key w) then written now w else lookup_object db key)"
  by (auto simp: apply_write_def written_def write_key_def)

lemma lookup_apply_writes:
  "distinct (map write_key ws) \<Longrightarrow> lookup_object (fold (apply_write tid now) ws db) key =
     (case List.find (\<lambda>w. key = (tid, write_key w)) ws of Some w \<Rightarrow> written now w | None \<Rightarrow> lookup_object db key)"
proof (induction ws arbitrary: db)
  case Nil
  then show ?case by simp
next
  case (Cons w ws)
  show ?case
  proof (cases "key = (tid, write_key w)")
    case True
    with Cons.prems have "List.find (\<lambda>w. key = (tid, write_key w)) ws = None"
      by (auto simp: find_None_iff image_iff)
    with Cons True show ?thesis by (simp add: lookup_apply_write)
  next
    case False
    with Cons show ?thesis by (simp add: lookup_apply_write split: option.splits)
  qed
qed

lemma lookup_apply_link [simp]: "lookup_object (apply_link tid now l db) = lookup_object db"
  by (simp add: apply_link_def Let_def)

lemma lookup_apply_links [simp]: "lookup_object (fold (apply_link tid now) ls db) = lookup_object db"
  by (induction ls arbitrary: db) simp_all

text \<open>The outcome of one object: named by a planned write, or untouched.\<close>

lemma lookup_after:
  assumes "distinct (map write_key ws)" "w \<in> set ws"
  shows "lookup_object (fold (apply_link tid now) ls (fold (apply_write tid now) ws db)) (tid, write_key w) = written now w"
proof -
  have "List.find (\<lambda>v. write_key v = write_key w) ws = Some w"
    using find_key_distinct [OF assms] by simp
  then have "List.find (\<lambda>v. write_key w = write_key v) ws = Some w"
    by (simp add: eq_commute [of "write_key w"])
  then show ?thesis using assms(1) by (simp add: lookup_apply_writes)
qed

lemma lookup_untouched:
  assumes "distinct (map write_key ws)" "\<And>w. w \<in> set ws \<Longrightarrow> key \<noteq> (tid, write_key w)"
  shows "lookup_object (fold (apply_link tid now) ls (fold (apply_write tid now) ws db)) key = lookup_object db key"
proof -
  have "List.find (\<lambda>w. key = (tid, write_key w)) ws = None"
    using assms(2) by (auto simp: find_None_iff)
  then show ?thesis using assms(1) by (simp add: lookup_apply_writes)
qed

section \<open>The links after the writes\<close>

lemma links_apply_write:
  "set (db_links (apply_write tid now w db)) =
     (if pw_kind w = EffDelete
      then {r \<in> set (db_links db). from_end r \<noteq> (tid, write_key w) \<and> to_end r \<noteq> (tid, write_key w)}
      else set (db_links db))"
  by (auto simp: apply_write_def links_delete write_key_def)

lemma links_apply_writes:
  "set (db_links (fold (apply_write tid now) ws db)) =
     {r \<in> set (db_links db). \<forall>w \<in> set ws. pw_kind w = EffDelete \<longrightarrow>
        from_end r \<noteq> (tid, write_key w) \<and> to_end r \<noteq> (tid, write_key w)}"
  by (induction ws arbitrary: db) (auto simp: links_apply_write)

definition matches_link :: "EnterpriseId \<Rightarrow> PlannedLink \<Rightarrow> LinkRow \<Rightarrow> bool" where
  "matches_link tid l r \<longleftrightarrow> from_end r = (tid, link_fromEntity (pl_link l), link_fromObjectId (pl_link l))
     \<and> to_end r = (tid, link_toEntity (pl_link l), link_toObjectId (pl_link l))
     \<and> lrow_relationship r = link_relationship (pl_link l)"

definition same_link_key :: "EnterpriseId \<Rightarrow> PlannedLink \<Rightarrow> LinkRow \<Rightarrow> bool" where
  "same_link_key tid l r \<longleftrightarrow>
     link_key r = (tid, link_relationship (pl_link l), link_fromObjectId (pl_link l), link_toObjectId (pl_link l))"

lemma links_apply_link_new:
  "r \<in> set (db_links (apply_link tid now l db)) \<Longrightarrow> r \<in> set (db_links db) \<or> (pl_kind l = Link \<and> matches_link tid l r)"
  using links_delete_link links_upsert_link
  by (cases "pl_kind l") (fastforce simp: apply_link_def Let_def matches_link_def)+

lemma links_apply_link_old:
  "r \<in> set (db_links db) \<Longrightarrow> r \<in> set (db_links (apply_link tid now l db)) \<or> (pl_kind l = Unlink \<and> same_link_key tid l r)"
  by (cases "pl_kind l")
    (auto simp: apply_link_def Let_def same_link_key_def deleteOntologyLink_def upsertOntologyLink_def)

lemma links_apply_links_new:
  "r \<in> set (db_links (fold (apply_link tid now) ls db)) \<Longrightarrow>
   r \<in> set (db_links db) \<or> (\<exists>l \<in> set ls. pl_kind l = Link \<and> matches_link tid l r)"
  by (induction ls arbitrary: db) (use links_apply_link_new in fastforce)+

lemma links_apply_links_old:
  "r \<in> set (db_links db) \<Longrightarrow>
   r \<in> set (db_links (fold (apply_link tid now) ls db)) \<or> (\<exists>l \<in> set ls. pl_kind l = Unlink \<and> same_link_key tid l r)"
  by (induction ls arbitrary: db) (use links_apply_link_old in fastforce)+

end
