(* ===== verification/Ontology_Write_Laws.thy ===== *)
theory Ontology_Write_Laws
  imports Ontology_Action_Laws Systems Expr_Soundness
begin

text \<open>
  The guarantees of the write path over whole calls: a call writes what its effects authorise and reports
  exactly what it changed, no link is left dangling, and the objects of a type keep the type.
\<close>

section \<open>Authorised and accounted for\<close>

fun write_authorised :: "NodeOntologyScope \<Rightarrow> OntologyAction \<Rightarrow> ActionWrite \<Rightarrow> bool" where
  "write_authorised scope action (ObjectWrite ent i k) \<longleftrightarrow> map_of (sc_entities scope) ent \<noteq> None \<and>
     (\<exists>e. ObjectEffect e \<in> set (opt_list (act_effects action)) \<and> oe_entity e = ent \<and> oe_kind e = k) \<and> k \<noteq> EffRead"
| "write_authorised scope action (LinkWrite rel a b k) \<longleftrightarrow> map_of (sc_relationships scope) rel \<noteq> None \<and>
     (\<exists>e. LinkEffect e \<in> set (opt_list (act_effects action)) \<and> le_relationship e = rel \<and> le_kind e = k)"
| "write_authorised scope action (DispatchedCall tool) \<longleftrightarrow> False"

definition objects_accounted :: "EnterpriseId \<Rightarrow> ActionWrite list \<Rightarrow> ObjectDb \<Rightarrow> ObjectDb \<Rightarrow> bool" where
  "objects_accounted tid writes db db' \<longleftrightarrow> (\<forall>t ent i.
     (if t = tid \<and> ObjectWrite ent i EffCreate \<in> set writes then \<not> object_exists db (t, ent, i) \<and> object_exists db' (t, ent, i)
      else if t = tid \<and> ObjectWrite ent i EffUpdate \<in> set writes then object_exists db (t, ent, i) \<and> object_exists db' (t, ent, i)
      else if t = tid \<and> ObjectWrite ent i EffDelete \<in> set writes then object_exists db (t, ent, i) \<and> \<not> object_exists db' (t, ent, i)
      else lookup_object db' (t, ent, i) = lookup_object db (t, ent, i)))"

definition links_accounted :: "EnterpriseId \<Rightarrow> ActionWrite list \<Rightarrow> ObjectDb \<Rightarrow> ObjectDb \<Rightarrow> bool" where
  "links_accounted tid writes db db' \<longleftrightarrow>
     (\<forall>r \<in> set (db_links db') - set (db_links db). lrow_tree r = tid \<and>
        LinkWrite (lrow_relationship r) (lrow_fromObject r) (lrow_toObject r) Link \<in> set writes) \<and>
     (\<forall>r \<in> set (db_links db) - set (db_links db'). lrow_tree r = tid \<and>
        (LinkWrite (lrow_relationship r) (lrow_fromObject r) (lrow_toObject r) Unlink \<in> set writes
         \<or> ObjectWrite (lrow_fromEntity r) (lrow_fromObject r) EffDelete \<in> set writes
         \<or> ObjectWrite (lrow_toEntity r) (lrow_toObject r) EffDelete \<in> set writes))"

text \<open>
  Edge by edge: the last report on an edge says whether it stands afterwards, and an edge with no report keeps its
  rows, those apart whose object at an end was deleted.
\<close>

fun link_verdict :: "EnterpriseId \<Rightarrow> string \<Rightarrow> string \<Rightarrow> ActionWrite list \<Rightarrow> LinkKind option" where
  "link_verdict rel a b [] = None"
| "link_verdict rel a b (LinkWrite r x y k # ws) = (case link_verdict rel a b ws of
     Some v \<Rightarrow> Some v | None \<Rightarrow> if (r, x, y) = (rel, a, b) then Some k else None)"
| "link_verdict rel a b (w # ws) = link_verdict rel a b ws"

definition end_deleted :: "EnterpriseId \<Rightarrow> ActionWrite list \<Rightarrow> LinkRow \<Rightarrow> bool" where
  "end_deleted tid writes r \<longleftrightarrow> lrow_tree r = tid \<and> (ObjectWrite (lrow_fromEntity r) (lrow_fromObject r) EffDelete \<in> set writes
     \<or> ObjectWrite (lrow_toEntity r) (lrow_toObject r) EffDelete \<in> set writes)"

definition edge_rows :: "LinkKey \<Rightarrow> ObjectDb \<Rightarrow> LinkRow set" where
  "edge_rows key db = {r \<in> set (db_links db). link_key r = key}"

fun edge_holds :: "LinkKind option \<Rightarrow> LinkRow set \<Rightarrow> LinkRow set \<Rightarrow> bool" where
  "edge_holds (Some Link) after before = (after \<noteq> {})"
| "edge_holds (Some Unlink) after before = (after = {})"
| "edge_holds None after before = (after = before)"

definition link_reports_hold :: "EnterpriseId \<Rightarrow> ActionWrite list \<Rightarrow> ObjectDb \<Rightarrow> ObjectDb \<Rightarrow> bool" where
  "link_reports_hold tid writes db db' \<longleftrightarrow> (\<forall>t rel a b.
     edge_holds (if t = tid then link_verdict rel a b writes else None) (edge_rows (t, rel, a, b) db')
       {r \<in> edge_rows (t, rel, a, b) db. \<not> end_deleted tid writes r})"

lemma invoke_cases:
  obtains (error) err where "plan_action db scope action args = Inl err" "invokeOntologyAction scope action args now db = (Inl err, db)"
  | (applied) ws ls used where "plan_action db scope action args = Inr (ws, ls, used)"
      "invokeOntologyAction scope action args now db =
        (Inr (map recorded_write ws @ map recorded_link ls, filter (\<lambda>(name, v). name \<notin> set used) args),
         fold (apply_link (sc_treeId scope) now) ls (fold (apply_write (sc_treeId scope) now) ws db))"
proof (cases "plan_action db scope action args")
  case (Inl err)
  then show ?thesis using error by (simp add: invokeOntologyAction_def)
next
  case (Inr x)
  then show ?thesis using applied by (cases x) (simp add: invokeOntologyAction_def)
qed

lemma recorded_object_iff:
  "ObjectWrite ent i k \<in> set (map recorded_write ws @ map recorded_link ls) \<longleftrightarrow>
     (\<exists>w \<in> set ws. write_key w = (ent, i) \<and> pw_kind w = k)"
  by (auto simp: recorded_write_def recorded_link_def write_key_def)

lemma recorded_link_iff:
  "LinkWrite rel a b k \<in> set (map recorded_write ws @ map recorded_link ls) \<longleftrightarrow>
     (\<exists>l \<in> set ls. link_relationship (pl_link l) = rel \<and> link_fromObjectId (pl_link l) = a \<and> link_toObjectId (pl_link l) = b
        \<and> pl_kind l = k)"
  by (auto simp: recorded_write_def recorded_link_def)

lemma write_kinds:
  assumes "plan_action db scope action args = Inr (ws, ls, used)" "w \<in> set ws"
  shows "\<exists>e. ObjectEffect e \<in> set (opt_list (act_effects action)) \<and> oe_entity e = pw_entityId w \<and> oe_kind e = pw_kind w"
    and "pw_kind w \<noteq> EffRead"
proof -
  have "(pw_entityId w, pw_kind w) \<in> set (map (\<lambda>w. (pw_entityId w, pw_kind w)) ws)"
    using assms(2) by auto
  then have "(pw_entityId w, pw_kind w) \<in> set (map (\<lambda>e. (oe_entity e, oe_kind e)) (write_effects action))"
    by (simp only: plan_action_checked(1) [OF assms(1)])
  then obtain e where e: "e \<in> set (write_effects action)" "oe_entity e = pw_entityId w" "oe_kind e = pw_kind w"
    by auto
  then show "\<exists>e. ObjectEffect e \<in> set (opt_list (act_effects action)) \<and> oe_entity e = pw_entityId w \<and> oe_kind e = pw_kind w"
    using write_effects_declared by blast
  show "pw_kind w \<noteq> EffRead" using e write_effects_kind by metis
qed

lemma writes_are_authorised:
  assumes "plan_action db scope action args = Inr (ws, ls, used)"
  shows "list_all (write_authorised scope action) (map recorded_write ws @ map recorded_link ls)"
proof -
  have "write_authorised scope action (recorded_write w)" if "w \<in> set ws" for w
    using write_kinds [OF assms that] plan_action_checked(3) [OF assms that]
    by (auto simp: recorded_write_def write_checked_def)
  moreover have "write_authorised scope action (recorded_link l)" if "l \<in> set ls" for l
    using plan_action_checked(4) [OF assms that] link_effects_declared
    by (auto simp: recorded_link_def link_checked_def)
  ultimately show ?thesis by (auto simp: list_all_iff)
qed

lemma objects_are_accounted:
  assumes plan: "plan_action db scope action args = Inr (ws, ls, used)"
  shows "objects_accounted (sc_treeId scope) (map recorded_write ws @ map recorded_link ls) db
    (fold (apply_link (sc_treeId scope) now) ls (fold (apply_write (sc_treeId scope) now) ws db))"
    (is "objects_accounted ?tid ?writes db ?db'")
proof -
  have dist: "distinct (map write_key ws)"
    by (rule distinct_write_keys) (rule plan_action_checked(2) [OF plan])
  have named: "lookup_object ?db' (?tid, write_key w) = written now w" if "w \<in> set ws" for w
    using lookup_after [OF dist that] .
  have before: "object_exists db (?tid, write_key w) \<longleftrightarrow> pw_kind w \<noteq> EffCreate" if "w \<in> set ws" for w
    using plan_action_checked(3) [OF plan that] by (simp add: write_checked_def write_key_def)
  have after: "object_exists ?db' (?tid, write_key w) \<longleftrightarrow> pw_kind w \<noteq> EffDelete" if "w \<in> set ws" for w
    using named [OF that] by (simp add: object_exists_def written_def)
  have other: "lookup_object ?db' (t, ent, i) = lookup_object db (t, ent, i)"
    if "t \<noteq> ?tid \<or> (\<forall>w \<in> set ws. write_key w \<noteq> (ent, i))" for t ent i
    by (rule lookup_untouched [OF dist]) (use that in auto)
  have kinds: "pw_kind w \<in> {EffCreate, EffUpdate, EffDelete}" if "w \<in> set ws" for w
    using write_kinds(2) [OF plan that] by (cases "pw_kind w") auto
  show ?thesis
    unfolding objects_accounted_def recorded_object_iff
  proof (intro allI)
    fix t ent i
    show "if t = ?tid \<and> (\<exists>w \<in> set ws. write_key w = (ent, i) \<and> pw_kind w = EffCreate)
        then \<not> object_exists db (t, ent, i) \<and> object_exists ?db' (t, ent, i)
      else if t = ?tid \<and> (\<exists>w \<in> set ws. write_key w = (ent, i) \<and> pw_kind w = EffUpdate)
        then object_exists db (t, ent, i) \<and> object_exists ?db' (t, ent, i)
      else if t = ?tid \<and> (\<exists>w \<in> set ws. write_key w = (ent, i) \<and> pw_kind w = EffDelete)
        then object_exists db (t, ent, i) \<and> \<not> object_exists ?db' (t, ent, i)
      else lookup_object ?db' (t, ent, i) = lookup_object db (t, ent, i)"
    proof (cases "t = ?tid \<and> (\<exists>w \<in> set ws. write_key w = (ent, i))")
      case True
      then obtain w where w: "w \<in> set ws" "write_key w = (ent, i)" "t = ?tid" by blast
      have same: "v = w" if "v \<in> set ws" "write_key v = (ent, i)" for v
        using dist w that by (auto simp: distinct_map inj_on_def)
      then have k: "(\<exists>v \<in> set ws. write_key v = (ent, i) \<and> pw_kind v = kk) \<longleftrightarrow> pw_kind w = kk" for kk
        using w same by blast
      have ends: "object_exists db (t, ent, i) \<longleftrightarrow> pw_kind w \<noteq> EffCreate"
          "object_exists ?db' (t, ent, i) \<longleftrightarrow> pw_kind w \<noteq> EffDelete"
        using before [OF w(1)] after [OF w(1)] unfolding w(2,3) by blast+
      show ?thesis
        unfolding k ends using w(3) kinds [OF w(1)] by (cases "pw_kind w") simp_all
    next
      case False
      then show ?thesis using other [of t ent i] by auto
    qed
  qed
qed

lemma links_are_accounted:
  assumes plan: "plan_action db scope action args = Inr (ws, ls, used)"
  shows "links_accounted (sc_treeId scope) (map recorded_write ws @ map recorded_link ls) db
    (fold (apply_link (sc_treeId scope) now) ls (fold (apply_write (sc_treeId scope) now) ws db))"
    (is "links_accounted ?tid ?writes db ?db'")
proof -
  let ?db1 = "fold (apply_write ?tid now) ws db"
  have "lrow_tree r = ?tid \<and> LinkWrite (lrow_relationship r) (lrow_fromObject r) (lrow_toObject r) Link \<in> set ?writes"
    if r: "r \<in> set (db_links ?db')" "r \<notin> set (db_links db)" for r
  proof -
    from r(2) have "r \<notin> set (db_links ?db1)" by (simp add: links_apply_writes)
    with links_apply_links_new [OF r(1)] obtain l where "l \<in> set ls" "pl_kind l = Link" "matches_link ?tid l r" by blast
    then show ?thesis unfolding recorded_link_iff by (auto simp: matches_link_def from_end_def to_end_def)
  qed
  moreover have "lrow_tree r = ?tid \<and>
      (LinkWrite (lrow_relationship r) (lrow_fromObject r) (lrow_toObject r) Unlink \<in> set ?writes
       \<or> ObjectWrite (lrow_fromEntity r) (lrow_fromObject r) EffDelete \<in> set ?writes
       \<or> ObjectWrite (lrow_toEntity r) (lrow_toObject r) EffDelete \<in> set ?writes)"
    if r: "r \<in> set (db_links db)" "r \<notin> set (db_links ?db')" for r
  proof (cases "r \<in> set (db_links ?db1)")
    case True
    with links_apply_links_old [OF True] r(2) obtain l where "l \<in> set ls" "pl_kind l = Unlink" "same_link_key ?tid l r" by blast
    then show ?thesis unfolding recorded_link_iff by (auto simp: same_link_key_def link_key_def)
  next
    case False
    with r(1) obtain w where "w \<in> set ws" "pw_kind w = EffDelete"
        "from_end r = (?tid, write_key w) \<or> to_end r = (?tid, write_key w)"
      by (auto simp: links_apply_writes)
    then show ?thesis unfolding recorded_object_iff by (auto simp: from_end_def to_end_def)
  qed
  ultimately show ?thesis by (simp add: links_accounted_def)
qed

lemma edge_apply_link: "edge_rows key (apply_link tid now l db) =
    (if key = (tid, link_relationship (pl_link l), link_fromObjectId (pl_link l), link_toObjectId (pl_link l))
     then (case pl_kind l of Unlink \<Rightarrow> {} | Link \<Rightarrow> if edge_rows key db = {}
       then {\<lparr> lrow_tree = tid, lrow_relationship = link_relationship (pl_link l), lrow_fromEntity = link_fromEntity (pl_link l),
            lrow_fromObject = link_fromObjectId (pl_link l), lrow_toEntity = link_toEntity (pl_link l),
            lrow_toObject = link_toObjectId (pl_link l), lrow_created = now \<rparr>} else edge_rows key db)
     else edge_rows key db)"
  (is "_ = (if key = ?key then case pl_kind l of Unlink \<Rightarrow> {} | Link \<Rightarrow> if _ then {?row} else _ else _)")
proof -
  have row: "link_key ?row = ?key" by (simp add: link_key_def)
  show ?thesis
  proof (cases "pl_kind l")
    case Unlink
    then show ?thesis by (auto simp: edge_rows_def apply_link_def deleteOntologyLink_def Let_def)
  next
    case Link
    then have links: "db_links (apply_link tid now l db) = (if \<exists>r \<in> set (db_links db). link_key r = ?key then db_links db else db_links db @ [?row])"
      by (simp add: apply_link_def upsertOntologyLink_def row list_ex_iff Let_def)
    show ?thesis
    proof (cases "key = ?key")
      case True
      with Link row show ?thesis unfolding edge_rows_def links by auto
    next
      case False
      then have "link_key ?row \<noteq> key" using row by metis
      with False show ?thesis unfolding edge_rows_def links by auto
    qed
  qed
qed

lemma edge_apply_links:
  "edge_holds (if t = tid then link_verdict rel a b (map recorded_link ls) else None)
     (edge_rows (t, rel, a, b) (fold (apply_link tid now) ls db)) (edge_rows (t, rel, a, b) db)"
proof (induction ls arbitrary: db)
  case (Cons l ls)
  define v where "v = (if t = tid then link_verdict rel a b (map recorded_link ls) else None)"
  define own where "own \<longleftrightarrow> (t, rel, a, b) = (tid, link_relationship (pl_link l), link_fromObjectId (pl_link l), link_toObjectId (pl_link l))"
  have verdict: "(if t = tid then link_verdict rel a b (map recorded_link (l # ls)) else None)
      = (case v of Some k \<Rightarrow> Some k | None \<Rightarrow> if own then Some (pl_kind l) else None)"
    by (auto simp: v_def own_def recorded_link_def split: option.split)
  note ih = Cons.IH [of "apply_link tid now l db", folded v_def]
  note step = edge_apply_link [of "(t, rel, a, b)" tid now l db, folded own_def]
  show ?case
  proof (cases v)
    case None
    with ih have "edge_rows (t, rel, a, b) (fold (apply_link tid now) (l # ls) db) = edge_rows (t, rel, a, b) (apply_link tid now l db)"
      by simp
    then show ?thesis unfolding verdict using None step by (cases own; cases "pl_kind l") simp_all
  next
    case (Some k)
    with ih show ?thesis unfolding verdict by (cases k) simp_all
  qed
qed simp

lemma verdict_of_report: "link_verdict rel a b (map recorded_write ws @ writes) = link_verdict rel a b writes"
  by (induction ws) (simp_all add: recorded_write_def)

lemma link_reports_are_true:
  assumes plan: "plan_action db scope action args = Inr (ws, ls, used)"
  shows "link_reports_hold (sc_treeId scope) (map recorded_write ws @ map recorded_link ls) db
    (fold (apply_link (sc_treeId scope) now) ls (fold (apply_write (sc_treeId scope) now) ws db))"
    (is "link_reports_hold ?tid ?writes db ?db'")
  unfolding link_reports_hold_def
proof (intro allI)
  fix t rel a b
  let ?db1 = "fold (apply_write ?tid now) ws db"
  have deleted: "end_deleted ?tid ?writes r \<longleftrightarrow> (\<exists>w \<in> set ws. pw_kind w = EffDelete
      \<and> (from_end r = (?tid, write_key w) \<or> to_end r = (?tid, write_key w)))" for r
    unfolding end_deleted_def recorded_object_iff from_end_def to_end_def by auto
  have "edge_rows (t, rel, a, b) ?db1 = {r \<in> edge_rows (t, rel, a, b) db. \<not> end_deleted ?tid ?writes r}"
    unfolding edge_rows_def links_apply_writes deleted by auto
  with edge_apply_links [where t = t and tid = ?tid and rel = rel and a = a and b = b and ls = ls and now = now and db = ?db1]
  show "edge_holds (if t = ?tid then link_verdict rel a b ?writes else None) (edge_rows (t, rel, a, b) ?db')
      {r \<in> edge_rows (t, rel, a, b) db. \<not> end_deleted ?tid ?writes r}"
    by (simp only: verdict_of_report)
qed

section \<open>No dangling links\<close>

definition slash_free :: "string \<Rightarrow> bool" where
  "slash_free s = (CHR ''/'' \<notin> set s)"

definition scope_slash_free :: "NodeOntologyScope \<Rightarrow> bool" where
  "scope_slash_free scope = list_all (\<lambda>(ent, e). slash_free ent) (sc_entities scope)"

lemma scope_slash_freeD: "scope_slash_free scope \<Longrightarrow> map_of (sc_entities scope) ent = Some e \<Longrightarrow> slash_free ent"
  by (auto simp: scope_slash_free_def list_all_iff dest!: map_of_SomeD)

lemma target_text_inj:
  "slash_free a \<Longrightarrow> slash_free b \<Longrightarrow> target_text a i = target_text b j \<Longrightarrow> a = b \<and> i = j"
proof (induction a arbitrary: b)
  case Nil
  then show ?case by (cases b) (auto simp: target_text_def slash_free_def)
next
  case (Cons c a)
  then obtain d b' where "b = d # b'" by (cases b) (auto simp: target_text_def slash_free_def)
  with Cons show ?case by (auto simp: target_text_def slash_free_def)
qed

lemma no_dangling_links_superset:
  "no_dangling_links db \<Longrightarrow> db_objects db = db_objects db' \<Longrightarrow> set (db_links db') \<subseteq> set (db_links db) \<Longrightarrow> no_dangling_links db'"
  by (auto simp: no_dangling_links_def link_resolves_def object_exists_iff)

lemma no_dangling_writes: "no_dangling_links db \<Longrightarrow> no_dangling_links (fold (apply_write tid now) ws db)"
  by (induction ws arbitrary: db) (auto simp: apply_write_def no_dangling_delete no_dangling_upsert)

lemma no_dangling_links_applied:
  "no_dangling_links db \<Longrightarrow>
   (\<And>l. l \<in> set ls \<Longrightarrow> pl_kind l = Link \<Longrightarrow>
      object_exists db (tid, link_fromEntity (pl_link l), link_fromObjectId (pl_link l)) \<and>
      object_exists db (tid, link_toEntity (pl_link l), link_toObjectId (pl_link l))) \<Longrightarrow>
   no_dangling_links (fold (apply_link tid now) ls db)"
proof (induction ls arbitrary: db)
  case Nil
  then show ?case by simp
next
  case (Cons l ls)
  have "no_dangling_links (apply_link tid now l db)"
    using Cons.prems(1) Cons.prems(2) [of l]
    by (cases "pl_kind l") (auto simp: apply_link_def Let_def intro: no_dangling_link no_dangling_unlink)
  then show ?case
    using Cons.IH [of "apply_link tid now l db"] Cons.prems(2) by (simp add: object_exists_def)
qed

lemma endpoint_exists:
  assumes plan: "plan_action db scope action args = Inr (ws, ls, used)"
    and free: "scope_slash_free scope" and ent: "map_of (sc_entities scope) ent = Some e"
    and ok: "endpoint_error db scope action ws (ent, i) = None"
  shows "object_exists (fold (apply_write (sc_treeId scope) now) ws db) (sc_treeId scope, ent, i)"
proof -
  let ?tid = "sc_treeId scope"
  have dist: "distinct (map write_key ws)"
    by (rule distinct_write_keys) (rule plan_action_checked(2) [OF plan])
  note look = lookup_apply_writes [OF dist, of ?tid now db "(?tid, ent, i)"]
  show ?thesis
  proof (cases "List.find (\<lambda>w. write_target w = target_text ent i) ws")
    case None
    then have "List.find (\<lambda>w. (?tid, ent, i) = (?tid, write_key w)) ws = None"
      by (auto simp: find_None_iff write_target_def write_key_def)
    moreover have "getOntologyObjectIn db ?tid ent i \<noteq> None"
      using ok None by (simp add: endpoint_error_def del: getOntologyObjectIn_None split: if_splits)
    ultimately show ?thesis unfolding object_exists_def getOntologyObjectIn_None look by (simp only: option.case not_False_eq_True)
  next
    case (Some w)
    then have w: "w \<in> set ws" "write_target w = target_text ent i" by (auto simp: find_Some_iff)
    from plan_action_checked(3) [OF plan w(1)] have "slash_free (pw_entityId w)"
      using free by (auto simp: write_checked_def dest: scope_slash_freeD)
    then have "pw_entityId w = ent \<and> pw_objectId w = i"
      by (rule target_text_inj) (use w(2) scope_slash_freeD [OF free ent] in \<open>simp_all add: write_target_def\<close>)
    then have key: "write_key w = (ent, i)" by (simp add: write_key_def)
    have "pw_kind w \<noteq> EffDelete" using ok Some by (auto simp: endpoint_error_def)
    moreover have "lookup_object (fold (apply_write ?tid now) ws db) (?tid, write_key w) = written now w"
      using lookup_after [OF dist w(1), of ?tid now "[]"] by simp
    ultimately show ?thesis by (simp add: key object_exists_def written_def)
  qed
qed

lemma invoke_keeps_links:
  assumes "no_dangling_links db" "scope_slash_free scope"
  shows "no_dangling_links (snd (invokeOntologyAction scope action args now db))"
proof (cases rule: invoke_cases [of db scope action args now])
  case (error err)
  with assms(1) show ?thesis by simp
next
  case (applied ws ls used)
  have "no_dangling_links (fold (apply_link (sc_treeId scope) now) ls (fold (apply_write (sc_treeId scope) now) ws db))"
  proof (rule no_dangling_links_applied)
    show "no_dangling_links (fold (apply_write (sc_treeId scope) now) ws db)"
      using assms(1) by (rule no_dangling_writes)
    fix l assume l: "l \<in> set ls" "pl_kind l = Link"
    have "link_error db scope action ws l = None" by (rule plan_action_checked(5) [OF applied(1) l(1)])
    then have "endpoint_error db scope action ws (link_fromEntity (pl_link l), link_fromObjectId (pl_link l)) = None"
        "endpoint_error db scope action ws (link_toEntity (pl_link l), link_toObjectId (pl_link l)) = None"
      using l(2) by (simp_all add: link_error_def first_some_None del: first_some.simps)
    moreover have "map_of (sc_entities scope) (link_fromEntity (pl_link l)) \<noteq> None"
        "map_of (sc_entities scope) (link_toEntity (pl_link l)) \<noteq> None"
      using plan_action_checked(4) [OF applied(1) l(1)] by (auto simp: link_checked_def)
    ultimately show "object_exists (fold (apply_write (sc_treeId scope) now) ws db)
          (sc_treeId scope, link_fromEntity (pl_link l), link_fromObjectId (pl_link l)) \<and>
        object_exists (fold (apply_write (sc_treeId scope) now) ws db)
          (sc_treeId scope, link_toEntity (pl_link l), link_toObjectId (pl_link l))"
      using endpoint_exists [OF applied(1) assms(2)] by blast
  qed
  with applied(2) show ?thesis by simp
qed

lemma keys_distinct_applied:
  "keys_distinct db \<Longrightarrow> keys_distinct (fold (apply_write tid now) ws db)"
  "keys_distinct db \<Longrightarrow> keys_distinct (fold (apply_link tid now) ls db)"
proof -
  show "keys_distinct db \<Longrightarrow> keys_distinct (fold (apply_write tid now) ws db)"
    by (induction ws arbitrary: db) (simp_all add: apply_write_def)
  show "keys_distinct db \<Longrightarrow> keys_distinct (fold (apply_link tid now) ls db)"
    by (induction ls arbitrary: db) (simp_all add: apply_link_def Let_def)
qed

lemma invoke_keeps_keys: "keys_distinct db \<Longrightarrow> keys_distinct (snd (invokeOntologyAction scope action args now db))"
  by (cases rule: invoke_cases [of db scope action args now]) (auto simp: keys_distinct_applied)

end
