(* ===== verification/Ontology_Type_Laws.thy ===== *)
theory Ontology_Type_Laws
  imports Ontology_Write_Laws
begin

text \<open>
  The objects of a type keep the type: what the mapping of parameters to properties writes, what survives
  storing it, and the invariant of the store one step's declarations give.
\<close>

section \<open>Typed objects\<close>

definition set_property :: "Properties \<Rightarrow> string \<Rightarrow> bool" where
  "set_property props i = (map_of props i \<notin> {None, Some VNull})"

definition prototype_name :: "string \<Rightarrow> bool" where
  "prototype_name i = (map_of object_prototype i \<noteq> None)"

fun finite_argument :: "CallArg \<Rightarrow> bool" where
  "finite_argument (ArgValue (VNum n)) = is_finite n"
| "finite_argument _ = True"

definition args_finite :: "Args \<Rightarrow> bool" where
  "args_finite args = list_all (\<lambda>(k, a). finite_argument a) args"

definition stored_values :: "Properties \<Rightarrow> bool" where
  "stored_values props = (\<forall>i v. map_of props i = Some v \<longrightarrow> json_value v = v)"

definition has_declared_type :: "NodeOntologyScope \<Rightarrow> EnterpriseId \<Rightarrow> string \<Rightarrow> Properties \<Rightarrow> OntologyEntity \<Rightarrow> bool" where
  "has_declared_type scope ent i props e \<longleftrightarrow> conforms props (declared_types e)
     \<and> (\<forall>r \<in> set (required_ids scope e ent). set_property props r \<or> prototype_name r)
     \<and> (\<forall>pk. primaryKeyOf e = Some pk \<longrightarrow> (\<exists>v. map_of props pk = Some v \<and> identity_text v = i))"

definition well_typed_db :: "NodeOntologyScope \<Rightarrow> ObjectDb \<Rightarrow> bool" where
  "well_typed_db scope db \<longleftrightarrow> (\<forall>ent i props u. lookup_object db (sc_treeId scope, ent, i) = Some (props, u) \<longrightarrow>
     stored_values props \<and> (case map_of (sc_entities scope) ent of None \<Rightarrow> True
       | Some e \<Rightarrow> has_declared_type scope ent i props e))"

lemma well_typed_dbD:
  assumes "well_typed_db scope db" "lookup_object db (sc_treeId scope, ent, i) = Some (props, u)"
  shows "stored_values props" "map_of (sc_entities scope) ent = Some e \<Longrightarrow> has_declared_type scope ent i props e"
proof -
  have "stored_values props \<and> (case map_of (sc_entities scope) ent of None \<Rightarrow> True
       | Some e \<Rightarrow> has_declared_type scope ent i props e)"
    using assms unfolding well_typed_db_def by blast
  then show "stored_values props" "map_of (sc_entities scope) ent = Some e \<Longrightarrow> has_declared_type scope ent i props e"
    by simp_all
qed

section \<open>What is written\<close>

lemma map_parameters_Inr:
  "map_parameters action ent args ps props c = Inr (props', c') \<Longrightarrow>
   (\<forall>p \<in> set ps. read_arg args (prop_id p) = ArgUndefined \<or> arg_matches_type (read_arg args (prop_id p)) (prop_type p)) \<and>
   (\<forall>i. map_of props' i = (if i \<in> prop_id ` set ps \<and> read_arg args i \<noteq> ArgUndefined
      then Some (arg_value (read_arg args i)) else map_of props i))"
proof (induction ps arbitrary: props c)
  case Nil
  then show ?case by simp
next
  case (Cons p ps)
  show ?case
  proof (cases "read_arg args (prop_id p) = ArgUndefined")
    case True
    with Cons show ?thesis by (simp add: Let_def)
  next
    case False
    with Cons.prems have m: "arg_matches_type (read_arg args (prop_id p)) (prop_type p)"
        and rest: "map_parameters action ent args ps (AList.update (prop_id p) (arg_value (read_arg args (prop_id p))) props)
          (set_add (prop_id p) c) = Inr (props', c')"
      by (auto simp: Let_def split: if_splits)
    from Cons.IH [OF rest] m False show ?thesis by (auto simp: update_conv')
  qed
qed

lemma read_arg_value: "read_arg args k = ArgValue v \<Longrightarrow> (k, ArgValue v) \<in> set args"
  by (auto simp: read_arg_def object_prototype_def split: option.splits if_splits dest!: map_of_SomeD)

lemma finite_arg: "args_finite args \<Longrightarrow> read_arg args k = ArgValue (VNum n) \<Longrightarrow> is_finite n"
  by (force simp: args_finite_def list_all_iff dest!: read_arg_value)

lemma arg_matches_value: "arg_matches_type a ty \<Longrightarrow> a = ArgValue (arg_value a) \<and> ontologyValueMatchesType (arg_value a) ty"
  by (cases a) auto

lemma property_missing_iff:
  "\<not> property_missing props i \<Longrightarrow> set_property props i \<or> prototype_name i"
  by (auto simp: property_missing_def set_property_def prototype_name_def read_arg_def map_of_map split: option.splits)

lemma plan_properties_Inr:
  assumes "plan_properties scope action args e ent kind pk identity existing c = Inr (props, used)"
    "read_arg args pk = ArgValue identity"
  shows "\<And>i. map_of props i = (if i = pk \<or> i \<in> set (map prop_id (opt_list (ent_properties e))) \<and> read_arg args i \<noteq> ArgUndefined
      then Some (arg_value (read_arg args i)) else map_of existing i)"
    "\<And>p. p \<in> set (opt_list (ent_properties e)) \<Longrightarrow>
      read_arg args (prop_id p) = ArgUndefined \<or> arg_matches_type (read_arg args (prop_id p)) (prop_type p)"
    "\<And>r. r \<in> set (required_ids scope e ent) \<Longrightarrow> set_property props r \<or> prototype_name r"
proof -
  from assms(1) obtain mapped where m: "map_parameters action ent args (opt_list (ent_properties e)) existing c = Inr (mapped, used)"
      and props: "props = AList.update pk identity mapped"
      and "sort (filter (property_missing props) (required_ids scope e ent)) = []"
    by (auto simp: plan_properties_def Let_def split: if_splits)
  then have "\<not> property_missing props r" if "r \<in> set (required_ids scope e ent)" for r
    using that by (metis filter_empty_conv set_empty set_sort)
  then show "\<And>r. r \<in> set (required_ids scope e ent) \<Longrightarrow> set_property props r \<or> prototype_name r"
    using property_missing_iff by blast
  from map_parameters_Inr [OF m] show "\<And>p. p \<in> set (opt_list (ent_properties e)) \<Longrightarrow>
      read_arg args (prop_id p) = ArgUndefined \<or> arg_matches_type (read_arg args (prop_id p)) (prop_type p)"
    by blast
  from map_parameters_Inr [OF m] show "\<And>i. map_of props i =
      (if i = pk \<or> i \<in> set (map prop_id (opt_list (ent_properties e))) \<and> read_arg args i \<noteq> ArgUndefined
      then Some (arg_value (read_arg args i)) else map_of existing i)"
    using assms(2) by (auto simp: props update_conv')
qed

section \<open>What is stored\<close>

lemma map_of_json [simp]: "map_of (json_properties props) i = map_option json_value (map_of props i)"
  by (simp add: json_properties_def map_of_map)

lemma json_value_idem [simp]: "json_value (json_value v) = json_value v"
  by (cases v) auto

lemma json_value_type: "ontologyValueMatchesType v ty \<Longrightarrow> ontologyValueMatchesType (json_value v) ty"
  by (cases v) (auto simp: ontologyValueMatchesType_def)

lemma stored_json [simp]: "stored_values (json_properties props)"
  by (auto simp: stored_values_def)

lemma conforms_json: "conforms props tys \<Longrightarrow> conforms (json_properties props) tys"
  by (fastforce simp: conforms_def list_all_iff intro: json_value_type split: option.splits)

lemma number_text_json: "is_finite n \<Longrightarrow> json_value (VNum n) \<noteq> VNull \<and> identity_text (json_value (VNum n)) = number_text n"
  by auto

lemma written_object_typed:
  assumes checked: "write_checked db scope action args w" and kind: "pw_kind w \<noteq> EffDelete"
    and typed: "well_typed_db scope db" and finite: "args_finite args"
    and props: "pw_properties w = Some props" and e: "map_of (sc_entities scope) (pw_entityId w) = Some e"
  shows "has_declared_type scope (pw_entityId w) (pw_objectId w) (json_properties props) e"
proof -
  let ?ent = "pw_entityId w" and ?i = "pw_objectId w"
  let ?old = "existing_properties db (sc_treeId scope, ?ent, ?i)"
  from checked obtain e' pk identity c used where e': "map_of (sc_entities scope) ?ent = Some e'" "primaryKeyOf e' = Some pk"
      and ident: "read_arg args pk = ArgValue identity" "is_identity (ArgValue identity)" "?i = identity_text identity"
      and later: "pw_kind w \<noteq> EffDelete \<longrightarrow> (\<exists>props. pw_properties w = Some props
            \<and> plan_properties scope action args e' ?ent (pw_kind w) pk identity ?old c = Inr (props, used))"
    unfolding write_checked_def by blast
  from e' e have pk: "primaryKeyOf e = Some pk" by simp
  from e' e later kind props
  have plan: "plan_properties scope action args e ?ent (pw_kind w) pk identity ?old c = Inr (props, used)" by simp
  note new = plan_properties_Inr [OF plan ident(1)]
  have old: "conforms ?old (declared_types e) \<and> stored_values ?old"
  proof (cases "lookup_object db (sc_treeId scope, ?ent, ?i)")
    case None
    then show ?thesis by (auto simp: existing_properties_def conforms_def stored_values_def list_all_iff)
  next
    case (Some x)
    with well_typed_dbD [OF typed] e show ?thesis
      by (cases x) (auto simp: existing_properties_def has_declared_type_def)
  qed
  have conf: "conforms props (declared_types e)"
    unfolding conforms_def declared_types_def list_all_iff
  proof clarsimp
    fix p assume p: "p \<in> set (opt_list (ent_properties e))"
    show "case map_of props (prop_id p) of None \<Rightarrow> True | Some v \<Rightarrow> ontologyValueMatchesType v (prop_type p)"
    proof (cases "read_arg args (prop_id p) = ArgUndefined")
      case True
      with ident(1) have "map_of props (prop_id p) = map_of ?old (prop_id p)" by (auto simp: new(1))
      with old p show ?thesis by (auto simp: conforms_def declared_types_def list_all_iff)
    next
      case False
      with p have "map_of props (prop_id p) = Some (arg_value (read_arg args (prop_id p)))" by (simp add: new(1))
      with new(2) [OF p] False arg_matches_value show ?thesis by auto
    qed
  qed
  have kept: "json_value v \<noteq> VNull" if "map_of props k = Some v" "v \<noteq> VNull" for k v
  proof (cases v)
    case (VNum n)
    have "is_finite n"
    proof (cases "k = pk \<or> k \<in> set (map prop_id (opt_list (ent_properties e))) \<and> read_arg args k \<noteq> ArgUndefined")
      case True
      then have "map_of props k = Some (arg_value (read_arg args k))" by (simp only: new(1) if_True)
      with that(1) VNum show ?thesis by (cases "read_arg args k") (auto dest: finite_arg [OF finite])
    next
      case False
      then have "map_of ?old k = Some v" using that(1) by (simp only: new(1) if_False)
      with old have "json_value v = v" by (simp add: stored_values_def)
      with VNum show ?thesis by (simp split: if_splits)
    qed
    with VNum show ?thesis by simp
  qed (use that in auto)
  have "set_property (json_properties props) r" if "set_property props r" for r
    using that kept by (auto simp: set_property_def)
  then have req: "\<forall>r \<in> set (required_ids scope e ?ent). set_property (json_properties props) r \<or> prototype_name r"
    using new(3) by blast
  have "map_of (json_properties props) pk = Some (json_value identity)"
    using ident(1) by (simp add: new(1))
  moreover have "identity_text (json_value identity) = ?i"
    using ident finite_arg [OF finite] number_text_json by (cases identity) auto
  ultimately show ?thesis
    unfolding has_declared_type_def using conforms_json [OF conf] req pk by (auto simp del: map_of_json)
qed

lemma invoke_keeps_types:
  assumes typed: "well_typed_db scope db" and finite: "args_finite args"
  shows "well_typed_db scope (snd (invokeOntologyAction scope action args now db))"
proof (cases rule: invoke_cases [of db scope action args now])
  case (error err)
  with typed show ?thesis by simp
next
  case (applied ws ls used)
  let ?tid = "sc_treeId scope"
  let ?db' = "fold (apply_link ?tid now) ls (fold (apply_write ?tid now) ws db)"
  have dist: "distinct (map write_key ws)"
    by (rule distinct_write_keys) (rule plan_action_checked(2) [OF applied(1)])
  have "well_typed_db scope ?db'"
    unfolding well_typed_db_def
  proof (intro allI impI)
    fix ent i props u assume found: "lookup_object ?db' (?tid, ent, i) = Some (props, u)"
    show "stored_values props \<and> (case map_of (sc_entities scope) ent of None \<Rightarrow> True
        | Some e \<Rightarrow> has_declared_type scope ent i props e)"
    proof (cases "\<exists>w \<in> set ws. write_key w = (ent, i)")
      case True
      then obtain w where w: "w \<in> set ws" "write_key w = (ent, i)" by blast
      note checked = plan_action_checked(3) [OF applied(1) w(1)]
      have "written now w = Some (props, u)"
        using lookup_after [OF dist w(1), of ?tid now ls db] found w(2) by simp
      then have kind: "pw_kind w \<noteq> EffDelete" and p: "props = json_properties (case pw_properties w of Some q \<Rightarrow> q | None \<Rightarrow> [])"
        by (auto simp: written_def split: if_splits)
      from checked kind obtain q where q: "pw_properties w = Some q" by (auto simp: write_checked_def)
      have "has_declared_type scope (pw_entityId w) (pw_objectId w) (json_properties q) e"
        if "map_of (sc_entities scope) (pw_entityId w) = Some e" for e
        by (rule written_object_typed [OF checked kind typed finite q that])
      with w(2) p q show ?thesis by (auto simp: write_key_def split: option.splits)
    next
      case False
      then have "lookup_object ?db' (?tid, ent, i) = lookup_object db (?tid, ent, i)"
        by (intro lookup_untouched [OF dist]) auto
      with found have "lookup_object db (?tid, ent, i) = Some (props, u)" by simp
      with well_typed_dbD [OF typed this] show ?thesis by (auto split: option.splits)
    qed
  qed
  with applied(2) show ?thesis by simp
qed

end
