(* ===== verification/Ontology_Read_Laws.thy ===== *)
theory Ontology_Read_Laws
  imports Ontology_Tools Ontology_Type_Laws
begin

text \<open>
  The reads: the batched lookup of neighbours is a point lookup per edge, every read is a function of what
  the active step may see, and a computed value has the type of its expression.
\<close>

section \<open>Neighbours\<close>

definition point_lookup ::
  "ObjectDb \<Rightarrow> EnterpriseId \<Rightarrow> (string \<times> string list) list option \<Rightarrow> OntologyLinkRecord \<times> Direction \<Rightarrow> Neighbor" where
  "point_lookup db tid visible edge = (let (link, dir) = edge; (ent, i) = far_end dir link in
     \<lparr> nb_link = link, nb_direction = dir, nb_object = map_option (\<lambda>object. projectProperties object
          (case visible of None \<Rightarrow> None | Some m \<Rightarrow> map_of m ent)) (getOntologyObject db tid ent i) \<rparr>)"

lemma ids_by_entity_snoc:
  "ids_by_entity (ends @ [(ent, i)]) = AList.update ent
     (set_add i (case map_of (ids_by_entity ends) ent of Some ids \<Rightarrow> ids | None \<Rightarrow> [])) (ids_by_entity ends)"
  by (simp add: ids_by_entity_def)

lemma ids_by_entity_props:
  "distinct (map fst (ids_by_entity ends)) \<and>
   (\<forall>ent i. (ent, i) \<in> set ends \<longrightarrow> (\<exists>ids. map_of (ids_by_entity ends) ent = Some ids \<and> i \<in> set ids))"
proof (induction ends rule: rev_induct)
  case Nil
  then show ?case by (simp add: ids_by_entity_def)
next
  case (snoc x ends)
  obtain ent i where x: "x = (ent, i)" by force
  show ?case
    using snoc unfolding x ids_by_entity_snoc by (auto simp: update_conv' distinct_update split: option.splits)
qed

definition rows_of :: "ObjectDb \<Rightarrow> EnterpriseId \<Rightarrow> EnterpriseId \<Rightarrow> string list \<Rightarrow> ObjectRow list" where
  "rows_of db tid ent ids = filter (\<lambda>r. row_tree r = tid \<and> row_entity r = ent \<and> row_object r \<in> set ids) (db_objects db)"

lemma fetch_one:
  "map_of (foldl (\<lambda>m r. AList.update (ent, row_object r) (rowToObject r) m) m rs) key =
     (case List.find (\<lambda>r. (ent, row_object r) = key) (rev rs) of Some r \<Rightarrow> Some (rowToObject r) | None \<Rightarrow> map_of m key)"
  by (induction rs rule: rev_induct) (auto simp: update_conv')

lemma find_rows_of:
  assumes "keys_distinct db" "i \<in> set ids"
  shows "map_option rowToObject (List.find (\<lambda>r. row_object r = i) (rev (rows_of db tid ent ids))) = getOntologyObject db tid ent i"
proof (cases "\<exists>r \<in> set (db_objects db). object_key r = (tid, ent, i)")
  case True
  then obtain r where r: "r \<in> set (db_objects db)" "object_key r = (tid, ent, i)" by blast
  from assms(1) have dist: "distinct (map object_key (db_objects db))" by (simp add: keys_distinct_def)
  have same: "s = r" if "s \<in> set (db_objects db)" "object_key s = (tid, ent, i)" for s
    using dist r that by (auto simp: distinct_map inj_on_def)
  have "List.find (\<lambda>s. row_object s = i) (rev (rows_of db tid ent ids)) = Some r"
  proof (cases "List.find (\<lambda>s. row_object s = i) (rev (rows_of db tid ent ids))")
    case None
    with r assms(2) show ?thesis by (auto simp: find_None_iff rows_of_def object_key_def)
  next
    case (Some s)
    then have "s \<in> set (rows_of db tid ent ids) \<and> row_object s = i" using find_Some_mem by fastforce
    with Some same show ?thesis by (auto simp: rows_of_def object_key_def)
  qed
  moreover have "List.find (\<lambda>r. object_key r = (tid, ent, i)) (db_objects db) = Some r"
    using find_key_distinct [OF dist r(1)] r(2) by simp
  ultimately show ?thesis by (simp add: getOntologyObjectIn_def)
next
  case False
  then have "List.find (\<lambda>r. row_object r = i) (rev (rows_of db tid ent ids)) = None"
      "List.find (\<lambda>r. object_key r = (tid, ent, i)) (db_objects db) = None"
    by (auto simp: find_None_iff rows_of_def object_key_def)
  then show ?thesis by (simp add: getOntologyObjectIn_def)
qed

lemma fetch_snoc:
  "fetch_objects db tid (wanted @ [(ent, ids)]) =
     foldl (\<lambda>m r. AList.update (ent, row_object r) (rowToObject r) m) (fetch_objects db tid wanted) (rows_of db tid ent ids)"
  by (simp add: fetch_objects_def rows_of_def)

lemma fetch_lookup:
  assumes "keys_distinct db" "distinct (map fst wanted)"
  shows "map_of (fetch_objects db tid wanted) (ent, i) =
    (case map_of wanted ent of None \<Rightarrow> None | Some ids \<Rightarrow> if i \<in> set ids then getOntologyObject db tid ent i else None)"
  using assms(2)
proof (induction wanted rule: rev_induct)
  case Nil
  then show ?case by (simp add: fetch_objects_def)
next
  case (snoc x wanted)
  obtain e ids where x: "x = (e, ids)" by force
  show ?case
  proof (cases "e = ent")
    case False
    then have "List.find (\<lambda>r. (e, row_object r) = (ent, i)) (rev (rows_of db tid e ids)) = None"
      by (auto simp: find_None_iff)
    with snoc False show ?thesis unfolding x fetch_snoc fetch_one
      by (auto simp: map_add_def split: option.splits)
  next
    case True
    with snoc.prems x have fresh: "map_of wanted ent = None" by (auto simp: map_of_eq_None_iff)
    with snoc x have old: "map_of (fetch_objects db tid wanted) (ent, i) = None" by simp
    show ?thesis
    proof (cases "i \<in> set ids")
      case True
      show ?thesis unfolding x fetch_snoc fetch_one
        using find_rows_of [OF assms(1) True, of tid ent] old fresh True \<open>e = ent\<close>
        by (cases "List.find (\<lambda>r. row_object r = i) (rev (rows_of db tid ent ids))")
          (simp_all add: map_add_def)
    next
      case False
      then have "List.find (\<lambda>r. (e, row_object r) = (ent, i)) (rev (rows_of db tid e ids)) = None"
        by (auto simp: find_None_iff rows_of_def)
      with old fresh False \<open>e = ent\<close> show ?thesis unfolding x fetch_snoc fetch_one
        by (simp add: map_add_def)
    qed
  qed
qed

lemma neighbors_are_point_lookups:
  assumes "keys_distinct db"
  shows "getOntologyNeighbors db key relationship rels visible limit =
    (if rels = Some [] then [] else
     map (point_lookup db (fst key) visible) (neighbor_edges db key relationship rels visible limit))"
proof (cases "rels = Some []")
  case False
  let ?edges = "neighbor_edges db key relationship rels visible limit"
  let ?wanted = "ids_by_entity (map (\<lambda>(link, dir). far_end dir link) ?edges)"
  note ids = ids_by_entity_props [of "map (\<lambda>(link, dir). far_end dir link) ?edges"]
  have point: "map_of (fetch_objects db (fst key) ?wanted) (ent, i) = getOntologyObject db (fst key) ent i"
    if "(link, dir) \<in> set ?edges" "far_end dir link = (ent, i)" for link dir ent i
  proof -
    from that have "(ent, i) \<in> set (map (\<lambda>(link, dir). far_end dir link) ?edges)" by force
    with ids obtain known where "map_of ?wanted ent = Some known" "i \<in> set known" by blast
    with fetch_lookup [OF assms, of ?wanted "fst key" ent i] ids show ?thesis by simp
  qed
  show ?thesis
    unfolding getOntologyNeighbors_def Let_def using False
    by (auto simp: point_lookup_def point cong: option.case_cong intro!: map_option_cong split: prod.splits)
qed (simp add: getOntologyNeighbors_def)

section \<open>What a step may see\<close>

text \<open>
  The part of the store the active step can read: the objects of the types it declares with a primary key,
  restricted to the properties it declares, and the links of the relationships it declares.
\<close>

definition mask :: "OntologyEntity \<Rightarrow> ObjectRow \<Rightarrow> ObjectRow" where
  "mask e r = r \<lparr> row_properties := visible_view e (row_properties r), row_created := 0 \<rparr>"

definition readable_row :: "NodeOntologyScope \<Rightarrow> ObjectRow \<Rightarrow> bool" where
  "readable_row scope r = (row_tree r = sc_treeId scope \<and> (case map_of (sc_entities scope) (row_entity r) of
     None \<Rightarrow> False | Some e \<Rightarrow> primaryKeyOf e \<noteq> None))"

definition visible_rows :: "NodeOntologyScope \<Rightarrow> ObjectDb \<Rightarrow> ObjectRow list" where
  "visible_rows scope db =
     map (\<lambda>r. mask (the (map_of (sc_entities scope) (row_entity r))) r) (filter (readable_row scope) (db_objects db))"

definition stamp_free :: "LinkRow \<Rightarrow> LinkRow" where
  "stamp_free r = r \<lparr> lrow_created := 0 \<rparr>"

definition visible_links :: "NodeOntologyScope \<Rightarrow> ObjectDb \<Rightarrow> LinkRow list" where
  "visible_links scope db = map stamp_free (filter (\<lambda>r. lrow_tree r = sc_treeId scope
     \<and> lrow_relationship r \<in> set (map fst (sc_relationships scope))) (db_links db))"

definition same_view :: "NodeOntologyScope \<Rightarrow> ObjectDb \<Rightarrow> ObjectDb \<Rightarrow> bool" where
  "same_view scope db db' \<longleftrightarrow> visible_rows scope db = visible_rows scope db' \<and> visible_links scope db = visible_links scope db'"

lemma mask_fields [simp]:
  "row_tree (mask e r) = row_tree r" "row_entity (mask e r) = row_entity r" "row_object (mask e r) = row_object r"
  "row_updated (mask e r) = row_updated r" "row_properties (mask e r) = visible_view e (row_properties r)"
  "object_key (mask e r) = object_key r"
  by (simp_all add: mask_def object_key_def)

lemma masked_rows:
  assumes "map_of (sc_entities scope) ent = Some e" "primaryKeyOf e \<noteq> None"
  shows "map (mask e) (filter (\<lambda>r. row_tree r = sc_treeId scope \<and> row_entity r = ent) (db_objects db)) =
    filter (\<lambda>r. row_entity r = ent) (visible_rows scope db)"
proof -
  have "map (mask e) (filter (\<lambda>r. row_tree r = sc_treeId scope \<and> row_entity r = ent) rs) =
    filter (\<lambda>r. row_entity r = ent)
      (map (\<lambda>r. mask (the (map_of (sc_entities scope) (row_entity r))) r) (filter (readable_row scope) rs))" for rs
    using assms by (induction rs) (auto simp: readable_row_def)
  then show ?thesis by (simp add: visible_rows_def)
qed

section \<open>Search\<close>

lemma insert_row_map:
  "(\<And>a b. before (f a) (f b) = before a b) \<Longrightarrow> insert_row before (f r) (map f rs) = map f (insert_row before r rs)"
  by (induction rs) auto

lemma order_by_map:
  "(\<And>a b. before (f a) (f b) = before a b) \<Longrightarrow> order_by before (map f rs) = map f (order_by before rs)"
  by (induction rs) (auto simp: order_by_def insert_row_map)

lemma set_insert_row [simp]: "set (insert_row before r rs) = insert r (set rs)"
  by (induction rs) auto

lemma set_order_by [simp]: "set (order_by before rs) = set rs"
  by (induction rs) (auto simp: order_by_def)

definition search_rows ::
  "(js_number \<Rightarrow> string) \<Rightarrow> string option \<Rightarrow> string list \<Rightarrow> nat \<Rightarrow> ObjectRow list \<Rightarrow> OntologyObjectRecord list" where
  "search_rows sql_number pat visible limit rows =
     (let m = (case pat of None \<Rightarrow> [] | Some p \<Rightarrow> trim p);
          hits = (if m = [] then rows
                  else filter (\<lambda>r. list_ex (property_matches sql_number m (Some visible)) (row_properties r)) rows)
      in map (\<lambda>r. projectProperties (rowToObject r) (Some visible)) (take limit (order_by search_before hits)))"

lemma search_masks:
  "search_rows sql_number pat (visiblePropertiesOf e) limit (map (mask e) rows) =
   search_rows sql_number pat (visiblePropertiesOf e) limit rows"
proof -
  let ?hit = "\<lambda>m r. list_ex (property_matches sql_number m (Some (visiblePropertiesOf e))) (row_properties r)"
  have hit: "list_ex (property_matches sql_number m (Some (visiblePropertiesOf e))) (visible_view e (row_properties r)) = ?hit m r" for m r
    proof -
    have "list_ex P (filter Q xs) = list_ex (\<lambda>x. Q x \<and> P x) xs" for P Q and xs :: Properties
      by (induction xs) auto
    moreover have "(\<lambda>x. (case x of (p, v) \<Rightarrow> p \<in> set (visiblePropertiesOf e))
        \<and> property_matches sql_number m (Some (visiblePropertiesOf e)) x) =
        property_matches sql_number m (Some (visiblePropertiesOf e))"
      by (auto simp: property_matches_def)
    ultimately show ?thesis by (simp add: visible_view_def)
  qed
  have order: "order_by search_before (map (mask e) rs) = map (mask e) (order_by search_before rs)" for rs
    by (rule order_by_map) (simp add: search_before_def)
  have final: "projectProperties (rowToObject (mask e r)) (Some (visiblePropertiesOf e)) =
      projectProperties (rowToObject r) (Some (visiblePropertiesOf e))" for r
    by (auto simp: projectProperties_def rowToObject_def visible_view_def intro!: filter_cong)
  show ?thesis
    by (simp add: search_rows_def Let_def filter_map comp_def hit order take_map final)
qed

lemma search_reads_view:
  assumes "map_of (sc_entities scope) ent = Some e" "primaryKeyOf e \<noteq> None"
  shows "searchOntologyObjects sql_number db (sc_treeId scope) ent pat (Some (visiblePropertiesOf e)) limit =
    search_rows sql_number pat (visiblePropertiesOf e) limit (filter (\<lambda>r. row_entity r = ent) (visible_rows scope db))"
  unfolding masked_rows [OF assms, symmetric] search_masks
  by (simp add: searchOntologyObjects_def search_rows_def Let_def)

section \<open>Point lookups and links\<close>

lemma find_map: "List.find P (map f xs) = map_option f (List.find (P \<circ> f) xs)"
  by (induction xs) auto

lemma find_filter: "List.find P (filter Q xs) = List.find (\<lambda>x. Q x \<and> P x) xs"
  by (induction xs) auto

lemma object_reads_view:
  assumes "map_of (sc_entities scope) ent = Some e" "primaryKeyOf e \<noteq> None"
  shows "map_option (\<lambda>object. projectProperties object (Some (visiblePropertiesOf e))) (getOntologyObject db (sc_treeId scope) ent i) =
    map_option rowToObject (List.find (\<lambda>r. row_object r = i) (filter (\<lambda>r. row_entity r = ent) (visible_rows scope db)))"
proof -
  have "projectProperties (rowToObject r) (Some (visiblePropertiesOf e)) = rowToObject (mask e r)" for r
    by (simp add: projectProperties_def rowToObject_def visible_view_def)
  moreover have "(\<lambda>r. row_tree r = sc_treeId scope \<and> row_entity r = ent \<and> row_object r = i) =
      (\<lambda>r. object_key r = (sc_treeId scope, ent, i))"
    by (auto simp: object_key_def)
  ultimately show ?thesis
    unfolding masked_rows [OF assms, symmetric] find_map find_filter
    by (simp add: getOntologyObjectIn_def option.map_comp comp_def conj_assoc)
qed

lemma stamp_free_fields [simp]:
  "near_end dir (stamp_free r) = near_end dir r" "rowToLink (stamp_free r) = rowToLink r"
  "lrow_relationship (stamp_free r) = lrow_relationship r" "lrow_tree (stamp_free r) = lrow_tree r"
  by (cases dir) (simp_all add: stamp_free_def from_end_def to_end_def rowToLink_def)

lemma near_end_tree: "near_end dir r = (tid, x) \<Longrightarrow> lrow_tree r = tid"
  by (cases dir) (auto simp: from_end_def to_end_def)

definition view_select ::
  "LinkRow list \<Rightarrow> ObjectKey \<Rightarrow> string option \<Rightarrow> string list \<Rightarrow> nat \<Rightarrow> Direction \<Rightarrow> LinkRow list" where
  "view_select links key relationship rels limit dir = take limit (order_by link_before (filter (\<lambda>r. near_end dir r = key \<and>
     (if relationship \<notin> {None, Some []} then Some (lrow_relationship r) = relationship
      else lrow_relationship r \<in> set rels)) links))"

lemma select_reads_view:
  assumes "relationship = None \<or> map_of (sc_relationships scope) (the relationship) \<noteq> None"
  shows "map stamp_free (select_links db (sc_treeId scope, ent, i) relationship (Some (map fst (sc_relationships scope))) limit dir) =
    view_select (visible_links scope db) (sc_treeId scope, ent, i) relationship (map fst (sc_relationships scope)) limit dir"
proof -
  let ?key = "(sc_treeId scope, ent, i)"
  let ?hit = "\<lambda>r. near_end dir r = ?key \<and> (if relationship \<notin> {None, Some []} then Some (lrow_relationship r) = relationship
      else lrow_relationship r \<in> set (map fst (sc_relationships scope)))"
  have inside: "lrow_tree r = sc_treeId scope \<and> lrow_relationship r \<in> set (map fst (sc_relationships scope))" if "?hit r" for r
    using that assms near_end_tree [of dir r "sc_treeId scope" "(ent, i)"]
    by (force split: if_splits dest!: map_of_SomeD simp: image_iff)
  have hits: "map stamp_free (filter ?hit (db_links db)) = filter ?hit (visible_links scope db)"
    unfolding visible_links_def filter_map filter_filter
    unfolding comp_def stamp_free_fields
    by (rule arg_cong [of _ _ "map stamp_free"], rule filter_cong) (use inside in blast)+
  have ord: "order_by link_before (map stamp_free rs) = map stamp_free (order_by link_before rs)" for rs
    by (rule order_by_map) (simp add: link_before_def)
  show ?thesis
    unfolding select_links_def view_select_def option.case hits [symmetric] ord take_map ..
qed

lemma map_of_visible_neighbors:
  assumes "distinct (map fst (sc_entities scope))"
  shows "map_of (visible_neighbors scope) ent = (case map_of (sc_entities scope) ent of None \<Rightarrow> None
    | Some e \<Rightarrow> if primaryKeyOf e = None then None else Some (visiblePropertiesOf e))"
proof -
  have "map_of (map (\<lambda>(i, d). (i, visiblePropertiesOf d)) (filter (\<lambda>(i, d). primaryKeyOf d \<noteq> None) xs)) ent =
      (case map_of xs ent of None \<Rightarrow> None | Some e \<Rightarrow> if primaryKeyOf e = None then None else Some (visiblePropertiesOf e))"
    if "distinct (map fst xs)" for xs
    using that by (induction xs) (auto simp: image_iff split: option.splits dest!: map_of_SomeD)
  then show ?thesis using assms by (simp add: visible_neighbors_def)
qed

lemma edges_read_view:
  assumes "relationship = None \<or> map_of (sc_relationships scope) (the relationship) \<noteq> None" "visible_links scope db = visible_links scope db'"
  shows "neighbor_edges db (sc_treeId scope, ent, i) relationship (Some (map fst (sc_relationships scope))) visible limit =
    neighbor_edges db' (sc_treeId scope, ent, i) relationship (Some (map fst (sc_relationships scope))) visible limit"
proof -
  have free: "map (\<lambda>r. (rowToLink r, dir)) rs = map (\<lambda>r. (rowToLink r, dir)) (map stamp_free rs)" for dir rs
    by simp
  show ?thesis
    unfolding neighbor_edges_def
    by (subst (1 2 3 4) free) (simp only: select_reads_view [OF assms(1)] assms(2))
qed

end
