(* ===== verification/Ontology_Properties.thy ===== *)
theory Ontology_Properties
  imports Ontology_Read_Laws Sample_Data
begin

text \<open>
  What holds of the object graph a run works on: an action does what it reports, the links of the store
  resolve, objects keep their type, and what a step reads is bounded by what it declares.
\<close>

section \<open>A sample object graph\<close>

definition string_property :: "string \<Rightarrow> bool \<Rightarrow> bool \<Rightarrow> OntologyValueType \<Rightarrow> OntologyProperty" where
  "string_property i key req ty = \<lparr> prop_id = i, prop_type = ty, prop_primaryKey = (if key then Some True else None),
     prop_required = (if req then Some True else None), prop_description = None \<rparr>"

definition entity_of :: "string \<Rightarrow> OntologyProperty list \<Rightarrow> OntologyEntity" where
  "entity_of i props = \<lparr> ent_id = i, ent_title = None, ent_description = None, ent_properties = Some props \<rparr>"

definition action_of :: "string \<Rightarrow> OntologyActionParameter list \<Rightarrow> OntologyActionEffect list \<Rightarrow> OntologyAction" where
  "action_of i params effs = \<lparr> act_id = i, act_title = None, act_description = None, act_tools = None,
     act_parameters = Some params, act_preconditions = None, act_effects = Some effs \<rparr>"

definition parameter_of :: "string \<Rightarrow> OntologyValueType \<Rightarrow> OntologyActionParameter" where
  "parameter_of i ty = \<lparr> par_id = i, par_type = ty, par_required = Some True, par_description = None \<rparr>"

definition graph_binding :: OntologyBinding where
  "graph_binding = empty_binding \<lparr>
     entities := Some [entity_of ''customer'' [string_property ''customer'' True True TyId, string_property ''name'' False False TyString],
       entity_of ''account'' [string_property ''account'' True True TyId, string_property ''balance'' False True TyNumber]],
     relationships := Some [\<lparr> rel_id = ''owns'', rel_from = ''customer'', rel_to = ''account'', rel_cardinality = None,
       rel_inverse = None, rel_description = None \<rparr>],
     actions := Some [
       action_of ''enrol'' [parameter_of ''customer'' TyId, parameter_of ''name'' TyString]
         [ObjectEffect \<lparr> oe_entity = ''customer'', oe_kind = EffCreate, oe_description = None \<rparr>],
       action_of ''open'' [parameter_of ''customer'' TyId, parameter_of ''account'' TyId, parameter_of ''balance'' TyNumber,
           parameter_of ''reason'' TyString]
         [ObjectEffect \<lparr> oe_entity = ''account'', oe_kind = EffCreate, oe_description = None \<rparr>,
          LinkEffect \<lparr> le_kind = Link, le_relationship = ''owns'', le_from = None, le_to = None, le_description = None \<rparr>]],
     ont_functions := Some [\<lparr> fn_id = ''overdrawn'', fn_title = None, fn_description = None, fn_entity = ''account'',
       fn_expression = ''$balance < 0'', fn_returns = TyBoolean \<rparr>] \<rparr>"

definition graph_run :: EnterpriseActiveRun where
  "graph_run = \<lparr> run_plan = sample_plan \<lparr> nodes := [sample_node \<lparr> ontology := graph_binding \<rparr>] \<rparr>,
     run_executionId = Some ''e1'', run_policies = [], run_mcpServers = None, run_sessionId = Some ''s1'',
     run_sink = True, run_treeRequiredProperties = Some [(''account'', [''balance'', ''account''])],
     run_routeCompleted = None, run_reopenCount = None \<rparr>"

definition graph_registry :: Registry where
  "graph_registry = empty_registry \<lparr> activeRuns := [(''r1'', graph_run)] \<rparr>"

definition graph_scope :: NodeOntologyScope where
  "graph_scope = the (resolveActiveOntologyScope graph_registry ''r1'')"

definition empty_db :: ObjectDb where
  "empty_db = \<lparr> db_objects = [], db_links = [] \<rparr>"

definition enrol_args :: Args where
  "enrol_args = [(''customer'', ArgValue (VStr ''c-1'')), (''name'', ArgValue (VStr ''Ada''))]"

definition open_args :: "js_number \<Rightarrow> Args" where
  "open_args balance = [(''customer'', ArgValue (VStr ''c-1'')), (''account'', ArgValue (VStr ''a-1'')),
     (''balance'', ArgValue (VNum balance)), (''reason'', ArgValue (VStr ''requested''))]"

definition graph_action :: "string \<Rightarrow> OntologyAction" where
  "graph_action i = the (map_of (sc_actions graph_scope) i)"

definition enrolled_db :: ObjectDb where
  "enrolled_db = snd (invokeOntologyAction graph_scope (graph_action ''enrol'') enrol_args 1 empty_db)"

definition opened_db :: ObjectDb where
  "opened_db = snd (invokeOntologyAction graph_scope (graph_action ''open'') (open_args (JsFin 5)) 2 enrolled_db)"

lemma graph_scope_resolved: "resolveActiveOntologyScope graph_registry ''r1'' = Some graph_scope"
proof -
  have "resolveActiveOntologyScope graph_registry ''r1'' \<noteq> None" by code_simp
  then show ?thesis by (auto simp: graph_scope_def)
qed

text \<open>The sample run: enrolling and opening succeed, in that order, and give two objects and a link.\<close>

lemma sample_graph:
  "fst (invokeOntologyAction graph_scope (graph_action ''enrol'') enrol_args 1 empty_db) =
     Inr ([ObjectWrite ''customer'' ''c-1'' EffCreate], [])"
  "fst (invokeOntologyAction graph_scope (graph_action ''open'') (open_args (JsFin 5)) 2 enrolled_db) =
     Inr ([ObjectWrite ''account'' ''a-1'' EffCreate, LinkWrite ''owns'' ''c-1'' ''a-1'' Link],
          [(''reason'', ArgValue (VStr ''requested''))])"
  "length (db_objects opened_db) = 2" "length (db_links opened_db) = 1"
  by code_simp+

section \<open>Actions\<close>


section \<open>The store as a system of operations\<close>

datatype StoreOp = RunAction NodeOntologyScope OntologyAction Args int | RemoveTree EnterpriseId

fun store_perform :: "StoreOp \<Rightarrow> ObjectDb \<Rightarrow> ObjectDb" where
  "store_perform (RunAction scope action args now) db = snd (invokeOntologyAction scope action args now db)"
| "store_perform (RemoveTree tid) db = deleteOntologyObjectsForTree tid db"

text \<open>The ids of object types hold no slash, which the schema of a tree guarantees.\<close>

fun store_admissible :: "ObjectDb \<Rightarrow> StoreOp \<Rightarrow> bool" where
  "store_admissible db (RunAction scope action args now) = scope_slash_free scope"
| "store_admissible db (RemoveTree tid) = True"

definition store_ok :: "ObjectDb \<Rightarrow> bool" where
  "store_ok db \<longleftrightarrow> no_dangling_links db \<and> keys_distinct db"

interpretation store: guarded_system store_ok store_admissible store_perform
proof
  fix db op assume "store_ok db" "store_admissible db op"
  then show "store_ok (store_perform op db)"
    by (cases op) (auto simp: store_ok_def no_dangling_clear intro: invoke_keeps_links invoke_keeps_keys)
qed

lemma empty_store_ok: "store_ok empty_db"
  by (simp add: store_ok_def empty_db_def no_dangling_links_def keys_distinct_def)

text \<open>
  C18. However actions of any steps and removals of trees follow each other, the store holds no link whose
  object is missing at either end, and no two rows under one key.
\<close>

theorem links_never_dangle:
  assumes "run_ops store_admissible store_perform ops empty_db = Some db"
  shows "no_dangling_links db \<and> keys_distinct db"
  using store.run_keeps [OF empty_store_ok assms] by (simp add: store_ok_def)

theorem links_never_dangle_witness: "no_dangling_links opened_db \<and> keys_distinct opened_db"
proof (rule links_never_dangle)
  have "scope_slash_free graph_scope" by code_simp
  then show "run_ops store_admissible store_perform
      [RunAction graph_scope (graph_action ''enrol'') enrol_args 1,
       RunAction graph_scope (graph_action ''open'') (open_args (JsFin 5)) 2] empty_db = Some opened_db"
    by (simp add: enrolled_db_def opened_db_def)
qed

section \<open>Types\<close>

text \<open>
  C19. Actions keep the objects of a type typed. In a store where every object of a type the step declares holds
  values of the declared types, a value for every property required by the step or anywhere in the tree, and an id
  that is the text of its primary key, this still holds after a call all of whose number arguments are finite. A
  required property named like a key of \<open>Object.prototype\<close> is outside of it: the code reads the inherited member for
  its value. A number that is not finite breaks it, as the lemma below evaluates.
\<close>

theorem objects_keep_their_type:
  assumes "well_typed_db scope db" "args_finite args"
  shows "well_typed_db scope (snd (invokeOntologyAction scope action args now db))"
  using assms by (rule invoke_keeps_types)

lemma empty_well_typed: "well_typed_db scope empty_db"
  by (simp add: well_typed_db_def empty_db_def lookup_object_def)

theorem objects_keep_their_type_witness: "well_typed_db graph_scope enrolled_db"
  unfolding enrolled_db_def
  by (rule objects_keep_their_type [OF empty_well_typed]) code_simp

text \<open>A number that is not finite passes every check of a call, and the store writes it as null.\<close>

lemma infinity_clears_a_required_property:
  "fst (invokeOntologyAction graph_scope (graph_action ''open'') (open_args (JsInf False)) 2 enrolled_db) =
     Inr ([ObjectWrite ''account'' ''a-1'' EffCreate, LinkWrite ''owns'' ''c-1'' ''a-1'' Link],
          [(''reason'', ArgValue (VStr ''requested''))])
   \<and> map_option (\<lambda>object. map_of (obj_properties object) ''balance'') (getOntologyObject
       (snd (invokeOntologyAction graph_scope (graph_action ''open'') (open_args (JsInf False)) 2 enrolled_db))
       ''claims'' ''account'' ''a-1'') = Some (Some VNull)
   \<and> ''balance'' \<in> set (required_ids graph_scope (the (map_of (sc_entities graph_scope) ''account'')) ''account'')"
  by code_simp

end
