(* ===== verification/Read_Properties.thy ===== *)
theory Read_Properties
  imports Ontology_Properties
begin

text \<open>
  The reads of the object graph: neighbours, the view of a step, and computed values.
\<close>

section \<open>Neighbours\<close>

text \<open>
  \<open>getOntologyNeighbors\<close> fetches the neighbour objects with one query per object type; in a store without
  duplicate keys that is the same as looking up the far end of every edge on its own.
\<close>

theorem neighbor_batching_is_exact:
  assumes "keys_distinct db"
  shows "getOntologyNeighbors db key relationship rels visible limit =
    (if rels = Some [] then [] else
     map (point_lookup db (fst key) visible) (neighbor_edges db key relationship rels visible limit))"
  using assms by (rule neighbors_are_point_lookups)

lemma opened_keys: "keys_distinct opened_db"
  unfolding opened_db_def enrolled_db_def
  by (intro invoke_keeps_keys) (simp add: keys_distinct_def empty_db_def)

theorem neighbor_batching_witness:
  "map (\<lambda>n. (nb_direction n, map_option obj_objectId (nb_object n)))
     (getOntologyNeighbors opened_db (''claims'', ''account'', ''a-1'') None None None 5) = [(Inbound, Some ''c-1'')]"
proof -
  have "map (\<lambda>n. (nb_direction n, map_option obj_objectId (nb_object n)))
      (map (point_lookup opened_db ''claims'' None) (neighbor_edges opened_db (''claims'', ''account'', ''a-1'') None None None 5)) =
    [(Inbound, Some ''c-1'')]"
    by code_simp
  then show ?thesis by (simp add: neighbor_batching_is_exact [OF opened_keys])
qed

section \<open>The view of a step\<close>

lemma update_keys_distinct: "distinct (map fst m) \<Longrightarrow> distinct (map fst (AList.update k v m))"
  by (simp add: distinct_update)

lemma foldl_update_distinct:
  "distinct (map fst m) \<Longrightarrow> distinct (map fst (foldl (\<lambda>m e. AList.update (key e) (val m e) m) m xs))"
  by (induction xs arbitrary: m) (simp_all add: update_keys_distinct)

lemma scope_entities_distinct:
  "resolveActiveOntologyScope st i = Some scope \<Longrightarrow> distinct (map fst (sc_entities scope))"
  by (auto simp: resolveActiveOntologyScope_def mergeOntologyDeclarations_def merge_node_def Let_def foldl_update_distinct
      split: option.splits)

lemma readable_entity_Inr:
  "readable_entity scope ent = Inr e \<longleftrightarrow> map_of (sc_entities scope) ent = Some e \<and> primaryKeyOf e \<noteq> None"
  by (auto simp: readable_entity_def split: option.splits if_splits)

lemma search_same_view:
  assumes "same_view scope db db'"
  shows "search_objects sql_number scope db ent pat limit = search_objects sql_number scope db' ent pat limit"
proof (cases "readable_entity scope ent")
  case (Inr e)
  then have e: "map_of (sc_entities scope) ent = Some e" "primaryKeyOf e \<noteq> None" by (simp_all add: readable_entity_Inr)
  have "visible_rows scope db = visible_rows scope db'" using assms by (simp add: same_view_def)
  then show ?thesis by (simp only: search_objects_def Inr bind_result.simps search_reads_view [OF e])
qed (simp add: search_objects_def)

lemma point_lookup_same_view:
  assumes "same_view scope db db'" "distinct (map fst (sc_entities scope))" "edge_visible (Some (visible_neighbors scope)) edge"
  shows "point_lookup db (sc_treeId scope) (Some (visible_neighbors scope)) edge =
    point_lookup db' (sc_treeId scope) (Some (visible_neighbors scope)) edge"
proof -
  obtain link dir where edge: "edge = (link, dir)" by force
  obtain ent i where far: "far_end dir link = (ent, i)" by force
  from assms(3) edge far have "map_of (visible_neighbors scope) ent \<noteq> None" by (simp add: edge_visible_def)
  then obtain e where e: "map_of (sc_entities scope) ent = Some e" "primaryKeyOf e \<noteq> None"
      and vis: "map_of (visible_neighbors scope) ent = Some (visiblePropertiesOf e)"
    by (auto simp: map_of_visible_neighbors [OF assms(2)] split: option.splits if_splits)
  have "visible_rows scope db = visible_rows scope db'" using assms(1) by (simp add: same_view_def)
  with object_reads_view [OF e] show ?thesis
    by (simp only: point_lookup_def edge far prod.case Let_def option.case vis)
qed

lemma neighbors_same_view:
  assumes "same_view scope db db'" "distinct (map fst (sc_entities scope))" "keys_distinct db" "keys_distinct db'"
  shows "get_neighbors scope db ent i relationship limit = get_neighbors scope db' ent i relationship limit"
proof (cases "relationship = None \<or> map_of (sc_relationships scope) (the relationship) \<noteq> None")
  case True
  have links: "visible_links scope db = visible_links scope db'" using assms(1) by (simp add: same_view_def)
  have "getOntologyNeighbors db (sc_treeId scope, ent, i) relationship (Some (map fst (sc_relationships scope)))
      (Some (visible_neighbors scope)) n =
    getOntologyNeighbors db' (sc_treeId scope, ent, i) relationship (Some (map fst (sc_relationships scope)))
      (Some (visible_neighbors scope)) n" for n
    unfolding neighbors_are_point_lookups [OF assms(3)] neighbors_are_point_lookups [OF assms(4)]
      edges_read_view [OF True links] fst_conv
    by (intro if_cong refl map_cong point_lookup_same_view [OF assms(1,2)])
      (simp only: neighbor_edges_def set_filter mem_Collect_eq)
  then show ?thesis by (simp only: get_neighbors_def)
next
  case False
  then show ?thesis by (cases "readable_entity scope ent") (simp_all add: get_neighbors_def)
qed

lemma compute_same_view:
  assumes "same_view scope db db'"
  shows "compute_function scope db f i = compute_function scope db' f i"
proof (cases "map_of (sc_functions scope) f")
  case (Some fn)
  show ?thesis
  proof (cases "map_of (sc_entities scope) (fn_entity fn)")
    case ent: (Some e)
    show ?thesis
    proof (cases "primaryKeyOf e = None")
      case False
      let ?get = "\<lambda>db. getOntologyObject db (sc_treeId scope) (fn_entity fn) i"
      have "visible_rows scope db = visible_rows scope db'" using assms by (simp add: same_view_def)
      with object_reads_view [OF ent False]
      have "map_option (\<lambda>object. projectProperties object (Some (visiblePropertiesOf e))) (?get db) =
          map_option (\<lambda>object. projectProperties object (Some (visiblePropertiesOf e))) (?get db')" by simp
      then have "map_option obj_properties (map_option (\<lambda>object. projectProperties object (Some (visiblePropertiesOf e))) (?get db)) =
          map_option obj_properties (map_option (\<lambda>object. projectProperties object (Some (visiblePropertiesOf e))) (?get db'))"
        by (simp only:)
      then have "map_option (\<lambda>object. visible_view e (obj_properties object)) (?get db) =
          map_option (\<lambda>object. visible_view e (obj_properties object)) (?get db')"
        by (simp add: option.map_comp comp_def projectProperties_def visible_view_def)
      then show ?thesis using Some ent False
        by (cases "?get db"; cases "?get db'") (auto simp add: compute_function_def simp del: getOntologyObject_eq)
    qed (use Some ent in \<open>simp add: compute_function_def\<close>)
  qed (use Some in \<open>simp add: compute_function_def\<close>)
qed (simp add: compute_function_def)

text \<open>
  C20. What \<open>search_objects\<close>, \<open>get_neighbors\<close> and \<open>compute_function\<close> answer is a function of what the active
  step may see: the objects of the types it declares with a primary key, their declared properties, and the links
  of the relationships it declares. Two stores that agree on these are told apart by no query.
\<close>

theorem reads_stay_in_scope:
  assumes "resolveActiveOntologyScope st r = Some scope" "keys_distinct db" "keys_distinct db'" "same_view scope db db'"
  shows "search_objects sql_number scope db ent pat limit = search_objects sql_number scope db' ent pat limit
    \<and> get_neighbors scope db start startId relationship n = get_neighbors scope db' start startId relationship n
    \<and> compute_function scope db f i = compute_function scope db' f i"
  by (intro conjI search_same_view [OF assms(4)] compute_same_view [OF assms(4)]
      neighbors_same_view [OF assms(4) scope_entities_distinct [OF assms(1)] assms(2,3)])

text \<open>A store with a property and an object the step does not declare, and the store without them.\<close>

definition other_db :: ObjectDb where
  "other_db = \<lparr> db_objects = map (\<lambda>r. r \<lparr> row_properties := (''salary'', VNum (JsFin 9)) # row_properties r \<rparr>) (db_objects opened_db) @
       [\<lparr> row_tree = ''claims'', row_entity = ''payroll'', row_object = ''p-1'', row_properties = [], row_created = 0, row_updated = 9 \<rparr>],
     db_links = db_links opened_db \<rparr>"

theorem reads_stay_in_scope_witness:
  "search_objects (\<lambda>n. []) graph_scope other_db ''account'' (Some ''9'') None =
     search_objects (\<lambda>n. []) graph_scope opened_db ''account'' (Some ''9'') None
   \<and> get_neighbors graph_scope other_db ''customer'' ''c-1'' None None = get_neighbors graph_scope opened_db ''customer'' ''c-1'' None None
   \<and> compute_function graph_scope other_db ''overdrawn'' ''a-1'' = compute_function graph_scope opened_db ''overdrawn'' ''a-1''"
proof (rule reads_stay_in_scope [OF graph_scope_resolved _ opened_keys])
  show "keys_distinct other_db" by code_simp
  show "same_view graph_scope other_db opened_db" by code_simp
qed

section \<open>Computed values\<close>

lemma conforms_view: "conforms props (declared_types e) \<Longrightarrow> conforms (visible_view e props) (declared_types e)"
proof -
  have "map_of (filter (\<lambda>(p, v). p \<in> S) props) i = map_of props i" if "i \<in> S" for S i
    using that by (induction props) auto
  then show "conforms props (declared_types e) \<Longrightarrow> conforms (visible_view e props) (declared_types e)"
    by (auto simp: conforms_def declared_types_def list_all_iff visible_view_def visiblePropertiesOf_def)
qed

lemma compute_function_Inr:
  assumes "compute_function scope db f i = Inr answer"
  obtains fn e object expression where "map_of (sc_functions scope) f = Some fn" "map_of (sc_entities scope) (fn_entity fn) = Some e"
    "getOntologyObject db (sc_treeId scope) (fn_entity fn) i = Some object"
    "parseOntologyExpression (fn_expression fn) = Inr expression" "hidden_properties e expression = []"
    "evaluateOntologyExpression expression (visible_view e (obj_properties object)) = Inr (fa_value answer)"
    "fa_returns answer = fn_returns fn"
  using assms by (auto simp: compute_function_def evaluate_function_def Let_def simp del: getOntologyObject_eq split: option.splits if_splits sum.splits)

text \<open>A function that type-checks against the object type returns null or a value of its type on every typed object.\<close>

lemma computed_value_typed:
  assumes "well_typed_db scope db" "map_of (sc_entities scope) ent = Some e"
    and "getOntologyObject db (sc_treeId scope) ent i = Some object"
    and "evaluateOntologyExpression expression (visible_view e (obj_properties object)) = Inr v"
    and "infer expression (declared_types e) = Inr t"
  shows "v = VNull \<or> value_type v = t"
proof -
  from assms(3) obtain u where look: "lookup_object db (sc_treeId scope, ent, i) = Some (obj_properties object, u)"
    by (auto simp: getOntologyObjectIn_lookup)
  have "conforms (obj_properties object) (declared_types e)"
    using well_typed_dbD(2) [OF assms(1) look assms(2)] by (simp add: has_declared_type_def)
  then have conf: "conforms (visible_view e (obj_properties object)) (declared_types e)" by (rule conforms_view)
  from assms(4) have "evaluate expression (visible_view e (obj_properties object)) = Inr v"
    by (auto simp: evaluateOntologyExpression_def split: sum.splits)
  with infer_sound [where z = True, OF assms(5) conf] show ?thesis
    by (auto simp: has_type_def typed_value_def split: if_splits)
qed

lemma enrolled_well_typed: "well_typed_db graph_scope enrolled_db"
  unfolding enrolled_db_def by (rule invoke_keeps_types [OF empty_well_typed]) code_simp

end
