(* ===== verification/Schema_Properties.thy ===== *)
theory Schema_Properties
  imports Schema_Laws Read_Properties
begin

text \<open>
  From the import of a tree to the values its functions compute: what validation checked over the whole tree is
  what a step of a run needs of its own merged declarations.
\<close>

section \<open>The merged declarations of a step\<close>

definition types_agree :: "TreeCatalog \<Rightarrow> string \<Rightarrow> OntologyProperty \<Rightarrow> bool" where
  "types_agree c ent p \<longleftrightarrow> type_in c ent (prop_id p) = Some (prop_type p)"

definition entity_agrees :: "TreeCatalog \<Rightarrow> OntologyEntity \<Rightarrow> bool" where
  "entity_agrees c e \<longleftrightarrow> (\<forall>p \<in> set (opt_list (ent_properties e)). types_agree c (ent_id e) p)"

lemma update_all: "\<forall>y \<in> set m. Q y \<Longrightarrow> Q (k, v) \<Longrightarrow> \<forall>y \<in> set (AList.update k v m). Q y"
  by (induction m) auto

lemma foldl_keeps: "(\<And>m p. p \<in> set ps \<Longrightarrow> P m \<Longrightarrow> P (step m p)) \<Longrightarrow> P m \<Longrightarrow> P (foldl step m ps)"
  by (induction ps arbitrary: m) auto

lemma foldl_all:
  "(\<And>m p. p \<in> set ps \<Longrightarrow> \<forall>y \<in> set m. Q y \<Longrightarrow> \<forall>y \<in> set (step m p). Q y) \<Longrightarrow> \<forall>y \<in> set m. Q y \<Longrightarrow>
   \<forall>y \<in> set (foldl step m ps). Q y"
  by (rule foldl_keeps [where P = "\<lambda>m. \<forall>y \<in> set m. Q y"])

definition all_agree :: "TreeCatalog \<Rightarrow> string \<Rightarrow> (string \<times> OntologyProperty) list \<Rightarrow> bool" where
  "all_agree c ent m \<longleftrightarrow> (\<forall>y \<in> set m. types_agree c ent (snd y))"

lemma merge_agrees:
  assumes "\<And>p. p \<in> set base \<Longrightarrow> types_agree c ent p" "\<And>p. p \<in> set extension \<Longrightarrow> types_agree c ent p"
  shows "all_agree c ent (merge_properties base extension)"
  unfolding merge_properties_def all_agree_def
proof (rule foldl_all)
  show "\<forall>y \<in> set (foldl (\<lambda>m p. AList.update (prop_id p) p m) [] base). types_agree c ent (snd y)"
    by (rule foldl_all, rule update_all) (simp_all add: assms(1))
  fix m :: "(string \<times> OntologyProperty) list" and p assume p: "p \<in> set extension" and m: "\<forall>y \<in> set m. types_agree c ent (snd y)"
  have "types_agree c ent p \<and> types_agree c ent (merge_property q p)" for q
    using assms(2) [OF p] by (simp add: types_agree_def merge_property_def)
  with m show "\<forall>y \<in> set (case map_of m (prop_id p) of None \<Rightarrow> AList.update (prop_id p) p m
      | Some existing \<Rightarrow> AList.update (prop_id p) (merge_property existing p) m). types_agree c ent (snd y)"
    by (cases "map_of m (prop_id p)"; simp only: option.case; intro update_all; simp)
qed

lemma mergeEntity_agrees:
  assumes "entity_agrees c e" "\<And>b. base = Some b \<Longrightarrow> entity_agrees c b \<and> ent_id b = ent_id e"
  shows "entity_agrees c (mergeEntity base e) \<and> ent_id (mergeEntity base e) = ent_id e"
proof (cases base)
  case (Some b)
  let ?merged = "merge_properties (opt_list (ent_properties b)) (opt_list (ent_properties e))"
  have "all_agree c (ent_id e) ?merged"
    by (rule merge_agrees) (use assms(1) assms(2) [OF Some] in \<open>auto simp: entity_agrees_def\<close>)
  with assms(1) assms(2) [OF Some] show ?thesis
    unfolding Some mergeEntity_def option.case Let_def all_agree_def entity_agrees_def
    by (cases "ent_properties e") (auto simp: later_def)
qed (use assms in \<open>simp add: mergeEntity_def\<close>)

lemma merged_entities_agree:
  assumes "\<And>e. e \<in> set es \<Longrightarrow> entity_agrees c e"
  shows "\<forall>x \<in> set (foldl (\<lambda>m e. AList.update (ent_id e) (mergeEntity (map_of m (ent_id e)) e) m) [] es).
    entity_agrees c (snd x) \<and> ent_id (snd x) = fst x"
proof (rule foldl_all)
  fix m e assume e: "e \<in> set es" and m: "\<forall>x \<in> set m. entity_agrees c (snd x) \<and> ent_id (snd x) = fst x"
  have "entity_agrees c (mergeEntity (map_of m (ent_id e)) e) \<and> ent_id (mergeEntity (map_of m (ent_id e)) e) = ent_id e"
    by (rule mergeEntity_agrees [OF assms [OF e]]) (use m in \<open>fastforce dest!: map_of_SomeD\<close>)
  with m show "\<forall>x \<in> set (AList.update (ent_id e) (mergeEntity (map_of m (ent_id e)) e) m).
      entity_agrees c (snd x) \<and> ent_id (snd x) = fst x"
    by (intro update_all) simp_all
qed simp

lemma set_all_mem: "\<forall>x \<in> set (set_all key xs []). snd x \<in> set xs"
  unfolding set_all_def by (rule foldl_all, rule update_all) simp_all

lemma scope_of_step:
  assumes "resolveActiveOntologyScope st r = Some scope"
  obtains run n where "getEnterpriseActiveRun st r = Some run" "n \<in> set (nodes (run_plan run))"
    "sc_entities scope = foldl (\<lambda>m e. AList.update (ent_id e) (mergeEntity (map_of m (ent_id e)) e) m) []
       (opt_list (entities (ontology n)))"
    "sc_functions scope = set_all fn_id (opt_list (ont_functions (ontology n))) []"
  using assms that
  by (auto simp: resolveActiveOntologyScope_def mergeOntologyDeclarations_def merge_node_def Let_def findPlanNode_def
      split: option.splits dest!: find_Some_mem)

lemma kept_walk: "x \<in> set (kept n keep parent) \<Longrightarrow> fst x \<in> set (walkWorkflowNodes n)"
proof (induction n arbitrary: parent rule: node_induct)
  case (node n)
  then show ?case by (auto simp: kept_eq [of n] walkWorkflowNodes_eq [of n] split: if_splits)
qed

lemma flattened_binding:
  assumes "n \<in> set (flattenPlanNodes t keep)"
  obtains s where "s \<in> set (walkWorkflowNodes t)" "ontology n = node_binding s"
proof -
  let ?kept = "kept t (case keep of None \<Rightarrow> (\<lambda>_. True) | Some ids \<Rightarrow> (\<lambda>i. i \<in> set ids)) None"
  from assms obtain y where y: "y \<in> set (enumerate 0 ?kept)" "n = plan_node y"
    unfolding flattenPlanNodes_kept by auto
  obtain k s p where "y = (k, s, p)" by (cases y)
  with y have "(s, p) \<in> set ?kept" "ontology n = node_binding s"
    by (auto simp: in_set_enumerate_eq plan_node_def intro: nth_mem dest: sym)
  with that kept_walk show ?thesis by fastforce
qed

section \<open>Type checking depends on the properties read\<close>

lemma infer_cong:
  "(\<And>i. i \<in> set (node_properties n) \<Longrightarrow> map_of p i = map_of q i) \<Longrightarrow> infer n p = infer n q"
proof (induction n)
  case (Unary u n)
  then show ?case by (cases u) auto
next
  case (Call fn args)
  then have "map (\<lambda>a. infer a p) args = map (\<lambda>a. infer a q) args" by auto
  then show ?case by (simp only: infer.simps)
qed auto

lemma declared_type_agrees:
  "entity_agrees c e \<Longrightarrow> map_of (declared_types e) i = Some ty \<Longrightarrow> type_in c (ent_id e) i = Some ty"
  by (auto simp: declared_types_def entity_agrees_def types_agree_def dest!: map_of_SomeD)

lemma visible_declared: "i \<in> set (visiblePropertiesOf e) \<Longrightarrow> \<exists>ty. map_of (declared_types e) i = Some ty"
proof -
  assume "i \<in> set (visiblePropertiesOf e)"
  then have "i \<in> fst ` set (declared_types e)" by (auto simp: visiblePropertiesOf_def declared_types_def image_iff)
  then show ?thesis by (metis map_of_eq_None_iff not_None_eq)
qed

text \<open>The functions of a step of an accepted tree type-check against the step's own object types.\<close>

lemma step_function_types:
  assumes valid: "validateWorkflowTreeDefinition tree"
    and planned: "getEnterpriseActiveRun st r = Some run" "nodes (run_plan run) = flattenPlanNodes (tree_root tree) keep"
    and scope: "resolveActiveOntologyScope st r = Some scope"
    and fn: "map_of (sc_functions scope) f = Some fn" and e: "map_of (sc_entities scope) (fn_entity fn) = Some e"
    and parsed: "parseOntologyExpression (fn_expression fn) = Inr expression" and visible: "hidden_properties e expression = []"
  shows "infer expression (declared_types e) = Inr (expressionTypeOf (fn_returns fn))"
proof -
  from scope obtain run' n where run': "getEnterpriseActiveRun st r = Some run'" "n \<in> set (nodes (run_plan run'))"
      and ents: "sc_entities scope = foldl (\<lambda>m e. AList.update (ent_id e) (mergeEntity (map_of m (ent_id e)) e) m) []
        (opt_list (entities (ontology n)))"
      and funs: "sc_functions scope = set_all fn_id (opt_list (ont_functions (ontology n))) []"
    by (rule scope_of_step)
  from run' planned have "n \<in> set (flattenPlanNodes (tree_root tree) keep)" by simp
  then obtain t where t: "t \<in> set (walkWorkflowNodes (tree_root tree))" "ontology n = node_binding t"
    by (rule flattened_binding)
  let ?c = "catalog tree"
  have "entity_agrees ?c d" if "d \<in> set (opt_list (entities (node_binding t)))" for d
    using valid_tree_types [OF valid t(1) that] by (simp add: entity_agrees_def types_agree_def)
  then have agrees: "entity_agrees ?c e \<and> ent_id e = fn_entity fn"
    using merged_entities_agree [of "opt_list (entities (node_binding t))" ?c] map_of_SomeD [OF e]
    unfolding ents t(2) by fastforce
  have "fn \<in> set (opt_list (ont_functions (node_binding t)))"
    using set_all_mem [of fn_id "opt_list (ont_functions (node_binding t))"] map_of_SomeD [OF fn]
    unfolding funs t(2) by fastforce
  from valid_tree_functions [OF valid t(1) this] obtain expression' shape where
      "parseOntologyExpression (fn_expression fn) = Inr expression'"
      and shape: "map_of (cat_shapes ?c) (fn_entity fn) = Some shape"
      and typed: "infer expression' (shape_types shape) = Inr (expressionTypeOf (fn_returns fn))" .
  with parsed have typed: "infer expression (shape_types shape) = Inr (expressionTypeOf (fn_returns fn))" by simp
  have "infer expression (declared_types e) = infer expression (shape_types shape)"
  proof (rule infer_cong)
    fix i assume i: "i \<in> set (node_properties expression)"
    with visible have "i \<in> set (visiblePropertiesOf e)"
      by (auto simp: hidden_properties_def ontologyExpressionProperties_def filter_empty_conv)
    then obtain ty where ty: "map_of (declared_types e) i = Some ty" using visible_declared by blast
    with declared_type_agrees agrees have "type_in ?c (fn_entity fn) i = Some ty" by metis
    with shape ty show "map_of (declared_types e) i = map_of (shape_types shape) i" by (simp add: type_in_def)
  qed
  with typed show ?thesis by simp
qed

section \<open>Computed values of accepted trees\<close>

text \<open>
  C21. Take a tree the import accepts, a run planned from it, and a store in which the objects of the types the active
  step declares are typed as it declares them (an import that changes the type of a property can leave older objects
  that are not). After any action of the step all of whose number arguments are finite, a function of the step that
  answers returns null or a value of the type it declares: the check made over the whole tree carries over to the
  merged declarations of every step.
\<close>

theorem functions_of_accepted_trees_are_typed:
  assumes "validateWorkflowTreeDefinition tree"
    and "getEnterpriseActiveRun st r = Some run" "nodes (run_plan run) = flattenPlanNodes (tree_root tree) keep"
    and "resolveActiveOntologyScope st r = Some scope" "well_typed_db scope db" "args_finite args"
    and "compute_function scope (snd (invokeOntologyAction scope action args now db)) f i = Inr answer"
  shows "fa_value answer = VNull \<or> value_type (fa_value answer) = expressionTypeOf (fa_returns answer)"
proof -
  let ?db = "snd (invokeOntologyAction scope action args now db)"
  from assms(7) obtain fn e object expression where fn: "map_of (sc_functions scope) f = Some fn"
      and e: "map_of (sc_entities scope) (fn_entity fn) = Some e"
      and object: "getOntologyObject ?db (sc_treeId scope) (fn_entity fn) i = Some object"
      and parsed: "parseOntologyExpression (fn_expression fn) = Inr expression"
      and visible: "hidden_properties e expression = []"
      and evaluated: "evaluateOntologyExpression expression (visible_view e (obj_properties object)) = Inr (fa_value answer)"
      and returns: "fa_returns answer = fn_returns fn"
    by (rule compute_function_Inr)
  have "infer expression (declared_types e) = Inr (expressionTypeOf (fn_returns fn))"
    by (rule step_function_types [OF assms(1-4) fn e parsed visible])
  with computed_value_typed [OF invoke_keeps_types [OF assms(5,6)] e object evaluated] returns
  show ?thesis by simp
qed

definition graph_tree :: WorkflowTreeDefinition where
  "graph_tree = \<lparr> tree_executionModel = Some ''openai/gpt'', tree_id = ''claims'', tree_version = ''1'', tree_name = ''Claims'',
     tree_description = None, tree_match = None, tree_capabilityGrants = None,
     tree_root = WorkflowNode ''intake'' ''Intake'' None (Some graph_binding) (Some [WorkflowNode ''review'' ''Review'' None None None]) \<rparr>"

definition planned_run :: EnterpriseActiveRun where
  "planned_run = graph_run \<lparr> run_plan := run_plan graph_run \<lparr> nodes := flattenPlanNodes (tree_root graph_tree) None \<rparr> \<rparr>"

definition planned_registry :: Registry where
  "planned_registry = empty_registry \<lparr> activeRuns := [(''r1'', planned_run)] \<rparr>"

lemma graph_tree_valid: "validateWorkflowTreeDefinition graph_tree"
  by code_simp

lemma planned_scope: "resolveActiveOntologyScope planned_registry ''r1'' = Some graph_scope"
  by code_simp

theorem functions_of_accepted_trees_witness:
  "case compute_function graph_scope (snd (invokeOntologyAction graph_scope (graph_action ''open'') (open_args (JsFin 5)) 2 enrolled_db))
       ''overdrawn'' ''a-1'' of
     Inl err \<Rightarrow> False
   | Inr answer \<Rightarrow> fa_value answer = VBool False
       \<and> (fa_value answer = VNull \<or> value_type (fa_value answer) = expressionTypeOf (fa_returns answer))"
proof -
  have "getEnterpriseActiveRun planned_registry ''r1'' = Some planned_run"
    by (simp add: getEnterpriseActiveRun_def planned_registry_def)
  moreover have "nodes (run_plan planned_run) = flattenPlanNodes (tree_root graph_tree) None" by (simp add: planned_run_def)
  moreover have "args_finite (open_args (JsFin 5))" by code_simp
  moreover have "case compute_function graph_scope (snd (invokeOntologyAction graph_scope (graph_action ''open'') (open_args (JsFin 5)) 2
      enrolled_db)) ''overdrawn'' ''a-1'' of Inl err \<Rightarrow> False | Inr answer \<Rightarrow> fa_value answer = VBool False"
    by code_simp
  ultimately show ?thesis
    using functions_of_accepted_trees_are_typed [OF graph_tree_valid _ _ planned_scope enrolled_well_typed]
    by (auto split: sum.splits)
qed

end
