(* ===== verification/Table_Laws.thy ===== *)
theory Table_Laws
  imports Ontology_Read_Laws
begin

text \<open>
  Tables as lists of rows: sorted queries, keyed rows and reads that may throw, shared by the stores.
\<close>

text \<open>\<open>rows.map(f)\<close> where \<open>f\<close> may throw.\<close>

fun map_rows :: "('a \<Rightarrow> 'b result) \<Rightarrow> 'a list \<Rightarrow> 'b list result" where
  "map_rows f [] = Inr []"
| "map_rows f (x # xs) = bind_result (f x) (\<lambda>y. bind_result (map_rows f xs) (\<lambda>ys. Inr (y # ys)))"

section \<open>Queries\<close>

lemma mset_insert_row [simp]: "mset (insert_row before r rs) = add_mset r (mset rs)"
  by (induction rs) auto

lemma mset_order_by [simp]: "mset (order_by before rs) = mset rs"
  by (induction rs) (auto simp: order_by_def)

lemma distinct_map_order_by [simp]: "distinct (map f (order_by before rs)) = distinct (map f rs)"
  by (rule mset_eq_imp_distinct_iff) simp

lemma order_by_sorted:
  assumes "\<And>a b. before a b \<or> before b a" "\<And>a b c. before a b \<Longrightarrow> before b c \<Longrightarrow> before a c"
  shows "sorted_wrt before (order_by before rs)"
proof -
  have ins: "sorted_wrt before xs \<Longrightarrow> sorted_wrt before (insert_row before r xs)" for r xs
  proof (induction xs)
    case (Cons s xs)
    have "set (insert_row before r xs) = insert r (set xs)"
      by (metis mset_insert_row set_mset_add_mset_insert set_mset_mset)
    with Cons assms show ?case by auto
  qed simp
  show ?thesis by (induction rs) (auto simp: order_by_def ins)
qed

lemma order_by_id: "sorted_wrt before rs \<Longrightarrow> order_by before rs = rs"
proof (induction rs)
  case (Cons r rs)
  then have "order_by before rs = rs" by simp
  then show ?case using Cons.prems by (cases rs) (auto simp: order_by_def)
qed (simp add: order_by_def)

lemma insert_row_filter:
  assumes "\<And>a b. before a b \<or> before b a" "\<And>a b c. before a b \<Longrightarrow> before b c \<Longrightarrow> before a c" "sorted_wrt before rs"
  shows "filter P (insert_row before r rs) = (if P r then insert_row before r (filter P rs) else filter P rs)"
  using assms(3)
proof (induction rs)
  case (Cons s rs)
  have "insert_row before r xs = r # xs" if "\<forall>x \<in> set xs. before r x" for xs
    using that by (cases xs) auto
  moreover have "before r s \<Longrightarrow> \<forall>x \<in> set (filter P rs). before r x" using Cons.prems assms(2) by auto
  ultimately show ?case using Cons by auto
qed simp

lemma filter_order_by:
  assumes "\<And>a b. before a b \<or> before b a" "\<And>a b c. before a b \<Longrightarrow> before b c \<Longrightarrow> before a c"
  shows "filter P (order_by before rs) = order_by before (filter P rs)"
proof (induction rs)
  case (Cons r rs)
  have s: "sorted_wrt before (foldr (insert_row before) rs [])"
    using order_by_sorted [of before rs] assms unfolding order_by_def by blast
  from Cons show ?case
    using insert_row_filter [OF assms s, where P = P and r = r] by (auto simp: order_by_def)
qed (simp add: order_by_def)

lemma map_rows_total: "(\<And>x. x \<in> set xs \<Longrightarrow> \<exists>y. f x = Inr y) \<Longrightarrow> \<exists>ys. map_rows f xs = Inr ys"
proof (induction xs)
  case (Cons x xs)
  then obtain y ys where "f x = Inr y" "map_rows f xs = Inr ys" by (meson list.set_intros)
  then show ?case by simp
qed simp

lemma map_rows_Inr: "map_rows f xs = Inr ys \<Longrightarrow> list_all2 (\<lambda>x y. f x = Inr y) xs ys"
  by (induction xs arbitrary: ys) auto

lemma map_rows_map: "(\<And>x. x \<in> set xs \<Longrightarrow> f x = Inr (g x)) \<Longrightarrow> map_rows f xs = Inr (map g xs)"
  by (induction xs) auto

lemma length_order_by [simp]: "length (order_by before rs) = length rs"
  using mset_order_by [of before rs] by (metis size_mset)

section \<open>Keyed rows\<close>

lemma filter_key: "distinct (map f rs) \<Longrightarrow> r \<in> set rs \<Longrightarrow> filter (\<lambda>q. f q = f r) rs = [r]"
  by (induction rs) (auto simp: filter_empty_conv image_iff)

lemma find_head_filter: "List.find P xs = (case filter P xs of [] \<Rightarrow> None | x # _ \<Rightarrow> Some x)"
  by (induction xs) auto

lemma list_all2_set1: "list_all2 P xs ys \<Longrightarrow> x \<in> set xs \<Longrightarrow> \<exists>y \<in> set ys. P x y"
  by (induction rule: list_all2_induct) auto

lemma list_all2_set2: "list_all2 P xs ys \<Longrightarrow> y \<in> set ys \<Longrightarrow> \<exists>x \<in> set xs. P x y"
  by (induction rule: list_all2_induct) auto

end
