(* ===== verification/Trace_Store.thy ===== *)
theory Trace_Store
  imports Run_Plan Systems Table_Laws
begin

text \<open>
  The durable run trace of \<^verbatim>\<open>src/enterprise/trace-store.sqlite.ts\<close>: a row per execution and an append-only
  log of events keyed by execution and sequence number. A table is the list of its rows in insertion order;
  a write transaction is one function, and a statement that throws leaves the tables as they were. A database
  file that does not exist yet answers every call as the empty tables do. The columns \<open>status\<close> and
  \<open>kind\<close> hold text and are parsed when they are read; \<open>plan_json\<close> holds the plan the program wrote, and
  \<open>payload_json\<close> a JSON value, or text that is none.
\<close>

section \<open>Rows\<close>

datatype Json = JNull | JBool bool | JNum js_number | JStr string | JArr "Json list" | JObj "(string \<times> Json) list"

datatype EnterpriseRunStatus = StRunning | StCompleted | StFailed | StBlocked | StAborted | StTimedOut

datatype EnterpriseRunEventKind =
    RunStarted | RouteSelected | RunEnded | GovernanceDecisionKind | NodeEnteredKind | NodeCompletedKind
  | RunResumed | ActionInvokedKind | RunSteeredKind | NodeReopenedKind

fun status_text :: "EnterpriseRunStatus \<Rightarrow> string" where
  "status_text StRunning = ''running''"
| "status_text StCompleted = ''completed''"
| "status_text StFailed = ''failed''"
| "status_text StBlocked = ''blocked''"
| "status_text StAborted = ''aborted''"
| "status_text StTimedOut = ''timed_out''"

fun event_kind_text :: "EnterpriseRunEventKind \<Rightarrow> string" where
  "event_kind_text RunStarted = ''run.started''"
| "event_kind_text RouteSelected = ''route.selected''"
| "event_kind_text RunEnded = ''run.ended''"
| "event_kind_text GovernanceDecisionKind = ''governance.decision''"
| "event_kind_text NodeEnteredKind = ''node.entered''"
| "event_kind_text NodeCompletedKind = ''node.completed''"
| "event_kind_text RunResumed = ''run.resumed''"
| "event_kind_text ActionInvokedKind = ''action.invoked''"
| "event_kind_text RunSteeredKind = ''run.steered''"
| "event_kind_text NodeReopenedKind = ''node.reopened''"

record EnterpriseRunRow =
  er_execution :: string
  er_run :: string
  er_sessionKey :: "string option"
  er_sessionId :: "string option"
  er_agent :: "string option"
  er_chatVisible :: "int option"
  er_owner :: "string option"
  er_resume :: "int option"
  er_tree :: string
  er_version :: string
  er_mode :: EnterpriseMode
  er_status :: string
  er_summary :: string
  er_plan :: EnterpriseRunPlan
  er_created :: int
  er_updated :: int
  er_ended :: "int option"

record EnterpriseRunEventRow =
  ev_execution :: string
  ev_seq :: nat
  ev_node :: "string option"
  ev_kind :: string
  ev_payload :: "Json option"
  ev_created :: int

record TraceDb =
  tr_runs :: "EnterpriseRunRow list"
  tr_events :: "EnterpriseRunEventRow list"

definition empty_trace :: TraceDb where
  "empty_trace = \<lparr> tr_runs = [], tr_events = [] \<rparr>"

record EnterpriseRunRecord =
  rr_executionId :: string
  rr_runId :: string
  rr_sessionKey :: "string option"
  rr_sessionId :: "string option"
  rr_agentId :: "string option"
  rr_treeId :: string
  rr_treeVersion :: string
  rr_mode :: EnterpriseMode
  rr_status :: EnterpriseRunStatus
  rr_requestSummary :: string
  rr_plan :: EnterpriseRunPlan
  rr_createdAt :: int
  rr_updatedAt :: int
  rr_endedAt :: "int option"
  rr_resumeRequested :: bool

record EnterpriseRunEventRecord =
  re_executionId :: string
  re_seq :: nat
  re_nodeId :: "string option"
  re_kind :: EnterpriseRunEventKind
  re_payload :: Json
  re_createdAt :: int

definition RUN_STATUSES :: "EnterpriseRunStatus list" where
  "RUN_STATUSES = [StRunning, StCompleted, StFailed, StBlocked, StAborted, StTimedOut]"

definition RUN_EVENT_KINDS :: "EnterpriseRunEventKind list" where
  "RUN_EVENT_KINDS = [RunStarted, RouteSelected, RunEnded, GovernanceDecisionKind, NodeEnteredKind, NodeCompletedKind,
     RunResumed, ActionInvokedKind, RunSteeredKind, NodeReopenedKind]"

definition parseRunStatus :: "string \<Rightarrow> EnterpriseRunStatus result" where
  "parseRunStatus value = (case List.find (\<lambda>candidate. status_text candidate = value) RUN_STATUSES of
     Some status \<Rightarrow> Inr status | None \<Rightarrow> Inl (''unknown enterprise run status '' @ quoted value))"

definition parseRunEventKind :: "string \<Rightarrow> EnterpriseRunEventKind result" where
  "parseRunEventKind value = (case List.find (\<lambda>candidate. event_kind_text candidate = value) RUN_EVENT_KINDS of
     Some kind \<Rightarrow> Inr kind | None \<Rightarrow> Inl (''unknown enterprise run event kind '' @ quoted value))"

definition rowToRunRecord :: "EnterpriseRunRow \<Rightarrow> EnterpriseRunRecord result" where
  "rowToRunRecord row = bind_result (parseRunStatus (er_status row)) (\<lambda>status. Inr
     \<lparr> rr_executionId = er_execution row, rr_runId = er_run row, rr_sessionKey = er_sessionKey row,
       rr_sessionId = er_sessionId row, rr_agentId = er_agent row, rr_treeId = er_tree row,
       rr_treeVersion = er_version row, rr_mode = er_mode row, rr_status = status,
       rr_requestSummary = er_summary row, rr_plan = er_plan row, rr_createdAt = er_created row,
       rr_updatedAt = er_updated row, rr_endedAt = er_ended row, rr_resumeRequested = (er_resume row \<noteq> None) \<rparr>)"

text \<open>\<open>JSON.parse\<close> of a stored payload.\<close>

definition parse_payload :: "Json option \<Rightarrow> Json result" where
  "parse_payload p = (case p of Some j \<Rightarrow> Inr j | None \<Rightarrow> Inl ''payload is not JSON'')"

section \<open>Writing a run\<close>

record TraceStart =
  ts_execution :: string
  ts_plan :: EnterpriseRunPlan
  ts_sessionKey :: "string option"
  ts_sessionId :: "string option"
  ts_agentId :: "string option"
  ts_chatVisible :: "bool option"

text \<open>An insert throws on a primary key that is taken.\<close>

definition insert_run :: "EnterpriseRunRow \<Rightarrow> TraceDb \<Rightarrow> TraceDb result" where
  "insert_run row db = (if list_ex (\<lambda>r. er_execution r = er_execution row) (tr_runs db)
     then Inl ''UNIQUE constraint failed: enterprise_runs.execution_id''
     else Inr (db \<lparr> tr_runs := tr_runs db @ [row] \<rparr>))"

definition event_key :: "EnterpriseRunEventRow \<Rightarrow> string \<times> nat" where
  "event_key e = (ev_execution e, ev_seq e)"

definition insert_event :: "EnterpriseRunEventRow \<Rightarrow> TraceDb \<Rightarrow> TraceDb result" where
  "insert_event row db = (if list_ex (\<lambda>e. event_key e = event_key row) (tr_events db)
     then Inl ''UNIQUE constraint failed: enterprise_run_events.execution_id, enterprise_run_events.seq''
     else Inr (db \<lparr> tr_events := tr_events db @ [row] \<rparr>))"

definition update_runs :: "(EnterpriseRunRow \<Rightarrow> bool) \<Rightarrow> (EnterpriseRunRow \<Rightarrow> EnterpriseRunRow) \<Rightarrow> TraceDb \<Rightarrow> TraceDb" where
  "update_runs hit upd db = db \<lparr> tr_runs := map (\<lambda>r. if hit r then upd r else r) (tr_runs db) \<rparr>"

definition persistEnterpriseRunStart :: "TraceStart \<Rightarrow> string \<Rightarrow> int \<Rightarrow> TraceDb \<Rightarrow> TraceDb result" where
  "persistEnterpriseRunStart params owner now = (let plan = ts_plan params in insert_run
     \<lparr> er_execution = ts_execution params, er_run = runId plan, er_sessionKey = ts_sessionKey params,
       er_sessionId = ts_sessionId params, er_agent = ts_agentId params,
       er_chatVisible = (if ts_chatVisible params = Some False then Some 0 else None),
       er_owner = Some owner, er_resume = None, er_tree = treeId plan, er_version = treeVersion plan,
       er_mode = plan_mode plan, er_status = ''running'', er_summary = requestSummary plan, er_plan = plan,
       er_created = createdAt plan, er_updated = now, er_ended = None \<rparr>)"

definition appendEnterpriseRunEvent :: "EnterpriseRunEventRecord \<Rightarrow> TraceDb \<Rightarrow> TraceDb result" where
  "appendEnterpriseRunEvent event = insert_event
     \<lparr> ev_execution = re_executionId event, ev_seq = re_seq event, ev_node = re_nodeId event,
       ev_kind = event_kind_text (re_kind event), ev_payload = Some (re_payload event), ev_created = re_createdAt event \<rparr>"

definition updateEnterpriseRunPlan :: "string \<Rightarrow> EnterpriseRunPlan \<Rightarrow> int \<Rightarrow> TraceDb \<Rightarrow> TraceDb" where
  "updateEnterpriseRunPlan x plan now =
     update_runs (\<lambda>r. er_execution r = x) (\<lambda>r. r \<lparr> er_plan := plan, er_updated := now \<rparr>)"

definition set_status :: "string \<Rightarrow> string \<Rightarrow> int \<Rightarrow> TraceDb \<Rightarrow> TraceDb" where
  "set_status x status now = update_runs (\<lambda>r. er_execution r = x)
     (\<lambda>r. r \<lparr> er_status := status, er_updated := now, er_ended := Some now \<rparr>)"

definition finalizeEnterpriseRun :: "string \<Rightarrow> EnterpriseRunStatus \<Rightarrow> int \<Rightarrow> TraceDb \<Rightarrow> TraceDb" where
  "finalizeEnterpriseRun x status = set_status x (status_text status)"

definition updateEnterpriseRunSessionId :: "string \<Rightarrow> string \<Rightarrow> int \<Rightarrow> TraceDb \<Rightarrow> TraceDb" where
  "updateEnterpriseRunSessionId x s now =
     update_runs (\<lambda>r. er_execution r = x) (\<lambda>r. r \<lparr> er_sessionId := Some s, er_updated := now \<rparr>)"

section \<open>Closing orphans\<close>

definition RECOVERY_ABORT_REASON :: string where
  "RECOVERY_ABORT_REASON = ''owning process is gone; closed during startup recovery''"

text \<open>A field of a parsed value: reading one of \<open>null\<close> throws, and only an object has the fields asked for.\<close>

fun json_field :: "string \<Rightarrow> Json \<Rightarrow> Json option result" where
  "json_field k JNull = Inl (''Cannot read properties of null (reading '' @ [CHR 0x27] @ k @ [CHR 0x27] @ '')'')"
| "json_field k (JObj entries) = Inr (map_of entries k)"
| "json_field k _ = Inr None"

definition readEndedStatus :: "Json option \<Rightarrow> string" where
  "readEndedStatus payload = (case bind_result (parse_payload payload) (json_field ''status'') of
     Inr (Some (JStr s)) \<Rightarrow> if s \<noteq> ''running'' then s else ''aborted''
   | _ \<Rightarrow> ''aborted'')"

definition is_orphan :: "(string \<Rightarrow> bool) \<Rightarrow> EnterpriseRunRow \<Rightarrow> bool" where
  "is_orphan gone r = (er_status r = ''running'' \<and> opt_list (er_owner r) \<noteq> [] \<and> gone (opt_list (er_owner r)))"

definition events_for :: "string \<Rightarrow> TraceDb \<Rightarrow> EnterpriseRunEventRow list" where
  "events_for x db = filter (\<lambda>e. ev_execution e = x) (tr_events db)"

text \<open>The two maps the recovery collects over the events of an execution.\<close>

definition next_seq :: "EnterpriseRunEventRow list \<Rightarrow> nat" where
  "next_seq es = fold (\<lambda>e n. max n (ev_seq e + 1)) es 0"

definition already_ended :: "EnterpriseRunEventRow list \<Rightarrow> string option" where
  "already_ended es = fold (\<lambda>e acc. if ev_kind e = ''run.ended'' then Some (readEndedStatus (ev_payload e)) else acc) es None"

definition close_orphan :: "int \<Rightarrow> string \<times> nat \<times> string option \<Rightarrow> TraceDb \<Rightarrow> TraceDb result" where
  "close_orphan now = (\<lambda>(x, n, ended) db.
     let closed = set_status x (case ended of Some s \<Rightarrow> s | None \<Rightarrow> ''aborted'') now db
     in if opt_list ended \<noteq> [] then Inr closed
        else insert_event \<lparr> ev_execution = x, ev_seq = n, ev_node = None, ev_kind = ''run.ended'',
          ev_payload = Some (JObj [(''status'', JStr ''aborted''), (''reason'', JStr RECOVERY_ABORT_REASON)]),
          ev_created = now \<rparr> closed)"

fun close_orphans :: "int \<Rightarrow> (string \<times> nat \<times> string option) list \<Rightarrow> TraceDb \<Rightarrow> TraceDb result" where
  "close_orphans now [] db = Inr db"
| "close_orphans now (o1 # os) db = bind_result (close_orphan now o1 db) (close_orphans now os)"

definition orphans :: "(string \<Rightarrow> bool) \<Rightarrow> TraceDb \<Rightarrow> (string \<times> nat \<times> string option) list" where
  "orphans gone db = map (\<lambda>r. let es = events_for (er_execution r) db in (er_execution r, next_seq es, already_ended es))
     (filter (is_orphan gone) (tr_runs db))"

definition abortOrphanedEnterpriseRuns :: "(string \<Rightarrow> bool) \<Rightarrow> int \<Rightarrow> TraceDb \<Rightarrow> (nat \<times> TraceDb) result" where
  "abortOrphanedEnterpriseRuns gone now db =
     bind_result (close_orphans now (orphans gone db) db) (\<lambda>db'. Inr (length (orphans gone db), db'))"

section \<open>Owners\<close>

text \<open>
  The token of a process incarnation, its pid and start time. The operating system is two parameters: whether
  a pid is certainly dead, and the start time of a pid where it can be read. A token is only ever written by
  \<open>currentOwnerToken\<close>, so its pid is read as decimal digits; the other number texts of the language are not
  tokens.
\<close>

definition currentOwnerToken :: "(nat \<Rightarrow> nat option) \<Rightarrow> nat \<Rightarrow> string" where
  "currentOwnerToken startTime pid = show_nat pid @ '':'' @ (case startTime pid of None \<Rightarrow> [] | Some t \<Rightarrow> show_nat t)"

definition digits_value :: "string \<Rightarrow> nat" where
  "digits_value s = foldl (\<lambda>n c. 10 * n + (of_char c - 48)) 0 s"

definition owner_pid :: "string \<Rightarrow> nat option" where
  "owner_pid s = (let t = trim s in if t \<noteq> [] \<and> list_all is_digit t then Some (digits_value t) else None)"

definition isOwnerTokenGone :: "(nat \<Rightarrow> bool) \<Rightarrow> (nat \<Rightarrow> nat option) \<Rightarrow> string \<Rightarrow> bool" where
  "isOwnerTokenGone pidDead startTime token =
     (let parts = split_on (CHR '':'') token;
          pidPart = hd parts; startedPart = (if 1 < length parts then parts ! 1 else [])
      in case owner_pid pidPart of
           None \<Rightarrow> False
         | Some pid \<Rightarrow>
             if pid = 0 then False
             else if pidDead pid then True
             else let recordedStart = trim startedPart
                  in if recordedStart = [] then False
                     else case startTime pid of None \<Rightarrow> False | Some t \<Rightarrow> show_nat t \<noteq> recordedStart)"

section \<open>Reading runs\<close>

text \<open>\<open>ORDER BY created_at DESC, execution_id DESC\<close>.\<close>

definition newest_before :: "EnterpriseRunRow \<Rightarrow> EnterpriseRunRow \<Rightarrow> bool" where
  "newest_before a b = (er_created b < er_created a \<or> (er_created a = er_created b \<and> er_execution b \<le> er_execution a))"

definition newest_first :: "(EnterpriseRunRow \<Rightarrow> bool) \<Rightarrow> TraceDb \<Rightarrow> EnterpriseRunRow list" where
  "newest_first hit db = order_by newest_before (filter hit (tr_runs db))"

definition first_row :: "EnterpriseRunRow list \<Rightarrow> EnterpriseRunRecord option result" where
  "first_row rows = (case rows of [] \<Rightarrow> Inr None | r # _ \<Rightarrow> bind_result (rowToRunRecord r) (\<lambda>rec. Inr (Some rec)))"

definition getEnterpriseRunRecord :: "string \<Rightarrow> TraceDb \<Rightarrow> EnterpriseRunRecord option result" where
  "getEnterpriseRunRecord i db = first_row (take 1 (newest_first (\<lambda>r. er_run r = i) db))"

definition getEnterpriseRunRecordByExecutionId :: "string \<Rightarrow> TraceDb \<Rightarrow> EnterpriseRunRecord option result" where
  "getEnterpriseRunRecordByExecutionId x db = first_row (take 1 (filter (\<lambda>r. er_execution r = x) (tr_runs db)))"

definition listEnterpriseRunExecutions :: "string \<Rightarrow> TraceDb \<Rightarrow> EnterpriseRunRecord list result" where
  "listEnterpriseRunExecutions i db = map_rows rowToRunRecord (newest_first (\<lambda>r. er_run r = i) db)"

record RunListing =
  ls_limit :: "int option"
  ls_sessionKey :: "string option"
  ls_agentId :: "string option"
  ls_chatVisibleOnly :: "bool option"

definition listing_matches :: "RunListing \<Rightarrow> EnterpriseRunRow \<Rightarrow> bool" where
  "listing_matches params r =
     ((opt_list (ls_sessionKey params) \<noteq> [] \<longrightarrow> er_sessionKey r = ls_sessionKey params)
      \<and> (opt_list (ls_agentId params) \<noteq> [] \<longrightarrow> er_agent r = ls_agentId params)
      \<and> (truthy (ls_chatVisibleOnly params) \<longrightarrow> er_chatVisible r \<noteq> Some 0))"

definition listing_limit :: "RunListing \<Rightarrow> nat" where
  "listing_limit params = nat (max 1 (min (case ls_limit params of None \<Rightarrow> 50 | Some n \<Rightarrow> n) 500))"

definition listEnterpriseRunRecords :: "RunListing \<Rightarrow> TraceDb \<Rightarrow> EnterpriseRunRecord list result" where
  "listEnterpriseRunRecords params db =
     map_rows rowToRunRecord (take (listing_limit params) (newest_first (listing_matches params) db))"

text \<open>\<open>ORDER BY seq ASC\<close>.\<close>

definition seq_before :: "EnterpriseRunEventRow \<Rightarrow> EnterpriseRunEventRow \<Rightarrow> bool" where
  "seq_before a b = (ev_seq a \<le> ev_seq b)"

definition rowToEventRecord :: "EnterpriseRunEventRow \<Rightarrow> EnterpriseRunEventRecord result" where
  "rowToEventRecord row = bind_result (parseRunEventKind (ev_kind row)) (\<lambda>kind.
     bind_result (parse_payload (ev_payload row)) (\<lambda>payload. Inr
       \<lparr> re_executionId = ev_execution row, re_seq = ev_seq row, re_nodeId = ev_node row, re_kind = kind,
         re_payload = payload, re_createdAt = ev_created row \<rparr>))"

definition listEnterpriseRunEvents :: "string \<Rightarrow> TraceDb \<Rightarrow> EnterpriseRunEventRecord list result" where
  "listEnterpriseRunEvents x db = map_rows rowToEventRecord (order_by seq_before (events_for x db))"

section \<open>Continuing a run\<close>

record StepTrace =
  tp_kind :: string
  tp_node :: "string option"
  tp_payload :: Json

definition string_items :: "Json option \<Rightarrow> string list" where
  "string_items j = (case j of
     Some (JArr xs) \<Rightarrow> concat (map (\<lambda>x. case x of JStr s \<Rightarrow> [s] | _ \<Rightarrow> []) xs) | _ \<Rightarrow> [])"

definition replay_event :: "StepTrace \<Rightarrow> string list \<Rightarrow> string list result" where
  "replay_event event completed =
     (if tp_kind event = ''run.resumed''
      then bind_result (json_field ''carriedSteps'' (tp_payload event)) (\<lambda>carried.
        Inr (fold set_add (string_items carried) completed))
      else if tp_kind event = ''node.reopened''
      then bind_result (json_field ''invalidated'' (tp_payload event)) (\<lambda>invalidated.
        Inr (filter (\<lambda>s. s \<notin> set (string_items invalidated)) completed))
      else if tp_kind event = ''node.completed'' \<and> opt_list (tp_node event) \<noteq> []
      then Inr (set_add (opt_list (tp_node event)) completed)
      else Inr completed)"

fun replay_events :: "StepTrace list \<Rightarrow> string list \<Rightarrow> string list result" where
  "replay_events [] completed = Inr completed"
| "replay_events (e # es) completed = bind_result (replay_event e completed) (replay_events es)"

definition cumulativeCompletedNodeIds :: "StepTrace list \<Rightarrow> string list result" where
  "cumulativeCompletedNodeIds events = replay_events events []"

datatype EnterpriseResumeRefusal =
  NotFound | StillRunning | NoSession | NoStepsCompleted | RefusedRouteComplete | TranscriptRotated

definition enterpriseRunResumeRefusal ::
  "string \<Rightarrow> string option \<Rightarrow> string option \<Rightarrow> EnterpriseRunPlan \<Rightarrow> string list \<Rightarrow> EnterpriseResumeRefusal option" where
  "enterpriseRunResumeRefusal status sessionKey sessionId plan completed =
     (if status = ''running'' then Some StillRunning
      else if opt_list sessionKey = [] \<or> opt_list sessionId = [] then Some NoSession
      else if completed = [] then Some NoStepsCompleted
      else if opt_list (firstUnfinishedStep (enterpriseStepSequence plan) completed) \<noteq> [] then None
      else Some RefusedRouteComplete)"

definition enterpriseRunTranscriptRotated ::
  "string option \<Rightarrow> string option \<Rightarrow> string option \<Rightarrow> int \<Rightarrow> TraceDb \<Rightarrow> bool" where
  "enterpriseRunTranscriptRotated sessionKey sessionId agent created db =
     (opt_list sessionKey \<noteq> [] \<and> opt_list sessionId \<noteq> [] \<and>
      list_ex (\<lambda>r. er_sessionKey r = sessionKey \<and> created < er_created r \<and> er_sessionId r \<noteq> None
        \<and> er_sessionId r \<noteq> sessionId \<and> er_agent r = agent) (tr_runs db))"

definition step_trace :: "EnterpriseRunEventRow \<Rightarrow> StepTrace result" where
  "step_trace row = bind_result (parse_payload (ev_payload row)) (\<lambda>payload.
     Inr \<lparr> tp_kind = ev_kind row, tp_node = ev_node row, tp_payload = payload \<rparr>)"

definition moves_steps :: "EnterpriseRunEventRow \<Rightarrow> bool" where
  "moves_steps e = (ev_kind e \<in> {''node.completed'', ''node.reopened'', ''run.resumed''})"

definition completedNodeIdsFor :: "TraceDb \<Rightarrow> string \<Rightarrow> string list result" where
  "completedNodeIdsFor db x =
     bind_result (map_rows step_trace (order_by seq_before (filter moves_steps (events_for x db)))) cumulativeCompletedNodeIds"

datatype EnterpriseResumeRequest = ResumeOk string string | ResumeRefused EnterpriseResumeRefusal

text \<open>The two updates of an accepted request: the marker, and the other pending markers of its agent lane.\<close>

definition in_lane :: "string option \<Rightarrow> string option \<Rightarrow> EnterpriseRunRow \<Rightarrow> bool" where
  "in_lane sessionKey agent r = (er_sessionKey r = sessionKey \<and> er_agent r = agent)"

definition arm_marker :: "EnterpriseRunRow \<Rightarrow> int \<Rightarrow> TraceDb \<Rightarrow> TraceDb" where
  "arm_marker row armedAt db =
     update_runs (\<lambda>r. er_resume r \<noteq> None \<and> in_lane (er_sessionKey row) (er_agent row) r \<and> er_execution r \<noteq> er_execution row)
       (\<lambda>r. r \<lparr> er_resume := None \<rparr>)
     (update_runs (\<lambda>r. er_execution r = er_execution row) (\<lambda>r. r \<lparr> er_resume := Some armedAt \<rparr>) db)"

definition requestEnterpriseRunResume ::
  "string \<Rightarrow> string \<Rightarrow> string option \<Rightarrow> int \<Rightarrow> TraceDb \<Rightarrow> (EnterpriseResumeRequest \<times> TraceDb) result" where
  "requestEnterpriseRunResume x expectedSessionId activeSessionId armedAt db =
     (case List.find (\<lambda>r. er_execution r = x) (tr_runs db) of
        None \<Rightarrow> Inr (ResumeRefused NotFound, db)
      | Some row \<Rightarrow> bind_result (completedNodeIdsFor db x) (\<lambda>completed. Inr
          (case enterpriseRunResumeRefusal (er_status row) (er_sessionKey row) (er_sessionId row) (er_plan row) completed of
             Some refusal \<Rightarrow> (ResumeRefused refusal, db)
           | None \<Rightarrow>
               if er_sessionId row \<noteq> Some expectedSessionId \<or> er_sessionId row \<noteq> activeSessionId
               then (ResumeRefused TranscriptRotated, db)
               else if enterpriseRunTranscriptRotated (er_sessionKey row) (er_sessionId row) (er_agent row) (er_created row) db
               then (ResumeRefused TranscriptRotated, db)
               else (ResumeOk (opt_list (er_sessionKey row)) (er_tree row), arm_marker row armedAt db))))"

record ResumeClaim =
  rc_sessionKey :: string
  rc_sessionId :: string
  rc_agentId :: "string option"
  rc_treeId :: string
  rc_startedAt :: int

definition claim_matches :: "ResumeClaim \<Rightarrow> EnterpriseRunRow \<Rightarrow> bool" where
  "claim_matches params r = ((case er_resume r of None \<Rightarrow> False | Some armedAt \<Rightarrow> armedAt < rc_startedAt params)
     \<and> er_sessionKey r = Some (rc_sessionKey params) \<and> er_sessionId r = Some (rc_sessionId params)
     \<and> er_tree r = rc_treeId params \<and> er_agent r = rc_agentId params)"

text \<open>
  \<open>ORDER BY created_at DESC LIMIT 1\<close>, ties in table order. An agent lane holds one marker at most, so the rows
  that match are never two and no order decides.
\<close>

definition created_before :: "EnterpriseRunRow \<Rightarrow> EnterpriseRunRow \<Rightarrow> bool" where
  "created_before a b = (er_created b \<le> er_created a)"

definition takeEnterpriseRunResume ::
  "ResumeClaim \<Rightarrow> TraceDb \<Rightarrow> ((string \<times> string list) option \<times> TraceDb) result" where
  "takeEnterpriseRunResume params db =
     (case take 1 (order_by created_before (filter (claim_matches params) (tr_runs db))) of
        [] \<Rightarrow> Inr (None, db)
      | row # _ \<Rightarrow>
          let taken = update_runs (\<lambda>r. er_execution r = er_execution row) (\<lambda>r. r \<lparr> er_resume := None \<rparr>) db
          in bind_result (completedNodeIdsFor taken (er_execution row)) (\<lambda>completed.
               Inr (if completed \<noteq> [] then Some (er_execution row, completed) else None, taken)))"

section \<open>What an operator sees of it\<close>

text \<open>
  The part of \<open>mapRunDetail\<close> (\<^verbatim>\<open>src/gateway/server-methods/enterprise.ts\<close>) that says whether a run can be
  continued. The session entry the gateway reads is a parameter: the session id it currently holds for a key
  and an agent.
\<close>

definition event_trace :: "EnterpriseRunEventRecord \<Rightarrow> StepTrace" where
  "event_trace e = \<lparr> tp_kind = event_kind_text (re_kind e), tp_node = re_nodeId e, tp_payload = re_payload e \<rparr>"

definition loadEnterpriseRunActiveSessionId ::
  "(string \<Rightarrow> string option \<Rightarrow> string option) \<Rightarrow> EnterpriseRunRecord \<Rightarrow> string option" where
  "loadEnterpriseRunActiveSessionId loadSession record =
     (if opt_list (rr_sessionKey record) = [] then None
      else loadSession (opt_list (rr_sessionKey record)) (if opt_list (rr_agentId record) = [] then None else rr_agentId record))"

record ResumeDetail =
  rd_resumeRequested :: bool
  rd_refusal :: "EnterpriseResumeRefusal option"

definition run_resume_detail ::
  "(string \<Rightarrow> string option \<Rightarrow> string option) \<Rightarrow> EnterpriseRunRecord \<Rightarrow> EnterpriseRunEventRecord list \<Rightarrow> TraceDb \<Rightarrow>
   ResumeDetail result" where
  "run_resume_detail loadSession record events db =
     bind_result (cumulativeCompletedNodeIds (map event_trace events)) (\<lambda>completed.
       let base = enterpriseRunResumeRefusal (status_text (rr_status record)) (rr_sessionKey record) (rr_sessionId record)
             (rr_plan record) completed;
           rotated = (base = None \<and> (rr_sessionId record \<noteq> loadEnterpriseRunActiveSessionId loadSession record
             \<or> enterpriseRunTranscriptRotated (rr_sessionKey record) (rr_sessionId record) (rr_agentId record) (rr_createdAt record) db));
           refusal = (if base \<noteq> None then base else if rotated then Some TranscriptRotated else None)
       in Inr \<lparr> rd_resumeRequested = (rr_resumeRequested record \<and> refusal = None), rd_refusal = refusal \<rparr>)"

text \<open>The handler of \<^verbatim>\<open>enterprise.runs.resume\<close>: a caller names the transcript it saw, or is refused.\<close>

definition resume_handler ::
  "(string \<Rightarrow> string option \<Rightarrow> string option) \<Rightarrow> string \<Rightarrow> string option \<Rightarrow> int \<Rightarrow> TraceDb \<Rightarrow>
   (EnterpriseResumeRequest \<times> TraceDb) result" where
  "resume_handler loadSession x sessionId now db =
     bind_result (getEnterpriseRunRecordByExecutionId x db) (\<lambda>record.
       if opt_list sessionId = [] then Inr (ResumeRefused TranscriptRotated, db)
       else requestEnterpriseRunResume x (opt_list sessionId)
         (case record of None \<Rightarrow> None | Some r \<Rightarrow> loadEnterpriseRunActiveSessionId loadSession r) now db)"

end
