(* ===== verification/Trace_Laws.thy ===== *)
theory Trace_Laws
  imports Trace_Store
begin

text \<open>
  Laws of the trace store: sorted queries, what each statement does to the tables, and the invariant that
  every sequence of operations keeps, whichever processes perform them.
\<close>

section \<open>Statements\<close>

lemma sorted_newest: "sorted_wrt newest_before (newest_first hit db)"
  unfolding newest_first_def by (rule order_by_sorted) (auto simp: newest_before_def)

lemma set_newest_first [simp]: "set (newest_first hit db) = {r \<in> set (tr_runs db). hit r}"
  by (auto simp: newest_first_def)

lemma update_runs_simps [simp]:
  "tr_events (update_runs hit upd db) = tr_events db"
  "tr_runs (update_runs hit upd db) = map (\<lambda>r. if hit r then upd r else r) (tr_runs db)"
  "events_for x (update_runs hit upd db) = events_for x db"
  by (simp_all add: update_runs_def events_for_def)

lemma parse_status_text [simp]: "parseRunStatus (status_text s) = Inr s"
  by (cases s) (simp_all add: parseRunStatus_def RUN_STATUSES_def)

lemma parse_event_kind_text [simp]: "parseRunEventKind (event_kind_text k) = Inr k"
  by (cases k) (simp_all add: parseRunEventKind_def RUN_EVENT_KINDS_def)

lemma status_text_inject [simp]: "status_text s = status_text t \<longleftrightarrow> s = t"
  by (metis parse_status_text sum.inject(2))

lemma running_status [simp]: "status_text s = ''running'' \<longleftrightarrow> s = StRunning"
  by (metis status_text.simps(1) status_text_inject)

lemma event_kind_inject [simp]: "event_kind_text k = event_kind_text l \<longleftrightarrow> k = l"
  by (metis parse_event_kind_text sum.inject(2))

lemma parse_running [simp]: "parseRunStatus ''running'' = Inr StRunning"
  using parse_status_text [of StRunning] by simp

section \<open>Operations\<close>

text \<open>What any process may do to the database; a call that throws changes nothing.\<close>

datatype TraceOp =
    StartTrace TraceStart string int
  | AppendTrace EnterpriseRunEventRecord
  | UpdatePlan string EnterpriseRunPlan int
  | FinalizeTrace string EnterpriseRunStatus int
  | RecoverTrace "string \<Rightarrow> bool" int
  | MoveTranscript string string int
  | RequestResume string string "string option" int
  | TakeResume ResumeClaim

definition commit :: "TraceDb \<Rightarrow> TraceDb result \<Rightarrow> TraceDb" where
  "commit db r = (case r of Inr db' \<Rightarrow> db' | Inl _ \<Rightarrow> db)"

fun trace_perform :: "TraceOp \<Rightarrow> TraceDb \<Rightarrow> TraceDb" where
  "trace_perform (StartTrace params owner now) db = commit db (persistEnterpriseRunStart params owner now db)"
| "trace_perform (AppendTrace event) db = commit db (appendEnterpriseRunEvent event db)"
| "trace_perform (UpdatePlan x plan now) db = updateEnterpriseRunPlan x plan now db"
| "trace_perform (FinalizeTrace x status now) db = finalizeEnterpriseRun x status now db"
| "trace_perform (RecoverTrace gone now) db =
     commit db (bind_result (abortOrphanedEnterpriseRuns gone now db) (\<lambda>r. Inr (snd r)))"
| "trace_perform (MoveTranscript x s now) db = updateEnterpriseRunSessionId x s now db"
| "trace_perform (RequestResume x expected active now) db =
     commit db (bind_result (requestEnterpriseRunResume x expected active now db) (\<lambda>r. Inr (snd r)))"
| "trace_perform (TakeResume params) db =
     commit db (bind_result (takeEnterpriseRunResume params db) (\<lambda>r. Inr (snd r)))"

definition ended_text :: "string \<Rightarrow> bool" where
  "ended_text s \<longleftrightarrow> (\<exists>st. st \<noteq> StRunning \<and> s = status_text st)"

text \<open>The payload of an event is an object, and the event that ends a run names a final status.\<close>

definition payload_ok :: "EnterpriseRunEventKind \<Rightarrow> Json \<Rightarrow> bool" where
  "payload_ok k p \<longleftrightarrow> (\<exists>entries. p = JObj entries) \<and> (k = RunEnded \<longrightarrow> ended_text (readEndedStatus (Some p)))"

fun trace_admissible :: "TraceDb \<Rightarrow> TraceOp \<Rightarrow> bool" where
  "trace_admissible db (AppendTrace event) = payload_ok (re_kind event) (re_payload event)"
| "trace_admissible db (FinalizeTrace x status now) = (status \<noteq> StRunning)"
| "trace_admissible db _ = True"

section \<open>The invariant\<close>

definition row_ok :: "EnterpriseRunRow \<Rightarrow> bool" where
  "row_ok r \<longleftrightarrow> (\<exists>s. er_status r = status_text s \<and> (er_ended r = None \<longleftrightarrow> s = StRunning))
     \<and> (er_resume r \<noteq> None \<longrightarrow> opt_list (er_sessionKey r) \<noteq> [] \<and> er_status r \<noteq> ''running'')"

definition event_ok :: "EnterpriseRunEventRow \<Rightarrow> bool" where
  "event_ok e \<longleftrightarrow> (\<exists>k p. ev_kind e = event_kind_text k \<and> ev_payload e = Some p \<and> payload_ok k p)"

definition one_marker :: "TraceDb \<Rightarrow> bool" where
  "one_marker db \<longleftrightarrow> (\<forall>r \<in> set (tr_runs db). \<forall>s \<in> set (tr_runs db). er_resume r \<noteq> None \<longrightarrow> er_resume s \<noteq> None \<longrightarrow>
     in_lane (er_sessionKey r) (er_agent r) s \<longrightarrow> er_execution s = er_execution r)"

definition store_ok :: "TraceDb \<Rightarrow> bool" where
  "store_ok db \<longleftrightarrow> distinct (map er_execution (tr_runs db)) \<and> distinct (map event_key (tr_events db))
     \<and> (\<forall>r \<in> set (tr_runs db). row_ok r) \<and> (\<forall>e \<in> set (tr_events db). event_ok e) \<and> one_marker db"

lemma store_okD:
  assumes "store_ok db"
  shows "distinct (map er_execution (tr_runs db))" "distinct (map event_key (tr_events db))"
    "r \<in> set (tr_runs db) \<Longrightarrow> row_ok r" "e \<in> set (tr_events db) \<Longrightarrow> event_ok e" "one_marker db"
  using assms by (auto simp: store_ok_def)

lemma empty_trace_ok: "store_ok empty_trace"
  by (simp add: store_ok_def empty_trace_def one_marker_def)

lemma one_markerD:
  "one_marker db \<Longrightarrow> r \<in> set (tr_runs db) \<Longrightarrow> s \<in> set (tr_runs db) \<Longrightarrow> er_resume r \<noteq> None \<Longrightarrow> er_resume s \<noteq> None \<Longrightarrow>
   er_sessionKey s = er_sessionKey r \<Longrightarrow> er_agent s = er_agent r \<Longrightarrow> er_execution s = er_execution r"
  unfolding one_marker_def in_lane_def by blast

lemma one_markerI:
  "(\<And>r s. r \<in> set (tr_runs db) \<Longrightarrow> s \<in> set (tr_runs db) \<Longrightarrow> er_resume r \<noteq> None \<Longrightarrow> er_resume s \<noteq> None \<Longrightarrow>
   er_sessionKey s = er_sessionKey r \<Longrightarrow> er_agent s = er_agent r \<Longrightarrow> er_execution s = er_execution r) \<Longrightarrow> one_marker db"
  unfolding one_marker_def in_lane_def by blast

text \<open>A change of the rows that leaves the key, the lane and the marker of each, or clears it, keeps the markers apart.\<close>

lemma one_marker_map:
  assumes "one_marker db" "tr_runs db' = map f (tr_runs db)"
    and keep: "\<And>r. er_execution (f r) = er_execution r" "\<And>r. er_sessionKey (f r) = er_sessionKey r"
      "\<And>r. er_agent (f r) = er_agent r" "\<And>r. er_resume (f r) \<noteq> None \<Longrightarrow> er_resume r \<noteq> None"
  shows "one_marker db'"
proof (rule one_markerI)
  fix r' s'
  assume m: "r' \<in> set (tr_runs db')" "s' \<in> set (tr_runs db')" "er_resume r' \<noteq> None" "er_resume s' \<noteq> None"
    "er_sessionKey s' = er_sessionKey r'" "er_agent s' = er_agent r'"
  then obtain r s where rs: "r \<in> set (tr_runs db)" "r' = f r" "s \<in> set (tr_runs db)" "s' = f s"
    unfolding assms(2) set_map by blast
  have "er_resume r \<noteq> None" "er_resume s \<noteq> None" using keep(4) m(3,4) unfolding rs by blast+
  with m(5,6) have "er_execution s = er_execution r"
    using one_markerD [OF assms(1) rs(1,3)] unfolding rs keep by blast
  then show "er_execution s' = er_execution r'" unfolding rs keep .
qed

lemma update_runs_ok:
  assumes "store_ok db"
    and keep: "\<And>r. er_execution (upd r) = er_execution r" "\<And>r. er_sessionKey (upd r) = er_sessionKey r"
      "\<And>r. er_agent (upd r) = er_agent r" "\<And>r. er_resume (upd r) \<noteq> None \<Longrightarrow> er_resume r \<noteq> None"
    and ok: "\<And>r. r \<in> set (tr_runs db) \<Longrightarrow> hit r \<Longrightarrow> row_ok r \<Longrightarrow> row_ok (upd r)"
  shows "store_ok (update_runs hit upd db)"
proof -
  have "map er_execution (tr_runs (update_runs hit upd db)) = map er_execution (tr_runs db)"
    using keep(1) by simp
  moreover have "one_marker (update_runs hit upd db)"
    by (rule one_marker_map [OF store_okD(5) [OF assms(1)] update_runs_simps(2)]) (use keep in \<open>simp_all split: if_splits\<close>)
  moreover have "row_ok r" if "r \<in> set (tr_runs (update_runs hit upd db))" for r
    using that ok store_okD(3) [OF assms(1)] by auto
  ultimately show ?thesis using store_okD(1,2,4) [OF assms(1)]
    unfolding store_ok_def by (simp only: update_runs_simps(1)) blast
qed

lemma insert_run_ok:
  assumes "store_ok db" "row_ok row" "er_resume row = None" "insert_run row db = Inr db'"
  shows "store_ok db'"
proof -
  from assms(4) have new: "er_execution row \<notin> er_execution ` set (tr_runs db)" and db': "db' = db \<lparr> tr_runs := tr_runs db @ [row] \<rparr>"
    by (auto simp: insert_run_def list_ex_iff split: if_splits)
  have "one_marker db'" unfolding db'
  proof (rule one_markerI)
    fix r s
    assume "r \<in> set (tr_runs (db \<lparr> tr_runs := tr_runs db @ [row] \<rparr>))" "s \<in> set (tr_runs (db \<lparr> tr_runs := tr_runs db @ [row] \<rparr>))"
      "er_resume r \<noteq> None" "er_resume s \<noteq> None" and lane: "er_sessionKey s = er_sessionKey r" "er_agent s = er_agent r"
    then show "er_execution s = er_execution r"
      using assms(3) one_markerD [OF store_okD(5) [OF assms(1)], of r s] by fastforce
  qed
  with new assms(2) store_okD [OF assms(1)] show ?thesis by (auto simp: store_ok_def db')
qed

lemma insert_event_ok:
  assumes "store_ok db" "event_ok row" "insert_event row db = Inr db'"
  shows "store_ok db'" "tr_runs db' = tr_runs db" "tr_events db' = tr_events db @ [row]"
proof -
  from assms(3) have new: "event_key row \<notin> event_key ` set (tr_events db)" and db': "db' = db \<lparr> tr_events := tr_events db @ [row] \<rparr>"
    by (auto simp: insert_event_def list_ex_iff split: if_splits)
  have "one_marker db'" unfolding db'
    by (rule one_marker_map [OF store_okD(5) [OF assms(1)], where f = id]) simp_all
  with new assms(2) store_okD [OF assms(1)] show "store_ok db'" by (auto simp: store_ok_def db')
qed (use assms(3) in \<open>auto simp: insert_event_def split: if_splits\<close>)

lemma set_status_ok: "store_ok db \<Longrightarrow> ended_text t \<Longrightarrow> store_ok (set_status x t now db)"
  unfolding set_status_def by (rule update_runs_ok) (auto simp: row_ok_def ended_text_def in_lane_def)

section \<open>Recovery\<close>

definition stamp :: "string \<Rightarrow> int \<Rightarrow> EnterpriseRunRow \<Rightarrow> EnterpriseRunRow" where
  "stamp status now r = r \<lparr> er_status := status, er_updated := now, er_ended := Some now \<rparr>"

lemma stamp_simps [simp]: "er_execution (stamp t now r) = er_execution r"
  by (simp add: stamp_def)

text \<open>How an execution's own events say it ended, and the event that closes one that never did.\<close>

definition verdict_of :: "TraceDb \<Rightarrow> EnterpriseRunRow \<Rightarrow> string option" where
  "verdict_of db r = already_ended (events_for (er_execution r) db)"

definition abort_event :: "TraceDb \<Rightarrow> int \<Rightarrow> EnterpriseRunRow \<Rightarrow> EnterpriseRunEventRow" where
  "abort_event db now r = \<lparr> ev_execution = er_execution r, ev_seq = next_seq (events_for (er_execution r) db),
     ev_node = None, ev_kind = ''run.ended'',
     ev_payload = Some (JObj [(''status'', JStr ''aborted''), (''reason'', JStr RECOVERY_ABORT_REASON)]), ev_created = now \<rparr>"

definition recovered_row :: "(string \<Rightarrow> bool) \<Rightarrow> int \<Rightarrow> TraceDb \<Rightarrow> EnterpriseRunRow \<Rightarrow> EnterpriseRunRow" where
  "recovered_row gone now db r = (if is_orphan gone r
     then stamp (case verdict_of db r of Some s \<Rightarrow> s | None \<Rightarrow> ''aborted'') now r else r)"

definition recovered :: "(string \<Rightarrow> bool) \<Rightarrow> int \<Rightarrow> TraceDb \<Rightarrow> TraceDb" where
  "recovered gone now db = \<lparr> tr_runs = map (recovered_row gone now db) (tr_runs db),
     tr_events = tr_events db @ map (abort_event db now)
       (filter (\<lambda>r. is_orphan gone r \<and> verdict_of db r = None) (tr_runs db)) \<rparr>"

lemma next_seq_bound: "e \<in> set es \<Longrightarrow> ev_seq e < next_seq es"
proof -
  let ?m = "\<lambda>e n. max n (ev_seq e + 1)"
  have grows: "m \<le> fold ?m xs m" for xs m
  proof (induction xs arbitrary: m)
    case (Cons x xs)
    from Cons [of "?m x m"] show ?case by simp
  qed simp
  have "e \<in> set xs \<Longrightarrow> ev_seq e < fold ?m xs m" for xs m
  proof (induction xs arbitrary: m)
    case (Cons x xs)
    have "max m (ev_seq x + 1) \<le> fold ?m xs (max m (ev_seq x + 1))" by (rule grows)
    then have "ev_seq x < fold ?m (x # xs) m" by simp
    with Cons show ?case by auto
  qed simp
  then show "e \<in> set es \<Longrightarrow> ev_seq e < next_seq es" unfolding next_seq_def by blast
qed

lemma already_ended_event:
  "already_ended es = Some s \<Longrightarrow> \<exists>e \<in> set es. ev_kind e = ''run.ended'' \<and> s = readEndedStatus (ev_payload e)"
proof -
  have "fold (\<lambda>e acc. if ev_kind e = ''run.ended'' then Some (readEndedStatus (ev_payload e)) else acc) es a = Some s \<Longrightarrow>
      a = Some s \<or> (\<exists>e \<in> set es. ev_kind e = ''run.ended'' \<and> s = readEndedStatus (ev_payload e))" for a
    by (induction es arbitrary: a) (auto split: if_splits)
  then show "already_ended es = Some s \<Longrightarrow> ?thesis" unfolding already_ended_def by fastforce
qed

lemma ended_text_simps: "ended_text s \<Longrightarrow> s \<noteq> [] \<and> s \<noteq> ''running''" "ended_text ''aborted''"
  using status_text.simps(5) unfolding ended_text_def
  by (auto elim!: status_text.elims)

lemma verdict_ended: "store_ok db \<Longrightarrow> verdict_of db r = Some s \<Longrightarrow> ended_text s"
proof -
  assume ok: "store_ok db" and "verdict_of db r = Some s"
  then obtain e where "e \<in> set (tr_events db)" "ev_kind e = ''run.ended''" "s = readEndedStatus (ev_payload e)"
    unfolding verdict_of_def by (auto dest!: already_ended_event simp: events_for_def)
  moreover then obtain k p where "event_kind_text k = ''run.ended''" "ev_payload e = Some p" "payload_ok k p"
    using store_okD(4) [OF ok] unfolding event_ok_def by metis
  moreover from this(1) have "k = RunEnded" by (metis event_kind_inject event_kind_text.simps(3))
  ultimately show "ended_text s" by (simp add: payload_ok_def)
qed

end
