(* ===== verification/Trace_Recovery.thy ===== *)
theory Trace_Recovery
  imports Trace_Laws
begin

text \<open>
  Startup recovery as one assignment to the two tables, and every operation of the store keeps the invariant.
\<close>

section \<open>Recovery is one update\<close>

lemma next_seq_fresh: "\<not> list_ex (\<lambda>e. event_key e = event_key (abort_event db now r)) (tr_events db)"
proof -
  have "event_key e \<noteq> (er_execution r, next_seq (events_for (er_execution r) db))" if "e \<in> set (tr_events db)" for e
  proof
    assume k: "event_key e = (er_execution r, next_seq (events_for (er_execution r) db))"
    with that have "e \<in> set (events_for (er_execution r) db)" by (simp add: events_for_def event_key_def)
    with next_seq_bound [OF this] k show False by (simp add: event_key_def)
  qed
  then show ?thesis by (auto simp: list_ex_iff abort_event_def event_key_def)
qed

lemma events_for_append: "events_for x (db \<lparr> tr_events := tr_events db @ es \<rparr>) = events_for x db @ filter (\<lambda>e. ev_execution e = x) es"
  by (simp add: events_for_def)

definition orphan_entry :: "TraceDb \<Rightarrow> EnterpriseRunRow \<Rightarrow> string \<times> nat \<times> string option" where
  "orphan_entry db r = (er_execution r, next_seq (events_for (er_execution r) db), verdict_of db r)"

definition closing :: "TraceDb \<Rightarrow> EnterpriseRunRow \<Rightarrow> string" where
  "closing db r = (case verdict_of db r of Some s \<Rightarrow> s | None \<Rightarrow> ''aborted'')"

text \<open>The tables once the orphans \<open>os\<close> are closed.\<close>

definition closed_runs :: "TraceDb \<Rightarrow> int \<Rightarrow> EnterpriseRunRow list \<Rightarrow> EnterpriseRunRow list \<Rightarrow> EnterpriseRunRow list" where
  "closed_runs db now os rs = map (\<lambda>r. case List.find (\<lambda>q. er_execution q = er_execution r) os of
     None \<Rightarrow> r | Some q \<Rightarrow> stamp (closing db q) now r) rs"

lemma closed_runs_Cons:
  assumes "er_execution q \<notin> er_execution ` set os"
  shows "closed_runs db now os (map (\<lambda>r. if er_execution r = er_execution q then stamp (closing db q) now r else r) rs)
    = closed_runs db now (q # os) rs"
proof -
  have "List.find (\<lambda>p. er_execution p = er_execution q) os = None"
    using assms by (auto simp: find_None_iff) (metis image_eqI)
  then show ?thesis by (auto simp: closed_runs_def)
qed

lemma close_orphan_eq:
  assumes "verdict_of db q \<noteq> Some []"
  shows "close_orphan now (orphan_entry db q) db = Inr \<lparr>
     tr_runs = map (\<lambda>r. if er_execution r = er_execution q then stamp (closing db q) now r else r) (tr_runs db),
     tr_events = tr_events db @ (if verdict_of db q = None then [abort_event db now q] else []) \<rparr>"
proof -
  have upd: "set_status (er_execution q) s now db = \<lparr> tr_runs = map (\<lambda>r. if er_execution r = er_execution q then stamp s now r else r) (tr_runs db),
      tr_events = tr_events db \<rparr>" for s
    by (simp add: set_status_def update_runs_def stamp_def)
  have ev: "insert_event (abort_event db now q) (\<lparr> tr_runs = rs, tr_events = tr_events db \<rparr>) = Inr (\<lparr> tr_runs = rs,
      tr_events = tr_events db @ [abort_event db now q] \<rparr>)" for rs
    using next_seq_fresh [of db now q] by (simp add: insert_event_def)
  have ae: "\<lparr> ev_execution = er_execution q, ev_seq = next_seq (events_for (er_execution q) db), ev_node = None,
      ev_kind = ''run.ended'', ev_payload = Some (JObj [(''status'', JStr ''aborted''), (''reason'', JStr RECOVERY_ABORT_REASON)]),
      ev_created = now \<rparr> = abort_event db now q" by (simp add: abort_event_def)
  show ?thesis
  proof (cases "verdict_of db q")
    case None
    then show ?thesis by (simp add: close_orphan_def orphan_entry_def upd closing_def Let_def ae ev)
  next
    case (Some s)
    with assms show ?thesis by (simp add: close_orphan_def orphan_entry_def upd closing_def Let_def)
  qed
qed

lemma orphan_entry_cong:
  assumes "events_for (er_execution r) db = events_for (er_execution r) db'"
  shows "verdict_of db r = verdict_of db' r" "orphan_entry db r = orphan_entry db' r" "closing db r = closing db' r"
    "abort_event db now r = abort_event db' now r"
  using assms by (simp_all add: verdict_of_def orphan_entry_def closing_def abort_event_def)

lemma close_orphans_eq:
  assumes "distinct (map er_execution os)" "\<And>q. q \<in> set os \<Longrightarrow> verdict_of db q \<noteq> Some []"
  shows "close_orphans now (map (orphan_entry db) os) db = Inr \<lparr> tr_runs = closed_runs db now os (tr_runs db),
     tr_events = tr_events db @ map (abort_event db now) (filter (\<lambda>r. verdict_of db r = None) os) \<rparr>"
  using assms
proof (induction os arbitrary: db)
  case Nil
  then show ?case by (simp add: closed_runs_def)
next
  case (Cons q os)
  define db' where "db' = \<lparr> tr_runs = map (\<lambda>r. if er_execution r = er_execution q then stamp (closing db q) now r else r) (tr_runs db),
     tr_events = tr_events db @ (if verdict_of db q = None then [abort_event db now q] else []) \<rparr>"
  have same: "events_for (er_execution p) db' = events_for (er_execution p) db" if "p \<in> set os" for p
    using that Cons.prems(1) by (auto simp: db'_def events_for_def abort_event_def)
  note cong = orphan_entry_cong [OF same]
  have first: "close_orphan now (orphan_entry db q) db = Inr db'"
    unfolding db'_def by (rule close_orphan_eq) (simp add: Cons.prems(2))
  have entries: "map (orphan_entry db) os = map (orphan_entry db') os" using cong(2) by simp
  have tails: "map (abort_event db' now) (filter (\<lambda>r. verdict_of db' r = None) os)
      = map (abort_event db now) (filter (\<lambda>r. verdict_of db r = None) os)"
    using cong(1,4) by (simp cong: filter_cong)
  have find: "closing db' p = closing db p" if "List.find (\<lambda>q. er_execution q = er_execution r) os = Some p" for r p
    using cong(3) find_Some_mem [OF that] by blast
  have closed: "closed_runs db' now os rs = closed_runs db now os rs" for rs
    unfolding closed_runs_def by (rule map_cong [OF refl]) (simp add: find split: option.split)
  have "close_orphans now (map (orphan_entry db') os) db' = Inr \<lparr> tr_runs = closed_runs db' now os (tr_runs db'),
     tr_events = tr_events db' @ map (abort_event db' now) (filter (\<lambda>r. verdict_of db' r = None) os) \<rparr>"
    using Cons.prems cong(1) by (intro Cons.IH) auto
  moreover have "closed_runs db now os (tr_runs db') = closed_runs db now (q # os) (tr_runs db)"
    unfolding db'_def using Cons.prems(1) closed_runs_Cons by auto
  moreover have "tr_events db' @ map (abort_event db now) (filter (\<lambda>r. verdict_of db r = None) os)
      = tr_events db @ map (abort_event db now) (filter (\<lambda>r. verdict_of db r = None) (q # os))"
    by (simp add: db'_def)
  moreover have "close_orphans now (map (orphan_entry db) (q # os)) db = close_orphans now (map (orphan_entry db') os) db'"
    unfolding entries [symmetric] using first by simp
  ultimately show ?case by (simp only: closed tails)
qed

lemma find_orphan:
  assumes "distinct (map er_execution rs)" "r \<in> set rs"
  shows "List.find (\<lambda>q. er_execution q = er_execution r) (filter P rs) = (if P r then Some r else None)"
  using assms by (induction rs) (auto simp: image_iff find_None_iff)

lemma recovery_eq:
  assumes ok: "store_ok db"
  shows "abortOrphanedEnterpriseRuns gone now db =
    Inr (length (filter (is_orphan gone) (tr_runs db)), recovered gone now db)"
proof -
  let ?os = "filter (is_orphan gone) (tr_runs db)"
  have entries: "orphans gone db = map (orphan_entry db) ?os"
    by (simp add: orphans_def orphan_entry_def verdict_of_def Let_def)
  have "distinct (map er_execution ?os)" using store_okD(1) [OF ok] by (rule distinct_map_filter)
  then have "close_orphans now (orphans gone db) db = Inr \<lparr> tr_runs = closed_runs db now ?os (tr_runs db),
     tr_events = tr_events db @ map (abort_event db now) (filter (\<lambda>r. verdict_of db r = None) ?os) \<rparr>"
    unfolding entries using verdict_ended [OF ok] ended_text_simps(1) by (intro close_orphans_eq) auto
  moreover have "closed_runs db now ?os (tr_runs db) = map (recovered_row gone now db) (tr_runs db)"
    unfolding closed_runs_def
    by (rule map_cong [OF refl]) (simp add: find_orphan [OF store_okD(1) [OF ok]] recovered_row_def closing_def)
  ultimately show ?thesis
    unfolding abortOrphanedEnterpriseRuns_def by (simp add: recovered_def entries conj_commute)
qed

lemma already_ended_None: "already_ended es = None \<longleftrightarrow> (\<forall>e \<in> set es. ev_kind e \<noteq> ''run.ended'')"
proof -
  have "fold (\<lambda>e acc. if ev_kind e = ''run.ended'' then Some (readEndedStatus (ev_payload e)) else acc) es a = None \<longleftrightarrow>
      a = None \<and> (\<forall>e \<in> set es. ev_kind e \<noteq> ''run.ended'')" for a
    by (induction es arbitrary: a) auto
  then show ?thesis unfolding already_ended_def by simp
qed

lemma recovered_idle: "(\<And>r. r \<in> set (tr_runs db) \<Longrightarrow> \<not> is_orphan gone r) \<Longrightarrow> recovered gone now db = db"
  by (simp add: recovered_def recovered_row_def map_idI)

section \<open>Every operation keeps the invariant\<close>

lemma closing_ended: "store_ok db \<Longrightarrow> ended_text (closing db r)"
  using verdict_ended ended_text_simps(2) by (auto simp: closing_def split: option.split)

lemma recovered_row_simps [simp]:
  "er_execution (recovered_row gone now db r) = er_execution r" "er_sessionKey (recovered_row gone now db r) = er_sessionKey r"
  "er_agent (recovered_row gone now db r) = er_agent r" "er_resume (recovered_row gone now db r) = er_resume r"
  by (simp_all add: recovered_row_def stamp_def)

lemma recovered_row_ok:
  assumes "store_ok db" "row_ok r"
  shows "row_ok (recovered_row gone now db r)"
proof (cases "is_orphan gone r")
  case True
  obtain s where "s \<noteq> StRunning" "closing db r = status_text s"
    using closing_ended [OF assms(1)] unfolding ended_text_def by blast
  moreover have "recovered_row gone now db r = stamp (closing db r) now r"
    using True by (simp add: recovered_row_def closing_def)
  ultimately show ?thesis using assms(2) by (auto simp: row_ok_def stamp_def)
qed (use assms(2) in \<open>simp add: recovered_row_def\<close>)

lemma abort_event_ok: "event_ok (abort_event db now r)"
  unfolding event_ok_def
  by (rule exI [of _ RunEnded]) (simp add: abort_event_def payload_ok_def readEndedStatus_def parse_payload_def ended_text_simps(2))

lemma recovered_ok:
  assumes ok: "store_ok db"
  shows "store_ok (recovered gone now db)"
proof -
  note d = store_okD [OF ok]
  let ?new = "filter (\<lambda>r. is_orphan gone r \<and> verdict_of db r = None) (tr_runs db)"
  have keys: "map event_key (map (abort_event db now) ?new)
      = map (\<lambda>r. (er_execution r, next_seq (events_for (er_execution r) db))) ?new"
    by (simp add: abort_event_def event_key_def)
  have "distinct (map er_execution ?new)" using d(1) by (rule distinct_map_filter)
  then have "distinct (map event_key (map (abort_event db now) ?new))"
    unfolding keys by (auto simp: distinct_map inj_on_def)
  moreover have "event_key e \<noteq> event_key (abort_event db now r)" if "e \<in> set (tr_events db)" for e r
    using next_seq_fresh [of db now r] that by (auto simp: list_ex_iff)
  ultimately have "distinct (map event_key (tr_events (recovered gone now db)))"
    using d(2) by (auto simp: recovered_def) metis
  moreover have "one_marker (recovered gone now db)"
    by (rule one_marker_map [OF d(5), where f = "recovered_row gone now db"]) (simp_all add: recovered_def)
  moreover have "distinct (map er_execution (tr_runs (recovered gone now db)))"
    using d(1) by (simp add: recovered_def comp_def)
  ultimately show ?thesis
    using d(3,4) recovered_row_ok [OF ok] abort_event_ok by (auto simp: store_ok_def recovered_def)
qed

lemma row_of: "store_ok db \<Longrightarrow> r \<in> set (tr_runs db) \<Longrightarrow> s \<in> set (tr_runs db) \<Longrightarrow> er_execution r = er_execution s \<Longrightarrow> r = s"
  using store_okD(1) by (metis distinct_map inj_onD)

definition armed_row :: "EnterpriseRunRow \<Rightarrow> int \<Rightarrow> EnterpriseRunRow \<Rightarrow> EnterpriseRunRow" where
  "armed_row row armedAt r = (if er_execution r = er_execution row then r \<lparr> er_resume := Some armedAt \<rparr>
     else if er_resume r \<noteq> None \<and> in_lane (er_sessionKey row) (er_agent row) r then r \<lparr> er_resume := None \<rparr> else r)"

lemma arm_marker_runs: "tr_runs (arm_marker row armedAt db) = map (armed_row row armedAt) (tr_runs db)"
  by (simp add: arm_marker_def armed_row_def)

lemma armed_row_simps [simp]:
  "er_execution (armed_row row t r) = er_execution r" "er_sessionKey (armed_row row t r) = er_sessionKey r"
  "er_agent (armed_row row t r) = er_agent r" "er_status (armed_row row t r) = er_status r"
  "er_ended (armed_row row t r) = er_ended r" "er_sessionId (armed_row row t r) = er_sessionId r"
  "er_tree (armed_row row t r) = er_tree r" "er_created (armed_row row t r) = er_created r" "er_plan (armed_row row t r) = er_plan r"
  by (simp_all add: armed_row_def)

lemma arm_marker_ok:
  assumes ok: "store_ok db" and row: "row \<in> set (tr_runs db)" and live: "opt_list (er_sessionKey row) \<noteq> []" "er_status row \<noteq> ''running''"
  shows "store_ok (arm_marker row armedAt db)"
proof -
  note d = store_okD [OF ok]
  have self: "r = row" if "r \<in> set (tr_runs db)" "er_execution r = er_execution row" for r
    using row_of [OF ok that(1) row that(2)] .
  have rows: "row_ok (armed_row row armedAt r)" if "r \<in> set (tr_runs db)" for r
    using d(3) [OF that] self [OF that] live by (auto simp: row_ok_def armed_row_def)
  have "one_marker (arm_marker row armedAt db)"
  proof (rule one_markerI)
    fix r' s'
    assume "r' \<in> set (tr_runs (arm_marker row armedAt db))" "s' \<in> set (tr_runs (arm_marker row armedAt db))"
    then obtain r s where rs: "r \<in> set (tr_runs db)" "s \<in> set (tr_runs db)"
      and r': "r' = armed_row row armedAt r" "s' = armed_row row armedAt s" unfolding arm_marker_runs set_map by blast
    assume m: "er_resume r' \<noteq> None" "er_resume s' \<noteq> None" "er_sessionKey s' = er_sessionKey r'" "er_agent s' = er_agent r'"
    then have lane: "er_sessionKey s = er_sessionKey r" "er_agent s = er_agent r" unfolding r' by simp_all
    show "er_execution s' = er_execution r'"
    proof (cases "er_execution r = er_execution row \<or> er_execution s = er_execution row")
      case True
      then have "r = row \<or> s = row" using self rs by blast
      then show ?thesis using m(1,2) lane unfolding r' by (auto simp: armed_row_def in_lane_def split: if_splits)
    next
      case False
      then have "er_resume r \<noteq> None" "er_resume s \<noteq> None" using m(1,2) unfolding r' by (auto simp: armed_row_def split: if_splits)
      with one_markerD [OF d(5) rs] lane show ?thesis unfolding r' by simp
    qed
  qed
  moreover have "map er_execution (tr_runs (arm_marker row armedAt db)) = map er_execution (tr_runs db)"
    by (simp add: arm_marker_runs)
  moreover have "tr_events (arm_marker row armedAt db) = tr_events db" by (simp add: arm_marker_def)
  moreover have "row_ok r" if "r \<in> set (tr_runs (arm_marker row armedAt db))" for r
    using that rows unfolding arm_marker_runs by auto
  ultimately show ?thesis using d(1,2,4) unfolding store_ok_def by simp
qed

lemma refusal_None:
  "enterpriseRunResumeRefusal status key sid plan completed = None \<longleftrightarrow>
     status \<noteq> ''running'' \<and> opt_list key \<noteq> [] \<and> opt_list sid \<noteq> [] \<and> completed \<noteq> []
     \<and> opt_list (firstUnfinishedStep (enterpriseStepSequence plan) completed) \<noteq> []"
  by (simp add: enterpriseRunResumeRefusal_def)

text \<open>A request changes the database only when it is accepted.\<close>

definition accepts_resume :: "string \<Rightarrow> string \<Rightarrow> string option \<Rightarrow> TraceDb \<Rightarrow> EnterpriseRunRow \<Rightarrow> bool" where
  "accepts_resume x expected active db row \<longleftrightarrow> List.find (\<lambda>r. er_execution r = x) (tr_runs db) = Some row
     \<and> (\<exists>completed. completedNodeIdsFor db x = Inr completed
         \<and> enterpriseRunResumeRefusal (er_status row) (er_sessionKey row) (er_sessionId row) (er_plan row) completed = None)
     \<and> er_sessionId row = Some expected \<and> active = Some expected
     \<and> \<not> enterpriseRunTranscriptRotated (er_sessionKey row) (er_sessionId row) (er_agent row) (er_created row) db"

lemma request_cases:
  "requestEnterpriseRunResume x expected active now db = Inr (answer, db') \<Longrightarrow>
   (\<exists>row. accepts_resume x expected active db row \<and> answer = ResumeOk (opt_list (er_sessionKey row)) (er_tree row)
      \<and> db' = arm_marker row now db)
   \<or> ((\<nexists>row. accepts_resume x expected active db row) \<and> db' = db \<and> (\<exists>reason. answer = ResumeRefused reason))"
  unfolding requestEnterpriseRunResume_def accepts_resume_def
  by (cases "List.find (\<lambda>r. er_execution r = x) (tr_runs db)"; cases "completedNodeIdsFor db x")
    (auto split: option.splits if_splits)

lemma accepts_resumeD:
  assumes "accepts_resume x expected active db row"
  shows "row \<in> set (tr_runs db)" "er_execution row = x" "opt_list (er_sessionKey row) \<noteq> []" "er_status row \<noteq> ''running''"
    "er_sessionId row = Some expected"
  using assms find_Some_mem by (fastforce simp: accepts_resume_def refusal_None)+

lemma request_ok:
  "store_ok db \<Longrightarrow> requestEnterpriseRunResume x expected active now db = Inr (answer, db') \<Longrightarrow> store_ok db'"
  by (drule request_cases) (elim disjE exE conjE, simp_all add: arm_marker_ok accepts_resumeD)

lemma take_ok:
  assumes ok: "store_ok db" and took: "takeEnterpriseRunResume params db = Inr (answer, db')"
  shows "store_ok db'"
proof -
  have "store_ok (update_runs (\<lambda>r. er_execution r = x) (\<lambda>r. r \<lparr> er_resume := None \<rparr>) db)" for x
    by (rule update_runs_ok [OF ok]) (auto simp: row_ok_def in_lane_def)
  with ok took show ?thesis by (auto simp: takeEnterpriseRunResume_def Let_def split: list.splits)
qed

lemma trace_perform_ok:
  assumes ok: "store_ok db" and adm: "trace_admissible db op"
  shows "store_ok (trace_perform op db)"
proof (cases op)
  case (StartTrace params owner now)
  have "store_ok db'" if "persistEnterpriseRunStart params owner now db = Inr db'" for db'
    using that unfolding persistEnterpriseRunStart_def Let_def
    by (rule insert_run_ok [OF ok, rotated 2]) (auto simp: row_ok_def intro!: exI [of _ StRunning])
  with ok StartTrace show ?thesis by (auto simp: commit_def split: sum.split)
next
  case (AppendTrace event)
  have "store_ok db'" if "appendEnterpriseRunEvent event db = Inr db'" for db'
    using that unfolding appendEnterpriseRunEvent_def
    by (rule insert_event_ok(1) [OF ok, rotated]) (use adm AppendTrace in \<open>auto simp: event_ok_def\<close>)
  with ok AppendTrace show ?thesis by (auto simp: commit_def split: sum.split)
next
  case (UpdatePlan x plan now)
  then show ?thesis unfolding UpdatePlan trace_perform.simps updateEnterpriseRunPlan_def
    by (intro update_runs_ok [OF ok]) (auto simp: row_ok_def in_lane_def)
next
  case (FinalizeTrace x status now)
  then show ?thesis using adm by (auto simp: finalizeEnterpriseRun_def ended_text_def intro!: set_status_ok [OF ok])
next
  case (RecoverTrace gone now)
  then show ?thesis using recovery_eq [OF ok] recovered_ok [OF ok] by (simp add: commit_def)
next
  case (MoveTranscript x s now)
  then show ?thesis unfolding MoveTranscript trace_perform.simps updateEnterpriseRunSessionId_def
    by (intro update_runs_ok [OF ok]) (auto simp: row_ok_def in_lane_def)
next
  case (RequestResume x expected active now)
  then show ?thesis using ok request_ok [OF ok] by (auto simp: commit_def split: sum.split)
next
  case (TakeResume params)
  then show ?thesis using ok take_ok [OF ok] by (auto simp: commit_def split: sum.split)
qed

interpretation traces: guarded_system store_ok trace_admissible trace_perform
  by unfold_locales (rule trace_perform_ok)

section \<open>What recovery leaves\<close>

lemma recovered_runs: "tr_runs (recovered gone now db) = map (recovered_row gone now db) (tr_runs db)"
  by (simp add: recovered_def)

lemma verdict_None: "verdict_of db r = None \<longleftrightarrow> (\<forall>e \<in> set (events_for (er_execution r) db). ev_kind e \<noteq> ''run.ended'')"
  unfolding verdict_of_def by (rule already_ended_None)

lemma no_orphans_left:
  assumes "store_ok db" "r \<in> set (tr_runs (recovered gone now db))"
  shows "\<not> is_orphan gone r"
  using assms closing_ended [OF assms(1)] ended_text_simps(1)
  by (auto simp: recovered_runs recovered_row_def is_orphan_def stamp_def closing_def [symmetric])

lemma recovered_events:
  assumes ok: "store_ok db" and r: "r \<in> set (tr_runs db)"
  shows "events_for (er_execution r) (recovered gone now db) = events_for (er_execution r) db @
      (if is_orphan gone r \<and> verdict_of db r = None then [abort_event db now r] else [])"
proof -
  have "filter (\<lambda>q. er_execution q = er_execution r) (filter P (tr_runs db)) = filter P (filter (\<lambda>q. er_execution q = er_execution r) (tr_runs db))" for P
    by (simp add: conj_commute)
  also have "filter P (filter (\<lambda>q. er_execution q = er_execution r) (tr_runs db)) = (if P r then [r] else [])" for P
    unfolding filter_key [OF store_okD(1) [OF ok] r] by simp
  finally have "filter (\<lambda>q. er_execution q = er_execution r) (filter P (tr_runs db)) = (if P r then [r] else [])" for P .
  then show ?thesis by (simp add: recovered_def events_for_def filter_map comp_def abort_event_def del: filter_filter)
qed

text \<open>A closed run has one event that ends it, and its status is the one the event gives.\<close>

lemma recovered_closed:
  assumes ok: "store_ok db" and r: "r \<in> set (tr_runs db)" "is_orphan gone r"
  shows "\<exists>r' \<in> set (tr_runs (recovered gone now db)). er_execution r' = er_execution r \<and> er_ended r' = Some now
    \<and> (\<exists>e \<in> set (events_for (er_execution r) (recovered gone now db)).
         ev_kind e = ''run.ended'' \<and> er_status r' = readEndedStatus (ev_payload e))"
proof (rule bexI [of _ "recovered_row gone now db r"])
  let ?r' = "recovered_row gone now db r"
  show "?r' \<in> set (tr_runs (recovered gone now db))" using r(1) by (simp add: recovered_runs)
  have row: "er_ended ?r' = Some now" "er_status ?r' = closing db r"
    using r(2) by (simp_all add: recovered_row_def stamp_def closing_def)
  have "\<exists>e \<in> set (events_for (er_execution r) (recovered gone now db)). ev_kind e = ''run.ended'' \<and> closing db r = readEndedStatus (ev_payload e)"
  proof (cases "verdict_of db r")
    case None
    then have "abort_event db now r \<in> set (events_for (er_execution r) (recovered gone now db))"
      using r(2) by (simp add: recovered_events [OF ok r(1)])
    then show ?thesis
      by (rule bexI [rotated]) (simp add: None closing_def abort_event_def readEndedStatus_def parse_payload_def)
  next
    case (Some s)
    then show ?thesis using already_ended_event [of "events_for (er_execution r) db" s]
      by (auto simp: recovered_events [OF ok r(1)] closing_def verdict_of_def)
  qed
  with row show "er_execution ?r' = er_execution r \<and> er_ended ?r' = Some now
    \<and> (\<exists>e \<in> set (events_for (er_execution r) (recovered gone now db)). ev_kind e = ''run.ended'' \<and> er_status ?r' = readEndedStatus (ev_payload e))"
    by simp
qed

end
