(* ===== verification/Trace_Properties.thy ===== *)
theory Trace_Properties
  imports Trace_Recovery Sample_Data
begin

text \<open>
  What holds of the durable trace whichever processes write it: reads never fail, at most one continuation is
  pending in an agent lane and it is consumed once, recovery closes exactly the runs whose process is gone,
  and the answer an operator sees is the answer a request gets.
\<close>

section \<open>Reads\<close>

lemma row_readable: "row_ok r \<Longrightarrow> \<exists>rec. rowToRunRecord r = Inr rec \<and> (rr_endedAt rec = None \<longleftrightarrow> rr_status rec = StRunning)"
  by (auto simp: row_ok_def rowToRunRecord_def)

lemma rows_readable:
  assumes "store_ok db" "set rs \<subseteq> set (tr_runs db)"
  shows "\<exists>recs. map_rows rowToRunRecord rs = Inr recs"
  using assms row_readable store_okD(3) by (intro map_rows_total) blast

lemma first_row_readable: "store_ok db \<Longrightarrow> set rs \<subseteq> set (tr_runs db) \<Longrightarrow> \<exists>rec. first_row rs = Inr rec"
  using row_readable store_okD(3) by (fastforce simp: first_row_def split: list.split)

lemma event_readable: "event_ok e \<Longrightarrow> \<exists>rec. rowToEventRecord e = Inr rec \<and> re_seq rec = ev_seq e"
  by (auto simp: event_ok_def rowToEventRecord_def parse_payload_def)

lemma sorted_seqs: "sorted (map ev_seq (order_by seq_before es))"
proof -
  have "sorted_wrt seq_before (order_by seq_before es)" by (rule order_by_sorted) (auto simp: seq_before_def)
  then show ?thesis by (simp add: seq_before_def [abs_def] sorted_map)
qed

lemma distinct_seqs: "store_ok db \<Longrightarrow> distinct (map ev_seq (events_for x db))"
proof -
  assume "store_ok db"
  then have "distinct (map event_key (events_for x db))"
    unfolding events_for_def by (intro distinct_map_filter store_okD(2))
  then show ?thesis by (auto simp: distinct_map inj_on_def events_for_def event_key_def)
qed

lemma events_readable:
  assumes ok: "store_ok db"
  shows "\<exists>es. listEnterpriseRunEvents x db = Inr es \<and> map re_seq es = map ev_seq (order_by seq_before (events_for x db))"
proof -
  have each: "\<exists>rec. rowToEventRecord e = Inr rec" if "e \<in> set (order_by seq_before (events_for x db))" for e
    using that event_readable store_okD(4) [OF ok] by (fastforce simp: events_for_def)
  have "\<exists>es. listEnterpriseRunEvents x db = Inr es"
    unfolding listEnterpriseRunEvents_def using each by (rule map_rows_total)
  then obtain es where es: "listEnterpriseRunEvents x db = Inr es" by blast
  then have "list_all2 (\<lambda>e rec. rowToEventRecord e = Inr rec) (order_by seq_before (events_for x db)) es"
    unfolding listEnterpriseRunEvents_def by (rule map_rows_Inr)
  then have "map re_seq es = map ev_seq (order_by seq_before (events_for x db))"
    by (induction rule: list_all2_induct) (auto simp: rowToEventRecord_def)
  with es show ?thesis by blast
qed

text \<open>Replaying never throws on the payloads the program writes.\<close>

lemma replay_total:
  "(\<And>t. t \<in> set ts \<Longrightarrow> \<exists>entries. tp_payload t = JObj entries) \<Longrightarrow> \<exists>completed. replay_events ts start = Inr completed"
proof (induction ts arbitrary: start)
  case (Cons t ts)
  from Cons.prems obtain entries where "tp_payload t = JObj entries" by (meson list.set_intros(1))
  then have "\<exists>next_start. replay_event t start = Inr next_start" by (simp add: replay_event_def)
  then obtain next_start where n: "replay_event t start = Inr next_start" by blast
  obtain completed where "replay_events ts next_start = Inr completed" using Cons by (meson list.set_intros(2))
  with n show ?case by simp
qed simp

lemma step_trace_ok:
  assumes "event_ok e"
  obtains p where "ev_payload e = Some (JObj p)" "step_trace e = Inr \<lparr> tp_kind = ev_kind e, tp_node = ev_node e, tp_payload = JObj p \<rparr>"
  using assms by (auto simp: event_ok_def step_trace_def parse_payload_def payload_ok_def)

lemma completed_total:
  assumes ok: "store_ok db"
  shows "\<exists>completed. completedNodeIdsFor db x = Inr completed"
proof -
  let ?rows = "order_by seq_before (filter moves_steps (events_for x db))"
  have ok: "event_ok e" if "e \<in> set ?rows" for e
    using that store_okD(4) [OF ok] by (auto simp: events_for_def)
  have "\<exists>t. step_trace e = Inr t" if "e \<in> set ?rows" for e using step_trace_ok [OF ok [OF that]] by metis
  then have "\<exists>ts. map_rows step_trace ?rows = Inr ts" by (rule map_rows_total)
  then obtain ts where ts: "map_rows step_trace ?rows = Inr ts" by blast
  have "\<exists>entries. tp_payload t = JObj entries" if "t \<in> set ts" for t
  proof -
    from list_all2_set2 [OF map_rows_Inr [OF ts]] that obtain e where e: "e \<in> set ?rows" "step_trace e = Inr t" by blast
    from ok [OF e(1)] show ?thesis by (rule step_trace_ok) (use e(2) in auto)
  qed
  then have "\<exists>completed. replay_events ts [] = Inr completed" by (rule replay_total)
  then show ?thesis by (simp add: completedNodeIdsFor_def ts cumulativeCompletedNodeIds_def)
qed

section \<open>A concrete history\<close>

text \<open>A run that closed its first step before its process disappeared, recovered and asked to be continued.\<close>

definition trace_plan :: EnterpriseRunPlan where
  "trace_plan = sample_plan \<lparr> nodes := flattenPlanNodes (tree_root sample_tree) None \<rparr>"

definition trace_event :: "nat \<Rightarrow> string option \<Rightarrow> EnterpriseRunEventKind \<Rightarrow> EnterpriseRunEventRecord" where
  "trace_event n node kind = \<lparr> re_executionId = ''e1'', re_seq = n, re_nodeId = node, re_kind = kind, re_payload = JObj [],
     re_createdAt = 5 \<rparr>"

definition trace_start :: TraceStart where
  "trace_start = \<lparr> ts_execution = ''e1'', ts_plan = trace_plan, ts_sessionKey = Some ''lane'', ts_sessionId = Some ''s1'',
     ts_agentId = None, ts_chatVisible = None \<rparr>"

definition trace_history :: "TraceOp list" where
  "trace_history = [StartTrace trace_start ''7:100'' 5, AppendTrace (trace_event 0 None RunStarted),
     AppendTrace (trace_event 1 (Some ''intake'') NodeCompletedKind)]"

definition trace_db :: TraceDb where
  "trace_db = fold trace_perform trace_history empty_trace"

lemma trace_db_reached: "run_ops trace_admissible trace_perform trace_history empty_trace = Some trace_db"
  by (simp add: trace_history_def trace_db_def trace_event_def payload_ok_def)

definition recovered_trace :: TraceDb where
  "recovered_trace = trace_perform (RequestResume ''e1'' ''s1'' (Some ''s1'') 30) (trace_perform (RecoverTrace (\<lambda>t. t = ''7:100'') 20) trace_db)"

lemma recovered_trace_reached:
  "run_ops trace_admissible trace_perform (trace_history @ [RecoverTrace (\<lambda>t. t = ''7:100'') 20, RequestResume ''e1'' ''s1'' (Some ''s1'') 30])
     empty_trace = Some recovered_trace"
  by (simp add: run_ops_append trace_db_reached recovered_trace_def)

section \<open>Properties of the trace\<close>

text \<open>
  C22. Whatever sequence of operations any number of processes performs on the trace, every read of it succeeds:
  each row has a status and each event a kind the program knows, no two rows share a key, an execution has an
  end time exactly when it is not running, its events come in strictly ascending order, and the steps it
  finished can be replayed.
\<close>

theorem traces_stay_readable:
  assumes "run_ops trace_admissible trace_perform ops empty_trace = Some db"
  shows "(\<exists>recs. listEnterpriseRunRecords params db = Inr recs) \<and> (\<exists>recs. listEnterpriseRunExecutions i db = Inr recs)
    \<and> (\<exists>rec. getEnterpriseRunRecord i db = Inr rec) \<and> (\<exists>rec. getEnterpriseRunRecordByExecutionId x db = Inr rec)
    \<and> (\<exists>es. listEnterpriseRunEvents x db = Inr es \<and> sorted_wrt (<) (map re_seq es))
    \<and> (\<exists>completed. completedNodeIdsFor db x = Inr completed)
    \<and> distinct (map er_execution (tr_runs db))
    \<and> (\<forall>r \<in> set (tr_runs db). \<exists>rec. rowToRunRecord r = Inr rec \<and> (rr_endedAt rec = None \<longleftrightarrow> rr_status rec = StRunning))"
proof -
  have ok: "store_ok db" using traces.run_keeps [OF empty_trace_ok assms] .
  have "\<exists>recs. listEnterpriseRunRecords params db = Inr recs" "\<exists>recs. listEnterpriseRunExecutions i db = Inr recs"
    unfolding listEnterpriseRunRecords_def listEnterpriseRunExecutions_def
    by (rule rows_readable [OF ok], use set_take_subset in fastforce)+
  moreover have "\<exists>rec. getEnterpriseRunRecord i db = Inr rec" "\<exists>rec. getEnterpriseRunRecordByExecutionId x db = Inr rec"
    unfolding getEnterpriseRunRecord_def getEnterpriseRunRecordByExecutionId_def
    by (rule first_row_readable [OF ok], use set_take_subset in fastforce)+
  moreover obtain es where "listEnterpriseRunEvents x db = Inr es" and es: "map re_seq es = map ev_seq (order_by seq_before (events_for x db))"
    using events_readable [OF ok] by blast
  moreover have "sorted_wrt (<) (map re_seq es)"
    unfolding es strict_sorted_iff using sorted_seqs distinct_seqs [OF ok] by simp
  ultimately show ?thesis
    using completed_total [OF ok] store_okD(1,3) [OF ok] row_readable by blast
qed

theorem traces_stay_readable_witness:
  "(\<exists>es. listEnterpriseRunEvents ''e1'' recovered_trace = Inr es \<and> sorted_wrt (<) (map re_seq es))
   \<and> map ev_seq (tr_events recovered_trace) = [0, 1, 2]"
proof -
  have "map ev_seq (tr_events recovered_trace) = [0, 1, 2]" by code_simp
  then show ?thesis using traces_stay_readable [OF recovered_trace_reached] by blast
qed

text \<open>
  C23. A pending continuation is consumed once, by the turn it was meant for. What a claim takes is the only
  pending run of its agent lane; the run has ended, ran against the claim's transcript and tree, finished a step, and was armed
  before the claim's turn began. Afterwards no claim of that lane takes anything, until an operator asks again.
\<close>

theorem resume_is_one_shot:
  assumes "run_ops trace_admissible trace_perform ops empty_trace = Some db"
    and took: "takeEnterpriseRunResume params db = Inr (Some (x, completed), db')"
  shows "\<exists>row \<in> set (tr_runs db). er_execution row = x \<and> er_status row \<noteq> ''running''
      \<and> er_sessionKey row = Some (rc_sessionKey params) \<and> er_sessionId row = Some (rc_sessionId params)
      \<and> er_tree row = rc_treeId params \<and> er_agent row = rc_agentId params
      \<and> (\<exists>armedAt. er_resume row = Some armedAt \<and> armedAt < rc_startedAt params)
      \<and> completedNodeIdsFor db x = Inr completed \<and> completed \<noteq> []
      \<and> (\<forall>s \<in> set (tr_runs db). er_resume s \<noteq> None \<and> er_sessionKey s = er_sessionKey row \<and> er_agent s = er_agent row \<longrightarrow> s = row)
      \<and> (\<forall>other. rc_sessionKey other = rc_sessionKey params \<and> rc_agentId other = rc_agentId params \<longrightarrow>
           takeEnterpriseRunResume other db' = Inr (None, db'))"
proof -
  have ok: "store_ok db" using traces.run_keeps [OF empty_trace_ok assms(1)] .
  let ?clear = "\<lambda>y. update_runs (\<lambda>r. er_execution r = y) (\<lambda>r. r \<lparr> er_resume := None \<rparr>) db"
  from took obtain row rest where r: "take 1 (order_by created_before (filter (claim_matches params) (tr_runs db))) = row # rest"
    and x: "x = er_execution row" "db' = ?clear x" "completed \<noteq> []" "completedNodeIdsFor (?clear x) x = Inr completed"
    by (auto simp: takeEnterpriseRunResume_def Let_def split: list.splits if_splits)
  from r have "row \<in> set (order_by created_before (filter (claim_matches params) (tr_runs db)))"
    by (metis in_set_takeD list.set_intros(1))
  then have row: "row \<in> set (tr_runs db)" "claim_matches params row" by auto
  have completed: "completedNodeIdsFor db x = Inr completed" using x(4) by (simp add: completedNodeIdsFor_def)
  from row(2) obtain armedAt where armed: "er_resume row = Some armedAt" "armedAt < rc_startedAt params"
    by (auto simp: claim_matches_def split: option.splits)
  have only: "s = row" if "s \<in> set (tr_runs db)" "er_resume s \<noteq> None" "er_sessionKey s = er_sessionKey row" "er_agent s = er_agent row" for s
    using one_markerD [OF store_okD(5) [OF ok] row(1) that(1)] that(2-4) armed row_of [OF ok that(1) row(1)] by simp
  have "takeEnterpriseRunResume other db' = Inr (None, db')"
    if "rc_sessionKey other = rc_sessionKey params" "rc_agentId other = rc_agentId params" for other
  proof -
    have "\<not> claim_matches other (if er_execution s = x then s \<lparr> er_resume := None \<rparr> else s)" if "s \<in> set (tr_runs db)" for s
      using only [OF that] row(2) \<open>rc_sessionKey other = _\<close> \<open>rc_agentId other = _\<close> x(1)
      by (auto simp: claim_matches_def split: option.splits)
    then have "filter (claim_matches other) (tr_runs db') = []"
      unfolding x(2) update_runs_simps filter_empty_conv set_map by blast
    then show ?thesis by (simp add: takeEnterpriseRunResume_def order_by_def)
  qed
  moreover have "er_status row \<noteq> ''running''" using store_okD(3) [OF ok row(1)] armed by (simp add: row_ok_def)
  ultimately show ?thesis
    using row(2) x(1,3) completed armed only by (intro bexI [OF _ row(1)]) (auto simp: claim_matches_def)
qed

definition trace_claim :: ResumeClaim where
  "trace_claim = \<lparr> rc_sessionKey = ''lane'', rc_sessionId = ''s1'', rc_agentId = None, rc_treeId = ''claims'', rc_startedAt = 31 \<rparr>"

theorem resume_is_one_shot_witness:
  "\<exists>db'. takeEnterpriseRunResume trace_claim recovered_trace = Inr (Some (''e1'', [''intake'']), db')
     \<and> takeEnterpriseRunResume trace_claim db' = Inr (None, db')"
proof -
  have "(case takeEnterpriseRunResume trace_claim recovered_trace of Inr (Some (x, c), db') \<Rightarrow> x = ''e1'' \<and> c = [''intake''] | _ \<Rightarrow> False)"
    by code_simp
  then obtain db' where t: "takeEnterpriseRunResume trace_claim recovered_trace = Inr (Some (''e1'', [''intake'']), db')"
    by (auto split: sum.splits prod.splits option.splits)
  from resume_is_one_shot [OF recovered_trace_reached this] show ?thesis using t by blast
qed

text \<open>
  C24. Startup recovery closes exactly the runs whose owner is gone and never contradicts a run's own record. It
  always succeeds; every other run and every event already recorded stays as it was; a run it closes has one
  event that ends it, the one the run wrote itself when there was one, its status is what that event says and its end time is set; and
  recovering again closes nothing.
\<close>

theorem recovery_closes_exactly_the_orphans:
  assumes "run_ops trace_admissible trace_perform ops empty_trace = Some db"
  shows "\<exists>db'. abortOrphanedEnterpriseRuns gone now db = Inr (length (filter (is_orphan gone) (tr_runs db)), db')
    \<and> map er_execution (tr_runs db') = map er_execution (tr_runs db)
    \<and> (\<forall>r \<in> set (tr_runs db). \<not> is_orphan gone r \<longrightarrow> r \<in> set (tr_runs db') \<and> events_for (er_execution r) db' = events_for (er_execution r) db)
    \<and> (\<forall>r \<in> set (tr_runs db). is_orphan gone r \<longrightarrow>
        (\<exists>r' \<in> set (tr_runs db'). er_execution r' = er_execution r \<and> er_ended r' = Some now
          \<and> (\<exists>e \<in> set (events_for (er_execution r) db'). ev_kind e = ''run.ended'' \<and> er_status r' = readEndedStatus (ev_payload e))
          \<and> ((\<exists>e \<in> set (events_for (er_execution r) db). ev_kind e = ''run.ended'') \<longrightarrow>
               events_for (er_execution r) db' = events_for (er_execution r) db)))
    \<and> abortOrphanedEnterpriseRuns gone now' db' = Inr (0, db')"
proof -
  have ok: "store_ok db" using traces.run_keeps [OF empty_trace_ok assms] .
  let ?db' = "recovered gone now db"
  note events = recovered_events [OF ok, where gone = gone and now = now]
  have "r \<in> set (tr_runs ?db')" if "r \<in> set (tr_runs db)" "\<not> is_orphan gone r" for r
    using that by (auto simp: recovered_runs recovered_row_def intro!: image_eqI [of _ _ r])
  moreover have "events_for (er_execution r) ?db' = events_for (er_execution r) db"
    if "r \<in> set (tr_runs db)" "\<not> is_orphan gone r \<or> (\<exists>e \<in> set (events_for (er_execution r) db). ev_kind e = ''run.ended'')" for r
    using that events [OF that(1)] verdict_None [of db r] by auto
  moreover have "map er_execution (tr_runs ?db') = map er_execution (tr_runs db)" by (simp add: recovered_runs)
  moreover have "abortOrphanedEnterpriseRuns gone now' ?db' = Inr (0, ?db')"
    using recovery_eq [OF recovered_ok [OF ok]] no_orphans_left [OF ok]
    by (simp add: recovered_idle filter_empty_conv [THEN iffD2] del: filter_False)
  ultimately show ?thesis
    using recovery_eq [OF ok, of gone now] recovered_closed [OF ok] by (intro exI [of _ ?db'] conjI ballI impI) blast+
qed

theorem recovery_witness:
  "\<exists>db'. abortOrphanedEnterpriseRuns (\<lambda>t. t = ''7:100'') 20 trace_db = Inr (1, db') \<and> abortOrphanedEnterpriseRuns (\<lambda>t. t = ''7:100'') 21 db' = Inr (0, db')"
proof -
  have "length (filter (is_orphan (\<lambda>t. t = ''7:100'')) (tr_runs trace_db)) = 1" by code_simp
  with recovery_closes_exactly_the_orphans [OF trace_db_reached, where gone = "\<lambda>t. t = ''7:100''" and now = 20 and now' = 21]
  show ?thesis by auto
qed

section \<open>Owners\<close>

lemma show_nat_digits: "show_nat n \<noteq> [] \<and> list_all is_digit (show_nat n)"
proof (induction n rule: show_nat.induct)
  case (1 n)
  have digit: "d < 10 \<Longrightarrow> is_digit (''0123456789'' ! d)" for d :: nat
    by (auto simp: is_digit_def less_Suc_eq numeral_eq_Suc)
  show ?case
  proof (cases "n < 10")
    case True
    then show ?thesis using digit [of n] by (simp add: show_nat.simps [of n])
  next
    case False
    then show ?thesis using 1 digit [of "n mod 10"] by (simp add: show_nat.simps [of n])
  qed
qed

lemma digits_value_show_nat [simp]: "digits_value (show_nat n) = n"
proof (induction n rule: show_nat.induct)
  case (1 n)
  have digit: "d < 10 \<Longrightarrow> of_char (''0123456789'' ! d) - 48 = d" for d :: nat
    by (auto simp: less_Suc_eq numeral_eq_Suc)
  show ?case
  proof (cases "n < 10")
    case True
    then show ?thesis using digit [of n] by (simp add: show_nat.simps [of n] digits_value_def)
  next
    case False
    then have "digits_value (show_nat n) = 10 * digits_value (show_nat (n div 10)) + (of_char (''0123456789'' ! (n mod 10)) - 48)"
      by (simp add: show_nat.simps [of n] digits_value_def)
    also have "\<dots> = n" using 1 False digit [of "n mod 10"] by simp
    finally show ?thesis .
  qed
qed

lemma show_nat_inject [simp]: "show_nat m = show_nat n \<longleftrightarrow> m = n"
  by (metis digits_value_show_nat)

lemma digits_trim: "list_all is_digit s \<Longrightarrow> trim s = s"
proof -
  have "\<not> is_space c" if "is_digit c" for c
  proof -
    have "\<not> CHR ''0'' \<le> CHR 0x0D" "\<not> CHR ''0'' \<le> CHR '' ''" by code_simp+
    with that show ?thesis using order_trans by (fastforce simp: is_digit_def is_space_def)
  qed
  then have "list_all is_digit s \<Longrightarrow> dropWhile is_space s = s" for s by (cases s) auto
  then show "list_all is_digit s \<Longrightarrow> trim s = s" by (simp add: trim_def)
qed

lemma split_on_absent: "c \<notin> set s \<Longrightarrow> split_on c s = [s]"
  by (induction s) auto

lemma split_on_sep: "c \<notin> set s \<Longrightarrow> split_on c (s @ c # t) = s # split_on c t"
  by (induction s) auto

lemma digits_no_colon: "list_all is_digit s \<Longrightarrow> CHR '':'' \<notin> set s"
  by (auto simp: list_all_iff is_digit_def)

lemma token_gone:
  "isOwnerTokenGone pidDead startTime (currentOwnerToken startThen pid) \<longleftrightarrow>
     0 < pid \<and> (pidDead pid \<or> (\<exists>s t. startThen pid = Some s \<and> startTime pid = Some t \<and> s \<noteq> t))"
proof -
  define started where "started = (case startThen pid of None \<Rightarrow> [] | Some t \<Rightarrow> show_nat t)"
  have digits: "list_all is_digit started" using show_nat_digits by (auto simp: started_def split: option.split)
  have parts: "split_on (CHR '':'') (currentOwnerToken startThen pid) = [show_nat pid, started]"
    using split_on_sep [of "CHR '':''" "show_nat pid" started] split_on_absent [of "CHR '':''" started]
      digits_no_colon [of "show_nat pid"] digits_no_colon [OF digits] show_nat_digits [of pid]
    by (simp add: currentOwnerToken_def started_def)
  have pid: "owner_pid (show_nat pid) = Some pid"
    using show_nat_digits [of pid] by (simp add: owner_pid_def digits_trim)
  have "started = [] \<longleftrightarrow> startThen pid = None" using show_nat_digits by (auto simp: started_def split: option.splits)
  then show ?thesis using digits_trim [OF digits]
    by (auto simp: isOwnerTokenGone_def parts pid Let_def started_def split: option.splits)
qed

text \<open>
  Recovery never closes a live run. The token a process leaves on its runs is judged gone exactly when
  the pid is certainly dead, or belongs to a process that started at another time; so while the process that
  started a run is alive, however often others recover, its row and its events stay as they are.
\<close>

theorem live_runs_survive_recovery:
  assumes "run_ops trace_admissible trace_perform ops empty_trace = Some db"
    and "r \<in> set (tr_runs db)" "er_owner r = Some (currentOwnerToken startTime pid)"
    and alive: "\<not> pidDead pid"
    and "abortOrphanedEnterpriseRuns (isOwnerTokenGone pidDead startTime) now db = Inr (n, db')"
  shows "r \<in> set (tr_runs db') \<and> events_for (er_execution r) db' = events_for (er_execution r) db
    \<and> (isOwnerTokenGone pidDead startTime (currentOwnerToken startThen pid) \<longleftrightarrow>
       0 < pid \<and> (\<exists>s t. startThen pid = Some s \<and> startTime pid = Some t \<and> s \<noteq> t))"
proof -
  have ok: "store_ok db" using traces.run_keeps [OF empty_trace_ok assms(1)] .
  have "\<not> isOwnerTokenGone pidDead startTime (currentOwnerToken startTime pid)" using alive by (simp add: token_gone)
  then have live: "\<not> is_orphan (isOwnerTokenGone pidDead startTime) r" using assms(3) by (simp add: is_orphan_def)
  have db': "db' = recovered (isOwnerTokenGone pidDead startTime) now db" using assms(5) recovery_eq [OF ok] by simp
  have "r \<in> set (tr_runs db')" using assms(2) live unfolding db' recovered_runs
    by (auto simp: recovered_row_def intro!: image_eqI [of _ _ r])
  then show ?thesis using recovered_events [OF ok assms(2)] live alive token_gone by (simp add: db')
qed

theorem live_runs_survive_witness:
  "events_for ''e1'' (trace_perform (RecoverTrace (isOwnerTokenGone (\<lambda>p. p \<noteq> 7) (\<lambda>_. Some 100)) 20) trace_db) = events_for ''e1'' trace_db"
proof -
  have ok: "store_ok trace_db" using traces.run_keeps [OF empty_trace_ok trace_db_reached] .
  have "map er_execution (tr_runs trace_db) = [''e1''] \<and> map er_owner (tr_runs trace_db) = [Some ''7:100'']" by code_simp
  then obtain r where r: "r \<in> set (tr_runs trace_db)" "er_execution r = ''e1''" "er_owner r = Some ''7:100''" by auto
  have "currentOwnerToken (\<lambda>_. Some 100) 7 = ''7:100''" by code_simp
  with live_runs_survive_recovery [OF trace_db_reached r(1), where pid = 7 and startTime = "\<lambda>_. Some 100" and pidDead = "\<lambda>p. p \<noteq> 7" and now = 20]
    recovery_eq [OF ok, of "isOwnerTokenGone (\<lambda>p. p \<noteq> 7) (\<lambda>_. Some 100)" 20] r(2,3)
  show ?thesis by (simp add: commit_def)
qed

section \<open>What an operator is told\<close>

lemma record_of_execution:
  "getEnterpriseRunRecordByExecutionId x db = Inr (Some rec) \<longleftrightarrow>
     (\<exists>row. List.find (\<lambda>r. er_execution r = x) (tr_runs db) = Some row \<and> rowToRunRecord row = Inr rec)"
  by (auto simp: getEnterpriseRunRecordByExecutionId_def first_row_def find_head_filter split: list.splits)

text \<open>Events that do not move the steps leave the replay alone, so the narrowed query replays the whole log.\<close>

definition trace_of :: "EnterpriseRunEventRow \<Rightarrow> StepTrace" where
  "trace_of e = \<lparr> tp_kind = ev_kind e, tp_node = ev_node e, tp_payload = (case ev_payload e of Some p \<Rightarrow> p | None \<Rightarrow> JNull) \<rparr>"

lemma replay_narrowed: "replay_events (map trace_of es) c = replay_events (map trace_of (filter moves_steps es)) c"
proof (induction es arbitrary: c)
  case (Cons e es)
  have "replay_event (trace_of e) c = Inr c" if "\<not> moves_steps e"
    using that by (simp add: replay_event_def trace_of_def moves_steps_def)
  with Cons show ?case by (cases "replay_event (trace_of e) c") auto
qed simp

lemma completed_replay:
  assumes "store_ok db"
  shows "completedNodeIdsFor db x = replay_events (map trace_of (order_by seq_before (events_for x db))) []"
proof -
  let ?rows = "order_by seq_before (filter moves_steps (events_for x db))"
  have "filter moves_steps (order_by seq_before (events_for x db)) = ?rows"
    by (rule filter_order_by) (auto simp: seq_before_def)
  moreover have "step_trace e = Inr (trace_of e)" if "e \<in> set ?rows" for e
  proof -
    from that have "event_ok e" using store_okD(4) [OF assms] by (auto simp: events_for_def)
    then show ?thesis by (rule step_trace_ok) (simp add: trace_of_def)
  qed
  then have "map_rows step_trace ?rows = Inr (map trace_of ?rows)" by (rule map_rows_map)
  ultimately show ?thesis
    using replay_narrowed [of "order_by seq_before (events_for x db)" "[]"]
    by (simp add: completedNodeIdsFor_def cumulativeCompletedNodeIds_def)
qed

lemma listed_replay:
  assumes "store_ok db" "listEnterpriseRunEvents x db = Inr es"
  shows "cumulativeCompletedNodeIds (map event_trace es) = completedNodeIdsFor db x"
proof -
  have ok: "event_ok e" if "e \<in> set (order_by seq_before (events_for x db))" for e
    using that store_okD(4) [OF assms(1)] by (auto simp: events_for_def)
  have "list_all2 (\<lambda>e rec. rowToEventRecord e = Inr rec) (order_by seq_before (events_for x db)) es"
    using assms(2) unfolding listEnterpriseRunEvents_def by (rule map_rows_Inr)
  then have "map event_trace es = map trace_of (order_by seq_before (events_for x db))" using ok
  proof (induction rule: list_all2_induct)
    case (Cons e rest rec recs)
    have "event_ok e" using Cons.prems by simp
    then have "event_trace rec = trace_of e" using Cons.hyps(1)
      by (auto simp: event_ok_def rowToEventRecord_def parse_payload_def event_trace_def trace_of_def)
    with Cons show ?case by simp
  qed simp
  then show ?thesis by (simp add: cumulativeCompletedNodeIds_def completed_replay [OF assms(1)])
qed

lemma record_fields:
  assumes "rowToRunRecord row = Inr rec"
  shows "status_text (rr_status rec) = er_status row" "rr_sessionKey rec = er_sessionKey row" "rr_sessionId rec = er_sessionId row"
    "rr_agentId rec = er_agent row" "rr_plan rec = er_plan row" "rr_createdAt rec = er_created row"
    "rr_executionId rec = er_execution row"
  using assms find_Some_mem
  by (fastforce simp: rowToRunRecord_def parseRunStatus_def split: option.splits)+

lemma request_answer:
  assumes "List.find (\<lambda>r. er_execution r = x) (tr_runs db) = Some row" "completedNodeIdsFor db x = Inr completed"
  shows "requestEnterpriseRunResume x expected active now db = Inr
    (case enterpriseRunResumeRefusal (er_status row) (er_sessionKey row) (er_sessionId row) (er_plan row) completed of
       Some reason \<Rightarrow> (ResumeRefused reason, db)
     | None \<Rightarrow> if er_sessionId row \<noteq> Some expected \<or> er_sessionId row \<noteq> active
         then (ResumeRefused TranscriptRotated, db)
         else if enterpriseRunTranscriptRotated (er_sessionKey row) (er_sessionId row) (er_agent row) (er_created row) db
         then (ResumeRefused TranscriptRotated, db)
         else (ResumeOk (opt_list (er_sessionKey row)) (er_tree row), arm_marker row now db))"
  by (simp only: requestEnterpriseRunResume_def assms option.case bind_result.simps)

text \<open>
  The control an operator sees and the answer a request gets never disagree. The detail of a run offers to
  continue it exactly when the handler, called with the transcript the detail shows, arms it; otherwise the
  request is refused with the reason shown and changes nothing.
\<close>

theorem shown_refusal_is_the_answer:
  assumes "run_ops trace_admissible trace_perform ops empty_trace = Some db"
    and "getEnterpriseRunRecordByExecutionId x db = Inr (Some rec)" "listEnterpriseRunEvents x db = Inr es"
  shows "\<exists>detail answer db'. run_resume_detail loadSession rec es db = Inr detail
    \<and> resume_handler loadSession x (rr_sessionId rec) now db = Inr (answer, db')
    \<and> (case rd_refusal detail of
         None \<Rightarrow> (\<exists>key tree. answer = ResumeOk key tree \<and> Some key = rr_sessionKey rec)
       | Some reason \<Rightarrow> db' = db \<and> (opt_list (rr_sessionId rec) \<noteq> [] \<longrightarrow> answer = ResumeRefused reason)
           \<and> (\<exists>refused. answer = ResumeRefused refused))"
proof -
  have ok: "store_ok db" using traces.run_keeps [OF empty_trace_ok assms(1)] .
  from assms(2) obtain row where row: "List.find (\<lambda>r. er_execution r = x) (tr_runs db) = Some row" "rowToRunRecord row = Inr rec"
    by (auto simp: record_of_execution)
  note f = record_fields [OF row(2)]
  obtain completed where c: "completedNodeIdsFor db x = Inr completed" using completed_total [OF ok] by blast
  then have shown: "cumulativeCompletedNodeIds (map event_trace es) = Inr completed" using listed_replay [OF ok assms(3)] by simp
  let ?base = "enterpriseRunResumeRefusal (er_status row) (er_sessionKey row) (er_sessionId row) (er_plan row) completed"
  show ?thesis
  proof (cases "opt_list (er_sessionId row) = []")
    case True
    then have "?base \<noteq> None" by (simp add: refusal_None)
    with True shown assms(2) f show ?thesis by (auto simp: run_resume_detail_def resume_handler_def Let_def)
  next
    case False
    then obtain sid where sid: "er_sessionId row = Some sid" "sid \<noteq> []" by (cases "er_sessionId row") auto
    have "er_sessionKey row = Some (opt_list (er_sessionKey row))" if "?base = None"
      using that by (cases "er_sessionKey row") (auto simp: refusal_None)
    then show ?thesis using sid shown assms(2) f
      by (cases ?base) (auto simp: run_resume_detail_def resume_handler_def Let_def request_answer [OF row(1) c])
  qed
qed

theorem shown_refusal_witness:
  "\<exists>answer db'. resume_handler (\<lambda>_ _. Some ''s1'') ''e1'' (Some ''s1'') 40 recovered_trace = Inr (answer, db') \<and> answer = ResumeOk ''lane'' ''claims''"
proof -
  have "(case getEnterpriseRunRecordByExecutionId ''e1'' recovered_trace of Inr (Some rec) \<Rightarrow> rr_sessionKey rec = Some ''lane'' \<and> rr_sessionId rec = Some ''s1'' | _ \<Rightarrow> False)"
    by code_simp
  then obtain rec where rec: "getEnterpriseRunRecordByExecutionId ''e1'' recovered_trace = Inr (Some rec)" "rr_sessionKey rec = Some ''lane''" "rr_sessionId rec = Some ''s1''"
    by (auto split: sum.splits option.splits)
  have ok: "store_ok recovered_trace" using traces.run_keeps [OF empty_trace_ok recovered_trace_reached] .
  from events_readable [OF ok] obtain es where es: "listEnterpriseRunEvents ''e1'' recovered_trace = Inr es" by blast
  have "(case resume_handler (\<lambda>_ _. Some ''s1'') ''e1'' (Some ''s1'') 40 recovered_trace of Inr (ResumeOk k t, _) \<Rightarrow> t = ''claims'' | _ \<Rightarrow> False)" by code_simp
  with shown_refusal_is_the_answer [OF recovered_trace_reached rec(1) es, of "\<lambda>_ _. Some ''s1''" 40] rec(2,3)
  show ?thesis by (auto split: option.splits sum.splits prod.splits EnterpriseResumeRequest.splits)
qed

section \<open>The run list\<close>

text \<open>
  The run list is the newest page of the rows the filters select: filters apply before the limit, which is
  between 1 and 500 whatever is asked for. Records come newest first, each from a selected row, and a
  selected row is only left out when the page is full of records at least as new.
\<close>

theorem listing_is_the_newest_page:
  assumes "run_ops trace_admissible trace_perform ops empty_trace = Some db" "listEnterpriseRunRecords params db = Inr recs"
  shows "length recs = min (listing_limit params) (length (filter (listing_matches params) (tr_runs db)))
    \<and> 1 \<le> listing_limit params \<and> listing_limit params \<le> 500
    \<and> sorted_wrt (\<lambda>a b. rr_createdAt b \<le> rr_createdAt a) recs
    \<and> (\<forall>rec \<in> set recs. \<exists>row \<in> set (tr_runs db). listing_matches params row \<and> rowToRunRecord row = Inr rec)
    \<and> (\<forall>row \<in> set (tr_runs db). listing_matches params row \<longrightarrow>
        (\<exists>rec \<in> set recs. rowToRunRecord row = Inr rec)
        \<or> length recs = listing_limit params \<and> (\<forall>rec \<in> set recs. er_created row \<le> rr_createdAt rec))"
proof -
  define all where "all = newest_first (listing_matches params) db"
  let ?n = "listing_limit params"
  have pairs: "list_all2 (\<lambda>row rec. rowToRunRecord row = Inr rec) (take ?n all) recs"
    using assms(2) unfolding listEnterpriseRunRecords_def all_def by (rule map_rows_Inr)
  then have len: "length recs = min ?n (length all)" by (simp add: list_all2_lengthD [symmetric])
  have created: "map rr_createdAt recs = map er_created (take ?n all)"
    using pairs by (induction rule: list_all2_induct) (auto dest: record_fields(6))
  have sorted: "sorted_wrt newest_before (take ?n all @ drop ?n all)" by (simp add: all_def sorted_newest)
  have old: "er_created row \<le> er_created listed" if "listed \<in> set (take ?n all)" "row \<in> set (drop ?n all)" for listed row
    using that sorted by (force simp: sorted_wrt_append newest_before_def simp del: append_take_drop_id)
  have "sorted_wrt (\<lambda>a b. b \<le> a) (map er_created (take ?n all))"
    using sorted unfolding sorted_wrt_map sorted_wrt_append by (auto elim!: sorted_wrt_mono_rel [rotated] simp: newest_before_def)
  then have "sorted_wrt (\<lambda>a b. rr_createdAt b \<le> rr_createdAt a) recs" by (simp flip: created add: sorted_wrt_map)
  moreover have "\<exists>row \<in> set (tr_runs db). listing_matches params row \<and> rowToRunRecord row = Inr rec" if "rec \<in> set recs" for rec
    using list_all2_set2 [OF pairs that] by (auto simp: all_def dest!: in_set_takeD)
  moreover have "(\<exists>rec \<in> set recs. rowToRunRecord row = Inr rec)
      \<or> length recs = ?n \<and> (\<forall>rec \<in> set recs. er_created row \<le> rr_createdAt rec)"
    if "row \<in> set (tr_runs db)" "listing_matches params row" for row
  proof -
    from that have "row \<in> set (take ?n all @ drop ?n all)" by (simp add: all_def)
    then consider "row \<in> set (take ?n all)" | "row \<in> set (drop ?n all)" by (metis Un_iff set_append)
    then show ?thesis
    proof cases
      case 1
      then show ?thesis using pairs by (meson list_all2_set1)
    next
      case 2
      have "er_created row \<le> rr_createdAt rec" if "rec \<in> set recs" for rec
        using old [OF _ 2] created that by (metis (no_types, lifting) in_set_conv_nth length_map list.set_map nth_map rev_image_eqI)
      moreover have "length recs = ?n" using 2 len by (auto simp: min_def dest: length_pos_if_in_set)
      ultimately show ?thesis by blast
    qed
  qed
  moreover have "length all = length (filter (listing_matches params) (tr_runs db))" by (simp add: all_def newest_first_def)
  ultimately show ?thesis using len by (auto simp: listing_limit_def)
qed

theorem listing_witness:
  "\<exists>recs. listEnterpriseRunRecords \<lparr> ls_limit = Some 0, ls_sessionKey = Some ''lane'', ls_agentId = None, ls_chatVisibleOnly = Some True \<rparr> trace_db = Inr recs
     \<and> length recs = 1"
proof -
  let ?p = "\<lparr> ls_limit = Some 0, ls_sessionKey = Some ''lane'', ls_agentId = None, ls_chatVisibleOnly = Some True \<rparr>"
  have ok: "store_ok trace_db" using traces.run_keeps [OF empty_trace_ok trace_db_reached] .
  have "set (take (listing_limit ?p) (newest_first (listing_matches ?p) trace_db)) \<subseteq> set (tr_runs trace_db)"
    by (auto dest: in_set_takeD)
  from rows_readable [OF ok this] obtain recs where r: "listEnterpriseRunRecords ?p trace_db = Inr recs"
    by (auto simp: listEnterpriseRunRecords_def)
  have "min (listing_limit ?p) (length (filter (listing_matches ?p) (tr_runs trace_db))) = 1" by code_simp
  with listing_is_the_newest_page [OF trace_db_reached r] r show ?thesis by simp
qed

end
