(* ===== verification/Tree_Store.thy ===== *)
theory Tree_Store
  imports Tree_Schema Run_Plan Systems Table_Laws
begin

text \<open>
  The store of imported work-maps, \<^verbatim>\<open>src/enterprise/tree-store.sqlite.ts\<close>: the live definitions, their
  append-only revision history and the knowledge foundations a bundle inlined
  (\<^verbatim>\<open>src/enterprise/enterprise-knowledge-store.sqlite.ts\<close>), in one database with the object graph. A write
  transaction is one function. The text of \<open>definition_json\<close> is the definition it parses to, or text that is
  not JSON; every definition the program stores comes out of the schema, which fixes the order of its keys, so
  equal texts and equal definitions are the same. SHA-256 is a parameter, as is the first issue the schema
  library reports for a value whose fields are wrong.
\<close>

section \<open>Rows\<close>

datatype WorkflowTreeSourceFormat = FormatYaml | FormatJson

datatype DefinitionText = DefinitionOf WorkflowTreeDefinition | NotJson string

record EnterpriseTreeRow =
  wt_tree :: EnterpriseId
  wt_version :: string
  wt_name :: string
  wt_definition :: DefinitionText
  wt_format :: string
  wt_imported :: int
  wt_updated :: int

record EnterpriseTreeVersionRow =
  tv_tree :: EnterpriseId
  tv_revision :: nat
  tv_version :: string
  tv_name :: string
  tv_definition :: DefinitionText
  tv_format :: string
  tv_saved :: int

datatype KnowledgeFoundationKind = FoundationRemote | FoundationLocal

record KnowledgeFoundationDescriptor =
  kd_kind :: KnowledgeFoundationKind
  kd_displayName :: string
  kd_detail :: "string option"
  kd_description :: "string option"

record KnowledgeSnippet =
  ks_foundationId :: string
  ks_title :: "string option"
  ks_text :: string
  ks_score :: "js_number option"
  ks_source :: "string option"

record BundledKnowledgeFoundation =
  bf_id :: EnterpriseId
  bf_descriptor :: KnowledgeFoundationDescriptor
  bf_snippets :: "KnowledgeSnippet list"

record BundledFoundationRow =
  kf_tree :: EnterpriseId
  kf_foundation :: EnterpriseId
  kf_descriptor :: KnowledgeFoundationDescriptor
  kf_snippets :: "KnowledgeSnippet list"
  kf_imported :: int
  kf_updated :: int

record TreeDb =
  td_trees :: "EnterpriseTreeRow list"
  td_versions :: "EnterpriseTreeVersionRow list"
  td_foundations :: "BundledFoundationRow list"
  td_objects :: ObjectDb

record ImportedWorkflowTreeRecord =
  it_tree :: WorkflowTreeDefinition
  it_sourceFormat :: WorkflowTreeSourceFormat
  it_importedAt :: int
  it_updatedAt :: int

record WorkflowTreeVersionRecord =
  vr_treeId :: EnterpriseId
  vr_revision :: nat
  vr_version :: string
  vr_name :: string
  vr_sourceFormat :: WorkflowTreeSourceFormat
  vr_savedAt :: int

record WorkflowTreeVersionDetail =
  vd_tree :: WorkflowTreeDefinition
  vd_sourceFormat :: WorkflowTreeSourceFormat
  vd_revision :: nat
  vd_savedAt :: int

fun format_text :: "WorkflowTreeSourceFormat \<Rightarrow> string" where
  "format_text FormatYaml = ''yaml''"
| "format_text FormatJson = ''json''"

definition parseSourceFormat :: "string \<Rightarrow> WorkflowTreeSourceFormat result" where
  "parseSourceFormat value = (if value = ''yaml'' then Inr FormatYaml else if value = ''json'' then Inr FormatJson
     else Inl (''unknown workflow tree source format '' @ quoted value))"

text \<open>The environment: the digests, and what the schema library says of a value it cannot parse.\<close>

record TreeEnv =
  hash_tree :: "WorkflowTreeDefinition \<Rightarrow> string"
  hash_row :: "EnterpriseTreeRow \<Rightarrow> string"
  hash_foundations :: "BundledFoundationRow list \<Rightarrow> string"
  first_issue :: "WorkflowTreeDefinition \<Rightarrow> string"

definition rowToRecord :: "TreeEnv \<Rightarrow> EnterpriseTreeRow \<Rightarrow> ImportedWorkflowTreeRecord result" where
  "rowToRecord env row = (case wt_definition row of
     NotJson message \<Rightarrow> Inl message
   | DefinitionOf tree \<Rightarrow>
       if \<not> validateWorkflowTreeDefinition tree
       then Inl (''stored workflow tree '' @ quoted (wt_tree row) @ '' no longer validates ('' @ first_issue env tree @ ''); re-import it'')
       else if tree_id tree \<noteq> wt_tree row
       then Inl (''stored workflow tree '' @ quoted (wt_tree row) @ '' contains a definition with mismatched id '' @
         quoted (tree_id tree) @ ''; re-import it'')
       else bind_result (parseSourceFormat (wt_format row)) (\<lambda>format. Inr
         \<lparr> it_tree = tree, it_sourceFormat = format, it_importedAt = wt_imported row, it_updatedAt = wt_updated row \<rparr>))"

definition isRestorableTreeRow :: "EnterpriseTreeRow \<Rightarrow> bool" where
  "isRestorableTreeRow row = (if wt_format row \<noteq> ''yaml'' \<and> wt_format row \<noteq> ''json'' then False
     else case wt_definition row of
       NotJson _ \<Rightarrow> False
     | DefinitionOf tree \<Rightarrow> validateWorkflowTreeDefinition tree \<and> tree_id tree = wt_tree row)"

section \<open>Bundled knowledge\<close>

definition deleteBundledKnowledgeFoundationsForTree :: "EnterpriseId \<Rightarrow> TreeDb \<Rightarrow> TreeDb" where
  "deleteBundledKnowledgeFoundationsForTree tid db =
     db \<lparr> td_foundations := filter (\<lambda>r. kf_tree r \<noteq> tid) (td_foundations db) \<rparr>"

definition insert_foundation :: "BundledFoundationRow \<Rightarrow> TreeDb \<Rightarrow> TreeDb result" where
  "insert_foundation row db = (if list_ex (\<lambda>r. kf_tree r = kf_tree row \<and> kf_foundation r = kf_foundation row) (td_foundations db)
     then Inl ''UNIQUE constraint failed: enterprise_tree_bundled_foundations.tree_id, enterprise_tree_bundled_foundations.foundation_id''
     else Inr (db \<lparr> td_foundations := td_foundations db @ [row] \<rparr>))"

fun insert_foundations :: "EnterpriseId \<Rightarrow> int \<Rightarrow> BundledKnowledgeFoundation list \<Rightarrow> TreeDb \<Rightarrow> TreeDb result" where
  "insert_foundations tid now [] db = Inr db"
| "insert_foundations tid now (f # fs) db = bind_result (insert_foundation
     \<lparr> kf_tree = tid, kf_foundation = bf_id f, kf_descriptor = bf_descriptor f, kf_snippets = bf_snippets f,
       kf_imported = now, kf_updated = now \<rparr> db) (insert_foundations tid now fs)"

definition replaceBundledKnowledgeFoundationsForTree ::
  "EnterpriseId \<Rightarrow> BundledKnowledgeFoundation list \<Rightarrow> int \<Rightarrow> TreeDb \<Rightarrow> TreeDb result" where
  "replaceBundledKnowledgeFoundationsForTree tid fs now db =
     insert_foundations tid now fs (deleteBundledKnowledgeFoundationsForTree tid db)"

definition foundation_before :: "BundledFoundationRow \<Rightarrow> BundledFoundationRow \<Rightarrow> bool" where
  "foundation_before a b = (kf_foundation a \<le> kf_foundation b)"

definition fingerprintBundledKnowledgeForTreeFromDatabase :: "TreeEnv \<Rightarrow> TreeDb \<Rightarrow> EnterpriseId \<Rightarrow> string" where
  "fingerprintBundledKnowledgeForTreeFromDatabase env db tid =
     hash_foundations env (order_by foundation_before (filter (\<lambda>r. kf_tree r = tid) (td_foundations db)))"

section \<open>Revisions\<close>

definition live_row :: "EnterpriseId \<Rightarrow> TreeDb \<Rightarrow> EnterpriseTreeRow option" where
  "live_row tid db = List.find (\<lambda>r. wt_tree r = tid) (td_trees db)"

definition revisions :: "EnterpriseId \<Rightarrow> TreeDb \<Rightarrow> EnterpriseTreeVersionRow list" where
  "revisions tid db = filter (\<lambda>v. tv_tree v = tid) (td_versions db)"

text \<open>\<open>ORDER BY revision DESC LIMIT 1\<close>.\<close>

definition revision_before :: "EnterpriseTreeVersionRow \<Rightarrow> EnterpriseTreeVersionRow \<Rightarrow> bool" where
  "revision_before a b = (tv_revision b \<le> tv_revision a)"

definition latest_revision :: "EnterpriseId \<Rightarrow> TreeDb \<Rightarrow> EnterpriseTreeVersionRow option" where
  "latest_revision tid db = (case order_by revision_before (revisions tid db) of [] \<Rightarrow> None | v # _ \<Rightarrow> Some v)"

definition insert_version :: "EnterpriseTreeVersionRow \<Rightarrow> TreeDb \<Rightarrow> TreeDb result" where
  "insert_version row db = (if list_ex (\<lambda>v. tv_tree v = tv_tree row \<and> tv_revision v = tv_revision row) (td_versions db)
     then Inl ''UNIQUE constraint failed: enterprise_workflow_tree_versions.tree_id, enterprise_workflow_tree_versions.revision''
     else Inr (db \<lparr> td_versions := td_versions db @ [row] \<rparr>))"

definition snapshotCurrentTreeRow :: "EnterpriseId \<Rightarrow> TreeDb \<Rightarrow> (nat \<times> TreeDb) result" where
  "snapshotCurrentTreeRow tid db =
     (let latest = latest_revision tid db; maxRevision = (case latest of Some v \<Rightarrow> tv_revision v | None \<Rightarrow> 0)
      in case live_row tid db of
           None \<Rightarrow> Inr (maxRevision, db)
         | Some existing \<Rightarrow>
             if \<not> isRestorableTreeRow existing then Inr (maxRevision, db)
             else if map_option tv_definition latest = Some (wt_definition existing) then Inr (maxRevision, db)
             else bind_result (insert_version
               \<lparr> tv_tree = wt_tree existing, tv_revision = maxRevision + 1, tv_version = wt_version existing,
                 tv_name = wt_name existing, tv_definition = wt_definition existing, tv_format = wt_format existing,
                 tv_saved = wt_updated existing \<rparr> db) (\<lambda>db'. Inr (maxRevision + 1, db')))"

section \<open>Writing a definition\<close>

datatype TreeSource = SourceBuiltin | SourceImported

datatype UpsertPrecondition =
    CreateOnly
  | ExpectedHash string TreeSource
  | ExpectedBundleState EnterpriseId "TreeSource option" "string option" string

datatype UpsertRefusal = AlreadyExists | TreeChanged | TreeUnavailable

datatype UpsertResult = Upserted bool | NotUpserted UpsertRefusal

text \<open>\<open>rowToRecord(row)\<close> compared with the hash the caller saw; a row that does not load is unavailable.\<close>

definition hash_refusal :: "TreeEnv \<Rightarrow> EnterpriseTreeRow \<Rightarrow> string option \<Rightarrow> UpsertRefusal option" where
  "hash_refusal env row expected = (case rowToRecord env row of
     Inl _ \<Rightarrow> Some TreeUnavailable
   | Inr rec \<Rightarrow> if Some (hash_tree env (it_tree rec)) \<noteq> expected then Some TreeChanged else None)"

fun upsert_refusal :: "TreeEnv \<Rightarrow> TreeDb \<Rightarrow> WorkflowTreeDefinition \<Rightarrow> UpsertPrecondition \<Rightarrow> UpsertRefusal option" where
  "upsert_refusal env db tree CreateOnly = (if live_row (tree_id tree) db \<noteq> None then Some AlreadyExists else None)"
| "upsert_refusal env db tree (ExpectedBundleState tid source expected fingerprint) =
     (if tid \<noteq> tree_id tree then Some TreeChanged
      else if (live_row (tree_id tree) db \<noteq> None) \<noteq> (source = Some SourceImported) then Some TreeChanged
      else case (case live_row (tree_id tree) db of Some row \<Rightarrow> hash_refusal env row expected | None \<Rightarrow> None) of
          Some reason \<Rightarrow> Some reason
        | None \<Rightarrow> if fingerprintBundledKnowledgeForTreeFromDatabase env db (tree_id tree) \<noteq> fingerprint then Some TreeChanged else None)"
| "upsert_refusal env db tree (ExpectedHash h source) = (case live_row (tree_id tree) db of
       Some row \<Rightarrow> if source = SourceBuiltin then Some TreeChanged else hash_refusal env row (Some h)
     | None \<Rightarrow> if source = SourceImported then Some TreeChanged else None)"

text \<open>\<open>INSERT \<dots> ON CONFLICT (tree_id) DO UPDATE\<close>: the import time of a row survives.\<close>

definition put_tree :: "WorkflowTreeDefinition \<Rightarrow> WorkflowTreeSourceFormat \<Rightarrow> int \<Rightarrow> TreeDb \<Rightarrow> TreeDb" where
  "put_tree tree format now db = (if list_ex (\<lambda>r. wt_tree r = tree_id tree) (td_trees db)
     then db \<lparr> td_trees := map (\<lambda>r. if wt_tree r = tree_id tree then r \<lparr> wt_version := tree_version tree,
         wt_name := tree_name tree, wt_definition := DefinitionOf tree, wt_format := format_text format,
         wt_updated := now \<rparr> else r) (td_trees db) \<rparr>
     else db \<lparr> td_trees := td_trees db @ [\<lparr> wt_tree = tree_id tree, wt_version = tree_version tree,
         wt_name = tree_name tree, wt_definition = DefinitionOf tree, wt_format = format_text format,
         wt_imported = now, wt_updated = now \<rparr>] \<rparr>)"

definition write_tree ::
  "WorkflowTreeDefinition \<Rightarrow> WorkflowTreeSourceFormat \<Rightarrow> int \<Rightarrow> BundledKnowledgeFoundation list option \<Rightarrow> TreeDb \<Rightarrow> TreeDb result" where
  "write_tree tree format now bundled db =
     bind_result (snapshotCurrentTreeRow (tree_id tree) db) (\<lambda>(prior, db1).
       bind_result (insert_version \<lparr> tv_tree = tree_id tree, tv_revision = prior + 1, tv_version = tree_version tree,
           tv_name = tree_name tree, tv_definition = DefinitionOf tree, tv_format = format_text format, tv_saved = now \<rparr>
         (put_tree tree format now db1)) (\<lambda>db2.
       case bundled of None \<Rightarrow> Inr db2
       | Some fs \<Rightarrow> replaceBundledKnowledgeFoundationsForTree (tree_id tree) fs now db2))"

definition upsertEnterpriseWorkflowTree ::
  "TreeEnv \<Rightarrow> WorkflowTreeDefinition \<Rightarrow> WorkflowTreeSourceFormat \<Rightarrow> int \<Rightarrow> BundledKnowledgeFoundation list option \<Rightarrow>
   UpsertPrecondition option \<Rightarrow> TreeDb \<Rightarrow> (UpsertResult \<times> TreeDb) result" where
  "upsertEnterpriseWorkflowTree env tree format now bundled precondition db =
     (case (case precondition of None \<Rightarrow> None | Some p \<Rightarrow> upsert_refusal env db tree p) of
        Some reason \<Rightarrow> Inr (NotUpserted reason, db)
      | None \<Rightarrow> bind_result (write_tree tree format now bundled db)
          (\<lambda>db'. Inr (Upserted (live_row (tree_id tree) db \<noteq> None), db')))"

section \<open>Reading\<close>

definition version_record :: "EnterpriseTreeVersionRow \<Rightarrow> WorkflowTreeVersionRecord result" where
  "version_record row = bind_result (parseSourceFormat (tv_format row)) (\<lambda>format. Inr
     \<lparr> vr_treeId = tv_tree row, vr_revision = tv_revision row, vr_version = tv_version row, vr_name = tv_name row,
       vr_sourceFormat = format, vr_savedAt = tv_saved row \<rparr>)"

definition listEnterpriseWorkflowTreeVersions :: "EnterpriseId \<Rightarrow> nat option \<Rightarrow> TreeDb \<Rightarrow> WorkflowTreeVersionRecord list result" where
  "listEnterpriseWorkflowTreeVersions tid limit db =
     (let rows = order_by revision_before (revisions tid db)
      in map_rows version_record (case limit of None \<Rightarrow> rows | Some n \<Rightarrow> take n rows))"

definition listEnterpriseWorkflowTreeHistoryIds :: "TreeDb \<Rightarrow> EnterpriseId list" where
  "listEnterpriseWorkflowTreeHistoryIds db = sorted_set (map tv_tree (td_versions db))"

definition getEnterpriseWorkflowTreeVersion ::
  "TreeEnv \<Rightarrow> EnterpriseId \<Rightarrow> nat \<Rightarrow> TreeDb \<Rightarrow> WorkflowTreeVersionDetail option result" where
  "getEnterpriseWorkflowTreeVersion env tid revision db =
     (case List.find (\<lambda>v. tv_tree v = tid \<and> tv_revision v = revision) (td_versions db) of
        None \<Rightarrow> Inr None
      | Some row \<Rightarrow> (case tv_definition row of
            NotJson message \<Rightarrow> Inl message
          | DefinitionOf tree \<Rightarrow>
              if \<not> validateWorkflowTreeDefinition tree
              then Inl (''stored workflow tree version '' @ quoted tid @ ''@r'' @ show_nat revision @ '' no longer validates ('' @
                first_issue env tree @ '')'')
              else bind_result (parseSourceFormat (tv_format row)) (\<lambda>format. Inr (Some
                \<lparr> vd_tree = tree, vd_sourceFormat = format, vd_revision = tv_revision row, vd_savedAt = tv_saved row \<rparr>))))"

definition getEnterpriseWorkflowTree :: "TreeEnv \<Rightarrow> EnterpriseId \<Rightarrow> TreeDb \<Rightarrow> ImportedWorkflowTreeRecord option result" where
  "getEnterpriseWorkflowTree env tid db = (case live_row tid db of
     None \<Rightarrow> Inr None | Some row \<Rightarrow> bind_result (rowToRecord env row) (\<lambda>rec. Inr (Some rec)))"

record TreeRowError =
  te_treeId :: EnterpriseId
  te_message :: string
  te_fingerprint :: string

record TreeReadResult =
  rd_records :: "ImportedWorkflowTreeRecord list"
  rd_rowErrors :: "TreeRowError list"

definition tree_row_before :: "EnterpriseTreeRow \<Rightarrow> EnterpriseTreeRow \<Rightarrow> bool" where
  "tree_row_before a b = (wt_tree a \<le> wt_tree b)"

definition read_row :: "TreeEnv \<Rightarrow> EnterpriseTreeRow \<Rightarrow> TreeReadResult \<Rightarrow> TreeReadResult" where
  "read_row env row acc = (case rowToRecord env row of
     Inr rec \<Rightarrow> acc \<lparr> rd_records := rd_records acc @ [rec] \<rparr>
   | Inl message \<Rightarrow> acc \<lparr> rd_rowErrors := rd_rowErrors acc @
       [\<lparr> te_treeId = wt_tree row, te_message = message, te_fingerprint = hash_row env row \<rparr>] \<rparr>)"

definition listEnterpriseWorkflowTrees :: "TreeEnv \<Rightarrow> TreeDb \<Rightarrow> TreeReadResult" where
  "listEnterpriseWorkflowTrees env db =
     fold (read_row env) (order_by tree_row_before (td_trees db)) \<lparr> rd_records = [], rd_rowErrors = [] \<rparr>"

section \<open>Removing a definition\<close>

definition deleteEnterpriseWorkflowTree :: "EnterpriseId \<Rightarrow> TreeDb \<Rightarrow> (bool \<times> TreeDb) result" where
  "deleteEnterpriseWorkflowTree tid db = bind_result (snapshotCurrentTreeRow tid db) (\<lambda>(_, db1).
     let removed = list_ex (\<lambda>r. wt_tree r = tid) (td_trees db1);
         db2 = db1 \<lparr> td_trees := filter (\<lambda>r. wt_tree r \<noteq> tid) (td_trees db1) \<rparr>
     in Inr (removed, if removed
          then deleteBundledKnowledgeFoundationsForTree tid (db2 \<lparr> td_objects := deleteOntologyObjectsForTree tid (td_objects db2) \<rparr>)
          else db2))"

datatype DeleteGuard = ExpectHash string | ExpectInvalid string

datatype DeleteRefusal = DeleteNotFound | DeleteChanged | DeleteUnavailable

definition removed_or_missing :: "(bool \<times> TreeDb) result \<Rightarrow> (DeleteRefusal option \<times> TreeDb) result" where
  "removed_or_missing r = bind_result r (\<lambda>(removed, db). Inr (if removed then None else Some DeleteNotFound, db))"

definition deleteEnterpriseWorkflowTreeIfUnchanged ::
  "TreeEnv \<Rightarrow> EnterpriseId \<Rightarrow> DeleteGuard \<Rightarrow> TreeDb \<Rightarrow> (DeleteRefusal option \<times> TreeDb) result" where
  "deleteEnterpriseWorkflowTreeIfUnchanged env tid guard db = (case live_row tid db of
     None \<Rightarrow> Inr (Some DeleteNotFound, db)
   | Some row \<Rightarrow> (case rowToRecord env row of
        Inl _ \<Rightarrow> (case guard of
            ExpectHash _ \<Rightarrow> Inr (Some DeleteUnavailable, db)
          | ExpectInvalid fingerprint \<Rightarrow> if hash_row env row \<noteq> fingerprint then Inr (Some DeleteChanged, db)
              else removed_or_missing (deleteEnterpriseWorkflowTree tid db))
      | Inr rec \<Rightarrow> (case guard of
            ExpectInvalid _ \<Rightarrow> Inr (Some DeleteChanged, db)
          | ExpectHash h \<Rightarrow> if hash_tree env (it_tree rec) \<noteq> h then Inr (Some DeleteChanged, db)
              else removed_or_missing (deleteEnterpriseWorkflowTree tid db))))"

end
