(* ===== verification/Tree_Laws.thy ===== *)
theory Tree_Laws
  imports Tree_Store
begin

text \<open>
  The revision history of the tree store: what a save and a removal do to the tables, and the invariant that
  keeps the revisions of a tree numbered from one without gaps.
\<close>

section \<open>The invariant\<close>

definition version_ok :: "EnterpriseTreeVersionRow \<Rightarrow> bool" where
  "version_ok v \<longleftrightarrow> (\<exists>tree. tv_definition v = DefinitionOf tree \<and> validateWorkflowTreeDefinition tree \<and> tree_id tree = tv_tree v)
     \<and> (\<exists>format. tv_format v = format_text format)"

text \<open>Live rows may be anything, as an upgrade or another writer left them; the history is the program's own.\<close>

definition tree_store_ok :: "TreeDb \<Rightarrow> bool" where
  "tree_store_ok db \<longleftrightarrow> distinct (map wt_tree (td_trees db))
     \<and> (\<forall>tid. map tv_revision (revisions tid db) = [1..<Suc (length (revisions tid db))])
     \<and> (\<forall>v \<in> set (td_versions db). version_ok v)"

lemma tree_store_okD:
  assumes "tree_store_ok db"
  shows "distinct (map wt_tree (td_trees db))" "map tv_revision (revisions tid db) = [1..<Suc (length (revisions tid db))]"
    "v \<in> set (td_versions db) \<Longrightarrow> version_ok v"
  using assms by (auto simp: tree_store_ok_def)

lemma parse_format_text [simp]: "parseSourceFormat (format_text f) = Inr f"
  by (cases f) (simp_all add: parseSourceFormat_def)

lemma revisions_cong [simp]:
  "revisions tid (db \<lparr> td_trees := rs \<rparr>) = revisions tid db" "revisions tid (db \<lparr> td_foundations := fs \<rparr>) = revisions tid db"
  "revisions tid (db \<lparr> td_objects := ob \<rparr>) = revisions tid db"
  "revisions tid (db \<lparr> td_versions := vs @ [v] \<rparr>) = filter (\<lambda>v. tv_tree v = tid) vs @ (if tv_tree v = tid then [v] else [])"
  by (simp_all add: revisions_def)

lemma top_revision:
  assumes "tree_store_ok db" "revisions tid db \<noteq> []"
  shows "tv_revision (last (revisions tid db)) = length (revisions tid db)"
proof -
  have "tv_revision (last (revisions tid db)) = last (map tv_revision (revisions tid db))" using assms(2) by (simp add: last_map)
  also have "\<dots> = length (revisions tid db)" unfolding tree_store_okD(2) [OF assms(1)] using assms(2) by (cases "revisions tid db") simp_all
  finally show ?thesis .
qed

lemma latest_last:
  assumes ok: "tree_store_ok db"
  shows "latest_revision tid db = (if revisions tid db = [] then None else Some (last (revisions tid db)))"
proof (cases "revisions tid db = []")
  case True
  then show ?thesis by (simp add: latest_revision_def order_by_def)
next
  case False
  let ?rs = "revisions tid db"
  note nums = tree_store_okD(2) [OF ok, of tid]
  have sorted: "sorted_wrt revision_before (order_by revision_before ?rs)"
    by (rule order_by_sorted) (auto simp: revision_before_def)
  obtain v vs where v: "order_by revision_before ?rs = v # vs" using False by (cases "order_by revision_before ?rs") (auto dest: arg_cong [where f = length])
  have mem: "v \<in> set ?rs" "last ?rs \<in> set (v # vs)"
    unfolding v [symmetric] set_order_by using False by (simp_all) (metis v list.set_intros(1) set_order_by)
  have top: "tv_revision (last ?rs) = length ?rs" using ok False by (rule top_revision)
  have "tv_revision (last ?rs) \<le> tv_revision v" using sorted mem(2) unfolding v by (auto simp: revision_before_def)
  moreover have "tv_revision v \<in> set [1..<Suc (length ?rs)]" unfolding nums [symmetric] using mem(1) by simp
  ultimately have "tv_revision v = tv_revision (last ?rs)" using top by simp
  moreover have "distinct (map tv_revision ?rs)" unfolding nums by simp
  ultimately have "v = last ?rs" using mem(1) False by (metis distinct_map inj_on_eq_iff last_in_set)
  with False v show ?thesis by (simp add: latest_revision_def)
qed

lemma max_revision:
  "tree_store_ok db \<Longrightarrow> (case latest_revision tid db of Some v \<Rightarrow> tv_revision v | None \<Rightarrow> 0) = length (revisions tid db)"
proof -
  assume ok: "tree_store_ok db"
  then show ?thesis using top_revision [OF ok, of tid] by (simp add: latest_last [OF ok])
qed

section \<open>Adding a revision\<close>

lemma fresh_revision:
  assumes "tree_store_ok db"
  shows "\<not> list_ex (\<lambda>v. tv_tree v = tid \<and> tv_revision v = Suc (length (revisions tid db))) (td_versions db)"
proof -
  have "tv_revision v \<in> set (map tv_revision (revisions tid db))" if "v \<in> set (td_versions db)" "tv_tree v = tid" for v
    using that by (auto simp: revisions_def)
  then show ?thesis unfolding tree_store_okD(2) [OF assms] by (fastforce simp: list_ex_iff)
qed

lemma insert_version_eq:
  assumes "tree_store_ok db" "tv_revision v = Suc (length (revisions (tv_tree v) db))"
  shows "insert_version v db = Inr (db \<lparr> td_versions := td_versions db @ [v] \<rparr>)"
  using fresh_revision [OF assms(1), of "tv_tree v"] assms(2) by (simp add: insert_version_def)

lemma add_version_ok:
  assumes ok: "tree_store_ok db" and v: "tv_revision v = Suc (length (revisions (tv_tree v) db))" "version_ok v"
  shows "tree_store_ok (db \<lparr> td_versions := td_versions db @ [v] \<rparr>)"
proof -
  have "map tv_revision (revisions tid (db \<lparr> td_versions := td_versions db @ [v] \<rparr>))
      = [1..<Suc (length (revisions tid (db \<lparr> td_versions := td_versions db @ [v] \<rparr>)))]" for tid
    using tree_store_okD(2) [OF ok, of tid] v(1) by (auto simp: revisions_def [symmetric])
  with ok v(2) show ?thesis by (auto simp: tree_store_ok_def)
qed

section \<open>The snapshot before a change\<close>

lemma live_row_Some: "live_row tid db = Some r \<Longrightarrow> r \<in> set (td_trees db) \<and> wt_tree r = tid"
  by (auto simp: live_row_def dest: find_Some_mem)

text \<open>
  The snapshot leaves everything but the history, extends that by one restorable revision at most, and
  afterwards the definition that was live is in it.
\<close>

definition captured :: "EnterpriseTreeRow \<Rightarrow> TreeDb \<Rightarrow> bool" where
  "captured row db \<longleftrightarrow> (\<exists>v \<in> set (td_versions db). tv_tree v = wt_tree row \<and> tv_definition v = wt_definition row)"

lemma restorable:
  "isRestorableTreeRow r \<longleftrightarrow> (\<exists>tree format. wt_definition r = DefinitionOf tree \<and> validateWorkflowTreeDefinition tree
     \<and> tree_id tree = wt_tree r \<and> wt_format r = format_text format)"
proof -
  have "(wt_format r = ''yaml'' \<or> wt_format r = ''json'') \<longleftrightarrow> (\<exists>format. wt_format r = format_text format)"
    by (metis WorkflowTreeSourceFormat.exhaust format_text.simps)
  then show ?thesis by (cases "wt_definition r") (auto simp: isRestorableTreeRow_def)
qed

lemma snapshot_effect:
  assumes ok: "tree_store_ok db"
  obtains db1 more where "snapshotCurrentTreeRow tid db = Inr (length (revisions tid db1), db1)" "tree_store_ok db1"
    "db1 = db \<lparr> td_versions := td_versions db @ more \<rparr>"
    "\<forall>row \<in> set (td_trees db). wt_tree row = tid \<and> isRestorableTreeRow row \<longrightarrow> captured row db1"
proof (cases "live_row tid db")
  case None
  then have "\<forall>row \<in> set (td_trees db). wt_tree row \<noteq> tid" by (simp add: live_row_def find_None_iff)
  then show ?thesis using that [of db "[]"] ok None max_revision [OF ok, of tid] by (auto simp: snapshotCurrentTreeRow_def Let_def)
next
  case (Some r)
  then have r: "r \<in> set (td_trees db)" "wt_tree r = tid" by (auto dest: live_row_Some)
  have only: "row = r" if "row \<in> set (td_trees db)" "wt_tree row = tid" for row
    using tree_store_okD(1) [OF ok] that r by (metis distinct_map inj_on_eq_iff)
  show ?thesis
  proof (cases "isRestorableTreeRow r \<and> map_option tv_definition (latest_revision tid db) \<noteq> Some (wt_definition r)")
    case False
    then have "snapshotCurrentTreeRow tid db = Inr (length (revisions tid db), db)"
      using Some max_revision [OF ok, of tid] by (auto simp: snapshotCurrentTreeRow_def Let_def)
    moreover have "captured r db" if "isRestorableTreeRow r"
    proof -
      from that False obtain v where "latest_revision tid db = Some v" "tv_definition v = wt_definition r" by auto
      then have "v \<in> set (revisions tid db)" using latest_last [OF ok, of tid] by (auto split: if_splits)
      with \<open>tv_definition v = _\<close> r(2) show ?thesis by (auto simp: captured_def revisions_def)
    qed
    then have "\<forall>row \<in> set (td_trees db). wt_tree row = tid \<and> isRestorableTreeRow row \<longrightarrow> captured row db" using only by blast
    ultimately show ?thesis using that [of db "[]"] ok by simp
  next
    case True
    define v where "v = \<lparr> tv_tree = wt_tree r, tv_revision = Suc (length (revisions tid db)), tv_version = wt_version r,
       tv_name = wt_name r, tv_definition = wt_definition r, tv_format = wt_format r, tv_saved = wt_updated r \<rparr>"
    have v: "tv_revision v = Suc (length (revisions (tv_tree v) db))" using r(2) by (simp add: v_def)
    obtain tree format where "wt_definition r = DefinitionOf tree" "validateWorkflowTreeDefinition tree" "tree_id tree = wt_tree r" "wt_format r = format_text format"
      using True restorable by blast
    then have "version_ok v" unfolding version_ok_def v_def by auto
    from add_version_ok [OF ok v this] have ok1: "tree_store_ok (db \<lparr> td_versions := td_versions db @ [v] \<rparr>)" .
    have "snapshotCurrentTreeRow tid db = Inr (Suc (length (revisions tid db)), db \<lparr> td_versions := td_versions db @ [v] \<rparr>)"
      using True Some max_revision [OF ok, of tid] insert_version_eq [OF ok v]
      by (simp add: snapshotCurrentTreeRow_def Let_def v_def)
    moreover have "length (revisions tid (db \<lparr> td_versions := td_versions db @ [v] \<rparr>)) = Suc (length (revisions tid db))"
      using r(2) by (simp add: v_def revisions_def)
    moreover have "captured r (db \<lparr> td_versions := td_versions db @ [v] \<rparr>)" by (simp add: captured_def v_def)
    ultimately show ?thesis using that [of _ "[v]"] ok1 only by auto
  qed
qed

section \<open>What a save does\<close>

lemma put_tree_simps [simp]:
  "td_versions (put_tree tree f now db) = td_versions db" "td_foundations (put_tree tree f now db) = td_foundations db"
  "td_objects (put_tree tree f now db) = td_objects db" "revisions tid (put_tree tree f now db) = revisions tid db"
  by (simp_all add: put_tree_def revisions_def)

lemma put_tree_rows:
  assumes "distinct (map wt_tree (td_trees db))"
  shows "distinct (map wt_tree (td_trees (put_tree tree f now db)))"
    "row \<in> set (td_trees db) \<Longrightarrow> wt_tree row \<noteq> tree_id tree \<Longrightarrow> row \<in> set (td_trees (put_tree tree f now db))"
    "row \<in> set (td_trees (put_tree tree f now db)) \<Longrightarrow> wt_tree row \<noteq> tree_id tree \<Longrightarrow> row \<in> set (td_trees db)"
    "\<exists>row. live_row (tree_id tree) (put_tree tree f now db) = Some row \<and> wt_definition row = DefinitionOf tree
       \<and> wt_format row = format_text f \<and> wt_updated row = now \<and> wt_tree row = tree_id tree"
proof -
  let ?upd = "\<lambda>r. if wt_tree r = tree_id tree then r \<lparr> wt_version := tree_version tree, wt_name := tree_name tree,
      wt_definition := DefinitionOf tree, wt_format := format_text f, wt_updated := now \<rparr> else r"
  have key: "map wt_tree (map ?upd rs) = map wt_tree rs" for rs :: "EnterpriseTreeRow list" by simp
  show "distinct (map wt_tree (td_trees (put_tree tree f now db)))"
  proof (cases "list_ex (\<lambda>r. wt_tree r = tree_id tree) (td_trees db)")
    case True
    then have "td_trees (put_tree tree f now db) = map ?upd (td_trees db)" by (simp add: put_tree_def)
    then show ?thesis using assms key by (simp only:)
  qed (use assms in \<open>auto simp: put_tree_def list_ex_iff\<close>)
  show "row \<in> set (td_trees db) \<Longrightarrow> wt_tree row \<noteq> tree_id tree \<Longrightarrow> row \<in> set (td_trees (put_tree tree f now db))"
    "row \<in> set (td_trees (put_tree tree f now db)) \<Longrightarrow> wt_tree row \<noteq> tree_id tree \<Longrightarrow> row \<in> set (td_trees db)"
    by (auto simp: put_tree_def split: if_splits)
  show "\<exists>row. live_row (tree_id tree) (put_tree tree f now db) = Some row \<and> wt_definition row = DefinitionOf tree
       \<and> wt_format row = format_text f \<and> wt_updated row = now \<and> wt_tree row = tree_id tree"
  proof (cases "List.find (\<lambda>r. wt_tree r = tree_id tree) (td_trees db)")
    case None
    then have "\<not> list_ex (\<lambda>r. wt_tree r = tree_id tree) (td_trees db)" by (simp add: find_None_list_ex)
    then show ?thesis using None by (simp add: put_tree_def live_row_def find_append)
  next
    case (Some r)
    then have "list_ex (\<lambda>r. wt_tree r = tree_id tree) (td_trees db)"
      using find_None_list_ex [of "\<lambda>r. wt_tree r = tree_id tree" "td_trees db"] by simp
    moreover have "List.find (\<lambda>r. wt_tree r = tree_id tree) (map ?upd (td_trees db)) = Some (?upd r)"
      using find_map_update [of wt_tree "\<lambda>r. r \<lparr> wt_version := tree_version tree, wt_name := tree_name tree,
        wt_definition := DefinitionOf tree, wt_format := format_text f, wt_updated := now \<rparr>" "tree_id tree" "tree_id tree" "td_trees db"]
        Some find_Some_mem [OF Some] by simp
    ultimately show ?thesis using find_Some_mem [OF Some] by (simp add: put_tree_def live_row_def)
  qed
qed

lemma insert_foundations_effect:
  "insert_foundations tid now fs db = Inr db' \<Longrightarrow> td_trees db' = td_trees db \<and> td_versions db' = td_versions db
     \<and> td_objects db' = td_objects db \<and> filter (\<lambda>r. kf_tree r \<noteq> tid) (td_foundations db') = filter (\<lambda>r. kf_tree r \<noteq> tid) (td_foundations db)
     \<and> map kf_foundation (filter (\<lambda>r. kf_tree r = tid) (td_foundations db')) = map kf_foundation (filter (\<lambda>r. kf_tree r = tid) (td_foundations db)) @ map bf_id fs"
proof (induction fs arbitrary: db)
  case (Cons f fs)
  then obtain db1 where "insert_foundation \<lparr> kf_tree = tid, kf_foundation = bf_id f, kf_descriptor = bf_descriptor f,
      kf_snippets = bf_snippets f, kf_imported = now, kf_updated = now \<rparr> db = Inr db1" "insert_foundations tid now fs db1 = Inr db'" by auto
  with Cons.IH [of db1] show ?case by (auto simp: insert_foundation_def split: if_splits)
qed simp

lemma replace_foundations_effect:
  assumes "replaceBundledKnowledgeFoundationsForTree tid fs now db = Inr db'"
  shows "td_trees db' = td_trees db" "td_versions db' = td_versions db" "td_objects db' = td_objects db"
    "filter (\<lambda>r. kf_tree r \<noteq> tid) (td_foundations db') = filter (\<lambda>r. kf_tree r \<noteq> tid) (td_foundations db)"
    "map kf_foundation (filter (\<lambda>r. kf_tree r = tid) (td_foundations db')) = map bf_id fs"
  using insert_foundations_effect [of tid now fs "deleteBundledKnowledgeFoundationsForTree tid db" db'] assms
  by (auto simp: replaceBundledKnowledgeFoundationsForTree_def deleteBundledKnowledgeFoundationsForTree_def)

lemma tree_store_ok_cong:
  assumes "td_trees db' = td_trees db" "td_versions db' = td_versions db"
  shows "tree_store_ok db' = tree_store_ok db" "live_row tid db' = live_row tid db" "revisions tid db' = revisions tid db"
    "captured row db' = captured row db"
  using assms by (simp_all add: tree_store_ok_def live_row_def revisions_def captured_def)

lemma captured_append: "captured row db \<Longrightarrow> td_versions db' = td_versions db @ vs \<Longrightarrow> captured row db'"
  by (auto simp: captured_def)

text \<open>
  A save that goes through makes the definition live and its newest revision; every other tree keeps its row,
  the history only grows, and a restorable definition it replaces is in the history.
\<close>

definition saved_version :: "WorkflowTreeDefinition \<Rightarrow> WorkflowTreeSourceFormat \<Rightarrow> int \<Rightarrow> nat \<Rightarrow> EnterpriseTreeVersionRow" where
  "saved_version tree f now n = \<lparr> tv_tree = tree_id tree, tv_revision = n, tv_version = tree_version tree,
     tv_name = tree_name tree, tv_definition = DefinitionOf tree, tv_format = format_text f, tv_saved = now \<rparr>"

lemma write_tree_effect:
  assumes ok: "tree_store_ok db" and valid: "validateWorkflowTreeDefinition tree"
    and wrote: "write_tree tree f now bundled db = Inr db'"
  shows "tree_store_ok db'"
    "\<exists>more. td_versions db' = td_versions db @ more \<and> revisions (tree_id tree) db' \<noteq> []
       \<and> last (revisions (tree_id tree) db') = saved_version tree f now (length (revisions (tree_id tree) db'))"
    "\<exists>row. live_row (tree_id tree) db' = Some row \<and> wt_definition row = DefinitionOf tree \<and> wt_format row = format_text f
       \<and> wt_tree row = tree_id tree \<and> wt_updated row = now"
    "row \<in> set (td_trees db) \<Longrightarrow> wt_tree row \<noteq> tree_id tree \<Longrightarrow> row \<in> set (td_trees db')"
    "row \<in> set (td_trees db) \<Longrightarrow> wt_tree row = tree_id tree \<Longrightarrow> isRestorableTreeRow row \<Longrightarrow> captured row db'"
    "td_objects db' = td_objects db"
proof -
  let ?tid = "tree_id tree"
  from snapshot_effect [OF ok, of ?tid] obtain db1 more where s: "snapshotCurrentTreeRow ?tid db = Inr (length (revisions ?tid db1), db1)"
    "tree_store_ok db1" "db1 = db \<lparr> td_versions := td_versions db @ more \<rparr>"
    "\<forall>row \<in> set (td_trees db). wt_tree row = ?tid \<and> isRestorableTreeRow row \<longrightarrow> captured row db1" by blast
  let ?v = "saved_version tree f now (Suc (length (revisions ?tid db1)))"
  let ?db2 = "put_tree tree f now db1"
  have d1: "distinct (map wt_tree (td_trees db1))" using tree_store_okD(1) [OF s(2)] .
  note put = put_tree_rows [OF d1, where tree = tree and f = f and now = now]
  have ok2: "tree_store_ok ?db2" using s(2) put(1) by (simp add: tree_store_ok_def)
  have num: "tv_revision ?v = Suc (length (revisions (tv_tree ?v) ?db2))" by (simp add: saved_version_def)
  have vok: "version_ok ?v" using valid by (auto simp: version_ok_def saved_version_def)
  let ?db3 = "?db2 \<lparr> td_versions := td_versions ?db2 @ [?v] \<rparr>"
  have ins: "insert_version ?v ?db2 = Inr ?db3" using ok2 num by (rule insert_version_eq)
  have ok3: "tree_store_ok ?db3" using ok2 num vok by (rule add_version_ok)
  have w: "(case bundled of None \<Rightarrow> Inr ?db3 | Some fs \<Rightarrow> replaceBundledKnowledgeFoundationsForTree ?tid fs now ?db3) = Inr db'"
    using wrote s(1) ins by (cases bundled) (simp_all add: write_tree_def saved_version_def)
  have same: "td_trees db' = td_trees ?db3" "td_versions db' = td_versions ?db3" "td_objects db' = td_objects ?db3"
    using w replace_foundations_effect(1-3) by (auto split: option.splits)
  note cong = tree_store_ok_cong [OF same(1,2)]
  show "tree_store_ok db'" using ok3 cong(1) by simp
  have "revisions ?tid ?db3 = revisions ?tid db1 @ [?v]" by (simp add: saved_version_def revisions_def)
  then show "\<exists>more. td_versions db' = td_versions db @ more \<and> revisions ?tid db' \<noteq> []
       \<and> last (revisions ?tid db') = saved_version tree f now (length (revisions ?tid db'))"
    using same(2) cong(3) s(3) by simp
  show "\<exists>row. live_row ?tid db' = Some row \<and> wt_definition row = DefinitionOf tree \<and> wt_format row = format_text f
       \<and> wt_tree row = ?tid \<and> wt_updated row = now"
    using put(4) cong(2) by (auto simp: live_row_def)
  show "row \<in> set (td_trees db) \<Longrightarrow> wt_tree row \<noteq> ?tid \<Longrightarrow> row \<in> set (td_trees db')"
    using put(2) same(1) s(3) by simp
  show "row \<in> set (td_trees db) \<Longrightarrow> wt_tree row = ?tid \<Longrightarrow> isRestorableTreeRow row \<Longrightarrow> captured row db'"
    using s(4) captured_append [of row db1 db' "[?v]"] same(2) by simp
  show "td_objects db' = td_objects db" using same(3) s(3) by simp
qed

section \<open>What a removal does\<close>

lemma delete_effect:
  assumes ok: "tree_store_ok db"
  obtains db' where "deleteEnterpriseWorkflowTree tid db = Inr (list_ex (\<lambda>r. wt_tree r = tid) (td_trees db), db')"
    "tree_store_ok db'" "td_trees db' = filter (\<lambda>r. wt_tree r \<noteq> tid) (td_trees db)"
    "\<exists>more. td_versions db' = td_versions db @ more"
    "\<And>row. row \<in> set (td_trees db) \<Longrightarrow> wt_tree row = tid \<Longrightarrow> isRestorableTreeRow row \<Longrightarrow> captured row db'"
    "list_ex (\<lambda>r. wt_tree r = tid) (td_trees db) \<Longrightarrow> td_foundations db' = filter (\<lambda>r. kf_tree r \<noteq> tid) (td_foundations db)
       \<and> td_objects db' = deleteOntologyObjectsForTree tid (td_objects db)"
    "\<not> list_ex (\<lambda>r. wt_tree r = tid) (td_trees db) \<Longrightarrow> td_foundations db' = td_foundations db \<and> td_objects db' = td_objects db"
proof -
  from snapshot_effect [OF ok, of tid] obtain db1 more where s: "snapshotCurrentTreeRow tid db = Inr (length (revisions tid db1), db1)"
    "tree_store_ok db1" "db1 = db \<lparr> td_versions := td_versions db @ more \<rparr>"
    "\<forall>row \<in> set (td_trees db). wt_tree row = tid \<and> isRestorableTreeRow row \<longrightarrow> captured row db1" by blast
  define db2 where "db2 = db1 \<lparr> td_trees := filter (\<lambda>r. wt_tree r \<noteq> tid) (td_trees db1) \<rparr>"
  have ok2: "tree_store_ok db2" using s(2) by (simp add: tree_store_ok_def db2_def distinct_map_filter)
  let ?hit = "list_ex (\<lambda>r. wt_tree r = tid) (td_trees db)"
  let ?db' = "if ?hit then deleteBundledKnowledgeFoundationsForTree tid (db2 \<lparr> td_objects := deleteOntologyObjectsForTree tid (td_objects db2) \<rparr>) else db2"
  have same: "td_trees ?db' = td_trees db2" "td_versions ?db' = td_versions db2"
    by (simp_all add: deleteBundledKnowledgeFoundationsForTree_def)
  have trees: "td_trees db2 = filter (\<lambda>r. wt_tree r \<noteq> tid) (td_trees db)" "td_versions db2 = td_versions db @ more" by (simp_all add: db2_def s(3))
  show ?thesis
  proof (rule that [of ?db'])
    show "deleteEnterpriseWorkflowTree tid db = Inr (?hit, ?db')"
      using s(1) by (simp add: deleteEnterpriseWorkflowTree_def Let_def db2_def s(3))
    show "tree_store_ok ?db'" using ok2 tree_store_ok_cong(1) [OF same] by blast
    show "td_trees ?db' = filter (\<lambda>r. wt_tree r \<noteq> tid) (td_trees db)" using same(1) trees(1) by simp
    show "\<exists>more. td_versions ?db' = td_versions db @ more" by (rule exI [of _ more]) (simp only: same(2) trees(2))
    show "row \<in> set (td_trees db) \<Longrightarrow> wt_tree row = tid \<Longrightarrow> isRestorableTreeRow row \<Longrightarrow> captured row ?db'" for row
      using s(4) by (simp only: captured_def same(2)) (simp add: db2_def)
  qed (simp_all add: db2_def s(3) deleteBundledKnowledgeFoundationsForTree_def)
qed

end
