(* ===== verification/Tree_Registry.thy ===== *)
theory Tree_Registry
  imports Tree_Laws
begin

text \<open>
  The registry of work-maps a process runs on, \<^verbatim>\<open>src/enterprise/tree-registry.ts\<close> and
  \<^verbatim>\<open>src/enterprise/builtin-trees.ts\<close>, and import, export and removal, \<^verbatim>\<open>src/enterprise/tree-io.ts\<close>. The
  registry is loaded once and kept until a change of the store through this process drops it. Parsing YAML or
  JSON text is a parameter: the definition the text describes, or the message of the parser. A state database
  that exists but cannot be read is a parameter too, the message of its error.
\<close>

section \<open>Built-in trees\<close>

definition plain_entity :: "string \<Rightarrow> string \<Rightarrow> OntologyEntity" where
  "plain_entity i d = \<lparr> ent_id = i, ent_title = None, ent_description = Some d, ent_properties = None \<rparr>"

definition plain_relationship :: "string \<Rightarrow> string \<Rightarrow> string \<Rightarrow> string \<Rightarrow> OntologyRelationship" where
  "plain_relationship i f t d = \<lparr> rel_id = i, rel_from = f, rel_to = t, rel_cardinality = None, rel_inverse = None,
     rel_description = Some d \<rparr>"

definition plain_action :: "string \<Rightarrow> string \<Rightarrow> string list option \<Rightarrow> OntologyAction" where
  "plain_action i d ts = \<lparr> act_id = i, act_title = None, act_description = Some d, act_tools = ts, act_parameters = None,
     act_preconditions = None, act_effects = None \<rparr>"

definition plain_constraint :: "string \<Rightarrow> string \<Rightarrow> OntologyConstraint" where
  "plain_constraint i d = \<lparr> con_id = i, con_description = d \<rparr>"

definition support_intake :: OntologyBinding where
  "support_intake = empty_binding
     \<lparr> guidance := Some ''Confirm the requested support outcome and identify the customer. Complete this intake before triage; do not resolve or escalate yet.'',
       entities := Some [plain_entity ''customer'' ''The person who opened the request.'',
         plain_entity ''order'' ''A purchase the request refers to.'',
         plain_entity ''ticket'' ''The support case being worked.'',
         plain_entity ''refund'' ''A repayment issued to the customer.''],
       relationships := Some [plain_relationship ''owns'' ''customer'' ''order'' ''The customer placed the order.'',
         plain_relationship ''concerns'' ''ticket'' ''order'' ''The ticket is about the order.'',
         plain_relationship ''settles'' ''refund'' ''order'' ''A refund settles the order.''],
       allowedTools := Some [''memory_search'', ''memory_get'', ''message'', ''knowledge_search''],
       knowledgeFoundations := Some [''clawworks.support-kb.example''],
       constraints := Some [plain_constraint ''no-card-numbers'' ''Never repeat full payment card numbers.''],
       contextHints := Some [''Keep replies concise and empathetic.'', ''Refunds over $200 require human approval.''],
       audit := Some True \<rparr>"

definition support_triage :: OntologyBinding where
  "support_triage = empty_binding
     \<lparr> allowedTools := Some [''memory_search'', ''message''], skills := Some [''ticket-triage''],
       actions := Some [plain_action ''classify'' (''Set the request'' @ [CHR 0x27] @ ''s category and priority.'') (Some [''memory_search''])],
       constraints := Some [plain_constraint ''confirm-ids'' ''Confirm the ticket and order ids before acting.''],
       expectedOutput := Some ''A category, a priority, and the order the request concerns.'' \<rparr>"

definition support_investigate :: OntologyBinding where
  "support_investigate = empty_binding
     \<lparr> allowedTools := Some [''memory_search'', ''memory_get'', ''message'', ''knowledge_search''],
       knowledgeFoundations := Some [''clawworks.support-kb.example''],
       actions := Some [plain_action ''lookup-history'' ''Read prior orders and conversations.'' (Some [''memory_search'', ''memory_get''])],
       expectedOutput := Some ''The order and account facts needed to resolve the request.'' \<rparr>"

definition support_resolve :: OntologyBinding where
  "support_resolve = empty_binding
     \<lparr> allowedTools := Some [''memory_get'', ''message''], skills := Some [''refund-policy''],
       actions := Some [plain_action ''reply'' ''Send the resolution to the customer.'' (Some [''message'']),
         plain_action ''issue-refund'' ''Issue a refund within the approval limit.'' None],
       constraints := Some [plain_constraint ''refund-cap'' ''Do not issue a refund over $200 without human approval.''],
       expectedOutput := Some ''A resolution message, plus a refund record when one was issued.'' \<rparr>"

definition support_escalate :: OntologyBinding where
  "support_escalate = empty_binding
     \<lparr> allowedTools := Some [''message''], skills := Some [''summarize''],
       actions := Some [plain_action ''handoff'' ''Summarize the case and hand it to a human.'' (Some [''message''])],
       expectedOutput := Some ''An escalation summary for the human queue.'' \<rparr>"

definition BUILTIN_SUPPORT_EXAMPLE_TREE :: WorkflowTreeDefinition where
  "BUILTIN_SUPPORT_EXAMPLE_TREE = \<lparr> tree_executionModel = None, tree_id = ''clawworks.support'', tree_version = ''1.0.0'',
     tree_name = ''Customer support (example)'',
     tree_description = Some ''Example enterprise work-map for inspecting per-node ontology. Click a step to see its tool scope, actions, constraints, and expected output. It stays out of normal runs on purpose: only imported work-maps govern requests. To have runs bind to it, export it (openclaw enterprise trees export clawworks.support --out support.yaml) and import that file back.'',
     tree_match = Some \<lparr> match_keywords = None, match_triggers = Some [TrigUser], match_priority = None \<rparr>,
     tree_capabilityGrants = None,
     tree_root = WorkflowNode ''support'' ''Receive a customer support request'' None (Some support_intake) (Some
       [WorkflowNode ''support.triage'' ''Triage the request'' None (Some support_triage) (Some
         [WorkflowNode ''support.investigate'' ''Investigate account and order history'' None (Some support_investigate) (Some
           [WorkflowNode ''support.resolve'' ''Resolve the request or issue a refund'' None (Some support_resolve) None,
            WorkflowNode ''support.escalate'' ''Escalate to a human agent'' None (Some support_escalate) None])])]) \<rparr>"

definition BUILTIN_WORKFLOW_TREES :: "WorkflowTreeDefinition list" where
  "BUILTIN_WORKFLOW_TREES = [BUILTIN_ASSIST_TREE, BUILTIN_SUPPORT_EXAMPLE_TREE, BUILTIN_SYSTEM_TREE]"

section \<open>The registry\<close>

fun countWorkflowTreeNodes :: "WorkflowNodeDefinition \<Rightarrow> nat" where
  "countWorkflowTreeNodes (WorkflowNode i t d ont cs) =
     1 + (case cs of None \<Rightarrow> 0 | Some ks \<Rightarrow> sum_list (map countWorkflowTreeNodes ks))"

record WorkflowTreeRegistryEntry =
  en_tree :: WorkflowTreeDefinition
  en_source :: TreeSource

record WorkflowTreeRegistrySnapshot =
  sn_entries :: "WorkflowTreeRegistryEntry list"
  sn_importErrors :: "TreeRowError list"
  sn_storeError :: "string option"

definition register_entry :: "TreeSource \<Rightarrow> WorkflowTreeDefinition \<Rightarrow>
    (EnterpriseId \<times> WorkflowTreeRegistryEntry) list \<Rightarrow> (EnterpriseId \<times> WorkflowTreeRegistryEntry) list" where
  "register_entry source tree = AList.update (tree_id tree) \<lparr> en_tree = tree, en_source = source \<rparr>"

definition entry_before :: "WorkflowTreeRegistryEntry \<Rightarrow> WorkflowTreeRegistryEntry \<Rightarrow> bool" where
  "entry_before a b = (tree_id (en_tree a) \<le> tree_id (en_tree b))"

definition loadRegistry :: "TreeEnv \<Rightarrow> string option \<Rightarrow> TreeDb \<Rightarrow> WorkflowTreeRegistrySnapshot" where
  "loadRegistry env unreadable db =
     (let entries = fold (register_entry SourceBuiltin) BUILTIN_WORKFLOW_TREES [];
          sorted = (\<lambda>m. order_by entry_before (map snd m))
      in case unreadable of
           Some message \<Rightarrow> \<lparr> sn_entries = sorted entries, sn_importErrors = [], sn_storeError = Some message \<rparr>
         | None \<Rightarrow> let got = listEnterpriseWorkflowTrees env db
             in \<lparr> sn_entries = sorted (fold (register_entry SourceImported) (map it_tree (rd_records got)) entries),
                  sn_importErrors = rd_rowErrors got, sn_storeError = None \<rparr>)"

text \<open>The process: the database it shares and the snapshot it holds.\<close>

record RegistryProcess =
  gp_db :: TreeDb
  gp_snapshot :: "WorkflowTreeRegistrySnapshot option"

definition getWorkflowTreeRegistrySnapshot ::
  "TreeEnv \<Rightarrow> string option \<Rightarrow> RegistryProcess \<Rightarrow> WorkflowTreeRegistrySnapshot \<times> RegistryProcess" where
  "getWorkflowTreeRegistrySnapshot env unreadable p = (case gp_snapshot p of
     Some s \<Rightarrow> (s, p)
   | None \<Rightarrow> let s = loadRegistry env unreadable (gp_db p) in (s, p \<lparr> gp_snapshot := Some s \<rparr>))"

definition invalidateWorkflowTreeRegistry :: "RegistryProcess \<Rightarrow> RegistryProcess" where
  "invalidateWorkflowTreeRegistry p = p \<lparr> gp_snapshot := None \<rparr>"

definition listWorkflowTreeRegistryEntries :: "WorkflowTreeRegistrySnapshot \<Rightarrow> WorkflowTreeRegistryEntry list" where
  "listWorkflowTreeRegistryEntries s = sn_entries s"

definition listWorkflowTreesForRuntime :: "WorkflowTreeRegistrySnapshot \<Rightarrow> WorkflowTreeDefinition list" where
  "listWorkflowTreesForRuntime s = map en_tree (listWorkflowTreeRegistryEntries s)"

definition getWorkflowTreeRegistryEntry :: "WorkflowTreeRegistrySnapshot \<Rightarrow> EnterpriseId \<Rightarrow> WorkflowTreeRegistryEntry option" where
  "getWorkflowTreeRegistryEntry s i = List.find (\<lambda>e. tree_id (en_tree e) = i) (listWorkflowTreeRegistryEntries s)"

section \<open>Import, export and removal\<close>

definition inferWorkflowTreeFileFormat :: "string \<Rightarrow> WorkflowTreeSourceFormat option" where
  "inferWorkflowTreeFileFormat path = (let l = toLowerCase path in
     if endsWith l ''.yaml'' \<or> endsWith l ''.yml'' then Some FormatYaml
     else if endsWith l ''.json'' then Some FormatJson else None)"

type_synonym Parser = "WorkflowTreeSourceFormat \<Rightarrow> string \<Rightarrow> string + WorkflowTreeDefinition"

datatype WorkflowTreeImportResult =
    Imported WorkflowTreeDefinition "TreeSource option"
  | NotImported "(string \<times> string) list"

text \<open>What the schema reports of a definition it refuses: the issues of its refinements, or of its fields.\<close>

definition validation_issues :: "TreeEnv \<Rightarrow> WorkflowTreeDefinition \<Rightarrow> (string \<times> string) list" where
  "validation_issues env tree = [([], first_issue env tree)]"

definition parseWorkflowTreeContent :: "TreeEnv \<Rightarrow> Parser \<Rightarrow> string \<Rightarrow> WorkflowTreeSourceFormat \<Rightarrow> WorkflowTreeImportResult" where
  "parseWorkflowTreeContent env parse content format = (case parse format content of
     Inl message \<Rightarrow> NotImported [([], ''invalid '' @ toUpperCase (format_text format) @ '': '' @ message)]
   | Inr tree \<Rightarrow> if validateWorkflowTreeDefinition tree then Imported tree None else NotImported (validation_issues env tree))"

definition refreshAfterTreeStoreChange :: "RegistryProcess \<Rightarrow> RegistryProcess" where
  "refreshAfterTreeStoreChange p = invalidateWorkflowTreeRegistry p"

definition id_issue :: "string \<Rightarrow> WorkflowTreeImportResult" where
  "id_issue message = NotImported [(''id'', message)]"

definition already_exists :: "EnterpriseId \<Rightarrow> string" where
  "already_exists i = ''workflow tree '' @ quoted i @ '' already exists''"

definition changed_since :: "EnterpriseId \<Rightarrow> string" where
  "changed_since i = ''workflow tree '' @ quoted i @
     '' changed since it was loaded; discard this edit, reload the tree, and reapply your change''"

definition import_precondition :: "bool \<Rightarrow> string option \<Rightarrow> WorkflowTreeRegistryEntry option \<Rightarrow> UpsertPrecondition option" where
  "import_precondition createOnly expectedHash existing =
     (if createOnly then Some CreateOnly
      else case expectedHash of
          Some h \<Rightarrow> Some (ExpectedHash h (case existing of Some e \<Rightarrow> en_source e | None \<Rightarrow> SourceImported))
        | None \<Rightarrow> None)"

definition importWorkflowTreeContent ::
  "TreeEnv \<Rightarrow> Parser \<Rightarrow> string option \<Rightarrow> string \<Rightarrow> WorkflowTreeSourceFormat \<Rightarrow> bool \<Rightarrow> string option \<Rightarrow> int \<Rightarrow>
   RegistryProcess \<Rightarrow> (WorkflowTreeImportResult \<times> RegistryProcess) result" where
  "importWorkflowTreeContent env parse unreadable content format createOnly expectedHash now p =
     (case parseWorkflowTreeContent env parse content format of
        NotImported issues \<Rightarrow> Inr (NotImported issues, p)
      | Imported tree _ \<Rightarrow>
          let (snapshot, p1) = getWorkflowTreeRegistrySnapshot env unreadable p;
              existing = List.find (\<lambda>e. tree_id (en_tree e) = tree_id tree) (sn_entries snapshot)
          in if createOnly \<and> list_ex (\<lambda>t. tree_id t = tree_id tree) BUILTIN_WORKFLOW_TREES
             then Inr (id_issue (already_exists (tree_id tree)), p1)
             else if (case (expectedHash, existing) of
                 (Some h, Some e) \<Rightarrow> en_source e = SourceBuiltin \<and> hash_tree env (en_tree e) \<noteq> h | _ \<Rightarrow> False)
             then Inr (id_issue (changed_since (tree_id tree)), p1)
             else bind_result (upsertEnterpriseWorkflowTree env tree format now None
                 (import_precondition createOnly expectedHash existing) (gp_db p1)) (\<lambda>(answer, db').
               let p2 = refreshAfterTreeStoreChange (p1 \<lparr> gp_db := db' \<rparr>) in
               case answer of
                 NotUpserted reason \<Rightarrow> Inr (id_issue (if reason = AlreadyExists
                     then already_exists (tree_id tree) else changed_since (tree_id tree)), p2)
               | Upserted replacedImported \<Rightarrow> Inr (Imported tree (if replacedImported then Some SourceImported
                     else case existing of Some e \<Rightarrow> if en_source e = SourceBuiltin then Some SourceBuiltin else None
                       | None \<Rightarrow> None), p2)))"

datatype WorkflowTreeExportResult = Exported string TreeSource | NotExported string

definition exportWorkflowTree ::
  "(WorkflowTreeSourceFormat \<Rightarrow> WorkflowTreeDefinition \<Rightarrow> string) \<Rightarrow> WorkflowTreeRegistrySnapshot \<Rightarrow> EnterpriseId \<Rightarrow>
   WorkflowTreeSourceFormat \<Rightarrow> WorkflowTreeExportResult" where
  "exportWorkflowTree serialize snapshot i format = (case sn_storeError snapshot of
     Some message \<Rightarrow> NotExported message
   | None \<Rightarrow> (case List.find (\<lambda>e. te_treeId e = i) (sn_importErrors snapshot) of
         Some e \<Rightarrow> NotExported (te_message e)
       | None \<Rightarrow> (case List.find (\<lambda>e. tree_id (en_tree e) = i) (sn_entries snapshot) of
             None \<Rightarrow> NotExported (''no workflow tree registered with id '' @ quoted i)
           | Some e \<Rightarrow> Exported (serialize format (en_tree e)) (en_source e))))"

definition removeImportedWorkflowTree :: "EnterpriseId \<Rightarrow> RegistryProcess \<Rightarrow> (bool \<times> RegistryProcess) result" where
  "removeImportedWorkflowTree i p = bind_result (deleteEnterpriseWorkflowTree i (gp_db p)) (\<lambda>(removed, db').
     let p1 = p \<lparr> gp_db := db' \<rparr> in Inr (removed, if removed then refreshAfterTreeStoreChange p1 else p1))"

definition removeImportedWorkflowTreeIfUnchanged ::
  "TreeEnv \<Rightarrow> EnterpriseId \<Rightarrow> DeleteGuard \<Rightarrow> RegistryProcess \<Rightarrow> DeleteRefusal option \<times> RegistryProcess" where
  "removeImportedWorkflowTreeIfUnchanged env i guard p =
     (case deleteEnterpriseWorkflowTreeIfUnchanged env i guard (gp_db p) of
        Inl _ \<Rightarrow> (Some DeleteUnavailable, invalidateWorkflowTreeRegistry p)
      | Inr (reason, db') \<Rightarrow> (reason, refreshAfterTreeStoreChange (p \<lparr> gp_db := db' \<rparr>)))"

end
