(* ===== verification/Tree_Properties.thy ===== *)
theory Tree_Properties
  imports Tree_Registry Sample_Data
begin

text \<open>
  What the stored work-maps promise: a definition that was live is never lost, a guarded save or removal acts
  only on the state its caller saw, a removal takes everything of its tree along, and the registry shows every
  stored row as a definition or as an error.
\<close>

section \<open>Histories\<close>

text \<open>The writes on the store; a transaction that throws is rolled back.\<close>

datatype TreeOp =
    SaveTree WorkflowTreeDefinition WorkflowTreeSourceFormat int "BundledKnowledgeFoundation list option" "UpsertPrecondition option"
  | RemoveTree EnterpriseId
  | RemoveTreeIf EnterpriseId DeleteGuard

definition committed :: "('a \<times> TreeDb) result \<Rightarrow> TreeDb \<Rightarrow> TreeDb" where
  "committed r db = (case r of Inl _ \<Rightarrow> db | Inr (_, db') \<Rightarrow> db')"

fun tree_perform :: "TreeEnv \<Rightarrow> TreeOp \<Rightarrow> TreeDb \<Rightarrow> TreeDb" where
  "tree_perform env (SaveTree tree f now bundled p) db = committed (upsertEnterpriseWorkflowTree env tree f now bundled p db) db"
| "tree_perform env (RemoveTree tid) db = committed (deleteEnterpriseWorkflowTree tid db) db"
| "tree_perform env (RemoveTreeIf tid guard) db = committed (deleteEnterpriseWorkflowTreeIfUnchanged env tid guard db) db"

text \<open>Callers parse a definition before they save it.\<close>

fun tree_admissible :: "TreeDb \<Rightarrow> TreeOp \<Rightarrow> bool" where
  "tree_admissible db (SaveTree tree f now bundled p) = validateWorkflowTreeDefinition tree"
| "tree_admissible db op = True"

text \<open>What one write keeps: the invariant, the history so far and every restorable definition.\<close>

definition keeps_history :: "TreeDb \<Rightarrow> TreeDb \<Rightarrow> bool" where
  "keeps_history db db' \<longleftrightarrow> tree_store_ok db' \<and> (\<exists>more. td_versions db' = td_versions db @ more)
     \<and> (\<forall>row \<in> set (td_trees db). isRestorableTreeRow row \<longrightarrow> row \<in> set (td_trees db') \<or> captured row db')"

lemma keeps_historyI:
  assumes "tree_store_ok db'" "\<exists>more. td_versions db' = td_versions db @ more"
    "\<And>row. row \<in> set (td_trees db) \<Longrightarrow> isRestorableTreeRow row \<Longrightarrow> row \<in> set (td_trees db') \<or> captured row db'"
  shows "keeps_history db db'"
  using assms by (simp add: keeps_history_def)

lemma keeps_refl [simp]: "tree_store_ok db \<Longrightarrow> keeps_history db db"
  by (simp add: keeps_history_def)

lemma keeps_trans:
  assumes "keeps_history db0 db" "keeps_history db db'"
  shows "keeps_history db0 db'"
proof -
  from assms obtain more1 more2 where m: "td_versions db = td_versions db0 @ more1" "td_versions db' = td_versions db @ more2"
    unfolding keeps_history_def by blast
  from assms(2) captured_append [OF _ m(2)] have "row \<in> set (td_trees db') \<or> captured row db'"
    if "isRestorableTreeRow row" "row \<in> set (td_trees db) \<or> captured row db" for row
    using that unfolding keeps_history_def by blast
  with assms m show ?thesis unfolding keeps_history_def by auto
qed

lemma delete_keeps:
  assumes ok: "tree_store_ok db" and d: "deleteEnterpriseWorkflowTree tid db = Inr (b, db')"
  shows "keeps_history db db'" "b = list_ex (\<lambda>r. wt_tree r = tid) (td_trees db)"
    "td_trees db' = filter (\<lambda>r. wt_tree r \<noteq> tid) (td_trees db)"
    "row \<in> set (td_trees db) \<Longrightarrow> wt_tree row = tid \<Longrightarrow> isRestorableTreeRow row \<Longrightarrow> captured row db'"
    "b \<Longrightarrow> td_foundations db' = filter (\<lambda>r. kf_tree r \<noteq> tid) (td_foundations db)
       \<and> td_objects db' = deleteOntologyObjectsForTree tid (td_objects db)"
proof -
  obtain db1 where d1: "deleteEnterpriseWorkflowTree tid db = Inr (list_ex (\<lambda>r. wt_tree r = tid) (td_trees db), db1)"
    and ok1: "tree_store_ok db1" and rows: "td_trees db1 = filter (\<lambda>r. wt_tree r \<noteq> tid) (td_trees db)"
    and more: "\<exists>more. td_versions db1 = td_versions db @ more"
    and cap: "\<And>row. row \<in> set (td_trees db) \<Longrightarrow> wt_tree row = tid \<Longrightarrow> isRestorableTreeRow row \<Longrightarrow> captured row db1"
    and hit: "list_ex (\<lambda>r. wt_tree r = tid) (td_trees db) \<Longrightarrow> td_foundations db1 = filter (\<lambda>r. kf_tree r \<noteq> tid) (td_foundations db)
       \<and> td_objects db1 = deleteOntologyObjectsForTree tid (td_objects db)"
    by (rule delete_effect [OF ok, of tid], rule that)
  from d d1 have eq: "b = list_ex (\<lambda>r. wt_tree r = tid) (td_trees db)" "db' = db1" by simp_all
  show "b = list_ex (\<lambda>r. wt_tree r = tid) (td_trees db)" by (rule eq(1))
  show "td_trees db' = filter (\<lambda>r. wt_tree r \<noteq> tid) (td_trees db)" using rows eq(2) by simp
  show "row \<in> set (td_trees db) \<Longrightarrow> wt_tree row = tid \<Longrightarrow> isRestorableTreeRow row \<Longrightarrow> captured row db'"
    using cap eq(2) by simp
  show "b \<Longrightarrow> td_foundations db' = filter (\<lambda>r. kf_tree r \<noteq> tid) (td_foundations db)
       \<and> td_objects db' = deleteOntologyObjectsForTree tid (td_objects db)" using hit eq by simp
  show "keeps_history db db'" using ok1 more cap rows eq(2) by (intro keeps_historyI) auto
qed

text \<open>A guarded removal either removes or leaves the store alone.\<close>

lemma guarded_delete_cases:
  assumes "deleteEnterpriseWorkflowTreeIfUnchanged env tid guard db = Inr (reason, db')"
  shows "db' = db \<and> reason \<noteq> None \<or> (\<exists>b row. deleteEnterpriseWorkflowTree tid db = Inr (b, db') \<and> reason = (if b then None else Some DeleteNotFound)
    \<and> live_row tid db = Some row \<and> (case guard of
        ExpectHash h \<Rightarrow> \<exists>rec. rowToRecord env row = Inr rec \<and> hash_tree env (it_tree rec) = h
      | ExpectInvalid fp \<Rightarrow> (\<exists>message. rowToRecord env row = Inl message) \<and> hash_row env row = fp))"
proof (cases "live_row tid db")
  case None
  then show ?thesis using assms by (auto simp: deleteEnterpriseWorkflowTreeIfUnchanged_def)
next
  case (Some row)
  have gone: "\<exists>b. deleteEnterpriseWorkflowTree tid db = Inr (b, db') \<and> reason = (if b then None else Some DeleteNotFound)"
    if "removed_or_missing (deleteEnterpriseWorkflowTree tid db) = Inr (reason, db')"
  proof -
    from that obtain r where r: "deleteEnterpriseWorkflowTree tid db = Inr r"
      "(case r of (removed, d) \<Rightarrow> Inr (if removed then None else Some DeleteNotFound, d)) = (Inr (reason, db') :: (DeleteRefusal option \<times> TreeDb) result)"
      unfolding removed_or_missing_def bind_result_Inr by blast
    from r(2) have "reason = (if fst r then None else Some DeleteNotFound)" "snd r = db'" by (cases r, simp)+
    then show ?thesis using r(1) by (intro exI [of _ "fst r"]) (cases r, simp)
  qed
  let ?gone = "removed_or_missing (deleteEnterpriseWorkflowTree tid db)"
  let ?held = "case guard of ExpectHash h \<Rightarrow> \<exists>rec. rowToRecord env row = Inr rec \<and> hash_tree env (it_tree rec) = h
    | ExpectInvalid fp \<Rightarrow> (\<exists>message. rowToRecord env row = Inl message) \<and> hash_row env row = fp"
  have branches: "deleteEnterpriseWorkflowTreeIfUnchanged env tid guard db = (if ?held then ?gone
      else Inr (Some (case (guard, rowToRecord env row) of (ExpectHash _, Inl _) \<Rightarrow> DeleteUnavailable | _ \<Rightarrow> DeleteChanged), db))"
    using Some by (cases guard; cases "rowToRecord env row") (simp_all add: deleteEnterpriseWorkflowTreeIfUnchanged_def)
  show ?thesis
  proof (cases ?held)
    case True
    then have "?gone = Inr (reason, db')" using assms unfolding branches by (simp only: if_True)
    from gone [OF this] show ?thesis using True Some by blast
  next
    case False
    then show ?thesis using assms unfolding branches by (simp only: if_False Inr_inject prod.inject) auto
  qed
qed

lemma upsert_cases:
  assumes "upsertEnterpriseWorkflowTree env tree f now bundled p db = Inr (answer, db')"
  shows "(\<exists>reason. answer = NotUpserted reason \<and> db' = db \<and> (\<exists>q. p = Some q \<and> upsert_refusal env db tree q = Some reason))
    \<or> (answer = Upserted (live_row (tree_id tree) db \<noteq> None) \<and> write_tree tree f now bundled db = Inr db'
       \<and> (\<forall>q. p = Some q \<longrightarrow> upsert_refusal env db tree q = None))"
  using assms by (auto simp: upsertEnterpriseWorkflowTree_def bind_result_Inr split: option.splits sum.splits)

lemma write_keeps:
  assumes ok: "tree_store_ok db" and valid: "validateWorkflowTreeDefinition tree"
    and wrote: "write_tree tree f now bundled db = Inr db'"
  shows "keeps_history db db'"
proof (rule keeps_historyI)
  note e = write_tree_effect [OF ok valid wrote]
  show "tree_store_ok db'" "\<exists>more. td_versions db' = td_versions db @ more" using e(1,2) by auto
  show "row \<in> set (td_trees db') \<or> captured row db'" if "row \<in> set (td_trees db)" "isRestorableTreeRow row" for row
    using e(4,5) that by (cases "wt_tree row = tree_id tree") auto
qed

lemma perform_keeps:
  assumes ok: "tree_store_ok db" and adm: "tree_admissible db op"
  shows "keeps_history db (tree_perform env op db)"
proof (cases op)
  case (SaveTree tree f now bundled p)
  show ?thesis
  proof (cases "upsertEnterpriseWorkflowTree env tree f now bundled p db")
    case (Inr r)
    then obtain answer db' where r: "upsertEnterpriseWorkflowTree env tree f now bundled p db = Inr (answer, db')" by (cases r) simp
    have "keeps_history db db'" using upsert_cases [OF r] write_keeps [OF ok] adm ok SaveTree by auto
    with r SaveTree show ?thesis by (simp add: committed_def)
  qed (use ok SaveTree in \<open>simp add: committed_def\<close>)
next
  case (RemoveTree tid)
  then show ?thesis using ok delete_keeps [OF ok] by (auto simp: committed_def split: sum.split)
next
  case (RemoveTreeIf tid guard)
  have "keeps_history db db'" if "deleteEnterpriseWorkflowTreeIfUnchanged env tid guard db = Inr (reason, db')" for reason db'
    using guarded_delete_cases [OF that] delete_keeps [OF ok] ok by auto
  then show ?thesis using ok RemoveTreeIf by (auto simp: committed_def split: sum.split)
qed

interpretation trees: guarded_system "\<lambda>db. tree_store_ok db \<and> keeps_history db0 db" tree_admissible "tree_perform env"
  for db0 env
proof unfold_locales
  fix db op
  assume "tree_store_ok db \<and> keeps_history db0 db" "tree_admissible db op"
  then have "keeps_history db0 db" and step: "keeps_history db (tree_perform env op db)" by (simp_all add: perform_keeps)
  then have "keeps_history db0 (tree_perform env op db)" by (rule keeps_trans)
  with step show "tree_store_ok (tree_perform env op db) \<and> keeps_history db0 (tree_perform env op db)"
    by (simp add: keeps_history_def)
qed

section \<open>Reading the history\<close>

lemma one_revision:
  assumes ok: "tree_store_ok db" and v: "v \<in> set (td_versions db)"
  shows "List.find (\<lambda>q. tv_tree q = tv_tree v \<and> tv_revision q = tv_revision v) (td_versions db) = Some v"
proof -
  have "distinct (map tv_revision (revisions (tv_tree v) db))" unfolding tree_store_okD(2) [OF ok] by simp
  moreover have "v \<in> set (revisions (tv_tree v) db)" using v by (simp add: revisions_def)
  ultimately have "filter (\<lambda>q. tv_revision q = tv_revision v) (revisions (tv_tree v) db) = [v]" by (rule filter_key)
  then have "filter (\<lambda>q. tv_tree q = tv_tree v \<and> tv_revision q = tv_revision v) (td_versions db) = [v]"
    by (simp add: revisions_def conj_commute)
  then show ?thesis by (simp add: find_head_filter)
qed

lemma revision_readable:
  assumes ok: "tree_store_ok db" and v: "v \<in> set (td_versions db)"
  obtains d where "getEnterpriseWorkflowTreeVersion env (tv_tree v) (tv_revision v) db = Inr (Some d)"
    "DefinitionOf (vd_tree d) = tv_definition v" "vd_revision d = tv_revision v"
  using one_revision [OF ok v] tree_store_okD(3) [OF ok v]
  by (auto simp: getEnterpriseWorkflowTreeVersion_def version_ok_def)

lemma live_row_iff:
  "tree_store_ok db \<Longrightarrow> live_row tid db = Some r \<longleftrightarrow> r \<in> set (td_trees db) \<and> wt_tree r = tid"
proof -
  assume ok: "tree_store_ok db"
  have "live_row tid db = Some r" if "r \<in> set (td_trees db)" "wt_tree r = tid"
    using filter_key [OF tree_store_okD(1) [OF ok] that(1)] that(2) by (simp add: live_row_def find_head_filter)
  then show ?thesis using live_row_Some by blast
qed

lemma live_row_None: "live_row tid db = None \<longleftrightarrow> (\<forall>r \<in> set (td_trees db). wt_tree r \<noteq> tid)"
  by (auto simp: live_row_def find_None_iff)

lemma same_live_row:
  assumes "tree_store_ok db" "tree_store_ok db'"
    and "\<And>r. wt_tree r = tid \<Longrightarrow> r \<in> set (td_trees db') \<longleftrightarrow> r \<in> set (td_trees db)"
  shows "live_row tid db' = live_row tid db"
proof (cases "live_row tid db")
  case None
  then have "live_row tid db' = None" using assms(3) unfolding live_row_None by blast
  with None show ?thesis by simp
next
  case (Some r)
  then have "live_row tid db' = Some r"
    using assms(3) [of r] by (simp add: live_row_iff [OF assms(1)] live_row_iff [OF assms(2)])
  with Some show ?thesis by simp
qed

lemma captured_readable:
  assumes ok: "tree_store_ok db" and c: "captured row db"
  shows "\<exists>n d. getEnterpriseWorkflowTreeVersion env (wt_tree row) n db = Inr (Some d) \<and> DefinitionOf (vd_tree d) = wt_definition row"
proof -
  from c obtain v where v: "v \<in> set (td_versions db)" "tv_tree v = wt_tree row" "tv_definition v = wt_definition row"
    by (auto simp: captured_def)
  from revision_readable [OF ok v(1), of env] show ?thesis by (metis v(2,3))
qed

section \<open>Properties of the store\<close>

text \<open>
  C25. No definition is lost: from any consistent store, whatever saves and removals follow, the revisions kept
  so far stay, the revisions of every tree are numbered from one without a gap, each of them can be read back,
  and a valid definition that was live is live still or is one of the readable revisions.
\<close>

theorem definitions_are_never_lost:
  assumes ok: "tree_store_ok db0" and run: "run_ops tree_admissible (tree_perform env) ops db0 = Some db"
  shows "(\<exists>more. td_versions db = td_versions db0 @ more)
    \<and> (\<forall>tid. map tv_revision (revisions tid db) = [1..<Suc (length (revisions tid db))])
    \<and> (\<forall>v \<in> set (td_versions db). \<exists>d. getEnterpriseWorkflowTreeVersion env (tv_tree v) (tv_revision v) db = Inr (Some d)
         \<and> DefinitionOf (vd_tree d) = tv_definition v)
    \<and> (\<forall>row \<in> set (td_trees db0). isRestorableTreeRow row \<longrightarrow> row \<in> set (td_trees db)
         \<or> (\<exists>n d. getEnterpriseWorkflowTreeVersion env (wt_tree row) n db = Inr (Some d)
              \<and> DefinitionOf (vd_tree d) = wt_definition row))"
proof (intro conjI allI ballI impI)
  have k: "tree_store_ok db \<and> keeps_history db0 db"
    using trees.run_keeps [of db0 db0 env ops db] ok run by simp
  then have okd: "tree_store_ok db" by simp
  show "\<exists>more. td_versions db = td_versions db0 @ more" using k by (simp add: keeps_history_def)
  show "map tv_revision (revisions tid db) = [1..<Suc (length (revisions tid db))]" for tid
    using okd by (rule tree_store_okD(2))
  show "\<exists>d. getEnterpriseWorkflowTreeVersion env (tv_tree v) (tv_revision v) db = Inr (Some d) \<and> DefinitionOf (vd_tree d) = tv_definition v"
    if "v \<in> set (td_versions db)" for v using revision_readable [OF okd that, of env] by blast
  show "row \<in> set (td_trees db) \<or> (\<exists>n d. getEnterpriseWorkflowTreeVersion env (wt_tree row) n db = Inr (Some d)
              \<and> DefinitionOf (vd_tree d) = wt_definition row)"
    if "row \<in> set (td_trees db0)" "isRestorableTreeRow row" for row
    using k that captured_readable [OF okd, of row env] unfolding keeps_history_def by blast
qed

text \<open>What a caller states before a save, read off the store.\<close>

fun guard_holds :: "TreeEnv \<Rightarrow> TreeDb \<Rightarrow> EnterpriseId \<Rightarrow> UpsertPrecondition \<Rightarrow> bool" where
  "guard_holds env db tid CreateOnly = (live_row tid db = None)"
| "guard_holds env db tid (ExpectedHash h source) = (case getEnterpriseWorkflowTree env tid db of
     Inl _ \<Rightarrow> False
   | Inr None \<Rightarrow> source = SourceBuiltin
   | Inr (Some rec) \<Rightarrow> source = SourceImported \<and> hash_tree env (it_tree rec) = h)"
| "guard_holds env db tid (ExpectedBundleState i source expected fingerprint) = (i = tid
     \<and> (case getEnterpriseWorkflowTree env tid db of
          Inl _ \<Rightarrow> False
        | Inr None \<Rightarrow> source \<noteq> Some SourceImported
        | Inr (Some rec) \<Rightarrow> source = Some SourceImported \<and> expected = Some (hash_tree env (it_tree rec)))
     \<and> fingerprintBundledKnowledgeForTreeFromDatabase env db tid = fingerprint)"

lemma guard_iff: "upsert_refusal env db tree p = None \<longleftrightarrow> guard_holds env db (tree_id tree) p"
proof (cases p)
  case CreateOnly
  then show ?thesis by simp
next
  case (ExpectedHash h source)
  then show ?thesis
    by (cases "live_row (tree_id tree) db"; cases source)
      (auto simp: getEnterpriseWorkflowTree_def hash_refusal_def split: sum.splits)
next
  case (ExpectedBundleState i source expected fp)
  then show ?thesis
    by (cases "live_row (tree_id tree) db")
      (auto simp: getEnterpriseWorkflowTree_def hash_refusal_def split: sum.splits)
qed

lemma insert_version_local:
  "insert_version v db = Inr db' \<Longrightarrow> td_trees db' = td_trees db \<and> td_foundations db' = td_foundations db
     \<and> td_objects db' = td_objects db \<and> (tid \<noteq> tv_tree v \<longrightarrow> revisions tid db' = revisions tid db)"
  by (auto simp: insert_version_def revisions_def split: if_splits)

lemma snapshot_local:
  assumes "snapshotCurrentTreeRow tid db = Inr (n, db')"
  shows "td_trees db' = td_trees db \<and> td_foundations db' = td_foundations db \<and> td_objects db' = td_objects db
     \<and> (t \<noteq> tid \<longrightarrow> revisions t db' = revisions t db)"
proof (cases "live_row tid db")
  case None
  then show ?thesis using assms by (simp add: snapshotCurrentTreeRow_def Let_def)
next
  case (Some r)
  then have "wt_tree r = tid" using live_row_Some by blast
  with Some assms show ?thesis
    using insert_version_local [where tid = t and db' = db' and db = db]
    by (fastforce simp: snapshotCurrentTreeRow_def Let_def split: if_splits)
qed

text \<open>The row an inlined foundation becomes.\<close>

definition bundle_row :: "EnterpriseId \<Rightarrow> int \<Rightarrow> BundledKnowledgeFoundation \<Rightarrow> BundledFoundationRow" where
  "bundle_row tid now f = \<lparr> kf_tree = tid, kf_foundation = bf_id f, kf_descriptor = bf_descriptor f, kf_snippets = bf_snippets f,
     kf_imported = now, kf_updated = now \<rparr>"

lemma insert_foundations_rows:
  "insert_foundations tid now fs db = Inr db' \<Longrightarrow> td_foundations db' = td_foundations db @ map (bundle_row tid now) fs"
proof (induction fs arbitrary: db)
  case (Cons f fs)
  from Cons.prems obtain db1 where "insert_foundation (bundle_row tid now f) db = Inr db1" "insert_foundations tid now fs db1 = Inr db'"
    by (auto simp: bundle_row_def)
  with Cons.IH [of db1] show ?case by (auto simp: insert_foundation_def split: if_splits)
qed simp

lemma replace_foundations_rows:
  "replaceBundledKnowledgeFoundationsForTree tid fs now db = Inr db' \<Longrightarrow>
   filter (\<lambda>r. kf_tree r = tid) (td_foundations db') = map (bundle_row tid now) fs"
  by (auto simp: replaceBundledKnowledgeFoundationsForTree_def deleteBundledKnowledgeFoundationsForTree_def bundle_row_def
      filter_map comp_def dest!: insert_foundations_rows)

lemma write_tree_local:
  assumes "write_tree tree f now bundled db = Inr db'"
  shows "row \<in> set (td_trees db') \<Longrightarrow> wt_tree row \<noteq> tree_id tree \<Longrightarrow> row \<in> set (td_trees db)"
    "t \<noteq> tree_id tree \<Longrightarrow> revisions t db' = revisions t db"
    "filter (\<lambda>r. kf_tree r \<noteq> tree_id tree) (td_foundations db') = filter (\<lambda>r. kf_tree r \<noteq> tree_id tree) (td_foundations db)"
    "filter (\<lambda>r. kf_tree r = tree_id tree) (td_foundations db')
       = (case bundled of Some fs \<Rightarrow> map (bundle_row (tree_id tree) now) fs
          | None \<Rightarrow> filter (\<lambda>r. kf_tree r = tree_id tree) (td_foundations db))"
    "td_objects db' = td_objects db"
proof -
  let ?tid = "tree_id tree"
  obtain n db1 db2 where s: "snapshotCurrentTreeRow ?tid db = Inr (n, db1)"
    and i: "insert_version (saved_version tree f now (n + 1)) (put_tree tree f now db1) = Inr db2"
    and r: "(case bundled of None \<Rightarrow> Inr db2 | Some fs \<Rightarrow> replaceBundledKnowledgeFoundationsForTree ?tid fs now db2) = Inr db'"
    using assms by (auto simp: write_tree_def saved_version_def)
  note s = snapshot_local [OF s]
  note i = insert_version_local [OF i]
  have tv: "tv_tree (saved_version tree f now (n + 1)) = ?tid" by (simp add: saved_version_def)
  note rep = replace_foundations_effect [of ?tid _ now db2 db'] and rows = replace_foundations_rows [of ?tid _ now db2 db']
  show "row \<in> set (td_trees db)" if row: "row \<in> set (td_trees db')" "wt_tree row \<noteq> ?tid"
  proof -
    have "td_trees db' = td_trees db2" using r rep(1) by (auto split: option.splits)
    with row have "row \<in> set (td_trees (put_tree tree f now db1))" using i by simp
    then show ?thesis using row(2) s by (auto simp: put_tree_def split: if_splits)
  qed
  show "revisions t db' = revisions t db" if "t \<noteq> ?tid"
  proof -
    have "td_versions db' = td_versions db2" using r rep(2) by (auto split: option.splits)
    then have "revisions t db' = revisions t db2" by (simp add: revisions_def)
    also have "\<dots> = revisions t db" using i [of t] s [of t] tv that by simp
    finally show ?thesis .
  qed
  show "filter (\<lambda>r. kf_tree r \<noteq> ?tid) (td_foundations db') = filter (\<lambda>r. kf_tree r \<noteq> ?tid) (td_foundations db)"
    "filter (\<lambda>r. kf_tree r = ?tid) (td_foundations db')
       = (case bundled of Some fs \<Rightarrow> map (bundle_row ?tid now) fs | None \<Rightarrow> filter (\<lambda>r. kf_tree r = ?tid) (td_foundations db))"
    "td_objects db' = td_objects db"
    using r rep(3,4) rows i s by (auto split: option.splits)
qed

text \<open>
  C26. A save acts only on the state its caller saw: it goes through exactly when the precondition, if any,
  holds of what the store returns for the tree, and a refusal changes nothing. A save that goes through says
  whether it replaced a row; then the store returns the saved definition, it is the newest revision, and the
  rows of the knowledge the tree owns are exactly those of the bundle, or as before when the save carries none. No
  other tree's row, revisions or knowledge changed, and no object or link of any tree, its own included.
\<close>

theorem saves_respect_their_guard:
  assumes ok: "tree_store_ok db" and valid: "validateWorkflowTreeDefinition tree"
    and saved: "upsertEnterpriseWorkflowTree env tree f now bundled p db = Inr (answer, db')"
  shows "if \<forall>q. p = Some q \<longrightarrow> guard_holds env db (tree_id tree) q
    then answer = Upserted (live_row (tree_id tree) db \<noteq> None)
      \<and> (\<exists>rec. getEnterpriseWorkflowTree env (tree_id tree) db' = Inr (Some rec) \<and> it_tree rec = tree \<and> it_sourceFormat rec = f
           \<and> it_updatedAt rec = now)
      \<and> (\<exists>v. latest_revision (tree_id tree) db' = Some v \<and> tv_definition v = DefinitionOf tree \<and> tv_saved v = now)
      \<and> filter (\<lambda>r. kf_tree r = tree_id tree) (td_foundations db')
           = (case bundled of Some fs \<Rightarrow> map (bundle_row (tree_id tree) now) fs
              | None \<Rightarrow> filter (\<lambda>r. kf_tree r = tree_id tree) (td_foundations db))
      \<and> td_objects db' = td_objects db
      \<and> (\<forall>t. t \<noteq> tree_id tree \<longrightarrow> live_row t db' = live_row t db \<and> revisions t db' = revisions t db
           \<and> filter (\<lambda>r. kf_tree r = t) (td_foundations db') = filter (\<lambda>r. kf_tree r = t) (td_foundations db))
    else (\<exists>reason. answer = NotUpserted reason) \<and> db' = db"
proof (cases "\<forall>q. p = Some q \<longrightarrow> guard_holds env db (tree_id tree) q")
  case False
  then show ?thesis using upsert_cases [OF saved] guard_iff [of env db tree] by auto
next
  case True
  let ?tid = "tree_id tree"
  from True have "\<forall>q. p = Some q \<longrightarrow> upsert_refusal env db tree q = None" by (simp add: guard_iff)
  then have a: "answer = Upserted (live_row ?tid db \<noteq> None)" and w: "write_tree tree f now bundled db = Inr db'"
    using upsert_cases [OF saved] by auto
  note e = write_tree_effect [OF ok valid w]
  note l = write_tree_local [OF w]
  have row: "\<exists>rec. getEnterpriseWorkflowTree env ?tid db' = Inr (Some rec) \<and> it_tree rec = tree \<and> it_sourceFormat rec = f \<and> it_updatedAt rec = now"
    using e(3) valid by (auto simp: getEnterpriseWorkflowTree_def rowToRecord_def)
  have rev: "\<exists>v. latest_revision ?tid db' = Some v \<and> tv_definition v = DefinitionOf tree \<and> tv_saved v = now"
    using e(2) latest_last [OF e(1)] by (auto simp: saved_version_def)
  have other: "live_row t db' = live_row t db" if "t \<noteq> ?tid" for t
    by (rule same_live_row [OF ok e(1)]) (use e(4) l(1) that in blast)
  have found: "filter (\<lambda>r. kf_tree r = t) (td_foundations db') = filter (\<lambda>r. kf_tree r = t) (td_foundations db)" if "t \<noteq> ?tid" for t
    using arg_cong [OF l(3), where f = "filter (\<lambda>r. kf_tree r = t)"] that by (simp add: conj_commute cong: conj_cong)
  show ?thesis using True a row rev l(2,4,5) other found by simp
qed

text \<open>
  A guarded removal removes what its caller saw or nothing: a refusal leaves the store as it was, and a
  removal that goes through found the row the guard describes, takes the row, the knowledge, the objects and
  the links of that tree with it, leaves every other tree's, and keeps the definition as a readable revision
  when it was valid.
\<close>

theorem removal_takes_exactly_one_tree:
  assumes ok: "tree_store_ok db" and del: "deleteEnterpriseWorkflowTreeIfUnchanged env tid guard db = Inr (reason, db')"
  shows "if reason = None
    then (\<exists>row. live_row tid db = Some row
        \<and> (case guard of
             ExpectHash h \<Rightarrow> \<exists>rec. rowToRecord env row = Inr rec \<and> hash_tree env (it_tree rec) = h
           | ExpectInvalid fp \<Rightarrow> (\<exists>message. rowToRecord env row = Inl message) \<and> hash_row env row = fp)
        \<and> (isRestorableTreeRow row \<longrightarrow> (\<exists>n d. getEnterpriseWorkflowTreeVersion env tid n db' = Inr (Some d)
             \<and> DefinitionOf (vd_tree d) = wt_definition row)))
      \<and> td_trees db' = filter (\<lambda>r. wt_tree r \<noteq> tid) (td_trees db)
      \<and> td_foundations db' = filter (\<lambda>r. kf_tree r \<noteq> tid) (td_foundations db)
      \<and> db_objects (td_objects db') = filter (\<lambda>r. row_tree r \<noteq> tid) (db_objects (td_objects db))
      \<and> db_links (td_objects db') = filter (\<lambda>r. lrow_tree r \<noteq> tid) (db_links (td_objects db))
    else db' = db"
proof (cases "reason = None")
  case True
  with guarded_delete_cases [OF del] obtain b row where d: "deleteEnterpriseWorkflowTree tid db = Inr (b, db')" and row: "live_row tid db = Some row"
    and held: "case guard of ExpectHash h \<Rightarrow> \<exists>rec. rowToRecord env row = Inr rec \<and> hash_tree env (it_tree rec) = h
       | ExpectInvalid fp \<Rightarrow> (\<exists>message. rowToRecord env row = Inl message) \<and> hash_row env row = fp" by blast
  have mem: "row \<in> set (td_trees db)" "wt_tree row = tid" using live_row_Some [OF row] by auto
  then have hit: "list_ex (\<lambda>r. wt_tree r = tid) (td_trees db)" by (auto simp: list_ex_iff)
  note e = delete_keeps [OF ok d]
  have "b" using e(2) hit by simp
  have okd: "tree_store_ok db'" using e(1) by (simp add: keeps_history_def)
  have "isRestorableTreeRow row \<Longrightarrow> captured row db'" using e(4) mem by blast
  then show ?thesis using True row held captured_readable [OF okd, of row env] mem(2) e(3) e(5) [OF \<open>b\<close>]
    by (simp add: deleteOntologyObjectsForTree_def)
next
  case False
  from guarded_delete_cases [OF del] have "db' = db"
  proof
    assume "\<exists>b row. deleteEnterpriseWorkflowTree tid db = Inr (b, db') \<and> reason = (if b then None else Some DeleteNotFound)
      \<and> live_row tid db = Some row \<and> (case guard of ExpectHash h \<Rightarrow> \<exists>rec. rowToRecord env row = Inr rec \<and> hash_tree env (it_tree rec) = h
        | ExpectInvalid fp \<Rightarrow> (\<exists>message. rowToRecord env row = Inl message) \<and> hash_row env row = fp)"
    then obtain b row where "deleteEnterpriseWorkflowTree tid db = Inr (b, db')" "\<not> b" "live_row tid db = Some row"
      using False by (auto split: if_splits)
    then have False using delete_keeps(2) [OF ok] live_row_Some [of tid db row] by (auto simp: list_ex_iff)
    then show ?thesis ..
  qed simp
  then show ?thesis using False by (simp only: if_False)
qed

section \<open>A concrete store\<close>

definition sample_env :: TreeEnv where
  "sample_env = \<lparr> hash_tree = tree_version, hash_row = wt_version, hash_foundations = (\<lambda>fs. show_nat (length fs)),
     first_issue = (\<lambda>_. ''invalid'') \<rparr>"

text \<open>A row that is older than the revision history, and another tree.\<close>

definition sample_row :: EnterpriseTreeRow where
  "sample_row = \<lparr> wt_tree = ''claims'', wt_version = ''1'', wt_name = ''Claims'', wt_definition = DefinitionOf sample_tree,
     wt_format = ''yaml'', wt_imported = 1, wt_updated = 2 \<rparr>"

definition broken_row :: EnterpriseTreeRow where
  "broken_row = sample_row \<lparr> wt_tree := ''billing'', wt_definition := NotJson ''Unexpected token'' \<rparr>"

definition sample_store :: TreeDb where
  "sample_store = \<lparr> td_trees = [sample_row, broken_row], td_versions = [], td_foundations = [], td_objects = \<lparr> db_objects = [], db_links = [] \<rparr> \<rparr>"

lemma sample_valid: "validateWorkflowTreeDefinition sample_tree" "validateWorkflowTreeDefinition (sample_tree \<lparr> tree_version := ''2'' \<rparr>)"
  by code_simp+

lemma sample_store_ok: "tree_store_ok sample_store"
  by (simp add: tree_store_ok_def sample_store_def revisions_def sample_row_def broken_row_def)

lemma sample_tree_id: "tree_id sample_tree = ''claims''"
  by (simp add: sample_tree_def)

lemma sample_restorable: "isRestorableTreeRow sample_row"
  using sample_valid(1) by (simp add: isRestorableTreeRow_def sample_row_def sample_tree_id)

lemma definitions_are_never_lost_witness:
  "\<exists>db. run_ops tree_admissible (tree_perform sample_env)
       [SaveTree (sample_tree \<lparr> tree_version := ''2'' \<rparr>) FormatJson 9 None None, RemoveTree ''claims''] sample_store = Some db
     \<and> (\<exists>n d. getEnterpriseWorkflowTreeVersion sample_env ''claims'' n db = Inr (Some d) \<and> vd_tree d = sample_tree)"
proof -
  let ?ops = "[SaveTree (sample_tree \<lparr> tree_version := ''2'' \<rparr>) FormatJson 9 None None, RemoveTree ''claims'']"
  let ?db = "tree_perform sample_env (?ops ! 1) (tree_perform sample_env (?ops ! 0) sample_store)"
  have run: "run_ops tree_admissible (tree_perform sample_env) ?ops sample_store = Some ?db" using sample_valid(2) by simp
  have gone: "sample_row \<notin> set (td_trees ?db)" by code_simp
  have "sample_row \<in> set (td_trees sample_store)" by (simp add: sample_store_def)
  then have "\<exists>n d. getEnterpriseWorkflowTreeVersion sample_env (wt_tree sample_row) n ?db = Inr (Some d)
      \<and> DefinitionOf (vd_tree d) = wt_definition sample_row"
    using definitions_are_never_lost [OF sample_store_ok run] sample_restorable gone by blast
  then show ?thesis using run by (auto simp: sample_row_def)
qed

lemma saves_respect_their_guard_witness:
  "\<exists>answer db'. upsertEnterpriseWorkflowTree sample_env (sample_tree \<lparr> tree_version := ''2'' \<rparr>) FormatJson 9 None
       (Some (ExpectedHash ''1'' SourceImported)) sample_store = Inr (answer, db') \<and> answer = Upserted True
     \<and> (\<exists>rec. getEnterpriseWorkflowTree sample_env ''claims'' db' = Inr (Some rec) \<and> tree_version (it_tree rec) = ''2'')"
proof -
  let ?tree = "sample_tree \<lparr> tree_version := ''2'' \<rparr>"
  let ?r = "upsertEnterpriseWorkflowTree sample_env ?tree FormatJson 9 None (Some (ExpectedHash ''1'' SourceImported)) sample_store"
  have "case ?r of Inl _ \<Rightarrow> False | Inr _ \<Rightarrow> True" by code_simp
  then obtain answer db' where r: "?r = Inr (answer, db')" by (cases ?r) auto
  have id: "tree_id ?tree = ''claims''" by (simp add: sample_tree_id)
  have "guard_holds sample_env sample_store ''claims'' (ExpectedHash ''1'' SourceImported)" by code_simp
  moreover have "live_row ''claims'' sample_store \<noteq> None" by code_simp
  ultimately show ?thesis using saves_respect_their_guard [OF sample_store_ok sample_valid(2) r] r unfolding id by auto
qed

lemma removal_takes_exactly_one_tree_witness:
  "\<exists>db'. deleteEnterpriseWorkflowTreeIfUnchanged sample_env ''claims'' (ExpectHash ''1'') sample_store = Inr (None, db')
     \<and> td_trees db' = [broken_row]
     \<and> (\<exists>n d. getEnterpriseWorkflowTreeVersion sample_env ''claims'' n db' = Inr (Some d) \<and> vd_tree d = sample_tree)"
proof -
  let ?r = "deleteEnterpriseWorkflowTreeIfUnchanged sample_env ''claims'' (ExpectHash ''1'') sample_store"
  have "case ?r of Inl _ \<Rightarrow> False | Inr (reason, _) \<Rightarrow> reason = None" by code_simp
  then obtain db' where r: "?r = Inr (None, db')" by (cases ?r) auto
  have live: "live_row ''claims'' sample_store = Some sample_row"
    by (simp add: live_row_def sample_store_def sample_row_def)
  have rest: "filter (\<lambda>q. wt_tree q \<noteq> ''claims'') (td_trees sample_store) = [broken_row]"
    by (simp add: sample_store_def sample_row_def broken_row_def)
  show ?thesis using removal_takes_exactly_one_tree [OF sample_store_ok r] r live rest sample_restorable
    by (auto simp: sample_row_def)
qed

end
