(* ===== verification/Registry_Properties.thy ===== *)
theory Registry_Properties
  imports Tree_Properties
begin

text \<open>
  What a process sees of the stored work-maps: every row as a definition or as an error, an import over a
  built-in tree of the same id, and an exported definition as the one that was imported.
\<close>

section \<open>Lookups\<close>

lemma find_key_iff: "distinct (map f xs) \<Longrightarrow> List.find (\<lambda>x. f x = k) xs = Some x \<longleftrightarrow> x \<in> set xs \<and> f x = k"
  by (induction xs) auto

lemma find_key_perm:
  "distinct (map f xs) \<Longrightarrow> mset ys = mset xs \<Longrightarrow> List.find (\<lambda>x. f x = k) ys = List.find (\<lambda>x. f x = k) xs"
proof (rule option.expand)
  assume d: "distinct (map f xs)" and m: "mset ys = mset xs"
  then have d': "distinct (map f ys)" by (metis mset_eq_imp_distinct_iff mset_map)
  have s: "set ys = set xs" using m by (metis set_mset_mset)
  show "(List.find (\<lambda>x. f x = k) ys = None) = (List.find (\<lambda>x. f x = k) xs = None)" by (simp add: find_None_iff s)
  fix a b
  assume "List.find (\<lambda>x. f x = k) ys \<noteq> None" "List.find (\<lambda>x. f x = k) xs \<noteq> None"
  then obtain u v where "List.find (\<lambda>x. f x = k) ys = Some u" "List.find (\<lambda>x. f x = k) xs = Some v" by auto
  moreover from this have "List.find (\<lambda>x. f x = k) xs = Some u" using s by (simp add: find_key_iff [OF d] find_key_iff [OF d'])
  ultimately show "the (List.find (\<lambda>x. f x = k) ys) = the (List.find (\<lambda>x. f x = k) xs)" by simp
qed

definition entries_ok :: "(EnterpriseId \<times> WorkflowTreeRegistryEntry) list \<Rightarrow> bool" where
  "entries_ok m \<longleftrightarrow> distinct (map fst m) \<and> map fst m = map (\<lambda>e. tree_id (en_tree e)) (map snd m)"

lemma update_entry_ok: "entries_ok m \<Longrightarrow> entries_ok (register_entry source tree m)"
proof -
  assume ok: "entries_ok m"
  have "map fst m = map (\<lambda>e. tree_id (en_tree e)) (map snd m) \<Longrightarrow>
      map fst (AList.update (tree_id tree) \<lparr> en_tree = tree, en_source = source \<rparr> m)
        = map (\<lambda>e. tree_id (en_tree e)) (map snd (AList.update (tree_id tree) \<lparr> en_tree = tree, en_source = source \<rparr> m))"
    by (induction m) auto
  with ok show ?thesis by (simp add: entries_ok_def register_entry_def distinct_update)
qed

lemma entries_ok_fold: "entries_ok m \<Longrightarrow> entries_ok (fold (register_entry source) ts m)"
  by (induction ts arbitrary: m) (auto intro: update_entry_ok)

lemma fold_register:
  "map_of (fold (register_entry source) ts m) i = (case List.find (\<lambda>t. tree_id t = i) (rev ts) of
     Some t \<Rightarrow> Some \<lparr> en_tree = t, en_source = source \<rparr> | None \<Rightarrow> map_of m i)"
  by (induction ts arbitrary: m) (auto simp: find_append register_entry_def update_conv' split: option.split)

lemma find_entries: "entries_ok m \<Longrightarrow> List.find (\<lambda>e. tree_id (en_tree e) = i) (order_by entry_before (map snd m)) = map_of m i"
proof -
  assume ok: "entries_ok m"
  then have "distinct (map (\<lambda>e. tree_id (en_tree e)) (map snd m))" unfolding entries_ok_def by metis
  then have "List.find (\<lambda>e. tree_id (en_tree e) = i) (order_by entry_before (map snd m))
      = List.find (\<lambda>e. tree_id (en_tree e) = i) (map snd m)"
    by (rule find_key_perm [where f = "\<lambda>e. tree_id (en_tree e)"]) simp
  also have "\<dots> = map_of m i" using ok unfolding entries_ok_def by (induction m) (auto split: prod.splits)
  finally show ?thesis .
qed

section \<open>Rows read\<close>

definition row_record :: "TreeEnv \<Rightarrow> EnterpriseTreeRow \<Rightarrow> ImportedWorkflowTreeRecord option" where
  "row_record env row = (case rowToRecord env row of Inr rec \<Rightarrow> Some rec | Inl _ \<Rightarrow> None)"

definition row_error :: "TreeEnv \<Rightarrow> EnterpriseTreeRow \<Rightarrow> TreeRowError option" where
  "row_error env row = (case rowToRecord env row of Inr _ \<Rightarrow> None
     | Inl message \<Rightarrow> Some \<lparr> te_treeId = wt_tree row, te_message = message, te_fingerprint = hash_row env row \<rparr>)"

lemma read_rows:
  "fold (read_row env) rows acc = \<lparr> rd_records = rd_records acc @ List.map_filter (row_record env) rows,
     rd_rowErrors = rd_rowErrors acc @ List.map_filter (row_error env) rows \<rparr>"
  by (induction rows arbitrary: acc)
    (auto simp: read_row_def row_record_def row_error_def List.map_filter_simps split: sum.split)

lemma record_id: "rowToRecord env row = Inr rec \<Longrightarrow> tree_id (it_tree rec) = wt_tree row \<and> wt_definition row = DefinitionOf (it_tree rec)
    \<and> validateWorkflowTreeDefinition (it_tree rec)"
  by (auto simp: rowToRecord_def split: DefinitionText.splits if_splits)

lemma record_ids:
  "distinct (map wt_tree rows) \<Longrightarrow> distinct (map (\<lambda>r. tree_id (it_tree r)) (List.map_filter (row_record env) rows))
     \<and> set (map (\<lambda>r. tree_id (it_tree r)) (List.map_filter (row_record env) rows)) \<subseteq> set (map wt_tree rows)"
proof (induction rows)
  case (Cons row rows)
  then show ?case
    using record_id [of env row] by (cases "rowToRecord env row") (auto simp: row_record_def List.map_filter_simps)
qed (simp add: List.map_filter_simps)

lemma set_map_filter_iff: "set (List.map_filter g xs) = {y. \<exists>x \<in> set xs. g x = Some y}"
  by (force simp: List.map_filter_def image_iff)

lemma listed_records:
  assumes ok: "tree_store_ok db"
  shows "List.find (\<lambda>t. tree_id t = i) (rev (map it_tree (rd_records (listEnterpriseWorkflowTrees env db))))
      = (case live_row i db of Some row \<Rightarrow> map_option it_tree (row_record env row) | None \<Rightarrow> None)" (is "?found = ?live")
proof (rule option.expand)
  let ?rows = "order_by tree_row_before (td_trees db)"
  have recs: "rd_records (listEnterpriseWorkflowTrees env db) = List.map_filter (row_record env) ?rows"
    by (simp add: listEnterpriseWorkflowTrees_def read_rows)
  have "distinct (map wt_tree ?rows)" using tree_store_okD(1) [OF ok] by simp
  from record_ids [OF this, of env] have d: "distinct (map tree_id (rev (map it_tree (List.map_filter (row_record env) ?rows))))"
    by (simp add: rev_map [symmetric] comp_def)
  have found: "?found = Some t \<longleftrightarrow> (\<exists>row \<in> set (td_trees db). \<exists>rec. row_record env row = Some rec \<and> it_tree rec = t) \<and> tree_id t = i" for t
    unfolding recs find_key_iff [OF d] by (auto simp: set_map_filter_iff)
  have live: "?live = Some t \<longleftrightarrow> (\<exists>row \<in> set (td_trees db). wt_tree row = i \<and> (\<exists>rec. row_record env row = Some rec \<and> it_tree rec = t))" for t
  proof (cases "live_row i db")
    case None
    moreover from this have "\<forall>r \<in> set (td_trees db). wt_tree r \<noteq> i" by (simp only: live_row_None)
    ultimately show ?thesis by auto
  next
    case (Some r)
    then have only: "row \<in> set (td_trees db) \<and> wt_tree row = i \<longleftrightarrow> row = r" for row
      using live_row_iff [OF ok, of i row] by auto
    have "(\<exists>row \<in> set (td_trees db). wt_tree row = i \<and> P row) \<longleftrightarrow> P r" for P
      unfolding Bex_def conj_assoc [symmetric] only by simp
    then show ?thesis using Some by simp
  qed
  have id: "row_record env row = Some rec \<Longrightarrow> tree_id (it_tree rec) = wt_tree row" for row rec
    using record_id [of env row] by (auto simp: row_record_def split: sum.splits)
  have same: "?found = Some t \<longleftrightarrow> ?live = Some t" for t unfolding found live using id by fastforce
  show "(?found = None) = (?live = None)" using same by (metis option.exhaust)
  show "the ?found = the ?live" if "?found \<noteq> None" "?live \<noteq> None" using same that by (metis option.exhaust_sel)
qed

section \<open>Properties of the registry\<close>

definition builtin_entry :: "EnterpriseId \<Rightarrow> WorkflowTreeRegistryEntry option" where
  "builtin_entry i = map_option (\<lambda>t. \<lparr> en_tree = t, en_source = SourceBuiltin \<rparr>) (List.find (\<lambda>t. tree_id t = i) BUILTIN_WORKFLOW_TREES)"

lemma builtin_tree_ids: "distinct (map tree_id BUILTIN_WORKFLOW_TREES)"
  by code_simp

lemma builtin_entries: "map_of (fold (register_entry SourceBuiltin) BUILTIN_WORKFLOW_TREES []) i = builtin_entry i"
  using find_key_perm [OF builtin_tree_ids, of "rev BUILTIN_WORKFLOW_TREES" i]
  by (simp add: fold_register builtin_entry_def split: option.split)

lemma loaded_sorted:
  "sorted_wrt (\<lambda>a b. tree_id (en_tree a) < tree_id (en_tree b)) (sn_entries (loadRegistry env unreadable db))"
proof -
  have strict: "sorted_wrt (\<lambda>a b. tree_id (en_tree a) < tree_id (en_tree b)) (order_by entry_before (map snd m))" if "entries_ok m" for m
  proof -
    have "sorted_wrt entry_before (order_by entry_before (map snd m))"
      by (rule order_by_sorted) (auto simp: entry_before_def)
    then have "sorted (map (\<lambda>e. tree_id (en_tree e)) (order_by entry_before (map snd m)))"
      by (simp add: sorted_map entry_before_def [abs_def])
    moreover have "distinct (map (\<lambda>e. tree_id (en_tree e)) (order_by entry_before (map snd m)))"
      using that unfolding entries_ok_def distinct_map_order_by by (elim conjE) (erule subst)
    ultimately have "sorted_wrt (<) (map (\<lambda>e. tree_id (en_tree e)) (order_by entry_before (map snd m)))"
      using strict_sorted_iff by blast
    then show ?thesis by (simp only: sorted_wrt_map)
  qed
  have "entries_ok (fold (register_entry SourceBuiltin) BUILTIN_WORKFLOW_TREES [])"
    by (rule entries_ok_fold) (simp add: entries_ok_def)
  then show ?thesis by (auto simp: loadRegistry_def Let_def intro!: strict entries_ok_fold split: option.split)
qed

lemma loaded_entry:
  assumes ok: "tree_store_ok db"
  shows "getWorkflowTreeRegistryEntry (loadRegistry env None db) i = (case live_row i db of
      Some row \<Rightarrow> (case rowToRecord env row of Inr rec \<Rightarrow> Some \<lparr> en_tree = it_tree rec, en_source = SourceImported \<rparr> | Inl _ \<Rightarrow> builtin_entry i)
    | None \<Rightarrow> builtin_entry i)"
proof -
  let ?b = "fold (register_entry SourceBuiltin) BUILTIN_WORKFLOW_TREES []"
  let ?ts = "map it_tree (rd_records (listEnterpriseWorkflowTrees env db))"
  have "entries_ok ?b" by (rule entries_ok_fold) (simp add: entries_ok_def)
  then have "getWorkflowTreeRegistryEntry (loadRegistry env None db) i = map_of (fold (register_entry SourceImported) ?ts ?b) i"
    by (simp add: getWorkflowTreeRegistryEntry_def listWorkflowTreeRegistryEntries_def loadRegistry_def Let_def find_entries entries_ok_fold)
  then show ?thesis unfolding fold_register [of SourceImported] builtin_entries listed_records [OF ok]
    by (auto simp: row_record_def split: option.split sum.split)
qed

lemma loaded_errors:
  "x \<in> set (sn_importErrors (loadRegistry env None db)) \<longleftrightarrow> (\<exists>row \<in> set (td_trees db). row_error env row = Some x)"
  by (simp add: loadRegistry_def Let_def listEnterpriseWorkflowTrees_def read_rows set_map_filter_iff)

text \<open>
  The registry hides nothing the store holds: its entries are in strictly ascending order of tree id; every
  stored row that loads is the entry of its id, over a built-in tree of the same id, and every row that does not
  load is an import error with its message; an entry that is not an import is a built-in tree that no stored
  row replaces, and every built-in tree that no stored row replaces is an entry.
\<close>

theorem registry_hides_no_import:
  assumes ok: "tree_store_ok db"
  shows "sorted_wrt (\<lambda>a b. tree_id (en_tree a) < tree_id (en_tree b)) (sn_entries (loadRegistry env None db))
    \<and> (\<forall>row \<in> set (td_trees db). case rowToRecord env row of
         Inr rec \<Rightarrow> getWorkflowTreeRegistryEntry (loadRegistry env None db) (wt_tree row)
           = Some \<lparr> en_tree = it_tree rec, en_source = SourceImported \<rparr>
       | Inl message \<Rightarrow> \<lparr> te_treeId = wt_tree row, te_message = message, te_fingerprint = hash_row env row \<rparr>
           \<in> set (sn_importErrors (loadRegistry env None db)))
    \<and> (\<forall>i. (\<forall>row \<in> set (td_trees db). wt_tree row = i \<longrightarrow> (\<exists>message. rowToRecord env row = Inl message))
         \<longrightarrow> getWorkflowTreeRegistryEntry (loadRegistry env None db) i
             = map_option (\<lambda>t. \<lparr> en_tree = t, en_source = SourceBuiltin \<rparr>) (List.find (\<lambda>t. tree_id t = i) BUILTIN_WORKFLOW_TREES))"
proof (intro conjI ballI allI impI)
  show "sorted_wrt (\<lambda>a b. tree_id (en_tree a) < tree_id (en_tree b)) (sn_entries (loadRegistry env None db))"
    by (rule loaded_sorted)
  show "case rowToRecord env row of
         Inr rec \<Rightarrow> getWorkflowTreeRegistryEntry (loadRegistry env None db) (wt_tree row)
           = Some \<lparr> en_tree = it_tree rec, en_source = SourceImported \<rparr>
       | Inl message \<Rightarrow> \<lparr> te_treeId = wt_tree row, te_message = message, te_fingerprint = hash_row env row \<rparr>
           \<in> set (sn_importErrors (loadRegistry env None db))" if "row \<in> set (td_trees db)" for row
  proof -
    have "live_row (wt_tree row) db = Some row" using that by (simp add: live_row_iff [OF ok])
    then show ?thesis using that unfolding loaded_errors loaded_entry [OF ok]
      by (auto simp: row_error_def split: sum.split intro!: bexI [of _ row])
  qed
  show "getWorkflowTreeRegistryEntry (loadRegistry env None db) i
      = map_option (\<lambda>t. \<lparr> en_tree = t, en_source = SourceBuiltin \<rparr>) (List.find (\<lambda>t. tree_id t = i) BUILTIN_WORKFLOW_TREES)"
    if "\<forall>row \<in> set (td_trees db). wt_tree row = i \<longrightarrow> (\<exists>message. rowToRecord env row = Inl message)" for i
  proof (cases "live_row i db")
    case None
    then show ?thesis by (simp add: loaded_entry [OF ok] builtin_entry_def)
  next
    case (Some row)
    with that obtain message where "rowToRecord env row = Inl message" using live_row_Some by blast
    with Some show ?thesis by (simp add: loaded_entry [OF ok] builtin_entry_def)
  qed
qed

lemma registry_hides_no_import_witness:
  "(\<exists>e. getWorkflowTreeRegistryEntry (loadRegistry sample_env None sample_store) ''claims'' = Some e \<and> en_source e = SourceImported)
    \<and> list_ex (\<lambda>x. te_treeId x = ''billing'' \<and> te_message x = ''Unexpected token'')
        (sn_importErrors (loadRegistry sample_env None sample_store))"
proof -
  have b: "rowToRecord sample_env broken_row = Inl ''Unexpected token''" by (simp add: rowToRecord_def broken_row_def)
  have "\<exists>rec. rowToRecord sample_env sample_row = Inr rec"
    using sample_valid(1) by (simp add: rowToRecord_def sample_row_def sample_tree_id parseSourceFormat_def)
  then obtain rec where r: "rowToRecord sample_env sample_row = Inr rec" by blast
  have m: "sample_row \<in> set (td_trees sample_store)" "broken_row \<in> set (td_trees sample_store)" by (simp_all add: sample_store_def)
  have i: "wt_tree sample_row = ''claims''" "wt_tree broken_row = ''billing''" by (simp_all add: sample_row_def broken_row_def)
  have rows: "\<forall>row \<in> set (td_trees sample_store). case rowToRecord sample_env row of
         Inr rec \<Rightarrow> getWorkflowTreeRegistryEntry (loadRegistry sample_env None sample_store) (wt_tree row)
           = Some \<lparr> en_tree = it_tree rec, en_source = SourceImported \<rparr>
       | Inl message \<Rightarrow> \<lparr> te_treeId = wt_tree row, te_message = message, te_fingerprint = hash_row sample_env row \<rparr>
           \<in> set (sn_importErrors (loadRegistry sample_env None sample_store))"
    using registry_hides_no_import [OF sample_store_ok, of sample_env] by blast
  have "getWorkflowTreeRegistryEntry (loadRegistry sample_env None sample_store) ''claims''
      = Some \<lparr> en_tree = it_tree rec, en_source = SourceImported \<rparr>"
    using bspec [OF rows m(1)] by (simp add: r i)
  moreover have "\<lparr> te_treeId = ''billing'', te_message = ''Unexpected token'', te_fingerprint = hash_row sample_env broken_row \<rparr>
       \<in> set (sn_importErrors (loadRegistry sample_env None sample_store))"
    using bspec [OF rows m(2)] by (simp add: b i)
  ultimately show ?thesis unfolding list_ex_iff by force
qed

section \<open>Import and export\<close>

lemma write_tree_total: "tree_store_ok db \<Longrightarrow> \<exists>db'. write_tree tree f now None db = Inr db'"
proof -
  assume ok: "tree_store_ok db"
  from snapshot_effect [OF ok, of "tree_id tree"] obtain db1 where s: "snapshotCurrentTreeRow (tree_id tree) db = Inr (length (revisions (tree_id tree) db1), db1)"
    "tree_store_ok db1" by blast
  let ?v = "saved_version tree f now (Suc (length (revisions (tree_id tree) db1)))"
  have "tree_store_ok (put_tree tree f now db1)"
    using s(2) put_tree_rows(1) [OF tree_store_okD(1) [OF s(2)]] by (simp add: tree_store_ok_def)
  moreover have "tv_revision ?v = Suc (length (revisions (tv_tree ?v) (put_tree tree f now db1)))" by (simp add: saved_version_def)
  ultimately have "\<exists>db2. insert_version ?v (put_tree tree f now db1) = Inr db2" using insert_version_eq by blast
  then show ?thesis using s(1) by (auto simp: write_tree_def saved_version_def)
qed

lemma import_cases:
  assumes "importWorkflowTreeContent env parse unreadable content format createOnly expected now p = Inr (Imported tree replaced, p')"
  shows "parse format content = Inr tree \<and> validateWorkflowTreeDefinition tree \<and> gp_snapshot p' = None
    \<and> (\<exists>precondition b. upsertEnterpriseWorkflowTree env tree format now None precondition (gp_db p) = Inr (Upserted b, gp_db p'))"
proof (cases "parseWorkflowTreeContent env parse content format")
  case (NotImported issues)
  then show ?thesis using assms by (simp add: importWorkflowTreeContent_def)
next
  case (Imported t r)
  then have parsed: "parse format content = Inr t" "validateWorkflowTreeDefinition t"
    by (auto simp: parseWorkflowTreeContent_def split: sum.splits if_splits)
  obtain s p1 where g: "getWorkflowTreeRegistrySnapshot env unreadable p = (s, p1)" by fastforce
  then have db: "gp_db p1 = gp_db p" by (auto simp: getWorkflowTreeRegistrySnapshot_def Let_def split: option.splits)
  let ?existing = "List.find (\<lambda>e. tree_id (en_tree e) = tree_id t) (sn_entries s)"
  let ?save = "upsertEnterpriseWorkflowTree env t format now None (import_precondition createOnly expected ?existing) (gp_db p1)"
  obtain answer db' where save: "?save = Inr (answer, db')"
    and answered: "(case answer of
         NotUpserted reason \<Rightarrow> Inr (id_issue (if reason = AlreadyExists then already_exists (tree_id t) else changed_since (tree_id t)),
           refreshAfterTreeStoreChange (p1 \<lparr> gp_db := db' \<rparr>))
       | Upserted b \<Rightarrow> Inr (Imported t (if b then Some SourceImported
           else case ?existing of Some e \<Rightarrow> if en_source e = SourceBuiltin then Some SourceBuiltin else None | None \<Rightarrow> None),
             refreshAfterTreeStoreChange (p1 \<lparr> gp_db := db' \<rparr>)))
       = (Inr (Imported tree replaced, p') :: (WorkflowTreeImportResult \<times> RegistryProcess) result)"
    using assms unfolding importWorkflowTreeContent_def Imported g
    by (auto simp: id_issue_def Let_def simp del: UpsertResult.split split: if_split_asm)
  then obtain b where "answer = Upserted b" "t = tree" "p' = refreshAfterTreeStoreChange (p1 \<lparr> gp_db := db' \<rparr>)"
    by (cases answer) (auto simp: id_issue_def)
  then show ?thesis using parsed save db by (auto simp: refreshAfterTreeStoreChange_def invalidateWorkflowTreeRegistry_def)
qed

lemma saved_entry:
  assumes ok: "tree_store_ok db" and valid: "validateWorkflowTreeDefinition tree"
    and saved: "upsertEnterpriseWorkflowTree env tree f now bundled precondition db = Inr (Upserted b, db')"
  shows "tree_store_ok db'" "\<exists>row rec. live_row (tree_id tree) db' = Some row \<and> rowToRecord env row = Inr rec \<and> it_tree rec = tree"
    "getWorkflowTreeRegistryEntry (loadRegistry env None db') (tree_id tree) = Some \<lparr> en_tree = tree, en_source = SourceImported \<rparr>"
proof -
  have w: "write_tree tree f now bundled db = Inr db'" using upsert_cases [OF saved] by auto
  note e = write_tree_effect [OF ok valid w]
  show "tree_store_ok db'" by (rule e(1))
  show row: "\<exists>row rec. live_row (tree_id tree) db' = Some row \<and> rowToRecord env row = Inr rec \<and> it_tree rec = tree"
    using e(3) valid by (auto simp: rowToRecord_def)
  then show "getWorkflowTreeRegistryEntry (loadRegistry env None db') (tree_id tree) = Some \<lparr> en_tree = tree, en_source = SourceImported \<rparr>"
    by (auto simp: loaded_entry [OF e(1)])
qed

lemma reloaded: "gp_snapshot p = None \<Longrightarrow> fst (getWorkflowTreeRegistrySnapshot env u p) = loadRegistry env u (gp_db p)"
  by (simp add: getWorkflowTreeRegistrySnapshot_def Let_def)

lemma export_entry:
  assumes ok: "tree_store_ok db" and row: "live_row i db = Some row" "rowToRecord env row = Inr rec"
  shows "exportWorkflowTree serialize (loadRegistry env None db) i f = Exported (serialize f (it_tree rec)) SourceImported"
proof -
  let ?s = "loadRegistry env None db"
  have "List.find (\<lambda>x. te_treeId x = i) (sn_importErrors ?s) = None"
  proof -
    have "te_treeId x \<noteq> i" if "x \<in> set (sn_importErrors ?s)" for x
    proof
      assume x: "te_treeId x = i"
      from that obtain q where q: "q \<in> set (td_trees db)" "row_error env q = Some x" unfolding loaded_errors by blast
      then have "wt_tree q = i" "\<exists>message. rowToRecord env q = Inl message" using x by (auto simp: row_error_def split: sum.splits)
      moreover from this q(1) have "live_row i db = Some q" by (simp add: live_row_iff [OF ok])
      ultimately show False using row by simp
    qed
    then show ?thesis by (simp add: find_None_iff)
  qed
  moreover have "sn_storeError ?s = None" by (simp add: loadRegistry_def Let_def)
  moreover have "List.find (\<lambda>e. tree_id (en_tree e) = i) (sn_entries ?s) = Some \<lparr> en_tree = it_tree rec, en_source = SourceImported \<rparr>"
    using loaded_entry [OF ok, of env i] row
    by (simp add: getWorkflowTreeRegistryEntry_def listWorkflowTreeRegistryEntries_def)
  ultimately show ?thesis by (simp add: exportWorkflowTree_def)
qed

lemma plain_import:
  assumes ok: "tree_store_ok (gp_db p)" and parsed: "parse f content = Inr tree" "validateWorkflowTreeDefinition tree"
  shows "\<exists>replaced p'. importWorkflowTreeContent env parse unreadable content f False None now p = Inr (Imported tree replaced, p')"
proof -
  obtain s p1 where g: "getWorkflowTreeRegistrySnapshot env unreadable p = (s, p1)" by fastforce
  then have db: "gp_db p1 = gp_db p" by (auto simp: getWorkflowTreeRegistrySnapshot_def Let_def split: option.splits)
  obtain db' where "write_tree tree f now None (gp_db p1) = Inr db'" using write_tree_total [of "gp_db p1"] ok db by metis
  then have u: "upsertEnterpriseWorkflowTree env tree f now None None (gp_db p1) = Inr (Upserted (live_row (tree_id tree) (gp_db p1) \<noteq> None), db')"
    by (simp add: upsertEnterpriseWorkflowTree_def)
  have c: "parseWorkflowTreeContent env parse content f = Imported tree None" using parsed by (simp add: parseWorkflowTreeContent_def)
  show ?thesis
    unfolding importWorkflowTreeContent_def c WorkflowTreeImportResult.case g Let_def prod.case import_precondition_def if_False option.case
    by (simp add: u)
qed

text \<open>
  C27. What is exported is what was imported: after an import that succeeded in a consistent store, the registry
  the process reloads holds exactly the parsed definition under its id, its export is the serialised
  definition, and importing that text into any other consistent process succeeds and registers the same
  definition, for every serialiser the parser reads back.
\<close>

theorem exported_trees_import_back:
  assumes oks: "tree_store_ok (gp_db p)" "tree_store_ok (gp_db q)"
    and imported: "importWorkflowTreeContent env parse unreadable content format createOnly expected now p = Inr (Imported tree replaced, p')"
    and serialiser: "parse f (serialize f tree) = Inr tree"
  shows "parse format content = Inr tree
    \<and> getWorkflowTreeRegistryEntry (fst (getWorkflowTreeRegistrySnapshot env None p')) (tree_id tree)
        = Some \<lparr> en_tree = tree, en_source = SourceImported \<rparr>
    \<and> exportWorkflowTree serialize (fst (getWorkflowTreeRegistrySnapshot env None p')) (tree_id tree) f
        = Exported (serialize f tree) SourceImported
    \<and> (\<exists>replaced' q'. importWorkflowTreeContent env parse unreadable (serialize f tree) f False None now2 q = Inr (Imported tree replaced', q')
        \<and> getWorkflowTreeRegistryEntry (fst (getWorkflowTreeRegistrySnapshot env None q')) (tree_id tree)
            = Some \<lparr> en_tree = tree, en_source = SourceImported \<rparr>)"
proof -
  from import_cases [OF imported] obtain precondition b where p: "parse format content = Inr tree" "validateWorkflowTreeDefinition tree"
    "gp_snapshot p' = None" "upsertEnterpriseWorkflowTree env tree format now None precondition (gp_db p) = Inr (Upserted b, gp_db p')" by blast
  note s = saved_entry [OF oks(1) p(2) p(4)]
  from s(2) export_entry [OF s(1), of "tree_id tree" _ env _ serialize f]
  have e: "exportWorkflowTree serialize (loadRegistry env None (gp_db p')) (tree_id tree) f = Exported (serialize f tree) SourceImported" by blast
  obtain replaced' q' where again: "importWorkflowTreeContent env parse unreadable (serialize f tree) f False None now2 q = Inr (Imported tree replaced', q')"
    using plain_import [OF oks(2), of parse f "serialize f tree" tree, OF serialiser p(2)] by blast
  from import_cases [OF this] obtain precondition' b' where "gp_snapshot q' = None"
    "upsertEnterpriseWorkflowTree env tree f now2 None precondition' (gp_db q) = Inr (Upserted b', gp_db q')" by blast
  moreover from this(2) have "getWorkflowTreeRegistryEntry (loadRegistry env None (gp_db q')) (tree_id tree)
      = Some \<lparr> en_tree = tree, en_source = SourceImported \<rparr>" by (rule saved_entry(3) [OF oks(2) p(2)])
  ultimately show ?thesis using p(1,3) s(3) e again by (auto simp: reloaded)
qed

lemma exported_trees_import_back_witness:
  "\<exists>replaced p'. importWorkflowTreeContent sample_env (\<lambda>_ _. Inr sample_tree) None ''id: claims'' FormatYaml False (Some ''1'') 9
       \<lparr> gp_db = sample_store, gp_snapshot = None \<rparr> = Inr (Imported sample_tree replaced, p')
     \<and> exportWorkflowTree (\<lambda>_ t. tree_id t) (fst (getWorkflowTreeRegistrySnapshot sample_env None p')) ''claims'' FormatJson
        = Exported ''claims'' SourceImported"
proof -
  let ?p = "\<lparr> gp_db = sample_store, gp_snapshot = None \<rparr>"
  let ?r = "importWorkflowTreeContent sample_env (\<lambda>_ _. Inr sample_tree) None ''id: claims'' FormatYaml False (Some ''1'') 9 ?p"
  have "case ?r of Inr (Imported t _, _) \<Rightarrow> tree_id t = ''claims'' | _ \<Rightarrow> False" by code_simp
  then obtain t replaced p' where r: "?r = Inr (Imported t replaced, p')"
    by (cases ?r) (auto split: WorkflowTreeImportResult.splits)
  have "t = sample_tree" using import_cases [OF r] by simp
  with r exported_trees_import_back [of ?p ?p, OF _ _ r, where f = FormatJson and serialize = "\<lambda>_ t. tree_id t"] sample_store_ok
  show ?thesis by (auto simp: sample_tree_id)
qed

end
