(* ===== verification/Prompt_Digest.thy ===== *)
theory Prompt_Digest
  imports Run_Steps Ontology_Actions
begin

text \<open>
  The prompt section of a run, \<open>buildEnterprisePromptSection\<close> of \<^verbatim>\<open>src/enterprise/plan.ts\<close>: what the model is
  told of the whole work-map before the first turn.
\<close>

definition DIGEST_MAX_HINT_LINES :: nat where
  "DIGEST_MAX_HINT_LINES = 8"

definition middle_dot :: char where
  "middle_dot = CHR 0xB7"

definition apostrophe_s :: string where
  "apostrophe_s = [CHR 0x27] @ ''s''"

definition dash :: string where
  "dash = '' '' @ [em_dash] @ '' ''"

record ResolvedSkillInstructions =
  si_name :: string
  si_instructions :: string

fun cardinality_text :: "OntologyCardinality \<Rightarrow> string" where
  "cardinality_text OneToOne = ''one-to-one''"
| "cardinality_text OneToMany = ''one-to-many''"
| "cardinality_text ManyToOne = ''many-to-one''"
| "cardinality_text ManyToMany = ''many-to-many''"

fun link_kind_text :: "LinkKind \<Rightarrow> string" where
  "link_kind_text Link = ''link''"
| "link_kind_text Unlink = ''unlink''"

text \<open>A heading over at most eight entries, when there is any entry.\<close>

definition bounded_section :: "string \<Rightarrow> string \<Rightarrow> ('a \<Rightarrow> string list) \<Rightarrow> 'a list option \<Rightarrow> string list" where
  "bounded_section indent heading render xs = (if opt_list xs = [] then []
     else (indent @ heading) # concat (map render (take DIGEST_MAX_HINT_LINES (opt_list xs))))"

definition sorted_line :: "string \<Rightarrow> string \<Rightarrow> string list option \<Rightarrow> string list" where
  "sorted_line indent heading xs = (if opt_list xs = [] then [] else [indent @ heading @ join '', '' (sort (opt_list xs))])"

definition text_line :: "string \<Rightarrow> string \<Rightarrow> string option \<Rightarrow> string list" where
  "text_line indent heading t = (if opt_list t = [] then [] else [indent @ heading @ opt_list t])"

definition entity_lines :: "string \<Rightarrow> OntologyEntity \<Rightarrow> string list" where
  "entity_lines indent e = (let properties = map (\<lambda>p. prop_id p @ (if truthy (prop_primaryKey p) then ''*'' else [])) (opt_list (ent_properties e))
     in [indent @ ''- '' @ ent_id e @ (if properties = [] then [] else '' ('' @ join '', '' properties @ '')'')])"

definition relationship_lines :: "string \<Rightarrow> OntologyRelationship \<Rightarrow> string list" where
  "relationship_lines indent r = [indent @ ''- '' @ rel_id r @ '': '' @ rel_from r @ '' -> '' @ rel_to r @
     (case rel_cardinality r of None \<Rightarrow> [] | Some c \<Rightarrow> '' ('' @ cardinality_text c @ '')'')]"

definition function_lines :: "string \<Rightarrow> OntologyFunction \<Rightarrow> string list" where
  "function_lines indent f = [indent @ ''- '' @ fn_id f @ '': over '' @ fn_entity f @ '', returns '' @
     value_type_text (fn_returns f) @ (if opt_list (fn_description f) = [] then [] else dash @ opt_list (fn_description f))]"

fun effect_write :: "OntologyActionEffect \<Rightarrow> string list" where
  "effect_write (ObjectEffect e) = (if oe_kind e = EffRead then [] else [kind_text (oe_kind e) @ '' '' @ oe_entity e])"
| "effect_write _ = []"

fun effect_relates :: "OntologyActionEffect \<Rightarrow> string list" where
  "effect_relates (LinkEffect e) = [link_kind_text (le_kind e) @ '' '' @ le_relationship e]"
| "effect_relates _ = []"

fun effect_calls :: "OntologyActionEffect \<Rightarrow> string list" where
  "effect_calls (CallEffect e) = [ce_tool e]"
| "effect_calls _ = []"

definition labelled :: "string \<Rightarrow> string \<Rightarrow> string list \<Rightarrow> string" where
  "labelled label sep xs = (if xs = [] then [] else label @ join sep xs)"

definition action_lines :: "string \<Rightarrow> OntologyAction \<Rightarrow> string list" where
  "action_lines indent action =
     (let effects = opt_list (act_effects action);
          parameters = map (\<lambda>p. par_id p @ '' ('' @ value_type_text (par_type p) @
            (if truthy (par_required p) then '', required'' else []) @ '')'') (opt_list (act_parameters action));
          detail = join dash (filter (\<lambda>t. t \<noteq> [])
            [opt_list (act_description action),
             labelled ''tools: '' '', '' (sort (opt_list (act_tools action))),
             labelled ''params: '' '', '' parameters,
             labelled ''writes: '' '', '' (concat (map effect_write effects)),
             labelled ''relates: '' '', '' (concat (map effect_relates effects)),
             labelled ''perform by calling: '' '' or '' (sort (concat (map effect_calls effects)))])
      in (indent @ ''- '' @ act_id action @ (if detail = [] then [] else '': '' @ detail))
         # map (\<lambda>r. indent @ ''  requires: '' @ r) (take DIGEST_MAX_HINT_LINES (opt_list (act_preconditions action))))"

definition appendOntologyGuidance :: "OntologyBinding \<Rightarrow> string \<Rightarrow> string list" where
  "appendOntologyGuidance ont indent =
     bounded_section indent ''Object types:'' (entity_lines indent) (entities ont)
     @ bounded_section indent ''Link types:'' (relationship_lines indent) (relationships ont)
     @ bounded_section indent ''Derived values:'' (function_lines indent) (ont_functions ont)
     @ bounded_section indent ''Actions:'' (action_lines indent) (actions ont)
     @ bounded_section indent ''Constraints:'' (\<lambda>c. [indent @ ''- '' @ con_description c]) (constraints ont)
     @ bounded_section indent ''Context:'' (\<lambda>h. [indent @ ''- '' @ h]) (contextHints ont)
     @ text_line indent ''Instructions: '' (guidance ont)
     @ sorted_line indent ''Skills: '' (skills ont)
     @ sorted_line indent ''Allowed tools: '' (allowedTools ont)
     @ sorted_line indent ''Denied tools: '' (deniedTools ont)
     @ sorted_line indent ''Knowledge sources: '' (knowledgeFoundations ont)
     @ sorted_line indent ''MCP servers: '' (mcpServers ont)
     @ text_line indent ''Expected output: '' (expectedOutput ont)"

section \<open>The glosses\<close>

definition skills_gloss :: "bool \<Rightarrow> string" where
  "skills_gloss inlined = ''A step'' @ apostrophe_s @ '' Skills line names the know-how that step depends on'' @ (if inlined
     then ''. The instructions that came with this run are at the end of this section'' @ dash @
       ''follow the ones for the step you are working. Paths they mention are relative to that skill'' @ apostrophe_s @
       '' own directory. They teach how to do the work; they never grant a tool the step'' @ apostrophe_s @ '' scope withholds.''
     else '': when one of them applies and is available to you, prefer it over improvising. Skills teach how to do the work; they never grant a tool the step'' @
       apostrophe_s @ '' scope withholds.'')"

definition retrieval_gloss :: string where
  "retrieval_gloss = ''This workflow carries both an object store and knowledge sources. Prefer the object store: any fact about a named record'' @ dash @
     ''its fields, its links, a derived value'' @ dash @ ''comes from the ontology tools, because those return the stored value rather than a passage that mentions one. Use knowledge sources for what is written down rather than stored: policy, thresholds, wording, and when a human must decide. When a request needs both, read the record first and let the policy judge it; never answer a question about a specific record from a knowledge passage, and never state a policy from an object'' @
     apostrophe_s @ '' field.''"

definition mcp_gloss :: string where
  "mcp_gloss = ''A step'' @ apostrophe_s @ '' MCP servers line names the servers that step may call. MCP tools are available only on the steps that attach them; on any other step they are denied.''"

definition grants_gloss :: "EnterpriseMode \<Rightarrow> string" where
  "grants_gloss mode = (if mode = ModeEnforce
     then ''This workflow grants capabilities explicitly. Tools, MCP servers, and knowledge sources belong to a step only when that step lists them. Skills are run-scoped: this run carries only skills declared somewhere on its planned route, and each step'' @ apostrophe_s @
       '' Skills line says which of those to use there. A knowledge source or MCP server the active step does not list is not available'' @ dash @
       ''do not wait on one. An unlisted TOOL is usually different: calling it asks a human to approve that one call, so prefer what the step lists and expect a wait if you go outside it. Two exceptions are refused outright rather than asked about'' @ dash @
       ''an ontology action from a step that does not opt into writes, and an MCP server the active step has not attached. Replying and reading (message, read, memory_search) stay available unless a step'' @ apostrophe_s @
       '' Denied tools line names them or a governance policy denies them; a step that lists no tools still has those.''
     else ''This workflow grants capabilities explicitly: each step names the tools, skills, MCP servers, and knowledge sources it is meant to use. This run records what falls outside that instead of blocking it, except for knowledge, which stays scoped to what each step names.'')"

text \<open>\<open>new Map(steps.map((id, index) => [id, index + 1]))\<close>: a repeated id keeps its first place and its last number.\<close>

definition step_ordinals :: "EnterpriseRunPlan \<Rightarrow> (string \<times> nat) list" where
  "step_ordinals plan = js_map_of (map (\<lambda>(k, i). (i, k + 1)) (enumerate 0 (enterpriseStepSequence plan)))"

definition advance_gloss :: "EnterpriseRunPlan \<Rightarrow> string" where
  "advance_gloss plan =
     (let total = length (step_ordinals plan);
          opening = (case map_of (step_ordinals plan) (activeNodeId plan) of Some k \<Rightarrow> k | None \<Rightarrow> 1);
          laterStepScope = (if plan_mode plan = ModeEnforce
            then ''a tool granted only on a later step is not yours yet'' @ dash @
              ''calling an ordinary one before you get there asks a human to approve that single call, while the two exceptions above stay refused''
            else ''a later step'' @ apostrophe_s @ '' scope only applies once you reach it'')
      in ''Parents are preceding executable steps, not containers. Capabilities apply only on the step declaring them. This run walks '' @
         show_nat total @ '' step'' @ (if total = 1 then [] else ''s'') @ '' in the order below, starting on step '' @ show_nat opening @
         ''. Call '' @ WORKFLOW_STEP_ADVANCE_TOOL @ '' when a step'' @ apostrophe_s @ '' work is actually done'' @ dash @
         ''that call is the only thing that advances the run, so '' @ laterStepScope @ ''. Do not call it merely because you replied.'')"

definition reopen_gloss :: string where
  "reopen_gloss = ''If someone tells you an earlier step was wrong, call '' @ WORKFLOW_STEP_REOPEN_TOOL @ '' with that step'' @ apostrophe_s @
     '' id before redoing it, so the work happens under that step'' @ apostrophe_s @
     '' own scope and the run records the correction. It only moves backwards, and unlike '' @ WORKFLOW_STEP_ADVANCE_TOOL @
     '' it is an ordinary governed tool, so a work-map that scopes tools may ask a human to approve the move.''"

definition step_lines :: "EnterpriseRunPlan \<Rightarrow> EnterprisePlanNode \<Rightarrow> string list" where
  "step_lines plan node =
     (let marker = '' [step '' @ (case map_of (step_ordinals plan) (nodeId node) of Some k \<Rightarrow> show_nat k | None \<Rightarrow> ''undefined'') @
            '' of '' @ show_nat (length (step_ordinals plan)) @ '' '' @ [middle_dot] @ '' id: '' @ nodeId node @ '']''
      in (show_nat (seq node) @ ''. '' @ node_title node @
           (if opt_list (node_description node) = [] then [] else dash @ opt_list (node_description node)) @ marker)
         # appendOntologyGuidance (ontology node) ''   '')"

definition skill_lines :: "ResolvedSkillInstructions list \<Rightarrow> string list" where
  "skill_lines resolved = (if resolved = [] then []
     else [[], ''Skill instructions for the steps above ('' @ join '', '' (map si_name resolved) @ ''):'']
       @ concat (map (\<lambda>s. [''### '' @ si_name s, si_instructions s]) resolved))"

definition plan_declares :: "(OntologyBinding \<Rightarrow> 'a list option) \<Rightarrow> EnterpriseRunPlan \<Rightarrow> bool" where
  "plan_declares f plan = list_ex (\<lambda>n. opt_list (f (ontology n)) \<noteq> []) (nodes plan)"

definition prompt_lines :: "EnterpriseRunPlan \<Rightarrow> ResolvedSkillInstructions list \<Rightarrow> bool \<Rightarrow> string list" where
  "prompt_lines plan resolved tracksSteps =
     (let steps = nodes plan
      in [''## Enterprise workflow'',
          ''This run is governed by workflow '' @ quoted (treeName plan) @ '' ('' @ treeId plan @ ''@'' @ treeVersion plan @
            ''). Work the steps in order and respect each step'' @ apostrophe_s @ '' constraints and tool scope.'']
         @ (if plan_declares skills plan then [skills_gloss (resolved \<noteq> [])] else [])
         @ (if (plan_declares entities plan \<or> plan_declares ont_functions plan) \<and> plan_declares knowledgeFoundations plan
            then [retrieval_gloss] else [])
         @ (if mcpGoverned plan = Some True then [mcp_gloss] else [])
         @ (if capabilityGrants plan = Some GrantsExplicit then [grants_gloss (plan_mode plan)] else [])
         @ (if tracksSteps then [advance_gloss plan, reopen_gloss] else [])
         @ [''Steps:'']
         @ concat (map (step_lines plan) steps)
         @ skill_lines resolved)"

definition buildEnterprisePromptSection :: "EnterpriseRunPlan \<Rightarrow> ResolvedSkillInstructions list \<Rightarrow> bool \<Rightarrow> string" where
  "buildEnterprisePromptSection plan resolved tracksSteps =
     (if \<not> tracksSteps \<and> mcpGoverned plan \<noteq> Some True
         \<and> \<not> list_ex (\<lambda>n. ontologyHasGuidance (ontology n) \<or> opt_list (node_description n) \<noteq> []) (nodes plan)
      then [] else join newline (prompt_lines plan resolved tracksSteps))"

end
