(* ===== verification/Run_Mediation.thy ===== *)
theory Run_Mediation
  imports Prompt_Digest Trace_Recovery Tree_Registry Run_Machine
begin

text \<open>
  Run mediation, \<^verbatim>\<open>src/enterprise/run-mediation.ts\<close>, with the live step events of
  \<^verbatim>\<open>src/enterprise/step-events.ts\<close>: a begin binds a request to a work-map, evaluates the run-start policies,
  registers the run and opens its trail; an end closes both. A begin awaits the planner, so it is two steps
  here, the arrival of the request and the end of its planning, and anything may happen in between.

  The state of the process is one record. The run object that \<open>mediatedRuns\<close> and the registry of active runs
  share is the registry's entry; \<open>mediatedRuns\<close> keeps the fields mediation alone uses. A sink is called while
  an operation of the registry runs and writes to the database only; here what the operation gave the sinks is
  delivered right after it, in order. The schedule \<open>mp_faults\<close> says of each access to the trace store whether
  the database throws; it is consumed one by one and a spent schedule is a database that works.
\<close>

section \<open>The process\<close>

record StepEvent =
  se_ts :: int
  se_runId :: string
  se_executionId :: string
  se_sessionKey :: "string option"
  se_sessionId :: "string option"
  se_agentId :: "string option"
  se_treeId :: string
  se_treeName :: string
  se_kind :: string
  se_nodeId :: string
  se_title :: string
  se_ordinal :: nat
  se_total :: nat
  se_summary :: "string option"

record MediatedRunState =
  md_executionId :: string
  md_seq :: nat
  md_skillInstructions :: "ResolvedSkillInstructions list"
  md_tracksSteps :: bool
  md_sessionKey :: "string option"
  md_agentId :: "string option"

record BeginEnterpriseRunParams =
  bp_runId :: string
  bp_prompt :: string
  bp_trigger :: "string option"
  bp_spawnedBy :: "string option"
  bp_sessionKey :: "string option"
  bp_sessionId :: "string option"
  bp_agentId :: "string option"
  bp_chatVisible :: "bool option"
  bp_runtimeContinuation :: "bool option"
  bp_mode :: "EnterpriseMode option"
  bp_policies :: "GovernancePolicy list option"
  bp_mcpServers :: "(string \<times> bool option) list option"
  bp_planner :: "WorkflowPlanner option"

text \<open>A begin that awaits its planner: what it computed before.\<close>

record PendingBegin =
  pb_params :: BeginEnterpriseRunParams
  pb_mode :: EnterpriseMode
  pb_startedAt :: int
  pb_trigger :: WorkflowTreeTrigger
  pb_candidates :: WorkflowTreeCandidates
  pb_policies :: "GovernancePolicy list"
  pb_denied :: "WorkflowTreeDefinition option"

record MediationProcess =
  mp_runs :: Registry
  mp_trees :: RegistryProcess
  mp_trace :: TraceDb
  mp_mediated :: "(string \<times> MediatedRunState) list"
  mp_pending :: "(string \<times> PendingBegin) list"
  mp_live :: "StepEvent list"
  mp_faults :: "bool list"

datatype EnterpriseRunMediation =
    MediationOff
  | MediationBlocked string
  | MediationClarification string
  | Mediated EnterpriseRunPlan string
  | MediationThrew string

text \<open>The environment: the parameters of the components, the JSON of a tool argument and the token of the process.\<close>

record MediationEnv =
  me_redact :: "string \<Rightarrow> string"
  me_collate :: "string \<Rightarrow> string \<Rightarrow> int"
  me_trees :: TreeEnv
  me_json :: "CallArg \<Rightarrow> Json option"
  me_owner :: string

definition me_hash :: "MediationEnv \<Rightarrow> WorkflowTreeDefinition \<Rightarrow> string" where
  "me_hash env = hash_tree (me_trees env)"

section \<open>Payloads\<close>

fun mode_text :: "EnterpriseMode \<Rightarrow> string" where
  "mode_text ModeEnforce = ''enforce''"
| "mode_text ModeObserve = ''observe''"
| "mode_text ModeOff = ''off''"

fun matched_text :: "WorkflowTreeSource \<Rightarrow> string" where
  "matched_text SourcePlanner = ''planner''"
| "matched_text SourceOnlyCandidate = ''only-candidate''"
| "matched_text SourceNoMatch = ''no-match''"
| "matched_text SourceUnavailable = ''unavailable''"
| "matched_text SourceFallback = ''fallback''"

fun route_source_text :: "RouteSource \<Rightarrow> string" where
  "route_source_text RoutePlanner = ''planner''"
| "route_source_text RouteWholeTree = ''whole-tree''"

fun effect_text :: "GovernanceEffect \<Rightarrow> string" where
  "effect_text EffAllow = ''allow''"
| "effect_text EffDeny = ''deny''"
| "effect_text EffAudit = ''audit''"
| "effect_text EffRequireApproval = ''require_approval''"

fun decision_source_text :: "DecisionSource \<Rightarrow> string" where
  "decision_source_text SrcOntology = ''ontology''"
| "decision_source_text SrcPolicy = ''policy''"
| "decision_source_text SrcDefault = ''default''"

fun origin_text :: "SteerOrigin \<Rightarrow> string" where
  "origin_text OriginUser = ''user''"
| "origin_text OriginRuntime = ''runtime''"

definition jnat :: "nat \<Rightarrow> Json" where
  "jnat n = JNum (JsFin (of_nat n))"

text \<open>An optional string field of a payload, and one that is left out when it is empty.\<close>

definition opt_field :: "string \<Rightarrow> string option \<Rightarrow> (string \<times> Json) list" where
  "opt_field k v = (case v of None \<Rightarrow> [] | Some s \<Rightarrow> [(k, JStr s)])"

definition text_field :: "string \<Rightarrow> string \<Rightarrow> (string \<times> Json) list" where
  "text_field k v = (if v = [] then [] else [(k, JStr v)])"

definition nullable :: "string option \<Rightarrow> Json" where
  "nullable v = (case v of None \<Rightarrow> JNull | Some s \<Rightarrow> JStr s)"

fun write_json :: "ActionWrite \<Rightarrow> Json" where
  "write_json (DispatchedCall tool) = JObj [(''kind'', JStr ''dispatched''), (''tool'', JStr tool)]"
| "write_json (ObjectWrite entity i kind) = JObj [(''entity'', JStr entity), (''objectId'', JStr i), (''kind'', JStr (kind_text kind))]"
| "write_json (LinkWrite relationship from to kind) = JObj [(''relationship'', JStr relationship), (''from'', JStr from),
     (''to'', JStr to), (''kind'', JStr (link_kind_text kind))]"

fun event_kind :: "TraceEvent \<Rightarrow> EnterpriseRunEventKind" where
  "event_kind (GovernanceDecided n d) = GovernanceDecisionKind"
| "event_kind (NodeEntered n q t c) = NodeEnteredKind"
| "event_kind (NodeCompleted n q t s c) = NodeCompletedKind"
| "event_kind (ActionInvoked n a ws ctx) = ActionInvokedKind"
| "event_kind (RunSteered n origin summary) = RunSteeredKind"
| "event_kind (NodeReopened n q t f invalidated r c) = NodeReopenedKind"

fun event_node :: "TraceEvent \<Rightarrow> string option" where
  "event_node (RunSteered n origin summary) = n"
| "event_node ev = Some (te_node ev)"

definition decision_fields :: "DecisionRecord \<Rightarrow> (string \<times> Json) list" where
  "decision_fields d = [(''subject'', JStr ''tool_call''), (''toolName'', JStr (dr_toolName d))]
     @ opt_field ''actionId'' (dr_actionId d) @ opt_field ''toolCallId'' (dr_toolCallId d)
     @ [(''effect'', JStr (effect_text (dr_effect d))), (''enforced'', JBool (dr_enforced d))]
     @ (case dr_approved d of None \<Rightarrow> [] | Some (approved, resolution) \<Rightarrow>
          [(''approved'', JBool approved), (''resolution'', JStr resolution)])
     @ [(''policyId'', nullable (dr_policyId d)), (''source'', JStr (decision_source_text (dr_source d))), (''reason'', JStr (dr_reason d))]"

fun event_fields :: "(CallArg \<Rightarrow> Json option) \<Rightarrow> TraceEvent \<Rightarrow> (string \<times> Json) list" where
  "event_fields json (GovernanceDecided n d) = decision_fields d"
| "event_fields json (NodeEntered n q t c) = [(''seq'', jnat q), (''title'', JStr t)] @ opt_field ''toolCallId'' c"
| "event_fields json (NodeCompleted n q t s c) =
     [(''seq'', jnat q), (''title'', JStr t)] @ text_field ''summary'' s @ opt_field ''toolCallId'' c"
| "event_fields json (ActionInvoked n a ws ctx) = [(''actionId'', JStr a), (''writes'', JArr (map write_json ws)),
     (''context'', JObj (concat (map (\<lambda>(k, v). case json v of None \<Rightarrow> [] | Some j \<Rightarrow> [(k, j)]) ctx)))]"
| "event_fields json (RunSteered n origin summary) = (''origin'', JStr (origin_text origin)) # text_field ''summary'' summary"
| "event_fields json (NodeReopened n q t f invalidated r c) =
     [(''seq'', jnat q), (''title'', JStr t), (''from'', JStr f), (''invalidated'', JArr (map JStr invalidated))]
     @ text_field ''reason'' r @ opt_field ''toolCallId'' c"

section \<open>The trail fails open\<close>

definition persistTrace :: "(TraceDb \<Rightarrow> TraceDb result) \<Rightarrow> MediationProcess \<Rightarrow> MediationProcess" where
  "persistTrace store p = (let rest = p \<lparr> mp_faults := tl (mp_faults p) \<rparr>
     in if mp_faults p \<noteq> [] \<and> hd (mp_faults p) then rest
        else case store (mp_trace p) of Inl _ \<Rightarrow> rest | Inr db \<Rightarrow> rest \<lparr> mp_trace := db \<rparr>)"

definition readTrace :: "(TraceDb \<Rightarrow> ('a option \<times> TraceDb) result) \<Rightarrow> MediationProcess \<Rightarrow> 'a option \<times> MediationProcess" where
  "readTrace access p = (let rest = p \<lparr> mp_faults := tl (mp_faults p) \<rparr>
     in if mp_faults p \<noteq> [] \<and> hd (mp_faults p) then (None, rest)
        else case access (mp_trace p) of Inl _ \<Rightarrow> (None, rest) | Inr (answer, db) \<Rightarrow> (answer, rest \<lparr> mp_trace := db \<rparr>))"

text \<open>The sequence number is allocated before the store is reached, so a write that fails leaves a gap.\<close>

definition appendEvent :: "int \<Rightarrow> EnterpriseRunEventKind \<Rightarrow> string option \<Rightarrow> (string \<times> Json) list \<Rightarrow>
    MediatedRunState \<times> MediationProcess \<Rightarrow> MediatedRunState \<times> MediationProcess" where
  "appendEvent now kind node entries = (\<lambda>(m, p). (m \<lparr> md_seq := md_seq m + 1 \<rparr>,
     persistTrace (appendEnterpriseRunEvent \<lparr> re_executionId = md_executionId m, re_seq = md_seq m, re_nodeId = node,
       re_kind = kind, re_payload = JObj entries, re_createdAt = now \<rparr>) p))"

section \<open>The sink of a run\<close>

fun enters_step :: "TraceEvent \<Rightarrow> bool" where
  "enters_step (NodeEntered n q t c) = True"
| "enters_step (NodeReopened n q t f invalidated r c) = True"
| "enters_step _ = False"

definition emitEnterpriseStepEvent :: "StepEvent \<Rightarrow> MediationProcess \<Rightarrow> MediationProcess" where
  "emitEnterpriseStepEvent evt p = p \<lparr> mp_live := mp_live p @ [evt] \<rparr>"

definition step_event :: "int \<Rightarrow> EnterpriseActiveRun \<Rightarrow> MediatedRunState \<Rightarrow> string \<Rightarrow> string \<Rightarrow> string \<Rightarrow> string option \<Rightarrow> StepEvent" where
  "step_event now run m kind node title summary =
     (let plan = run_plan run; steps = enterpriseStepSequence plan
      in \<lparr> se_ts = now, se_runId = runId plan, se_executionId = md_executionId m, se_sessionKey = present (md_sessionKey m),
           se_sessionId = present (run_sessionId run), se_agentId = present (md_agentId m), se_treeId = treeId plan,
           se_treeName = treeName plan, se_kind = kind, se_nodeId = node, se_title = title,
           se_ordinal = (case index_of node steps of Some k \<Rightarrow> k + 1 | None \<Rightarrow> 0), se_total = length steps,
           se_summary = summary \<rparr>)"

fun publishStepEvent :: "int \<Rightarrow> EnterpriseActiveRun \<Rightarrow> MediatedRunState \<Rightarrow> TraceEvent \<Rightarrow> MediationProcess \<Rightarrow> MediationProcess" where
  "publishStepEvent now run m (NodeCompleted n q t s c) =
     emitEnterpriseStepEvent (step_event now run m ''completed'' n t (if s = [] then None else Some s))"
| "publishStepEvent now run m (NodeEntered n q t c) = emitEnterpriseStepEvent (step_event now run m ''entered'' n t None)"
| "publishStepEvent now run m (NodeReopened n q t f invalidated r c) =
     emitEnterpriseStepEvent (step_event now run m ''entered'' n t None)"
| "publishStepEvent now run m ev = id"

definition sink_event :: "MediationEnv \<Rightarrow> int \<Rightarrow> EnterpriseActiveRun \<Rightarrow> TraceEvent \<Rightarrow>
    MediatedRunState \<times> MediationProcess \<Rightarrow> MediatedRunState \<times> MediationProcess" where
  "sink_event env now run ev mp =
     (let (m, p1) = appendEvent now (event_kind ev) (event_node ev) (event_fields (me_json env) ev) mp;
          p2 = (if enters_step ev
            then persistTrace (\<lambda>db. Inr (updateEnterpriseRunPlan (md_executionId m) (run_plan run) now db)) p1 else p1)
      in (m, publishStepEvent now run m ev p2))"

definition put_mediated :: "string \<Rightarrow> MediatedRunState \<times> MediationProcess \<Rightarrow> MediationProcess" where
  "put_mediated i = (\<lambda>(m, p). p \<lparr> mp_mediated := AList.update i m (mp_mediated p) \<rparr>)"

text \<open>A sink belongs to one execution of a run.\<close>

definition deliver :: "MediationEnv \<Rightarrow> int \<Rightarrow> (string \<times> string option) \<times> TraceEvent \<Rightarrow> MediationProcess \<Rightarrow> MediationProcess" where
  "deliver env now = (\<lambda>((i, x), ev) p.
     case (map_of (mp_mediated p) i, getEnterpriseActiveRun (mp_runs p) i) of
       (Some m, Some run) \<Rightarrow> if x = Some (md_executionId m) then put_mediated i (sink_event env now run ev (m, p)) else p
     | _ \<Rightarrow> p)"

text \<open>An operation of the registry, with its events delivered.\<close>

definition deliver_all :: "MediationEnv \<Rightarrow> int \<Rightarrow> Registry \<Rightarrow> MediationProcess \<Rightarrow> MediationProcess" where
  "deliver_all env now st' p =
     fold (deliver env now) (drop (length (trace (mp_runs p))) (trace st')) (p \<lparr> mp_runs := st' \<rparr>)"

section \<open>A request arrives\<close>

definition treeLoadFailure :: "WorkflowTreeRegistrySnapshot \<Rightarrow> string option" where
  "treeLoadFailure registry =
     (if sn_importErrors registry \<noteq> []
      then Some (''imported enterprise workflow trees failed to load: '' @
        join '', '' (map (\<lambda>e. quoted (te_treeId e) @ '' ('' @ te_message e @ '')'') (sn_importErrors registry)) @
        ''; re-import or remove them'')
      else if opt_list (sn_storeError registry) \<noteq> []
      then Some (''the enterprise workflow tree store could not be read ('' @ opt_list (sn_storeError registry) @
        ''); repair the state database (openclaw doctor --fix) or relax enterprise.mode to '' @ quoted ''observe'' @ ''/'' @ quoted ''off'')
      else None)"

definition plan_for :: "MediationEnv \<Rightarrow> BeginEnterpriseRunParams \<Rightarrow> EnterpriseMode \<Rightarrow> int \<Rightarrow> WorkflowTreeDefinition \<Rightarrow>
    WorkflowTreeSource \<Rightarrow> string option \<Rightarrow> EnterpriseRouteSelection option \<Rightarrow> EnterpriseRunPlan result" where
  "plan_for env params mode now tree source rationale route =
     buildEnterpriseRunPlan (me_redact env) (me_hash env) (me_collate env)
       \<lparr> rq_runId = bp_runId params, rq_requestText = bp_prompt params, rq_mode = mode, rq_tree = tree,
         rq_matchedBy = source, rq_treeRationale = rationale, rq_route = route, rq_now = now \<rparr>"

text \<open>A run-level approval has no channel at run start, so it withholds the run as a denial does.\<close>

definition withholds :: "GovernanceDecision \<Rightarrow> bool" where
  "withholds d \<longleftrightarrow> dec_effect d = EffDeny \<or> dec_effect d = EffRequireApproval"

fun find_denied :: "(WorkflowTreeDefinition \<Rightarrow> EnterpriseRunPlan result) \<Rightarrow> GovernancePolicy list \<Rightarrow> WorkflowTreeDefinition list \<Rightarrow>
    WorkflowTreeDefinition option result" where
  "find_denied plan policies [] = Inr None"
| "find_denied plan policies (t # ts) = bind_result (plan t) (\<lambda>p.
     if withholds (evaluateRunStartGovernance p policies) then Inr (Some t) else find_denied plan policies ts)"

definition imported_trees :: "WorkflowTreeRegistrySnapshot \<Rightarrow> WorkflowTreeDefinition list" where
  "imported_trees registry = map en_tree (filter (\<lambda>e. en_source e = SourceImported) (sn_entries registry))"

text \<open>The run object and the mediation's own fields of an active run.\<close>

definition mediated_run :: "MediationProcess \<Rightarrow> string \<Rightarrow> (MediatedRunState \<times> EnterpriseActiveRun) option" where
  "mediated_run p i = (case (map_of (mp_mediated p) i, getEnterpriseActiveRun (mp_runs p) i) of
     (Some m, Some run) \<Rightarrow> Some (m, run) | _ \<Rightarrow> None)"

text \<open>
  The part of a begin before its planner: the answer when it has one already, or the begin waits under
  its run id, and a begin of a run id that waits shares the answer of the first.
\<close>

definition arrive_begin :: "MediationEnv \<Rightarrow> string option \<Rightarrow> int \<Rightarrow> BeginEnterpriseRunParams \<Rightarrow> MediationProcess \<Rightarrow>
    EnterpriseRunMediation option \<times> MediationProcess" where
  "arrive_begin env unreadable now params p =
     (let mode = resolveEnterpriseMode (bp_mode params)
      in if map_of (mp_pending p) (bp_runId params) \<noteq> None then (None, p)
         else if mode = ModeOff then (Some MediationOff, p)
         else case mediated_run p (bp_runId params) of
           Some (m, run) \<Rightarrow> (Some (Mediated (run_plan run)
             (buildEnterprisePromptSection (run_plan run) (md_skillInstructions m) (md_tracksSteps m))), p)
         | None \<Rightarrow>
             let (registry, trees) = getWorkflowTreeRegistrySnapshot (me_trees env) unreadable (mp_trees p);
                 p1 = p \<lparr> mp_trees := trees \<rparr>
             in if treeLoadFailure registry \<noteq> None \<and> mode = ModeEnforce
                then (Some (MediationBlocked (opt_list (treeLoadFailure registry))), p1)
                else
                  let trigger = classifyWorkflowTrigger (bp_trigger params) (bp_spawnedBy params);
                      candidates = collectWorkflowTreeCandidates (me_collate env) trigger (imported_trees registry);
                      policies = resolveGovernancePolicies (bp_policies params)
                  in case find_denied (\<lambda>t. plan_for env params mode now t SourceFallback None None) policies (wc_candidates candidates) of
                       Inl message \<Rightarrow> (Some (MediationThrew message), p1)
                     | Inr denied \<Rightarrow> (None, p1 \<lparr> mp_pending := AList.update (bp_runId params)
                         \<lparr> pb_params = params, pb_mode = mode, pb_startedAt = now, pb_trigger = trigger,
                           pb_candidates = candidates, pb_policies = policies, pb_denied = denied \<rparr> (mp_pending p1) \<rparr>))"

section \<open>Its planning ends\<close>

definition planner_withheld :: "PendingBegin \<Rightarrow> bool" where
  "planner_withheld pb \<longleftrightarrow> pb_denied pb \<noteq> None \<and> pb_mode pb = ModeEnforce"

definition begin_selection :: "PendingBegin \<Rightarrow> EnterpriseWorkflowSelection option" where
  "begin_selection pb = (case pb_denied pb of
     Some tree \<Rightarrow> if pb_mode pb = ModeEnforce
       then Some (failClosedWorkflowSelection [tree] tree ''run-start governance denied a candidate before planning'')
       else selectWorkflowPlan (wc_candidates (pb_candidates pb)) (wc_defaultTree (pb_candidates pb))
         (bp_prompt (pb_params pb)) (bp_planner (pb_params pb))
   | None \<Rightarrow> selectWorkflowPlan (wc_candidates (pb_candidates pb)) (wc_defaultTree (pb_candidates pb))
         (bp_prompt (pb_params pb)) (bp_planner (pb_params pb)))"

definition started_fields :: "EnterpriseRunPlan \<Rightarrow> (string \<times> Json) list" where
  "started_fields plan = [(''treeId'', JStr (treeId plan)), (''treeVersion'', JStr (treeVersion plan)),
     (''matchedBy'', JStr (matched_text (matchedBy plan))), (''mode'', JStr (mode_text (plan_mode plan)))]"

definition route_fields :: "EnterpriseRoutePlan \<Rightarrow> (string \<times> Json) list" where
  "route_fields r = [(''source'', JStr (route_source_text (rp_source r))), (''routes'', JStr (join '', '' (rp_routes r))),
     (''rationale'', JStr (rp_rationale r)), (''selectedNodes'', jnat (rp_selectedNodes r)), (''totalNodes'', jnat (rp_totalNodes r))]
     @ (if opt_list (rp_invalidRoutes r) = [] then [] else [(''invalidRoutes'', JStr (join '', '' (opt_list (rp_invalidRoutes r))))])"

definition start_decision_fields :: "GovernanceDecision \<Rightarrow> bool \<Rightarrow> (string \<times> Json) list" where
  "start_decision_fields d blocked = [(''subject'', JStr ''run''), (''effect'', JStr (effect_text (dec_effect d))),
     (''enforced'', JBool blocked), (''policyId'', nullable (dec_policyId d)),
     (''source'', JStr (decision_source_text (dec_source d))), (''reason'', JStr (dec_reason d))]"

definition append_if :: "bool \<Rightarrow> int \<Rightarrow> EnterpriseRunEventKind \<Rightarrow> (string \<times> Json) list \<Rightarrow>
    MediatedRunState \<times> MediationProcess \<Rightarrow> MediatedRunState \<times> MediationProcess" where
  "append_if b now kind entries mp = (if b then appendEvent now kind None entries mp else mp)"

text \<open>The row of the execution and the events that open its trail.\<close>

definition open_trail :: "MediationEnv \<Rightarrow> int \<Rightarrow> BeginEnterpriseRunParams \<Rightarrow> EnterpriseRunPlan \<Rightarrow> GovernanceDecision \<Rightarrow> bool \<Rightarrow>
    MediatedRunState \<times> MediationProcess \<Rightarrow> MediatedRunState \<times> MediationProcess" where
  "open_trail env now params plan decision blocked = (\<lambda>(m, p).
     append_if (dec_source decision \<noteq> SrcDefault) now GovernanceDecisionKind (start_decision_fields decision blocked)
       (append_if (plan_route plan \<noteq> None) now RouteSelected
          (case plan_route plan of Some r \<Rightarrow> route_fields r | None \<Rightarrow> [])
         (appendEvent now RunStarted None (started_fields plan)
           (m, persistTrace (persistEnterpriseRunStart
             \<lparr> ts_execution = md_executionId m, ts_plan = plan, ts_sessionKey = present (bp_sessionKey params),
               ts_sessionId = present (bp_sessionId params), ts_agentId = present (bp_agentId params),
               ts_chatVisible = (if bp_chatVisible params = Some False then Some False else None) \<rparr> (me_owner env) now) p))))"

text \<open>The pending continuation of this turn's lane, if this is a turn that may take one.\<close>

definition take_resume :: "PendingBegin \<Rightarrow> EnterpriseRunPlan \<Rightarrow> bool \<Rightarrow> MediationProcess \<Rightarrow>
    (string \<times> string list) option \<times> MediationProcess" where
  "take_resume pb plan tracks p =
     (let params = pb_params pb
      in if pb_trigger pb = TrigUser \<and> \<not> truthy (bp_runtimeContinuation params) \<and> bp_chatVisible params \<noteq> Some False
            \<and> tracks \<and> enterpriseStepSequence plan \<noteq> [] \<and> opt_list (bp_sessionKey params) \<noteq> [] \<and> opt_list (bp_sessionId params) \<noteq> []
         then readTrace (takeEnterpriseRunResume
           \<lparr> rc_sessionKey = opt_list (bp_sessionKey params), rc_sessionId = opt_list (bp_sessionId params),
             rc_agentId = bp_agentId params, rc_treeId = treeId plan, rc_startedAt = pb_startedAt pb \<rparr>) p
         else (None, p))"

definition resumed_fields :: "string \<times> string list \<Rightarrow> string \<Rightarrow> (string \<times> Json) list" where
  "resumed_fields resume openedOn = [(''resumedFrom'', JStr (fst resume)), (''carriedSteps'', JArr (map JStr (snd resume))),
     (''openedOn'', JStr openedOn)]"

text \<open>Registering the run, placing its cursor and opening its first step.\<close>

definition activate_run :: "MediationEnv \<Rightarrow> int \<Rightarrow> PendingBegin \<Rightarrow> ResolvedSkillInstructions list \<Rightarrow> EnterpriseActiveRun \<Rightarrow>
    MediatedRunState \<times> MediationProcess \<Rightarrow> EnterpriseRunMediation \<times> MediationProcess" where
  "activate_run env now pb inlined run = (\<lambda>(m, p).
     let i = bp_runId (pb_params pb); plan = run_plan run;
         tracks = enterpriseRunTracksSteps (me_hash env) (registerEnterpriseActiveRun run (mp_runs p)) i;
         steps = enterpriseStepSequence plan;
         (resume, p1) = take_resume pb plan tracks p;
         resumeStep = (case resume of None \<Rightarrow> None | Some (x, completed) \<Rightarrow> firstUnfinishedStep steps completed);
         run1 = move_cursor (opening_cursor plan tracks resumeStep) run;
         (m1, p2) = append_if (opt_list resumeStep \<noteq> []) now RunResumed
           (case resume of Some r \<Rightarrow> resumed_fields r (opt_list resumeStep) | None \<Rightarrow> []) (m, p1);
         p3 = put_mediated i (m1 \<lparr> md_skillInstructions := inlined, md_tracksSteps := tracks \<rparr>,
           p2 \<lparr> mp_runs := registerEnterpriseActiveRun run1 (mp_runs p2) \<rparr>);
         p4 = (if tracks then (case findPlanNode (run_plan run1) (activeNodeId (run_plan run1)) of
             Some node \<Rightarrow> deliver_all env now (emit run1 (NodeEntered (nodeId node) (seq node) (node_title node) None) (mp_runs p3)) p3
           | None \<Rightarrow> p3) else p3)
     in (Mediated (run_plan run1) (buildEnterprisePromptSection (run_plan run1) inlined tracks), p4))"

text \<open>
  The part of a begin after its planner: \<open>aborted\<close> says whether the turn was cancelled while it waited, and
  again while the skill files were read; \<open>inlined\<close> is what reading them gave and \<open>x\<close> the fresh execution id.
  No answer means that the selection does not end.
\<close>

definition run_object :: "PendingBegin \<Rightarrow> EnterpriseRunPlan \<Rightarrow> WorkflowTreeDefinition \<Rightarrow> string \<Rightarrow> EnterpriseActiveRun" where
  "run_object pb plan tree x = \<lparr> run_plan = plan, run_executionId = Some x, run_policies = pb_policies pb,
     run_mcpServers = Some (resolveEnterpriseMcpServers (bp_mcpServers (pb_params pb))),
     run_sessionId = present (bp_sessionId (pb_params pb)), run_sink = True,
     run_treeRequiredProperties = Some (collectTreeRequiredProperties tree), run_routeCompleted = None, run_reopenCount = None \<rparr>"

definition mediation_fields :: "BeginEnterpriseRunParams \<Rightarrow> string \<Rightarrow> MediatedRunState" where
  "mediation_fields params x = (let visible = (bp_chatVisible params \<noteq> Some False)
     in \<lparr> md_executionId = x, md_seq = 0, md_skillInstructions = [], md_tracksSteps = False,
          md_sessionKey = (if visible then present (bp_sessionKey params) else None),
          md_agentId = (if visible then present (bp_agentId params) else None) \<rparr>)"

definition start_run :: "MediationEnv \<Rightarrow> int \<Rightarrow> bool \<times> bool \<Rightarrow> ResolvedSkillInstructions list \<Rightarrow> string \<Rightarrow> PendingBegin \<Rightarrow>
    EnterpriseWorkflowSelection \<Rightarrow> MediationProcess \<Rightarrow> EnterpriseRunMediation \<times> MediationProcess" where
  "start_run env now aborted inlined x pb sel p =
     (let params = pb_params pb; withheld = planner_withheld pb;
          route = (if bp_planner params \<noteq> None \<and> \<not> withheld then Some (sel_route sel) else None)
      in case plan_for env params (pb_mode pb) now (sel_tree sel) (sel_treeSource sel) (Some (sel_treeRationale sel)) route of
           Inl message \<Rightarrow> (MediationThrew message, p)
         | Inr plan \<Rightarrow>
             let decision = evaluateRunStartGovernance plan (pb_policies pb);
                 blocked = (withholds decision \<and> pb_mode pb = ModeEnforce)
             in if fst aborted \<or> snd aborted then (MediationOff, p)
                else let (m, p1) = open_trail env now params plan decision blocked (mediation_fields params x, p)
                in if blocked
                   then let (m1, p2) = appendEvent now RunEnded None
                              [(''status'', JStr ''blocked''), (''reason'', JStr (dec_reason decision))] (m, p1)
                        in (MediationBlocked (dec_reason decision),
                            persistTrace (\<lambda>db. Inr (finalizeEnterpriseRun x StBlocked now db)) p2)
                   else activate_run env now pb inlined (run_object pb plan (sel_tree sel) x) (m, p1))"

definition finish_begin :: "MediationEnv \<Rightarrow> int \<Rightarrow> bool \<times> bool \<Rightarrow> ResolvedSkillInstructions list \<Rightarrow> string \<Rightarrow> string \<Rightarrow>
    MediationProcess \<Rightarrow> EnterpriseRunMediation option \<times> MediationProcess" where
  "finish_begin env now aborted inlined x i p = (case map_of (mp_pending p) i of
     None \<Rightarrow> (None, p)
   | Some pb \<Rightarrow> (case begin_selection pb of
       None \<Rightarrow> (None, p)
     | Some sel \<Rightarrow>
         let p0 = p \<lparr> mp_pending := AList.delete i (mp_pending p) \<rparr>;
             (answer, p1) = (case sel_next sel of
               NextBlocked reason \<Rightarrow> if planner_withheld pb then start_run env now aborted inlined x pb sel p0
                 else (MediationBlocked reason, p0)
             | NextClarify question \<Rightarrow> (if fst aborted then MediationOff else MediationClarification question, p0)
             | NextExecute \<Rightarrow> start_run env now aborted inlined x pb sel p0)
         in (Some answer, p1)))"

section \<open>The end of a run\<close>

definition ended_fields :: "EnterpriseRunStatus \<Rightarrow> string option \<Rightarrow> (string \<times> Json) list" where
  "ended_fields status reason = (''status'', JStr (status_text status)) # opt_field ''reason'' (present reason)"

definition endEnterpriseRun :: "int \<Rightarrow> string \<Rightarrow> EnterpriseRunStatus \<Rightarrow> string option \<Rightarrow> MediationProcess \<Rightarrow> MediationProcess" where
  "endEnterpriseRun now i status reason p = (case mediated_run p i of
     None \<Rightarrow> p
   | Some (m, run) \<Rightarrow>
       let p1 = p \<lparr> mp_mediated := AList.delete i (mp_mediated p), mp_runs := unregisterEnterpriseActiveRun i (mp_runs p) \<rparr>;
           (m1, p2) = appendEvent now RunEnded None (ended_fields status reason) (m, p1);
           p3 = persistTrace (\<lambda>db. Inr (finalizeEnterpriseRun (md_executionId m) status now db)) p2
       in emitEnterpriseStepEvent (step_event now run m ''ended'' (activeNodeId (run_plan run)) (treeName (run_plan run)) None) p3)"

definition adoptEnterpriseRunTranscript :: "int \<Rightarrow> string \<Rightarrow> string \<Rightarrow> MediationProcess \<Rightarrow> MediationProcess" where
  "adoptEnterpriseRunTranscript now i s p =
     (let p1 = p \<lparr> mp_runs := adoptEnterpriseActiveRunSessionId i s (mp_runs p) \<rparr>
      in case (getEnterpriseActiveRun (mp_runs p) i, map_of (mp_mediated p) i) of
           (Some run, Some m) \<Rightarrow> if s = [] \<or> run_sessionId run = Some s then p
             else persistTrace (\<lambda>db. Inr (updateEnterpriseRunSessionId (md_executionId m) s now db)) p1
         | _ \<Rightarrow> p1)"

section \<open>The operations of the process\<close>

text \<open>What the rest of the program does with a registered run: only mediation begins and ends runs.\<close>

fun run_call :: "RunOp \<Rightarrow> bool" where
  "run_call (BeginRun run completed) = False"
| "run_call (AdoptSession i s) = False"
| "run_call (EndRun i) = False"
| "run_call op = True"

datatype MediationOp =
    Arrive "string option" int BeginEnterpriseRunParams
  | Planned int "bool \<times> bool" "ResolvedSkillInstructions list" string string
  | Call int RunOp
  | Rotate int string string
  | Finish int string EnterpriseRunStatus "string option"
  | TreesChange TreeDb bool
  | OtherTrace TraceOp

text \<open>
  The last two are the rest of the system at work on the databases mediation shares: imports and removals,
  which drop the cached registry when this process makes them, and the other users of the trace.
\<close>

fun mediate :: "MediationEnv \<Rightarrow> MediationOp \<Rightarrow> MediationProcess \<Rightarrow> MediationProcess" where
  "mediate env (Arrive unreadable now params) p = snd (arrive_begin env unreadable now params p)"
| "mediate env (Planned now aborted inlined x i) p = snd (finish_begin env now aborted inlined x i p)"
| "mediate env (Call now op) p = deliver_all env now (perform (me_redact env) (me_hash env) op (mp_runs p)) p"
| "mediate env (Rotate now i s) p = adoptEnterpriseRunTranscript now i s p"
| "mediate env (Finish now i status reason) p = endEnterpriseRun now i status reason p"
| "mediate env (TreesChange db own) p = p \<lparr> mp_trees := (mp_trees p)
     \<lparr> gp_db := db, gp_snapshot := (if own then None else gp_snapshot (mp_trees p)) \<rparr> \<rparr>"
| "mediate env (OtherTrace op) p = p \<lparr> mp_trace := trace_perform op (mp_trace p) \<rparr>"

definition fresh_process :: "RegistryProcess \<Rightarrow> TraceDb \<Rightarrow> bool list \<Rightarrow> MediationProcess" where
  "fresh_process trees db faults = \<lparr> mp_runs = empty_registry, mp_trees = trees, mp_trace = db, mp_mediated = [], mp_pending = [],
     mp_live = [], mp_faults = faults \<rparr>"

end
