(* ===== verification/Execution_Trails.thy ===== *)
theory Execution_Trails
  imports Trace_Properties
begin

text \<open>
  The trail of one execution as its own small state: its row and its events. Every operation of the trace store
  acts on the trail of an execution as one operation of the trail does, or leaves it alone, so what several
  processes do to the tables can be followed one execution at a time.
\<close>

section \<open>Trails\<close>

record TrailRow =
  tw_status :: string
  tw_plan :: EnterpriseRunPlan
  tw_session :: "string option"
  tw_owner :: "string option"

record Trail =
  tl_events :: "EnterpriseRunEventRow list"
  tl_rows :: "TrailRow list"

definition trail_row :: "EnterpriseRunRow \<Rightarrow> TrailRow" where
  "trail_row r = \<lparr> tw_status = er_status r, tw_plan = er_plan r, tw_session = er_sessionId r, tw_owner = er_owner r \<rparr>"

definition trail_of :: "string \<Rightarrow> TraceDb \<Rightarrow> Trail" where
  "trail_of x db = \<lparr> tl_events = events_for x db, tl_rows = map trail_row (filter (\<lambda>r. er_execution r = x) (tr_runs db)) \<rparr>"

definition event_row :: "EnterpriseRunEventRecord \<Rightarrow> EnterpriseRunEventRow" where
  "event_row e = \<lparr> ev_execution = re_executionId e, ev_seq = re_seq e, ev_node = re_nodeId e,
     ev_kind = event_kind_text (re_kind e), ev_payload = Some (re_payload e), ev_created = re_createdAt e \<rparr>"

fun aims_at :: "string \<Rightarrow> TraceOp \<Rightarrow> bool" where
  "aims_at x (StartTrace params owner now) = (ts_execution params = x)"
| "aims_at x (AppendTrace e) = (re_executionId e = x)"
| "aims_at x (UpdatePlan y plan now) = (y = x)"
| "aims_at x (FinalizeTrace y status now) = (y = x)"
| "aims_at x (MoveTranscript y s now) = (y = x)"
| "aims_at x _ = False"

fun trail_op :: "TraceOp \<Rightarrow> Trail \<Rightarrow> Trail" where
  "trail_op (StartTrace params owner now) t = (if tl_rows t \<noteq> [] then t else t \<lparr> tl_rows :=
     [\<lparr> tw_status = ''running'', tw_plan = ts_plan params, tw_session = ts_sessionId params, tw_owner = Some owner \<rparr>] \<rparr>)"
| "trail_op (AppendTrace e) t = (if re_seq e \<in> ev_seq ` set (tl_events t) then t
     else t \<lparr> tl_events := tl_events t @ [event_row e] \<rparr>)"
| "trail_op (UpdatePlan y plan now) t = t \<lparr> tl_rows := map (\<lambda>r. r \<lparr> tw_plan := plan \<rparr>) (tl_rows t) \<rparr>"
| "trail_op (FinalizeTrace y status now) t = t \<lparr> tl_rows := map (\<lambda>r. r \<lparr> tw_status := status_text status \<rparr>) (tl_rows t) \<rparr>"
| "trail_op (MoveTranscript y s now) t = t \<lparr> tl_rows := map (\<lambda>r. r \<lparr> tw_session := Some s \<rparr>) (tl_rows t) \<rparr>"
| "trail_op _ t = t"

definition trail_step :: "string \<Rightarrow> TraceOp \<Rightarrow> Trail \<Rightarrow> Trail" where
  "trail_step x op t = (if aims_at x op then trail_op op t else t)"

text \<open>A recovery that does not take the execution's process for gone.\<close>

fun spares :: "string \<Rightarrow> TraceDb \<Rightarrow> TraceOp \<Rightarrow> bool" where
  "spares x db (RecoverTrace gone now) = (\<forall>r \<in> set (tr_runs db). er_execution r = x \<longrightarrow> \<not> gone (opt_list (er_owner r)))"
| "spares x db op = True"

section \<open>The operations act on trails\<close>

lemma trail_update_runs:
  assumes "\<And>r. er_execution (upd r) = er_execution r"
  shows "trail_of x (update_runs hit upd db) = \<lparr> tl_events = events_for x db,
     tl_rows = map (\<lambda>r. trail_row (if hit r then upd r else r)) (filter (\<lambda>r. er_execution r = x) (tr_runs db)) \<rparr>"
proof -
  have "filter (\<lambda>r. er_execution r = x) (map (\<lambda>r. if hit r then upd r else r) rs)
      = map (\<lambda>r. if hit r then upd r else r) (filter (\<lambda>r. er_execution r = x) rs)" for rs
    using assms by (induction rs) auto
  then show ?thesis by (simp add: trail_of_def events_for_def comp_def)
qed

lemma trail_silent_update:
  assumes "\<And>r. er_execution (upd r) = er_execution r" "\<And>r. trail_row (upd r) = trail_row r"
  shows "trail_of x (update_runs hit upd db) = trail_of x db"
  using trail_update_runs [OF assms(1), of x hit db] assms(2) by (simp add: trail_of_def if_distrib [of trail_row])

lemma trail_field_update:
  assumes "\<And>r. er_execution (upd r) = er_execution r" "\<And>r. trail_row (upd r) = f (trail_row r)"
  shows "trail_of x (update_runs (\<lambda>r. er_execution r = y) upd db)
    = (if y = x then trail_of x db \<lparr> tl_rows := map f (tl_rows (trail_of x db)) \<rparr> else trail_of x db)"
proof -
  have "map (\<lambda>r. trail_row (if er_execution r = y then upd r else r)) (filter (\<lambda>r. er_execution r = x) rs)
      = (if y = x then map f (map trail_row (filter (\<lambda>r. er_execution r = x) rs)) else map trail_row (filter (\<lambda>r. er_execution r = x) rs))" for rs
    using assms(2) by (induction rs) auto
  then show ?thesis using trail_update_runs [OF assms(1), of x "\<lambda>r. er_execution r = y" db] by (simp add: trail_of_def)
qed

lemma trail_insert_event:
  "trail_of x (commit db (insert_event e db)) = (if ev_execution e = x \<and> ev_seq e \<notin> ev_seq ` set (tl_events (trail_of x db))
     then trail_of x db \<lparr> tl_events := tl_events (trail_of x db) @ [e] \<rparr> else trail_of x db)"
  by (auto simp: commit_def insert_event_def trail_of_def events_for_def event_key_def list_ex_iff intro: rev_image_eqI)

lemma trail_insert_run:
  "trail_of x (commit db (insert_run r db)) = (if er_execution r = x \<and> tl_rows (trail_of x db) = []
     then trail_of x db \<lparr> tl_rows := [trail_row r] \<rparr> else trail_of x db)"
  by (auto simp: commit_def insert_run_def trail_of_def events_for_def list_ex_iff filter_empty_conv)

lemma trail_request:
  "trail_of x (trace_perform (RequestResume y expected active now) db) = trail_of x db"
proof -
  have silent: "trail_of x (arm_marker row now db) = trail_of x db" for row
    unfolding arm_marker_def by (subst trail_silent_update, simp_all add: trail_row_def)+
  show ?thesis
  proof (cases "requestEnterpriseRunResume y expected active now db")
    case (Inr r)
    then obtain answer db' where r: "requestEnterpriseRunResume y expected active now db = Inr (answer, db')" by (cases r) simp
    from request_cases [OF r] silent have "trail_of x db' = trail_of x db" by auto
    with r show ?thesis by (simp add: commit_def)
  qed (simp add: commit_def)
qed

lemma trail_take: "trail_of x (trace_perform (TakeResume claim) db) = trail_of x db"
proof -
  have silent: "trail_of x (update_runs hit (\<lambda>r. r \<lparr> er_resume := None \<rparr>) db) = trail_of x db" for hit
    by (rule trail_silent_update) (simp_all add: trail_row_def)
  show ?thesis using silent
    by (auto simp: commit_def takeEnterpriseRunResume_def Let_def split: list.splits sum.splits elim!: bind_result.elims)
qed

lemma trail_recover:
  assumes ok: "store_ok db" and spared: "spares x db (RecoverTrace gone now)"
  shows "trail_of x (trace_perform (RecoverTrace gone now) db) = trail_of x db"
proof -
  have "trace_perform (RecoverTrace gone now) db = recovered gone now db" using recovery_eq [OF ok] by (simp add: commit_def)
  moreover have same: "recovered_row gone now db r = r" if "r \<in> set (tr_runs db)" "er_execution r = x" for r
    using that spared by (simp add: recovered_row_def is_orphan_def)
  moreover have "filter (\<lambda>r. er_execution r = x) (map (recovered_row gone now db) rs) = filter (\<lambda>r. er_execution r = x) rs"
    if "set rs \<subseteq> set (tr_runs db)" for rs
    using that same by (induction rs) auto
  moreover have "filter (\<lambda>e. ev_execution e = x) (map (abort_event db now)
      (filter (\<lambda>r. is_orphan gone r \<and> verdict_of db r = None) (tr_runs db))) = []"
    using spared by (auto simp: filter_empty_conv abort_event_def is_orphan_def)
  ultimately show ?thesis by (simp add: trail_of_def events_for_def recovered_def)
qed

lemma trail_simulates:
  assumes ok: "store_ok db" and adm: "spares x db op"
  shows "trail_of x (trace_perform op db) = trail_step x op (trail_of x db)"
proof (cases op)
  case (StartTrace params owner now)
  then show ?thesis
    by (simp add: persistEnterpriseRunStart_def Let_def trail_insert_run trail_step_def trail_row_def)
next
  case (AppendTrace e)
  then show ?thesis
    by (auto simp: appendEnterpriseRunEvent_def trail_insert_event trail_step_def event_row_def)
next
  case (UpdatePlan y plan now)
  then show ?thesis unfolding UpdatePlan trace_perform.simps updateEnterpriseRunPlan_def
    by (subst trail_field_update [where f = "\<lambda>r. r \<lparr> tw_plan := plan \<rparr>"]) (simp_all add: trail_row_def trail_step_def)
next
  case (FinalizeTrace y status now)
  then show ?thesis unfolding FinalizeTrace trace_perform.simps finalizeEnterpriseRun_def set_status_def
    by (subst trail_field_update [where f = "\<lambda>r. r \<lparr> tw_status := status_text status \<rparr>"]) (simp_all add: trail_row_def trail_step_def)
next
  case (MoveTranscript y s now)
  then show ?thesis unfolding MoveTranscript trace_perform.simps updateEnterpriseRunSessionId_def
    by (subst trail_field_update [where f = "\<lambda>r. r \<lparr> tw_session := Some s \<rparr>"]) (simp_all add: trail_row_def trail_step_def)
next
  case (RecoverTrace gone now)
  then show ?thesis using trail_recover [OF ok] adm by (simp add: trail_step_def del: trace_perform.simps spares.simps)
qed (simp_all only: trail_request trail_take trail_step_def aims_at.simps if_False)

interpretation trails: refinement store_ok "\<lambda>db op. trace_admissible db op \<and> spares x db op" trace_perform "trail_of x" "trail_step x" for x
  by unfold_locales (simp_all add: trace_perform_ok trail_simulates)

section \<open>Finished steps\<close>

text \<open>What the events of a trail say is finished, read in order.\<close>

definition moved_names :: "string \<Rightarrow> EnterpriseRunEventRow \<Rightarrow> string set" where
  "moved_names k e = (case ev_payload e of Some (JObj entries) \<Rightarrow> set (string_items (map_of entries k)) | _ \<Rightarrow> {})"

definition credit_row :: "EnterpriseRunEventRow \<Rightarrow> string set \<Rightarrow> string set" where
  "credit_row e acc = (if ev_kind e = ''run.resumed'' then acc \<union> moved_names ''carriedSteps'' e
     else if ev_kind e = ''node.reopened'' then acc - moved_names ''invalidated'' e
     else if ev_kind e = ''node.completed'' \<and> opt_list (ev_node e) \<noteq> [] then insert (opt_list (ev_node e)) acc
     else acc)"

definition finished_of :: "Trail \<Rightarrow> string set" where
  "finished_of t = fold credit_row (tl_events t) {}"

lemma set_fold_add: "set (fold set_add xs acc) = set acc \<union> set xs"
  by (induction xs arbitrary: acc) auto

lemma credit_row_idle: "\<not> moves_steps e \<Longrightarrow> credit_row e acc = acc"
  by (simp add: moves_steps_def credit_row_def)

lemma fold_credit_moves: "fold credit_row (filter moves_steps es) acc = fold credit_row es acc"
  by (induction es arbitrary: acc) (auto simp: credit_row_idle)

lemma replay_is_credit:
  assumes "\<And>e. e \<in> set es \<Longrightarrow> event_ok e" "map_rows step_trace es = Inr ts" "replay_events ts start = Inr completed"
  shows "set completed = fold credit_row es (set start)"
  using assms
proof (induction es arbitrary: ts start)
  case Nil
  then show ?case by simp
next
  case (Cons e es)
  obtain entries where e: "ev_payload e = Some (JObj entries)"
    "step_trace e = Inr \<lparr> tp_kind = ev_kind e, tp_node = ev_node e, tp_payload = JObj entries \<rparr>"
    by (rule step_trace_ok [OF Cons.prems(1) [of e]]) auto
  from Cons.prems(2) e(2) obtain ts' where ts: "map_rows step_trace es = Inr ts'"
    "ts = \<lparr> tp_kind = ev_kind e, tp_node = ev_node e, tp_payload = JObj entries \<rparr> # ts'" by auto
  from Cons.prems(3) obtain mid where mid: "replay_event \<lparr> tp_kind = ev_kind e, tp_node = ev_node e, tp_payload = JObj entries \<rparr> start = Inr mid"
    "replay_events ts' mid = Inr completed" unfolding ts(2) by auto
  have "set mid = credit_row e (set start)"
    using mid(1) e(1) by (auto simp: replay_event_def credit_row_def moved_names_def set_fold_add split: if_splits)
  with Cons.IH [OF _ ts(1) mid(2)] Cons.prems(1) show ?case by simp
qed

lemma finished_steps:
  assumes ok: "store_ok db" and sorted: "sorted (map ev_seq (events_for x db))"
  shows "\<exists>completed. completedNodeIdsFor db x = Inr completed \<and> set completed = finished_of (trail_of x db)"
proof -
  obtain completed where c: "completedNodeIdsFor db x = Inr completed" using completed_total [OF ok] by blast
  let ?es = "filter moves_steps (events_for x db)"
  have "sorted_wrt seq_before (events_for x db)" using sorted by (simp add: sorted_map seq_before_def [abs_def])
  then have "order_by seq_before ?es = ?es" by (intro order_by_id sorted_wrt_filter)
  then obtain ts where ts: "map_rows step_trace ?es = Inr ts" "replay_events ts [] = Inr completed"
    using c by (auto simp: completedNodeIdsFor_def cumulativeCompletedNodeIds_def)
  have "event_ok e" if "e \<in> set ?es" for e using that store_okD(4) [OF ok] by (simp add: events_for_def)
  from replay_is_credit [OF this ts] have "set completed = finished_of (trail_of x db)"
    by (simp add: finished_of_def trail_of_def fold_credit_moves)
  with c show ?thesis by blast
qed

end
