(* ===== verification/Mediation_Laws.thy ===== *)
theory Mediation_Laws
  imports Run_Mediation Execution_Trails
begin

text \<open>
  What mediation writes: every operation appends a list of operations to the trace store, all of them while the
  store works and some of them otherwise, and the rest of the process never depends on which.
\<close>

section \<open>Writes that fail open\<close>

definition reliable :: "MediationProcess \<Rightarrow> bool" where
  "reliable p \<longleftrightarrow> True \<notin> set (mp_faults p)"

definition wrote :: "bool \<Rightarrow> TraceOp list \<Rightarrow> TraceDb \<Rightarrow> TraceDb \<Rightarrow> bool" where
  "wrote rel ops db db' \<longleftrightarrow> (\<exists>ops'. subseq ops' ops \<and> (rel \<longrightarrow> ops' = ops) \<and> db' = fold trace_perform ops' db)"

definition stored :: "TraceOp list \<Rightarrow> MediationProcess \<Rightarrow> MediationProcess \<Rightarrow> bool" where
  "stored ops p p' \<longleftrightarrow> mp_runs p' = mp_runs p \<and> mp_trees p' = mp_trees p \<and> mp_mediated p' = mp_mediated p
     \<and> mp_pending p' = mp_pending p \<and> (reliable p \<longrightarrow> reliable p') \<and> wrote (reliable p) ops (mp_trace p) (mp_trace p')"

lemma wrote_refl [simp]: "wrote rel [] db db"
  unfolding wrote_def by (rule exI [of _ "[]"]) simp

lemma wrote_mono: "wrote True ops db db' \<Longrightarrow> wrote rel ops db db'"
  unfolding wrote_def by auto

lemma wrote_append: "wrote rel as db1 db2 \<Longrightarrow> wrote rel bs db2 db3 \<Longrightarrow> wrote rel (as @ bs) db1 db3"
  unfolding wrote_def by (metis comp_apply fold_append list_emb_append_mono)

lemma storedD:
  assumes "stored ops p p'"
  shows "mp_runs p' = mp_runs p" "mp_trees p' = mp_trees p" "mp_mediated p' = mp_mediated p" "mp_pending p' = mp_pending p"
    "reliable p \<Longrightarrow> reliable p'" "wrote (reliable p) ops (mp_trace p) (mp_trace p')"
  using assms by (auto simp: stored_def)

lemma stored_refl [simp]: "stored [] p p"
  by (simp add: stored_def)

lemma stored_trans: "stored as p q \<Longrightarrow> stored bs q r \<Longrightarrow> stored (as @ bs) p r"
  using wrote_append [of "reliable p" as "mp_trace p" "mp_trace q" bs "mp_trace r"] wrote_mono [of bs "mp_trace q" "mp_trace r"]
  unfolding stored_def by (cases "reliable p"; cases "reliable q") auto

lemma stored_cong:
  assumes "stored ops p p'" "mp_runs q = mp_runs p'" "mp_trees q = mp_trees p'" "mp_mediated q = mp_mediated p'"
    "mp_pending q = mp_pending p'" "mp_faults q = mp_faults p'" "mp_trace q = mp_trace p'"
  shows "stored ops p q"
  using assms by (simp add: stored_def reliable_def)

lemma reliable_tl: "reliable p \<Longrightarrow> reliable (p \<lparr> mp_faults := tl (mp_faults p) \<rparr>)"
  by (cases "mp_faults p") (auto simp: reliable_def)

lemma persist_stored:
  assumes "\<And>db. commit db (f db) = trace_perform op db"
  shows "stored [op] p (persistTrace f p)"
proof -
  let ?fault = "mp_faults p \<noteq> [] \<and> hd (mp_faults p)"
  have trace: "mp_trace (persistTrace f p) = (if ?fault then mp_trace p else trace_perform op (mp_trace p))"
    using assms [of "mp_trace p"] by (auto simp: persistTrace_def Let_def commit_def split: sum.splits)
  have faults: "mp_faults (persistTrace f p) = tl (mp_faults p)"
    by (auto simp: persistTrace_def Let_def split: sum.splits)
  have "reliable p \<Longrightarrow> \<not> ?fault" by (cases "mp_faults p") (auto simp: reliable_def)
  moreover have "reliable p \<Longrightarrow> reliable (persistTrace f p)"
    using reliable_tl [of p] faults by (simp add: reliable_def)
  moreover have "wrote (reliable p) [op] (mp_trace p) (mp_trace (persistTrace f p))"
    using calculation(1) unfolding trace wrote_def
    by (cases ?fault) (auto intro: exI [of _ "[]"] exI [of _ "[op]"])
  ultimately show ?thesis
    by (auto simp: stored_def persistTrace_def Let_def split: sum.splits)
qed

lemma persist_update: "stored [UpdatePlan x plan now] p (persistTrace (\<lambda>db. Inr (updateEnterpriseRunPlan x plan now db)) p)"
  "stored [FinalizeTrace x status now] p (persistTrace (\<lambda>db. Inr (finalizeEnterpriseRun x status now db)) p)"
  "stored [MoveTranscript x s now] p (persistTrace (\<lambda>db. Inr (updateEnterpriseRunSessionId x s now db)) p)"
  "stored [StartTrace params owner now] p (persistTrace (persistEnterpriseRunStart params owner now) p)"
  by (rule persist_stored, simp add: commit_def)+

definition event_of :: "MediatedRunState \<Rightarrow> int \<Rightarrow> EnterpriseRunEventKind \<Rightarrow> string option \<Rightarrow> (string \<times> Json) list \<Rightarrow> EnterpriseRunEventRecord" where
  "event_of m now kind node entries = \<lparr> re_executionId = md_executionId m, re_seq = md_seq m, re_nodeId = node,
     re_kind = kind, re_payload = JObj entries, re_createdAt = now \<rparr>"

definition bump :: "nat \<Rightarrow> MediatedRunState \<Rightarrow> MediatedRunState" where
  "bump n m = m \<lparr> md_seq := md_seq m + n \<rparr>"

lemma bump_simps [simp]:
  "bump 0 m = m" "bump a (bump b m) = bump (b + a) m" "md_executionId (bump n m) = md_executionId m" "md_seq (bump n m) = md_seq m + n"
  by (simp_all add: bump_def)

lemma append_stored:
  assumes "appendEvent now kind node entries (m, p) = (m', p')"
  shows "m' = bump 1 m" "stored [AppendTrace (event_of m now kind node entries)] p p'"
  using assms persist_stored [of "appendEnterpriseRunEvent (event_of m now kind node entries)"]
  by (auto simp: appendEvent_def event_of_def bump_def)

section \<open>The sink\<close>

definition sink_ops :: "MediationEnv \<Rightarrow> int \<Rightarrow> EnterpriseActiveRun \<Rightarrow> TraceEvent \<Rightarrow> MediatedRunState \<Rightarrow> TraceOp list" where
  "sink_ops env now run ev m = AppendTrace (event_of m now (event_kind ev) (event_node ev) (event_fields (me_json env) ev))
     # (if enters_step ev then [UpdatePlan (md_executionId m) (run_plan run) now] else [])"

lemma publish_stored: "stored [] p (publishStepEvent now run m ev p)"
  by (cases ev) (simp_all add: emitEnterpriseStepEvent_def stored_def reliable_def)

lemma sink_stored:
  assumes "sink_event env now run ev (m, p) = (m', p')"
  shows "m' = bump 1 m" "stored (sink_ops env now run ev m) p p'"
proof -
  obtain m1 p1 where a: "appendEvent now (event_kind ev) (event_node ev) (event_fields (me_json env) ev) (m, p) = (m1, p1)"
    by fastforce
  note s = append_stored [OF a]
  define p2 where "p2 = (if enters_step ev
            then persistTrace (\<lambda>db. Inr (updateEnterpriseRunPlan (md_executionId m1) (run_plan run) now db)) p1 else p1)"
  have r: "(m1, publishStepEvent now run m1 ev p2) = (m', p')"
    using assms unfolding sink_event_def a Let_def p2_def by (simp only: prod.case)
  from r have m1: "m1 = m'" by (rule Pair_inject)
  from r have p': "publishStepEvent now run m1 ev p2 = p'" by (rule Pair_inject)
  have "stored (if enters_step ev then [UpdatePlan (md_executionId m) (run_plan run) now] else []) p1 p2"
    using persist_update(1) [of "md_executionId m1"] s(1) by (simp add: p2_def)
  from stored_trans [OF stored_trans [OF s(2) this] publish_stored [of p2 now run m1 ev]]
  show "stored (sink_ops env now run ev m) p p'" unfolding p' sink_ops_def by simp
  show "m' = bump 1 m" using m1 s(1) by simp
qed

fun run_ops_of :: "MediationEnv \<Rightarrow> int \<Rightarrow> EnterpriseActiveRun \<Rightarrow> TraceEvent list \<Rightarrow> MediatedRunState \<Rightarrow> TraceOp list" where
  "run_ops_of env now run [] m = []"
| "run_ops_of env now run (ev # evs) m = sink_ops env now run ev m @ run_ops_of env now run evs (bump 1 m)"

definition with_mediated :: "MediationProcess \<Rightarrow> string \<Rightarrow> MediatedRunState \<Rightarrow> MediationProcess \<Rightarrow> bool" where
  "with_mediated p i m p' \<longleftrightarrow> mp_runs p' = mp_runs p \<and> mp_trees p' = mp_trees p \<and> mp_pending p' = mp_pending p
     \<and> (\<forall>j. map_of (mp_mediated p') j = (if j = i then Some m else map_of (mp_mediated p) j)) \<and> (reliable p \<longrightarrow> reliable p')"

lemma deliver_run:
  assumes "map_of (mp_mediated p) i = Some m" "getEnterpriseActiveRun (mp_runs p) i = Some run"
  shows "with_mediated p i (bump (length evs) m) (fold (deliver env now) (map (Pair (i, Some (md_executionId m))) evs) p)
    \<and> wrote (reliable p) (run_ops_of env now run evs m) (mp_trace p)
        (mp_trace (fold (deliver env now) (map (Pair (i, Some (md_executionId m))) evs) p))"
  using assms
proof (induction evs arbitrary: p m)
  case Nil
  then show ?case by (auto simp: with_mediated_def)
next
  case (Cons ev evs)
  obtain m1 p1 where s: "sink_event env now run ev (m, p) = (m1, p1)" by fastforce
  note st = sink_stored [OF s]
  define q where "q = put_mediated i (m1, p1)"
  have d: "deliver env now ((i, Some (md_executionId m)), ev) p = q"
    using Cons.prems s by (simp add: deliver_def q_def)
  have q: "map_of (mp_mediated q) i = Some m1" "getEnterpriseActiveRun (mp_runs q) i = Some run" "with_mediated p i m1 q"
    "mp_trace q = mp_trace p1" "reliable q = reliable p1"
    using storedD [OF st(2)] Cons.prems by (auto simp: q_def put_mediated_def update_conv' with_mediated_def reliable_def)
  let ?r = "fold (deliver env now) (map (Pair (i, Some (md_executionId m))) evs) q"
  from Cons.IH [OF q(1,2)] st(1) have r: "with_mediated q i (bump (length evs) m1) ?r"
    "wrote (reliable q) (run_ops_of env now run evs m1) (mp_trace q) (mp_trace ?r)" by auto
  have "with_mediated p i (bump (length (ev # evs)) m) ?r"
    using q(3) r(1) st(1) by (simp add: with_mediated_def)
  moreover have "wrote (reliable p) (run_ops_of env now run (ev # evs) m) (mp_trace p) (mp_trace ?r)"
  proof -
    have "wrote (reliable p) (run_ops_of env now run evs m1) (mp_trace q) (mp_trace ?r)"
      using r(2) storedD(5) [OF st(2)] q(5) wrote_mono by (cases "reliable p"; cases "reliable q") auto
    from wrote_append [OF storedD(6) [OF st(2)], of "run_ops_of env now run evs m1" "mp_trace ?r"] this st(1) q(4)
    show ?thesis by simp
  qed
  ultimately show ?case using d by simp
qed

end
