(* ===== verification/Mediation_Trails.thy ===== *)
theory Mediation_Trails
  imports Mediation_Laws
begin

text \<open>
  What the writes of mediation do to the trails: those of one execution act on its own trail and leave every
  other trail alone, whichever of them the database takes, and when it takes them all the trail follows the run.
\<close>

section \<open>Writes on one execution\<close>

definition harmless :: "string \<Rightarrow> TraceOp \<Rightarrow> bool" where
  "harmless x op \<longleftrightarrow> aims_at x op \<and> (\<forall>db. trace_admissible db op)"

lemma harmless_spares: "harmless x op \<Longrightarrow> spares y db op"
  by (cases op) (auto simp: harmless_def)

lemma harmless_step: "harmless x op \<Longrightarrow> trail_step y op t = (if y = x then trail_op op t else t)"
  by (cases op) (auto simp: harmless_def trail_step_def)

lemma harmless_fold:
  assumes "store_ok db" "\<forall>op \<in> set ops. harmless x op"
  shows "store_ok (fold trace_perform ops db)
    \<and> trail_of y (fold trace_perform ops db) = (if y = x then fold trail_op ops (trail_of y db) else trail_of y db)"
  using assms
proof (induction ops arbitrary: db)
  case (Cons op ops)
  then have h: "harmless x op" by simp
  then have ok: "store_ok (trace_perform op db)" using Cons.prems(1) trace_perform_ok by (simp add: harmless_def)
  have "trail_of y (trace_perform op db) = trail_step y op (trail_of y db)"
    using Cons.prems(1) harmless_spares [OF h] by (rule trail_simulates)
  with Cons.IH [OF ok] Cons.prems(2) harmless_step [OF h] show ?case by (cases "y = x") auto
qed simp

lemma subseq_member: "subseq xs ys \<Longrightarrow> x \<in> set xs \<Longrightarrow> x \<in> set ys"
  by (auto elim: list_emb_set)

lemma wrote_trails:
  assumes "wrote rel ops db db'" "store_ok db" "\<forall>op \<in> set ops. harmless x op"
  obtains ops' where "subseq ops' ops" "rel \<Longrightarrow> ops' = ops" "store_ok db'"
    "trail_of x db' = fold trail_op ops' (trail_of x db)" "\<And>y. y \<noteq> x \<Longrightarrow> trail_of y db' = trail_of y db"
proof -
  from assms(1) obtain ops' where o: "subseq ops' ops" "rel \<longrightarrow> ops' = ops" "db' = fold trace_perform ops' db"
    unfolding wrote_def by blast
  then have "\<forall>op \<in> set ops'. harmless x op" using assms(3) subseq_member by metis
  from harmless_fold [OF assms(2) this] that o show ?thesis by (metis (no_types, lifting))
qed

section \<open>Sequence numbers\<close>

definition ahead :: "nat \<Rightarrow> Trail \<Rightarrow> bool" where
  "ahead n t \<longleftrightarrow> (\<forall>e \<in> set (tl_events t). ev_seq e < n)"

fun below :: "nat \<Rightarrow> TraceOp \<Rightarrow> bool" where
  "below n (AppendTrace e) = (re_seq e < n)"
| "below n op = True"

lemma ahead_mono: "ahead n t \<Longrightarrow> n \<le> n' \<Longrightarrow> ahead n' t"
  by (auto simp: ahead_def)

lemma below_mono: "below n op \<Longrightarrow> n \<le> n' \<Longrightarrow> below n' op"
  by (cases op) auto

lemma ahead_op: "ahead n t \<Longrightarrow> below n op \<Longrightarrow> ahead n (trail_op op t)"
  by (cases op) (auto simp: ahead_def event_row_def)

lemma ahead_fold: "ahead n t \<Longrightarrow> \<forall>op \<in> set ops. below n op \<Longrightarrow> ahead n (fold trail_op ops t)"
  by (induction ops arbitrary: t) (auto intro: ahead_op)

lemma ahead_subseq: "ahead n t \<Longrightarrow> \<forall>op \<in> set ops. below n op \<Longrightarrow> subseq ops' ops \<Longrightarrow> ahead n (fold trail_op ops' t)"
  by (rule ahead_fold) (auto dest: subseq_member)

section \<open>The writes of the sink\<close>

lemma payload_object: "kind \<noteq> RunEnded \<Longrightarrow> payload_ok kind (JObj entries)"
  by (simp add: payload_ok_def)

lemma event_kind_not_ended: "event_kind ev \<noteq> RunEnded"
  by (cases ev) auto

lemma append_harmless:
  "kind \<noteq> RunEnded \<Longrightarrow> harmless (md_executionId m) (AppendTrace (event_of m now kind node entries))"
  by (simp add: harmless_def event_of_def payload_object)

lemma sink_ops_harmless: "op \<in> set (sink_ops env now run ev m) \<Longrightarrow> harmless (md_executionId m) op"
proof -
  assume "op \<in> set (sink_ops env now run ev m)"
  then consider "op = AppendTrace (event_of m now (event_kind ev) (event_node ev) (event_fields (me_json env) ev))"
    | "op = UpdatePlan (md_executionId m) (run_plan run) now"
    by (auto simp: sink_ops_def split: if_splits)
  then show ?thesis
    by cases (use append_harmless [OF event_kind_not_ended] in \<open>simp_all add: harmless_def\<close>)
qed

lemma sink_ops_below: "op \<in> set (sink_ops env now run ev m) \<Longrightarrow> below (md_seq m + 1) op"
  by (auto simp: sink_ops_def event_of_def split: if_splits)

lemma run_ops_harmless: "op \<in> set (run_ops_of env now run evs m) \<Longrightarrow> harmless (md_executionId m) op"
  by (induction evs arbitrary: m) (use sink_ops_harmless in fastforce)+

lemma run_ops_below: "op \<in> set (run_ops_of env now run evs m) \<Longrightarrow> below (md_seq m + length evs) op"
proof (induction evs arbitrary: m)
  case (Cons ev evs)
  show ?case
  proof (cases "op \<in> set (sink_ops env now run ev m)")
    case True
    then show ?thesis by (rule below_mono [OF sink_ops_below]) simp
  next
    case False
    with Cons.prems have "op \<in> set (run_ops_of env now run evs (bump 1 m))" by simp
    from Cons.IH [OF this] show ?thesis by simp
  qed
qed simp

text \<open>The row of an event is credited as the event is.\<close>

lemma string_items_strings [simp]: "string_items (Some (JArr (map JStr xs))) = xs"
  by (induction xs) (simp_all add: string_items_def)

lemma event_row_event [simp]: "ev_seq (event_row (event_of m now kind node entries)) = md_seq m"
  "ev_node (event_row (event_of m now kind node entries)) = node"
  "ev_kind (event_row (event_of m now kind node entries)) = event_kind_text kind"
  "ev_payload (event_row (event_of m now kind node entries)) = Some (JObj entries)"
  by (simp_all add: event_row_def event_of_def)

fun named :: "TraceEvent \<Rightarrow> bool" where
  "named (NodeCompleted n q t s c) = (n \<noteq> [])"
| "named ev = True"

lemma credit_event:
  "named ev \<Longrightarrow> credit_row (event_row (event_of m now (event_kind ev) (event_node ev) (event_fields json ev))) acc = credit ev acc"
  by (cases ev) (auto simp: credit_row_def moved_names_def opt_list_def)

section \<open>The trail follows the run\<close>

definition gap_free :: "nat \<Rightarrow> Trail \<Rightarrow> bool" where
  "gap_free n t \<longleftrightarrow> map ev_seq (tl_events t) = [0..<n]"

definition shows_plan :: "EnterpriseRunPlan \<Rightarrow> Trail \<Rightarrow> Trail" where
  "shows_plan plan t = t \<lparr> tl_rows := map (\<lambda>r. r \<lparr> tw_plan := plan \<rparr>) (tl_rows t) \<rparr>"

lemma gap_free_fresh: "gap_free n t \<Longrightarrow> n \<notin> ev_seq ` set (tl_events t)"
proof -
  assume "gap_free n t"
  then have "set (map ev_seq (tl_events t)) = {0..<n}" by (simp add: gap_free_def)
  then show ?thesis by auto
qed

lemma append_gap_free:
  assumes "gap_free (md_seq m) t"
  shows "trail_op (AppendTrace (event_of m now kind node entries)) t
      = t \<lparr> tl_events := tl_events t @ [event_row (event_of m now kind node entries)] \<rparr>"
    "gap_free (md_seq (bump 1 m)) (trail_op (AppendTrace (event_of m now kind node entries)) t)"
  using gap_free_fresh [OF assms] assms by (auto simp: event_of_def gap_free_def event_row_def)

lemma shows_plan_simps [simp]:
  "tl_events (shows_plan plan t) = tl_events t" "gap_free n (shows_plan plan t) = gap_free n t"
  "finished_of (shows_plan plan t) = finished_of t" "shows_plan plan (shows_plan plan t) = shows_plan plan t"
  "tl_rows (shows_plan plan t) = map (\<lambda>r. r \<lparr> tw_plan := plan \<rparr>) (tl_rows t)"
  by (simp_all add: shows_plan_def gap_free_def finished_of_def comp_def)

lemma sink_trail:
  assumes "gap_free (md_seq m) t" "named ev"
  shows "gap_free (md_seq (bump 1 m)) (fold trail_op (sink_ops env now run ev m) t)"
    "finished_of (fold trail_op (sink_ops env now run ev m) t) = credit ev (finished_of t)"
    "tl_rows (fold trail_op (sink_ops env now run ev m) t) = tl_rows (if enters_step ev then shows_plan (run_plan run) t else t)"
proof -
  let ?e = "event_of m now (event_kind ev) (event_node ev) (event_fields (me_json env) ev)"
  let ?t = "t \<lparr> tl_events := tl_events t @ [event_row ?e] \<rparr>"
  have f: "fold trail_op (sink_ops env now run ev m) t = (if enters_step ev then shows_plan (run_plan run) ?t else ?t)"
    unfolding sink_ops_def by (simp add: append_gap_free(1) [OF assms(1)] shows_plan_def del: trail_op.simps(2))
  show "gap_free (md_seq (bump 1 m)) (fold trail_op (sink_ops env now run ev m) t)"
    unfolding f using append_gap_free(2) [OF assms(1), of now "event_kind ev" "event_node ev" "event_fields (me_json env) ev"]
    by (simp only: append_gap_free(1) [OF assms(1)] shows_plan_simps split: if_split) simp
  have "finished_of ?t = credit ev (finished_of t)"
    using credit_event [OF assms(2)] by (simp add: finished_of_def)
  then show "finished_of (fold trail_op (sink_ops env now run ev m) t) = credit ev (finished_of t)" by (simp add: f)
  show "tl_rows (fold trail_op (sink_ops env now run ev m) t) = tl_rows (if enters_step ev then shows_plan (run_plan run) t else t)"
    by (simp add: f)
qed

lemma run_trail:
  assumes "gap_free (md_seq m) t" "list_all named evs"
  shows "gap_free (md_seq m + length evs) (fold trail_op (run_ops_of env now run evs m) t)
    \<and> finished_of (fold trail_op (run_ops_of env now run evs m) t) = fold credit evs (finished_of t)
    \<and> tl_rows (fold trail_op (run_ops_of env now run evs m) t)
        = tl_rows (if list_ex enters_step evs then shows_plan (run_plan run) t else t)"
  using assms
proof (induction evs arbitrary: m t)
  case (Cons ev evs)
  let ?t = "fold trail_op (sink_ops env now run ev m) t"
  have n: "named ev" "list_all named evs" using Cons.prems(2) by simp_all
  note s = sink_trail [OF Cons.prems(1) n(1), of env now run]
  from Cons.IH [OF s(1) n(2)] show ?case
    by (simp add: s(2,3) comp_def split: if_splits)
qed simp

end
