(* ===== verification/Mediation_Moves.thy ===== *)
theory Mediation_Moves
  imports Mediation_Trails
begin

text \<open>
  What a call of the registry does to the runs: nothing, or one run moves and the events it gives its sink say
  so. Crediting the events to any set of steps that holds the closed ones gives the closed steps of the moved run.
\<close>

definition closed_steps :: "EnterpriseActiveRun \<Rightarrow> string list" where
  "closed_steps run = take (route_finished (route_of run)) (steps_of run)"

definition moves :: "EnterpriseActiveRun \<Rightarrow> TraceEvent list \<Rightarrow> EnterpriseActiveRun \<Rightarrow> bool" where
  "moves run evs run' \<longleftrightarrow> run_ok run' \<and> list_all named evs
     \<and> run_sink run' = run_sink run \<and> run_executionId run' = run_executionId run \<and> run_sessionId run' = run_sessionId run
     \<and> (list_ex enters_step evs \<or> run_plan run' = run_plan run)
     \<and> runId (run_plan run') = runId (run_plan run) \<and> steps_of run' = steps_of run
     \<and> (\<forall>F. set (closed_steps run) \<subseteq> F \<longrightarrow> set (closed_steps run') \<subseteq> fold credit evs F)"

definition acts_on :: "Registry \<Rightarrow> string \<Rightarrow> EnterpriseActiveRun \<Rightarrow> TraceEvent list \<Rightarrow> EnterpriseActiveRun \<Rightarrow> Registry \<Rightarrow> bool" where
  "acts_on st i run evs run' st' \<longleftrightarrow> getEnterpriseActiveRun st i = Some run
     \<and> (\<forall>j. getEnterpriseActiveRun st' j = (if j = i then Some run' else getEnterpriseActiveRun st j))
     \<and> sessionActiveRuns st' = sessionActiveRuns st
     \<and> trace st' = trace st @ (if run_sink run then map (Pair (sink_key run)) evs else [])"

definition one_moves :: "Registry \<Rightarrow> Registry \<Rightarrow> bool" where
  "one_moves st st' \<longleftrightarrow> st' = st \<or> (\<exists>i run evs run'. acts_on st i run evs run' st' \<and> moves run evs run')"

lemma one_moves_refl [simp]: "one_moves st st"
  by (simp add: one_moves_def)

lemma one_movesI: "acts_on st i run evs run' st' \<Longrightarrow> moves run evs run' \<Longrightarrow> one_moves st st'"
  unfolding one_moves_def by blast

section \<open>Events that only record\<close>

fun uncredited :: "TraceEvent \<Rightarrow> bool" where
  "uncredited (NodeCompleted n q t s c) = False"
| "uncredited (NodeReopened n q t f invalidated r c) = False"
| "uncredited _ = True"

lemma credit_uncredited: "uncredited ev \<Longrightarrow> credit ev F = F"
  by (cases ev) auto

lemma fold_credit_uncredited: "list_all uncredited evs \<Longrightarrow> fold credit evs F = F"
  by (induction evs) (auto simp: credit_uncredited)

lemma uncredited_named: "uncredited ev \<Longrightarrow> named ev"
  by (cases ev) auto

lemma uncredited_moves: "run_ok run \<Longrightarrow> list_all uncredited evs \<Longrightarrow> moves run evs run"
  using uncredited_named by (auto simp: moves_def fold_credit_uncredited list_all_iff)

lemma emit_acts:
  "getEnterpriseActiveRun st i = Some run \<Longrightarrow> acts_on st i run [ev] run (emit run ev st)"
  by (simp add: acts_on_def)

lemma emit_after:
  "acts_on st i run evs run st' \<Longrightarrow> acts_on st i run (evs @ [ev]) run (emit run ev st')"
  by (simp add: acts_on_def)

lemma emit_moves:
  "getEnterpriseActiveRun st i = Some run \<Longrightarrow> run_ok run \<Longrightarrow> uncredited ev \<Longrightarrow> one_moves st (emit run ev st)"
  by (rule one_movesI [OF emit_acts uncredited_moves]) auto

lemma invoked_moves:
  "getEnterpriseActiveRun st i = Some run \<Longrightarrow> run_ok run \<Longrightarrow> one_moves st (recordEnterpriseActionInvoked i a ws ctx st)"
  by (auto simp: recordEnterpriseActionInvoked_def intro: emit_moves)

lemma record_verdict_moves:
  assumes "getEnterpriseActiveRun st i = Some run" "run_ok run"
  shows "one_moves st (record_verdict i run node verdict call st)"
proof -
  have first: "one_moves st (recordDecision run verdict call st)"
    unfolding recordDecision_def using assms by (rule emit_moves) simp
  have both: "one_moves st (recordEnterpriseActionInvoked i a ws ctx (recordDecision run verdict call st))" for a ws ctx
  proof -
    have g: "getEnterpriseActiveRun (recordDecision run verdict call st) i = Some run" using assms(1) by simp
    obtain ev ev' where e: "uncredited ev" "uncredited ev'" "recordEnterpriseActionInvoked i a ws ctx (recordDecision run verdict call st)
        = emit run ev' (emit run ev st)"
      using g by (force simp: recordEnterpriseActionInvoked_def recordDecision_def)
    have "acts_on st i run [ev, ev'] run (emit run ev' (emit run ev st))"
      using emit_after [OF emit_acts [OF assms(1), of ev], of ev'] by simp
    then show ?thesis unfolding e(3) by (rule one_movesI [OF _ uncredited_moves [OF assms(2)]]) (simp add: e)
  qed
  show ?thesis unfolding record_verdict_def Let_def
    using first both invoked_moves [OF assms] by (simp split: if_split)
qed

lemma judge_moves:
  assumes "\<And>i run. getEnterpriseActiveRun st i = Some run \<Longrightarrow> run_ok run"
  shows "one_moves st (fst (evaluateEnterpriseToolCall hashTree i call st))"
proof (cases "run_of st i")
  case None
  then show ?thesis by (simp add: evaluateEnterpriseToolCall_def)
next
  case (Some run)
  note g = run_of_Some [OF Some]
  note ok = assms [OF g]
  have "one_moves st (recordDecision run verdict call st)" for verdict
    unfolding recordDecision_def using g ok by (rule emit_moves) simp
  with record_verdict_moves [OF g ok] Some show ?thesis
    by (simp add: evaluateEnterpriseToolCall_def Let_def split: option.split)
qed

section \<open>Calls that move the cursor\<close>

lemma closed_cursor: "run_ok run \<Longrightarrow> \<not> truthy (run_routeCompleted run) \<Longrightarrow> closed_steps run = take (position run) (steps_of run)"
  by (simp add: closed_steps_def)

lemma completed_run_fields [simp]:
  "run_executionId (completed_run run) = run_executionId run" "run_sessionId (completed_run run) = run_sessionId run"
  by (simp_all add: completed_run_def)

lemma plan_of_completed: "run_plan (completed_run run) = run_plan run \<or> position run + 1 < length (steps_of run)"
  by (simp add: completed_run_def)

lemma completed_moves:
  assumes ok: "run_ok run" and nc: "\<not> truthy (run_routeCompleted run)"
    and evs: "evs = NodeCompleted (cursor run) q t s c # rest"
      "rest = (if position run + 1 < length (steps_of run) then [NodeEntered n' q' t' c'] else [])"
  shows "moves run evs (completed_run run)"
proof -
  note s = run_ok_steps [OF ok]
  have "route_finished (route_of (completed_run run)) = position run + 1"
    using completed_run_ok(2) [OF ok nc] s(3) nc by (simp only: route_complete_def) (simp add: route_of_def)
  then have "set (closed_steps (completed_run run)) = insert (cursor run) (set (closed_steps run))"
    using s(3,4) closed_cursor [OF ok nc] by (simp add: closed_steps_def take_Suc_conv_app_nth)
  moreover have "fold credit evs F = insert (cursor run) F" for F by (simp add: evs)
  moreover have "cursor run \<noteq> []" using ok by (auto simp: run_ok_def)
  ultimately show ?thesis
    using completed_run_ok(1) [OF ok nc] plan_of_completed [of run]
    by (auto simp: moves_def evs)
qed

lemma completing_moves:
  assumes "\<And>i run. getEnterpriseActiveRun st i = Some run \<Longrightarrow> run_ok run"
  shows "one_moves st (fst (completeEnterpriseStep redact hashTree i expected summary call st))"
proof (cases "getEnterpriseActiveRun st i")
  case None
  then show ?thesis by (simp add: completeEnterpriseStep_def)
next
  case (Some run)
  note ok = assms [OF Some]
  show ?thesis
  proof (cases "accepts_completion hashTree run expected")
    case False
    then show ?thesis by (simp add: complete_effect [OF Some ok])
  next
    case True
    then have nc: "\<not> truthy (run_routeCompleted run)" by (simp add: accepts_completion_def)
    show ?thesis
      by (rule one_movesI [OF _ completed_moves [OF ok nc refl refl, of "node_seq run (cursor run)"
            "sr_title (the (stepRef run (cursor run)))" "model_text redact summary" "present call"
            "steps_of run ! (position run + 1)" "seq (the (findPlanNode (run_plan run) (steps_of run ! (position run + 1))))"
            "node_title (the (findPlanNode (run_plan run) (steps_of run ! (position run + 1))))" "present call"], of _ i])
        (use True Some in \<open>simp add: complete_effect [OF Some ok] acts_on_def getEnterpriseActiveRun_def update_conv'\<close>)
  qed
qed

lemma reopened_moves:
  assumes ok: "run_ok run" and k: "k < route_finished (route_of run)" "reopens run < 10"
    and ev: "ev = NodeReopened target q t f (drop k (steps_of run)) r c"
  shows "moves run [ev] (reopened_run k run)"
proof -
  note s = run_ok_steps [OF ok]
  note ro = reopened_run_ok [OF ok k]
  have "route_finished (route_of (reopened_run k run)) = k"
    using ro(2) k by (simp add: route_reopen_def del: route_of_simps(1))
  then have closed: "closed_steps (reopened_run k run) = take k (steps_of run)" by (simp add: closed_steps_def)
  have "set (take k (steps_of run)) \<inter> set (drop k (steps_of run)) = {}"
    using s(1) by (metis append_take_drop_id distinct_append)
  moreover have "set (take k (steps_of run)) \<subseteq> set (closed_steps run)"
    unfolding closed_steps_def using k(1) by (intro set_take_subset_set_take) simp
  ultimately have "set (closed_steps (reopened_run k run)) \<subseteq> F - set (drop k (steps_of run))" if "set (closed_steps run) \<subseteq> F" for F
    using that unfolding closed by blast
  then show ?thesis using ro(1) by (simp add: moves_def ev) (simp add: reopened_run_def)
qed

lemma reopening_moves:
  assumes "\<And>i run. getEnterpriseActiveRun st i = Some run \<Longrightarrow> run_ok run"
  shows "one_moves st (fst (reopenEnterpriseStep redact hashTree i target reason call st))"
proof (cases "getEnterpriseActiveRun st i")
  case None
  then show ?thesis by (simp add: reopenEnterpriseStep_def)
next
  case (Some run)
  note ok = assms [OF Some]
  show ?thesis
  proof (cases "accepts_reopen hashTree run target")
    case None
    then show ?thesis by (simp add: reopen_effect [OF Some ok])
  next
    case acc: (Some k)
    then have k: "k < route_finished (route_of run)" "reopens run < 10"
      by (simp_all add: accepts_reopen_def split: option.splits if_splits del: route_of_simps)
    show ?thesis
      by (rule one_movesI [OF _ reopened_moves [OF ok k refl, of target "node_seq run target"
            "node_title (the (findPlanNode (run_plan run) target))" "cursor run" "model_text redact reason" "present call"], of _ i])
        (use acc Some in \<open>simp add: reopen_effect [OF Some ok] acts_on_def getEnterpriseActiveRun_def update_conv'\<close>)
  qed
qed

lemma call_moves:
  assumes "run_call op" "\<And>i run. getEnterpriseActiveRun st i = Some run \<Longrightarrow> run_ok run"
  shows "one_moves st (perform redact hashTree op st)"
proof (cases op)
  case (Steer i t origin)
  then show ?thesis using assms(2) by (auto simp: recordEnterpriseRunSteer_def intro: emit_moves split: option.split)
next
  case (ResolveApproval i verdict call outcome resolution)
  then show ?thesis using assms(2)
    by (auto simp: recordEnterpriseApprovalResolution_def intro: emit_moves split: option.split)
next
  case (CommitAction i action writes ctx)
  show ?thesis
  proof (cases "getEnterpriseActiveRun st i")
    case None
    then show ?thesis by (simp add: CommitAction recordEnterpriseActionInvoked_def)
  next
    case (Some run)
    then show ?thesis using invoked_moves assms(2) by (simp add: CommitAction)
  qed
qed (use assms in \<open>auto intro: completing_moves reopening_moves judge_moves\<close>)

end
