(* ===== verification/Mediation_Invariant.thy ===== *)
theory Mediation_Invariant
  imports Mediation_Moves
begin

text \<open>
  The invariant of mediation: the registry and the mediation's own map hold the same runs, each under an
  execution of its own whose stored events are all behind its sequence number; and as long as no access to the
  store fails, the trail of the execution is the run: its row shows the run's plan and session, its events have
  no gap, and the steps the run has closed are finished in it.
\<close>

section \<open>The invariant\<close>

definition follows :: "string \<Rightarrow> MediatedRunState \<Rightarrow> EnterpriseActiveRun \<Rightarrow> Trail \<Rightarrow> bool" where
  "follows owner m run t \<longleftrightarrow> tl_rows t = [\<lparr> tw_status = ''running'', tw_plan = run_plan run, tw_session = run_sessionId run,
       tw_owner = Some owner \<rparr>]
     \<and> gap_free (md_seq m) t \<and> set (closed_steps run) \<subseteq> finished_of t"

definition live_ok :: "bool \<Rightarrow> string \<Rightarrow> MediatedRunState \<Rightarrow> EnterpriseActiveRun \<Rightarrow> Trail \<Rightarrow> bool" where
  "live_ok rel owner m run t \<longleftrightarrow> run_ok run \<and> run_sink run \<and> run_executionId run = Some (md_executionId m)
     \<and> ahead (md_seq m) t \<and> (rel \<longrightarrow> follows owner m run t)"

definition snapshot_ok :: "WorkflowTreeRegistrySnapshot option \<Rightarrow> bool" where
  "snapshot_ok s \<longleftrightarrow> (\<forall>sn. s = Some sn \<longrightarrow> list_all unique_ids (imported_trees sn))"

definition pending_ok :: "string \<Rightarrow> PendingBegin \<Rightarrow> bool" where
  "pending_ok i pb \<longleftrightarrow> bp_runId (pb_params pb) = i \<and> list_all unique_ids (wc_candidates (pb_candidates pb))
     \<and> unique_ids (wc_defaultTree (pb_candidates pb)) \<and> (\<forall>t. pb_denied pb = Some t \<longrightarrow> unique_ids t)"

definition live_at :: "MediationProcess \<Rightarrow> string \<Rightarrow> MediatedRunState \<Rightarrow> EnterpriseActiveRun \<Rightarrow> bool" where
  "live_at p i m run \<longleftrightarrow> map_of (mp_mediated p) i = Some m \<and> getEnterpriseActiveRun (mp_runs p) i = Some run"

definition med_ok :: "bool \<Rightarrow> MediationEnv \<Rightarrow> MediationProcess \<Rightarrow> bool" where
  "med_ok rel env p \<longleftrightarrow> (rel \<longrightarrow> reliable p) \<and> store_ok (mp_trace p) \<and> registry_ok (mp_runs p) \<and> snapshot_ok (gp_snapshot (mp_trees p))
     \<and> (\<forall>i pb. map_of (mp_pending p) i = Some pb \<longrightarrow> pending_ok i pb \<and> map_of (mp_mediated p) i = None)
     \<and> (\<forall>i. map_of (mp_mediated p) i = None \<longleftrightarrow> getEnterpriseActiveRun (mp_runs p) i = None)
     \<and> (\<forall>i m run. live_at p i m run \<longrightarrow> live_ok rel (me_owner env) m run (trail_of (md_executionId m) (mp_trace p)))
     \<and> (\<forall>i j m n. map_of (mp_mediated p) i = Some m \<longrightarrow> map_of (mp_mediated p) j = Some n \<longrightarrow>
          md_executionId m = md_executionId n \<longrightarrow> i = j)"

lemma med_okD:
  assumes "med_ok rel env p"
  shows "rel \<Longrightarrow> reliable p" "store_ok (mp_trace p)" "registry_ok (mp_runs p)" "snapshot_ok (gp_snapshot (mp_trees p))"
    "map_of (mp_pending p) i = Some pb \<Longrightarrow> pending_ok i pb" "map_of (mp_pending p) i = Some pb \<Longrightarrow> map_of (mp_mediated p) i = None"
    "map_of (mp_mediated p) i = None \<longleftrightarrow> getEnterpriseActiveRun (mp_runs p) i = None"
    "live_at p i m run \<Longrightarrow> live_ok rel (me_owner env) m run (trail_of (md_executionId m) (mp_trace p))"
    "map_of (mp_mediated p) i = Some m \<Longrightarrow> map_of (mp_mediated p) j = Some n \<Longrightarrow> md_executionId m = md_executionId n \<Longrightarrow> i = j"
  using assms by (auto simp: med_ok_def)

lemma med_okI:
  assumes "rel \<Longrightarrow> reliable p" "store_ok (mp_trace p)" "registry_ok (mp_runs p)" "snapshot_ok (gp_snapshot (mp_trees p))"
    "\<And>i pb. map_of (mp_pending p) i = Some pb \<Longrightarrow> pending_ok i pb \<and> map_of (mp_mediated p) i = None"
    "\<And>i. map_of (mp_mediated p) i = None \<longleftrightarrow> getEnterpriseActiveRun (mp_runs p) i = None"
    "\<And>i m run. live_at p i m run \<Longrightarrow> live_ok rel (me_owner env) m run (trail_of (md_executionId m) (mp_trace p))"
    "\<And>i j m n. map_of (mp_mediated p) i = Some m \<Longrightarrow> map_of (mp_mediated p) j = Some n \<Longrightarrow> md_executionId m = md_executionId n \<Longrightarrow> i = j"
  shows "med_ok rel env p"
  unfolding med_ok_def by (intro conjI allI impI) (use assms in blast)+

lemma live_okD:
  assumes "live_ok rel owner m run t"
  shows "run_ok run" "run_sink run" "run_executionId run = Some (md_executionId m)" "ahead (md_seq m) t" "rel \<Longrightarrow> follows owner m run t"
  using assms by (auto simp: live_ok_def)

lemma runs_live:
  assumes "med_ok rel env p" "getEnterpriseActiveRun (mp_runs p) i = Some run"
  obtains m where "live_at p i m run" "live_ok rel (me_owner env) m run (trail_of (md_executionId m) (mp_trace p))"
proof -
  have "map_of (mp_mediated p) i \<noteq> None" using assms med_okD(7) [OF assms(1), of i] by simp
  then obtain m where "live_at p i m run" using assms(2) by (auto simp: live_at_def)
  then show ?thesis using that med_okD(8) [OF assms(1)] by blast
qed

lemma runs_run_ok: "med_ok rel env p \<Longrightarrow> getEnterpriseActiveRun (mp_runs p) i = Some run \<Longrightarrow> run_ok run"
  by (erule (1) runs_live) (rule live_okD(1))

text \<open>An operation on one run id and on the trail of one execution.\<close>

lemma med_step:
  assumes ok: "med_ok rel env p" and "rel \<Longrightarrow> reliable p'" "store_ok (mp_trace p')" "registry_ok (mp_runs p')"
    and trees: "mp_trees p' = mp_trees p"
    and pend: "\<And>j pb. map_of (mp_pending p') j = Some pb \<Longrightarrow> map_of (mp_pending p) j = Some pb \<and> (j = i \<longrightarrow> map_of (mp_mediated p') i = None)"
    and med: "\<And>j. j \<noteq> i \<Longrightarrow> map_of (mp_mediated p') j = map_of (mp_mediated p) j"
    and runs: "\<And>j. j \<noteq> i \<Longrightarrow> getEnterpriseActiveRun (mp_runs p') j = getEnterpriseActiveRun (mp_runs p) j"
    and trails: "\<And>y. y \<noteq> x \<Longrightarrow> trail_of y (mp_trace p') = trail_of y (mp_trace p)"
    and own: "\<And>j m. map_of (mp_mediated p) j = Some m \<Longrightarrow> md_executionId m = x \<Longrightarrow> j = i"
    and at: "(map_of (mp_mediated p') i = None \<and> getEnterpriseActiveRun (mp_runs p') i = None)
      \<or> (\<exists>m run. live_at p' i m run \<and> md_executionId m = x \<and> live_ok rel (me_owner env) m run (trail_of x (mp_trace p')))"
  shows "med_ok rel env p'"
proof -
  have here: "md_executionId m = x" if "map_of (mp_mediated p') i = Some m" for m
    using that at by (auto simp: live_at_def)
  show ?thesis
  proof (rule med_okI)
    fix j m run assume l: "live_at p' j m run"
    show "live_ok rel (me_owner env) m run (trail_of (md_executionId m) (mp_trace p'))"
    proof (cases "j = i")
      case True
      with l at show ?thesis by (auto simp: live_at_def)
    next
      case False
      with l have old: "live_at p j m run" using med runs by (simp add: live_at_def)
      then have "md_executionId m \<noteq> x" using own False by (auto simp: live_at_def)
      then show ?thesis using med_okD(8) [OF ok old] trails by simp
    qed
  next
    fix j k m n
    assume h: "map_of (mp_mediated p') j = Some m" "map_of (mp_mediated p') k = Some n" "md_executionId m = md_executionId n"
    show "j = k"
    proof (cases "j = i \<or> k = i")
      case True
      then show ?thesis using h here med own by metis
    next
      case False
      then show ?thesis using h med med_okD(9) [OF ok] by metis
    qed
  next
    show "map_of (mp_mediated p') j = None \<longleftrightarrow> getEnterpriseActiveRun (mp_runs p') j = None" for j
      using at med runs med_okD(7) [OF ok, of j] by (cases "j = i") (auto simp: live_at_def)
    show "pending_ok j pb \<and> map_of (mp_mediated p') j = None" if "map_of (mp_pending p') j = Some pb" for j pb
      using pend [OF that] med_okD(5,6) [OF ok] med by (cases "j = i") auto
  qed (use assms(2-4) med_okD(4) [OF ok] trees in auto)
qed

section \<open>Calls\<close>

lemma follows_moved:
  assumes "follows owner m run t" "moves run evs run'"
  shows "follows owner (bump (length evs) m) run' (fold trail_op (run_ops_of env now run' evs m) t)"
proof -
  from assms(1) have f: "gap_free (md_seq m) t" "set (closed_steps run) \<subseteq> finished_of t"
    "tl_rows t = [\<lparr> tw_status = ''running'', tw_plan = run_plan run, tw_session = run_sessionId run, tw_owner = Some owner \<rparr>]"
    by (simp_all add: follows_def)
  have n: "list_all named evs" using assms(2) by (simp add: moves_def)
  note r = run_trail [OF f(1) n, of env now run']
  have plan: "list_ex enters_step evs \<or> run_plan run' = run_plan run" and session: "run_sessionId run' = run_sessionId run"
    and closed: "set (closed_steps run') \<subseteq> fold credit evs (finished_of t)"
    using assms(2) f(2) unfolding moves_def by blast+
  from plan have "tl_rows (fold trail_op (run_ops_of env now run' evs m) t) = [\<lparr> tw_status = ''running'', tw_plan = run_plan run',
      tw_session = run_sessionId run', tw_owner = Some owner \<rparr>]"
    using r f(3) session by (cases "list_ex enters_step evs") simp_all
  then show ?thesis using r closed by (simp add: follows_def)
qed

lemma ahead_writes:
  assumes "wrote r ops db db'" "store_ok db" "\<And>op. op \<in> set ops \<Longrightarrow> harmless x op" "\<And>op. op \<in> set ops \<Longrightarrow> below n op"
    "ahead k (trail_of x db)" "k \<le> n"
  shows "ahead n (trail_of x db')"
proof -
  obtain ops' where "subseq ops' ops" "trail_of x db' = fold trail_op ops' (trail_of x db)"
    by (rule wrote_trails [OF assms(1,2)]) (use assms(3) in auto)
  moreover have "ahead n (trail_of x db)" using assms(5,6) by (rule ahead_mono)
  moreover have "\<forall>op \<in> set ops. below n op" using assms(4) by (rule ballI)
  ultimately show ?thesis by (simp only: ahead_subseq)
qed

text \<open>The events an operation gave the sink of a live run are delivered.\<close>

lemma acts_effect:
  assumes l: "live_at p i m run" and key: "run_sink run" "sink_key run = (i, Some (md_executionId m))"
    and a: "acts_on (mp_runs p) i run evs run' st" and store: "store_ok (mp_trace p)"
    and before: "ahead (md_seq m) (trail_of (md_executionId m) (mp_trace p))"
    and q: "q = deliver_all env now st p"
  obtains ops' where "with_mediated (p \<lparr> mp_runs := st \<rparr>) i (bump (length evs) m) q"
    "reliable p \<Longrightarrow> ops' = run_ops_of env now run' evs m" "store_ok (mp_trace q)"
    "trail_of (md_executionId m) (mp_trace q) = fold trail_op ops' (trail_of (md_executionId m) (mp_trace p))"
    "\<And>y. y \<noteq> md_executionId m \<Longrightarrow> trail_of y (mp_trace q) = trail_of y (mp_trace p)"
    "ahead (md_seq m + length evs) (trail_of (md_executionId m) (mp_trace q))"
proof -
  let ?ops = "run_ops_of env now run' evs m"
  have eq: "q = fold (deliver env now) (map (Pair (i, Some (md_executionId m))) evs) (p \<lparr> mp_runs := st \<rparr>)"
    using a key by (simp add: q deliver_all_def acts_on_def)
  have here: "map_of (mp_mediated (p \<lparr> mp_runs := st \<rparr>)) i = Some m" "getEnterpriseActiveRun (mp_runs (p \<lparr> mp_runs := st \<rparr>)) i = Some run'"
    using l a by (simp_all add: live_at_def acts_on_def)
  from deliver_run [OF here, of evs env now] have d: "with_mediated (p \<lparr> mp_runs := st \<rparr>) i (bump (length evs) m) q"
    "wrote (reliable p) ?ops (mp_trace p) (mp_trace q)" unfolding eq [symmetric] by (simp_all add: reliable_def)
  have h: "\<forall>op \<in> set ?ops. harmless (md_executionId m) op" using run_ops_harmless by blast
  have ahd: "ahead (md_seq m + length evs) (trail_of (md_executionId m) (mp_trace q))"
    by (rule ahead_writes [OF d(2) store _ _ before]) (use h run_ops_below in auto)
  show ?thesis by (rule wrote_trails [OF d(2) store h], rule that [OF d(1) _ _ _ _ ahd], simp_all)
qed

lemma acts_registry_ok:
  assumes "registry_ok st" "acts_on st i run evs run' st'" "moves run evs run'"
  shows "registry_ok st'"
proof (rule registry_okI)
  fix j r assume "getEnterpriseActiveRun st' j = Some r"
  then show "runId (run_plan r) = j"
    using assms registry_okD [OF assms(1)] by (auto simp: acts_on_def moves_def split: if_splits)
next
  fix s j assume "getSessionActiveRunId st' s = Some j"
  then have "getSessionActiveRunId st s = Some j" using assms(2) by (simp add: getSessionActiveRunId_def acts_on_def)
  from registry_link [OF assms(1) this] obtain r where "getEnterpriseActiveRun st j = Some r" "session_of r = Some s" by blast
  then show "\<exists>r. getEnterpriseActiveRun st' j = Some r \<and> session_of r = Some s"
    using assms(2,3) by (auto simp: acts_on_def moves_def session_of_def)
qed

lemma deliver_ok:
  assumes ok: "med_ok rel env p" and a: "acts_on (mp_runs p) i run evs run' st" and mv: "moves run evs run'"
  shows "med_ok rel env (deliver_all env now st p)"
proof -
  define q where "q = deliver_all env now st p"
  obtain m where l: "live_at p i m run" and lo: "live_ok rel (me_owner env) m run (trail_of (md_executionId m) (mp_trace p))"
    using runs_live [OF ok, of i run] a by (auto simp: acts_on_def)
  have med: "map_of (mp_mediated p) i = Some m" using l by (simp add: live_at_def)
  have "runId (run_plan run) = i" using registry_okD [OF med_okD(3) [OF ok]] l by (simp add: live_at_def)
  then have key: "sink_key run = (i, Some (md_executionId m))" using live_okD(3) [OF lo] by (simp add: sink_key_def)
  let ?x = "md_executionId m"
  obtain ops' where d: "with_mediated (p \<lparr> mp_runs := st \<rparr>) i (bump (length evs) m) q"
    and ops: "reliable p \<Longrightarrow> ops' = run_ops_of env now run' evs m" and store: "store_ok (mp_trace q)"
    and here: "trail_of ?x (mp_trace q) = fold trail_op ops' (trail_of ?x (mp_trace p))"
    and others: "\<And>y. y \<noteq> ?x \<Longrightarrow> trail_of y (mp_trace q) = trail_of y (mp_trace p)"
    and ahd: "ahead (md_seq m + length evs) (trail_of ?x (mp_trace q))"
    using acts_effect [OF l live_okD(2) [OF lo] key a med_okD(2) [OF ok] live_okD(4) [OF lo] q_def] by blast
  have "follows (me_owner env) (bump (length evs) m) run' (trail_of ?x (mp_trace q))" if rel
    using follows_moved [OF live_okD(5) [OF lo that] mv] ops [OF med_okD(1) [OF ok that]] here by simp
  then have "live_ok rel (me_owner env) (bump (length evs) m) run' (trail_of ?x (mp_trace q))"
    using mv live_okD(2,3) [OF lo] ahd by (simp add: live_ok_def moves_def)
  moreover have "live_at q i (bump (length evs) m) run'" using d a by (simp add: live_at_def with_mediated_def acts_on_def)
  ultimately have at: "\<exists>m run. live_at q i m run \<and> md_executionId m = ?x \<and> live_ok rel (me_owner env) m run (trail_of ?x (mp_trace q))"
    by (intro exI conjI) (assumption, simp_all)
  have "med_ok rel env q"
  proof (rule med_step [OF ok, of q i ?x])
    show "reliable q" if rel using d med_okD(1) [OF ok that] by (simp add: with_mediated_def reliable_def)
    show "registry_ok (mp_runs q)" using acts_registry_ok [OF med_okD(3) [OF ok] a mv] d by (simp add: with_mediated_def)
    show "map_of (mp_pending p) j = Some pb \<and> (j = i \<longrightarrow> map_of (mp_mediated q) i = None)" if "map_of (mp_pending q) j = Some pb" for j pb
      using that d med_okD(6) [OF ok] med by (auto simp: with_mediated_def)
    show "getEnterpriseActiveRun (mp_runs q) j = getEnterpriseActiveRun (mp_runs p) j" if "j \<noteq> i" for j
      using that d a by (simp add: with_mediated_def acts_on_def)
    show "j = i" if "map_of (mp_mediated p) j = Some m'" "md_executionId m' = ?x" for j m'
      using med_okD(9) [OF ok that(1) med that(2)] .
  qed (fact store, use d others at in \<open>simp_all add: with_mediated_def\<close>)
  then show ?thesis by (simp add: q_def)
qed

lemma call_ok:
  assumes ok: "med_ok rel env p" and "run_call op"
  shows "med_ok rel env (mediate env (Call now op) p)"
proof -
  define st where "st = perform (me_redact env) (me_hash env) op (mp_runs p)"
  have "one_moves (mp_runs p) st"
    unfolding st_def using assms(2) by (rule call_moves) (rule runs_run_ok [OF ok])
  then consider "st = mp_runs p" | i run evs run' where "acts_on (mp_runs p) i run evs run' st" "moves run evs run'"
    unfolding one_moves_def by blast
  then have "med_ok rel env (deliver_all env now st p)"
    by cases (use ok in \<open>simp add: deliver_all_def\<close>, rule deliver_ok [OF ok])
  then show ?thesis by (simp add: st_def)
qed

end
