(* ===== verification/Mediation_Arrivals.thy ===== *)
theory Mediation_Arrivals
  imports Mediation_Invariant Registry_Properties Schema_Laws
begin

text \<open>
  A begin up to its run: the trees it may bind are well formed, so is the plan it is given, and the cursor of a
  resumed run opens behind finished steps only.
\<close>

section \<open>Trees a begin may bind\<close>

definition imports_unique :: "(EnterpriseId \<times> WorkflowTreeRegistryEntry) list \<Rightarrow> bool" where
  "imports_unique m \<longleftrightarrow> (\<forall>e \<in> snd ` set m. en_source e = SourceImported \<longrightarrow> unique_ids (en_tree e))"

lemma set_update_subset: "set (AList.update k v m) \<subseteq> insert (k, v) (set m)"
  by (induction m) auto

lemma imports_unique_update:
  "imports_unique m \<Longrightarrow> source = SourceImported \<longrightarrow> unique_ids tree \<Longrightarrow> imports_unique (register_entry source tree m)"
  using set_update_subset [of "tree_id tree" "\<lparr> en_tree = tree, en_source = source \<rparr>" m]
  by (fastforce simp: imports_unique_def register_entry_def)

lemma imports_unique_fold:
  "imports_unique m \<Longrightarrow> source = SourceImported \<longrightarrow> list_all unique_ids ts \<Longrightarrow> imports_unique (fold (register_entry source) ts m)"
  by (induction ts arbitrary: m) (auto intro!: imports_unique_update)

lemma listed_unique: "list_all unique_ids (map it_tree (rd_records (listEnterpriseWorkflowTrees env db)))"
proof -
  have "unique_ids (it_tree rec)" if "row_record env row = Some rec" for row rec
    using that record_id [of env row rec] valid_tree_ids by (auto simp: row_record_def split: sum.splits)
  then show ?thesis by (auto simp: list_all_iff listEnterpriseWorkflowTrees_def read_rows set_map_filter_iff)
qed

lemma loaded_imports: "list_all unique_ids (imported_trees (loadRegistry env unreadable db))"
proof -
  let ?b = "fold (register_entry SourceBuiltin) BUILTIN_WORKFLOW_TREES []"
  have b: "imports_unique ?b" by (rule imports_unique_fold) (simp_all add: imports_unique_def)
  then have i: "imports_unique (fold (register_entry SourceImported) (map it_tree (rd_records (listEnterpriseWorkflowTrees env db))) ?b)"
    using imports_unique_fold listed_unique by blast
  have mem: "list_all unique_ids (map en_tree (filter (\<lambda>e. en_source e = SourceImported) (order_by entry_before (map snd m))))"
    if "imports_unique m" for m
    using that by (auto simp: imports_unique_def list_all_iff)
  show ?thesis using mem [OF b] mem [OF i] by (simp add: imported_trees_def loadRegistry_def Let_def split: option.split)
qed

lemma snapshot_trees:
  assumes "getWorkflowTreeRegistrySnapshot env unreadable g = (s, g')" "snapshot_ok (gp_snapshot g)"
  shows "list_all unique_ids (imported_trees s)" "snapshot_ok (gp_snapshot g')"
  using assms loaded_imports
  by (auto simp: getWorkflowTreeRegistrySnapshot_def snapshot_ok_def Let_def split: option.splits)

lemma candidates_unique:
  assumes "list_all unique_ids trees" "c = collectWorkflowTreeCandidates collate trigger trees"
  shows "list_all unique_ids (wc_candidates c)" "unique_ids (wc_defaultTree c)"
  using assms candidates_cases [of _ collate trigger trees] default_tree_cases [of collate trigger trees]
  by (fastforce simp: list_all_iff)+

lemma find_denied_member: "find_denied plan policies ts = Inr (Some t) \<Longrightarrow> t \<in> set ts"
proof (induction ts)
  case (Cons u us)
  then show ?case by (cases "plan u") (auto split: if_splits)
qed simp

lemma selection_unique:
  assumes "pending_ok i pb" "begin_selection pb = Some sel"
  shows "unique_ids (sel_tree sel)"
proof -
  let ?c = "wc_candidates (pb_candidates pb)" let ?d = "wc_defaultTree (pb_candidates pb)"
  have c: "list_all unique_ids ?c" and d: "unique_ids ?d" using assms(1) by (simp_all add: pending_ok_def)
  have planned: "unique_ids (sel_tree sel)" if "selectWorkflowPlan ?c ?d prompt planner = Some sel" for prompt planner
    using selectWorkflowPlan_ok [OF c, of ?d prompt planner] that c d by (auto simp: selection_ok_def list_all_iff)
  show ?thesis
  proof (cases "pb_denied pb")
    case None
    with assms(2) planned show ?thesis by (simp add: begin_selection_def)
  next
    case (Some t)
    then have "unique_ids t" using assms(1) by (simp add: pending_ok_def)
    then show ?thesis using assms(2) planned Some
      by (auto simp: begin_selection_def failClosedWorkflowSelection_def selectionWithoutModel_def Let_def split: if_splits)
  qed
qed

section \<open>Arrivals\<close>

lemma arrival_step:
  assumes ok: "med_ok rel env p" and trees: "snapshot_ok (gp_snapshot trees)"
    and pend: "\<And>i pb. map_of pending i = Some pb \<Longrightarrow> map_of (mp_pending p) i = Some pb \<or> (pending_ok i pb \<and> map_of (mp_mediated p) i = None)"
  shows "med_ok rel env (p \<lparr> mp_trees := trees, mp_pending := pending \<rparr>)"
proof (rule med_okI)
  show "pending_ok i pb \<and> map_of (mp_mediated (p \<lparr> mp_trees := trees, mp_pending := pending \<rparr>)) i = None"
    if "map_of (mp_pending (p \<lparr> mp_trees := trees, mp_pending := pending \<rparr>)) i = Some pb" for i pb
    using pend [of i pb] that med_okD(5,6) [OF ok] by auto
  show "live_ok rel (me_owner env) m run (trail_of (md_executionId m) (mp_trace (p \<lparr> mp_trees := trees, mp_pending := pending \<rparr>)))"
    if "live_at (p \<lparr> mp_trees := trees, mp_pending := pending \<rparr>) i m run" for i m run
    using that med_okD(8) [OF ok] by (simp add: live_at_def)
qed (use med_okD(1,2,3,7,9) [OF ok] trees in \<open>simp_all add: reliable_def\<close>)

lemma arrive_ok:
  assumes ok: "med_ok rel env p"
  shows "med_ok rel env (snd (arrive_begin env unreadable now params p))"
proof (cases "map_of (mp_pending p) (bp_runId params) = None \<and> resolveEnterpriseMode (bp_mode params) \<noteq> ModeOff
    \<and> mediated_run p (bp_runId params) = None")
  case False
  then show ?thesis using ok by (auto simp: arrive_begin_def Let_def split: option.split)
next
  case True
  obtain s g where get: "getWorkflowTreeRegistrySnapshot (me_trees env) unreadable (mp_trees p) = (s, g)" by fastforce
  note t = snapshot_trees [OF get med_okD(4) [OF ok]]
  have idle: "map_of (mp_mediated p) (bp_runId params) = None"
    using True med_okD(7) [OF ok, of "bp_runId params"] by (auto simp: mediated_run_def split: option.splits)
  have keep: "med_ok rel env (p \<lparr> mp_trees := g \<rparr>)"
    using arrival_step [OF ok t(2), of "mp_pending p"] by simp
  define c where "c = collectWorkflowTreeCandidates (me_collate env)
    (classifyWorkflowTrigger (bp_trigger params) (bp_spawnedBy params)) (imported_trees s)"
  note cu = candidates_unique [OF t(1) c_def]
  have wait: "med_ok rel env (p \<lparr> mp_trees := g, mp_pending := AList.update (bp_runId params) pb (mp_pending p) \<rparr>)"
    if "pb_params pb = params" "pb_candidates pb = c" "pb_denied pb = denied" "find_denied plan policies (wc_candidates c) = Inr denied"
    for pb denied plan policies
  proof (rule arrival_step [OF ok t(2)])
    have "pending_ok (bp_runId params) pb"
      using that cu find_denied_member [of plan policies "wc_candidates c"] by (auto simp: pending_ok_def list_all_iff)
    then show "map_of (mp_pending p) i = Some pb' \<or> (pending_ok i pb' \<and> map_of (mp_mediated p) i = None)"
      if "map_of (AList.update (bp_runId params) pb (mp_pending p)) i = Some pb'" for i pb'
      using that idle by (auto simp: update_conv' split: if_splits)
  qed
  show ?thesis using True keep wait
    by (auto simp: arrive_begin_def get Let_def c_def [symmetric] split: sum.split)
qed

section \<open>The plan of a begin\<close>

lemma built_record:
  assumes "buildEnterpriseRunPlan redact hashTree collate params = Inr plan"
  obtains keep where "keep = None \<or> wn_id (tree_root (rq_tree params)) \<in> set (opt_list keep)"
    "nodes plan = flattenPlanNodes (tree_root (rq_tree params)) keep" "activeNodeId plan = nodeId (hd (nodes plan))"
    "runId plan = rq_runId params"
proof -
  define top where "top = tree_root (rq_tree params)"
  define wanted where "wanted = (case rq_route params of None \<Rightarrow> None | Some r \<Rightarrow> rs_nodeIds r)"
  define keep where "keep = (case wanted of None \<Rightarrow> None | Some ids \<Rightarrow> if wn_id top \<in> set ids then Some ids else None)"
  have "plan = plan_record redact hashTree collate params keep (flattenPlanNodes top keep)"
    using assms unfolding buildEnterpriseRunPlan_def Let_def top_def [symmetric] wanted_def [symmetric] keep_def [symmetric]
    by (simp split: if_splits)
  moreover have "runId (plan_record redact hashTree collate params keep planned) = rq_runId params" for planned
    by (simp add: plan_record_def Let_def)
  moreover have "keep = None \<or> wn_id top \<in> set (opt_list keep)"
    by (simp add: keep_def split: option.split)
  ultimately show ?thesis using that [of keep] by (simp add: top_def)
qed

lemma built_plan:
  assumes "plan_for env params mode now tree source rationale route = Inr plan" "unique_ids tree"
  shows "plan_steps_ok (nodes plan)" "[] \<notin> set (enterpriseStepSequence plan)" "runId plan = bp_runId params"
    "activeNodeId plan = hd (enterpriseStepSequence plan)" "enterpriseStepSequence plan \<noteq> []"
proof -
  let ?top = "tree_root tree"
  obtain params' where params': "rq_tree params' = tree" "rq_runId params' = bp_runId params"
    "buildEnterpriseRunPlan (me_redact env) (me_hash env) (me_collate env) params' = Inr plan"
    using assms(1) unfolding plan_for_def by (metis RunPlanRequest.select_convs(1,4))
  obtain keep where k: "keep = None \<or> wn_id ?top \<in> set (opt_list keep)" "nodes plan = flattenPlanNodes ?top keep"
    "activeNodeId plan = nodeId (hd (nodes plan))" "runId plan = bp_runId params"
    by (rule built_record [OF params'(3)]) (simp add: params')
  from assms(2) have d: "distinct (tree_ids ?top)" "[] \<notin> set (tree_ids ?top)" by (simp_all add: unique_ids_def)
  note f = flatten_steps_ok [OF d(1) k(1)]
  show "plan_steps_ok (nodes plan)" "runId plan = bp_runId params" using f k by simp_all
  then show "activeNodeId plan = hd (enterpriseStepSequence plan)" "enterpriseStepSequence plan \<noteq> []"
    using k(3) by (auto simp: enterpriseStepSequence_def plan_steps_ok_def hd_map)
  have "x \<in> set (tree_ids ?top)" if "x \<in> set (enterpriseStepSequence plan)" for x
    using that subseq_member [OF kept_subseq, of x]
    unfolding enterpriseStepSequence_def k(2) flattenPlanNodes_kept steps_of_kept by simp
  then show "[] \<notin> set (enterpriseStepSequence plan)" using d(2) by blast
qed

section \<open>Where the cursor opens\<close>

definition resume_step :: "EnterpriseRunPlan \<Rightarrow> (string \<times> string list) option \<Rightarrow> string option" where
  "resume_step plan resume = (case resume of None \<Rightarrow> None
     | Some (x, completed) \<Rightarrow> firstUnfinishedStep (enterpriseStepSequence plan) completed)"

definition carried :: "(string \<times> string list) option \<Rightarrow> string set" where
  "carried resume = (case resume of None \<Rightarrow> {} | Some r \<Rightarrow> set (snd r))"

lemma resume_step_place:
  assumes "resume_step plan resume = Some s"
  obtains k where "k < length (enterpriseStepSequence plan)" "enterpriseStepSequence plan ! k = s"
    "set (take k (enterpriseStepSequence plan)) \<subseteq> carried resume"
proof -
  obtain x completed where r: "resume = Some (x, completed)" using assms by (auto simp: resume_step_def split: option.splits)
  let ?k = "finished_prefix (enterpriseStepSequence plan) completed"
  have "nth_opt (enterpriseStepSequence plan) ?k = Some s"
    using assms r by (auto simp: resume_step_def firstUnfinishedStep_def Let_def split: if_splits)
  then show ?thesis using that [of ?k] finished_prefix_take by (auto simp: nth_opt_def r carried_def split: if_splits)
qed

text \<open>The steps the cursor leaves behind were carried over; a cursor that is not moved leaves none.\<close>

lemma opening_place:
  assumes plan: "plan_steps_ok (nodes plan)" "activeNodeId plan = hd (enterpriseStepSequence plan)"
    "[] \<notin> set (enterpriseStepSequence plan)"
    and c: "c = opening_cursor plan tracks (resume_step plan resume)" and run: "run_plan run = plan" "\<not> truthy (run_routeCompleted run)"
  shows "cursor (move_cursor c run) \<in> set (steps_of run)"
    "set (closed_steps (move_cursor c run)) \<subseteq> (if tracks \<and> resume_step plan resume \<noteq> None then carried resume else {})"
    "\<not> tracks \<Longrightarrow> c = activeNodeId plan"
proof -
  let ?steps = "enterpriseStepSequence plan"
  have d: "distinct ?steps" "?steps \<noteq> []" using plan(1) by (auto simp: plan_steps_ok_def enterpriseStepSequence_def)
  have steps: "steps_of run = ?steps" using run(1) by (simp add: steps_of_def)
  have head: "hd ?steps \<in> set ?steps" "index_of (hd ?steps) ?steps = Some 0" using d(2) by (cases ?steps; simp)+
  show still: "c = activeNodeId plan" if "\<not> tracks" using that by (simp add: c opening_cursor_def Let_def)
  have closed: "closed_steps (move_cursor c run) = take (position (move_cursor c run)) ?steps"
    using run(2) by (simp add: closed_steps_def steps)
  have pos: "position (move_cursor c run) = k" if "index_of c ?steps = Some k" for k
    using that by (simp add: position_def steps)
  show "cursor (move_cursor c run) \<in> set (steps_of run)"
    and "set (closed_steps (move_cursor c run)) \<subseteq> (if tracks \<and> resume_step plan resume \<noteq> None then carried resume else {})"
  proof -
    consider "c = hd ?steps" "\<not> (tracks \<and> resume_step plan resume \<noteq> None)" | s where "tracks" "resume_step plan resume = Some s" "c = s"
    proof (cases "tracks \<and> resume_step plan resume \<noteq> None")
      case True
      then obtain s where s: "resume_step plan resume = Some s" by auto
      then have "s \<in> set ?steps" by (rule resume_step_place) auto
      then have "s \<noteq> []" using plan(3) by auto
      then show ?thesis using that(2) [of s] True s d(2) by (simp add: c opening_cursor_def Let_def)
    next
      case False
      have "c = hd ?steps" using False plan(2) head(1) by (auto simp: c opening_cursor_def Let_def)
      then show ?thesis using that(1) False by blast
    qed
    then have "c \<in> set ?steps \<and> set (closed_steps (move_cursor c run)) \<subseteq> (if tracks \<and> resume_step plan resume \<noteq> None then carried resume else {})"
    proof cases
      case 1
      then have "index_of c ?steps = Some 0" "c \<in> set ?steps" using head by simp_all
      with pos [of 0] show ?thesis by (simp add: closed)
    next
      case 2
      obtain k where k: "k < length ?steps" "?steps ! k = s" "set (take k ?steps) \<subseteq> carried resume"
        using resume_step_place [OF 2(2)] .
      have "index_of c ?steps = Some k" using index_of_nth [OF d(1) k(1)] k(2) 2(3) by simp
      moreover have "c \<in> set ?steps" using k(1,2) 2(3) by auto
      ultimately show ?thesis using k(3) 2(1,2) pos [of k] by (simp add: closed)
    qed
    then show "cursor (move_cursor c run) \<in> set (steps_of run)"
      "set (closed_steps (move_cursor c run)) \<subseteq> (if tracks \<and> resume_step plan resume \<noteq> None then carried resume else {})"
      by (simp_all add: steps)
  qed
qed

end
