(* ===== verification/Mediation_Begins.thy ===== *)
theory Mediation_Begins
  imports Mediation_Arrivals
begin

text \<open>
  A begin from the end of its planning: the rows and events it writes are those of one fresh execution, and the
  run it registers is followed by that execution's trail.
\<close>

section \<open>Events of mediation itself\<close>

type_synonym Entry = "EnterpriseRunEventKind \<times> (string \<times> Json) list"

fun append_ops :: "int \<Rightarrow> Entry list \<Rightarrow> MediatedRunState \<Rightarrow> TraceOp list" where
  "append_ops now [] m = []"
| "append_ops now ((kind, entries) # es) m = AppendTrace (event_of m now kind None entries) # append_ops now es (bump 1 m)"

lemma append_ops_append:
  "append_ops now (es @ es') m = append_ops now es m @ append_ops now es' (bump (length es) m)"
  by (induction es arbitrary: m) auto

lemma append_ops_harmless:
  "op \<in> set (append_ops now es m) \<Longrightarrow> RunEnded \<notin> fst ` set es \<Longrightarrow> harmless (md_executionId m) op"
proof (induction es arbitrary: m)
  case (Cons e es)
  obtain kind entries where e: "e = (kind, entries)" by fastforce
  show ?case
  proof (cases "op = AppendTrace (event_of m now kind None entries)")
    case True
    have "kind \<noteq> RunEnded" using Cons.prems(2) e by auto
    then show ?thesis unfolding True by (rule append_harmless)
  next
    case False
    then have "op \<in> set (append_ops now es (bump 1 m))" using Cons.prems(1) e by simp
    from Cons.IH [OF this] Cons.prems(2) show ?thesis by simp
  qed
qed simp

lemma append_ops_below: "op \<in> set (append_ops now es m) \<Longrightarrow> below (md_seq m + length es) op"
proof (induction es arbitrary: m)
  case (Cons e es)
  obtain kind entries where e: "e = (kind, entries)" by fastforce
  then consider "op = AppendTrace (event_of m now kind None entries)" | "op \<in> set (append_ops now es (bump 1 m))"
    using Cons.prems by auto
  then show ?case
  proof cases
    case 1
    then show ?thesis by (simp add: event_of_def)
  next
    case 2
    from Cons.IH [OF 2] show ?thesis by simp
  qed
qed simp

lemma append_if_stored:
  assumes "append_if b now kind entries (m, p) = (m', p')"
  shows "m' = bump (if b then 1 else 0) m" "stored (append_ops now (if b then [(kind, entries)] else []) m) p p'"
  using assms append_stored [of now kind None entries m p m' p'] by (auto simp: append_if_def split: if_splits)

text \<open>What one event credits, and the trail after some.\<close>

definition entry_credit :: "Entry \<Rightarrow> string set \<Rightarrow> string set" where
  "entry_credit e F = (if fst e = RunResumed then F \<union> set (string_items (map_of (snd e) ''carriedSteps'')) else F)"

fun opening_kind :: "EnterpriseRunEventKind \<Rightarrow> bool" where
  "opening_kind RunStarted = True"
| "opening_kind RouteSelected = True"
| "opening_kind GovernanceDecisionKind = True"
| "opening_kind RunResumed = True"
| "opening_kind kind = False"

lemma entry_row:
  "opening_kind kind \<Longrightarrow> credit_row (event_row (event_of m now kind None entries)) F = entry_credit (kind, entries) F"
  by (cases kind) (auto simp: credit_row_def entry_credit_def moved_names_def)

lemma append_trail:
  assumes "gap_free (md_seq m) t" "\<forall>e \<in> set es. opening_kind (fst e)"
  shows "gap_free (md_seq m + length es) (fold trail_op (append_ops now es m) t)
    \<and> tl_rows (fold trail_op (append_ops now es m) t) = tl_rows t
    \<and> finished_of (fold trail_op (append_ops now es m) t) = fold entry_credit es (finished_of t)"
  using assms
proof (induction es arbitrary: m t)
  case (Cons e es)
  obtain kind entries where e: "e = (kind, entries)" by fastforce
  let ?e = "event_of m now kind None entries" let ?t = "trail_op (AppendTrace ?e) t"
  note a = append_gap_free [OF Cons.prems(1), of now kind None entries]
  have k: "opening_kind kind" using Cons.prems(2) e by simp
  have f: "finished_of ?t = entry_credit e (finished_of t)" unfolding a(1) using entry_row [OF k] e by (simp add: finished_of_def)
  have r: "tl_rows ?t = tl_rows t" unfolding a(1) by simp
  have rest: "\<forall>e \<in> set es. opening_kind (fst e)" using Cons.prems(2) by simp
  have s: "fold trail_op (append_ops now (e # es) m) t = fold trail_op (append_ops now es (bump 1 m)) ?t"
    by (simp add: e del: trail_op.simps)
  from Cons.IH [OF a(2) rest] show ?case unfolding s f r by simp
qed simp

section \<open>The opening of a trail\<close>

definition opening_entries :: "EnterpriseRunPlan \<Rightarrow> GovernanceDecision \<Rightarrow> bool \<Rightarrow> Entry list" where
  "opening_entries plan decision blocked = [(RunStarted, started_fields plan)]
     @ (case plan_route plan of None \<Rightarrow> [] | Some r \<Rightarrow> [(RouteSelected, route_fields r)])
     @ (if dec_source decision \<noteq> SrcDefault then [(GovernanceDecisionKind, start_decision_fields decision blocked)] else [])"

definition start_params :: "BeginEnterpriseRunParams \<Rightarrow> EnterpriseRunPlan \<Rightarrow> string \<Rightarrow> TraceStart" where
  "start_params params plan x = \<lparr> ts_execution = x, ts_plan = plan, ts_sessionKey = present (bp_sessionKey params),
     ts_sessionId = present (bp_sessionId params), ts_agentId = present (bp_agentId params),
     ts_chatVisible = (if bp_chatVisible params = Some False then Some False else None) \<rparr>"

definition opening_ops :: "MediationEnv \<Rightarrow> int \<Rightarrow> BeginEnterpriseRunParams \<Rightarrow> EnterpriseRunPlan \<Rightarrow> GovernanceDecision \<Rightarrow> bool \<Rightarrow>
    MediatedRunState \<Rightarrow> TraceOp list" where
  "opening_ops env now params plan decision blocked m =
     StartTrace (start_params params plan (md_executionId m)) (me_owner env) now # append_ops now (opening_entries plan decision blocked) m"

lemma opening_entries_kinds:
  "\<forall>e \<in> set (opening_entries plan decision blocked). opening_kind (fst e) \<and> fst e \<noteq> RunResumed \<and> fst e \<noteq> RunEnded"
  by (auto simp: opening_entries_def split: option.splits if_splits)

lemma opening_entries_quiet: "fold entry_credit (opening_entries plan decision blocked) F = F"
  by (simp add: opening_entries_def entry_credit_def split: option.split)

lemma open_trail_stored:
  assumes "open_trail env now params plan decision blocked (m, p) = (m', p')"
  shows "m' = bump (length (opening_entries plan decision blocked)) m"
    "stored (opening_ops env now params plan decision blocked m) p p'"
proof -
  define p1 where "p1 = persistTrace (persistEnterpriseRunStart (start_params params plan (md_executionId m)) (me_owner env) now) p"
  have s1: "stored [StartTrace (start_params params plan (md_executionId m)) (me_owner env) now] p p1"
    unfolding p1_def by (rule persist_update(4))
  obtain m2 p2 where a2: "appendEvent now RunStarted None (started_fields plan) (m, p1) = (m2, p2)" by fastforce
  note s2 = append_stored [OF a2]
  let ?r = "case plan_route plan of Some r \<Rightarrow> route_fields r | None \<Rightarrow> []"
  obtain m3 p3 where a3: "append_if (plan_route plan \<noteq> None) now RouteSelected ?r (m2, p2) = (m3, p3)" by fastforce
  note s3 = append_if_stored [OF a3]
  have a4: "append_if (dec_source decision \<noteq> SrcDefault) now GovernanceDecisionKind (start_decision_fields decision blocked) (m3, p3) = (m', p')"
    using assms unfolding open_trail_def prod.case start_params_def [symmetric] p1_def [symmetric] a2 a3 .
  note s4 = append_if_stored [OF a4]
  show "m' = bump (length (opening_entries plan decision blocked)) m"
    using s2(1) s3(1) s4(1) by (simp add: opening_entries_def split: option.split)
  have "opening_ops env now params plan decision blocked m = [StartTrace (start_params params plan (md_executionId m)) (me_owner env) now]
      @ [AppendTrace (event_of m now RunStarted None (started_fields plan))]
      @ append_ops now (if plan_route plan \<noteq> None then [(RouteSelected, ?r)] else []) m2
      @ append_ops now (if dec_source decision \<noteq> SrcDefault then [(GovernanceDecisionKind, start_decision_fields decision blocked)] else []) m3"
    using s2(1) s3(1) by (simp add: opening_ops_def opening_entries_def append_ops_append split: option.split)
  with stored_trans [OF s1 stored_trans [OF s2(2) stored_trans [OF s3(2) s4(2)]]]
  show "stored (opening_ops env now params plan decision blocked m) p p'" by simp
qed

lemma opening_ops_harmless: "op \<in> set (opening_ops env now params plan decision blocked m) \<Longrightarrow> harmless (md_executionId m) op"
proof -
  assume "op \<in> set (opening_ops env now params plan decision blocked m)"
  then consider "op = StartTrace (start_params params plan (md_executionId m)) (me_owner env) now"
    | "op \<in> set (append_ops now (opening_entries plan decision blocked) m)" by (auto simp: opening_ops_def)
  then show "harmless (md_executionId m) op"
  proof cases
    case 2
    then show ?thesis by (rule append_ops_harmless) (use opening_entries_kinds in fastforce)
  qed (simp add: harmless_def start_params_def)
qed

lemma opening_ops_below:
  "op \<in> set (opening_ops env now params plan decision blocked m) \<Longrightarrow> below (md_seq m + length (opening_entries plan decision blocked)) op"
  using append_ops_below by (auto simp: opening_ops_def)

lemma opening_trail:
  assumes "t = \<lparr> tl_events = [], tl_rows = [] \<rparr>" "md_seq m = 0" "t' = fold trail_op (opening_ops env now params plan decision blocked m) t"
  shows "gap_free (length (opening_entries plan decision blocked)) t'" "finished_of t' = {}"
    "tl_rows t' = [\<lparr> tw_status = ''running'', tw_plan = plan, tw_session = present (bp_sessionId params), tw_owner = Some (me_owner env) \<rparr>]"
proof -
  let ?s = "trail_op (StartTrace (start_params params plan (md_executionId m)) (me_owner env) now) t"
  have s: "gap_free (md_seq m) ?s" "finished_of ?s = {}"
    "tl_rows ?s = [\<lparr> tw_status = ''running'', tw_plan = plan, tw_session = present (bp_sessionId params), tw_owner = Some (me_owner env) \<rparr>]"
    using assms(1,2) by (simp_all add: gap_free_def finished_of_def start_params_def)
  have "t' = fold trail_op (append_ops now (opening_entries plan decision blocked) m) ?s"
    by (simp add: assms(3) opening_ops_def del: trail_op.simps)
  moreover have "\<forall>e \<in> set (opening_entries plan decision blocked). opening_kind (fst e)"
    using opening_entries_kinds by blast
  ultimately show "gap_free (length (opening_entries plan decision blocked)) t'" "finished_of t' = {}"
    "tl_rows t' = [\<lparr> tw_status = ''running'', tw_plan = plan, tw_session = present (bp_sessionId params), tw_owner = Some (me_owner env) \<rparr>]"
    using append_trail [OF s(1)] s(2,3) assms(2) by (simp_all add: opening_entries_quiet)
qed

section \<open>The continuation\<close>

definition same_process :: "MediationProcess \<Rightarrow> MediationProcess \<Rightarrow> bool" where
  "same_process p p' \<longleftrightarrow> mp_runs p' = mp_runs p \<and> mp_trees p' = mp_trees p \<and> mp_mediated p' = mp_mediated p
     \<and> mp_pending p' = mp_pending p \<and> (reliable p \<longrightarrow> reliable p')"

lemma take_resume_effect:
  assumes "take_resume pb plan tracks p = (resume, p')" "store_ok (mp_trace p)"
  shows "same_process p p'" "store_ok (mp_trace p')" "trail_of y (mp_trace p') = trail_of y (mp_trace p)" "resume \<noteq> None \<Longrightarrow> tracks"
proof -
  have "same_process p p' \<and> store_ok (mp_trace p') \<and> trail_of y (mp_trace p') = trail_of y (mp_trace p) \<and> (resume \<noteq> None \<longrightarrow> tracks)"
  proof (cases "p' = p \<and> resume = None")
    case True
    then show ?thesis using assms(2) by (simp add: same_process_def)
  next
    case False
    then obtain claim where tracks and r: "readTrace (takeEnterpriseRunResume claim) p = (resume, p')"
      using assms(1) by (auto simp: take_resume_def Let_def split: if_splits)
    have "mp_trace p' = mp_trace p \<or> mp_trace p' = trace_perform (TakeResume claim) (mp_trace p)"
      using r by (auto simp: readTrace_def Let_def commit_def split: if_splits sum.splits prod.splits)
    moreover have "store_ok (trace_perform (TakeResume claim) (mp_trace p))" 
      by (rule trace_perform_ok [OF assms(2)]) simp
    moreover have "mp_faults p' = tl (mp_faults p)" "mp_runs p' = mp_runs p" "mp_trees p' = mp_trees p" "mp_mediated p' = mp_mediated p"
      "mp_pending p' = mp_pending p"
      using r by (auto simp: readTrace_def Let_def split: if_splits sum.splits prod.splits)
    ultimately show ?thesis
      using \<open>tracks\<close> trail_take [of y claim "mp_trace p"] assms(2) reliable_tl [of p] by (auto simp: same_process_def reliable_def)
  qed
  then show "same_process p p'" "store_ok (mp_trace p')" "trail_of y (mp_trace p') = trail_of y (mp_trace p)" "resume \<noteq> None \<Longrightarrow> tracks"
    by auto
qed

end
