(* ===== verification/Mediation_Keeps.thy ===== *)
theory Mediation_Keeps
  imports Mediation_Begins
begin

text \<open>Every operation of mediation keeps its invariant; the system of its operations is interpreted at the end.\<close>

section \<open>A fresh execution\<close>

definition fresh_execution :: "string \<Rightarrow> MediationProcess \<Rightarrow> bool" where
  "fresh_execution x p \<longleftrightarrow> trail_of x (mp_trace p) = \<lparr> tl_events = [], tl_rows = [] \<rparr>
     \<and> (\<forall>m \<in> snd ` set (mp_mediated p). md_executionId m \<noteq> x)"

lemma fresh_unused: "fresh_execution x p \<Longrightarrow> map_of (mp_mediated p) i = Some m \<Longrightarrow> md_executionId m \<noteq> x"
  by (force simp: fresh_execution_def dest: map_of_SomeD)

text \<open>Writes on an execution that no run has.\<close>

lemma stored_ok:
  assumes ok: "med_ok rel env p" and s: "stored ops p p'" "\<And>op. op \<in> set ops \<Longrightarrow> harmless x op"
    and own: "\<And>j m. map_of (mp_mediated p) j = Some m \<Longrightarrow> md_executionId m \<noteq> x" and idle: "map_of (mp_mediated p) i = None"
  shows "med_ok rel env p'"
proof -
  note d = storedD [OF s(1)]
  have store: "store_ok (mp_trace p')" and others: "\<And>y. y \<noteq> x \<Longrightarrow> trail_of y (mp_trace p') = trail_of y (mp_trace p)"
    by (rule wrote_trails [OF d(6) med_okD(2) [OF ok], of x], use s(2) in auto)+
  show ?thesis
  proof (rule med_step [OF ok, of p' i x])
    show "(map_of (mp_mediated p') i = None \<and> getEnterpriseActiveRun (mp_runs p') i = None) \<or>
      (\<exists>m run. live_at p' i m run \<and> md_executionId m = x \<and> live_ok rel (me_owner env) m run (trail_of x (mp_trace p')))"
      using idle d(1,3) med_okD(7) [OF ok, of i] by simp
    show "j = i" if "map_of (mp_mediated p) j = Some m" "md_executionId m = x" for j m using own that by blast
  qed (use store others d med_okD(1,3) [OF ok] idle in auto)
qed

lemma drop_pending_ok: "med_ok rel env p \<Longrightarrow> med_ok rel env (p \<lparr> mp_pending := AList.delete i (mp_pending p) \<rparr>)"
proof (rule arrival_step [of rel env p "mp_trees p" "AList.delete i (mp_pending p)", simplified])
  assume ok: "med_ok rel env p"
  show "med_ok rel env p" by fact
  show "snapshot_ok (gp_snapshot (mp_trees p))" using med_okD(4) [OF ok] .
qed (auto simp: delete_conv' split: if_splits)

section \<open>Registering\<close>

lemma emit_at:
  assumes "live_at p i m run"
  shows "acts_on (mp_runs p) i run [ev] run (emit run ev (mp_runs p))"
  using assms by (intro emit_acts) (simp add: live_at_def)

text \<open>The state in which a run stands before its first step is opened: its row may still show where the plan began.\<close>

lemma entered_follows:
  assumes l: "live_at p i m run" and key: "run_sink run" "sink_key run = (i, Some (md_executionId m))" and run: "run_ok run"
    and store: "store_ok (mp_trace p)" and ahd: "ahead (md_seq m) (trail_of (md_executionId m) (mp_trace p))"
    and rel: "rel \<longrightarrow> reliable p"
    and shows_run: "rel \<longrightarrow> gap_free (md_seq m) (trail_of (md_executionId m) (mp_trace p))
       \<and> set (closed_steps run) \<subseteq> finished_of (trail_of (md_executionId m) (mp_trace p))
       \<and> tl_rows (trail_of (md_executionId m) (mp_trace p)) = [\<lparr> tw_status = ''running'', tw_plan = plan, tw_session = run_sessionId run,
            tw_owner = Some owner \<rparr>]"
    and q: "q = deliver_all env now (emit run ev (mp_runs p)) p" and ev: "uncredited ev" "enters_step ev"
  shows "live_at q i (bump 1 m) run" "with_mediated p i (bump 1 m) (q \<lparr> mp_runs := mp_runs p \<rparr>)"
    "mp_runs q = emit run ev (mp_runs p)" "store_ok (mp_trace q)"
    "\<And>y. y \<noteq> md_executionId m \<Longrightarrow> trail_of y (mp_trace q) = trail_of y (mp_trace p)"
    "live_ok rel owner (bump 1 m) run (trail_of (md_executionId m) (mp_trace q))"
proof -
  let ?x = "md_executionId m"
  note a = emit_at [OF l, of ev]
  obtain ops' where d: "with_mediated (p \<lparr> mp_runs := emit run ev (mp_runs p) \<rparr>) i (bump (length [ev]) m) q"
    and ops: "reliable p \<Longrightarrow> ops' = run_ops_of env now run [ev] m" and st: "store_ok (mp_trace q)"
    and here: "trail_of ?x (mp_trace q) = fold trail_op ops' (trail_of ?x (mp_trace p))"
    and others: "\<And>y. y \<noteq> ?x \<Longrightarrow> trail_of y (mp_trace q) = trail_of y (mp_trace p)"
    and ahd': "ahead (md_seq m + length [ev]) (trail_of ?x (mp_trace q))"
    using acts_effect [OF l key a store ahd q] by blast
  show "live_at q i (bump 1 m) run" "with_mediated p i (bump 1 m) (q \<lparr> mp_runs := mp_runs p \<rparr>)"
    "mp_runs q = emit run ev (mp_runs p)" "store_ok (mp_trace q)"
    "\<And>y. y \<noteq> ?x \<Longrightarrow> trail_of y (mp_trace q) = trail_of y (mp_trace p)"
    using d st others l by (simp_all add: with_mediated_def live_at_def reliable_def)
  have "follows owner (bump 1 m) run (trail_of ?x (mp_trace q))" if rel
  proof -
    note s = shows_run [rule_format, OF that]
    have reliable: "reliable p" using rel that by simp
    have "list_all named [ev]" using uncredited_named [OF ev(1)] by simp
    from run_trail [OF conjunct1 [OF s] this, of env now run] s
    show ?thesis unfolding here ops [OF reliable] using ev by (simp add: follows_def credit_uncredited)
  qed
  then show "live_ok rel owner (bump 1 m) run (trail_of ?x (mp_trace q))"
    using run key ahd' by (simp add: live_ok_def sink_key_def)
qed

section \<open>Activation\<close>

text \<open>What a begin has written when it registers its run, before the first step is opened.\<close>

definition staged :: "bool \<Rightarrow> MediationEnv \<Rightarrow> MediationProcess \<Rightarrow> string \<Rightarrow> EnterpriseActiveRun \<Rightarrow> EnterpriseRunPlan \<Rightarrow> string set \<Rightarrow>
    MediatedRunState \<Rightarrow> MediationProcess \<Rightarrow> bool" where
  "staged rel env p x run plan carry m q \<longleftrightarrow> same_process p q \<and> md_executionId m = x \<and> store_ok (mp_trace q)
     \<and> (\<forall>y. y \<noteq> x \<longrightarrow> trail_of y (mp_trace q) = trail_of y (mp_trace p)) \<and> ahead (md_seq m) (trail_of x (mp_trace q))
     \<and> (rel \<longrightarrow> gap_free (md_seq m) (trail_of x (mp_trace q)) \<and> carry \<subseteq> finished_of (trail_of x (mp_trace q))
          \<and> tl_rows (trail_of x (mp_trace q)) = [\<lparr> tw_status = ''running'', tw_plan = plan, tw_session = run_sessionId run,
               tw_owner = Some (me_owner env) \<rparr>])"

lemma stagedD:
  assumes "staged rel env p x run plan carry m q"
  shows "same_process p q" "md_executionId m = x" "store_ok (mp_trace q)" "\<And>y. y \<noteq> x \<Longrightarrow> trail_of y (mp_trace q) = trail_of y (mp_trace p)"
    "ahead (md_seq m) (trail_of x (mp_trace q))"
    "rel \<Longrightarrow> gap_free (md_seq m) (trail_of x (mp_trace q)) \<and> carry \<subseteq> finished_of (trail_of x (mp_trace q))
       \<and> tl_rows (trail_of x (mp_trace q)) = [\<lparr> tw_status = ''running'', tw_plan = plan, tw_session = run_sessionId run,
            tw_owner = Some (me_owner env) \<rparr>]"
  using assms by (auto simp: staged_def)

lemma same_process_stored: "stored ops p p' \<Longrightarrow> same_process p p'"
  by (simp add: stored_def same_process_def)

lemma same_process_trans: "same_process p q \<Longrightarrow> same_process q r \<Longrightarrow> same_process p r"
  by (auto simp: same_process_def)

lemma opening_staged:
  assumes ok: "med_ok rel env p" and fresh: "fresh_execution x p"
    and o: "open_trail env now params plan decision blocked (mediation_fields params x, p) = (m, q)"
    and session: "run_sessionId run = present (bp_sessionId params)"
  shows "staged rel env p x run plan {} m q"
proof -
  note os = open_trail_stored [OF o]
  let ?m0 = "mediation_fields params x" let ?ops = "opening_ops env now params plan decision blocked ?m0"
  have m0: "md_executionId ?m0 = x" "md_seq ?m0 = 0" by (simp_all add: mediation_fields_def Let_def)
  note w = storedD(6) [OF os(2)]
  have h: "\<forall>op \<in> set ?ops. harmless x op" using opening_ops_harmless [of _ env now params plan decision blocked ?m0] m0 by simp
  have fresh_t: "trail_of x (mp_trace p) = \<lparr> tl_events = [], tl_rows = [] \<rparr>" using fresh by (simp add: fresh_execution_def)
  obtain ops' where ops: "subseq ops' ?ops" "reliable p \<Longrightarrow> ops' = ?ops" "store_ok (mp_trace q)"
    "trail_of x (mp_trace q) = fold trail_op ops' (trail_of x (mp_trace p))" "\<And>y. y \<noteq> x \<Longrightarrow> trail_of y (mp_trace q) = trail_of y (mp_trace p)"
    using wrote_trails [OF w med_okD(2) [OF ok] h] by blast
  have "ahead (md_seq m) (trail_of x (mp_trace q))"
    by (rule ahead_writes [OF w med_okD(2) [OF ok], of x _ 0])
      (use h opening_ops_below [of _ env now params plan decision blocked ?m0] m0 os(1) fresh_t in \<open>simp_all add: ahead_def\<close>)
  moreover have "gap_free (md_seq m) (trail_of x (mp_trace q)) \<and> tl_rows (trail_of x (mp_trace q))
      = [\<lparr> tw_status = ''running'', tw_plan = plan, tw_session = run_sessionId run, tw_owner = Some (me_owner env) \<rparr>]" if rel
    using opening_trail [OF fresh_t m0(2) ops(4) [unfolded ops(2) [OF med_okD(1) [OF ok that]]]] os(1) m0(2) session by simp
  ultimately show ?thesis
    using same_process_stored [OF os(2)] os(1) m0(1) ops(3,5) by (simp add: staged_def)
qed

lemma resumed_staged:
  assumes ok: "med_ok rel env p" and st: "staged rel env p x run plan {} m q"
    and take: "take_resume pb plan tracks q = (resume, q1)"
    and app: "append_if (opt_list (resume_step plan resume) \<noteq> []) now RunResumed
           (case resume of Some r \<Rightarrow> resumed_fields r (opt_list (resume_step plan resume)) | None \<Rightarrow> []) (m, q1) = (m', q')"
  shows "staged rel env p x run plan (if opt_list (resume_step plan resume) \<noteq> [] then carried resume else {}) m' q'"
proof -
  note s = stagedD [OF st] and r = take_resume_effect [OF take stagedD(3) [OF st]] and a = append_if_stored [OF app]
  let ?b = "opt_list (resume_step plan resume) \<noteq> []"
  define es where "es = (if ?b then [(RunResumed, case resume of Some r \<Rightarrow> resumed_fields r (opt_list (resume_step plan resume)) | None \<Rightarrow> [])] else [])"
  have m': "m' = bump (length es) m" using a(1) by (simp add: es_def)
  have sto: "stored (append_ops now es m) q1 q'" using a(2) by (simp add: es_def)
  note w = storedD(6) [OF sto]
  have h: "\<forall>op \<in> set (append_ops now es m). harmless x op"
    using append_ops_harmless [of _ now es m] s(2) by (auto simp: es_def)
  obtain ops' where ops: "subseq ops' (append_ops now es m)" "reliable q1 \<Longrightarrow> ops' = append_ops now es m" "store_ok (mp_trace q')"
    "trail_of x (mp_trace q') = fold trail_op ops' (trail_of x (mp_trace q1))" "\<And>y. y \<noteq> x \<Longrightarrow> trail_of y (mp_trace q') = trail_of y (mp_trace q1)"
    using wrote_trails [OF w r(2) h] by blast
  have "ahead (md_seq m') (trail_of x (mp_trace q'))"
    by (rule ahead_writes [OF w r(2), of x _ "md_seq m"])
      (use h append_ops_below [of _ now es m] m' s(5) r(3) in simp_all)
  moreover have "gap_free (md_seq m') (trail_of x (mp_trace q')) \<and> (if ?b then carried resume else {}) \<subseteq> finished_of (trail_of x (mp_trace q'))
       \<and> tl_rows (trail_of x (mp_trace q')) = [\<lparr> tw_status = ''running'', tw_plan = plan, tw_session = run_sessionId run,
            tw_owner = Some (me_owner env) \<rparr>]" if rel
  proof -
    have rel': "reliable q1" using med_okD(1) [OF ok that] s(1) r(1) by (simp add: same_process_def)
    have t: "trail_of x (mp_trace q1) = trail_of x (mp_trace q)" by (rule r(3))
    have k: "\<forall>e \<in> set es. opening_kind (fst e)" by (simp add: es_def)
    have g: "gap_free (md_seq m) (trail_of x (mp_trace q))" using s(6) [OF that] by simp
    have "(if ?b then carried resume else {}) \<subseteq> fold entry_credit es F" for F
      by (auto simp: es_def entry_credit_def resumed_fields_def carried_def resume_step_def opt_list_def split: option.splits)
    with append_trail [OF g k, of now] s(6) [OF that] m' show ?thesis
      unfolding ops(4) ops(2) [OF rel'] t by simp
  qed
  moreover have "same_process p q'"
    using same_process_trans [OF same_process_trans [OF s(1) r(1)] same_process_stored [OF sto]] .
  ultimately show ?thesis using s(2,4) r(3) m' ops(3,5) by (simp add: staged_def)
qed

text \<open>A run registered with its mediation fields, in a process that knew neither.\<close>

definition registered :: "string \<Rightarrow> MediatedRunState \<Rightarrow> EnterpriseActiveRun \<Rightarrow> MediationProcess \<Rightarrow> MediationProcess" where
  "registered i m run q = put_mediated i (m, q \<lparr> mp_runs := registerEnterpriseActiveRun run (mp_runs q) \<rparr>)"

lemma registered_simps [simp]:
  "mp_runs (registered i m run q) = registerEnterpriseActiveRun run (mp_runs q)" "mp_trees (registered i m run q) = mp_trees q"
  "mp_trace (registered i m run q) = mp_trace q" "mp_pending (registered i m run q) = mp_pending q"
  "reliable (registered i m run q) = reliable q"
  "map_of (mp_mediated (registered i m run q)) j = (if j = i then Some m else map_of (mp_mediated q) j)"
  by (simp_all add: registered_def put_mediated_def update_conv' reliable_def)

lemma registered_live: "runId (run_plan run) = i \<Longrightarrow> live_at (registered i m run q) i m run"
  by (simp add: live_at_def)

text \<open>A process that differs from a good one by a registered run which its trail follows is good.\<close>

lemma registered_ok:
  assumes ok: "med_ok rel env p" and idle: "map_of (mp_mediated p) i = None" "map_of (mp_pending p) i = None"
    and own: "\<And>j m. map_of (mp_mediated p) j = Some m \<Longrightarrow> md_executionId m \<noteq> x"
    and q: "mp_trees q = mp_trees p" "mp_pending q = mp_pending p" "rel \<Longrightarrow> reliable q" "store_ok (mp_trace q)"
    and med: "\<And>j. map_of (mp_mediated q) j = (if j = i then Some m else map_of (mp_mediated p) j)"
    and runs: "\<And>j. getEnterpriseActiveRun (mp_runs q) j = (if j = i then Some run else getEnterpriseActiveRun (mp_runs p) j)"
    and reg: "registry_ok (mp_runs q)" and others: "\<And>y. y \<noteq> x \<Longrightarrow> trail_of y (mp_trace q) = trail_of y (mp_trace p)"
    and live: "md_executionId m = x" "live_ok rel (me_owner env) m run (trail_of x (mp_trace q))"
  shows "med_ok rel env q"
proof (rule med_step [OF ok, of q i x])
  show "(map_of (mp_mediated q) i = None \<and> getEnterpriseActiveRun (mp_runs q) i = None) \<or>
    (\<exists>m run. live_at q i m run \<and> md_executionId m = x \<and> live_ok rel (me_owner env) m run (trail_of x (mp_trace q)))"
    using live med runs by (auto simp: live_at_def)
  show "j = i" if "map_of (mp_mediated p) j = Some m'" "md_executionId m' = x" for j m' using own that by blast
  show "map_of (mp_pending p) j = Some pb \<and> (j = i \<longrightarrow> map_of (mp_mediated q) i = None)" if "map_of (mp_pending q) j = Some pb" for j pb
    using that idle(2) q(2) by auto
qed (use q med runs reg others in auto)

lemma registry_after:
  assumes "med_ok rel env p" "map_of (mp_mediated p) i = None" "runId (run_plan run) = i"
  shows "registry_ok (registerEnterpriseActiveRun run (mp_runs p))"
  using assms med_okD(3,7) [OF assms(1)] by (intro register_ok) (auto simp: may_register_def)

lemma emit_registry_ok: "registry_ok st \<Longrightarrow> registry_ok (emit run ev st)"
  by (simp add: registry_ok_def getSessionActiveRunId_def)

lemma staged_opens:
  assumes ok: "med_ok rel env p" and idle: "map_of (mp_mediated p) i = None" "map_of (mp_pending p) i = None"
    and own: "\<And>j m. map_of (mp_mediated p) j = Some m \<Longrightarrow> md_executionId m \<noteq> x"
    and st: "staged rel env p x run plan carry m q" and run: "run_ok run" "run_sink run" "sink_key run = (i, Some x)"
    and closed: "set (closed_steps run) \<subseteq> carry"
    and m': "md_executionId m' = x" "md_seq m' = md_seq m" and r: "r = registered i m' run q"
    and res: "(run_plan run = plan \<and> q' = r)
      \<or> (\<exists>ev. uncredited ev \<and> enters_step ev \<and> q' = deliver_all env now (emit run ev (mp_runs r)) r)"
  shows "med_ok rel env q'"
proof -
  note s = stagedD [OF st]
  have id: "runId (run_plan run) = i" using run(3) by (simp add: sink_key_def)
  have same: "mp_runs q = mp_runs p" "mp_trees q = mp_trees p" "mp_mediated q = mp_mediated p" "mp_pending q = mp_pending p"
    "reliable p \<Longrightarrow> reliable q" using s(1) by (simp_all add: same_process_def)
  have reg: "registry_ok (mp_runs r)" using registry_after [OF ok idle(1) id] by (simp add: r same)
  have l: "live_at r i m' run" unfolding r by (rule registered_live [OF id])
  have rel: "rel \<longrightarrow> reliable r" using med_okD(1) [OF ok] same(5) by (simp add: r)
  note base = registered_ok [OF ok idle own]
  from res show ?thesis
  proof (elim disjE exE conjE)
    assume plan: "run_plan run = plan" and q': "q' = r"
    have "follows (me_owner env) m' run (trail_of x (mp_trace q))" if rel
      using s(6) [OF that] closed plan m'(2) by (auto simp: follows_def)
    then have "live_ok rel (me_owner env) m' run (trail_of x (mp_trace r))"
      using run s(5) m' by (simp add: live_ok_def sink_key_def r)
    then show ?thesis unfolding q' by (intro base) (use rel reg s(3,4) m'(1) id in \<open>auto simp: r same\<close>)
  next
    fix ev assume ev: "uncredited ev" "enters_step ev" and q': "q' = deliver_all env now (emit run ev (mp_runs r)) r"
    have key: "sink_key run = (i, Some (md_executionId m'))" using run(3) m'(1) by simp
    have tr: "trail_of (md_executionId m') (mp_trace r) = trail_of x (mp_trace q)" by (simp add: m'(1) r)
    have store: "store_ok (mp_trace r)" using s(3) by (simp add: r)
    have ahd: "ahead (md_seq m') (trail_of (md_executionId m') (mp_trace r))" unfolding tr m'(2) by (rule s(5))
    have sh: "rel \<longrightarrow> gap_free (md_seq m') (trail_of (md_executionId m') (mp_trace r))
       \<and> set (closed_steps run) \<subseteq> finished_of (trail_of (md_executionId m') (mp_trace r))
       \<and> tl_rows (trail_of (md_executionId m') (mp_trace r)) = [\<lparr> tw_status = ''running'', tw_plan = plan, tw_session = run_sessionId run,
            tw_owner = Some (me_owner env) \<rparr>]"
      unfolding tr m'(2) using s(6) closed by blast
    note e = entered_follows [OF l run(2) key run(1) store ahd rel sh q' ev]
    have e3: "mp_runs q' = emit run ev (mp_runs r)" by (rule e(3))
    note w = e(2) [unfolded with_mediated_def, simplified]
    show ?thesis
    proof (rule base [where q = q' and m = "bump 1 m'" and run = run])
      show "registry_ok (mp_runs q')" unfolding e3 using reg by (rule emit_registry_ok)
      show "getEnterpriseActiveRun (mp_runs q') j = (if j = i then Some run else getEnterpriseActiveRun (mp_runs p) j)" for j
        unfolding e3 using id by (simp add: r same)
      show "live_ok rel (me_owner env) (bump 1 m') run (trail_of x (mp_trace q'))" using e(6) m'(1) by simp
      show "trail_of y (mp_trace q') = trail_of y (mp_trace p)" if "y \<noteq> x" for y
        using e(5) [of y] s(4) [OF that] that m'(1) by (simp add: r)
      show "reliable q'" if rel using w rel that by (simp add: reliable_def)
    qed (use e(4) w m'(1) in \<open>simp_all add: r same\<close>)
  qed
qed

lemma activate_ok:
  assumes ok: "med_ok rel env p" and idle: "map_of (mp_mediated p) i = None" "map_of (mp_pending p) i = None"
    and own: "\<And>j m. map_of (mp_mediated p) j = Some m \<Longrightarrow> md_executionId m \<noteq> x"
    and i: "i = bp_runId (pb_params pb)" and run: "run = run_object pb plan tree x" and st: "staged rel env p x run plan {} m q"
    and plan: "plan_steps_ok (nodes plan)" "activeNodeId plan = hd (enterpriseStepSequence plan)"
      "[] \<notin> set (enterpriseStepSequence plan)" "runId plan = i"
  shows "med_ok rel env (snd (activate_run env now pb inlined run (m, q)))"
proof -
  have rp: "run_plan run = plan" "run_routeCompleted run = None" "run_reopenCount run = None" "run_sink run" "run_executionId run = Some x"
    "run_sessionId run = present (bp_sessionId (pb_params pb))" by (simp_all add: run run_object_def)
  define tracks where "tracks = enterpriseRunTracksSteps (me_hash env) (registerEnterpriseActiveRun run (mp_runs q)) i"
  obtain resume q1 where take: "take_resume pb plan tracks q = (resume, q1)" by fastforce
  define c where "c = opening_cursor plan tracks (resume_step plan resume)"
  define run1 where "run1 = move_cursor c run"
  let ?b = "opt_list (resume_step plan resume) \<noteq> []"
  obtain m1 q2 where app: "append_if ?b now RunResumed
      (case resume of Some r \<Rightarrow> resumed_fields r (opt_list (resume_step plan resume)) | None \<Rightarrow> []) (m, q1) = (m1, q2)" by fastforce
  have st2: "staged rel env p x run1 plan (if ?b then carried resume else {}) m1 q2"
    using resumed_staged [OF ok st take app] by (simp add: staged_def run1_def)
  note o = opening_place [OF plan(1-3) c_def rp(1)]
  have nc: "\<not> truthy (run_routeCompleted run)" using rp(2) by simp
  have ok1: "run_ok run1" using o(1) [OF nc] plan rp(2,3)
    by (simp add: run_ok_def run1_def reopens_def) (simp add: rp(1) steps_of_def)
  have closed: "set (closed_steps run1) \<subseteq> (if ?b then carried resume else {})"
  proof -
    have "?b" if "resume_step plan resume \<noteq> None"
    proof -
      from that obtain s where s: "resume_step plan resume = Some s" by auto
      then have "s \<in> set (enterpriseStepSequence plan)" by (rule resume_step_place) auto
      with plan(3) s show ?thesis by auto
    qed
    with o(2) [OF nc] show ?thesis unfolding run1_def by (auto split: if_splits)
  qed
  define m2 where "m2 = m1 \<lparr> md_skillInstructions := inlined, md_tracksSteps := tracks \<rparr>"
  define r where "r = registered i m2 run1 q2"
  define q' where "q' = (if tracks then (case findPlanNode (run_plan run1) (activeNodeId (run_plan run1)) of
      Some node \<Rightarrow> deliver_all env now (emit run1 (NodeEntered (nodeId node) (seq node) (node_title node) None) (mp_runs r)) r
    | None \<Rightarrow> r) else r)"
  have "snd (activate_run env now pb inlined run (m, q)) = q'"
    unfolding activate_run_def prod.case Let_def rp(1) i [symmetric] tracks_def [symmetric] take resume_step_def [symmetric]
      c_def [symmetric] run1_def [symmetric] app m2_def [symmetric] registered_def [symmetric] r_def [symmetric] q'_def [symmetric]
    by simp
  moreover have "med_ok rel env q'"
  proof (rule staged_opens [OF ok idle own st2 ok1 _ _ closed _ _ r_def])
    show "run_sink run1" "sink_key run1 = (i, Some x)" using rp plan(4) by (simp_all add: run1_def sink_key_def)
    show "md_executionId m2 = x" "md_seq m2 = md_seq m1" using stagedD(2) [OF st2] by (simp_all add: m2_def)
    show "(run_plan run1 = plan \<and> q' = r)
      \<or> (\<exists>ev. uncredited ev \<and> enters_step ev \<and> q' = deliver_all env now (emit run1 ev (mp_runs r)) r)"
    proof (cases tracks)
      case False
      then have "c = activeNodeId plan" using o(3) [OF nc] by blast
      then have "run1 = run" by (simp add: run1_def move_cursor_def rp(1))
      then show ?thesis using False rp(1) by (simp add: q'_def)
    next
      case True
      have "cursor run1 \<in> set (steps_of run1)" using ok1 by (simp add: run_ok_def)
      then obtain node where "findPlanNode (run_plan run1) (activeNodeId (run_plan run1)) = Some node"
        using find_step by (auto simp: cursor_def steps_of_def)
      then have "q' = deliver_all env now (emit run1 (NodeEntered (nodeId node) (seq node) (node_title node) None) (mp_runs r)) r"
        using True by (simp add: q'_def)
      then show ?thesis by (intro disjI2 exI conjI) simp_all
    qed
  qed
  ultimately show ?thesis by simp
qed

end
