(* ===== verification/Mediation_System.thy ===== *)
theory Mediation_System
  imports Mediation_Keeps Systems
begin

text \<open>
  Mediation as a guarded system: every operation keeps the invariant, so every sequence of them does.
\<close>

section \<open>A begin after its planning\<close>

lemma ended_payload: "status \<noteq> StRunning \<Longrightarrow> payload_ok RunEnded (JObj ((''status'', JStr (status_text status)) # rest))"
  by (auto simp: payload_ok_def ended_text_def readEndedStatus_def parse_payload_def)

lemma ended_harmless:
  "status \<noteq> StRunning \<Longrightarrow> harmless (md_executionId m)
     (AppendTrace (event_of m now RunEnded None ((''status'', JStr (status_text status)) # rest)))"
  by (simp add: harmless_def event_of_def ended_payload)

lemma finalize_harmless: "status \<noteq> StRunning \<Longrightarrow> harmless x (FinalizeTrace x status now)"
  by (simp add: harmless_def)

text \<open>A withheld run leaves a closed trail and nothing else.\<close>

definition withheld_ops :: "MediationEnv \<Rightarrow> int \<Rightarrow> BeginEnterpriseRunParams \<Rightarrow> EnterpriseRunPlan \<Rightarrow> GovernanceDecision \<Rightarrow> string \<Rightarrow> TraceOp list" where
  "withheld_ops env now params plan decision x = (let m = mediation_fields params x
     in opening_ops env now params plan decision True m
        @ [AppendTrace (event_of (bump (length (opening_entries plan decision True)) m) now RunEnded None
             [(''status'', JStr ''blocked''), (''reason'', JStr (dec_reason decision))]), FinalizeTrace x StBlocked now])"

lemma withheld_stored:
  assumes o: "open_trail env now params plan decision True (mediation_fields params x, p) = (m, p1)"
    and e: "appendEvent now RunEnded None [(''status'', JStr ''blocked''), (''reason'', JStr (dec_reason decision))] (m, p1) = (m1, p2)"
  shows "stored (withheld_ops env now params plan decision x) p (persistTrace (\<lambda>db. Inr (finalizeEnterpriseRun x StBlocked now db)) p2)"
proof -
  note os = open_trail_stored [OF o] and es = append_stored [OF e]
  from stored_trans [OF os(2) stored_trans [OF es(2) persist_update(2) [of x StBlocked now p2]]] os(1)
  show ?thesis by (simp add: withheld_ops_def Let_def)
qed

lemma withheld_harmless: "op \<in> set (withheld_ops env now params plan decision x) \<Longrightarrow> harmless x op"
proof -
  assume op: "op \<in> set (withheld_ops env now params plan decision x)"
  let ?m = "mediation_fields params x"
  have m: "md_executionId ?m = x" by (simp add: mediation_fields_def Let_def)
  from op consider "op \<in> set (opening_ops env now params plan decision True ?m)"
    | "op = AppendTrace (event_of (bump (length (opening_entries plan decision True)) ?m) now RunEnded None
         [(''status'', JStr (status_text StBlocked)), (''reason'', JStr (dec_reason decision))])"
    | "op = FinalizeTrace x StBlocked now" by (auto simp: withheld_ops_def Let_def)
  then show "harmless x op"
  proof cases
    case 1
    then show ?thesis using opening_ops_harmless m by metis
  next
    case 2
    then show ?thesis using ended_harmless [of StBlocked "bump (length (opening_entries plan decision True)) ?m"] m by simp
  next
    case 3
    then show ?thesis using finalize_harmless by simp
  qed
qed

lemma start_ok:
  assumes ok: "med_ok rel env p" and idle: "map_of (mp_mediated p) i = None" "map_of (mp_pending p) i = None"
    and fresh: "fresh_execution x p" and i: "bp_runId (pb_params pb) = i" and unique: "unique_ids (sel_tree sel)"
  shows "med_ok rel env (snd (start_run env now aborted inlined x pb sel p))"
proof -
  let ?params = "pb_params pb"
  define route where "route = (if bp_planner ?params \<noteq> None \<and> \<not> planner_withheld pb then Some (sel_route sel) else None)"
  define built where "built = plan_for env ?params (pb_mode pb) now (sel_tree sel) (sel_treeSource sel) (Some (sel_treeRationale sel)) route"
  note own = fresh_unused [OF fresh]
  show ?thesis
  proof (cases built)
    case (Inl message)
    then show ?thesis using ok by (simp add: start_run_def Let_def built_def route_def)
  next
    case (Inr plan)
    note bp = built_plan [OF Inr [unfolded built_def] unique]
    define decision where "decision = evaluateRunStartGovernance plan (pb_policies pb)"
    define blocked where "blocked = (withholds decision \<and> pb_mode pb = ModeEnforce)"
    obtain m p1 where o: "open_trail env now ?params plan decision blocked (mediation_fields ?params x, p) = (m, p1)" by fastforce
    define run where "run = run_object pb plan (sel_tree sel) x"
    have shape: "snd (start_run env now aborted inlined x pb sel p) = (if fst aborted \<or> snd aborted then p
        else if blocked then snd (let (m1, p2) = appendEvent now RunEnded None
            [(''status'', JStr ''blocked''), (''reason'', JStr (dec_reason decision))] (m, p1)
          in (MediationBlocked (dec_reason decision), persistTrace (\<lambda>db. Inr (finalizeEnterpriseRun x StBlocked now db)) p2))
        else snd (activate_run env now pb inlined run (m, p1)))"
      unfolding start_run_def Let_def route_def [symmetric] built_def [symmetric] Inr sum.case decision_def [symmetric]
        blocked_def [symmetric] o prod.case run_def [symmetric] by (simp only: if_distrib [of snd] snd_conv)
    have "med_ok rel env (persistTrace (\<lambda>db. Inr (finalizeEnterpriseRun x StBlocked now db)) p2)"
      if "blocked" "appendEvent now RunEnded None [(''status'', JStr ''blocked''), (''reason'', JStr (dec_reason decision))] (m, p1) = (m1, p2)"
      for m1 p2
      using stored_ok [OF ok withheld_stored [OF o [unfolded eqTrueI [OF that(1)]] that(2)] withheld_harmless own idle(1)] .
    moreover have "med_ok rel env (snd (activate_run env now pb inlined run (m, p1)))" if "\<not> blocked"
    proof -
      have "staged rel env p x run plan {} m p1"
        by (rule opening_staged [OF ok fresh o]) (simp add: run_def run_object_def)
      from activate_ok [OF ok idle own i [symmetric] run_def this bp(1,4,2)] bp(3) i show ?thesis by simp
    qed
    ultimately show ?thesis unfolding shape using ok by (simp split: prod.split)
  qed
qed

lemma planned_ok:
  assumes ok: "med_ok rel env p" and fresh: "fresh_execution x p"
  shows "med_ok rel env (snd (finish_begin env now aborted inlined x i p))"
proof (cases "map_of (mp_pending p) i")
  case None
  then show ?thesis using ok by (simp add: finish_begin_def)
next
  case (Some pb)
  show ?thesis
  proof (cases "begin_selection pb")
    case None
    then show ?thesis using ok Some by (simp add: finish_begin_def)
  next
    case sel: (Some sel)
    let ?p0 = "p \<lparr> mp_pending := AList.delete i (mp_pending p) \<rparr>"
    have pend: "pending_ok i pb" using med_okD(5) [OF ok Some] .
    have p0: "med_ok rel env ?p0" by (rule drop_pending_ok [OF ok])
    have "med_ok rel env (snd (start_run env now aborted inlined x pb sel ?p0))"
    proof (rule start_ok [OF p0, of i])
      show "map_of (mp_mediated ?p0) i = None" using med_okD(6) [OF ok Some] by simp
      show "fresh_execution x ?p0" using fresh by (simp add: fresh_execution_def)
      show "bp_runId (pb_params pb) = i" using pend by (simp add: pending_ok_def)
      show "unique_ids (sel_tree sel)" by (rule selection_unique [OF pend sel])
    qed (simp add: delete_conv')
    with p0 show ?thesis
      by (auto simp: finish_begin_def Some sel Let_def split: SelectionNext.split prod.split if_splits)
  qed
qed

section \<open>The other operations\<close>

definition ending_ops :: "MediatedRunState \<Rightarrow> int \<Rightarrow> EnterpriseRunStatus \<Rightarrow> string option \<Rightarrow> TraceOp list" where
  "ending_ops m now status reason = [AppendTrace (event_of m now RunEnded None (ended_fields status reason)),
     FinalizeTrace (md_executionId m) status now]"

lemma ending_stored:
  assumes "live_at p i m run"
  shows "stored (ending_ops m now status reason)
    (p \<lparr> mp_mediated := AList.delete i (mp_mediated p), mp_runs := unregisterEnterpriseActiveRun i (mp_runs p) \<rparr>)
    (endEnterpriseRun now i status reason p)"
proof -
  let ?p1 = "p \<lparr> mp_mediated := AList.delete i (mp_mediated p), mp_runs := unregisterEnterpriseActiveRun i (mp_runs p) \<rparr>"
  obtain m1 p2 where a: "appendEvent now RunEnded None (ended_fields status reason) (m, ?p1) = (m1, p2)" by fastforce
  note s = append_stored [OF a]
  define p3 where "p3 = persistTrace (\<lambda>db. Inr (finalizeEnterpriseRun (md_executionId m) status now db)) p2"
  have run: "mediated_run p i = Some (m, run)" using assms by (simp add: live_at_def mediated_run_def)
  have e: "endEnterpriseRun now i status reason p
      = emitEnterpriseStepEvent (step_event now run m ''ended'' (activeNodeId (run_plan run)) (treeName (run_plan run)) None) p3"
    unfolding endEnterpriseRun_def run option.case prod.case Let_def a p3_def by (rule refl)
  have "stored (ending_ops m now status reason) ?p1 p3"
    using stored_trans [OF s(2) persist_update(2) [of "md_executionId m" status now p2]] by (simp add: ending_ops_def p3_def)
  then show ?thesis unfolding e by (rule stored_cong) (simp_all add: emitEnterpriseStepEvent_def)
qed

lemma finish_ok:
  assumes ok: "med_ok rel env p" and status: "status \<noteq> StRunning"
  shows "med_ok rel env (endEnterpriseRun now i status reason p)"
proof (cases "mediated_run p i")
  case None
  then show ?thesis using ok by (simp add: endEnterpriseRun_def)
next
  case (Some mr)
  then obtain m run where l: "live_at p i m run" by (auto simp: mediated_run_def live_at_def split: option.splits)
  let ?p1 = "p \<lparr> mp_mediated := AList.delete i (mp_mediated p), mp_runs := unregisterEnterpriseActiveRun i (mp_runs p) \<rparr>"
  let ?q = "endEnterpriseRun now i status reason p" let ?x = "md_executionId m"
  note d = storedD [OF ending_stored [OF l, of now status reason]]
  have h: "\<forall>op \<in> set (ending_ops m now status reason). harmless ?x op"
    using ended_harmless [OF status, of m now] finalize_harmless [OF status] by (auto simp: ending_ops_def ended_fields_def)
  have w: "wrote (reliable ?p1) (ending_ops m now status reason) (mp_trace p) (mp_trace ?q)" using d(6) by simp
  have store: "store_ok (mp_trace ?q)" and others: "\<And>y. y \<noteq> ?x \<Longrightarrow> trail_of y (mp_trace ?q) = trail_of y (mp_trace p)"
    by (rule wrote_trails [OF w med_okD(2) [OF ok], of ?x], use h in auto)+
  have med: "map_of (mp_mediated p) i = Some m" using l by (simp add: live_at_def)
  show ?thesis
  proof (rule med_step [OF ok, of ?q i ?x])
    show "(map_of (mp_mediated ?q) i = None \<and> getEnterpriseActiveRun (mp_runs ?q) i = None) \<or>
      (\<exists>m run. live_at ?q i m run \<and> md_executionId m = ?x \<and> live_ok rel (me_owner env) m run (trail_of ?x (mp_trace ?q)))"
      using d(1,3) by (simp add: delete_conv')
    show "j = i" if "map_of (mp_mediated p) j = Some m'" "md_executionId m' = ?x" for j m'
      using med_okD(9) [OF ok that(1) med that(2)] .
    show "reliable ?q" if rel using d(5) med_okD(1) [OF ok that] by (simp add: reliable_def)
    show "registry_ok (mp_runs ?q)" unfolding d(1) using unregister_ok [OF med_okD(3) [OF ok]] by simp
    show "map_of (mp_pending p) j = Some pb \<and> (j = i \<longrightarrow> map_of (mp_mediated ?q) i = None)" if "map_of (mp_pending ?q) j = Some pb" for j pb
      using that d(3,4) by (simp add: delete_conv')
  qed (use store others d(1-4) in \<open>auto simp: delete_conv'\<close>)
qed

lemma rotated_run: "run_ok (run \<lparr> run_sessionId := s \<rparr>) = run_ok run" "closed_steps (run \<lparr> run_sessionId := s \<rparr>) = closed_steps run"
  "run_plan (run \<lparr> run_sessionId := s \<rparr>) = run_plan run"
  by (simp_all add: run_ok_def closed_steps_def position_def)

lemma rotate_ok:
  assumes ok: "med_ok rel env p"
  shows "med_ok rel env (adoptEnterpriseRunTranscript now i s p)"
proof (cases "\<exists>run. adopts (mp_runs p) i s run")
  case False
  then have "adoptEnterpriseActiveRunSessionId i s (mp_runs p) = mp_runs p" by (simp add: adopt_idle)
  then have "adoptEnterpriseRunTranscript now i s p = p"
    using False by (auto simp: adoptEnterpriseRunTranscript_def Let_def adopts_def split: option.splits)
  with ok show ?thesis by simp
next
  case True
  then obtain run where a: "adopts (mp_runs p) i s run" by blast
  then have g: "getEnterpriseActiveRun (mp_runs p) i = Some run" "s \<noteq> []" "run_sessionId run \<noteq> Some s" by (auto simp: adopts_def)
  obtain m where l: "live_at p i m run" and lo: "live_ok rel (me_owner env) m run (trail_of (md_executionId m) (mp_trace p))"
    using runs_live [OF ok g(1)] .
  have med: "map_of (mp_mediated p) i = Some m" using l by (simp add: live_at_def)
  let ?x = "md_executionId m" let ?run = "run \<lparr> run_sessionId := Some s \<rparr>"
  let ?p1 = "p \<lparr> mp_runs := adoptEnterpriseActiveRunSessionId i s (mp_runs p) \<rparr>"
  define q where "q = adoptEnterpriseRunTranscript now i s p"
  have q: "q = persistTrace (\<lambda>db. Inr (updateEnterpriseRunSessionId ?x s now db)) ?p1"
    using g med by (simp add: q_def adoptEnterpriseRunTranscript_def Let_def)
  note d = storedD [OF persist_update(3) [of ?x s now ?p1], folded q]
  have h: "\<forall>op \<in> set [MoveTranscript ?x s now]. harmless ?x op" by (simp add: harmless_def)
  have w: "wrote (reliable ?p1) [MoveTranscript ?x s now] (mp_trace p) (mp_trace q)" using d(6) by simp
  obtain ops' where ops: "reliable ?p1 \<Longrightarrow> ops' = [MoveTranscript ?x s now]" "store_ok (mp_trace q)"
    "trail_of ?x (mp_trace q) = fold trail_op ops' (trail_of ?x (mp_trace p))" "\<And>y. y \<noteq> ?x \<Longrightarrow> trail_of y (mp_trace q) = trail_of y (mp_trace p)"
    by (rule wrote_trails [OF w med_okD(2) [OF ok] h]) (rule that; simp)
  have rel: "reliable ?p1" if rel using med_okD(1) [OF ok that] by (simp add: reliable_def)
  have "ahead (md_seq m) (trail_of ?x (mp_trace q))"
    using ahead_writes [OF w med_okD(2) [OF ok], of ?x "md_seq m"] h live_okD(4) [OF lo] by simp
  moreover have "follows (me_owner env) m ?run (trail_of ?x (mp_trace q))" if rel
    using live_okD(5) [OF lo that] unfolding ops(3) ops(1) [OF rel [OF that]]
    by (simp add: follows_def gap_free_def finished_of_def rotated_run)
  ultimately have live: "live_ok rel (me_owner env) m ?run (trail_of ?x (mp_trace q))"
    using live_okD(1-3) [OF lo] by (simp add: live_ok_def rotated_run)
  have "med_ok rel env q"
  proof (rule med_step [OF ok, of q i ?x])
    have "live_at q i m ?run" using d(1,3) med adopt_lookup(1) [OF a, of i] by (simp add: live_at_def)
    then show "(map_of (mp_mediated q) i = None \<and> getEnterpriseActiveRun (mp_runs q) i = None) \<or>
      (\<exists>m run. live_at q i m run \<and> md_executionId m = ?x \<and> live_ok rel (me_owner env) m run (trail_of ?x (mp_trace q)))"
      using live by blast
    show "j = i" if "map_of (mp_mediated p) j = Some m'" "md_executionId m' = ?x" for j m'
      using med_okD(9) [OF ok that(1) med that(2)] .
    show "reliable q" if rel using d(5) rel [OF that] by simp
    show "registry_ok (mp_runs q)" unfolding d(1) using adopt_ok [OF med_okD(3) [OF ok]] by simp
    show "map_of (mp_pending p) j = Some pb \<and> (j = i \<longrightarrow> map_of (mp_mediated q) i = None)" if "map_of (mp_pending q) j = Some pb" for j pb
      using that d(4) med_okD(6) [OF ok, of j pb] med by auto
  qed (use ops(2,4) d(1-3) adopt_lookup(1) [OF a] in auto)
  then show ?thesis by (simp add: q_def)
qed

lemma trees_ok: "med_ok rel env p \<Longrightarrow> med_ok rel env (mediate env (TreesChange db own) p)"
  using arrival_step [of rel env p "(mp_trees p) \<lparr> gp_db := db, gp_snapshot := (if own then None else gp_snapshot (mp_trees p)) \<rparr>" "mp_pending p"]
    med_okD(4) [of rel env p]
  by (simp add: snapshot_ok_def split: if_splits)

lemma other_trace_ok:
  assumes ok: "med_ok rel env p" and adm: "trace_admissible (mp_trace p) op"
    and apart: "\<And>m. m \<in> snd ` set (mp_mediated p) \<Longrightarrow> spares (md_executionId m) (mp_trace p) op \<and> \<not> aims_at (md_executionId m) op"
  shows "med_ok rel env (p \<lparr> mp_trace := trace_perform op (mp_trace p) \<rparr>)"
proof (rule med_okI)
  let ?q = "p \<lparr> mp_trace := trace_perform op (mp_trace p) \<rparr>"
  show "store_ok (mp_trace ?q)" using trace_perform_ok [OF med_okD(2) [OF ok] adm] by simp
  show "live_ok rel (me_owner env) m run (trail_of (md_executionId m) (mp_trace ?q))" if "live_at ?q i m run" for i m run
  proof -
    have l: "live_at p i m run" using that by (simp add: live_at_def)
    then have "m \<in> snd ` set (mp_mediated p)" by (force simp: live_at_def dest: map_of_SomeD)
    with apart have "spares (md_executionId m) (mp_trace p) op" "\<not> aims_at (md_executionId m) op" by blast+
    then have "trail_of (md_executionId m) (mp_trace ?q) = trail_of (md_executionId m) (mp_trace p)"
      using trail_simulates [OF med_okD(2) [OF ok]] by (simp add: trail_step_def)
    then show ?thesis using med_okD(8) [OF ok l] by simp
  qed
qed (use med_okD [OF ok] in \<open>auto simp: reliable_def\<close>)

section \<open>The system\<close>

text \<open>
  A begin is given an execution id that is new, a run ends with a final status, and the other users of the trace
  leave the executions alone that this process is running.
\<close>

fun med_admissible :: "MediationProcess \<Rightarrow> MediationOp \<Rightarrow> bool" where
  "med_admissible p (Planned now aborted inlined x i) = fresh_execution x p"
| "med_admissible p (Call now op) = run_call op"
| "med_admissible p (Finish now i status reason) = (status \<noteq> StRunning)"
| "med_admissible p (OtherTrace op) = (trace_admissible (mp_trace p) op
     \<and> (\<forall>m \<in> snd ` set (mp_mediated p). spares (md_executionId m) (mp_trace p) op \<and> \<not> aims_at (md_executionId m) op))"
| "med_admissible p op = True"

lemma mediate_ok: "med_ok rel env p \<Longrightarrow> med_admissible p op \<Longrightarrow> med_ok rel env (mediate env op p)"
proof (cases op)
  case (Call now c)
  assume "med_ok rel env p" "med_admissible p op"
  then show ?thesis using call_ok Call by simp
next
  case (TreesChange db own)
  assume "med_ok rel env p"
  then show ?thesis using trees_ok TreesChange by simp
qed (auto intro: arrive_ok planned_ok rotate_ok finish_ok other_trace_ok)

lemma fresh_process_ok:
  "gp_snapshot trees = None \<Longrightarrow> store_ok db \<Longrightarrow> rel \<longrightarrow> True \<notin> set faults \<Longrightarrow> med_ok rel env (fresh_process trees db faults)"
  by (rule med_okI) (simp_all add: fresh_process_def reliable_def empty_registry_ok snapshot_ok_def live_at_def
    getEnterpriseActiveRun_def, simp_all add: empty_registry_def)

interpretation mediation: guarded_system "med_ok rel env" med_admissible "mediate env" for rel env
  by unfold_locales (rule mediate_ok)

end
