(* ===== verification/Mediation_Properties.thy ===== *)
theory Mediation_Properties
  imports Mediation_System Trace_Properties Registry_Properties
begin

text \<open>
  What mediation promises: the durable trail of a run is the run, writes never collide whichever of them fail,
  work-maps that cannot be loaded and runs a policy withholds never start, and an end closes both sides.
\<close>

section \<open>Executions in the tables\<close>

lemma trail_events: "tl_events (trail_of x db) = events_for x db"
  by (simp add: trail_of_def)

lemma trail_single_row:
  assumes "tl_rows (trail_of x db) = [w]"
  obtains row where "filter (\<lambda>r. er_execution r = x) (tr_runs db) = [row]" "trail_row row = w"
  using assms by (auto simp: trail_of_def map_eq_Cons_conv)

lemma gap_free_events:
  assumes "store_ok db" "gap_free n (trail_of x db)"
  shows "\<exists>es. listEnterpriseRunEvents x db = Inr es \<and> map re_seq es = [0..<n]"
proof -
  have seqs: "map ev_seq (events_for x db) = [0..<n]" using assms(2) by (simp add: gap_free_def trail_events)
  then have "sorted (map ev_seq (events_for x db))" by simp
  then have "sorted_wrt seq_before (events_for x db)" by (simp add: sorted_map seq_before_def [abs_def])
  then have "order_by seq_before (events_for x db) = events_for x db" by (rule order_by_id)
  with events_readable [OF assms(1), of x] seqs show ?thesis by auto
qed

lemma gap_free_finished:
  assumes "store_ok db" "gap_free n (trail_of x db)"
  shows "\<exists>completed. completedNodeIdsFor db x = Inr completed \<and> set completed = finished_of (trail_of x db)"
  using finished_steps [OF assms(1), of x] assms(2) by (simp add: gap_free_def trail_events)

lemma reached_ok:
  assumes "run_ops trace_admissible trace_perform history empty_trace = Some db" "gp_snapshot trees = None"
    "run_ops med_admissible (mediate env) ops (fresh_process trees db faults) = Some p" "rel \<longrightarrow> True \<notin> set faults"
  shows "med_ok rel env p"
proof -
  have "store_ok db" using traces.run_keeps [OF empty_trace_ok assms(1)] .
  from mediation.run_keeps [OF fresh_process_ok [OF assms(2) this assms(4)] assms(3)] show ?thesis .
qed

section \<open>A concrete process\<close>

text \<open>
  A process that starts after another one died: the trace holds an interrupted execution of the claims work-map with
  its first step finished, and an operator has asked to continue it.
\<close>

definition sample_mediation :: MediationEnv where
  "sample_mediation = \<lparr> me_redact = id, me_collate = (\<lambda>_ _. 0), me_trees = sample_env, me_json = (\<lambda>_. None), me_owner = ''7:200'' \<rparr>"

definition sample_begin :: "GovernancePolicy list option \<Rightarrow> BeginEnterpriseRunParams" where
  "sample_begin policies = \<lparr> bp_runId = ''r1'', bp_prompt = ''pay claim 7'', bp_trigger = None, bp_spawnedBy = None,
     bp_sessionKey = Some ''lane'', bp_sessionId = Some ''s1'', bp_agentId = None, bp_chatVisible = None,
     bp_runtimeContinuation = None, bp_mode = None, bp_policies = policies, bp_mcpServers = None,
     bp_planner = Some (\<lambda>_ _ _. Answered (Decided (Some ''claims'') [''pay''] None)) \<rparr>"

definition sample_trees :: RegistryProcess where
  "sample_trees = \<lparr> gp_db = sample_store \<lparr> td_trees := [sample_row] \<rparr>, gp_snapshot = None \<rparr>"

definition sample_ops :: "MediationOp list" where
  "sample_ops = [Arrive None 40 (sample_begin None), Planned 41 (False, False) [] ''x1'' ''r1'', Rotate 42 ''r1'' ''s2'']"

definition sample_live :: "bool list \<Rightarrow> MediationProcess" where
  "sample_live faults = fold (mediate sample_mediation) sample_ops (fresh_process sample_trees recovered_trace faults)"

lemma sample_fresh:
  "fresh_execution ''x1'' (mediate sample_mediation (Arrive None 40 (sample_begin None)) (fresh_process sample_trees recovered_trace []))"
  "fresh_execution ''x1'' (mediate sample_mediation (Arrive None 40 (sample_begin None)) (fresh_process sample_trees recovered_trace [False, True]))"
  by code_simp+

lemma sample_live_reached:
  "run_ops med_admissible (mediate sample_mediation) sample_ops (fresh_process sample_trees recovered_trace []) = Some (sample_live [])"
  "run_ops med_admissible (mediate sample_mediation) sample_ops (fresh_process sample_trees recovered_trace [False, True])
     = Some (sample_live [False, True])"
  using sample_fresh by (simp_all add: sample_live_def sample_ops_def del: mediate.simps)

lemma sample_trees_cold: "gp_snapshot sample_trees = None"
  by (simp add: sample_trees_def)

definition sample_view :: "MediationProcess \<Rightarrow> (string \<times> nat) option \<times> (string \<times> string list \<times> nat \<times> bool) option" where
  "sample_view p = (map_option (\<lambda>m. (md_executionId m, md_seq m)) (map_of (mp_mediated p) ''r1''),
     map_option (\<lambda>run. (cursor run, steps_of run, position run, truthy (run_routeCompleted run))) (getEnterpriseActiveRun (mp_runs p) ''r1''))"

lemma sample_view_live:
  "sample_view (sample_live []) = (Some (''x1'', 4), Some (''triage'', [''intake'', ''triage'', ''pay''], 1, False))"
  "sample_view (sample_live [False, True]) = (Some (''x1'', 4), Some (''triage'', [''intake'', ''triage'', ''pay''], 1, False))"
  by code_simp+

lemma view_run:
  assumes "sample_view p = (Some (x, n), Some (c, steps, k, b))"
  obtains m run where "map_of (mp_mediated p) ''r1'' = Some m" "md_executionId m = x" "md_seq m = n"
    "getEnterpriseActiveRun (mp_runs p) ''r1'' = Some run" "cursor run = c" "steps_of run = steps" "position run = k"
    "truthy (run_routeCompleted run) = b"
  using assms by (auto simp: sample_view_def)

section \<open>Properties\<close>

text \<open>
  C28. The durable trail of a run is the run. Whatever requests arrive and end their planning, whatever the runs do,
  however transcripts rotate, work-maps change and other processes use the trace, as long as the trace can be
  written every live run has one row, running, that shows its plan with the cursor where it stands, its transcript
  and its process; its events can be read and are numbered without a gap; and the steps before the cursor, or all of
  them once the route is complete, are finished in it, work carried over from an earlier execution included.
\<close>

theorem durable_trails_follow_live_runs:
  assumes "run_ops trace_admissible trace_perform history empty_trace = Some db" "gp_snapshot trees = None"
    "run_ops med_admissible (mediate env) ops (fresh_process trees db []) = Some p"
  shows "\<forall>i m run. map_of (mp_mediated p) i = Some m \<and> getEnterpriseActiveRun (mp_runs p) i = Some run \<longrightarrow>
    (\<exists>row. filter (\<lambda>r. er_execution r = md_executionId m) (tr_runs (mp_trace p)) = [row] \<and> er_status row = ''running''
       \<and> er_plan row = run_plan run \<and> er_sessionId row = run_sessionId run \<and> er_owner row = Some (me_owner env))
    \<and> (\<exists>es. listEnterpriseRunEvents (md_executionId m) (mp_trace p) = Inr es \<and> map re_seq es = [0..<md_seq m])
    \<and> (\<exists>completed. completedNodeIdsFor (mp_trace p) (md_executionId m) = Inr completed
         \<and> set (if truthy (run_routeCompleted run) then steps_of run else take (position run) (steps_of run)) \<subseteq> set completed)"
proof (intro allI impI)
  have ok: "med_ok True env p" by (rule reached_ok [OF assms]) simp
  fix i m run assume "map_of (mp_mediated p) i = Some m \<and> getEnterpriseActiveRun (mp_runs p) i = Some run"
  then have "live_at p i m run" by (simp add: live_at_def)
  from live_okD(5) [OF med_okD(8) [OF ok this]] have
    f: "tl_rows (trail_of (md_executionId m) (mp_trace p)) = [\<lparr> tw_status = ''running'', tw_plan = run_plan run,
      tw_session = run_sessionId run, tw_owner = Some (me_owner env) \<rparr>]"
    and g: "gap_free (md_seq m) (trail_of (md_executionId m) (mp_trace p))"
    and c: "set (closed_steps run) \<subseteq> finished_of (trail_of (md_executionId m) (mp_trace p))"
    by (simp_all add: follows_def)
  obtain row where row: "filter (\<lambda>r. er_execution r = md_executionId m) (tr_runs (mp_trace p)) = [row]"
    "trail_row row = \<lparr> tw_status = ''running'', tw_plan = run_plan run, tw_session = run_sessionId run, tw_owner = Some (me_owner env) \<rparr>"
    using trail_single_row [OF f] .
  have closed: "closed_steps run = (if truthy (run_routeCompleted run) then steps_of run else take (position run) (steps_of run))"
    by (simp add: closed_steps_def)
  note store = med_okD(2) [OF ok]
  show "(\<exists>row. filter (\<lambda>r. er_execution r = md_executionId m) (tr_runs (mp_trace p)) = [row] \<and> er_status row = ''running''
       \<and> er_plan row = run_plan run \<and> er_sessionId row = run_sessionId run \<and> er_owner row = Some (me_owner env))
    \<and> (\<exists>es. listEnterpriseRunEvents (md_executionId m) (mp_trace p) = Inr es \<and> map re_seq es = [0..<md_seq m])
    \<and> (\<exists>completed. completedNodeIdsFor (mp_trace p) (md_executionId m) = Inr completed
         \<and> set (if truthy (run_routeCompleted run) then steps_of run else take (position run) (steps_of run)) \<subseteq> set completed)"
    using row gap_free_events [OF store g] gap_free_finished [OF store g] c unfolding closed [symmetric]
    by (auto simp: trail_row_def)
qed

theorem durable_trails_follow_live_runs_witness:
  "\<exists>completed. completedNodeIdsFor (mp_trace (sample_live [])) ''x1'' = Inr completed \<and> ''intake'' \<in> set completed"
proof -
  obtain m run where s: "map_of (mp_mediated (sample_live [])) ''r1'' = Some m" "md_executionId m = ''x1''"
    "getEnterpriseActiveRun (mp_runs (sample_live [])) ''r1'' = Some run" "steps_of run = [''intake'', ''triage'', ''pay'']"
    "position run = 1" "truthy (run_routeCompleted run) = False"
    by (rule view_run [OF sample_view_live(1)]) (rule that)
  have "\<exists>completed. completedNodeIdsFor (mp_trace (sample_live [])) (md_executionId m) = Inr completed
      \<and> set (if truthy (run_routeCompleted run) then steps_of run else take (position run) (steps_of run)) \<subseteq> set completed"
    by (rule durable_trails_follow_live_runs [OF recovered_trace_reached sample_trees_cold sample_live_reached(1), rule_format,
        OF conjI [OF s(1,3)], THEN conjunct2, THEN conjunct2])
  then show ?thesis unfolding s(2,4,5,6) by auto
qed

text \<open>
  C29. Whichever writes fail, the process never loses count: the registry and the map of mediated runs hold the same
  run ids, no two runs share an execution, a run stands on its route under its own run id and in the execution its
  sink names, and every stored event of that execution is numbered below the next number, so that no write is ever
  refused for a number that is taken.
\<close>

theorem faults_never_mix_executions:
  assumes "run_ops trace_admissible trace_perform history empty_trace = Some db" "gp_snapshot trees = None"
    "run_ops med_admissible (mediate env) ops (fresh_process trees db faults) = Some p"
  shows "(\<forall>i. map_of (mp_mediated p) i = None \<longleftrightarrow> getEnterpriseActiveRun (mp_runs p) i = None)
    \<and> (\<forall>i j m n. map_of (mp_mediated p) i = Some m \<and> map_of (mp_mediated p) j = Some n \<and> md_executionId m = md_executionId n \<longrightarrow> i = j)
    \<and> (\<forall>i m run. map_of (mp_mediated p) i = Some m \<and> getEnterpriseActiveRun (mp_runs p) i = Some run \<longrightarrow>
         runId (run_plan run) = i \<and> run_executionId run = Some (md_executionId m) \<and> cursor run \<in> set (steps_of run)
         \<and> (\<forall>e \<in> set (events_for (md_executionId m) (mp_trace p)). ev_seq e < md_seq m)
         \<and> (\<forall>now kind node entries. (\<exists>db'. appendEnterpriseRunEvent
              \<lparr> re_executionId = md_executionId m, re_seq = md_seq m, re_nodeId = node, re_kind = kind,
                re_payload = JObj entries, re_createdAt = now \<rparr> (mp_trace p) = Inr db')))"
proof -
  have ok: "med_ok False env p" by (rule reached_ok [OF assms]) simp
  have "runId (run_plan run) = i \<and> run_executionId run = Some (md_executionId m) \<and> cursor run \<in> set (steps_of run)
         \<and> (\<forall>e \<in> set (events_for (md_executionId m) (mp_trace p)). ev_seq e < md_seq m)
         \<and> (\<forall>now kind node entries. (\<exists>db'. appendEnterpriseRunEvent
              \<lparr> re_executionId = md_executionId m, re_seq = md_seq m, re_nodeId = node, re_kind = kind,
                re_payload = JObj entries, re_createdAt = now \<rparr> (mp_trace p) = Inr db'))"
    if l: "live_at p i m run" for i m run
  proof -
    note lo = live_okD [OF med_okD(8) [OF ok l]]
    have seqs: "\<forall>e \<in> set (events_for (md_executionId m) (mp_trace p)). ev_seq e < md_seq m"
      using lo(4) by (simp add: ahead_def trail_events)
    have "\<exists>db'. appendEnterpriseRunEvent \<lparr> re_executionId = md_executionId m, re_seq = md_seq m, re_nodeId = node, re_kind = kind,
                re_payload = JObj entries, re_createdAt = now \<rparr> (mp_trace p) = Inr db'" for now kind node entries
      using seqs by (fastforce simp: appendEnterpriseRunEvent_def insert_event_def event_key_def list_ex_iff events_for_def)
    with seqs lo(1,3) registry_okD [OF med_okD(3) [OF ok]] l show ?thesis by (auto simp: run_ok_def live_at_def)
  qed
  then show ?thesis using med_okD(7,9) [OF ok] unfolding live_at_def by blast
qed

theorem faults_never_mix_executions_witness:
  "\<exists>run. getEnterpriseActiveRun (mp_runs (sample_live [False, True])) ''r1'' = Some run
     \<and> (\<forall>e \<in> set (events_for ''x1'' (mp_trace (sample_live [False, True]))). ev_seq e < 4)"
proof -
  obtain m run where s: "map_of (mp_mediated (sample_live [False, True])) ''r1'' = Some m" "md_executionId m = ''x1''" "md_seq m = 4"
    "getEnterpriseActiveRun (mp_runs (sample_live [False, True])) ''r1'' = Some run"
    by (rule view_run [OF sample_view_live(2)]) (rule that)
  with faults_never_mix_executions [OF recovered_trace_reached sample_trees_cold sample_live_reached(2)] show ?thesis
    by (metis (no_types, lifting))
qed

text \<open>The work-maps a begin runs on: the snapshot the process holds, or else the one it loads now.\<close>

definition registry_in_use :: "MediationEnv \<Rightarrow> string option \<Rightarrow> MediationProcess \<Rightarrow> WorkflowTreeRegistrySnapshot" where
  "registry_in_use env unreadable p = (case gp_snapshot (mp_trees p) of Some s \<Rightarrow> s
     | None \<Rightarrow> loadRegistry (me_trees env) unreadable (gp_db (mp_trees p)))"

definition failed_to_load :: "WorkflowTreeRegistrySnapshot \<Rightarrow> bool" where
  "failed_to_load s \<longleftrightarrow> sn_importErrors s \<noteq> [] \<or> opt_list (sn_storeError s) \<noteq> []"

lemma failure_iff: "treeLoadFailure s \<noteq> None \<longleftrightarrow> failed_to_load s"
  by (simp add: treeLoadFailure_def failed_to_load_def)

lemma failure_text: "treeLoadFailure s = Some reason \<Longrightarrow> reason \<noteq> []"
  by (auto simp: treeLoadFailure_def split: if_splits)

lemma in_use: "\<exists>trees. getWorkflowTreeRegistrySnapshot (me_trees env) unreadable (mp_trees p) = (registry_in_use env unreadable p, trees)
    \<and> gp_db trees = gp_db (mp_trees p)"
  by (simp add: getWorkflowTreeRegistrySnapshot_def registry_in_use_def Let_def split: option.split)

lemma cold_failure: "failed_to_load (loadRegistry env unreadable db) \<longleftrightarrow>
    (case unreadable of None \<Rightarrow> \<exists>row \<in> set (td_trees db). \<exists>message. rowToRecord env row = Inl message | Some message \<Rightarrow> message \<noteq> [])"
proof (cases unreadable)
  case None
  have "row_error env row \<noteq> None \<longleftrightarrow> (\<exists>message. rowToRecord env row = Inl message)" for row
    by (simp add: row_error_def split: sum.split)
  then have "(\<exists>x. x \<in> set (sn_importErrors (loadRegistry env None db))) \<longleftrightarrow> (\<exists>row \<in> set (td_trees db). \<exists>message. rowToRecord env row = Inl message)"
    unfolding loaded_errors by fastforce
  moreover have "sn_storeError (loadRegistry env None db) = None" by (simp add: loadRegistry_def Let_def)
  ultimately show ?thesis by (simp add: failed_to_load_def None ex_in_conv)
qed (simp add: failed_to_load_def loadRegistry_def Let_def)

text \<open>
  C30. Enforce mode fails closed on work-maps that cannot be loaded: a request that would begin a run is blocked with
  a reason exactly when the registry snapshot the process runs on reports a failure, and then nothing is planned,
  registered or traced. A process that holds no snapshot loads one, which reports a failure exactly when a stored
  definition does not load or the store cannot be read. A snapshot the process holds, healthy or failed, stays in use
  until a change of the store made through the process drops it.
\<close>

theorem unreadable_work_maps_block_runs:
  assumes "resolveEnterpriseMode (bp_mode params) = ModeEnforce"
    "map_of (mp_pending p) (bp_runId params) = None" "mediated_run p (bp_runId params) = None"
  shows "(failed_to_load (registry_in_use env unreadable p) \<longleftrightarrow>
        (\<exists>reason. fst (arrive_begin env unreadable now params p) = Some (MediationBlocked reason)))
    \<and> (failed_to_load (registry_in_use env unreadable p) \<longrightarrow>
        (\<exists>reason p'. arrive_begin env unreadable now params p = (Some (MediationBlocked reason), p') \<and> reason \<noteq> []
          \<and> mp_runs p' = mp_runs p \<and> mp_mediated p' = mp_mediated p \<and> mp_pending p' = mp_pending p \<and> mp_trace p' = mp_trace p
          \<and> mp_live p' = mp_live p \<and> gp_db (mp_trees p') = gp_db (mp_trees p)))
    \<and> (gp_snapshot (mp_trees p) = None \<longrightarrow> (failed_to_load (registry_in_use env unreadable p) \<longleftrightarrow>
        (case unreadable of None \<Rightarrow> \<exists>row \<in> set (td_trees (gp_db (mp_trees p))). \<exists>message. rowToRecord (me_trees env) row = Inl message
         | Some message \<Rightarrow> message \<noteq> [])))"
proof -
  obtain trees where get: "getWorkflowTreeRegistrySnapshot (me_trees env) unreadable (mp_trees p) = (registry_in_use env unreadable p, trees)"
    and db: "gp_db trees = gp_db (mp_trees p)" using in_use by blast
  have blocked: "\<exists>reason p'. arrive_begin env unreadable now params p = (Some (MediationBlocked reason), p') \<and> reason \<noteq> []
      \<and> mp_runs p' = mp_runs p \<and> mp_mediated p' = mp_mediated p \<and> mp_pending p' = mp_pending p \<and> mp_trace p' = mp_trace p
      \<and> mp_live p' = mp_live p \<and> gp_db (mp_trees p') = gp_db (mp_trees p)" if "failed_to_load (registry_in_use env unreadable p)"
  proof -
    from that obtain reason where r: "treeLoadFailure (registry_in_use env unreadable p) = Some reason" using failure_iff by blast
    then show ?thesis using assms failure_text [OF r] db by (simp add: arrive_begin_def get Let_def)
  qed
  have "fst (arrive_begin env unreadable now params p) \<noteq> Some (MediationBlocked reason)"
    if "\<not> failed_to_load (registry_in_use env unreadable p)" for reason
  proof -
    from that have "treeLoadFailure (registry_in_use env unreadable p) = None" using failure_iff by blast
    then show ?thesis using assms by (simp add: arrive_begin_def get Let_def split: sum.split)
  qed
  then have "failed_to_load (registry_in_use env unreadable p) \<longleftrightarrow>
      (\<exists>reason. fst (arrive_begin env unreadable now params p) = Some (MediationBlocked reason))"
    using blocked by (cases "failed_to_load (registry_in_use env unreadable p)") auto
  moreover have "failed_to_load (registry_in_use env unreadable p) \<longleftrightarrow>
      (case unreadable of None \<Rightarrow> \<exists>row \<in> set (td_trees (gp_db (mp_trees p))). \<exists>message. rowToRecord (me_trees env) row = Inl message
       | Some message \<Rightarrow> message \<noteq> [])" if "gp_snapshot (mp_trees p) = None"
    using that by (simp only: registry_in_use_def option.case cold_failure)
  ultimately show ?thesis using blocked by blast
qed

theorem unreadable_work_maps_block_runs_witness:
  "\<exists>reason. fst (arrive_begin sample_mediation None 40 (sample_begin None)
     (fresh_process (sample_trees \<lparr> gp_db := sample_store \<rparr>) empty_trace [])) = Some (MediationBlocked reason)"
proof -
  let ?p = "fresh_process (sample_trees \<lparr> gp_db := sample_store \<rparr>) empty_trace []"
  have row: "broken_row \<in> set (td_trees (gp_db (mp_trees ?p)))" by (simp add: fresh_process_def sample_store_def)
  have broken: "\<exists>message. rowToRecord (me_trees sample_mediation) broken_row = Inl message"
    by (simp add: rowToRecord_def broken_row_def)
  have cold: "gp_snapshot (mp_trees ?p) = None" by (simp add: fresh_process_def sample_trees_def)
  have "resolveEnterpriseMode (bp_mode (sample_begin None)) = ModeEnforce" "map_of (mp_pending ?p) (bp_runId (sample_begin None)) = None"
    "mediated_run ?p (bp_runId (sample_begin None)) = None"
    by (simp_all add: sample_begin_def resolveEnterpriseMode_def fresh_process_def mediated_run_def)
  note block = unreadable_work_maps_block_runs [OF this, where unreadable = None and env = sample_mediation and now = 40]
  from block cold row broken have "failed_to_load (registry_in_use sample_mediation None ?p)" by simp blast
  with block show ?thesis by blast
qed

section \<open>The end of a run\<close>

lemma persist_live [simp]: "mp_live (persistTrace store p) = mp_live p"
  by (simp add: persistTrace_def Let_def split: sum.split)

text \<open>What an end does to the process: the maps, the session index and the one live event it appends.\<close>

lemma ended_frame:
  assumes reg: "registry_ok (mp_runs p)" and l: "live_at p i m run" and p': "p' = endEnterpriseRun now i status reason p"
  shows "map_of (mp_mediated p') j = (if j = i then None else map_of (mp_mediated p) j)"
    "getEnterpriseActiveRun (mp_runs p') j = (if j = i then None else getEnterpriseActiveRun (mp_runs p) j)"
    "getSessionActiveRunId (mp_runs p') s = (if getSessionActiveRunId (mp_runs p) s = Some i then None else getSessionActiveRunId (mp_runs p) s)"
    "\<exists>evt. mp_live p' = mp_live p @ [evt] \<and> se_kind evt = ''ended'' \<and> se_executionId evt = md_executionId m \<and> se_runId evt = i"
proof -
  note d = storedD [OF ending_stored [OF l, of now status reason], folded p']
  have live: "map_of (mp_mediated p) i = Some m" "getEnterpriseActiveRun (mp_runs p) i = Some run" using l by (auto simp: live_at_def)
  show "map_of (mp_mediated p') j = (if j = i then None else map_of (mp_mediated p) j)"
    "getEnterpriseActiveRun (mp_runs p') j = (if j = i then None else getEnterpriseActiveRun (mp_runs p) j)"
    using d(1,3) by (simp_all add: delete_conv')
  have "\<exists>run. getEnterpriseActiveRun (mp_runs p) i = Some run \<and> session_of run = Some s" if "getSessionActiveRunId (mp_runs p) s = Some i"
    using registry_link [OF reg that] .
  then show "getSessionActiveRunId (mp_runs p') s = (if getSessionActiveRunId (mp_runs p) s = Some i then None else getSessionActiveRunId (mp_runs p) s)"
    using d(1) by auto
  have "runId (run_plan run) = i" by (rule registry_okD [OF reg live(2)])
  then show "\<exists>evt. mp_live p' = mp_live p @ [evt] \<and> se_kind evt = ''ended'' \<and> se_executionId evt = md_executionId m \<and> se_runId evt = i"
    using live by (simp add: p' endEnterpriseRun_def mediated_run_def appendEvent_def Let_def emitEnterpriseStepEvent_def step_event_def)
qed

text \<open>What it leaves in a trace that can be written.\<close>

lemma ended_trail:
  assumes ok: "med_ok True env p" and l: "live_at p i m run" and status: "status \<noteq> StRunning"
    and p': "p' = endEnterpriseRun now i status reason p"
  shows "\<exists>row. filter (\<lambda>r. er_execution r = md_executionId m) (tr_runs (mp_trace p')) = [row] \<and> er_status row = status_text status"
    "\<exists>es e. events_for (md_executionId m) (mp_trace p') = es @ [e] \<and> ev_kind e = ''run.ended'' \<and> ev_seq e = md_seq m
      \<and> map ev_seq es = [0..<md_seq m] \<and> ev_payload e = Some (JObj (ended_fields status reason))"
proof -
  let ?p1 = "p \<lparr> mp_mediated := AList.delete i (mp_mediated p), mp_runs := unregisterEnterpriseActiveRun i (mp_runs p) \<rparr>"
  let ?x = "md_executionId m" let ?e = "event_of m now RunEnded None (ended_fields status reason)"
  note f = live_okD(5) [OF med_okD(8) [OF ok l], unfolded follows_def, simplified]
  note d = storedD [OF ending_stored [OF l, of now status reason], folded p']
  have h: "\<forall>op \<in> set (ending_ops m now status reason). harmless ?x op"
    using ended_harmless [OF status, of m now] finalize_harmless [OF status] by (auto simp: ending_ops_def ended_fields_def)
  have rel: "reliable ?p1" using med_okD(1) [OF ok] by (simp add: reliable_def)
  have w: "wrote True (ending_ops m now status reason) (mp_trace p) (mp_trace p')" using d(6) rel by simp
  obtain ops' where o: "ops' = ending_ops m now status reason" "trail_of ?x (mp_trace p') = fold trail_op ops' (trail_of ?x (mp_trace p))"
    using wrote_trails [OF w med_okD(2) [OF ok] h] by blast
  define t where "t = trail_of ?x (mp_trace p)"
  have g: "gap_free (md_seq m) t" using f by (simp add: t_def)
  have "trail_of ?x (mp_trace p') = trail_op (FinalizeTrace ?x status now) (t \<lparr> tl_events := tl_events t @ [event_row ?e] \<rparr>)"
    unfolding o(2) o(1) t_def [symmetric] using append_gap_free(1) [OF g] by (simp add: ending_ops_def del: trail_op.simps)
  then have t': "tl_events (trail_of ?x (mp_trace p')) = tl_events t @ [event_row ?e]"
    "tl_rows (trail_of ?x (mp_trace p')) = map (\<lambda>r. r \<lparr> tw_status := status_text status \<rparr>) (tl_rows t)" by simp_all
  show "\<exists>row. filter (\<lambda>r. er_execution r = ?x) (tr_runs (mp_trace p')) = [row] \<and> er_status row = status_text status"
    using f t'(2) by (auto simp: t_def trail_of_def trail_row_def map_eq_Cons_conv)
  show "\<exists>es e. events_for ?x (mp_trace p') = es @ [e] \<and> ev_kind e = ''run.ended'' \<and> ev_seq e = md_seq m
      \<and> map ev_seq es = [0..<md_seq m] \<and> ev_payload e = Some (JObj (ended_fields status reason))"
    using t'(1) g by (intro exI [of _ "tl_events t"] exI [of _ "event_row ?e"]) (simp add: trail_events [symmetric] gap_free_def)
qed

text \<open>
  C31. An end closes the run. A live run that ends is in neither map any more, no session names it as its active run,
  no other run and no other session link is touched, and live surfaces are told by exactly one event, the end of that
  execution. When every write of the trace so far went through and the last ones do, its row has the status of the
  end, its events are numbered without a gap and the last one is the end, with that status. Ending a run that is not
  live, so ending it again, does nothing.
\<close>

theorem ended_runs_are_closed:
  assumes "run_ops trace_admissible trace_perform history empty_trace = Some db" "gp_snapshot trees = None"
    "run_ops med_admissible (mediate env) ops (fresh_process trees db faults) = Some p" "status \<noteq> StRunning"
  shows "(map_of (mp_mediated p) i = None \<longrightarrow> endEnterpriseRun now i status reason p = p)
    \<and> (\<forall>m run. map_of (mp_mediated p) i = Some m \<and> getEnterpriseActiveRun (mp_runs p) i = Some run \<longrightarrow>
        (let p' = endEnterpriseRun now i status reason p in
          (\<forall>j. map_of (mp_mediated p') j = (if j = i then None else map_of (mp_mediated p) j)
             \<and> getEnterpriseActiveRun (mp_runs p') j = (if j = i then None else getEnterpriseActiveRun (mp_runs p) j))
          \<and> (\<forall>s. getSessionActiveRunId (mp_runs p') s
               = (if getSessionActiveRunId (mp_runs p) s = Some i then None else getSessionActiveRunId (mp_runs p) s))
          \<and> (\<exists>evt. mp_live p' = mp_live p @ [evt] \<and> se_kind evt = ''ended'' \<and> se_executionId evt = md_executionId m \<and> se_runId evt = i)
          \<and> (True \<notin> set faults \<longrightarrow>
              (\<exists>row. filter (\<lambda>r. er_execution r = md_executionId m) (tr_runs (mp_trace p')) = [row] \<and> er_status row = status_text status)
            \<and> (\<exists>es e. events_for (md_executionId m) (mp_trace p') = es @ [e] \<and> ev_kind e = ''run.ended'' \<and> ev_seq e = md_seq m
                \<and> map ev_seq es = [0..<md_seq m] \<and> ev_payload e = Some (JObj (ended_fields status reason))))))"
proof (intro conjI allI impI)
  show "endEnterpriseRun now i status reason p = p" if "map_of (mp_mediated p) i = None"
    using that by (simp add: endEnterpriseRun_def mediated_run_def)
next
  fix m run assume "map_of (mp_mediated p) i = Some m \<and> getEnterpriseActiveRun (mp_runs p) i = Some run"
  then have l: "live_at p i m run" by (simp add: live_at_def)
  define p' where "p' = endEnterpriseRun now i status reason p"
  have "med_ok False env p" by (rule reached_ok [OF assms(1-3)]) simp
  note frame = ended_frame [OF med_okD(3) [OF this] l p'_def]
  have "med_ok True env p" if "True \<notin> set faults" by (rule reached_ok [OF assms(1-3)]) (simp add: that)
  note trail = ended_trail [OF this l assms(4) p'_def]
  show "let p' = endEnterpriseRun now i status reason p in
          (\<forall>j. map_of (mp_mediated p') j = (if j = i then None else map_of (mp_mediated p) j)
             \<and> getEnterpriseActiveRun (mp_runs p') j = (if j = i then None else getEnterpriseActiveRun (mp_runs p) j))
          \<and> (\<forall>s. getSessionActiveRunId (mp_runs p') s
               = (if getSessionActiveRunId (mp_runs p) s = Some i then None else getSessionActiveRunId (mp_runs p) s))
          \<and> (\<exists>evt. mp_live p' = mp_live p @ [evt] \<and> se_kind evt = ''ended'' \<and> se_executionId evt = md_executionId m \<and> se_runId evt = i)
          \<and> (True \<notin> set faults \<longrightarrow>
              (\<exists>row. filter (\<lambda>r. er_execution r = md_executionId m) (tr_runs (mp_trace p')) = [row] \<and> er_status row = status_text status)
            \<and> (\<exists>es e. events_for (md_executionId m) (mp_trace p') = es @ [e] \<and> ev_kind e = ''run.ended'' \<and> ev_seq e = md_seq m
                \<and> map ev_seq es = [0..<md_seq m] \<and> ev_payload e = Some (JObj (ended_fields status reason))))"
    unfolding p'_def [symmetric] Let_def by (intro conjI allI impI) (rule frame trail, assumption?)+
qed

theorem ended_runs_are_closed_witness:
  "(\<exists>row. filter (\<lambda>r. er_execution r = ''x1'') (tr_runs (mp_trace (endEnterpriseRun 50 ''r1'' StCompleted None (sample_live [])))) = [row]
     \<and> er_status row = ''completed'')
   \<and> getSessionActiveRunId (mp_runs (endEnterpriseRun 50 ''r1'' StCompleted None (sample_live []))) ''s2'' \<noteq> Some ''r1''"
proof -
  obtain m run where s: "map_of (mp_mediated (sample_live [])) ''r1'' = Some m" "md_executionId m = ''x1''"
    "getEnterpriseActiveRun (mp_runs (sample_live [])) ''r1'' = Some run"
    by (rule view_run [OF sample_view_live(1)]) (rule that)
  have "StCompleted \<noteq> StRunning" by simp
  note e = ended_runs_are_closed [OF recovered_trace_reached sample_trees_cold sample_live_reached(1) this, of "''r1''" 50 None,
    THEN conjunct2, rule_format, of m run, unfolded Let_def s(2), OF conjI, OF s(1,3)]
  then show ?thesis by simp
qed

section \<open>Withheld runs\<close>

lemma unrouted_plan:
  "\<exists>plan. plan_for env params mode now tree source rationale None = Inr plan \<and> treeId plan = tree_id tree
     \<and> nodes plan = flattenPlanNodes (tree_root tree) None \<and> activeNodeId plan = nodeId (hd (nodes plan))"
  by (simp add: plan_for_def buildEnterpriseRunPlan_def Let_def plan_record_def)

lemma start_governance_cong:
  assumes "plan_for env params mode now tree source rationale None = Inr plan"
    "plan_for env params' mode' now' tree source' rationale' None = Inr plan'"
  shows "evaluateRunStartGovernance plan policies = evaluateRunStartGovernance plan' policies"
proof -
  have "treeId plan = treeId plan'" "nodes plan = nodes plan'" "activeNodeId plan = activeNodeId plan'"
    using unrouted_plan [of env params mode now tree source rationale] unrouted_plan [of env params' mode' now' tree source' rationale'] assms
    by auto
  then show ?thesis by (simp only: evaluateRunStartGovernance_def)
qed

lemma find_denied_withheld:
  "find_denied plan policies ts = Inr denied \<Longrightarrow> t \<in> set ts \<Longrightarrow> plan t = Inr q \<Longrightarrow> withholds (evaluateRunStartGovernance q policies) \<Longrightarrow>
   \<exists>u r. denied = Some u \<and> plan u = Inr r \<and> withholds (evaluateRunStartGovernance r policies)"
proof (induction ts)
  case (Cons u us)
  then show ?case by (cases "plan u") (auto split: if_splits)
qed simp

text \<open>What a request that waits for its planner was given.\<close>

lemma arrival_pending:
  assumes "arrive_begin env unreadable now params p = (None, p1)" "map_of (mp_pending p) (bp_runId params) = None"
    "map_of (mp_pending p1) (bp_runId params) = Some pb"
  shows "pb_params pb = params" "pb_mode pb = resolveEnterpriseMode (bp_mode params)"
    "find_denied (\<lambda>t. plan_for env params (pb_mode pb) now t SourceFallback None None) (pb_policies pb) (wc_candidates (pb_candidates pb))
       = Inr (pb_denied pb)"
proof -
  have "pb_params pb = params \<and> pb_mode pb = resolveEnterpriseMode (bp_mode params)
    \<and> find_denied (\<lambda>t. plan_for env params (pb_mode pb) now t SourceFallback None None) (pb_policies pb) (wc_candidates (pb_candidates pb))
       = Inr (pb_denied pb)"
    using assms by (auto simp: arrive_begin_def Let_def update_conv' split: if_splits option.splits prod.splits sum.splits)
  then show "pb_params pb = params" "pb_mode pb = resolveEnterpriseMode (bp_mode params)"
    "find_denied (\<lambda>t. plan_for env params (pb_mode pb) now t SourceFallback None None) (pb_policies pb) (wc_candidates (pb_candidates pb))
       = Inr (pb_denied pb)" by blast+
qed

lemma withheld_trail:
  assumes "store_ok db" "trail_of x db = \<lparr> tl_events = [], tl_rows = [] \<rparr>"
    "wrote True (withheld_ops env now params plan decision x) db db'"
  shows "\<exists>row. filter (\<lambda>r. er_execution r = x) (tr_runs db') = [row] \<and> er_status row = ''blocked''"
    "\<exists>es e. events_for x db' = es @ [e] \<and> ev_kind e = ''run.ended''"
proof -
  let ?m = "mediation_fields params x" let ?n = "length (opening_entries plan decision True)"
  let ?e = "event_of (bump ?n ?m) now RunEnded None [(''status'', JStr ''blocked''), (''reason'', JStr (dec_reason decision))]"
  have m: "md_executionId ?m = x" "md_seq ?m = 0" by (simp_all add: mediation_fields_def Let_def)
  obtain ops' where o: "ops' = withheld_ops env now params plan decision x" "trail_of x db' = fold trail_op ops' (trail_of x db)"
    by (rule wrote_trails [OF assms(3,1), of x]) (auto intro: withheld_harmless)
  define t where "t = fold trail_op (opening_ops env now params plan decision True ?m) (trail_of x db)"
  note ot = opening_trail [OF assms(2) m(2) t_def]
  have g: "gap_free (md_seq (bump ?n ?m)) t" using ot(1) m(2) by simp
  have "trail_of x db' = trail_op (FinalizeTrace x StBlocked now) (t \<lparr> tl_events := tl_events t @ [event_row ?e] \<rparr>)"
    using append_gap_free(1) [OF g] by (simp add: o withheld_ops_def Let_def t_def [symmetric] del: trail_op.simps)
  then have t': "tl_events (trail_of x db') = tl_events t @ [event_row ?e]"
    "tl_rows (trail_of x db') = map (\<lambda>r. r \<lparr> tw_status := ''blocked'' \<rparr>) (tl_rows t)" by simp_all
  show "\<exists>row. filter (\<lambda>r. er_execution r = x) (tr_runs db') = [row] \<and> er_status row = ''blocked''"
    using ot(3) t'(2) by (auto simp: trail_of_def trail_row_def map_eq_Cons_conv)
  show "\<exists>es e. events_for x db' = es @ [e] \<and> ev_kind e = ''run.ended''"
    using t'(1) by (intro exI [of _ "tl_events t"] exI [of _ "event_row ?e"]) (simp add: trail_events [symmetric])
qed

text \<open>The begin of a withheld run.\<close>

lemma withheld_start:
  assumes pb: "pb_params pb = params" "pb_mode pb = ModeEnforce" "pb_denied pb = Some t"
    and plan: "plan_for env params ModeEnforce now0 t SourceFallback None None = Inr tplan"
    and w: "withholds (evaluateRunStartGovernance tplan (pb_policies pb))"
    and sel: "sel_tree sel = t"
  shows "if fst aborted \<or> snd aborted then start_run env now aborted inlined x pb sel p = (MediationOff, p)
    else \<exists>reason q plan decision. start_run env now aborted inlined x pb sel p = (MediationBlocked reason, q)
      \<and> stored (withheld_ops env now params plan decision x) p q"
proof -
  have pw: "planner_withheld pb" using pb by (simp add: planner_withheld_def)
  obtain plan where p: "plan_for env params ModeEnforce now t (sel_treeSource sel) (Some (sel_treeRationale sel)) None = Inr plan"
    using unrouted_plan by blast
  define decision where "decision = evaluateRunStartGovernance plan (pb_policies pb)"
  have d: "withholds decision" using w start_governance_cong [OF plan p] by (simp add: decision_def)
  obtain m p1 where o: "open_trail env now params plan decision True (mediation_fields params x, p) = (m, p1)" by fastforce
  obtain m1 p2 where e: "appendEvent now RunEnded None [(''status'', JStr ''blocked''), (''reason'', JStr (dec_reason decision))] (m, p1) = (m1, p2)"
    by fastforce
  have "start_run env now aborted inlined x pb sel p = (if fst aborted \<or> snd aborted then (MediationOff, p)
      else (MediationBlocked (dec_reason decision), persistTrace (\<lambda>db. Inr (finalizeEnterpriseRun x StBlocked now db)) p2))"
    using pw p d o e pb sel by (simp add: start_run_def Let_def decision_def)
  then show ?thesis using withheld_stored [OF o e] by auto
qed

text \<open>
  C32. A run that a run-start policy withholds never starts in enforce mode. When a policy denies, or asks for
  approval of, a candidate work-map of a request, then whatever its planner would answer, however long the request
  waits and whichever writes fail, its begin registers no run: it answers with the refusal, or that the turn is
  gone when it was cancelled. When the trace can be written the refusal leaves one row, blocked, and a trail
  that ends with the end of the run.
\<close>

theorem withheld_runs_never_start:
  assumes arrival: "arrive_begin env unreadable now params p = (None, p1)" "map_of (mp_pending p) (bp_runId params) = None"
      "resolveEnterpriseMode (bp_mode params) = ModeEnforce" "map_of (mp_pending p1) (bp_runId params) = Some pb"
    and policy: "t \<in> set (wc_candidates (pb_candidates pb))" "plan_for env params ModeEnforce now t SourceFallback None None = Inr tplan"
      "withholds (evaluateRunStartGovernance tplan (pb_policies pb))"
    and waiting: "map_of (mp_pending p2) (bp_runId params) = Some pb"
  shows "\<exists>answer p3. finish_begin env now2 aborted inlined x (bp_runId params) p2 = (Some answer, p3)
    \<and> mp_runs p3 = mp_runs p2 \<and> mp_mediated p3 = mp_mediated p2
    \<and> (if fst aborted \<or> snd aborted then answer = MediationOff \<and> mp_trace p3 = mp_trace p2 else \<exists>reason. answer = MediationBlocked reason)
    \<and> (\<not> (fst aborted \<or> snd aborted) \<and> fresh_execution x p2 \<and> store_ok (mp_trace p2) \<and> reliable p2 \<longrightarrow>
         (\<exists>row. filter (\<lambda>r. er_execution r = x) (tr_runs (mp_trace p3)) = [row] \<and> er_status row = ''blocked'')
         \<and> (\<exists>es e. events_for x (mp_trace p3) = es @ [e] \<and> ev_kind e = ''run.ended''))"
proof -
  note a = arrival_pending [OF arrival(1,2,4)]
  have mode: "pb_mode pb = ModeEnforce" using a(2) arrival(3) by simp
  obtain u uplan where u: "pb_denied pb = Some u" "plan_for env params ModeEnforce now u SourceFallback None None = Inr uplan"
    "withholds (evaluateRunStartGovernance uplan (pb_policies pb))"
    using find_denied_withheld [OF a(3) [unfolded mode] policy] by blast
  define sel where "sel = failClosedWorkflowSelection [u] u ''run-start governance denied a candidate before planning''"
  have sel: "sel_tree sel = u" "\<exists>reason. sel_next sel = NextBlocked reason"
    by (simp_all add: sel_def failClosedWorkflowSelection_def selectionWithoutModel_def Let_def)
  have bs: "begin_selection pb = Some sel" using u(1) mode by (simp add: begin_selection_def sel_def)
  have pw: "planner_withheld pb" using u(1) mode by (simp add: planner_withheld_def)
  define p0 where "p0 = p2 \<lparr> mp_pending := AList.delete (bp_runId params) (mp_pending p2) \<rparr>"
  obtain answer p3 where st: "start_run env now2 aborted inlined x pb sel p0 = (answer, p3)" by fastforce
  have fb: "finish_begin env now2 aborted inlined x (bp_runId params) p2 = (Some answer, p3)"
    using sel(2) waiting bs pw st by (auto simp: finish_begin_def Let_def p0_def)
  note ws = withheld_start [OF a(1) mode u sel(1), of aborted now2 inlined x p0, unfolded st]
  show ?thesis
  proof (cases "fst aborted \<or> snd aborted")
    case True
    with ws have "answer = MediationOff" "p3 = p0" by simp_all
    with fb True show ?thesis by (simp add: p0_def)
  next
    case False
    with ws obtain reason plan decision where r: "answer = MediationBlocked reason"
      "stored (withheld_ops env now2 params plan decision x) p0 p3" by auto
    note d = storedD [OF r(2)]
    have "(\<exists>row. filter (\<lambda>r. er_execution r = x) (tr_runs (mp_trace p3)) = [row] \<and> er_status row = ''blocked'')
         \<and> (\<exists>es e. events_for x (mp_trace p3) = es @ [e] \<and> ev_kind e = ''run.ended'')"
      if "fresh_execution x p2" "store_ok (mp_trace p2)" "reliable p2"
    proof -
      have "wrote True (withheld_ops env now2 params plan decision x) (mp_trace p2) (mp_trace p3)"
        using d(6) that(3) by (simp add: p0_def reliable_def)
      with withheld_trail [OF that(2) _ this] that(1) show ?thesis by (simp add: fresh_execution_def)
    qed
    with fb r(1) d(1,3) False show ?thesis by (simp add: p0_def)
  qed
qed

text \<open>A policy that freezes the claims work-map.\<close>

definition freeze_policy :: GovernancePolicy where
  "freeze_policy = (sample_policy ''freeze'' EffDeny) \<lparr> pol_tools := None, pol_trees := Some [''claims''] \<rparr>"

definition frozen_arrival :: "EnterpriseRunMediation option \<times> MediationProcess" where
  "frozen_arrival = arrive_begin sample_mediation None 40 (sample_begin (Some [freeze_policy])) (fresh_process sample_trees empty_trace [])"

lemma frozen_waits:
  "fst frozen_arrival = None"
  "map_option (\<lambda>pb. sample_tree \<in> set (wc_candidates (pb_candidates pb)) \<and> pb_policies pb = [freeze_policy])
     (map_of (mp_pending (snd frozen_arrival)) ''r1'') = Some True"
  "case plan_for sample_mediation (sample_begin (Some [freeze_policy])) ModeEnforce 40 sample_tree SourceFallback None None of
     Inl _ \<Rightarrow> False | Inr plan \<Rightarrow> withholds (evaluateRunStartGovernance plan [freeze_policy])"
  by code_simp+

theorem withheld_runs_never_start_witness:
  "\<exists>reason p3. finish_begin sample_mediation 41 (False, False) [] ''x1'' ''r1'' (snd frozen_arrival) = (Some (MediationBlocked reason), p3)
     \<and> mp_mediated p3 = mp_mediated (snd frozen_arrival)"
proof -
  let ?params = "sample_begin (Some [freeze_policy])"
  obtain pb where pb: "map_of (mp_pending (snd frozen_arrival)) (bp_runId ?params) = Some pb"
    "sample_tree \<in> set (wc_candidates (pb_candidates pb))" "pb_policies pb = [freeze_policy]"
    using frozen_waits(2) by (auto simp: sample_begin_def)
  obtain plan where plan: "plan_for sample_mediation ?params ModeEnforce 40 sample_tree SourceFallback None None = Inr plan"
    "withholds (evaluateRunStartGovernance plan (pb_policies pb))"
    using frozen_waits(3) pb(3) by (auto split: sum.splits)
  have arrival: "arrive_begin sample_mediation None 40 ?params (fresh_process sample_trees empty_trace []) = (None, snd frozen_arrival)"
    using frozen_waits(1) by (metis frozen_arrival_def prod.collapse)
  have "map_of (mp_pending (fresh_process sample_trees empty_trace [])) (bp_runId ?params) = None"
    "resolveEnterpriseMode (bp_mode ?params) = ModeEnforce"
    by (simp_all add: fresh_process_def sample_begin_def resolveEnterpriseMode_def)
  from withheld_runs_never_start [OF arrival this pb(1,2) plan pb(1), of 41 "(False, False)" "[]" "''x1''"]
  show ?thesis by (fastforce simp: sample_begin_def)
qed

end
