(* ===== verification/Digest_Properties.thy ===== *)
theory Digest_Properties
  imports Prompt_Digest Run_Properties
begin

text \<open>
  What the model is told agrees with what the run enforces: the prompt section counts the steps as the cursor does,
  names every tool a step allows or denies, and is empty only when no step restricts anything.
\<close>

lemma ordinals_index:
  "distinct steps \<Longrightarrow> map_of (map (\<lambda>(k, i). (i, k + 1)) (enumerate n steps)) i = map_option (\<lambda>k. n + k + 1) (index_of i steps)"
  by (induction steps arbitrary: n) (auto simp: option.map_comp comp_def)

lemma step_ordinals_index:
  assumes "distinct (enterpriseStepSequence plan)"
  shows "map_of (step_ordinals plan) i = map_option Suc (index_of i (enterpriseStepSequence plan))"
    "length (step_ordinals plan) = length (enterpriseStepSequence plan)"
proof -
  let ?es = "map (\<lambda>(k, i). (i, k + 1)) (enumerate 0 (enterpriseStepSequence plan))"
  have "map fst ?es = enterpriseStepSequence plan"
    by (simp add: comp_def case_prod_unfold)
  then have "step_ordinals plan = ?es" using assms unfolding step_ordinals_def by (simp only: js_map_of_distinct)
  then show "map_of (step_ordinals plan) i = map_option Suc (index_of i (enterpriseStepSequence plan))"
    "length (step_ordinals plan) = length (enterpriseStepSequence plan)"
    using ordinals_index [OF assms, of 0 i] by simp_all
qed

lemma join_Nil: "join sep xs = [] \<Longrightarrow> xs \<noteq> [] \<Longrightarrow> hd xs = []"
  by (induction sep xs rule: join.induct) auto

lemma ordinal_of_step:
  assumes "run_ok run" "node \<in> set (nodes (run_plan run))"
  obtains r where "stepRef run (nodeId node) = Some r" "map_of (step_ordinals (run_plan run)) (nodeId node) = Some (sr_ordinal r)"
    "length (step_ordinals (run_plan run)) = sr_total r"
proof -
  let ?plan = "run_plan run"
  have d: "distinct (enterpriseStepSequence ?plan)" using run_ok_steps(1) [OF assms(1)] by (simp add: steps_of_def)
  have mem: "nodeId node \<in> set (enterpriseStepSequence ?plan)" using assms(2) by (simp add: enterpriseStepSequence_def)
  obtain n where n: "findPlanNode ?plan (nodeId node) = Some n" using find_step [OF mem] by auto
  obtain k where k: "index_of (nodeId node) (enterpriseStepSequence ?plan) = Some k" using index_of_ex [OF mem] by auto
  show ?thesis
    by (rule that [of "\<lparr> sr_nodeId = nodeId n, sr_title = node_title n, sr_ordinal = k + 1, sr_total = length (enterpriseStepSequence ?plan) \<rparr>"])
      (simp_all add: stepRef_def Let_def n k step_ordinals_index [OF d])
qed

lemma concat_part: "x \<in> set xs \<Longrightarrow> \<exists>pre post. concat (map f xs) = pre @ f x @ post"
  by (induction xs) (auto, metis append.assoc)

text \<open>What a block says of its step: every name of its lists, and its texts, whole.\<close>

definition named_lists :: "OntologyBinding \<Rightarrow> (string \<times> string list option) list" where
  "named_lists b = [(''   Skills: '', skills b), (''   Allowed tools: '', allowedTools b), (''   Denied tools: '', deniedTools b),
     (''   Knowledge sources: '', knowledgeFoundations b), (''   MCP servers: '', mcpServers b)]"

definition written_texts :: "OntologyBinding \<Rightarrow> (string \<times> string option) list" where
  "written_texts b = [(''   Instructions: '', guidance b), (''   Expected output: '', expectedOutput b)]"

definition block_names :: "EnterprisePlanNode \<Rightarrow> string list \<Rightarrow> bool" where
  "block_names node block \<longleftrightarrow>
     (\<forall>(heading, names) \<in> set (named_lists (ontology node)). opt_list names \<noteq> [] \<longrightarrow> heading @ join '', '' (sort (opt_list names)) \<in> set block)
     \<and> (\<forall>(heading, t) \<in> set (written_texts (ontology node)). opt_list t \<noteq> [] \<longrightarrow> heading @ opt_list t \<in> set block)"

lemma guidance_names: "block_names node (x # appendOntologyGuidance (ontology node) ''   '')"
  by (auto simp: block_names_def named_lists_def written_texts_def appendOntologyGuidance_def sorted_line_def text_line_def)

definition block_heading :: "EnterprisePlanNode \<Rightarrow> EnterpriseStepRef \<Rightarrow> string" where
  "block_heading node r = show_nat (seq node) @ ''. '' @ node_title node
     @ (if opt_list (node_description node) = [] then [] else dash @ opt_list (node_description node))
     @ '' [step '' @ show_nat (sr_ordinal r) @ '' of '' @ show_nat (sr_total r) @ '' '' @ [middle_dot] @ '' id: '' @ nodeId node @ '']''"

lemma step_block:
  assumes "run_ok run" "node \<in> set (nodes (run_plan run))"
  shows "\<exists>r. stepRef run (nodeId node) = Some r \<and> hd (step_lines (run_plan run) node) = block_heading node r
    \<and> block_names node (step_lines (run_plan run) node)"
proof -
  let ?plan = "run_plan run"
  obtain r where r: "stepRef run (nodeId node) = Some r" "map_of (step_ordinals ?plan) (nodeId node) = Some (sr_ordinal r)"
    "length (step_ordinals ?plan) = sr_total r" using ordinal_of_step [OF assms] .
  moreover have "hd (step_lines ?plan node) = block_heading node r"
    using r by (simp add: step_lines_def block_heading_def Let_def)
  moreover have "block_names node (step_lines ?plan node)" using guidance_names by (simp add: step_lines_def Let_def)
  ultimately show ?thesis by blast
qed

lemma split_lines:
  assumes "tracks \<longrightarrow> x \<in> set f"
  shows "\<exists>before. a @ b @ c @ d @ e @ f @ [s] @ g @ h = before @ g @ h \<and> last before = s \<and> (tracks \<longrightarrow> x \<in> set before)"
  by (rule exI [of _ "a @ b @ c @ d @ e @ f @ [s]"]) (use assms in simp)

lemma lines_around:
  "\<exists>before. prompt_lines plan resolved tracks = before @ concat (map (step_lines plan) (nodes plan)) @ skill_lines resolved
     \<and> last before = ''Steps:'' \<and> (tracks \<longrightarrow> advance_gloss plan \<in> set before)"
  unfolding prompt_lines_def Let_def by (rule split_lines) simp

lemma opening_line:
  assumes "run_ok run"
  shows "\<exists>r pre post. stepRef run (cursor run) = Some r
    \<and> advance_gloss (run_plan run) = pre @ '' in the order below, starting on step '' @ show_nat (sr_ordinal r) @ ''. Call '' @ post"
proof -
  let ?plan = "run_plan run"
  obtain node where node: "nodeId node = cursor run" "node \<in> set (nodes ?plan)"
    using find_step assms by (force simp: run_ok_def steps_of_def)
  obtain r where r: "stepRef run (cursor run) = Some r" "map_of (step_ordinals ?plan) (cursor run) = Some (sr_ordinal r)"
    using ordinal_of_step [OF assms node(2)] node(1) by metis
  have "\<exists>pre post. advance_gloss ?plan = pre @ '' in the order below, starting on step '' @ show_nat (sr_ordinal r) @ ''. Call '' @ post"
    using r(2) unfolding advance_gloss_def Let_def cursor_def option.case by (simp only: option.case append.assoc) (metis append.assoc)
  then show ?thesis using r(1) by blast
qed

text \<open>A step with nothing to say to a model.\<close>

definition declares_nothing :: "EnterprisePlanNode \<Rightarrow> bool" where
  "declares_nothing node \<longleftrightarrow> (let b = ontology node in
     opt_list (node_description node) = [] \<and> opt_list (guidance b) = [] \<and> opt_list (expectedOutput b) = []
     \<and> opt_list (entities b) = [] \<and> opt_list (relationships b) = [] \<and> opt_list (ont_functions b) = []
     \<and> opt_list (actions b) = [] \<and> opt_list (constraints b) = [] \<and> opt_list (contextHints b) = []
     \<and> opt_list (skills b) = [] \<and> opt_list (knowledgeFoundations b) = []
     \<and> opt_list (allowedTools b) = [] \<and> opt_list (deniedTools b) = [] \<and> opt_list (mcpServers b) = [])"

lemma declares_nothing_iff: "declares_nothing node \<longleftrightarrow> \<not> ontologyHasGuidance (ontology node) \<and> opt_list (node_description node) = []"
  by (auto simp: declares_nothing_def ontologyHasGuidance_def Let_def)

lemma silent_unless: "x \<noteq> [] \<Longrightarrow> ((if c then [] else x) = []) = c" "(if c then [] else x) \<noteq> [] \<Longrightarrow> (if c then [] else x) = x"
  by (cases c; simp)+

lemma section_iff:
  "buildEnterprisePromptSection plan resolved tracks = [] \<longleftrightarrow>
     \<not> tracks \<and> mcpGoverned plan \<noteq> Some True \<and> (\<forall>node \<in> set (nodes plan). declares_nothing node)"
proof -
  have "hd (prompt_lines plan resolved tracks) \<noteq> []" "prompt_lines plan resolved tracks \<noteq> []"
    by (simp_all add: prompt_lines_def Let_def)
  then have spoken: "join newline (prompt_lines plan resolved tracks) \<noteq> []" using join_Nil by blast
  have "list_ex (\<lambda>n. ontologyHasGuidance (ontology n) \<or> opt_list (node_description n) \<noteq> []) (nodes plan) \<longleftrightarrow>
      \<not> (\<forall>node \<in> set (nodes plan). declares_nothing node)"
    unfolding list_ex_iff declares_nothing_iff by blast
  then show ?thesis unfolding buildEnterprisePromptSection_def silent_unless(1) [OF spoken] by simp
qed

text \<open>
  C33. The prompt tells the model what the run enforces. The section of a well-formed run is empty exactly when the
  run neither tracks steps nor governs MCP servers and no step declares anything a model reads. Otherwise it is,
  line by line and nothing cut off, a preamble, then one block for every planned step in the order of the plan, then
  the skill instructions. Each block is headed by the step's title and the ordinal and total the step tools report for
  it, and names every skill, every allowed and denied tool, every knowledge source and every MCP server of the step,
  its instructions and its expected output; and the preamble of a run that tracks its steps tells it to start on the
  ordinal of its cursor.
\<close>

theorem digest_tells_what_is_enforced:
  assumes "run_ok run"
  shows "(buildEnterprisePromptSection (run_plan run) resolved tracks = [] \<longleftrightarrow>
        \<not> tracks \<and> mcpGoverned (run_plan run) \<noteq> Some True \<and> (\<forall>node \<in> set (nodes (run_plan run)). declares_nothing node))
    \<and> (buildEnterprisePromptSection (run_plan run) resolved tracks \<noteq> [] \<longrightarrow> (\<exists>before blocks.
        buildEnterprisePromptSection (run_plan run) resolved tracks = join newline (before @ concat blocks @ skill_lines resolved)
        \<and> list_all2 (\<lambda>node block. \<exists>r. stepRef run (nodeId node) = Some r \<and> hd block = block_heading node r \<and> block_names node block)
            (nodes (run_plan run)) blocks
        \<and> last before = ''Steps:''
        \<and> (tracks \<longrightarrow> (\<exists>gloss \<in> set before. \<exists>r pre post. stepRef run (cursor run) = Some r
            \<and> gloss = pre @ '' in the order below, starting on step '' @ show_nat (sr_ordinal r) @ ''. Call '' @ post))))"
proof (intro conjI impI)
  let ?plan = "run_plan run"
  assume spoken: "buildEnterprisePromptSection ?plan resolved tracks \<noteq> []"
  obtain before where b: "prompt_lines ?plan resolved tracks = before @ concat (map (step_lines ?plan) (nodes ?plan)) @ skill_lines resolved"
    "last before = ''Steps:''" "tracks \<longrightarrow> advance_gloss ?plan \<in> set before"
    using lines_around [of ?plan resolved tracks] by blast
  have whole: "buildEnterprisePromptSection ?plan resolved tracks
      = join newline (before @ concat (map (step_lines ?plan) (nodes ?plan)) @ skill_lines resolved)"
    using spoken unfolding b(1) [symmetric] buildEnterprisePromptSection_def by (rule silent_unless(2))
  have blocks: "list_all2 (\<lambda>node block. \<exists>r. stepRef run (nodeId node) = Some r \<and> hd block = block_heading node r \<and> block_names node block)
      (nodes ?plan) (map (step_lines ?plan) (nodes ?plan))"
    using step_block [OF assms] by (simp add: list_all2_conv_all_nth)
  have gloss: "tracks \<longrightarrow> (\<exists>gloss \<in> set before. \<exists>r pre post. stepRef run (cursor run) = Some r
      \<and> gloss = pre @ '' in the order below, starting on step '' @ show_nat (sr_ordinal r) @ ''. Call '' @ post)"
    using b(3) opening_line [OF assms] by blast
  show "\<exists>before blocks.
        buildEnterprisePromptSection ?plan resolved tracks = join newline (before @ concat blocks @ skill_lines resolved)
        \<and> list_all2 (\<lambda>node block. \<exists>r. stepRef run (nodeId node) = Some r \<and> hd block = block_heading node r \<and> block_names node block)
            (nodes ?plan) blocks
        \<and> last before = ''Steps:''
        \<and> (tracks \<longrightarrow> (\<exists>gloss \<in> set before. \<exists>r pre post. stepRef run (cursor run) = Some r
            \<and> gloss = pre @ '' in the order below, starting on step '' @ show_nat (sr_ordinal r) @ ''. Call '' @ post))"
    by (rule exI [of _ before], rule exI [of _ "map (step_lines ?plan) (nodes ?plan)"], intro conjI whole blocks gloss b(2))
qed (rule section_iff)

theorem digest_tells_what_is_enforced_witness:
  "\<exists>before blocks. buildEnterprisePromptSection (run_plan sample_run) [] True = join newline (before @ concat blocks)
     \<and> length blocks = 4 \<and> (\<exists>r. stepRef sample_run ''pay'' = Some r \<and> hd (blocks ! 2) = block_heading (nodes (run_plan sample_run) ! 2) r)"
proof -
  have ok: "run_ok sample_run" by code_simp
  have ns: "length (nodes (run_plan sample_run)) = 4 \<and> nodeId (nodes (run_plan sample_run) ! 2) = ''pay''" by code_simp
  note digest = digest_tells_what_is_enforced [OF ok, of "[]" True]
  from digest have "buildEnterprisePromptSection (run_plan sample_run) [] True \<noteq> []" by blast
  with digest obtain before blocks where b:
    "buildEnterprisePromptSection (run_plan sample_run) [] True = join newline (before @ concat blocks @ skill_lines [])"
    "list_all2 (\<lambda>node block. \<exists>r. stepRef sample_run (nodeId node) = Some r \<and> hd block = block_heading node r \<and> block_names node block)
       (nodes (run_plan sample_run)) blocks" by blast
  from b(2) ns have "length blocks = 4" "\<exists>r. stepRef sample_run ''pay'' = Some r \<and> hd (blocks ! 2) = block_heading (nodes (run_plan sample_run) ! 2) r"
    by (auto dest: list_all2_lengthD list_all2_nthD [where p = 2])
  with b(1) show ?thesis by (auto simp: skill_lines_def)
qed

end
