(* ===== verification/Launch_Ceiling.thy ===== *)
theory Launch_Ceiling
  imports Governance_Properties Active_Runs
begin

text \<open>
  The launch-time ceiling of \<^verbatim>\<open>src/enterprise/active-runs.ts\<close>: which MCP servers and hosted tools are handed to a
  native runtime that starts once and calls without passing the gate. The spellings such a runtime gives a
  server include those of \<^verbatim>\<open>src/agents/agent-bundle-mcp-names.ts\<close>.
\<close>

section \<open>The sanitizer of bundle servers\<close>

definition tool_name_safe :: "char \<Rightarrow> bool" where
  "tool_name_safe c = (is_upper c \<or> is_lower c \<or> is_digit c \<or> c = CHR ''_'' \<or> c = CHR ''-'')"

definition TOOL_NAME_MAX_PREFIX :: nat where
  "TOOL_NAME_MAX_PREFIX = 30"

definition sanitizeToolFragment :: "string \<Rightarrow> string \<Rightarrow> nat option \<Rightarrow> string" where
  "sanitizeToolFragment raw fallback maxChars =
     (let cleaned = map (\<lambda>c. if tool_name_safe c then c else CHR ''-'') (trim raw);
          normalized = (if cleaned = [] then fallback else cleaned);
          providerSafe = (case normalized of
              c # cs \<Rightarrow> if is_upper c \<or> is_lower c then normalized else fallback @ ''-'' @ normalized
            | [] \<Rightarrow> fallback @ ''-'' @ normalized)
      in case maxChars of None \<Rightarrow> providerSafe | Some n \<Rightarrow> if n = 0 then providerSafe else take n providerSafe)"

text \<open>The name a server takes when \<open>n - 2\<close> earlier candidates were taken; one more than the number of used names is enough.\<close>

definition numbered_name :: "string \<Rightarrow> nat \<Rightarrow> string" where
  "numbered_name base n = (let suffix = ''-'' @ show_nat n in take (max 1 (TOOL_NAME_MAX_PREFIX - length suffix)) base @ suffix)"

fun free_name :: "nat \<Rightarrow> string list \<Rightarrow> string \<Rightarrow> string \<Rightarrow> nat \<Rightarrow> string" where
  "free_name 0 used base candidate n = candidate"
| "free_name (Suc fuel) used base candidate n =
     (if normalizeLowercaseStringOrEmpty candidate \<in> set used then free_name fuel used base (numbered_name base n) (n + 1)
      else candidate)"

definition sanitizeServerName :: "string \<Rightarrow> string list \<Rightarrow> string \<times> string list" where
  "sanitizeServerName raw usedNames =
     (let base = sanitizeToolFragment raw ''mcp'' (Some TOOL_NAME_MAX_PREFIX);
          candidate = free_name (Suc (length usedNames)) usedNames base base 2
      in (candidate, set_add (normalizeLowercaseStringOrEmpty candidate) usedNames))"

abbreviation sanitized_server :: "string \<Rightarrow> string" where
  "sanitized_server server \<equiv> fst (sanitizeServerName server [])"

section \<open>The spellings of a server\<close>

definition mcpServerNamespaces :: "string \<Rightarrow> string list" where
  "mcpServerNamespaces server =
     (let bases = [server, codexNamespace server, sanitized_server server]
      in filter (\<lambda>n. n \<noteq> []) (dedup (map toLowerCase bases @ codexHookNamespaces bases)))"

definition callableMcpNamespaces :: "string \<Rightarrow> string list" where
  "callableMcpNamespaces server =
     (let sanitized = [codexNamespace server, sanitized_server server];
          bases = filter (\<lambda>n. n \<noteq> []) (dedup (map toLowerCase sanitized @ codexHookNamespaces sanitized))
      in dedup (concat (map (\<lambda>base. if startsWith base ''mcp__'' then [base] else [base, ''mcp__'' @ base]) bases)))"

text \<open>\<open>^(.+?)(?:-\d+|_[0-9a-f]{12})$\<close>: the shortest nonempty prefix the rest is a suffix of.\<close>

definition collision_suffix :: "string \<Rightarrow> bool" where
  "collision_suffix s = (case s of [] \<Rightarrow> False
     | c # cs \<Rightarrow> (c = CHR ''-'' \<and> cs \<noteq> [] \<and> list_all is_digit cs)
         \<or> (c = CHR ''_'' \<and> length cs = COLLISION_HASH_LENGTH \<and> list_all is_hex cs))"

definition collision_prefix :: "string \<Rightarrow> string option" where
  "collision_prefix segment = map_option (\<lambda>k. take k segment) (List.find
     (\<lambda>k. collision_suffix (drop k segment) \<and> list_all (\<lambda>c. \<not> line_terminator c) (take k segment)) [1..<length segment])"

definition TOOL_NAME_PREFIX_BUDGET :: nat where
  "TOOL_NAME_PREFIX_BUDGET = 30"

definition mightBeCollisionAliasOf :: "string \<Rightarrow> string \<Rightarrow> bool" where
  "mightBeCollisionAliasOf segment ns =
     (if startsWith ns segment \<and> min (length ns) (TOOL_NAME_PREFIX_BUDGET - 2) \<le> length segment then True
      else case collision_prefix segment of
          None \<Rightarrow> False
        | Some pre \<Rightarrow> startsWith ns pre \<and>
            (length pre = length ns
             \<or> min (length ns) (TOOL_NAME_PREFIX_BUDGET - (length segment - length pre)) \<le> length pre))"

text \<open>The positions the scan visits: it ends at the first \<open>__\<close> that opens the body.\<close>

definition delimiters :: "string \<Rightarrow> nat list" where
  "delimiters body = takeWhile (\<lambda>k. 0 < k) (filter (\<lambda>k. startsWith (drop k body) ''__'') [0..<length body])"

definition denialOpensWithMcpServer :: "string \<Rightarrow> string list \<Rightarrow> bool" where
  "denialOpensWithMcpServer pattern nss =
     (let bodies = (if startsWith pattern ''mcp__'' then [pattern, drop 5 pattern] else [pattern])
      in list_ex (\<lambda>body. list_ex (\<lambda>k. list_ex (mightBeCollisionAliasOf (take k body)) nss) (delimiters body)) bodies)"

section \<open>Patterns against a prefix\<close>

definition globCoversEverythingUnder :: "string \<Rightarrow> string \<Rightarrow> bool" where
  "globCoversEverythingUnder pattern pre =
     (if pattern = ''*'' then True
      else if \<not> endsWith pattern ''*'' then False
      else CHR ''*'' \<notin> set (butlast pattern) \<and> startsWith pre (butlast pattern))"

definition globCanMatchPrefix :: "string \<Rightarrow> string \<Rightarrow> bool" where
  "globCanMatchPrefix pattern pre = (let segments = split_on (CHR ''*'') pattern in
     if length segments = 1 then startsWith pattern pre
     else startsWith pre (hd segments) \<or> startsWith (hd segments) pre)"

definition selectorMatches :: "string \<Rightarrow> string list option \<Rightarrow> bool" where
  "selectorMatches value globs =
     (if opt_list globs = [] then True else isToolAllowedByPolicyName value (allow_only (opt_list globs)))"

definition denialReachesMcpServer :: "string \<Rightarrow> string \<Rightarrow> bool \<Rightarrow> bool" where
  "denialReachesMcpServer entry server bareNameDenies =
     (let pattern = toLowerCase (trim entry);
          nss = mcpServerNamespaces server;
          wholeServer = concat (map (\<lambda>ns. [ns, ''mcp__'' @ ns]) nss);
          bare = (if startsWith pattern ''mcp__'' then drop 5 pattern else pattern);
          prefixes = concat (map (\<lambda>ns. [ns @ ''__'', ''mcp__'' @ ns @ ''__'']) nss)
      in if pattern = [] then False
         else if bareNameDenies \<and>
             (pattern \<in> set nss \<or> list_ex (\<lambda>name. pattern = ''mcp__'' @ name) nss
              \<or> list_ex (\<lambda>name. \<not> isToolAllowedByPolicyName name (deny_only [pattern])) wholeServer
              \<or> list_ex (mightBeCollisionAliasOf bare) nss) then True
         else if list_ex (globCanMatchPrefix pattern) prefixes then True
         else denialOpensWithMcpServer pattern nss)"

definition allowListGrantsWholeMcpServer :: "string list \<Rightarrow> string \<Rightarrow> string list \<Rightarrow> bool" where
  "allowListGrantsWholeMcpServer allowed server siblings =
     (let nss = callableMcpNamespaces server;
          siblingNamespaces = concat (map callableMcpNamespaces siblings);
          prefixes = dedup (concat (map (\<lambda>ns. if startsWith ns ''mcp__'' then [ns @ ''__'']
            else [ns @ ''__'', ''mcp__'' @ ns @ ''__'']) nss))
      in if list_ex (\<lambda>entry. trim entry = ''*'') allowed then True
         else if list_ex (\<lambda>ns. CODEX_NAMESPACE_TRUNCATION_LIMIT < length ns) nss then False
         else if list_ex (\<lambda>ns. ns \<in> set siblingNamespaces) nss then False
         else list_all (\<lambda>pre. list_ex (\<lambda>entry. let pattern = toLowerCase (trim entry)
                in pattern \<noteq> [] \<and> globCoversEverythingUnder pattern pre) allowed) prefixes)"

section \<open>The ceiling\<close>

record McpCeiling =
  mc_denied :: "string list"
  mc_blocking :: "GovernancePolicy list"
  mc_nodeAllowLists :: "string list list"
  mc_nodes :: "EnterprisePlanNode list"

definition is_blocking :: "GovernancePolicy \<Rightarrow> bool" where
  "is_blocking policy \<longleftrightarrow> pol_effect policy = EffDeny \<or> pol_effect policy = EffRequireApproval"

definition resolveMcpCeiling :: "EnterpriseActiveRun \<Rightarrow> McpCeiling" where
  "resolveMcpCeiling run = (let plan = run_plan run in
     \<lparr> mc_denied = opt_list (mcpDeniedTools plan),
       mc_blocking = filter (\<lambda>policy. is_blocking policy \<and> policyTargetsTree policy (treeId plan)
         \<and> list_ex (\<lambda>i. selectorMatches i (pol_nodes policy)) (map nodeId (nodes plan))) (run_policies run),
       mc_nodeAllowLists = map (\<lambda>node. opt_list (allowedTools (ontology node))) (nodes plan),
       mc_nodes = nodes plan \<rparr>)"

definition action_tools :: "OntologyAction \<Rightarrow> string list" where
  "action_tools action = (case act_tools action of None \<Rightarrow> [''*''] | Some tools \<Rightarrow> tools)"

definition policyReachesMcpServer :: "GovernancePolicy \<Rightarrow> string \<Rightarrow> EnterprisePlanNode list \<Rightarrow> bool" where
  "policyReachesMcpServer policy server ns =
     (let toolPatterns = opt_list (pol_tools policy); actionSelectors = opt_list (pol_actions policy)
      in if opt_list (pol_knowledge policy) \<noteq> [] then False
         else if toolPatterns = [] \<and> actionSelectors = [] then False
         else if actionSelectors = [] then list_ex (\<lambda>entry. denialReachesMcpServer entry server False) toolPatterns
         else list_ex (\<lambda>node. selectorMatches (nodeId node) (pol_nodes policy)
           \<and> list_ex (\<lambda>action. list_ex (\<lambda>actionTool. denialReachesMcpServer actionTool server False
                \<and> (toolPatterns = [] \<or> list_ex (\<lambda>entry. denialReachesMcpServer entry server False
                     \<and> patternsCanShareACall entry actionTool) toolPatterns)) (action_tools action))
              (filter (\<lambda>action. selectorMatches (act_id action) (Some actionSelectors)) (opt_list (actions (ontology node))))) ns)"

definition ceilingAdmitsMcpServer :: "McpCeiling \<Rightarrow> string \<Rightarrow> string list \<Rightarrow> bool \<Rightarrow> bool" where
  "ceilingAdmitsMcpServer ceil server siblings requireGrant =
     (if list_ex (\<lambda>entry. denialReachesMcpServer entry server True) (mc_denied ceil) then False
      else if list_ex (\<lambda>policy. policyReachesMcpServer policy server (mc_nodes ceil)) (mc_blocking ceil) then False
      else if mc_nodeAllowLists ceil = [] then \<not> requireGrant
      else list_all (\<lambda>allowed. if allowed = [] then \<not> requireGrant
             else allowListGrantsWholeMcpServer allowed server siblings) (mc_nodeAllowLists ceil))"

definition siblings_of :: "string list \<Rightarrow> string list \<Rightarrow> string \<Rightarrow> string list" where
  "siblings_of candidates peers server = filter (\<lambda>other. other \<noteq> server) (dedup (candidates @ peers))"

definition enterpriseRunAttachedMcpServers :: "Registry \<Rightarrow> string option \<Rightarrow> string list \<Rightarrow> string list option \<Rightarrow> string list option" where
  "enterpriseRunAttachedMcpServers st i peerServerNames eligible = (case run_of st i of
     None \<Rightarrow> None
   | Some run \<Rightarrow>
       if plan_mode (run_plan run) \<noteq> ModeEnforce \<or> mcpGoverned (run_plan run) \<noteq> Some True then None
       else let attached = dedup (filter (\<lambda>name. name \<in> set (opt_list (run_mcpServers run))
                  \<and> (case eligible of None \<Rightarrow> True | Some names \<Rightarrow> name \<in> set names)) (opt_list (mcpAttachments (run_plan run))))
            in Some (filter (\<lambda>server.
                 list_all (\<lambda>node. server \<in> set (opt_list (mcpServers (ontology node)))) (nodes (run_plan run))
                 \<and> ceilingAdmitsMcpServer (resolveMcpCeiling run) server (siblings_of attached peerServerNames server) False) attached))"

definition enterpriseRunBoundableMcpServers :: "Registry \<Rightarrow> string option \<Rightarrow> string list \<Rightarrow> string list \<Rightarrow> string list option" where
  "enterpriseRunBoundableMcpServers st i candidates peerServerNames = (case run_of st i of
     None \<Rightarrow> None
   | Some run \<Rightarrow>
       if plan_mode (run_plan run) \<noteq> ModeEnforce then None
       else Some (dedup (filter (\<lambda>server. ceilingAdmitsMcpServer (resolveMcpCeiling run) server
              (siblings_of candidates peerServerNames server) (capabilityGrants (run_plan run) = Some GrantsExplicit)) candidates)))"

section \<open>Hosted tools\<close>

definition policyReachesTool :: "GovernancePolicy \<Rightarrow> string \<Rightarrow> EnterprisePlanNode list \<Rightarrow> bool" where
  "policyReachesTool policy toolName ns =
     (let toolPatterns = opt_list (pol_tools policy); actionSelectors = opt_list (pol_actions policy)
      in if opt_list (pol_knowledge policy) \<noteq> [] then False
         else if toolPatterns = [] \<and> actionSelectors = [] then False
         else if actionSelectors = [] then selectorMatches toolName (Some toolPatterns)
         else list_ex (\<lambda>node. selectorMatches (nodeId node) (pol_nodes policy)
           \<and> list_ex (\<lambda>action. list_ex (\<lambda>actionTool. selectorMatches toolName (Some [actionTool])
                \<and> (toolPatterns = [] \<or> selectorMatches toolName (Some toolPatterns))) (action_tools action))
              (filter (\<lambda>action. selectorMatches (act_id action) (Some actionSelectors)) (opt_list (actions (ontology node))))) ns)"

definition nodeAdmitsTool :: "EnterprisePlanNode \<Rightarrow> string \<Rightarrow> bool \<Rightarrow> bool" where
  "nodeAdmitsTool node toolName grantsExplicitly =
     (let allowed = opt_list (allowedTools (ontology node))
      in if allowed = [] then \<not> grantsExplicitly else isToolAllowedByPolicyName toolName (allow_only allowed))"

definition enterpriseRunAdmitsHostedTool :: "Registry \<Rightarrow> string option \<Rightarrow> string \<Rightarrow> bool" where
  "enterpriseRunAdmitsHostedTool st i toolName = (case run_of st i of
     None \<Rightarrow> True
   | Some run \<Rightarrow>
       if plan_mode (run_plan run) \<noteq> ModeEnforce then True
       else let ns = nodes (run_plan run); denied = concat (map (\<lambda>node. opt_list (deniedTools (ontology node))) ns)
            in if denied \<noteq> [] \<and> \<not> isToolAllowedByPolicyName toolName (deny_only denied) then False
               else if list_ex (\<lambda>policy. policyReachesTool policy toolName ns) (mc_blocking (resolveMcpCeiling run)) then False
               else list_all (\<lambda>node. nodeAdmitsTool node toolName (capabilityGrants (run_plan run) = Some GrantsExplicit)) ns)"

end
