(* ===== verification/Collision_Names.thy ===== *)
theory Collision_Names
  imports Launch_Ceiling Trace_Properties
begin

text \<open>
  The names the materializer gives servers that sanitize alike: a free name is the sanitized one or carries a number,
  and the launch check recognises a numbered namespace as an alias of the server.
\<close>

section \<open>The shape of a numbered name\<close>

lemma free_name_cases: "free_name fuel used base candidate n = candidate \<or> (\<exists>k. free_name fuel used base candidate n = numbered_name base k)"
  by (induction fuel arbitrary: candidate n) (simp, metis free_name.simps(2))

lemma sanitized_alone: "sanitized_server server = sanitizeToolFragment server ''mcp'' (Some TOOL_NAME_MAX_PREFIX)"
  by (simp add: sanitizeServerName_def Let_def)

lemma sanitized_cases:
  "fst (sanitizeServerName server used) = sanitized_server server
   \<or> (\<exists>k. fst (sanitizeServerName server used) = numbered_name (sanitized_server server) k)"
  unfolding sanitized_alone unfolding sanitizeServerName_def Let_def fst_conv by (rule free_name_cases)

text \<open>A fragment: safe characters behind a letter, cut to the budget.\<close>

lemma fragment_take:
  obtains c cs where "sanitizeToolFragment raw ''mcp'' (Some TOOL_NAME_MAX_PREFIX) = take 30 (c # cs)"
    "list_all tool_name_safe (c # cs)" "is_upper c \<or> is_lower c"
proof -
  have literals: "list_all tool_name_safe ''mcp-''" "is_lower (CHR ''m'')" by code_simp+
  define cleaned where "cleaned = map (\<lambda>c. if tool_name_safe c then c else CHR ''-'') (trim raw)"
  define body where "body = (if cleaned = [] then ''mcp'' else cleaned)"
  define name where "name = (case body of c # cs \<Rightarrow> if is_upper c \<or> is_lower c then body else ''mcp'' @ ''-'' @ body | [] \<Rightarrow> ''mcp'' @ ''-'' @ body)"
  have "list_all tool_name_safe cleaned" using literals(1) unfolding cleaned_def by (auto simp: list_all_iff)
  then have "list_all tool_name_safe body" using literals(1) by (simp add: body_def)
  then have name: "list_all tool_name_safe name \<and> (\<exists>c cs. name = c # cs \<and> (is_upper c \<or> is_lower c))"
    using literals by (cases body) (auto simp: name_def)
  have "sanitizeToolFragment raw ''mcp'' (Some TOOL_NAME_MAX_PREFIX) = take 30 name"
    unfolding sanitizeToolFragment_def Let_def name_def body_def cleaned_def TOOL_NAME_MAX_PREFIX_def by simp
  with name that show ?thesis by blast
qed

lemma fragment_safe: "list_all tool_name_safe (sanitizeToolFragment raw ''mcp'' (Some TOOL_NAME_MAX_PREFIX))"
  by (rule fragment_take [of raw]) (auto simp: list_all_iff dest: in_set_takeD)

lemma fragment_starts: "\<exists>c cs. sanitizeToolFragment raw ''mcp'' (Some TOOL_NAME_MAX_PREFIX) = c # cs \<and> (is_upper c \<or> is_lower c)"
  by (rule fragment_take [of raw]) auto

lemma fragment_length: "length (sanitizeToolFragment raw ''mcp'' (Some TOOL_NAME_MAX_PREFIX)) \<le> TOOL_NAME_PREFIX_BUDGET"
  by (simp add: sanitizeToolFragment_def Let_def TOOL_NAME_MAX_PREFIX_def TOOL_NAME_PREFIX_BUDGET_def)

lemma char_facts:
  "\<forall>c. is_upper c \<or> is_lower c \<longrightarrow> lower_char c \<noteq> CHR ''_''"
  "\<forall>c. tool_name_safe c \<longrightarrow> \<not> line_terminator (lower_char c)"
  "\<forall>c. is_digit c \<longrightarrow> lower_char c = c"
  by code_simp+

section \<open>The numbered namespace is seen\<close>

lemma find_upt:
  assumes "P k" "a \<le> k" "k < b" "\<And>j. a \<le> j \<Longrightarrow> j < k \<Longrightarrow> \<not> P j"
  shows "List.find P [a..<b] = Some k"
  unfolding find_Some_iff by (intro exI [of _ "k - a"]) (use assms in auto)

lemma number_is_the_suffix:
  assumes "ds \<noteq> []" "list_all is_digit ds" "pre \<noteq> []" "list_all (\<lambda>c. \<not> line_terminator c) pre"
  shows "collision_prefix (pre @ CHR ''-'' # ds) = Some pre"
proof -
  let ?segment = "pre @ CHR ''-'' # ds"
  have "\<not> is_hex (CHR ''-'')" "\<not> is_digit (CHR ''-'')" by code_simp+
  then have "\<not> collision_suffix (drop j ?segment)" if "j < length pre" for j
    using that by (cases "drop j pre") (auto simp: collision_suffix_def)
  then have "List.find (\<lambda>k. collision_suffix (drop k ?segment) \<and> list_all (\<lambda>c. \<not> line_terminator c) (take k ?segment)) [1..<length ?segment]
      = Some (length pre)"
    by (intro find_upt) (use assms in \<open>auto simp: collision_suffix_def Suc_le_eq\<close>)
  then show ?thesis by (simp add: collision_prefix_def)
qed

lemma numbered_name_alias:
  assumes base: "base = sanitized_server server"
  shows "mightBeCollisionAliasOf (toLowerCase (numbered_name base k)) (toLowerCase base)"
proof -
  define m where "m = max 1 (TOOL_NAME_MAX_PREFIX - length (''-'' @ show_nat k))"
  let ?pre = "toLowerCase (take m base)" and ?ds = "show_nat k"
  have "map lower_char ?ds = ?ds" using show_nat_digits [of k] char_facts(3) by (intro map_idI) (auto simp: list_all_iff)
  moreover have "lower_char (CHR ''-'') = CHR ''-''" by code_simp
  ultimately have segment: "toLowerCase (numbered_name base k) = ?pre @ CHR ''-'' # ?ds"
    by (simp add: numbered_name_def Let_def m_def toLowerCase_def)
  have "list_all tool_name_safe base" unfolding base sanitized_alone by (rule fragment_safe)
  then have "list_all (\<lambda>c. \<not> line_terminator c) ?pre"
    using char_facts(2) by (auto simp: list_all_iff toLowerCase_def dest: in_set_takeD)
  moreover have "base \<noteq> []" using fragment_starts [of server] unfolding base sanitized_alone by auto
  then have "?pre \<noteq> []" by (simp add: toLowerCase_def m_def)
  ultimately have pre: "collision_prefix (toLowerCase (numbered_name base k)) = Some ?pre"
    unfolding segment using show_nat_digits [of k] by (intro number_is_the_suffix) simp_all
  have "startsWith (toLowerCase base) ?pre"
    unfolding startsWith_iff by (metis append_take_drop_id toLowerCase_append)
  moreover have "min (length base) (TOOL_NAME_PREFIX_BUDGET - (length (toLowerCase (numbered_name base k)) - length ?pre)) \<le> length ?pre"
    unfolding segment by (simp add: m_def TOOL_NAME_MAX_PREFIX_def TOOL_NAME_PREFIX_BUDGET_def)
  ultimately show ?thesis unfolding mightBeCollisionAliasOf_def pre by simp
qed

text \<open>A delimiter that a namespace ends at is one of the positions the scan visits.\<close>

lemma delimiter_visited:
  assumes "\<not> startsWith (ns @ ''__'' @ t) ''__''"
  shows "length ns \<in> set (delimiters (ns @ ''__'' @ t))"
proof -
  let ?body = "ns @ ''__'' @ t"
  have "\<forall>k \<in> set (filter (\<lambda>k. startsWith (drop k ?body) ''__'') [0..<length ?body]). 0 < k"
    using assms by (auto intro: Suc_leI gr0I)
  then have "delimiters ?body = filter (\<lambda>k. startsWith (drop k ?body) ''__'') [0..<length ?body]"
    unfolding delimiters_def by (rule takeWhile_eq_all_conv [THEN iffD2])
  moreover have "startsWith (drop (length ns) ?body) ''__''" by (simp add: startsWith_def)
  moreover have "length ns \<in> set [0..<length ?body]" by simp
  ultimately show ?thesis by (simp only: set_filter mem_Collect_eq)
qed

text \<open>A denial that is a tool name inside a numbered namespace of the server reaches it.\<close>

lemma numbered_denial_reaches:
  assumes "toLowerCase (trim entry) = toLowerCase (numbered_name (sanitized_server server) k) @ ''__'' @ t"
  shows "denialReachesMcpServer entry server bare"
proof -
  let ?base = "sanitized_server server" let ?ns = "toLowerCase (numbered_name ?base k)"
  let ?body = "?ns @ ''__'' @ t"
  obtain c cs where c: "?base = c # cs" "is_upper c \<or> is_lower c" using fragment_starts [of server] unfolding sanitized_alone by auto
  then have "\<exists>rest. ?ns = lower_char c # rest"
    by (cases "max 1 (TOOL_NAME_MAX_PREFIX - length (''-'' @ show_nat k))") (auto simp: numbered_name_def Let_def toLowerCase_def)
  with char_facts(1) c(2) have "\<not> startsWith ?body ''__''" by (auto simp: startsWith_def)
  then have "length ?ns \<in> set (delimiters ?body)" by (rule delimiter_visited)
  moreover have "mightBeCollisionAliasOf (take (length ?ns) ?body) (toLowerCase ?base)" using numbered_name_alias [OF refl] by simp
  moreover have "toLowerCase ?base \<in> set (mcpServerNamespaces server)"
    using c(1) by (simp add: mcpServerNamespaces_def Let_def toLowerCase_def)
  ultimately have "list_ex (\<lambda>k. list_ex (mightBeCollisionAliasOf (take k ?body)) (mcpServerNamespaces server)) (delimiters ?body)"
    unfolding list_ex_iff by blast
  then have "denialOpensWithMcpServer ?body (mcpServerNamespaces server)"
    unfolding denialOpensWithMcpServer_def Let_def by simp
  moreover have "?body \<noteq> []" by simp
  ultimately show ?thesis unfolding denialReachesMcpServer_def Let_def assms by (simp only: if_False if_True) simp
qed

end
