(* ===== verification/Launch_Properties.thy ===== *)
theory Launch_Properties
  imports Collision_Names Gate_Properties
begin

text \<open>
  What the launch-time ceiling promises of a runtime no call of which is judged: a hosted tool that is admitted
  passes the gate on every step, and no rule of the run selects a tool of a server that is handed over.
\<close>

section \<open>Lists of globs, entry by entry\<close>

lemma allow_only_iff:
  "isToolAllowedByPolicyName n (allow_only gs) \<longleftrightarrow> compileGlobPatterns (expandToolGroups gs) = [] \<or> selector_matches gs (normalizeToolName n)
     \<or> (normalizeToolName n = NName ''apply_patch'' \<and> selector_matches gs (NName ''write''))"
  by (auto simp: isToolAllowedByPolicyName_def makeToolPolicyMatcher_def selector_matches_def Let_def)

lemma compile_Nil_iff: "compileGlobPatterns (expandToolGroups gs) = [] \<longleftrightarrow> (\<forall>g \<in> set gs. compileGlobPatterns (expandToolGroups [g]) = [])"
proof -
  have "set (expandToolGroups gs) = (\<Union>g \<in> set gs. set (expandToolGroups [g]))"
  proof (induction gs)
    case (Cons g gs)
    then show ?case using set_expandToolGroups [of "[g]" gs] by simp
  qed (simp add: expandToolGroups_def normalizeToolList_def)
  then show ?thesis by (auto simp: compileGlobPatterns_def filter_empty_conv)
qed

lemma allow_only_entry:
  assumes "isToolAllowedByPolicyName n (allow_only gs)" "gs \<noteq> []"
  shows "\<exists>g \<in> set gs. isToolAllowedByPolicyName n (allow_only [g])"
proof -
  from assms(1) consider "compileGlobPatterns (expandToolGroups gs) = []" | v where "selector_matches gs v"
    "v = normalizeToolName n \<or> (normalizeToolName n = NName ''apply_patch'' \<and> v = NName ''write'')"
    unfolding allow_only_iff by blast
  then show ?thesis
  proof cases
    case 1
    with assms(2) show ?thesis by (metis allow_only_iff compile_Nil_iff list.set_intros(1) neq_Nil_conv)
  next
    case 2
    then obtain g where "g \<in> set gs" "selector_matches [g] v" using selector_matches_any by blast
    with 2(2) show ?thesis unfolding allow_only_iff by blast
  qed
qed

lemma selectorMatches_governance: "selectorMatches value globs = matchesSelector value globs"
  by (simp add: selectorMatches_def matchesSelector_def has_entries_def)

lemma star_matches: "isToolAllowedByPolicyName n (allow_only [''*''])"
proof -
  have "compileGlobPatterns (expandToolGroups [''*'']) = [GlobAll]" by code_simp
  then show ?thesis by (simp add: allow_only_iff selector_matches_def matchesAnyGlobPattern_def)
qed

section \<open>A hosted tool that is admitted passes the gate\<close>

lemma blocking_in_ceiling:
  assumes "p \<in> set (run_policies run)" "is_blocking p" "applies (run_plan run) node c p" "node \<in> set (nodes (run_plan run))"
  shows "p \<in> set (mc_blocking (resolveMcpCeiling run))" "selectorMatches (nodeId node) (pol_nodes p)"
proof -
  from assms(3) have "matchesSelector (treeId (run_plan run)) (pol_trees p)" "matchesSelector (nodeId node) (pol_nodes p)"
    by (auto simp: policyAppliesToToolCall_def Let_def split: if_splits)
  with assms show "p \<in> set (mc_blocking (resolveMcpCeiling run))" "selectorMatches (nodeId node) (pol_nodes p)"
    by (auto simp: resolveMcpCeiling_def Let_def policyTargetsTree_def selectorMatches_governance list_ex_iff)
qed

lemma effective_subset: "set (effectiveActionsOnPath [node]) \<subseteq> set (opt_list (actions (ontology node)))"
proof -
  have "snd ` set (fold (\<lambda>a m. AList.update (act_id a) a m) xs m) \<subseteq> snd ` set m \<union> set xs" for xs :: "OntologyAction list" and m
  proof (induction xs arbitrary: m)
    case (Cons x xs)
    have "snd ` set (AList.update (act_id x) x m) \<subseteq> insert x (snd ` set m)"
      by (induction m) auto
    with Cons [of "AList.update (act_id x) x m"] show ?case by auto
  qed simp
  from this [of "opt_list (actions (ontology node))" "[]"] show ?thesis by (auto simp: effectiveActionsOnPath_def)
qed

lemma plain_call: "tc_mcpTool c = None \<Longrightarrow> call_owner c = None" "tc_mcpTool c = None \<Longrightarrow> call_attached plan node c = False"
  "tc_mcpTool c = None \<Longrightarrow> the_call c = \<lparr> identities = [tc_toolName c], namespaces = [], toolParts = [] \<rparr>"
  by (simp_all add: gate_defs mcpServerOwningTool_def call_identity_def)

lemma plain_cover: "tc_mcpTool c = None \<Longrightarrow> selectorsCoverCall gs (the_call c) = matchesSelector (tc_toolName c) (Some gs)"
  by (simp add: plain_call selectorsCoverCall_def)

lemma applying_policy_reaches:
  assumes "applies plan node c p" "tc_mcpTool c = None" "\<not> tc_carriesAction c" "node \<in> set ns"
    "selectorMatches (nodeId node) (pol_nodes p)"
  shows "policyReachesTool p (tc_toolName c) ns"
proof (cases "has_entries (pol_actions p)")
  case False
  with assms(1,2) show ?thesis
    by (auto simp: policyAppliesToToolCall_def Let_def plain_cover policyReachesTool_def has_entries_def selectorMatches_governance
        matchesSelector_def split: if_splits)
next
  case True
  with assms(1-3) obtain action where a: "action \<in> set (effectiveActionsOnPath [node])" "matchesSelector (act_id action) (pol_actions p)"
    "case act_tools action of None \<Rightarrow> True | Some tools \<Rightarrow> tools \<noteq> [] \<and> matchesSelector (tc_toolName c) (Some tools)"
    by (auto simp: policyAppliesToToolCall_def Let_def actionSelectorMatches_def actionsCoveringTool_def plain_cover list_ex_iff
        split: if_splits option.splits)
  have "\<exists>g \<in> set (action_tools action). selectorMatches (tc_toolName c) (Some [g])"
  proof (cases "act_tools action")
    case None
    then show ?thesis by (simp add: action_tools_def selectorMatches_def star_matches)
  next
    case (Some tools)
    with a(3) have "tools \<noteq> []" "isToolAllowedByPolicyName (tc_toolName c) (allow_only tools)"
      by (auto simp: matchesSelector_def has_entries_def)
    then show ?thesis using allow_only_entry Some by (fastforce simp: action_tools_def selectorMatches_def)
  qed
  moreover have "opt_list (pol_knowledge p) = []" "opt_list (pol_tools p) = [] \<or> selectorMatches (tc_toolName c) (Some (opt_list (pol_tools p)))"
    using assms(1,2) by (auto simp: policyAppliesToToolCall_def Let_def has_entries_def plain_cover selectorMatches_governance split: if_splits)
  moreover have "action \<in> set (opt_list (actions (ontology node)))" using a(1) effective_subset by blast
  moreover have "selectorMatches (act_id action) (Some (opt_list (pol_actions p)))"
    using a(2) by (simp add: selectorMatches_governance matchesSelector_def has_entries_def)
  ultimately show ?thesis using True assms(4,5)
    by (auto simp: policyReachesTool_def Let_def has_entries_def list_ex_iff intro!: bexI [of _ node] bexI [of _ action])
qed

lemma deny_lists_append:
  "node \<in> set ns \<Longrightarrow> \<not> isToolAllowedByPolicyName n (deny_only (opt_list (deniedTools (ontology node)))) \<Longrightarrow>
   \<not> isToolAllowedByPolicyName n (deny_only (concat (map (\<lambda>node. opt_list (deniedTools (ontology node))) ns)))"
  by (induction ns) (auto simp: deny_only_iff)

lemma admitted_no_violation:
  assumes "enterpriseRunAdmitsHostedTool st i tool" "run_of st i = Some run" "plan_mode (run_plan run) = ModeEnforce"
    "node \<in> set (nodes (run_plan run))" "tc_toolName c = tool" "tc_mcpTool c = None"
  shows "the_violation (run_plan run) node c = None"
proof -
  let ?ns = "nodes (run_plan run)"
  from assms(1-3) have denied: "concat (map (\<lambda>node. opt_list (deniedTools (ontology node))) ?ns) \<noteq> [] \<longrightarrow>
      isToolAllowedByPolicyName tool (deny_only (concat (map (\<lambda>node. opt_list (deniedTools (ontology node))) ?ns)))"
    and admits: "nodeAdmitsTool node tool (capabilityGrants (run_plan run) = Some GrantsExplicit)"
    using assms(4) by (auto simp: enterpriseRunAdmitsHostedTool_def Let_def list_all_iff split: if_splits)
  have "\<not> node_denies tool False None (the_call c) node"
  proof
    assume d: "node_denies tool False None (the_call c) node"
    then have "\<not> isToolAllowedByPolicyName tool (deny_only (opt_list (deniedTools (ontology node))))" "opt_list (deniedTools (ontology node)) \<noteq> []"
      by (auto simp: node_denies_def Let_def)
    with denied deny_lists_append [OF assms(4)] assms(4) show False by (auto simp: concat_eq_Nil_conv)
  qed
  with admits assms(5,6) show ?thesis
    by (auto simp: the_violation_def ontologyScopeViolation_def plain_call nodeAdmitsTool_def Let_def has_entries_def allows_tool_def
        split: if_splits)
qed

text \<open>
  The outward actions of a step that claim a tool, and a call of which none of them accepts the arguments.
\<close>

definition claiming_actions :: "EnterprisePlanNode \<Rightarrow> ToolCall \<Rightarrow> OntologyAction list" where
  "claiming_actions node c = map fst (filter (\<lambda>(action, tools). selectorsCoverCall tools (the_call c)
     \<or> list_ex (\<lambda>selector. outwardSelectorMatchesName selector (tc_toolName c)) tools) (outwardActionsOnPath [node]))"

definition contract_refuses :: "EnterprisePlanNode \<Rightarrow> ToolCall \<Rightarrow> bool" where
  "contract_refuses node c \<longleftrightarrow> claiming_actions node c \<noteq> []
     \<and> (\<forall>a \<in> set (claiming_actions node c). \<not> contract_met a (callArguments (tc_toolParams c)))"

lemma contract_refuses_iff:
  assumes "tc_mcpTool c = None"
  shows "contract_refuses node c \<longleftrightarrow> (\<exists>d. the_outward plan node c = OutwardDecision d)"
proof -
  have "List.find (\<lambda>a. actionContractViolation a (callArguments (tc_toolParams c)) = None) (claiming_actions node c) = None \<longleftrightarrow>
      (\<forall>a \<in> set (claiming_actions node c). \<not> contract_met a (callArguments (tc_toolParams c)))"
    by (auto simp: find_None_iff contract_iff)
  moreover have "the_outward plan node c = (if claiming_actions node c = [] then OutwardNone
      else case List.find (\<lambda>a. actionContractViolation a (callArguments (tc_toolParams c)) = None) (claiming_actions node c) of
          Some a \<Rightarrow> OutwardAction a
        | None \<Rightarrow> OutwardDecision (hard_denial (case actionContractViolation (hd (claiming_actions node c)) (callArguments (tc_toolParams c)) of
            Some reason \<Rightarrow> reason | None \<Rightarrow> ''tool '' @ quoted (tc_toolName c) @ '' does not satisfy its ontology action'')))"
    unfolding the_outward_def outwardActionDecision_def Let_def claiming_actions_def [symmetric] plain_call(2) [OF assms]
    by (auto simp: claiming_actions_def)
  ultimately show ?thesis by (auto simp: contract_refuses_def split: option.splits)
qed

lemma admitted_hosted_tool:
  assumes "enterpriseRunAdmitsHostedTool st i tool" "run_of st i = Some run" "plan_mode (run_plan run) = ModeEnforce"
    "node \<in> set (nodes (run_plan run))" "tc_toolName c = tool" "tc_mcpTool c = None" "\<not> tc_carriesAction c"
  shows "dec_effect (evaluateToolCallGovernance (run_plan run) node (run_policies run) c) \<in> {EffDeny, EffRequireApproval} \<longleftrightarrow>
    \<not> control_call c \<and> contract_refuses node c"
proof (cases "control_call c")
  case True
  then show ?thesis by (simp add: evaluateToolCallGovernance_def control_call_def default_allow_def)
next
  case False
  let ?plan = "run_plan run"
  note v = admitted_no_violation [OF assms(1-6)]
  define ps where "ps = matching_policies ?plan node (the_call c) c (run_policies run)"
  have lanes: "evaluateToolCallGovernance ?plan node (run_policies run) c =
      outward_lanes ?plan node (run_policies run) c (the_call c) (call_attached ?plan node c) (call_owner c) (the_violation ?plan node c)"
    using False v assms(6) by (auto simp: evaluateToolCallGovernance_def control_call_def gate_defs mcpServerOwningTool_def Let_def)
  have unblocked: "dec_effect (combine_decision None (resolvePolicyDecision ps subject)) \<notin> {EffDeny, EffRequireApproval}" for subject
  proof (cases "resolvePolicyDecision ps subject")
    case (Some d)
    then obtain p where p: "p \<in> set ps" "dec_effect d = pol_effect p" using resolve_Some by blast
    have "\<not> is_blocking p"
    proof
      assume b: "is_blocking p"
      from p(1) have a: "p \<in> set (run_policies run)" "applies ?plan node c p" by (auto simp: ps_def set_matching_policies)
      note bl = blocking_in_ceiling [OF a(1) b a(2) assms(4)]
      from applying_policy_reaches [OF a(2) assms(6,7,4) bl(2)] bl(1) assms(1-3,5) show False
        by (auto simp: enterpriseRunAdmitsHostedTool_def Let_def list_ex_iff split: if_splits)
    qed
    with Some p(2) show ?thesis by (auto simp: combine_decision_def is_blocking_def)
  qed (simp add: combine_decision_def default_allow_def)
  show ?thesis
  proof (cases "the_outward ?plan node c")
    case (OutwardDecision d)
    then have "contract_refuses node c" using contract_refuses_iff [OF assms(6)] by blast
    moreover obtain r where "d = hard_denial r" using outward_decision_denies [OF OutwardDecision] by blast
    ultimately show ?thesis using OutwardDecision False unfolding lanes outward_lanes_def the_outward_def Let_def
      by (simp add: hard_denial_def)
  next
    case (OutwardAction a)
    then have "\<not> contract_refuses node c" using contract_refuses_iff [OF assms(6), of node ?plan] by simp
    with OutwardAction unblocked show ?thesis unfolding lanes outward_lanes_def the_outward_def Let_def v ps_def by simp
  next
    case OutwardNone
    then have "\<not> contract_refuses node c" using contract_refuses_iff [OF assms(6), of node ?plan] by simp
    with OutwardNone unblocked show ?thesis unfolding lanes outward_lanes_def the_outward_def Let_def v ps_def by simp
  qed
qed

section \<open>A server that is admitted cannot be reached by a rule\<close>

text \<open>A name inside a namespace holds a delimiter; no core tool does.\<close>

definition has_delimiter :: "string \<Rightarrow> bool" where
  "has_delimiter s = list_ex (\<lambda>k. startsWith (drop k s) ''__'') [0..<length s]"

lemma has_delimiterI: "has_delimiter (pre @ ''__'' @ t)"
proof -
  have "startsWith (drop (length pre) (pre @ ''__'' @ t)) ''__''" by (simp add: startsWith_def)
  then show ?thesis unfolding has_delimiter_def list_ex_iff by (intro bexI [of _ "length pre"]) auto
qed

lemma groups_hold_no_delimiter:
  "list_all (\<lambda>(g, ids). CHR ''*'' \<notin> set g \<and> list_all (\<lambda>i. case compileGlobPattern (NName i) of GlobExact p \<Rightarrow> \<not> has_delimiter p | _ \<Rightarrow> False) ids) TOOL_GROUPS"
  by code_simp

lemma group_names_no_member:
  assumes "selector_matches [g] (NName (pre @ ''__'' @ t))"
  shows "not_a_group g"
proof (rule ccontr)
  assume "\<not> not_a_group g"
  then obtain ids where ids: "map_of TOOL_GROUPS (name_text (normalizeToolName g)) = Some ids" by (auto simp: not_a_group_def)
  then have ok: "\<forall>i \<in> set ids. case compileGlobPattern (NName i) of GlobExact p \<Rightarrow> \<not> has_delimiter p | _ \<Rightarrow> False"
    using groups_hold_no_delimiter by (force simp: list_all_iff dest: map_of_SomeD)
  have "set (expandToolGroups [g]) \<subseteq> NName ` set ids"
    using ids by (auto simp: expandToolGroups_def normalizeToolList_def split: if_splits)
  with assms obtain i where i: "i \<in> set ids" "matches_pattern (NName (pre @ ''__'' @ t)) (compileGlobPattern (NName i))"
    by (auto simp: selector_matches_iff)
  from ok i(1) obtain p where "compileGlobPattern (NName i) = GlobExact p" "\<not> has_delimiter p"
    by (cases "compileGlobPattern (NName i)") auto
  with i(2) has_delimiterI [of pre t] show False by simp
qed

lemma split_on_single: "CHR ''*'' \<notin> set p \<longleftrightarrow> length (split_on (CHR ''*'') p) = 1"
  by (induction p) (auto split: list.splits)

text \<open>An entry that selects a name inside the prefix is seen to reach it.\<close>

lemma selecting_entry_reaches:
  assumes "selector_matches [g] (NName (pre @ ''__'' @ t))"
  shows "toLowerCase (trim g) \<noteq> []" "globCanMatchPrefix (toLowerCase (trim g)) (pre @ ''__'')"
proof -
  let ?name = "pre @ ''__'' @ t" and ?p = "toLowerCase (trim g)"
  note group = group_names_no_member [OF assms]
  from assms obtain u where u: "normalizeToolName g = NName u" "u \<noteq> []"
    "if u = ''*'' then True else if CHR ''*'' \<in> set u then glob_match u ?name else ?name = u"
    unfolding selector_matches_single [OF group] by (auto split: NormalizedName.splits if_splits)
  have "u = ?p"
  proof (rule ccontr)
    assume "u \<noteq> ?p"
    with u(1) have "map_of TOOL_NAME_ALIASES ?p = Some u"
      by (auto simp: normalizeToolName_def normalizeLowercaseStringOrEmpty_def Let_def split: option.splits)
    then have "u = ''exec'' \<or> u = ''apply_patch''" by (auto simp: TOOL_NAME_ALIASES_def split: if_splits)
    with u(3) have "has_delimiter ''exec'' \<or> has_delimiter ''apply_patch''" using has_delimiterI [of pre t] by auto
    moreover have "\<not> has_delimiter ''exec''" "\<not> has_delimiter ''apply_patch''" by code_simp+
    ultimately show False by simp
  qed
  then show "?p \<noteq> []" using u(2) by simp
  show "globCanMatchPrefix ?p (pre @ ''__'')"
  proof (cases "CHR ''*'' \<in> set ?p")
    case False
    then have "u \<noteq> ''*''" "CHR ''*'' \<notin> set u" using \<open>u = ?p\<close> by auto
    with u(3) \<open>u = ?p\<close> have "?p = (pre @ ''__'') @ t" by auto
    with False show ?thesis unfolding globCanMatchPrefix_def Let_def split_on_single [symmetric]
      by (metis startsWith_append)
  next
    case True
    have "startsWith ?name (glob_head ?p)"
    proof (cases "?p = ''*''")
      case True
      then show ?thesis by (simp add: glob_head_def startsWith_def)
    next
      case False
      with u(3) \<open>u = ?p\<close> True have "glob_match ?p ?name" by simp
      then show ?thesis using glob_head_prefix True by blast
    qed
    moreover have "startsWith ?name (pre @ ''__'')" by (metis append.assoc startsWith_append)
    ultimately have "startsWith (pre @ ''__'') (glob_head ?p) \<or> startsWith (glob_head ?p) (pre @ ''__'')"
      using prefixes_comparable by blast
    with True show ?thesis unfolding globCanMatchPrefix_def Let_def split_on_single [symmetric] glob_head_def by auto
  qed
qed

text \<open>The names of a server's tools: a spelling of the server, the delimiter, and any rest.\<close>

lemma hook_namespaces_mono: "set xs \<subseteq> set ys \<Longrightarrow> set (codexHookNamespaces xs) \<subseteq> set (codexHookNamespaces ys)"
  by (auto simp: codexHookNamespaces_def)

lemma callable_spelling:
  assumes "ns \<in> set (callableMcpNamespaces server)"
  obtains m where "m \<in> set (mcpServerNamespaces server)" "ns = m \<or> ns = ''mcp__'' @ m"
proof -
  from assms obtain m where m: "m \<in> toLowerCase ` {codexNamespace server, sanitized_server server}
      \<union> set (codexHookNamespaces [codexNamespace server, sanitized_server server])" "m \<noteq> []" "ns = m \<or> ns = ''mcp__'' @ m"
    by (auto simp: callableMcpNamespaces_def Let_def split: if_splits)
  moreover have "set (codexHookNamespaces [codexNamespace server, sanitized_server server])
      \<subseteq> set (codexHookNamespaces [server, codexNamespace server, sanitized_server server])"
    by (rule hook_namespaces_mono) auto
  ultimately have "m \<in> set (mcpServerNamespaces server)" by (auto simp: mcpServerNamespaces_def Let_def)
  with m(3) that show thesis by blast
qed

definition names_tool_of :: "string \<Rightarrow> string \<Rightarrow> bool" where
  "names_tool_of server n \<longleftrightarrow> (\<exists>ns t. ns \<in> set (callableMcpNamespaces server) \<and> normalizeToolName n = NName (ns @ ''__'' @ t)
     \<and> list_all (\<lambda>c. \<not> line_terminator c) (ns @ ''__'' @ t))"

lemma selecting_denial_reaches:
  assumes "names_tool_of server n" "selector_matches [entry] (normalizeToolName n)"
  shows "denialReachesMcpServer entry server bare" "not_a_group entry"
proof -
  from assms(1) obtain ns t where ns: "ns \<in> set (callableMcpNamespaces server)" "normalizeToolName n = NName (ns @ ''__'' @ t)"
    by (auto simp: names_tool_of_def)
  obtain m where m: "m \<in> set (mcpServerNamespaces server)" "ns = m \<or> ns = ''mcp__'' @ m" using callable_spelling [OF ns(1)] .
  note sel = assms(2) [unfolded ns(2)]
  from selecting_entry_reaches [OF sel] m show "denialReachesMcpServer entry server bare"
    by (auto simp: denialReachesMcpServer_def Let_def list_ex_iff)
  show "not_a_group entry" using group_names_no_member [OF sel] .
qed

lemma covering_entry_selects:
  assumes "toLowerCase (trim entry) \<noteq> []" "globCoversEverythingUnder (toLowerCase (trim entry)) (ns @ ''__'')"
    "normalizeToolName n = NName (ns @ ''__'' @ t)" "list_all (\<lambda>c. \<not> line_terminator c) (ns @ ''__'' @ t)"
  shows "selector_matches [entry] (normalizeToolName n)"
proof -
  let ?p = "toLowerCase (trim entry)"
  have star: "CHR ''*'' \<in> set ?p"
    using assms(2) by (auto simp: globCoversEverythingUnder_def endsWith_iff split: if_splits)
  note norm = glob_not_alias [OF star]
  have "map_of TOOL_GROUPS ?p = None"
  proof (cases "map_of TOOL_GROUPS ?p")
    case (Some ids)
    then have "(?p, ids) \<in> set TOOL_GROUPS" by (rule map_of_SomeD)
    with groups_hold_no_delimiter star show ?thesis by (auto simp: list_all_iff)
  qed
  then have "not_a_group entry" by (simp add: not_a_group_def norm)
  moreover have "glob_match ?p (ns @ ''__'' @ t)" if nt: "?p \<noteq> ''*''"
  proof -
    obtain lit where lit: "?p = lit @ ''*''" "CHR ''*'' \<notin> set lit" "startsWith (ns @ ''__'') lit"
      using assms(2) nt by (auto simp: globCoversEverythingUnder_def endsWith_iff split: if_splits)
    then obtain u where u: "ns @ ''__'' = lit @ u" by (auto simp: startsWith_iff)
    then have whole: "ns @ ''__'' @ t = lit @ (u @ t)" by (metis append.assoc)
    with assms(4) have "list_all (\<lambda>c. \<not> line_terminator c) (u @ t)" by (metis list_all_append)
    then show ?thesis unfolding lit(1) whole glob_match_append_literal [OF lit(2)] by (auto simp: glob_match_star)
  qed
  ultimately show ?thesis using assms(1) star by (auto simp: selector_matches_single norm assms(3))
qed

lemma granted_names_allowed:
  assumes "allowListGrantsWholeMcpServer allowed server siblings" "names_tool_of server n"
  shows "isToolAllowedByPolicyName n (allow_only allowed)"
proof (cases "list_ex (\<lambda>entry. trim entry = ''*'') allowed")
  case True
  then obtain e where e: "e \<in> set allowed" "trim e = ''*''" by (auto simp: list_ex_iff)
  have "selector_matches [e] v" for v
  proof -
    have "normalizeToolName e = NName ''*''" using e(2) by (simp add: normalizeToolName_def normalizeLowercaseStringOrEmpty_def) code_simp
    moreover have "map_of TOOL_GROUPS ''*'' = None" by code_simp
    ultimately show ?thesis by (simp add: selector_matches_single not_a_group_def)
  qed
  with e(1) show ?thesis unfolding allow_only_iff using selector_matches_any by blast
next
  case False
  from assms(2) obtain ns t where ns: "ns \<in> set (callableMcpNamespaces server)" "normalizeToolName n = NName (ns @ ''__'' @ t)"
    "list_all (\<lambda>c. \<not> line_terminator c) (ns @ ''__'' @ t)" by (auto simp: names_tool_of_def)
  from assms(1) False ns(1) obtain e where "e \<in> set allowed" "toLowerCase (trim e) \<noteq> []"
    "globCoversEverythingUnder (toLowerCase (trim e)) (ns @ ''__'')"
    by (fastforce simp: allowListGrantsWholeMcpServer_def Let_def list_all_iff list_ex_iff split: if_splits)
  then show ?thesis using covering_entry_selects [OF _ _ ns(2,3)] selector_matches_any unfolding allow_only_iff by blast
qed

text \<open>
  The rules of a run that name a tool call of a step: a denial, or a blocking policy whose selectors all hold of
  the call there. An entry that is blank selects nothing here.
\<close>

definition selects :: "string \<Rightarrow> string \<Rightarrow> bool" where
  "selects entry n \<longleftrightarrow> \<not> isToolAllowedByPolicyName n (deny_only [entry])"

definition policy_names :: "GovernancePolicy \<Rightarrow> EnterprisePlanNode \<Rightarrow> string \<Rightarrow> bool" where
  "policy_names p node n \<longleftrightarrow> matchesSelector (nodeId node) (pol_nodes p) \<and> opt_list (pol_knowledge p) = []
     \<and> (opt_list (pol_tools p) \<noteq> [] \<or> opt_list (pol_actions p) \<noteq> [])
     \<and> (opt_list (pol_tools p) = [] \<or> (\<exists>entry \<in> set (opt_list (pol_tools p)). selects entry n))
     \<and> (opt_list (pol_actions p) = [] \<or> (\<exists>action \<in> set (opt_list (actions (ontology node))).
          matchesSelector (act_id action) (pol_actions p) \<and> (\<exists>entry \<in> set (action_tools action). selects entry n)))"

lemma selects_reaches:
  assumes "names_tool_of server n" "selects entry n"
  shows "denialReachesMcpServer entry server bare" "not_a_group entry"
  using selecting_denial_reaches [OF assms(1)] assms(2) by (auto simp: selects_def deny_only_iff)

lemma policy_names_reaches:
  assumes "names_tool_of server n" "policy_names p node n" "node \<in> set ns"
  shows "policyReachesMcpServer p server ns"
proof (cases "opt_list (pol_actions p) = []")
  case True
  with assms(2) selects_reaches(1) [OF assms(1)] show ?thesis
    by (auto simp: policyReachesMcpServer_def policy_names_def Let_def list_ex_iff)
next
  case False
  with assms(2) obtain action e where a: "action \<in> set (opt_list (actions (ontology node)))"
    "matchesSelector (act_id action) (pol_actions p)" "e \<in> set (action_tools action)" "selects e n"
    by (auto simp: policy_names_def)
  have "opt_list (pol_tools p) = [] \<or> (\<exists>entry \<in> set (opt_list (pol_tools p)). denialReachesMcpServer entry server False
      \<and> patternsCanShareACall entry e)"
  proof (cases "opt_list (pol_tools p) = []")
    case False
    with assms(2) obtain entry where t: "entry \<in> set (opt_list (pol_tools p))" "selects entry n" by (auto simp: policy_names_def)
    have "patternsCanShareACall entry e"
      using share_sound [OF selects_reaches(2) [OF assms(1) t(2)] selects_reaches(2) [OF assms(1) a(4)], of "normalizeToolName n"] t(2) a(4)
      by (simp add: selects_def deny_only_iff)
    with t selects_reaches(1) [OF assms(1)] show ?thesis by blast
  qed simp
  moreover have "selectorMatches (act_id action) (Some (opt_list (pol_actions p)))"
    using a(2) by (simp add: selectorMatches_governance matchesSelector_def has_entries_def)
  ultimately show ?thesis
    using False assms(2,3) a selects_reaches(1) [OF assms(1) a(4), of False]
    by (auto simp: policyReachesMcpServer_def policy_names_def selectorMatches_governance Let_def list_ex_iff
        intro!: bexI [of _ node] bexI [of _ action])
qed

lemma admitted_server_unreached:
  assumes "ceilingAdmitsMcpServer (resolveMcpCeiling run) server siblings requireGrant" "names_tool_of server n"
    "node \<in> set (nodes (run_plan run))"
  shows "\<forall>entry \<in> set (opt_list (mcpDeniedTools (run_plan run))). \<not> selects entry n"
    "\<forall>p \<in> set (run_policies run). is_blocking p \<and> policyTargetsTree p (treeId (run_plan run)) \<longrightarrow> \<not> policy_names p node n"
    "if opt_list (allowedTools (ontology node)) = [] then \<not> requireGrant
     else isToolAllowedByPolicyName n (allow_only (opt_list (allowedTools (ontology node))))"
proof -
  let ?c = "resolveMcpCeiling run"
  from assms(1) have d: "\<forall>entry \<in> set (mc_denied ?c). \<not> denialReachesMcpServer entry server True"
    and b: "\<forall>p \<in> set (mc_blocking ?c). \<not> policyReachesMcpServer p server (mc_nodes ?c)"
    by (auto simp: ceilingAdmitsMcpServer_def list_ex_iff split: if_splits)
  from d selects_reaches(1) [OF assms(2)] show "\<forall>entry \<in> set (opt_list (mcpDeniedTools (run_plan run))). \<not> selects entry n"
    by (auto simp: resolveMcpCeiling_def Let_def)
  show "\<forall>p \<in> set (run_policies run). is_blocking p \<and> policyTargetsTree p (treeId (run_plan run)) \<longrightarrow> \<not> policy_names p node n"
  proof (intro ballI impI notI)
    fix p assume p: "p \<in> set (run_policies run)" "is_blocking p \<and> policyTargetsTree p (treeId (run_plan run))" "policy_names p node n"
    then have "p \<in> set (mc_blocking ?c)" using assms(3)
      by (auto simp: resolveMcpCeiling_def Let_def list_ex_iff policy_names_def selectorMatches_governance)
    with b show False
      using policy_names_reaches [OF assms(2) p(3) assms(3)] by (auto simp: resolveMcpCeiling_def Let_def)
  qed
  have lists: "if allowed = [] then \<not> requireGrant else allowListGrantsWholeMcpServer allowed server siblings"
    if "allowed \<in> set (mc_nodeAllowLists ?c)" for allowed
    using assms(1) that by (auto simp: ceilingAdmitsMcpServer_def list_all_iff split: if_splits)
  have "opt_list (allowedTools (ontology node)) \<in> set (mc_nodeAllowLists ?c)"
    using assms(3) by (simp add: resolveMcpCeiling_def Let_def)
  from lists [OF this] show "if opt_list (allowedTools (ontology node)) = [] then \<not> requireGrant
     else isToolAllowedByPolicyName n (allow_only (opt_list (allowedTools (ontology node))))"
    using granted_names_allowed [OF _ assms(2)] by (auto split: if_splits)
qed

section \<open>The name of a server\<close>

lemma numbered_name_inject:
  "normalizeLowercaseStringOrEmpty (numbered_name base i) = normalizeLowercaseStringOrEmpty (numbered_name base j) \<longleftrightarrow> i = j"
proof
  have norm: "\<exists>b. normalizeLowercaseStringOrEmpty (numbered_name base k) = b @ ''-'' @ show_nat k" for k
  proof -
    note digits = show_nat_digits [of k]
    define a where "a = take (max 1 (TOOL_NAME_MAX_PREFIX - length (''-'' @ show_nat k))) base"
    have "\<exists>b. dropWhile is_space (a @ ''-'' @ show_nat k) = b @ ''-'' @ show_nat k"
    proof (induction a)
      case Nil
      show ?case by (intro exI [of _ "[]"]) (simp add: is_space_def)
    next
      case (Cons x a)
      show ?case
      proof (cases "is_space x")
        case False
        then show ?thesis by (intro exI [of _ "x # a"]) simp
      qed (use Cons in simp)
    qed
    then obtain b where b: "dropWhile is_space (a @ ''-'' @ show_nat k) = b @ ''-'' @ show_nat k" by blast
    have digit: "is_digit (last (show_nat k))" using digits by (auto simp: list_all_iff)
    have "\<not> is_space (last (show_nat k))" using digit by (auto simp: is_digit_def is_space_def less_eq_char_def)
    then have "dropWhile is_space (rev (b @ ''-'' @ show_nat k)) = rev (b @ ''-'' @ show_nat k)"
      using digits by (cases "rev (show_nat k)") (auto simp: last_conv_nth hd_rev [symmetric])
    then have "trim (numbered_name base k) = b @ ''-'' @ show_nat k"
      unfolding trim_def numbered_name_def Let_def a_def [symmetric] b by (metis rev_rev_ident)
    moreover have "map lower_char (show_nat k) = show_nat k"
      using digits by (intro map_idI) (auto simp: list_all_iff is_digit_def lower_char_def is_upper_def less_eq_char_def dest!: bspec)
    moreover have "lower_char (CHR ''-'') = CHR ''-''" by code_simp
    ultimately show ?thesis by (simp add: normalizeLowercaseStringOrEmpty_def toLowerCase_def)
  qed
  have tail: "takeWhile (\<lambda>c. c \<noteq> CHR ''-'') (rev (b @ ''-'' @ show_nat k)) = rev (show_nat k)" for b k
  proof -
    have "c \<noteq> CHR ''-''" if "c \<in> set (show_nat k)" for c
      using show_nat_digits [of k] that by (auto simp: list_all_iff is_digit_def less_eq_char_def dest!: bspec)
    then have "takeWhile (\<lambda>c. c \<noteq> CHR ''-'') (rev (show_nat k) @ CHR ''-'' # rev b)
        = rev (show_nat k) @ takeWhile (\<lambda>c. c \<noteq> CHR ''-'') (CHR ''-'' # rev b)"
      by (intro takeWhile_append2) auto
    then show ?thesis by simp
  qed
  assume "normalizeLowercaseStringOrEmpty (numbered_name base i) = normalizeLowercaseStringOrEmpty (numbered_name base j)"
  then show "i = j" using norm [of i] norm [of j] tail by (metis rev_is_rev_conv show_nat_inject)
qed simp

text \<open>The fuel is enough: a name that is still taken means that more candidates were taken than there are names.\<close>

lemma taken_candidates:
  "0 < fuel \<Longrightarrow> normalizeLowercaseStringOrEmpty (free_name fuel used base candidate n) \<in> set used \<Longrightarrow>
   k \<in> {n..<n + fuel} \<Longrightarrow> normalizeLowercaseStringOrEmpty (numbered_name base k) \<in> set used"
proof (induction fuel arbitrary: candidate n)
  case (Suc fuel)
  then have f: "normalizeLowercaseStringOrEmpty (free_name fuel used base (numbered_name base n) (n + 1)) \<in> set used"
    by (auto split: if_splits)
  show ?case
  proof (cases fuel)
    case 0
    with f Suc.prems(3) show ?thesis by simp
  next
    case (Suc m)
    have "normalizeLowercaseStringOrEmpty (numbered_name base n) \<in> set used" using f Suc by (auto split: if_splits)
    with Suc.IH [OF _ f] Suc Suc.prems(3) show ?thesis by (cases "k = n") auto
  qed
qed simp

lemma sanitized_name_is_free:
  "normalizeLowercaseStringOrEmpty (fst (sanitizeServerName raw used)) \<notin> set used"
proof
  let ?norm = "\<lambda>k. normalizeLowercaseStringOrEmpty (numbered_name (sanitizeToolFragment raw ''mcp'' (Some TOOL_NAME_MAX_PREFIX)) k)"
  assume "normalizeLowercaseStringOrEmpty (fst (sanitizeServerName raw used)) \<in> set used"
  then have "?norm ` {2..<2 + Suc (length used)} \<subseteq> set used"
    unfolding sanitizeServerName_def Let_def fst_conv using taken_candidates [of "Suc (length used)"] by blast
  then have "card (?norm ` {2..<2 + Suc (length used)}) \<le> card (set used)" by (intro card_mono) auto
  moreover have "card (?norm ` {2..<2 + Suc (length used)}) = Suc (length used)"
    by (subst card_image) (auto simp: inj_on_def numbered_name_inject)
  ultimately show False using card_length [of used] by simp
qed

text \<open>
  The name the materializer gives a tool of a server when other servers took the names in \<open>used\<close> before it: an entry
  without a wildcard that selects it is seen, even when the name is numbered.
\<close>

definition materialized_tool :: "string \<Rightarrow> string list \<Rightarrow> string \<Rightarrow> bool" where
  "materialized_tool server used n \<longleftrightarrow>
     (\<exists>t. normalizeToolName n = NName (toLowerCase (fst (sanitizeServerName server used)) @ ''__'' @ t))"

lemma literal_entry:
  assumes "CHR ''*'' \<notin> set entry"
  shows "CHR ''*'' \<notin> set (toLowerCase (trim entry))"
proof -
  have "\<forall>c. lower_char c = CHR ''*'' \<longrightarrow> c = CHR ''*''" by code_simp
  moreover have "set (trim entry) \<subseteq> set entry" by (auto simp: trim_def dest!: set_dropWhileD)
  ultimately show ?thesis using assms by (force simp: toLowerCase_def)
qed

lemma materialized_denial_reaches:
  assumes "materialized_tool server used n" "CHR ''*'' \<notin> set entry" "selects entry n"
  shows "denialReachesMcpServer entry server bare"
proof -
  define ns where "ns = toLowerCase (fst (sanitizeServerName server used))"
  from assms(1,3) obtain t where "selector_matches [entry] (NName (ns @ ''__'' @ t))"
    by (auto simp: materialized_tool_def ns_def selects_def deny_only_iff)
  note reach = selecting_entry_reaches [OF this]
  have single: "length (split_on (CHR ''*'') (toLowerCase (trim entry))) = 1" using literal_entry [OF assms(2)] split_on_single by blast
  with reach(2) have "startsWith (toLowerCase (trim entry)) (ns @ ''__'')" by (simp add: globCanMatchPrefix_def Let_def)
  then obtain t' where entry: "toLowerCase (trim entry) = ns @ ''__'' @ t'" by (auto simp: startsWith_iff)
  from sanitized_cases [of server used] show ?thesis
  proof
    assume "fst (sanitizeServerName server used) = sanitized_server server"
    moreover have "sanitized_server server \<noteq> []" using fragment_starts [of server] unfolding sanitized_alone by auto
    ultimately have "ns \<in> set (mcpServerNamespaces server)" by (simp add: ns_def mcpServerNamespaces_def Let_def toLowerCase_def)
    with reach show ?thesis by (auto simp: denialReachesMcpServer_def Let_def list_ex_iff)
  next
    assume "\<exists>k. fst (sanitizeServerName server used) = numbered_name (sanitized_server server) k"
    with entry show ?thesis using numbered_denial_reaches by (auto simp: ns_def)
  qed
qed

lemma admitted_server_not_denied:
  assumes "ceilingAdmitsMcpServer (resolveMcpCeiling run) server siblings requireGrant" "materialized_tool server used n"
    "entry \<in> set (opt_list (mcpDeniedTools (run_plan run)))" "CHR ''*'' \<notin> set entry"
  shows "\<not> selects entry n"
proof -
  from assms(1,3) have "\<not> denialReachesMcpServer entry server True"
    by (auto simp: ceilingAdmitsMcpServer_def list_ex_iff resolveMcpCeiling_def Let_def split: if_splits)
  then show ?thesis using materialized_denial_reaches [OF assms(2,4)] by blast
qed

section \<open>Properties\<close>

text \<open>
  C34. What is handed over once stays within the rules, but for one thing. A hosted tool runs without the gate ever
  seeing its calls. If the launch check of an enforcing run admits it, then on every planned step, whatever the
  arguments and wherever the cursor goes, the gate would deny such a call or ask about it only when outward actions of
  the step claim the tool and none of them accepts the arguments; neither the scope of a step nor a policy ever stops
  it. The launch check does not look at outward actions, so that one case is a way past the gate, and it does occur
  (\<open>hosted_tool_bypasses_its_contract\<close>).
\<close>

theorem hosted_tools_pass_the_gate:
  assumes "enterpriseRunAdmitsHostedTool st i tool" "run_of st i = Some run" "plan_mode (run_plan run) = ModeEnforce"
    "node \<in> set (nodes (run_plan run))" "tc_toolName c = tool" "tc_mcpTool c = None" "\<not> tc_carriesAction c"
  shows "dec_effect (evaluateToolCallGovernance (run_plan run) node (run_policies run) c) \<in> {EffDeny, EffRequireApproval} \<longleftrightarrow>
    \<not> control_call c \<and> contract_refuses node c"
  by (rule admitted_hosted_tool [OF assms])

definition launch_policies :: "GovernancePolicy list" where
  "launch_policies = [sample_policy ''audit'' EffAudit, (sample_policy ''other'' EffDeny) \<lparr> pol_trees := Some [''other''] \<rparr>]"

definition launch_tree :: WorkflowTreeDefinition where
  "launch_tree = sample_tree \<lparr> tree_root := WorkflowNode ''intake'' ''Intake'' None (Some (empty_binding
     \<lparr> allowedTools := Some [''*''], deniedTools := Some [''exec'', ''other__*''], mcpServers := Some [''other'', ''github''] \<rparr>)) None \<rparr>"

definition launch_request :: RunPlanRequest where
  "launch_request = (sample_request None) \<lparr> rq_tree := launch_tree \<rparr>"

definition launch_plan :: EnterpriseRunPlan where
  "launch_plan = plan_record id tree_id (\<lambda>_ _. 0) launch_request None (flattenPlanNodes (tree_root launch_tree) None)"

definition launch_run :: EnterpriseActiveRun where
  "launch_run = sample_run \<lparr> run_plan := launch_plan, run_policies := launch_policies, run_mcpServers := Some [''github'', ''other''] \<rparr>"

lemma launch_plan_built: "buildEnterpriseRunPlan id tree_id (\<lambda>_ _. 0) launch_request = Inr launch_plan"
  by (simp add: buildEnterpriseRunPlan_def launch_plan_def launch_request_def sample_request_def)

definition launch_node :: EnterprisePlanNode where
  "launch_node = hd (nodes launch_plan)"

definition launch_registry :: Registry where
  "launch_registry = registerEnterpriseActiveRun launch_run empty_registry"

lemma launch_run_of: "run_of launch_registry (Some ''r1'') = Some launch_run"
  by code_simp

text \<open>A run whose only step performs an outward action by a hosted tool; the action requires an argument.\<close>

definition outward_run :: EnterpriseActiveRun where
  "outward_run = launch_run \<lparr> run_plan := launch_plan \<lparr> nodes := map (\<lambda>node. node \<lparr> ontology := (ontology node)
     \<lparr> actions := Some [sample_action \<lparr> act_effects := Some [CallEffect \<lparr> ce_tool = ''web_search'', ce_description = None \<rparr>] \<rparr>] \<rparr> \<rparr>)
     (nodes launch_plan) \<rparr> \<rparr>"

definition outward_registry :: Registry where
  "outward_registry = registerEnterpriseActiveRun outward_run empty_registry"

lemma hosted_tool_bypasses_its_contract:
  "enterpriseRunAdmitsHostedTool outward_registry (Some ''r1'') ''web_search''
   \<and> dec_effect (evaluateToolCallGovernance (run_plan outward_run) (hd (nodes (run_plan outward_run))) launch_policies
       (sample_call ''web_search'')) = EffDeny"
  by code_simp

theorem hosted_tools_pass_the_gate_witness:
  "dec_effect (evaluateToolCallGovernance (run_plan launch_run) launch_node launch_policies (sample_call ''web_search''))
     \<notin> {EffDeny, EffRequireApproval}"
proof -
  have admitted: "enterpriseRunAdmitsHostedTool launch_registry (Some ''r1'') ''web_search''" by code_simp
  have "plan_mode (run_plan launch_run) = ModeEnforce" "launch_node \<in> set (nodes (run_plan launch_run))"
    "tc_toolName (sample_call ''web_search'') = ''web_search''" "tc_mcpTool (sample_call ''web_search'') = None"
    "\<not> tc_carriesAction (sample_call ''web_search'')"
    by code_simp+
  moreover have "\<not> contract_refuses launch_node (sample_call ''web_search'')" by code_simp
  ultimately have "dec_effect (evaluateToolCallGovernance (run_plan launch_run) launch_node (run_policies launch_run) (sample_call ''web_search''))
     \<notin> {EffDeny, EffRequireApproval}"
    using hosted_tools_pass_the_gate [OF admitted launch_run_of] by blast
  then show ?thesis by (simp add: launch_run_def)
qed

lemma attached_server:
  assumes "enterpriseRunAttachedMcpServers st i peers eligible = Some servers" "server \<in> set servers" "run_of st i = Some run"
  shows "plan_mode (run_plan run) = ModeEnforce" "server \<in> set (opt_list (run_mcpServers run))"
    "server \<in> set (opt_list (mcpAttachments (run_plan run)))"
    "\<And>node. node \<in> set (nodes (run_plan run)) \<Longrightarrow> server \<in> set (opt_list (mcpServers (ontology node)))"
    "\<exists>siblings. ceilingAdmitsMcpServer (resolveMcpCeiling run) server siblings False"
  using assms by (auto simp: enterpriseRunAttachedMcpServers_def Let_def list_all_iff split: if_splits)

lemma planned_denials:
  assumes "buildEnterpriseRunPlan redact hashTree collate request = Inr plan" "node \<in> set (nodes plan)"
    "entry \<in> set (opt_list (deniedTools (ontology node)))"
  shows "entry \<in> set (opt_list (mcpDeniedTools plan))"
proof -
  from assms(1) obtain routeNodeIds planned where "plan = plan_record redact hashTree collate request routeNodeIds planned"
    by (auto simp: buildEnterpriseRunPlan_def Let_def split: if_splits)
  moreover from this assms(2,3) have "entry \<in> set (sort (plan_union deniedTools planned))"
    by (auto simp: plan_record_def Let_def plan_union_def)
  moreover from this have "sort (plan_union deniedTools planned) \<noteq> []" by (metis empty_iff empty_set)
  ultimately show ?thesis by (simp add: plan_record_def Let_def)
qed

text \<open>
  Two attached servers that sanitize alike: the second is numbered, and a denial of its numbered namespace by a
  wildcard is not recognised. Which server takes the number depends on the order of the materialized set.
\<close>

definition collision_tree :: WorkflowTreeDefinition where
  "collision_tree = sample_tree \<lparr> tree_root := WorkflowNode ''intake'' ''Intake'' None (Some (empty_binding
     \<lparr> deniedTools := Some [''my-server-2*''], mcpServers := Some [''my-server'', ''my server''] \<rparr>)) None \<rparr>"

definition collision_plan :: EnterpriseRunPlan where
  "collision_plan = plan_record id tree_id (\<lambda>_ _. 0) ((sample_request None) \<lparr> rq_tree := collision_tree \<rparr>) None
     (flattenPlanNodes (tree_root collision_tree) None)"

definition collision_registry :: Registry where
  "collision_registry = registerEnterpriseActiveRun (sample_run \<lparr> run_plan := collision_plan,
     run_mcpServers := Some [''my-server'', ''my server''] \<rparr>) empty_registry"

lemma numbered_wildcard_escapes:
  "map_option (\<lambda>servers. ''my server'' \<in> set servers) (enterpriseRunAttachedMcpServers collision_registry (Some ''r1'') [] None) = Some True
   \<and> fst (sanitizeServerName ''my server'' (snd (sanitizeServerName ''my-server'' []))) = ''my-server-2''
   \<and> selects ''my-server-2*'' ''my-server-2__delete''"
  by (intro conjI) code_simp+

text \<open>
  C35. An MCP server is handed to a native runtime only when no rule of the run names one of its tools, as far as the
  rules can be read against its spellings. For a run on a plan that was built from a work-map, wherever its cursor
  stands, such a server is registered and attached by every planned step. Under every spelling of the server without a
  collision mark - the namespaces its name is sanitized to, by the materializer and by Codex, bare or behind \<open>mcp__\<close> - no
  entry of the \<open>deniedTools\<close> of a step selects the name of a tool of it, every step with an allow list admits it, and no
  deny or approval policy that targets the work-map holds of such a call on any step, by its tools or through a
  declared action. Under the name the materializer gives it, numbered or not, whatever names other servers
  took, no entry of \<open>deniedTools\<close> without a wildcard selects it; with a wildcard one can (\<open>numbered_wildcard_escapes\<close>).
  The spellings Codex hashes or truncates are left out.
\<close>

theorem launched_servers_escape_no_rule:
  assumes "enterpriseRunAttachedMcpServers st i peers eligible = Some servers" "server \<in> set servers" "run_of st i = Some run"
    "buildEnterpriseRunPlan redact hashTree collate request = Inr plan" "run_plan run = plan \<lparr> activeNodeId := c \<rparr>"
  shows "server \<in> set (opt_list (run_mcpServers run)) \<and> (\<forall>node \<in> set (nodes (run_plan run)).
      server \<in> set (opt_list (mcpServers (ontology node)))
    \<and> (\<forall>n. names_tool_of server n \<longrightarrow>
         (\<forall>entry \<in> set (opt_list (deniedTools (ontology node))). \<not> selects entry n)
       \<and> (opt_list (allowedTools (ontology node)) \<noteq> [] \<longrightarrow> isToolAllowedByPolicyName n (allow_only (opt_list (allowedTools (ontology node)))))
       \<and> (\<forall>p \<in> set (run_policies run). is_blocking p \<and> policyTargetsTree p (treeId (run_plan run)) \<longrightarrow> \<not> policy_names p node n))
    \<and> (\<forall>used n. materialized_tool server used n \<longrightarrow>
         (\<forall>entry \<in> set (opt_list (deniedTools (ontology node))). CHR ''*'' \<notin> set entry \<longrightarrow> \<not> selects entry n)))"
proof (intro conjI ballI allI impI)
  note a = attached_server [OF assms(1-3)]
  show "server \<in> set (opt_list (run_mcpServers run))" by (rule a(2))
  obtain siblings where adm: "ceilingAdmitsMcpServer (resolveMcpCeiling run) server siblings False" using a(5) by blast
  fix node assume node: "node \<in> set (nodes (run_plan run))"
  show "server \<in> set (opt_list (mcpServers (ontology node)))" by (rule a(4) [OF node])
  show "\<not> selects entry n" if "materialized_tool server used n" "entry \<in> set (opt_list (deniedTools (ontology node)))"
    "CHR ''*'' \<notin> set entry" for used n entry
    using admitted_server_not_denied [OF adm that(1) _ that(3)] planned_denials [OF assms(4) _ that(2)] node assms(5) by simp
  fix n assume n: "names_tool_of server n"
  note u = admitted_server_unreached [OF adm n node]
  show "\<not> selects entry n" if "entry \<in> set (opt_list (deniedTools (ontology node)))" for entry
    using u(1) planned_denials [OF assms(4) _ that] node assms(5) by simp
  show "isToolAllowedByPolicyName n (allow_only (opt_list (allowedTools (ontology node))))" if "opt_list (allowedTools (ontology node)) \<noteq> []"
    using u(3) that by simp
  show "\<not> policy_names p node n" if "p \<in> set (run_policies run)" "is_blocking p \<and> policyTargetsTree p (treeId (run_plan run))" for p
    using u(2) that by blast
qed

lemma launch_attached: "enterpriseRunAttachedMcpServers launch_registry (Some ''r1'') [''other''] None = Some [''github'']"
  by code_simp

lemma launch_name: "names_tool_of ''github'' ''MCP__GitHub__delete''"
  unfolding names_tool_of_def by (intro exI [of _ "''mcp__github''"] exI [of _ "''delete''"]) code_simp

theorem launched_servers_escape_no_rule_witness:
  "isToolAllowedByPolicyName ''MCP__GitHub__delete'' (allow_only (opt_list (allowedTools (ontology launch_node))))
   \<and> \<not> selects ''other__*'' ''MCP__GitHub__delete''"
proof -
  have node: "launch_node \<in> set (nodes (run_plan launch_run))" "opt_list (allowedTools (ontology launch_node)) \<noteq> []"
    "''other__*'' \<in> set (opt_list (deniedTools (ontology launch_node)))" by code_simp+
  have "run_plan launch_run = launch_plan \<lparr> activeNodeId := activeNodeId launch_plan \<rparr>" by (simp add: launch_run_def)
  from launched_servers_escape_no_rule [OF launch_attached _ launch_run_of launch_plan_built this, of "''github''"] node launch_name
  show ?thesis by (fastforce simp: launch_run_def)
qed

end
