(* ===== verification/Knowledge_Runtime.thy ===== *)
theory Knowledge_Runtime
  imports Tree_Registry Run_Steps
begin

text \<open>
  The knowledge foundations of \<^verbatim>\<open>src/enterprise/knowledge.ts\<close>: the two process-local registries, the retrieval a
  step may make and the operator's view of them; with \<^verbatim>\<open>knowledge-bundle-loader.ts\<close> and \<^verbatim>\<open>builtin-knowledge.ts\<close>,
  which fill the bundle registry from the state database, and the reads of
  \<^verbatim>\<open>enterprise-knowledge-store.sqlite.ts\<close> behind them.

  An adapter is a value of the interface of \<^verbatim>\<open>types.ts\<close>: what each of its methods answers, or the message it throws
  with, and an optional method is an option. Calls of an adapter are awaited and anything may happen meanwhile, so
  a retrieval is given, for each foundation it visits, the registries as they then are and whether its signal was
  aborted before and after. Logging is left out.
\<close>

section \<open>Adapters\<close>

datatype KnowledgeDocumentStatus = DocPending | DocProcessing | DocIndexed | DocFailed | DocUnknown

record KnowledgeFoundationDocument =
  doc_id :: string
  doc_name :: string
  doc_status :: KnowledgeDocumentStatus
  doc_summary :: "string option"
  doc_contentLength :: "nat option"
  doc_chunkCount :: "nat option"
  doc_error :: "string option"
  doc_updatedAt :: "string option"

datatype KnowledgeDocumentUploadOutcome =
    UploadAccepted "string option" | UploadDuplicate "string option" | UploadTooLarge "string option" | UploadRejected "string option"

datatype KnowledgeDocumentRemovalOutcome = RemovalStarted | RemovalBusy "string option" | RemovalRefused "string option"

record KnowledgeFoundationConnectionResult =
  cr_ok :: bool
  cr_detail :: "string option"

record KnowledgeFoundationAdapter =
  ad_retrieve :: "string \<Rightarrow> string \<Rightarrow> nat \<Rightarrow> KnowledgeSnippet list result"
  ad_describe :: "KnowledgeFoundationDescriptor result option"
  ad_testConnection :: "KnowledgeFoundationConnectionResult result option"
  ad_listDocuments :: "KnowledgeFoundationDocument list result option"
  ad_uploadDocument :: "(string \<Rightarrow> string \<Rightarrow> KnowledgeDocumentUploadOutcome result) option"
  ad_removeDocument :: "(string \<Rightarrow> KnowledgeDocumentRemovalOutcome result) option"
  ad_snapshot :: "KnowledgeSnippet list result option"

section \<open>The in-memory adapter\<close>

text \<open>\<open>s.split(/\s+/).filter(Boolean)\<close>.\<close>

fun split_words :: "string \<Rightarrow> string \<Rightarrow> string list" where
  "split_words current [] = (if current = [] then [] else [rev current])"
| "split_words current (c # cs) =
     (if is_space c then (if current = [] then split_words [] cs else rev current # split_words [] cs)
      else split_words (c # current) cs)"

definition includes_text :: "string \<Rightarrow> string \<Rightarrow> bool" where
  "includes_text haystack term = list_ex (\<lambda>k. startsWith (drop k haystack) term) [0..<Suc (length haystack)]"

definition overlapScore :: "string \<Rightarrow> string list \<Rightarrow> nat" where
  "overlapScore body terms = (if terms = [] then 0 else length (filter (includes_text (toLowerCase body)) terms))"

definition rankedSnippet :: "KnowledgeSnippet \<Rightarrow> string \<Rightarrow> nat \<Rightarrow> KnowledgeSnippet" where
  "rankedSnippet doc foundationId score = \<lparr> ks_foundationId = foundationId, ks_title = ks_title doc, ks_text = ks_text doc,
     ks_score = Some (JsFin (of_nat score)), ks_source = ks_source doc \<rparr>"

definition in_memory_retrieve :: "(string \<Rightarrow> string \<Rightarrow> int) \<Rightarrow> KnowledgeSnippet list \<Rightarrow> string \<Rightarrow> string \<Rightarrow> nat \<Rightarrow> KnowledgeSnippet list" where
  "in_memory_retrieve collate documents foundationId query limit =
     (let terms = split_words [] (toLowerCase query);
          scored = sort_by (\<lambda>a b. if snd b \<noteq> snd a then int (snd b) - int (snd a) else collate (ks_text (fst a)) (ks_text (fst b)))
            (filter (\<lambda>entry. 0 < snd entry) (map (\<lambda>doc. (doc, overlapScore (ks_text doc) terms)) documents))
      in map (\<lambda>(doc, score). rankedSnippet doc foundationId score) (take limit scored))"

definition InMemoryKnowledgeFoundation ::
  "(string \<Rightarrow> string \<Rightarrow> int) \<Rightarrow> KnowledgeSnippet list \<Rightarrow> KnowledgeFoundationDescriptor option \<Rightarrow> KnowledgeFoundationAdapter" where
  "InMemoryKnowledgeFoundation collate documents descriptor = \<lparr> ad_retrieve = (\<lambda>f q n. Inr (in_memory_retrieve collate documents f q n)),
     ad_describe = map_option Inr descriptor, ad_testConnection = None, ad_listDocuments = None, ad_uploadDocument = None,
     ad_removeDocument = None, ad_snapshot = Some (Inr documents) \<rparr>"

section \<open>The registries\<close>

text \<open>Foundations registered by plugins, by id; those of bundles, by owning tree and id; and the once-guard of the loader.\<close>

record KnowledgeRegistry =
  kr_foundations :: "(string \<times> KnowledgeFoundationAdapter) list"
  kr_bundles :: "(string \<times> (string \<times> KnowledgeFoundationAdapter) list) list"
  kr_loaded :: bool

definition bundle_of :: "string \<Rightarrow> KnowledgeRegistry \<Rightarrow> (string \<times> KnowledgeFoundationAdapter) list" where
  "bundle_of tree r = opt_list (map_of (kr_bundles r) tree)"

definition resolveFoundationAdapter :: "string \<Rightarrow> KnowledgeRegistry \<Rightarrow> KnowledgeFoundationAdapter option" where
  "resolveFoundationAdapter f r = (case map_of (kr_foundations r) f of
     Some plugin \<Rightarrow> Some plugin | None \<Rightarrow> first_some (\<lambda>(tree, perTree). map_of perTree f) (kr_bundles r))"

definition resolveRetrievalAdapter :: "string \<Rightarrow> string \<Rightarrow> KnowledgeRegistry \<Rightarrow> KnowledgeFoundationAdapter option" where
  "resolveRetrievalAdapter tree f r = (case map_of (kr_foundations r) f of
     Some plugin \<Rightarrow> Some plugin | None \<Rightarrow> map_of (bundle_of tree r) f)"

definition retrievalFoundationIds :: "string \<Rightarrow> KnowledgeRegistry \<Rightarrow> string list" where
  "retrievalFoundationIds tree r = sorted_set (map fst (kr_foundations r) @ map fst (bundle_of tree r))"

definition listEnterpriseKnowledgeFoundationIds :: "KnowledgeRegistry \<Rightarrow> string list" where
  "listEnterpriseKnowledgeFoundationIds r =
     sorted_set (map fst (kr_foundations r) @ concat (map (\<lambda>(tree, perTree). map fst perTree) (kr_bundles r)))"

definition registerEnterpriseKnowledgeFoundation :: "string \<Rightarrow> KnowledgeFoundationAdapter \<Rightarrow> KnowledgeRegistry \<Rightarrow> KnowledgeRegistry" where
  "registerEnterpriseKnowledgeFoundation f adapter r = r \<lparr> kr_foundations := AList.update f adapter (kr_foundations r) \<rparr>"

definition registerBundleKnowledgeFoundation :: "string \<Rightarrow> string \<Rightarrow> KnowledgeFoundationAdapter \<Rightarrow> KnowledgeRegistry \<Rightarrow> KnowledgeRegistry" where
  "registerBundleKnowledgeFoundation tree f adapter r =
     r \<lparr> kr_bundles := AList.update tree (AList.update f adapter (bundle_of tree r)) (kr_bundles r) \<rparr>"

definition clearBundleKnowledgeFoundations :: "KnowledgeRegistry \<Rightarrow> KnowledgeRegistry" where
  "clearBundleKnowledgeFoundations r = r \<lparr> kr_bundles := [] \<rparr>"

definition listEnterpriseKnowledgeFoundations :: "KnowledgeRegistry \<Rightarrow> (string \<times> KnowledgeFoundationAdapter) list" where
  "listEnterpriseKnowledgeFoundations r = kr_foundations r"

definition restoreEnterpriseKnowledgeFoundations :: "(string \<times> KnowledgeFoundationAdapter) list \<Rightarrow> KnowledgeRegistry \<Rightarrow> KnowledgeRegistry" where
  "restoreEnterpriseKnowledgeFoundations entries r =
     r \<lparr> kr_foundations := fold (\<lambda>(f, adapter). AList.update f adapter) entries [] \<rparr>"

definition clearEnterpriseKnowledgeFoundations :: "KnowledgeRegistry \<Rightarrow> KnowledgeRegistry" where
  "clearEnterpriseKnowledgeFoundations r = r \<lparr> kr_foundations := [] \<rparr>"

section \<open>The operator's view\<close>

definition describeFoundation :: "string \<Rightarrow> KnowledgeFoundationAdapter option \<Rightarrow> KnowledgeFoundationDescriptor" where
  "describeFoundation f adapter =
     (let fallback = \<lparr> kd_kind = FoundationRemote, kd_displayName = f, kd_detail = None, kd_description = None \<rparr>
      in case adapter of None \<Rightarrow> fallback
         | Some a \<Rightarrow> (case ad_describe a of Some (Inr descriptor) \<Rightarrow> descriptor | _ \<Rightarrow> fallback))"

record EnterpriseKnowledgeFoundationEntry =
  fe_foundationId :: string
  fe_descriptor :: KnowledgeFoundationDescriptor
  fe_ownerTreeIds :: "string list"

definition foundation_entries :: "(string \<times> (string \<times> KnowledgeFoundationAdapter) list) list \<Rightarrow> KnowledgeRegistry \<Rightarrow> string \<Rightarrow>
    EnterpriseKnowledgeFoundationEntry list" where
  "foundation_entries bundleTrees r f = (case map_of (kr_foundations r) f of
     Some plugin \<Rightarrow> [\<lparr> fe_foundationId = f, fe_descriptor = describeFoundation f (Some plugin), fe_ownerTreeIds = [] \<rparr>]
   | None \<Rightarrow> List.map_filter (\<lambda>(tree, perTree). map_option (\<lambda>adapter.
       \<lparr> fe_foundationId = f, fe_descriptor = describeFoundation f (Some adapter), fe_ownerTreeIds = [tree] \<rparr>) (map_of perTree f)) bundleTrees)"

definition listEnterpriseKnowledgeFoundationDescriptors ::
  "(string \<Rightarrow> string \<Rightarrow> int) \<Rightarrow> KnowledgeRegistry \<Rightarrow> EnterpriseKnowledgeFoundationEntry list" where
  "listEnterpriseKnowledgeFoundationDescriptors collate r =
     concat (map (foundation_entries (sort_by (\<lambda>a b. collate (fst a) (fst b)) (kr_bundles r)) r) (listEnterpriseKnowledgeFoundationIds r))"

datatype KnowledgeFoundationConnectionStatus =
    ConnectionNotRegistered | ConnectionUnsupported | ConnectionOk "string option" | ConnectionFailed "string option"

definition testEnterpriseKnowledgeFoundationConnection :: "string \<Rightarrow> KnowledgeRegistry \<Rightarrow> KnowledgeFoundationConnectionStatus" where
  "testEnterpriseKnowledgeFoundationConnection f r = (case resolveFoundationAdapter f r of
     None \<Rightarrow> ConnectionNotRegistered
   | Some adapter \<Rightarrow> (case ad_testConnection adapter of
       None \<Rightarrow> ConnectionUnsupported
     | Some (Inl _) \<Rightarrow> ConnectionFailed (Some ''connection test failed'')
     | Some (Inr outcome) \<Rightarrow> if cr_ok outcome then ConnectionOk (cr_detail outcome) else ConnectionFailed (cr_detail outcome)))"

datatype 'a KnowledgeDocumentsOutcome = DocumentsOk 'a | DocumentsUnsupported | DocumentsReadOnly | DocumentsNotRegistered | DocumentsFailed string

definition withDocumentAdapter :: "string \<Rightarrow> string \<Rightarrow> (KnowledgeFoundationAdapter \<Rightarrow> 'a result option) \<Rightarrow> KnowledgeRegistry \<Rightarrow>
    'a KnowledgeDocumentsOutcome" where
  "withDocumentAdapter f operation run r = (case resolveFoundationAdapter f r of
     None \<Rightarrow> DocumentsNotRegistered
   | Some adapter \<Rightarrow>
       if kd_kind (describeFoundation f (resolveFoundationAdapter f r)) \<noteq> FoundationLocal then DocumentsReadOnly
       else case run adapter of
           None \<Rightarrow> DocumentsUnsupported
         | Some (Inl _) \<Rightarrow> DocumentsFailed (operation @ '' failed'')
         | Some (Inr value) \<Rightarrow> DocumentsOk value)"

definition listEnterpriseKnowledgeDocuments :: "string \<Rightarrow> KnowledgeRegistry \<Rightarrow> KnowledgeFoundationDocument list KnowledgeDocumentsOutcome" where
  "listEnterpriseKnowledgeDocuments f = withDocumentAdapter f ''document list'' ad_listDocuments"

definition uploadEnterpriseKnowledgeDocument :: "string \<Rightarrow> string \<Rightarrow> string \<Rightarrow> KnowledgeRegistry \<Rightarrow>
    KnowledgeDocumentUploadOutcome KnowledgeDocumentsOutcome" where
  "uploadEnterpriseKnowledgeDocument f name content =
     withDocumentAdapter f ''document upload'' (\<lambda>a. map_option (\<lambda>upload. upload name content) (ad_uploadDocument a))"

definition removeEnterpriseKnowledgeDocument :: "string \<Rightarrow> string \<Rightarrow> KnowledgeRegistry \<Rightarrow>
    KnowledgeDocumentRemovalOutcome KnowledgeDocumentsOutcome" where
  "removeEnterpriseKnowledgeDocument f documentId =
     withDocumentAdapter f ''document removal'' (\<lambda>a. map_option (\<lambda>remove. remove documentId) (ad_removeDocument a))"

datatype KnowledgeFoundationSnapshot =
    SnapshotOk KnowledgeFoundationDescriptor "KnowledgeSnippet list" | SnapshotNotRegistered | SnapshotUnsupported | SnapshotFailed string

definition snapshotEnterpriseKnowledgeFoundation :: "string \<Rightarrow> string \<Rightarrow> KnowledgeRegistry \<Rightarrow> KnowledgeFoundationSnapshot" where
  "snapshotEnterpriseKnowledgeFoundation tree f r = (case resolveRetrievalAdapter tree f r of
     None \<Rightarrow> SnapshotNotRegistered
   | Some adapter \<Rightarrow> (case ad_snapshot adapter of
       None \<Rightarrow> SnapshotUnsupported
     | Some (Inl _) \<Rightarrow> SnapshotFailed ''snapshot failed''
     | Some (Inr snippets) \<Rightarrow> SnapshotOk (describeFoundation f (Some adapter)) snippets))"

section \<open>What a run may reach\<close>

definition foundationAllowedByPath :: "EnterprisePlanNode list \<Rightarrow> string \<Rightarrow> bool \<Rightarrow> bool" where
  "foundationAllowedByPath path f grantsExplicitly =
     (let narrowed = list_all (\<lambda>node. let declared = opt_list (knowledgeFoundations (ontology node))
            in declared = [] \<or> f \<in> set declared) path
      in if \<not> narrowed \<or> \<not> grantsExplicitly then narrowed
         else list_ex (\<lambda>node. f \<in> set (opt_list (knowledgeFoundations (ontology node)))) path)"

definition grants_explicitly :: "EnterpriseActiveRun \<Rightarrow> bool" where
  "grants_explicitly run = (capabilityGrants (run_plan run) = Some GrantsExplicit)"

definition routableFoundationIds :: "EnterpriseActiveRun \<Rightarrow> KnowledgeRegistry \<Rightarrow> string list" where
  "routableFoundationIds run r = filter (\<lambda>f. list_ex (\<lambda>node. foundationAllowedByPath [node] f (grants_explicitly run)) (nodes (run_plan run)))
     (retrievalFoundationIds (treeId (run_plan run)) r)"

definition runHasRetrievableKnowledgeFoundations :: "string \<Rightarrow> Registry \<Rightarrow> KnowledgeRegistry \<Rightarrow> bool" where
  "runHasRetrievableKnowledgeFoundations i st r = (case getEnterpriseActiveRun st i of
     None \<Rightarrow> False | Some run \<Rightarrow> routableFoundationIds run r \<noteq> [])"

definition describeWorkflowKnowledgeFoundations :: "string \<Rightarrow> Registry \<Rightarrow> KnowledgeRegistry \<Rightarrow> (string \<times> string option) list" where
  "describeWorkflowKnowledgeFoundations i st r = (case getEnterpriseActiveRun st i of
     None \<Rightarrow> []
   | Some run \<Rightarrow> map (\<lambda>f. (f, kd_description (describeFoundation f (resolveRetrievalAdapter (treeId (run_plan run)) f r))))
       (routableFoundationIds run r))"

section \<open>Retrieval\<close>

record KnowledgeDecision =
  kn_foundationId :: string
  kn_effect :: GovernanceEffect
  kn_enforced :: bool
  kn_policyId :: "string option"
  kn_source :: DecisionSource
  kn_reason :: string

record KnowledgeRetrievalResult =
  rr_snippets :: "KnowledgeSnippet list"
  rr_searched :: "string list"
  rr_skipped :: "(string \<times> string) list"
  rr_mediated :: bool
  rr_decisions :: "(string \<times> KnowledgeDecision) list"

text \<open>
  A retrieval also carries what the sink of its run received, as \<open>rr_decisions\<close>. A moment is the state of the
  process when one foundation's turn comes, and what the signal says before its call and after.
\<close>

record KnowledgeMoment =
  km_registry :: KnowledgeRegistry
  km_abortedBefore :: bool
  km_abortedAfter :: bool

definition DEFAULT_KNOWLEDGE_LIMIT :: nat where
  "DEFAULT_KNOWLEDGE_LIMIT = 5"

record KnowledgeQuery =
  kq_query :: string
  kq_foundations :: "string list option"
  kq_limit :: "int option"

definition query_limit :: "KnowledgeQuery \<Rightarrow> nat" where
  "query_limit q = (case kq_limit q of Some n \<Rightarrow> if 0 < n then nat n else DEFAULT_KNOWLEDGE_LIMIT | None \<Rightarrow> DEFAULT_KNOWLEDGE_LIMIT)"

definition nothing_retrieved :: "bool \<Rightarrow> KnowledgeRetrievalResult" where
  "nothing_retrieved mediated = \<lparr> rr_snippets = [], rr_searched = [], rr_skipped = [], rr_mediated = mediated, rr_decisions = [] \<rparr>"

definition knowledge_decision :: "EnterpriseActiveRun \<Rightarrow> EnterprisePlanNode \<Rightarrow> string \<Rightarrow> GovernanceDecision" where
  "knowledge_decision run node f = evaluateKnowledgeRetrievalGovernance (run_plan run) node f (run_policies run)"

definition knowledge_blocked :: "EnterpriseActiveRun \<Rightarrow> EnterprisePlanNode \<Rightarrow> string \<Rightarrow> bool" where
  "knowledge_blocked run node f \<longleftrightarrow> plan_mode (run_plan run) = ModeEnforce
     \<and> (dec_effect (knowledge_decision run node f) = EffDeny \<or> dec_effect (knowledge_decision run node f) = EffRequireApproval)"

definition recordKnowledgeDecision :: "EnterpriseActiveRun \<Rightarrow> EnterprisePlanNode \<Rightarrow> string \<Rightarrow> KnowledgeRetrievalResult \<Rightarrow> KnowledgeRetrievalResult" where
  "recordKnowledgeDecision run node f acc = (let d = knowledge_decision run node f in
     if run_sink run \<and> (dec_source d \<noteq> SrcDefault \<or> audit (ontology node) = Some True)
     then acc \<lparr> rr_decisions := rr_decisions acc @ [(nodeId node, \<lparr> kn_foundationId = f, kn_effect = dec_effect d,
       kn_enforced = knowledge_blocked run node f, kn_policyId = dec_policyId d, kn_source = dec_source d, kn_reason = dec_reason d \<rparr>)] \<rparr>
     else acc)"

definition skip_foundation :: "string \<Rightarrow> string \<Rightarrow> KnowledgeRetrievalResult \<Rightarrow> KnowledgeRetrievalResult" where
  "skip_foundation f reason acc = acc \<lparr> rr_skipped := rr_skipped acc @ [(f, reason)] \<rparr>"

text \<open>One foundation's turn: the answer so far, and the message thrown when the retrieval ends here.\<close>

definition retrieve_foundation :: "EnterpriseActiveRun \<Rightarrow> EnterprisePlanNode \<Rightarrow> KnowledgeQuery \<Rightarrow> KnowledgeMoment \<Rightarrow> string \<Rightarrow>
    KnowledgeRetrievalResult \<Rightarrow> KnowledgeRetrievalResult \<times> string option" where
  "retrieve_foundation run node q moment f acc =
     (if km_abortedBefore moment then (acc, Some ''aborted'')
      else if \<not> foundationAllowedByPath [node] f (grants_explicitly run)
      then (if kq_foundations q \<noteq> None then skip_foundation f (''not in this step'' @ [CHR 0x27] @ ''s knowledge allow-list'') acc else acc, None)
      else let acc1 = recordKnowledgeDecision run node f acc
           in if knowledge_blocked run node f
              then (skip_foundation f (dec_reason (knowledge_decision run node f)) acc1, None)
              else case resolveRetrievalAdapter (treeId (run_plan run)) f (km_registry moment) of
                  None \<Rightarrow> (skip_foundation f ''knowledge foundation unavailable'' acc1, None)
                | Some adapter \<Rightarrow> (case ad_retrieve adapter f (kq_query q) (query_limit q) of
                    Inl message \<Rightarrow> if km_abortedAfter moment then (acc1, Some message) else (skip_foundation f ''retrieval failed'' acc1, None)
                  | Inr results \<Rightarrow> if km_abortedAfter moment then (acc1, Some ''aborted'')
                      else (acc1 \<lparr> rr_searched := rr_searched acc1 @ [f],
                                  rr_snippets := rr_snippets acc1 @ take (query_limit q) results \<rparr>, None)))"

fun retrieve_foundations :: "EnterpriseActiveRun \<Rightarrow> EnterprisePlanNode \<Rightarrow> KnowledgeQuery \<Rightarrow> (string \<Rightarrow> KnowledgeMoment) \<Rightarrow> string list \<Rightarrow>
    KnowledgeRetrievalResult \<Rightarrow> KnowledgeRetrievalResult \<times> string option" where
  "retrieve_foundations run node q moments [] acc = (acc, None)"
| "retrieve_foundations run node q moments (f # fs) acc = (case retrieve_foundation run node q (moments f) f acc of
     (acc1, Some message) \<Rightarrow> (acc1, Some message)
   | (acc1, None) \<Rightarrow> retrieve_foundations run node q moments fs acc1)"

definition knowledge_candidates :: "EnterpriseActiveRun \<Rightarrow> EnterprisePlanNode \<Rightarrow> KnowledgeQuery \<Rightarrow> KnowledgeRegistry \<Rightarrow> string list" where
  "knowledge_candidates run node q r = sorted_set (case kq_foundations q of
     Some requested \<Rightarrow> requested
   | None \<Rightarrow> retrievalFoundationIds (treeId (run_plan run)) r @ opt_list (knowledgeFoundations (ontology node)))"

definition resolveEnterpriseKnowledge :: "string \<Rightarrow> KnowledgeQuery \<Rightarrow> bool \<Rightarrow> Registry \<Rightarrow> KnowledgeRegistry \<Rightarrow> (string \<Rightarrow> KnowledgeMoment) \<Rightarrow>
    KnowledgeRetrievalResult \<times> string option" where
  "resolveEnterpriseKnowledge i q aborted st r moments =
     (if aborted then (nothing_retrieved False, Some ''aborted'')
      else case getEnterpriseActiveRun st i of
          None \<Rightarrow> (nothing_retrieved False, None)
        | Some run \<Rightarrow> (case findPlanNode (run_plan run) (activeNodeId (run_plan run)) of
            None \<Rightarrow> (nothing_retrieved True, None)
          | Some node \<Rightarrow> retrieve_foundations run node q moments (knowledge_candidates run node q r) (nothing_retrieved True)))"

text \<open>The foundations argument of \<^verbatim>\<open>knowledge_search\<close>: an explicit list is kept even when nothing of it is left.\<close>

definition requested_foundations :: "string list option \<Rightarrow> string list option" where
  "requested_foundations raw = map_option (\<lambda>entries. filter (\<lambda>e. e \<noteq> []) (map trim entries)) raw"

section \<open>Loading persisted foundations\<close>

record BundledKnowledgeFoundationReadResult =
  br_records :: "(string \<times> BundledKnowledgeFoundation) list"
  br_rowErrors :: "(string \<times> string \<times> string) list"

definition foundation_row_before :: "BundledFoundationRow \<Rightarrow> BundledFoundationRow \<Rightarrow> bool" where
  "foundation_row_before a b = (if kf_foundation a = kf_foundation b then kf_tree a \<le> kf_tree b else kf_foundation a < kf_foundation b)"

text \<open>\<open>fault\<close> is the message of a row whose text the JSON or schema library refuses.\<close>

definition foundation_of_row :: "(BundledFoundationRow \<Rightarrow> string option) \<Rightarrow> BundledFoundationRow \<Rightarrow> BundledKnowledgeFoundation result" where
  "foundation_of_row fault row = (case fault row of Some message \<Rightarrow> Inl message
   | None \<Rightarrow> Inr \<lparr> bf_id = kf_foundation row, bf_descriptor = kf_descriptor row, bf_snippets = kf_snippets row \<rparr>)"

definition read_foundation :: "(BundledFoundationRow \<Rightarrow> string option) \<Rightarrow> BundledFoundationRow \<Rightarrow>
    BundledKnowledgeFoundationReadResult \<Rightarrow> BundledKnowledgeFoundationReadResult" where
  "read_foundation fault row acc = (case foundation_of_row fault row of
     Inr foundation \<Rightarrow> acc \<lparr> br_records := br_records acc @ [(kf_tree row, foundation)] \<rparr>
   | Inl message \<Rightarrow> acc \<lparr> br_rowErrors := br_rowErrors acc @ [(kf_tree row, kf_foundation row, message)] \<rparr>)"

definition readBundledKnowledgeFoundationsFromDatabase :: "(BundledFoundationRow \<Rightarrow> string option) \<Rightarrow> TreeDb \<Rightarrow>
    BundledKnowledgeFoundationReadResult" where
  "readBundledKnowledgeFoundationsFromDatabase fault db =
     fold (read_foundation fault) (order_by foundation_row_before (td_foundations db)) \<lparr> br_records = [], br_rowErrors = [] \<rparr>"

definition readEnterpriseWorkflowKnowledgeSnapshot :: "TreeEnv \<Rightarrow> (BundledFoundationRow \<Rightarrow> string option) \<Rightarrow> TreeDb \<Rightarrow>
    TreeReadResult \<times> BundledKnowledgeFoundationReadResult" where
  "readEnterpriseWorkflowKnowledgeSnapshot env fault db =
     (listEnterpriseWorkflowTrees env db, readBundledKnowledgeFoundationsFromDatabase fault db)"

definition BUILTIN_SUPPORT_KNOWLEDGE_FOUNDATION_ID :: string where
  "BUILTIN_SUPPORT_KNOWLEDGE_FOUNDATION_ID = ''clawworks.support-kb.example''"

definition support_snippet :: "string \<Rightarrow> string \<Rightarrow> string \<Rightarrow> KnowledgeSnippet" where
  "support_snippet title source body = \<lparr> ks_foundationId = BUILTIN_SUPPORT_KNOWLEDGE_FOUNDATION_ID, ks_title = Some title,
     ks_text = body, ks_score = None, ks_source = Some source \<rparr>"

definition SUPPORT_KB_SNIPPETS :: "KnowledgeSnippet list" where
  "SUPPORT_KB_SNIPPETS = [
     support_snippet ''Refund window'' ''handbook/refunds.md''
       ''Refunds are issued for any order within 30 days of delivery. Past 30 days, offer store credit instead. A refund over $200 needs human approval before it is issued.'',
     support_snippet ''Damaged and missing deliveries'' ''handbook/refunds.md''
       ''A damaged or missing delivery is refunded in full regardless of the 30-day window. Ask for a photo when the customer reports damage, but never make the refund conditional on receiving one.'',
     support_snippet ''Shipping targets'' ''handbook/shipping.md''
       ''Standard shipping is quoted at 3-5 business days, express at 1-2. An order is late once it passes the quoted window by two business days; late orders get a shipping-cost refund without approval.'',
     support_snippet ''Escalation path'' ''handbook/escalation.md''
       ''Escalate to a human agent when the customer asks for one, when a refund exceeds $200, when the same order has been reopened three times, or when the request involves a chargeback or legal threat.'',
     support_snippet ''Payment data handling'' ''handbook/privacy.md''
       ''Never repeat a full payment card number back to a customer or into a ticket. The last four digits are enough to confirm which card was charged.'',
     support_snippet ''Tone'' ''handbook/replies.md''
       (''Open by naming what went wrong in the customer'' @ [CHR 0x27] @ ''s own terms, say what you did about it, then say what happens next and when. Keep replies short; do not apologize more than once.'')]"

definition registerBuiltinExampleKnowledgeFoundations :: "(string \<Rightarrow> string \<Rightarrow> int) \<Rightarrow> (string \<Rightarrow> string \<Rightarrow> bool) \<Rightarrow> KnowledgeRegistry \<Rightarrow> KnowledgeRegistry" where
  "registerBuiltinExampleKnowledgeFoundations collate isClaimedByOperator r =
     (if isClaimedByOperator (tree_id BUILTIN_SUPPORT_EXAMPLE_TREE) BUILTIN_SUPPORT_KNOWLEDGE_FOUNDATION_ID then r
      else registerBundleKnowledgeFoundation (tree_id BUILTIN_SUPPORT_EXAMPLE_TREE) BUILTIN_SUPPORT_KNOWLEDGE_FOUNDATION_ID
        (InMemoryKnowledgeFoundation collate SUPPORT_KB_SNIPPETS (Some \<lparr> kd_kind = FoundationRemote,
           kd_displayName = ''Customer support handbook (example)'', kd_detail = Some ''shipped example content'',
           kd_description = Some ''Refund windows, shipping targets, and escalation rules for the customer-support example work-map.'' \<rparr>)) r)"

text \<open>\<open>new Map(records.map(...))\<close>: what the healthy definition of a tree references.\<close>

definition referenced_by :: "TreeReadResult \<Rightarrow> string \<Rightarrow> string list option" where
  "referenced_by trees tree = map_of (js_map_of (map (\<lambda>rec. (tree_id (it_tree rec), collectReferencedFoundationIds (it_tree rec))) (rd_records trees))) tree"

definition references :: "TreeReadResult \<Rightarrow> string \<Rightarrow> string \<Rightarrow> bool" where
  "references trees tree f \<longleftrightarrow> f \<in> set (opt_list (referenced_by trees tree))"

definition load_record :: "(string \<Rightarrow> string \<Rightarrow> int) \<Rightarrow> TreeReadResult \<Rightarrow> string \<times> BundledKnowledgeFoundation \<Rightarrow> KnowledgeRegistry \<Rightarrow> KnowledgeRegistry" where
  "load_record collate trees = (\<lambda>(tree, foundation) r.
     if \<not> references trees tree (bf_id foundation) then r
     else registerBundleKnowledgeFoundation tree (bf_id foundation) (InMemoryKnowledgeFoundation collate (bf_snippets foundation)
       (Some ((bf_descriptor foundation) \<lparr> kd_kind := FoundationRemote \<rparr>))) r)"

text \<open>The tuples an operator's import owns, a row that cannot be read included.\<close>

definition claim_key :: "string \<Rightarrow> string \<Rightarrow> string" where
  "claim_key tree f = tree @ '' '' @ f"

definition claimed_tuples :: "TreeReadResult \<Rightarrow> BundledKnowledgeFoundationReadResult \<Rightarrow> string list" where
  "claimed_tuples trees result = map (\<lambda>(tree, f). claim_key tree f) (filter (\<lambda>(tree, f). references trees tree f)
     (map (\<lambda>(tree, foundation). (tree, bf_id foundation)) (br_records result) @ map (\<lambda>(tree, f, message). (tree, f)) (br_rowErrors result)))"

definition operator_claims :: "TreeReadResult \<Rightarrow> BundledKnowledgeFoundationReadResult \<Rightarrow> string \<Rightarrow> string \<Rightarrow> bool" where
  "operator_claims trees result tree f \<longleftrightarrow> tree \<in> set (map te_treeId (rd_rowErrors trees)) \<or> claim_key tree f \<in> set (claimed_tuples trees result)
     \<or> (referenced_by trees tree \<noteq> None \<and> \<not> references trees tree f)"

text \<open>\<open>None\<close> is a store that cannot be read.\<close>

definition loadPersistedBundleFoundations :: "(string \<Rightarrow> string \<Rightarrow> int) \<Rightarrow> (TreeReadResult \<times> BundledKnowledgeFoundationReadResult) option \<Rightarrow>
    KnowledgeRegistry \<Rightarrow> KnowledgeRegistry" where
  "loadPersistedBundleFoundations collate snapshot r = (case snapshot of None \<Rightarrow> r
   | Some (trees, result) \<Rightarrow> registerBuiltinExampleKnowledgeFoundations collate (operator_claims trees result)
       (fold (load_record collate trees) (br_records result) r))"

definition ensureBundleFoundationsLoadedOnce :: "(string \<Rightarrow> string \<Rightarrow> int) \<Rightarrow> (TreeReadResult \<times> BundledKnowledgeFoundationReadResult) option \<Rightarrow>
    KnowledgeRegistry \<Rightarrow> KnowledgeRegistry" where
  "ensureBundleFoundationsLoadedOnce collate snapshot r =
     (if kr_loaded r then r else loadPersistedBundleFoundations collate snapshot (r \<lparr> kr_loaded := True \<rparr>))"

definition reloadPersistedBundleFoundations :: "(string \<Rightarrow> string \<Rightarrow> int) \<Rightarrow> (TreeReadResult \<times> BundledKnowledgeFoundationReadResult) option \<Rightarrow>
    KnowledgeRegistry \<Rightarrow> KnowledgeRegistry" where
  "reloadPersistedBundleFoundations collate snapshot r =
     loadPersistedBundleFoundations collate snapshot (clearBundleKnowledgeFoundations (r \<lparr> kr_loaded := True \<rparr>))"

end
