(* ===== verification/Knowledge_Properties.thy ===== *)
theory Knowledge_Properties
  imports Knowledge_Runtime Registry_Properties Run_Properties
begin

text \<open>
  What the knowledge runtime promises: a retrieval stays in the scope of its step and reports all of it, bundles of
  other work-maps never show, and the bundle registry is what the database and the work-maps say.
\<close>

section \<open>One retrieval\<close>

text \<open>The snippets a foundation answers with when its turn comes, and why it may be asked.\<close>

definition answer_of :: "EnterpriseActiveRun \<Rightarrow> KnowledgeQuery \<Rightarrow> (string \<Rightarrow> KnowledgeMoment) \<Rightarrow> string \<Rightarrow> KnowledgeSnippet list option" where
  "answer_of run q moments f = (case resolveRetrievalAdapter (treeId (run_plan run)) f (km_registry (moments f)) of
     None \<Rightarrow> None | Some adapter \<Rightarrow> (case ad_retrieve adapter f (kq_query q) (query_limit q) of Inl _ \<Rightarrow> None | Inr results \<Rightarrow> Some results))"

definition may_search :: "EnterpriseActiveRun \<Rightarrow> EnterprisePlanNode \<Rightarrow> KnowledgeQuery \<Rightarrow> (string \<Rightarrow> KnowledgeMoment) \<Rightarrow> string \<Rightarrow> bool" where
  "may_search run node q moments f \<longleftrightarrow> foundationAllowedByPath [node] f (grants_explicitly run) \<and> \<not> knowledge_blocked run node f
     \<and> answer_of run q moments f \<noteq> None"

lemma record_simps [simp]:
  "rr_searched (recordKnowledgeDecision run node f acc) = rr_searched acc" "rr_skipped (recordKnowledgeDecision run node f acc) = rr_skipped acc"
  "rr_snippets (recordKnowledgeDecision run node f acc) = rr_snippets acc" "rr_mediated (recordKnowledgeDecision run node f acc) = rr_mediated acc"
  by (simp_all add: recordKnowledgeDecision_def Let_def)

text \<open>A turn searches the foundation, skips it with a reason, leaves it out of scope, or ends the retrieval.\<close>

lemma turn_cases:
  assumes "retrieve_foundation run node q (moments f) f acc = (acc1, thrown)"
  obtains (searched) results where "thrown = None" "may_search run node q moments f" "answer_of run q moments f = Some results"
      "rr_searched acc1 = rr_searched acc @ [f]" "rr_skipped acc1 = rr_skipped acc"
      "rr_snippets acc1 = rr_snippets acc @ take (query_limit q) results"
  | (skipped) reason where "thrown = None" "\<not> may_search run node q moments f"
      "rr_searched acc1 = rr_searched acc" "rr_skipped acc1 = rr_skipped acc @ [(f, reason)]" "rr_snippets acc1 = rr_snippets acc"
  | (outside) "\<not> foundationAllowedByPath [node] f (grants_explicitly run)" "thrown = None"
      "rr_searched acc1 = rr_searched acc" "rr_skipped acc1 = rr_skipped acc" "rr_snippets acc1 = rr_snippets acc"
  | (ended) message where "thrown = Some message" "km_abortedBefore (moments f) \<or> km_abortedAfter (moments f)"
      "rr_searched acc1 = rr_searched acc" "rr_skipped acc1 = rr_skipped acc" "rr_snippets acc1 = rr_snippets acc"
  using assms unfolding retrieve_foundation_def Let_def may_search_def answer_of_def skip_foundation_def
  by (auto split: if_splits option.splits sum.splits)

text \<open>What a retrieval adds to an answer.\<close>

definition extends_answer :: "EnterpriseActiveRun \<Rightarrow> EnterprisePlanNode \<Rightarrow> KnowledgeQuery \<Rightarrow> (string \<Rightarrow> KnowledgeMoment) \<Rightarrow> string list \<Rightarrow>
    KnowledgeRetrievalResult \<Rightarrow> KnowledgeRetrievalResult \<Rightarrow> string option \<Rightarrow> string list \<Rightarrow> (string \<times> string) list \<Rightarrow> bool" where
  "extends_answer run node q moments fs acc acc' thrown ss ks \<longleftrightarrow> rr_searched acc' = rr_searched acc @ ss \<and> rr_skipped acc' = rr_skipped acc @ ks
     \<and> rr_snippets acc' = rr_snippets acc @ concat (map (\<lambda>f. take (query_limit q) (the (answer_of run q moments f))) ss)
     \<and> subseq ss fs \<and> subseq (map fst ks) fs \<and> (\<forall>f \<in> set ss. may_search run node q moments f)
     \<and> (\<forall>f \<in> set (map fst ks). \<not> may_search run node q moments f)
     \<and> (thrown = None \<longrightarrow> (\<forall>f \<in> set fs. foundationAllowedByPath [node] f (grants_explicitly run) \<longrightarrow> f \<in> set ss \<union> set (map fst ks)))
     \<and> (thrown \<noteq> None \<longrightarrow> (\<exists>f \<in> set fs. km_abortedBefore (moments f) \<or> km_abortedAfter (moments f)))"

lemma retrieve_extends:
  "retrieve_foundations run node q moments fs acc = (acc', thrown) \<Longrightarrow> \<exists>ss ks. extends_answer run node q moments fs acc acc' thrown ss ks"
proof (induction fs arbitrary: acc)
  case Nil
  then show ?case by (auto simp: extends_answer_def intro!: exI [of _ "[]"])
next
  case (Cons f fs)
  obtain acc1 t where turn: "retrieve_foundation run node q (moments f) f acc = (acc1, t)" by fastforce
  show ?case
  proof (cases t)
    case (Some message)
    then have r: "acc' = acc1" "thrown = Some message" using Cons.prems turn by auto
    from turn show ?thesis
      by (cases rule: turn_cases) (auto simp: extends_answer_def r Some intro!: exI [of _ "[]"])
  next
    case None
    with Cons.prems turn have "retrieve_foundations run node q moments fs acc1 = (acc', thrown)" by simp
    from Cons.IH [OF this] obtain ss ks where e: "extends_answer run node q moments fs acc1 acc' thrown ss ks" by blast
    from turn show ?thesis
    proof (cases rule: turn_cases)
      case (searched results)
      with e have "extends_answer run node q moments (f # fs) acc acc' thrown (f # ss) ks"
        by (auto simp: extends_answer_def)
      then show ?thesis by blast
    next
      case (skipped reason)
      with e have "extends_answer run node q moments (f # fs) acc acc' thrown ss ((f, reason) # ks)"
        by (auto simp: extends_answer_def)
      then show ?thesis by blast
    next
      case outside
      with e have "extends_answer run node q moments (f # fs) acc acc' thrown ss ks"
        by (auto simp: extends_answer_def)
      then show ?thesis by blast
    next
      case (ended message)
      with None show ?thesis by simp
    qed
  qed
qed

lemma candidates_sorted: "sorted (knowledge_candidates run node q r)" "distinct (knowledge_candidates run node q r)"
  by (simp_all add: knowledge_candidates_def)

lemma allowed_iff:
  "foundationAllowedByPath [node] f explicit \<longleftrightarrow> (f \<in> set (opt_list (knowledgeFoundations (ontology node)))
     \<or> (opt_list (knowledgeFoundations (ontology node)) = [] \<and> \<not> explicit))"
  by (auto simp: foundationAllowedByPath_def Let_def)

section \<open>What a run sees of the registries\<close>

text \<open>Two registries look the same to a run on a work-map when they differ in bundles of other work-maps only.\<close>

definition same_view :: "string \<Rightarrow> KnowledgeRegistry \<Rightarrow> KnowledgeRegistry \<Rightarrow> bool" where
  "same_view tree r r' \<longleftrightarrow> kr_foundations r = kr_foundations r' \<and> bundle_of tree r = bundle_of tree r'"

definition same_moment :: "string \<Rightarrow> KnowledgeMoment \<Rightarrow> KnowledgeMoment \<Rightarrow> bool" where
  "same_moment tree m m' \<longleftrightarrow> same_view tree (km_registry m) (km_registry m')
     \<and> km_abortedBefore m = km_abortedBefore m' \<and> km_abortedAfter m = km_abortedAfter m'"

lemma same_view_lookups:
  assumes "same_view tree r r'"
  shows "resolveRetrievalAdapter tree f r = resolveRetrievalAdapter tree f r'" "retrievalFoundationIds tree r = retrievalFoundationIds tree r'"
  using assms by (auto simp: same_view_def resolveRetrievalAdapter_def retrievalFoundationIds_def split: option.split)

lemma register_bundle_lookup: "bundle_of tree (registerBundleKnowledgeFoundation t f adapter r)
    = (if tree = t then AList.update f adapter (bundle_of t r) else bundle_of tree r)"
  by (simp add: bundle_of_def registerBundleKnowledgeFoundation_def update_conv')

lemma register_bundle_foundations [simp]: "kr_foundations (registerBundleKnowledgeFoundation t f adapter r) = kr_foundations r"
  by (simp add: registerBundleKnowledgeFoundation_def)

lemma retrieve_same_view:
  assumes "\<And>f. same_moment (treeId (run_plan run)) (moments f) (moments' f)"
  shows "retrieve_foundations run node q moments fs acc = retrieve_foundations run node q moments' fs acc"
proof -
  have m: "km_abortedBefore (moments f) = km_abortedBefore (moments' f)" "km_abortedAfter (moments f) = km_abortedAfter (moments' f)"
    "resolveRetrievalAdapter (treeId (run_plan run)) f (km_registry (moments f)) = resolveRetrievalAdapter (treeId (run_plan run)) f (km_registry (moments' f))" for f
    using assms [of f] same_view_lookups(1) [of "treeId (run_plan run)" "km_registry (moments f)" "km_registry (moments' f)" f]
    by (auto simp: same_moment_def)
  have "retrieve_foundation run node q (moments f) f acc = retrieve_foundation run node q (moments' f) f acc" for f acc
    by (simp only: retrieve_foundation_def m)
  then show ?thesis by (induction fs arbitrary: acc) (simp_all split: prod.split option.split)
qed

section \<open>Loading\<close>

lemma read_foundations: "fold (read_foundation fault) rows acc = \<lparr>
   br_records = br_records acc @ map (\<lambda>row. (kf_tree row, \<lparr> bf_id = kf_foundation row, bf_descriptor = kf_descriptor row, bf_snippets = kf_snippets row \<rparr>))
     (filter (\<lambda>row. fault row = None) rows),
   br_rowErrors = br_rowErrors acc @ map (\<lambda>row. (kf_tree row, kf_foundation row, the (fault row))) (filter (\<lambda>row. fault row \<noteq> None) rows) \<rparr>"
  by (induction rows arbitrary: acc) (auto simp: read_foundation_def foundation_of_row_def split: option.split)

definition bundle_adapter :: "(string \<Rightarrow> string \<Rightarrow> int) \<Rightarrow> BundledKnowledgeFoundation \<Rightarrow> KnowledgeFoundationAdapter" where
  "bundle_adapter collate foundation = InMemoryKnowledgeFoundation collate (bf_snippets foundation)
     (Some ((bf_descriptor foundation) \<lparr> kd_kind := FoundationRemote \<rparr>))"

lemma load_records_foundations: "kr_foundations (fold (load_record collate trees) recs r) = kr_foundations r"
  by (induction recs arbitrary: r) (auto simp: load_record_def)

lemma load_records_lookup:
  assumes "distinct (map (\<lambda>(t, fo). (t, bf_id fo)) recs)"
  shows "map_of (bundle_of tree (fold (load_record collate trees) recs r)) f =
    (case map_of (map (\<lambda>(t, fo). ((t, bf_id fo), fo)) recs) (tree, f) of
       Some fo \<Rightarrow> if references trees tree f then Some (bundle_adapter collate fo) else map_of (bundle_of tree r) f
     | None \<Rightarrow> map_of (bundle_of tree r) f)"
  using assms
proof (induction recs arbitrary: r)
  case (Cons rec recs)
  obtain t fo where rec: "rec = (t, fo)" by (cases rec)
  have step: "map_of (bundle_of u (load_record collate trees (t, fo) r)) g =
      (if t = u \<and> bf_id fo = g \<and> references trees u g then Some (bundle_adapter collate fo) else map_of (bundle_of u r) g)" for u g
    by (auto simp: load_record_def register_bundle_lookup update_conv' bundle_adapter_def)
  have new: "map_of (map (\<lambda>(t, fo). ((t, bf_id fo), fo)) recs) (t, bf_id fo) = None"
    using Cons.prems rec by (force simp: map_of_eq_None_iff)
  from Cons.prems have "distinct (map (\<lambda>(t, fo). (t, bf_id fo)) recs)" by simp
  note Cons.IH [OF this, of "load_record collate trees (t, fo) r"]
  then show ?case using new by (auto simp: rec step split: option.split)
qed simp

text \<open>A work-map the registry can load, by its id.\<close>

definition healthy_tree :: "TreeEnv \<Rightarrow> TreeDb \<Rightarrow> string \<Rightarrow> WorkflowTreeDefinition \<Rightarrow> bool" where
  "healthy_tree env db i tree \<longleftrightarrow> (\<exists>row \<in> set (td_trees db). wt_tree row = i \<and> map_option it_tree (row_record env row) = Some tree)"

lemma referenced_healthy:
  assumes "tree_store_ok db"
  shows "referenced_by (listEnterpriseWorkflowTrees env db) i = Some ids \<longleftrightarrow> (\<exists>tree. healthy_tree env db i tree \<and> ids = collectReferencedFoundationIds tree)"
proof -
  let ?rows = "order_by tree_row_before (td_trees db)"
  let ?recs = "List.map_filter (row_record env) ?rows"
  have recs: "rd_records (listEnterpriseWorkflowTrees env db) = ?recs" by (simp add: listEnterpriseWorkflowTrees_def read_rows)
  have "distinct (map wt_tree ?rows)" using tree_store_okD(1) [OF assms] by simp
  then have d: "distinct (map (\<lambda>rec. tree_id (it_tree rec)) ?recs)" using record_ids by blast
  have entries: "js_map_of (map (\<lambda>rec. (tree_id (it_tree rec), collectReferencedFoundationIds (it_tree rec))) ?recs)
      = map (\<lambda>rec. (tree_id (it_tree rec), collectReferencedFoundationIds (it_tree rec))) ?recs"
    by (rule js_map_of_distinct) (use d in \<open>simp add: comp_def\<close>)
  have ids: "row_record env row = Some rec \<Longrightarrow> tree_id (it_tree rec) = wt_tree row" for row rec
    using record_id [of env row] by (auto simp: row_record_def split: sum.splits)
  have "referenced_by (listEnterpriseWorkflowTrees env db) i = Some ids \<longleftrightarrow>
      (\<exists>rec \<in> set ?recs. tree_id (it_tree rec) = i \<and> ids = collectReferencedFoundationIds (it_tree rec))"
    unfolding referenced_by_def recs entries using d by (subst map_of_eq_Some_iff) (auto simp: comp_def)
  also have "\<dots> \<longleftrightarrow> (\<exists>row \<in> set (td_trees db). \<exists>rec. row_record env row = Some rec \<and> tree_id (it_tree rec) = i
      \<and> ids = collectReferencedFoundationIds (it_tree rec))"
    unfolding set_map_filter_iff by auto
  also have "\<dots> \<longleftrightarrow> (\<exists>row \<in> set (td_trees db). \<exists>rec. row_record env row = Some rec \<and> wt_tree row = i
      \<and> ids = collectReferencedFoundationIds (it_tree rec))"
    using ids by metis
  also have "\<dots> \<longleftrightarrow> (\<exists>tree. healthy_tree env db i tree \<and> ids = collectReferencedFoundationIds tree)"
    by (auto simp: healthy_tree_def)
  finally show ?thesis .
qed

lemma references_healthy:
  assumes "tree_store_ok db"
  shows "references (listEnterpriseWorkflowTrees env db) i f \<longleftrightarrow> (\<exists>tree. healthy_tree env db i tree \<and> f \<in> set (collectReferencedFoundationIds tree))"
proof -
  have opt: "f \<in> set (opt_list x) \<longleftrightarrow> (\<exists>ids. x = Some ids \<and> f \<in> set ids)" for x by (cases x) simp_all
  show ?thesis unfolding references_def opt referenced_healthy [OF assms] by blast
qed

definition row_adapter :: "(string \<Rightarrow> string \<Rightarrow> int) \<Rightarrow> BundledFoundationRow \<Rightarrow> KnowledgeFoundationAdapter" where
  "row_adapter collate row = InMemoryKnowledgeFoundation collate (kf_snippets row) (Some ((kf_descriptor row) \<lparr> kd_kind := FoundationRemote \<rparr>))"

lemma persisted_lookup:
  assumes "distinct (map (\<lambda>r. (kf_tree r, kf_foundation r)) (td_foundations db))"
  shows "map_of (bundle_of tree (fold (load_record collate trees) (br_records (readBundledKnowledgeFoundationsFromDatabase fault db)) r)) f = Some adapter
    \<longleftrightarrow> (\<exists>row \<in> set (td_foundations db). kf_tree row = tree \<and> kf_foundation row = f \<and> fault row = None \<and> references trees tree f
           \<and> adapter = row_adapter collate row)
      \<or> (\<not> (\<exists>row \<in> set (td_foundations db). kf_tree row = tree \<and> kf_foundation row = f \<and> fault row = None \<and> references trees tree f)
           \<and> map_of (bundle_of tree r) f = Some adapter)"
proof -
  let ?rows = "filter (\<lambda>row. fault row = None) (order_by foundation_row_before (td_foundations db))"
  let ?fo = "\<lambda>row. \<lparr> bf_id = kf_foundation row, bf_descriptor = kf_descriptor row, bf_snippets = kf_snippets row \<rparr>"
  let ?recs = "map (\<lambda>row. (kf_tree row, ?fo row)) ?rows"
  have recs: "br_records (readBundledKnowledgeFoundationsFromDatabase fault db) = ?recs"
    by (simp add: readBundledKnowledgeFoundationsFromDatabase_def read_foundations)
  have keys: "distinct (map (\<lambda>row. (kf_tree row, kf_foundation row)) ?rows)"
    using assms by (intro distinct_map_filter) simp
  then have d: "distinct (map (\<lambda>(t, fo). (t, bf_id fo)) ?recs)" by (simp add: comp_def)
  have entries: "map (\<lambda>(t, fo). ((t, bf_id fo), fo)) ?recs = map (\<lambda>row. ((kf_tree row, kf_foundation row), ?fo row)) ?rows" by simp
  have found: "map_of (map (\<lambda>(t, fo). ((t, bf_id fo), fo)) ?recs) (tree, f) = Some fo \<longleftrightarrow>
      (\<exists>row \<in> set (td_foundations db). kf_tree row = tree \<and> kf_foundation row = f \<and> fault row = None \<and> fo = ?fo row)" for fo
    unfolding entries using keys by (subst map_of_eq_Some_iff) (auto simp: comp_def image_iff)
  have adapter: "bundle_adapter collate (?fo row) = row_adapter collate row" for row by (simp add: bundle_adapter_def row_adapter_def)
  show ?thesis
  proof (cases "map_of (map (\<lambda>(t, fo). ((t, bf_id fo), fo)) ?recs) (tree, f)")
    case None
    with found have "\<not> (\<exists>row \<in> set (td_foundations db). kf_tree row = tree \<and> kf_foundation row = f \<and> fault row = None)" by auto
    then show ?thesis unfolding recs load_records_lookup [OF d] None by auto
  next
    case (Some fo)
    with found obtain row where row: "row \<in> set (td_foundations db)" "kf_tree row = tree" "kf_foundation row = f" "fault row = None" "fo = ?fo row"
      by blast
    have only: "row' = row" if "row' \<in> set (td_foundations db)" "kf_tree row' = tree" "kf_foundation row' = f" for row'
      using assms row that by (auto simp: distinct_map dest: inj_onD)
    have one: "(\<exists>row' \<in> set (td_foundations db). kf_tree row' = tree \<and> kf_foundation row' = f \<and> P row') \<longleftrightarrow> P row" for P
      using row(1-3) only by blast
    show ?thesis unfolding recs load_records_lookup [OF d] Some one using row(4) by (auto simp: row(5) adapter)
  qed
qed

text \<open>The shipped example is left out when an import of its work-map owns the tuple, drops it, or cannot be read.\<close>

definition example_adapter :: "(string \<Rightarrow> string \<Rightarrow> int) \<Rightarrow> KnowledgeFoundationAdapter" where
  "example_adapter collate = InMemoryKnowledgeFoundation collate SUPPORT_KB_SNIPPETS (Some \<lparr> kd_kind = FoundationRemote,
     kd_displayName = ''Customer support handbook (example)'', kd_detail = Some ''shipped example content'',
     kd_description = Some ''Refund windows, shipping targets, and escalation rules for the customer-support example work-map.'' \<rparr>)"

definition example_owned :: "TreeEnv \<Rightarrow> TreeDb \<Rightarrow> bool" where
  "example_owned env db \<longleftrightarrow> (\<exists>row \<in> set (td_trees db). wt_tree row = tree_id BUILTIN_SUPPORT_EXAMPLE_TREE
     \<and> (case rowToRecord env row of Inl _ \<Rightarrow> True
        | Inr rec \<Rightarrow> BUILTIN_SUPPORT_KNOWLEDGE_FOUNDATION_ID \<in> set (collectReferencedFoundationIds (it_tree rec)) \<longrightarrow>
            (\<exists>k \<in> set (td_foundations db). kf_tree k = tree_id BUILTIN_SUPPORT_EXAMPLE_TREE \<and> kf_foundation k = BUILTIN_SUPPORT_KNOWLEDGE_FOUNDATION_ID)))"

lemma claim_key_inject:
  assumes "claim_key tree f = claim_key t g" "CHR '' '' \<notin> set t" "CHR '' '' \<notin> set g"
  shows "tree = t \<and> f = g"
proof -
  have one: "length (filter (\<lambda>c. c = CHR '' '') (claim_key t g)) = 1" using assms(2,3) by (auto simp: claim_key_def filter_empty_conv)
  then have "CHR '' '' \<notin> set tree" unfolding assms(1) [symmetric] by (auto simp: claim_key_def filter_empty_conv)
  then have "takeWhile (\<lambda>c. c \<noteq> CHR '' '') (claim_key tree f) = tree" "takeWhile (\<lambda>c. c \<noteq> CHR '' '') (claim_key t g) = t"
    using assms(2) by (auto simp: claim_key_def takeWhile_append)
  then have "tree = t" using assms(1) by metis
  then show ?thesis using assms(1) by (simp add: claim_key_def)
qed

lemma claimed_iff:
  "claim_key t f \<in> set (claimed_tuples trees (readBundledKnowledgeFoundationsFromDatabase fault db)) \<longleftrightarrow>
     (\<exists>row \<in> set (td_foundations db). references trees (kf_tree row) (kf_foundation row) \<and> claim_key (kf_tree row) (kf_foundation row) = claim_key t f)"
proof -
  let ?result = "readBundledKnowledgeFoundationsFromDatabase fault db"
  have pairs: "set (map (\<lambda>(tree, foundation). (tree, bf_id foundation)) (br_records ?result) @ map (\<lambda>(tree, f, message). (tree, f)) (br_rowErrors ?result))
      = (\<lambda>row. (kf_tree row, kf_foundation row)) ` set (td_foundations db)"
  proof -
    have "set (filter (\<lambda>row. fault row = None) (td_foundations db)) \<union> set (filter (\<lambda>row. fault row \<noteq> None) (td_foundations db))
        = set (td_foundations db)" by auto
    moreover have "set (map (\<lambda>(tree, foundation). (tree, bf_id foundation)) (br_records ?result))
        = (\<lambda>row. (kf_tree row, kf_foundation row)) ` set (filter (\<lambda>row. fault row = None) (td_foundations db))"
      "set (map (\<lambda>(tree, f, message). (tree, f)) (br_rowErrors ?result))
        = (\<lambda>row. (kf_tree row, kf_foundation row)) ` set (filter (\<lambda>row. fault row \<noteq> None) (td_foundations db))"
      by (auto simp: readBundledKnowledgeFoundationsFromDatabase_def read_foundations image_image comp_def)
    ultimately show ?thesis by (simp only: set_append image_Un [symmetric])
  qed
  show ?thesis unfolding claimed_tuples_def set_map set_filter pairs [unfolded set_map] by force
qed

lemma example_ids_plain: "CHR '' '' \<notin> set (tree_id BUILTIN_SUPPORT_EXAMPLE_TREE)" "CHR '' '' \<notin> set BUILTIN_SUPPORT_KNOWLEDGE_FOUNDATION_ID"
  by code_simp+

lemma claims_example:
  assumes "tree_store_ok db"
  shows "operator_claims (listEnterpriseWorkflowTrees env db) (readBundledKnowledgeFoundationsFromDatabase fault db)
      (tree_id BUILTIN_SUPPORT_EXAMPLE_TREE) BUILTIN_SUPPORT_KNOWLEDGE_FOUNDATION_ID \<longleftrightarrow> example_owned env db"
proof -
  let ?t = "tree_id BUILTIN_SUPPORT_EXAMPLE_TREE" and ?f = BUILTIN_SUPPORT_KNOWLEDGE_FOUNDATION_ID
  let ?trees = "listEnterpriseWorkflowTrees env db"
  let ?stored = "\<exists>k \<in> set (td_foundations db). kf_tree k = ?t \<and> kf_foundation k = ?f"
  have errors: "?t \<in> set (map te_treeId (rd_rowErrors ?trees)) \<longleftrightarrow> (\<exists>row \<in> set (td_trees db). wt_tree row = ?t \<and> (\<exists>m. rowToRecord env row = Inl m))"
  proof -
    have "(\<exists>e. row_error env row = Some e \<and> te_treeId e = i) \<longleftrightarrow> wt_tree row = i \<and> (\<exists>m. rowToRecord env row = Inl m)" for row i
      by (cases "rowToRecord env row") (auto simp: row_error_def)
    moreover have "?t \<in> set (map te_treeId (rd_rowErrors ?trees)) \<longleftrightarrow> (\<exists>row \<in> set (td_trees db). \<exists>e. row_error env row = Some e \<and> te_treeId e = ?t)"
      unfolding listEnterpriseWorkflowTrees_def read_rows by (simp add: set_map_filter_iff image_iff) metis
    ultimately show ?thesis by simp
  qed
  have key: "claim_key a b = claim_key ?t ?f \<longleftrightarrow> a = ?t \<and> b = ?f" for a b
    using claim_key_inject [OF _ example_ids_plain, of a b] by auto
  have claimed: "claim_key ?t ?f \<in> set (claimed_tuples ?trees (readBundledKnowledgeFoundationsFromDatabase fault db))
      \<longleftrightarrow> references ?trees ?t ?f \<and> ?stored"
    unfolding claimed_iff key by (auto intro!: bexI)
  have healthy: "healthy_tree env db ?t tree \<longleftrightarrow> (\<exists>row \<in> set (td_trees db). wt_tree row = ?t \<and> (\<exists>rec. rowToRecord env row = Inr rec \<and> it_tree rec = tree))" for tree
  proof -
    have "map_option it_tree (row_record env row) = Some tree \<longleftrightarrow> (\<exists>rec. rowToRecord env row = Inr rec \<and> it_tree rec = tree)" for row
      by (cases "rowToRecord env row") (simp_all add: row_record_def)
    then show ?thesis by (simp add: healthy_tree_def)
  qed
  have imported: "referenced_by ?trees ?t \<noteq> None \<longleftrightarrow> (\<exists>tree. healthy_tree env db ?t tree)"
    using referenced_healthy [OF assms, of env ?t] by (metis not_None_eq)
  have unique: "row = row'" if "row \<in> set (td_trees db)" "row' \<in> set (td_trees db)" "wt_tree row = ?t" "wt_tree row' = ?t" for row row'
    using tree_store_okD(1) [OF assms] that unfolding distinct_map by (metis inj_onD)
  show ?thesis
  proof (cases "\<exists>row \<in> set (td_trees db). wt_tree row = ?t")
    case False
    then show ?thesis unfolding operator_claims_def errors claimed imported references_healthy [OF assms] healthy example_owned_def by blast
  next
    case True
    then obtain row where row: "row \<in> set (td_trees db)" "wt_tree row = ?t" by blast
    have one: "(\<exists>row \<in> set (td_trees db). wt_tree row = ?t \<and> P row) \<longleftrightarrow> P row" for P using row unique by blast
    show ?thesis unfolding operator_claims_def errors claimed imported references_healthy [OF assms] healthy example_owned_def one
      by (cases "rowToRecord env row") auto
  qed
qed

lemma reload_lookup:
  assumes "tree_store_ok db" "distinct (map (\<lambda>r. (kf_tree r, kf_foundation r)) (td_foundations db))"
  shows "map_of (bundle_of tree (reloadPersistedBundleFoundations collate (Some (readEnterpriseWorkflowKnowledgeSnapshot env fault db)) r)) f = Some adapter
    \<longleftrightarrow> (\<exists>row \<in> set (td_foundations db). kf_tree row = tree \<and> kf_foundation row = f \<and> fault row = None \<and> adapter = row_adapter collate row
           \<and> (\<exists>t. healthy_tree env db tree t \<and> f \<in> set (collectReferencedFoundationIds t)))
      \<or> (tree = tree_id BUILTIN_SUPPORT_EXAMPLE_TREE \<and> f = BUILTIN_SUPPORT_KNOWLEDGE_FOUNDATION_ID \<and> \<not> example_owned env db \<and> adapter = example_adapter collate)"
proof -
  let ?t = "tree_id BUILTIN_SUPPORT_EXAMPLE_TREE" and ?f = BUILTIN_SUPPORT_KNOWLEDGE_FOUNDATION_ID
  let ?trees = "listEnterpriseWorkflowTrees env db" and ?result = "readBundledKnowledgeFoundationsFromDatabase fault db"
  let ?loaded = "fold (load_record collate ?trees) (br_records ?result) (clearBundleKnowledgeFoundations (r \<lparr> kr_loaded := True \<rparr>))"
  have empty: "map_of (bundle_of tree (clearBundleKnowledgeFoundations (r \<lparr> kr_loaded := True \<rparr>))) f = None"
    by (simp add: bundle_of_def clearBundleKnowledgeFoundations_def)
  have base: "map_of (bundle_of tree ?loaded) f = Some adapter \<longleftrightarrow> (\<exists>row \<in> set (td_foundations db). kf_tree row = tree \<and> kf_foundation row = f
      \<and> fault row = None \<and> references ?trees tree f \<and> adapter = row_adapter collate row)" for adapter
    unfolding persisted_lookup [OF assms(2)] empty by simp
  have reload: "reloadPersistedBundleFoundations collate (Some (readEnterpriseWorkflowKnowledgeSnapshot env fault db)) r
      = (if example_owned env db then ?loaded else registerBundleKnowledgeFoundation ?t ?f (example_adapter collate) ?loaded)"
    using claims_example [OF assms(1), of env fault]
    by (simp add: reloadPersistedBundleFoundations_def loadPersistedBundleFoundations_def readEnterpriseWorkflowKnowledgeSnapshot_def
        registerBuiltinExampleKnowledgeFoundations_def example_adapter_def)
  have unowned: "\<not> (\<exists>row \<in> set (td_foundations db). kf_tree row = ?t \<and> kf_foundation row = ?f \<and> references ?trees ?t ?f)" if "\<not> example_owned env db"
    using that claims_example [OF assms(1), of env fault] by (auto simp: operator_claims_def claimed_iff)
  show ?thesis
  proof (cases "example_owned env db")
    case True
    then show ?thesis unfolding reload base references_healthy [OF assms(1), symmetric] by (auto simp: base)
  next
    case False
    have "map_of (bundle_of tree (registerBundleKnowledgeFoundation ?t ?f (example_adapter collate) ?loaded)) f
        = (if tree = ?t \<and> f = ?f then Some (example_adapter collate) else map_of (bundle_of tree ?loaded) f)"
      by (simp add: register_bundle_lookup update_conv')
    then show ?thesis using False unowned [OF False] unfolding reload references_healthy [OF assms(1), symmetric]
      by (cases "tree = ?t \<and> f = ?f") (auto simp: base)
  qed
qed

section \<open>Properties\<close>

lemma searched_is_advertised:
  assumes "getEnterpriseActiveRun st i = Some run" "node \<in> set (nodes (run_plan run))" "may_search run node q moments f"
    "km_registry (moments f) = r"
  shows "f \<in> fst ` set (describeWorkflowKnowledgeFoundations i st r)"
proof -
  from assms(3,4) obtain adapter where "resolveRetrievalAdapter (treeId (run_plan run)) f r = Some adapter"
    by (auto simp: may_search_def answer_of_def split: option.splits)
  then have "f \<in> fst ` set (kr_foundations r) \<union> fst ` set (bundle_of (treeId (run_plan run)) r)"
    by (force simp: resolveRetrievalAdapter_def split: option.splits dest: map_of_SomeD)
  then have "f \<in> set (routableFoundationIds run r)"
    using assms(2,3) by (auto simp: routableFoundationIds_def retrievalFoundationIds_def may_search_def list_ex_iff)
  then show ?thesis by (simp add: describeWorkflowKnowledgeFoundations_def assms(1) image_image)
qed

text \<open>
  C36. A retrieval stays in the scope of its step and accounts for all of it. Whatever happens while adapters answer,
  each foundation it searched is one the active step names, or the step names none and the work-map does not grant
  explicitly; the policies of an enforcing run do not withhold it; the call asked for it when it asked for any; and
  if the registries stood still it is one the tool advertises. The snippets are exactly the first ones, up to the
  limit, of each searched foundation's answer, in order of id. No foundation is both searched and skipped, and a
  retrieval that was not aborted lists every candidate in scope as one or the other: an adapter that fails or is
  missing never fails the call.
\<close>

theorem retrieval_stays_in_scope:
  assumes "resolveEnterpriseKnowledge i q False st r moments = (result, thrown)" "getEnterpriseActiveRun st i = Some run"
    "findPlanNode (run_plan run) (activeNodeId (run_plan run)) = Some node"
  shows "(\<forall>f \<in> set (rr_searched result).
        (f \<in> set (opt_list (knowledgeFoundations (ontology node))) \<or> (opt_list (knowledgeFoundations (ontology node)) = [] \<and> \<not> grants_explicitly run))
      \<and> \<not> knowledge_blocked run node f \<and> (\<forall>requested. kq_foundations q = Some requested \<longrightarrow> f \<in> set requested)
      \<and> (km_registry (moments f) = r \<longrightarrow> f \<in> fst ` set (describeWorkflowKnowledgeFoundations i st r)))
    \<and> rr_snippets result = concat (map (\<lambda>f. take (query_limit q) (the (answer_of run q moments f))) (rr_searched result))
    \<and> sorted (rr_searched result) \<and> distinct (rr_searched result) \<and> set (rr_searched result) \<inter> fst ` set (rr_skipped result) = {}
    \<and> (thrown = None \<longrightarrow> (\<forall>f \<in> set (knowledge_candidates run node q r). foundationAllowedByPath [node] f (grants_explicitly run) \<longrightarrow>
         f \<in> set (rr_searched result) \<union> fst ` set (rr_skipped result)))
    \<and> (thrown \<noteq> None \<longrightarrow> (\<exists>f. km_abortedBefore (moments f) \<or> km_abortedAfter (moments f)))"
proof -
  let ?fs = "knowledge_candidates run node q r"
  from assms have "retrieve_foundations run node q moments ?fs (nothing_retrieved True) = (result, thrown)"
    by (simp add: resolveEnterpriseKnowledge_def)
  from retrieve_extends [OF this] obtain ss ks where e: "extends_answer run node q moments ?fs (nothing_retrieved True) result thrown ss ks" by blast
  then have r: "rr_searched result = ss" "rr_skipped result = ks" by (simp_all add: extends_answer_def nothing_retrieved_def)
  have sub: "subseq ss ?fs" using e by (simp add: extends_answer_def)
  then have sorted: "sorted ss" "distinct ss" "set ss \<subseteq> set ?fs"
    using candidates_sorted [of run node q r] subseq_sorted [OF sub] subseq_distinct [OF sub] list_emb_set [OF sub] by auto
  have node: "node \<in> set (nodes (run_plan run))" using assms(3) by (auto simp: findPlanNode_def dest: find_Some_mem)
  have may: "may_search run node q moments f" if "f \<in> set ss" for f using e that by (simp add: extends_answer_def)
  have asked: "f \<in> set requested" if "f \<in> set ss" "kq_foundations q = Some requested" for f requested
    using sorted(3) that by (auto simp: knowledge_candidates_def)
  have disjoint: "set ss \<inter> fst ` set ks = {}" using e by (auto simp: extends_answer_def)
  show ?thesis unfolding r
    using e may asked sorted(1,2) disjoint searched_is_advertised [OF assms(2) node may]
    by (auto simp: extends_answer_def nothing_retrieved_def may_search_def allowed_iff)
qed

text \<open>The witness asks a plugin's foundation, and one whose retrieval fails, on the run of the sample work-map.\<close>

definition sample_adapter :: "KnowledgeSnippet list result \<Rightarrow> KnowledgeFoundationAdapter" where
  "sample_adapter answer = \<lparr> ad_retrieve = (\<lambda>_ _ _. answer), ad_describe = None, ad_testConnection = None, ad_listDocuments = None,
     ad_uploadDocument = None, ad_removeDocument = None, ad_snapshot = None \<rparr>"

definition sample_knowledge :: KnowledgeRegistry where
  "sample_knowledge = registerEnterpriseKnowledgeFoundation ''archive'' (sample_adapter (Inl ''offline''))
     (registerEnterpriseKnowledgeFoundation ''wiki'' (sample_adapter (Inr [support_snippet ''a'' ''b'' ''c'', support_snippet ''d'' ''e'' ''f'']))
       \<lparr> kr_foundations = [], kr_bundles = [], kr_loaded = True \<rparr>)"

definition sample_question :: KnowledgeQuery where
  "sample_question = \<lparr> kq_query = ''refund'', kq_foundations = None, kq_limit = Some 1 \<rparr>"

definition sample_moment :: "string \<Rightarrow> KnowledgeMoment" where
  "sample_moment f = \<lparr> km_registry = sample_knowledge, km_abortedBefore = False, km_abortedAfter = False \<rparr>"

definition sample_retrieval :: "KnowledgeRetrievalResult \<times> string option" where
  "sample_retrieval = resolveEnterpriseKnowledge ''r1'' sample_question False sample_registry sample_knowledge sample_moment"

theorem retrieval_scope_witness:
  "rr_searched (fst sample_retrieval) = [''wiki''] \<and> length (rr_snippets (fst sample_retrieval)) = 1
     \<and> ''wiki'' \<in> fst ` set (describeWorkflowKnowledgeFoundations ''r1'' sample_registry sample_knowledge)
     \<and> ''archive'' \<in> fst ` set (rr_skipped (fst sample_retrieval))"
proof -
  have c: "rr_searched (fst sample_retrieval) = [''wiki'']" "length (rr_snippets (fst sample_retrieval)) = 1"
    "fst (hd (rr_skipped (fst sample_retrieval))) = ''archive''" "length (rr_skipped (fst sample_retrieval)) = 1"
    by code_simp+
  have "(case getEnterpriseActiveRun sample_registry ''r1'' of None \<Rightarrow> False | Some run \<Rightarrow> findPlanNode (run_plan run) (activeNodeId (run_plan run)) \<noteq> None)"
    by code_simp
  then obtain run node where r: "getEnterpriseActiveRun sample_registry ''r1'' = Some run"
      "findPlanNode (run_plan run) (activeNodeId (run_plan run)) = Some node"
    by (auto split: option.splits)
  have "resolveEnterpriseKnowledge ''r1'' sample_question False sample_registry sample_knowledge sample_moment
      = (fst sample_retrieval, snd sample_retrieval)" by (simp add: sample_retrieval_def)
  from retrieval_stays_in_scope [OF this r] show ?thesis using c by (auto simp: sample_moment_def length_Suc_conv)
qed

text \<open>
  C37. The bundles of one work-map never reach the runs of another. Two states of the registries that differ only in
  what other work-maps' bundles hold give a run the same answers: the same retrieval with the same snippets, skips,
  decisions and aborts, the same foundations advertised, the same offer of the tool, and the same snapshot to pack
  into an export of the work-map. Registering a foundation for another work-map makes exactly such a difference.
\<close>

theorem bundles_do_not_leak:
  assumes "same_view tree r r'" "\<And>f. same_moment tree (moments f) (moments' f)"
    "\<And>run. getEnterpriseActiveRun st i = Some run \<Longrightarrow> treeId (run_plan run) = tree"
  shows "resolveEnterpriseKnowledge i q aborted st r moments = resolveEnterpriseKnowledge i q aborted st r' moments'
    \<and> describeWorkflowKnowledgeFoundations i st r = describeWorkflowKnowledgeFoundations i st r'
    \<and> runHasRetrievableKnowledgeFoundations i st r = runHasRetrievableKnowledgeFoundations i st r'
    \<and> snapshotEnterpriseKnowledgeFoundation tree f r = snapshotEnterpriseKnowledgeFoundation tree f r'
    \<and> (other \<noteq> tree \<longrightarrow> same_view tree r (registerBundleKnowledgeFoundation other g adapter r))"
proof -
  note same = same_view_lookups [OF assms(1)]
  have routable: "routableFoundationIds run r = routableFoundationIds run r'" if "treeId (run_plan run) = tree" for run
    using that by (simp add: routableFoundationIds_def same(2))
  have candidates: "knowledge_candidates run node q r = knowledge_candidates run node q r'" if "treeId (run_plan run) = tree" for run node
    using that by (simp add: knowledge_candidates_def same(2) split: option.split)
  have moments: "retrieve_foundations run node q moments fs acc = retrieve_foundations run node q moments' fs acc"
    if "treeId (run_plan run) = tree" for run node fs acc
    using that assms(2) by (intro retrieve_same_view) simp
  have "resolveEnterpriseKnowledge i q aborted st r moments = resolveEnterpriseKnowledge i q aborted st r' moments'"
    using assms(3) candidates moments by (auto simp: resolveEnterpriseKnowledge_def split: option.split)
  moreover have "describeWorkflowKnowledgeFoundations i st r = describeWorkflowKnowledgeFoundations i st r'"
      "runHasRetrievableKnowledgeFoundations i st r = runHasRetrievableKnowledgeFoundations i st r'"
    using assms(3) routable same(1)
    by (auto simp: describeWorkflowKnowledgeFoundations_def runHasRetrievableKnowledgeFoundations_def split: option.split)
  moreover have "snapshotEnterpriseKnowledgeFoundation tree f r = snapshotEnterpriseKnowledgeFoundation tree f r'"
    by (simp add: snapshotEnterpriseKnowledgeFoundation_def same(1))
  moreover have "same_view tree r (registerBundleKnowledgeFoundation other g adapter r)" if "other \<noteq> tree"
    using that by (simp add: same_view_def register_bundle_lookup)
  ultimately show ?thesis by blast
qed

text \<open>In the witness another work-map registers a foundation while the sample run retrieves.\<close>

definition other_knowledge :: KnowledgeRegistry where
  "other_knowledge = registerBundleKnowledgeFoundation ''billing'' ''secrets'' (sample_adapter (Inr [])) sample_knowledge"

theorem bundles_leak_witness:
  "resolveEnterpriseKnowledge ''r1'' sample_question False sample_registry other_knowledge
      (\<lambda>f. sample_moment f \<lparr> km_registry := other_knowledge \<rparr>) = sample_retrieval
    \<and> snapshotEnterpriseKnowledgeFoundation ''claims'' ''secrets'' other_knowledge = SnapshotNotRegistered"
proof -
  have view: "same_view ''claims'' sample_knowledge other_knowledge"
    by (simp add: same_view_def other_knowledge_def register_bundle_lookup)
  have moments: "same_moment ''claims'' (sample_moment f) (sample_moment f \<lparr> km_registry := other_knowledge \<rparr>)" for f
    using view by (simp add: same_moment_def sample_moment_def)
  have "map_option (\<lambda>run. treeId (run_plan run)) (getEnterpriseActiveRun sample_registry ''r1'') = Some ''claims''" by code_simp
  then have tree: "getEnterpriseActiveRun sample_registry ''r1'' = Some run \<Longrightarrow> treeId (run_plan run) = ''claims''" for run by auto
  have "snapshotEnterpriseKnowledgeFoundation ''claims'' ''secrets'' sample_knowledge = SnapshotNotRegistered"
    by (simp add: snapshotEnterpriseKnowledgeFoundation_def resolveRetrievalAdapter_def sample_knowledge_def bundle_of_def
        registerEnterpriseKnowledgeFoundation_def)
  then show ?thesis using bundles_do_not_leak [OF view moments tree, where q = sample_question and aborted = False and f = "''secrets''"]
    by (simp add: sample_retrieval_def)
qed

lemma load_records_loaded: "kr_loaded (fold (load_record collate trees) recs r) = kr_loaded r"
proof -
  have step: "kr_loaded (load_record collate trees rec r) = kr_loaded r" for rec r
    by (cases rec) (simp add: load_record_def registerBundleKnowledgeFoundation_def)
  show ?thesis by (induction recs arbitrary: r) (simp_all add: step)
qed

lemma reload_keeps:
  "kr_foundations (reloadPersistedBundleFoundations collate snapshot r) = kr_foundations r" "kr_loaded (reloadPersistedBundleFoundations collate snapshot r)"
  by (simp_all add: reloadPersistedBundleFoundations_def loadPersistedBundleFoundations_def registerBuiltinExampleKnowledgeFoundations_def
      load_records_foundations load_records_loaded clearBundleKnowledgeFoundations_def registerBundleKnowledgeFoundation_def
      split: option.split)

text \<open>
  C38. After a reload the bundle registry is what the state database says, whatever it held before. A work-map
  reaches a foundation of its bundle exactly when the database has a readable row for the two and the work-map is
  stored, valid, and references the foundation; the adapter then serves the stored snippets and calls itself remote.
  The shipped example is reached under its own ids exactly when no import owns them: an import of that work-map that
  cannot be read keeps it out, one that no longer references the foundation keeps it out, and one that references it
  keeps it out once the foundation is stored, readable or not. Plugins' foundations are untouched and still win, and
  the loading at start-up does nothing more.
\<close>

theorem reloaded_knowledge_is_the_store:
  assumes "tree_store_ok db" "distinct (map (\<lambda>r. (kf_tree r, kf_foundation r)) (td_foundations db))"
    "r' = reloadPersistedBundleFoundations collate (Some (readEnterpriseWorkflowKnowledgeSnapshot env fault db)) r"
  shows "(map_of (bundle_of tree r') f = Some adapter \<longleftrightarrow>
      (\<exists>row \<in> set (td_foundations db). kf_tree row = tree \<and> kf_foundation row = f \<and> fault row = None \<and> adapter = row_adapter collate row
         \<and> (\<exists>t. healthy_tree env db tree t \<and> f \<in> set (collectReferencedFoundationIds t)))
      \<or> (tree = tree_id BUILTIN_SUPPORT_EXAMPLE_TREE \<and> f = BUILTIN_SUPPORT_KNOWLEDGE_FOUNDATION_ID \<and> \<not> example_owned env db
         \<and> adapter = example_adapter collate))
    \<and> resolveRetrievalAdapter tree f r' = (case map_of (kr_foundations r) f of Some plugin \<Rightarrow> Some plugin | None \<Rightarrow> map_of (bundle_of tree r') f)
    \<and> ensureBundleFoundationsLoadedOnce collate snapshot r' = r'"
proof -
  have "map_of (bundle_of tree r') f = Some adapter \<longleftrightarrow>
      (\<exists>row \<in> set (td_foundations db). kf_tree row = tree \<and> kf_foundation row = f \<and> fault row = None \<and> adapter = row_adapter collate row
         \<and> (\<exists>t. healthy_tree env db tree t \<and> f \<in> set (collectReferencedFoundationIds t)))
      \<or> (tree = tree_id BUILTIN_SUPPORT_EXAMPLE_TREE \<and> f = BUILTIN_SUPPORT_KNOWLEDGE_FOUNDATION_ID \<and> \<not> example_owned env db
         \<and> adapter = example_adapter collate)"
    unfolding assms(3) by (rule reload_lookup [OF assms(1,2)])
  moreover have "kr_foundations r' = kr_foundations r" "kr_loaded r'" by (simp_all only: assms(3) reload_keeps)
  ultimately show ?thesis by (simp add: resolveRetrievalAdapter_def ensureBundleFoundationsLoadedOnce_def)
qed

text \<open>The witness stores a work-map that references one of its two foundations.\<close>

definition claims_node :: WorkflowNodeDefinition where
  "claims_node = WorkflowNode ''intake'' ''Intake'' None (Some (empty_binding \<lparr> knowledgeFoundations := Some [''claims-kb''] \<rparr>)) None"

definition claims_foundation :: "string \<Rightarrow> BundledFoundationRow" where
  "claims_foundation f = \<lparr> kf_tree = ''claims'', kf_foundation = f, kf_descriptor = \<lparr> kd_kind = FoundationLocal, kd_displayName = f,
     kd_detail = None, kd_description = None \<rparr>, kf_snippets = [], kf_imported = 1, kf_updated = 1 \<rparr>"

definition claims_store :: TreeDb where
  "claims_store = \<lparr> td_trees = [sample_row \<lparr> wt_definition := DefinitionOf (sample_tree \<lparr> tree_root := claims_node \<rparr>) \<rparr>, broken_row],
     td_versions = [], td_foundations = [claims_foundation ''claims-kb'', claims_foundation ''old-kb''],
     td_objects = \<lparr> db_objects = [], db_links = [] \<rparr> \<rparr>"

definition reloaded_knowledge :: KnowledgeRegistry where
  "reloaded_knowledge = reloadPersistedBundleFoundations (\<lambda>_ _. 0)
     (Some (readEnterpriseWorkflowKnowledgeSnapshot sample_env (\<lambda>_. None) claims_store)) other_knowledge"

theorem reloaded_knowledge_witness:
  "map_of (bundle_of ''claims'' reloaded_knowledge) ''claims-kb'' = Some (row_adapter (\<lambda>_ _. 0) (claims_foundation ''claims-kb''))
    \<and> map_of (bundle_of ''claims'' reloaded_knowledge) ''old-kb'' = None
    \<and> map_of (bundle_of ''billing'' reloaded_knowledge) ''secrets'' = None"
proof -
  have ok: "tree_store_ok claims_store"
    by (simp add: tree_store_ok_def claims_store_def revisions_def sample_row_def broken_row_def)
  have keys: "distinct (map (\<lambda>r. (kf_tree r, kf_foundation r)) (td_foundations claims_store))"
    by (simp add: claims_store_def claims_foundation_def)
  note reload = reloaded_knowledge_is_the_store [OF ok keys reloaded_knowledge_def, THEN conjunct1]
  have "validateWorkflowTreeDefinition (sample_tree \<lparr> tree_root := claims_node \<rparr>)" by code_simp
  then have healthy: "healthy_tree sample_env claims_store ''claims'' t \<longleftrightarrow> t = sample_tree \<lparr> tree_root := claims_node \<rparr>" for t
    by (auto simp: healthy_tree_def claims_store_def sample_row_def broken_row_def row_record_def rowToRecord_def sample_tree_id parseSourceFormat_def)
  have refs: "collectReferencedFoundationIds (sample_tree \<lparr> tree_root := claims_node \<rparr>) = [''claims-kb'']" by code_simp
  have other: "''claims'' \<noteq> tree_id BUILTIN_SUPPORT_EXAMPLE_TREE" "''billing'' \<noteq> tree_id BUILTIN_SUPPORT_EXAMPLE_TREE" by code_simp+
  have none: "x = None \<longleftrightarrow> (\<forall>a. x \<noteq> Some a)" for x :: "KnowledgeFoundationAdapter option" by simp
  show ?thesis using other unfolding none reload healthy
    by (simp add: refs claims_store_def claims_foundation_def)
qed

end
