(* ===== verification/Fence_Spans.thy ===== *)
theory Fence_Spans
  imports Tool_Policy
begin

text \<open>
  Fenced code blocks of \<^verbatim>\<open>packages/markdown-core/src/fences.ts\<close>: the incremental scanner and the search for the
  block around an offset. Offsets are counted in code units from the start of the buffer.
\<close>

definition line_feed :: char where
  "line_feed = CHR 0x0A"

definition carriage_return :: char where
  "carriage_return = CHR 0x0D"

section \<open>Lines and markers\<close>

record FenceSpan =
  fs_start :: nat
  fs_end :: nat
  fs_openLine :: string
  fs_marker :: string
  fs_indent :: string

record OpenFence =
  of_markerChar :: char
  of_markerLen :: nat
  of_openLine :: string
  of_marker :: string
  of_indent :: string

record FenceScanState =
  sc_atLineStart :: "bool option"
  sc_open :: "OpenFence option"

definition is_fence_char :: "char \<Rightarrow> bool" where
  "is_fence_char c \<longleftrightarrow> c = CHR 0x60 \<or> c = CHR 0x7E"

text \<open>\<open>^( {0,3})(`{3,}|~{3,})\<close> at the start of a line: the indent, the marker and what follows it.\<close>

definition fence_head :: "string \<Rightarrow> (string \<times> string \<times> string) option" where
  "fence_head line =
     (let indent = takeWhile (\<lambda>c. c = CHR '' '') line; rest = dropWhile (\<lambda>c. c = CHR '' '') line
      in case rest of [] \<Rightarrow> None
         | c # cs \<Rightarrow> let marker = takeWhile (\<lambda>d. d = c) rest
             in if length indent \<le> 3 \<and> is_fence_char c \<and> 3 \<le> length marker
                then Some (indent, marker, dropWhile (\<lambda>d. d = c) rest) else None)"

text \<open>The whole line, \<open>(.*)$\<close> included: what follows the marker holds no line terminator.\<close>

definition match_fence :: "string \<Rightarrow> (string \<times> string \<times> string) option" where
  "match_fence line = (case fence_head line of
     Some (indent, marker, rest) \<Rightarrow> if list_all (\<lambda>c. \<not> line_terminator c) rest then Some (indent, marker, rest) else None
   | None \<Rightarrow> None)"

definition strip_carriage_return :: "string \<Rightarrow> string" where
  "strip_carriage_return line = (if line \<noteq> [] \<and> last line = carriage_return then butlast line else line)"

section \<open>The scanner\<close>

definition span_of :: "nat \<Rightarrow> OpenFence \<Rightarrow> nat \<Rightarrow> FenceSpan" where
  "span_of start opened stop = \<lparr> fs_start = start, fs_end = stop, fs_openLine = of_openLine opened, fs_marker = of_marker opened, fs_indent = of_indent opened \<rparr>"

definition closes_fence :: "OpenFence \<Rightarrow> string \<Rightarrow> string \<Rightarrow> bool" where
  "closes_fence opened marker rest \<longleftrightarrow> of_markerChar opened = hd marker \<and> of_markerLen opened \<le> length marker
     \<and> list_all (\<lambda>c. c = CHR '' '' \<or> c = CHR 0x09) rest"

text \<open>One turn of the loop, on the raw text of a line; the open block is kept with the offset it starts at.\<close>

definition scan_line :: "bool \<Rightarrow> nat \<Rightarrow> string \<Rightarrow> (nat \<times> OpenFence) option \<times> FenceSpan list \<Rightarrow> (nat \<times> OpenFence) option \<times> FenceSpan list" where
  "scan_line startsAtLineStart offset raw = (\<lambda>(opened, spans).
     let line = strip_carriage_return raw
     in case match_fence line of None \<Rightarrow> (opened, spans)
        | Some (indent, marker, rest) \<Rightarrow>
            if \<not> (0 < offset \<or> startsAtLineStart) then (opened, spans)
            else case opened of
                None \<Rightarrow> (Some (offset, \<lparr> of_markerChar = hd marker, of_markerLen = length marker, of_openLine = line, of_marker = marker, of_indent = indent \<rparr>), spans)
              | Some (start, fence) \<Rightarrow> if closes_fence fence marker rest
                  then (None, spans @ [span_of start fence (offset + length raw)]) else (opened, spans))"

fun scan_lines :: "bool \<Rightarrow> nat \<Rightarrow> string list \<Rightarrow> (nat \<times> OpenFence) option \<times> FenceSpan list \<Rightarrow> (nat \<times> OpenFence) option \<times> FenceSpan list" where
  "scan_lines s offset [] st = st"
| "scan_lines s offset (raw # lines) st = scan_lines s (offset + length raw + 1) lines (scan_line s offset raw st)"

definition scanFenceSpans :: "string \<Rightarrow> FenceScanState option \<Rightarrow> FenceSpan list \<times> FenceScanState" where
  "scanFenceSpans buffer state =
     (let startsAtLineStart = (case state of Some s \<Rightarrow> (case sc_atLineStart s of Some b \<Rightarrow> b | None \<Rightarrow> True) | None \<Rightarrow> True);
          carried = map_option (\<lambda>fence. (0, fence)) (case state of Some s \<Rightarrow> sc_open s | None \<Rightarrow> None);
          (opened, spans) = scan_lines startsAtLineStart 0 (split_on line_feed buffer) (carried, [])
      in (spans @ (case opened of None \<Rightarrow> [] | Some (start, fence) \<Rightarrow> [span_of start fence (length buffer)]),
          \<lparr> sc_atLineStart = Some (if buffer = [] then startsAtLineStart else last buffer = line_feed), sc_open = map_option snd opened \<rparr>))"

definition parseFenceSpans :: "string \<Rightarrow> FenceSpan list" where
  "parseFenceSpans buffer = fst (scanFenceSpans buffer None)"

section \<open>The block around an offset\<close>

function find_span :: "FenceSpan list \<Rightarrow> nat \<Rightarrow> int \<Rightarrow> int \<Rightarrow> FenceSpan option" where
  "find_span spans index low high =
     (if high < low then None
      else let mid = (low + high) div 2
           in if mid < 0 \<or> int (length spans) \<le> mid then None
              else let span = spans ! nat mid
                   in if index \<le> fs_start span then find_span spans index low (mid - 1)
                      else if fs_end span \<le> index then find_span spans index (mid + 1) high
                      else Some span)"
  by pat_completeness auto

termination
  by (relation "measure (\<lambda>(spans, index, low, high). nat (high - low + 1))") auto

declare find_span.simps [simp del]

definition findFenceSpanAt :: "FenceSpan list \<Rightarrow> nat \<Rightarrow> FenceSpan option" where
  "findFenceSpanAt spans index = find_span spans index 0 (int (length spans) - 1)"

definition isSafeFenceBreak :: "FenceSpan list \<Rightarrow> nat \<Rightarrow> bool" where
  "isSafeFenceBreak spans index \<longleftrightarrow> findFenceSpanAt spans index = None"

section \<open>The spans of a buffer are in order\<close>

text \<open>Blocks follow one another, and an open one starts behind all of them.\<close>

definition ordered_spans :: "FenceSpan list \<Rightarrow> bool" where
  "ordered_spans spans \<longleftrightarrow> sorted_wrt (\<lambda>a b. fs_end a \<le> fs_start b) spans \<and> (\<forall>a \<in> set spans. fs_start a \<le> fs_end a)"

definition scan_ok :: "nat \<Rightarrow> (nat \<times> OpenFence) option \<times> FenceSpan list \<Rightarrow> bool" where
  "scan_ok offset st \<longleftrightarrow> ordered_spans (snd st) \<and> (\<forall>a \<in> set (snd st). fs_end a \<le> offset)
     \<and> (\<forall>start fence. fst st = Some (start, fence) \<longrightarrow> start \<le> offset \<and> (\<forall>a \<in> set (snd st). fs_end a \<le> start))"

lemma scan_line_ok: "scan_ok offset st \<Longrightarrow> scan_ok (offset + length raw) (scan_line s offset raw st)"
  unfolding scan_line_def
  by (cases st) (fastforce simp: scan_ok_def ordered_spans_def span_of_def sorted_wrt_append Let_def split: option.splits)

lemma scan_ok_later: "scan_ok offset st \<Longrightarrow> offset \<le> offset' \<Longrightarrow> scan_ok offset' st"
  by (force simp: scan_ok_def)

lemma scan_lines_ok:
  "scan_ok offset st \<Longrightarrow> scan_ok (offset + (\<Sum>l \<leftarrow> l # lines. length l + 1) - 1) (scan_lines s offset (l # lines) st)"
proof (induction lines arbitrary: offset st l)
  case Nil
  then show ?case using scan_line_ok [of offset st l s] by simp
next
  case (Cons l' lines)
  have "scan_ok (offset + length l + 1) (scan_line s offset l st)"
    using scan_ok_later [OF scan_line_ok [OF Cons.prems, of l s], of "offset + length l + 1"] by simp
  from Cons.IH [OF this, of l'] show ?case by (simp add: ac_simps)
qed

lemma split_on_cons: "\<exists>l ls. split_on c s = l # ls \<and> (\<Sum>x \<leftarrow> l # ls. length x + 1) = length s + 1"
  by (induction s) auto

lemma scanned_in_order: "ordered_spans (fst (scanFenceSpans buffer state))"
proof -
  let ?carried = "map_option (\<lambda>fence. (0, fence)) (case state of Some s \<Rightarrow> sc_open s | None \<Rightarrow> None) :: (nat \<times> OpenFence) option"
  have start: "scan_ok 0 (?carried, [])" by (auto simp: scan_ok_def ordered_spans_def)
  obtain l ls where ls: "split_on line_feed buffer = l # ls" "(\<Sum>x \<leftarrow> l # ls. length x + 1) = length buffer + 1"
    using split_on_cons by blast
  have ok: "scan_ok (length buffer) (scan_lines s 0 (split_on line_feed buffer) (?carried, []))" for s
    using scan_lines_ok [OF start, of l ls s] unfolding ls by simp
  have close: "ordered_spans (spans @ (case opened of None \<Rightarrow> [] | Some (start, fence) \<Rightarrow> [span_of start fence (length buffer)]))"
    if "scan_ok (length buffer) (opened, spans)" for opened spans
  proof (cases opened)
    case None
    then show ?thesis using that by (simp add: scan_ok_def)
  next
    case (Some entry)
    obtain start fence where "entry = (start, fence)" by (cases entry)
    with Some that show ?thesis by (simp add: scan_ok_def ordered_spans_def span_of_def sorted_wrt_append)
  qed
  define s where "s = (case state of Some s \<Rightarrow> (case sc_atLineStart s of Some b \<Rightarrow> b | None \<Rightarrow> True) | None \<Rightarrow> True)"
  obtain opened spans where scanned: "scan_lines s 0 (split_on line_feed buffer) (?carried, []) = (opened, spans)" by fastforce
  then have "fst (scanFenceSpans buffer state) = spans @ (case opened of None \<Rightarrow> [] | Some (start, fence) \<Rightarrow> [span_of start fence (length buffer)])"
    by (simp add: scanFenceSpans_def Let_def s_def)
  moreover have "scan_ok (length buffer) (opened, spans)" using ok [of s] scanned by simp
  ultimately show ?thesis using close by simp
qed

section \<open>The search\<close>

lemma ordered_starts: "ordered_spans spans \<Longrightarrow> i < j \<Longrightarrow> j < length spans \<Longrightarrow> fs_end (spans ! i) \<le> fs_start (spans ! j)"
  using sorted_wrt_nth_less [of "\<lambda>a b. fs_end a \<le> fs_start b" spans i j] by (simp add: ordered_spans_def)

lemma ordered_bounds: "ordered_spans spans \<Longrightarrow> j < length spans \<Longrightarrow> fs_start (spans ! j) \<le> fs_end (spans ! j)"
  by (simp add: ordered_spans_def)

lemma ordered_unique:
  assumes "ordered_spans spans" "s \<in> set spans" "t \<in> set spans" "fs_start s < index" "index < fs_end s" "fs_start t < index" "index < fs_end t"
  shows "s = t"
proof -
  obtain i j where ij: "i < length spans" "j < length spans" "spans ! i = s" "spans ! j = t"
    using assms(2,3) by (auto simp: in_set_conv_nth)
  have "\<not> i < j" "\<not> j < i" using ordered_starts [OF assms(1), of i j] ordered_starts [OF assms(1), of j i] ij assms(4-7) by auto
  then show ?thesis using ij by simp
qed

lemma search_found: "find_span spans index low high = Some found \<Longrightarrow> found \<in> set spans \<and> fs_start found < index \<and> index < fs_end found"
proof (induction spans index low high rule: find_span.induct)
  case (1 spans index low high)
  let ?mid = "(low + high) div 2"
  note unfold = 1(3) [unfolded find_span.simps [of spans index low high] Let_def]
  have mid: "\<not> high < low" "\<not> (?mid < 0 \<or> int (length spans) \<le> ?mid)" using unfold by (auto split: if_splits)
  then have "nat ?mid < length spans" by linarith
  then show ?case using unfold mid 1(1,2) [OF mid(1) refl mid(2) refl] by (auto split: if_splits)
qed

lemma search_misses:
  assumes "find_span spans index low high = None" "ordered_spans spans" "0 \<le> low" "high < int (length spans)"
    "low \<le> int k" "int k \<le> high"
  shows "\<not> (fs_start (spans ! k) < index \<and> index < fs_end (spans ! k))"
  using assms
proof (induction spans index low high arbitrary: k rule: find_span.induct)
  case (1 spans index low high)
  let ?mid = "(low + high) div 2"
  have mid: "low \<le> high" "low \<le> ?mid" "?mid \<le> high" "0 \<le> ?mid" "?mid < int (length spans)" using 1(5-8) by auto
  let ?span = "spans ! nat ?mid"
  have k: "k < length spans" using 1(6,8) by simp
  have later: "k < nat ?mid \<Longrightarrow> fs_end (spans ! k) \<le> fs_start ?span" using ordered_starts [OF 1(4), of k "nat ?mid"] mid by simp
  have earlier: "nat ?mid < k \<Longrightarrow> fs_end ?span \<le> fs_start (spans ! k)" using ordered_starts [OF 1(4) _ k] by simp
  have bounds: "fs_start (spans ! k) \<le> fs_end (spans ! k)" "fs_start ?span \<le> fs_end ?span" using ordered_bounds [OF 1(4)] k mid by auto
  consider (left) "index \<le> fs_start ?span" | (right) "\<not> index \<le> fs_start ?span" "fs_end ?span \<le> index"
    | (hit) "fs_start ?span < index" "index < fs_end ?span" by linarith
  then show ?case
  proof cases
    case left
    with 1(3) mid have "find_span spans index low (?mid - 1) = None" by (subst (asm) find_span.simps) (simp add: Let_def)
    then have "int k \<le> ?mid - 1 \<Longrightarrow> ?thesis" using 1(1) [of ?mid ?span k] left mid 1(4,5,7) by simp
    moreover have "nat ?mid \<le> k \<Longrightarrow> ?thesis" using left earlier bounds by (cases "nat ?mid = k") auto
    ultimately show ?thesis using mid by linarith
  next
    case right
    with 1(3) mid have "find_span spans index (?mid + 1) high = None" by (subst (asm) find_span.simps) (simp add: Let_def)
    then have "?mid + 1 \<le> int k \<Longrightarrow> ?thesis" using 1(2) [of ?mid ?span k] right mid 1(4-8) by simp
    moreover have "k \<le> nat ?mid \<Longrightarrow> ?thesis" using right later bounds by (cases "nat ?mid = k") auto
    ultimately show ?thesis using mid by linarith
  next
    case hit
    with 1(3) mid show ?thesis by (subst (asm) find_span.simps) (simp add: Let_def)
  qed
qed

text \<open>
  The search for the block around an offset is exact on every buffer, scanned whole or as a later chunk of a
  stream: it answers a block exactly when the offset lies strictly inside it, so that a break is reported safe
  exactly when it splits no fenced block.
\<close>

theorem fence_search_is_exact:
  "(findFenceSpanAt (fst (scanFenceSpans buffer state)) index = Some found \<longleftrightarrow>
      found \<in> set (fst (scanFenceSpans buffer state)) \<and> fs_start found < index \<and> index < fs_end found)
   \<and> (isSafeFenceBreak (parseFenceSpans buffer) index \<longleftrightarrow>
      list_all (\<lambda>s. index \<le> fs_start s \<or> fs_end s \<le> index) (parseFenceSpans buffer))"
proof -
  have some: "findFenceSpanAt spans index = Some s \<Longrightarrow> s \<in> set spans \<and> fs_start s < index \<and> index < fs_end s" for spans s
    by (simp add: findFenceSpanAt_def search_found)
  have hit: "\<exists>t. findFenceSpanAt spans index = Some t" if "ordered_spans spans" "s \<in> set spans" "fs_start s < index" "index < fs_end s" for spans s
  proof (rule ccontr)
    assume "\<nexists>t. findFenceSpanAt spans index = Some t"
    then have none: "find_span spans index 0 (int (length spans) - 1) = None" by (simp add: findFenceSpanAt_def)
    obtain k where "k < length spans" "spans ! k = s" using \<open>s \<in> set spans\<close> by (auto simp: in_set_conv_nth)
    with search_misses [OF none \<open>ordered_spans spans\<close>, of k] that show False by auto
  qed
  have o: "ordered_spans (fst (scanFenceSpans buffer state))" "ordered_spans (parseFenceSpans buffer)"
    by (simp_all add: scanned_in_order parseFenceSpans_def)
  have "findFenceSpanAt (fst (scanFenceSpans buffer state)) index = Some found \<longleftrightarrow>
      found \<in> set (fst (scanFenceSpans buffer state)) \<and> fs_start found < index \<and> index < fs_end found"
    using some hit [OF o(1)] ordered_unique [OF o(1)] by metis
  moreover have "isSafeFenceBreak (parseFenceSpans buffer) index \<longleftrightarrow>
      list_all (\<lambda>s. index \<le> fs_start s \<or> fs_end s \<le> index) (parseFenceSpans buffer)"
    unfolding isSafeFenceBreak_def list_all_iff using some hit [OF o(2)] by (metis leD leI not_None_eq)
  ultimately show ?thesis by blast
qed

section \<open>Chunks\<close>

text \<open>What a line does to the open block, whatever its offset.\<close>

definition fence_step :: "bool \<Rightarrow> string \<Rightarrow> OpenFence option \<Rightarrow> OpenFence option" where
  "fence_step at_start raw opened = map_option snd (fst (scan_line at_start 0 raw (map_option (Pair 0) opened, [])))"

lemma scan_line_step: "map_option snd (fst (scan_line s offset raw st)) = fence_step (0 < offset \<or> s) raw (map_option snd (fst st))"
  by (cases st) (auto simp: scan_line_def fence_step_def Let_def option.map_comp comp_def option.map_ident split: option.splits)

lemma scan_lines_step: "map_option snd (fst (scan_lines s offset (l # ls) st))
    = fold (fence_step True) ls (fence_step (0 < offset \<or> s) l (map_option snd (fst st)))"
proof (induction ls arbitrary: l offset st)
  case Nil
  then show ?case by (simp add: scan_line_step)
next
  case (Cons l' ls)
  from Cons.IH [of "offset + length l + 1" l' "scan_line s offset l st"] show ?case by (simp add: scan_line_step)
qed

lemma fence_step_Nil [simp]: "fence_step s [] opened = opened"
  by (cases opened) (simp_all add: fence_step_def scan_line_def strip_carriage_return_def match_fence_def fence_head_def)

lemma split_on_append:
  "split_on c (x @ y) = butlast (split_on c x) @ (last (split_on c x) @ hd (split_on c y)) # tl (split_on c y)"
proof (induction x)
  case Nil
  then show ?case by (cases "split_on c y") simp_all
next
  case (Cons d x)
  obtain l ls where "split_on c x = l # ls" using split_on_cons by blast
  with Cons.IH show ?case by (cases ls) auto
qed

definition carried_open :: "FenceScanState option \<Rightarrow> OpenFence option" where
  "carried_open state = (case state of Some s \<Rightarrow> sc_open s | None \<Rightarrow> None)"

definition carried_start :: "FenceScanState option \<Rightarrow> bool" where
  "carried_start state = (case state of Some s \<Rightarrow> (case sc_atLineStart s of Some b \<Rightarrow> b | None \<Rightarrow> True) | None \<Rightarrow> True)"

lemma scan_state: "snd (scanFenceSpans buffer state) =
   \<lparr> sc_atLineStart = Some (if buffer = [] then carried_start state else last buffer = line_feed),
     sc_open = fold (fence_step True) (tl (split_on line_feed buffer)) (fence_step (carried_start state) (hd (split_on line_feed buffer)) (carried_open state)) \<rparr>"
proof -
  obtain l ls where ls: "split_on line_feed buffer = l # ls" using split_on_cons by blast
  let ?st = "(map_option (\<lambda>fence. (0, fence)) (carried_open state), []) :: (nat \<times> OpenFence) option \<times> FenceSpan list"
  have "snd (scanFenceSpans buffer state) = \<lparr> sc_atLineStart = Some (if buffer = [] then carried_start state else last buffer = line_feed),
      sc_open = map_option snd (fst (scan_lines (carried_start state) 0 (l # ls) ?st)) \<rparr>"
    by (simp add: scanFenceSpans_def Let_def ls carried_start_def carried_open_def split: prod.split)
  then show ?thesis using scan_lines_step [of "carried_start state" 0 l ls ?st] by (simp add: ls comp_def option.map_comp option.map_ident)
qed

text \<open>
  A stream of Markdown may be scanned in chunks: when the first chunk ends at a line, scanning the second from the
  state the first left gives the state of scanning both at once, with the same block open and the same position in
  the line.
\<close>

theorem chunked_scan_is_the_scan:
  assumes "first = [] \<or> last first = line_feed"
  shows "snd (scanFenceSpans (first @ second) state) = snd (scanFenceSpans second (Some (snd (scanFenceSpans first state))))"
proof (cases "first = []")
  case True
  then show ?thesis by (simp add: scan_state carried_start_def carried_open_def)
next
  case False
  with assms obtain pre where pre: "first = pre @ [line_feed]" by (metis append_butlast_last_id)
  obtain l ls where ls: "split_on line_feed pre = l # ls" using split_on_cons by blast
  have first: "split_on line_feed first = (l # ls) @ [[]]" unfolding pre split_on_append ls by simp
  obtain k ks where ks: "split_on line_feed second = k # ks" using split_on_cons by blast
  have both: "split_on line_feed (first @ second) = (l # ls) @ k # ks" unfolding split_on_append [of line_feed first] first ks by simp
  show ?thesis unfolding scan_state [of "first @ second"] scan_state [of second] both ks
    using False assms by (simp add: scan_state [of first] first carried_start_def carried_open_def)
qed

theorem chunked_scan_witness:
  "snd (scanFenceSpans (replicate 3 (CHR 0x60) @ [line_feed] @ ''code'') None)
     = snd (scanFenceSpans ''code'' (Some (snd (scanFenceSpans (replicate 3 (CHR 0x60) @ [line_feed]) None))))"
  using chunked_scan_is_the_scan [of "replicate 3 (CHR 0x60) @ [line_feed]" "''code''" None] by simp

end
