(* ===== verification/Skill_Instructions.thy ===== *)
theory Skill_Instructions
  imports Fence_Spans Prompt_Digest
begin

text \<open>
  The instructions of declared skills, \<^verbatim>\<open>src/enterprise/skill-instructions.ts\<close>: which SKILL.md bodies a run's prompt
  carries, and how they are cut to the budget. Opening a file inside its boundary is a parameter; the text it gives
  has no byte order mark. Logging is left out.
\<close>

section \<open>Limits\<close>

definition MAX_SKILLS :: int where
  "MAX_SKILLS = 8"

definition MAX_CHARS_PER_SKILL :: int where
  "MAX_CHARS_PER_SKILL = 4000"

definition MAX_TOTAL_CHARS :: int where
  "MAX_TOTAL_CHARS = 12000"

definition DEFAULT_SKILL_READ_BYTES :: int where
  "DEFAULT_SKILL_READ_BYTES = 256000"

definition APPENDIX_LABEL_CHARS :: int where
  "APPENDIX_LABEL_CHARS = int (length (newline @ ''Skill instructions for the steps above ():'' @ newline))"

definition perSkillWrapperCost :: "string \<Rightarrow> int" where
  "perSkillWrapperCost name = int (length (''### '' @ name @ newline)) + int (length name) + 2"

record AvailableSkill =
  sk_name :: string
  sk_filePath :: string
  sk_baseDir :: string

section \<open>Bodies\<close>

fun normalize_newlines :: "string \<Rightarrow> string" where
  "normalize_newlines [] = []"
| "normalize_newlines [c] = [if c = carriage_return then line_feed else c]"
| "normalize_newlines (c # d # ds) =
     (if c = carriage_return \<and> d = line_feed then line_feed # normalize_newlines ds
      else (if c = carriage_return then line_feed else c) # normalize_newlines (d # ds))"

definition skillBody :: "string \<Rightarrow> string" where
  "skillBody content =
     (let normalized = normalize_newlines content
      in if \<not> startsWith normalized ''---'' then trim normalized
         else case List.find (\<lambda>k. startsWith (drop k normalized) (line_feed # ''---'')) [3..<length normalized] of
             None \<Rightarrow> trim normalized
           | Some stop \<Rightarrow> trim (drop (stop + 4) normalized))"

definition readSkillBody :: "(AvailableSkill \<Rightarrow> int \<Rightarrow> string option result) \<Rightarrow> AvailableSkill \<Rightarrow> int \<Rightarrow> string option result" where
  "readSkillBody openSkill skill maxBytes = (case openSkill skill maxBytes of
     Inl message \<Rightarrow> Inl message | Inr opened \<Rightarrow> Inr (map_option skillBody opened))"

definition collectPlanDeclaredSkills :: "EnterpriseRunPlan \<Rightarrow> string list" where
  "collectPlanDeclaredSkills plan = sorted_set (concat (map (\<lambda>node. opt_list (skills (ontology node))) (nodes plan)))"

section \<open>Bounding\<close>

definition openFenceMarker :: "string \<Rightarrow> string option" where
  "openFenceMarker body = map_option of_marker (sc_open (snd (scanFenceSpans body None)))"

definition longestFenceMarker :: "string \<Rightarrow> nat" where
  "longestFenceMarker body = fold max (List.map_filter (\<lambda>line. map_option (\<lambda>(indent, marker, rest). length marker) (fence_head line))
     (split_on line_feed (map (\<lambda>c. if line_terminator c then line_feed else c) body))) 0"

definition trimEnd :: "string \<Rightarrow> string" where
  "trimEnd s = rev (dropWhile is_space (rev s))"

definition close_fence :: "string \<Rightarrow> string" where
  "close_fence body = (case openFenceMarker body of Some marker \<Rightarrow> body @ line_feed # marker | None \<Rightarrow> body)"

definition boundBody :: "string \<Rightarrow> nat \<Rightarrow> string" where
  "boundBody body limit =
     (let closerCost = (case openFenceMarker body of Some marker \<Rightarrow> length marker + 1 | None \<Rightarrow> 0)
      in if length body + closerCost \<le> limit then close_fence body
         else let reserve = longestFenceMarker body;
                  room = limit - 1 - (if 0 < reserve then reserve + 1 else 0)
              in close_fence (trimEnd (take room body) @ [ellipsis]))"

section \<open>Resolving\<close>

record SkillBudget =
  sb_skillCap :: int
  sb_readBytes :: int
  sb_total :: int

definition skill_budget :: "int option \<Rightarrow> int option \<Rightarrow> int option \<Rightarrow> SkillBudget" where
  "skill_budget maxPromptChars maxSkills maxSkillFileBytes = \<lparr>
     sb_skillCap = min MAX_SKILLS (max 0 (case maxSkills of None \<Rightarrow> MAX_SKILLS | Some n \<Rightarrow> n)),
     sb_readBytes = max 1 (case maxSkillFileBytes of None \<Rightarrow> DEFAULT_SKILL_READ_BYTES | Some n \<Rightarrow> n),
     sb_total = (case maxPromptChars of None \<Rightarrow> MAX_TOTAL_CHARS | Some n \<Rightarrow> min MAX_TOTAL_CHARS (max 0 n - APPENDIX_LABEL_CHARS)) \<rparr>"

fun resolve_skills :: "(AvailableSkill \<Rightarrow> int \<Rightarrow> string option result) \<Rightarrow> (string \<Rightarrow> AvailableSkill option) \<Rightarrow> SkillBudget \<Rightarrow> string list \<Rightarrow>
    ResolvedSkillInstructions list \<Rightarrow> int \<Rightarrow> ResolvedSkillInstructions list" where
  "resolve_skills openSkill byName budget [] resolved spent = resolved"
| "resolve_skills openSkill byName budget (name # names) resolved spent =
     (if sb_skillCap budget \<le> int (length resolved) \<or> sb_total budget \<le> spent then resolved
      else case byName name of None \<Rightarrow> resolve_skills openSkill byName budget names resolved spent
        | Some skill \<Rightarrow> (case readSkillBody openSkill skill (sb_readBytes budget) of
            Inr (Some (c # cs)) \<Rightarrow>
              (let room = min MAX_CHARS_PER_SKILL (sb_total budget - spent - perSkillWrapperCost name);
                   instructions = boundBody (c # cs) (nat room)
               in if room \<le> 0 then resolved
                  else resolve_skills openSkill byName budget names (resolved @ [\<lparr> si_name = name, si_instructions = instructions \<rparr>])
                    (spent + int (length instructions) + perSkillWrapperCost name))
          | _ \<Rightarrow> resolve_skills openSkill byName budget names resolved spent))"

definition resolveEnterpriseSkillInstructions :: "(AvailableSkill \<Rightarrow> int \<Rightarrow> string option result) \<Rightarrow> EnterpriseRunPlan \<Rightarrow> AvailableSkill list option \<Rightarrow>
    int option \<Rightarrow> int option \<Rightarrow> int option \<Rightarrow> ResolvedSkillInstructions list" where
  "resolveEnterpriseSkillInstructions openSkill plan available maxPromptChars maxSkills maxSkillFileBytes =
     (let declared = collectPlanDeclaredSkills plan; budget = skill_budget maxPromptChars maxSkills maxSkillFileBytes
      in if declared = [] \<or> opt_list available = [] then []
         else if sb_total budget \<le> 0 \<or> sb_skillCap budget = 0 then []
         else resolve_skills openSkill (map_of (js_map_of (map (\<lambda>skill. (sk_name skill, skill)) (opt_list available)))) budget declared [] 0)"

end
