(* ===== verification/Skill_Properties.thy ===== *)
theory Skill_Properties
  imports Skill_Instructions Sample_Data
begin

text \<open>
  What a prompt carries of its skills: bodies a step declared and the agent has, each closed and within its limit, in
  an appendix whose size is known.
\<close>

section \<open>Fences\<close>

lemma fence_head_marker:
  assumes "fence_head line = Some (indent, marker, rest)"
  shows "3 \<le> length marker" "is_fence_char (hd marker)" "marker = replicate (length marker) (hd marker)"
proof -
  from assms obtain c cs where m: "dropWhile (\<lambda>c. c = CHR '' '') line = c # cs" "marker = takeWhile (\<lambda>d. d = c) (c # cs)"
    "is_fence_char c" "3 \<le> length marker"
    by (auto simp: fence_head_def Let_def split: list.splits if_splits)
  have all: "\<forall>d \<in> set marker. d = c" using m(2) by (auto dest: set_takeWhileD)
  have hd: "hd marker = c" using m(2) by simp
  show "3 \<le> length marker" "is_fence_char (hd marker)" using m(3,4) hd by auto
  show "marker = replicate (length marker) (hd marker)" using all unfolding hd by (metis replicate_length_same)
qed

lemma marker_line: "is_fence_char c \<Longrightarrow> 3 \<le> n \<Longrightarrow> fence_head (replicate n c) = Some ([], replicate n c, [])"
  by (cases n) (auto simp: fence_head_def is_fence_char_def Let_def takeWhile_replicate dropWhile_replicate)

text \<open>An open block came from the head of a line, so that its own marker closes it.\<close>

definition open_ok :: "OpenFence option \<Rightarrow> bool" where
  "open_ok opened \<longleftrightarrow> (\<forall>fence. opened = Some fence \<longrightarrow> is_fence_char (of_markerChar fence) \<and> 3 \<le> of_markerLen fence
     \<and> of_marker fence = replicate (of_markerLen fence) (of_markerChar fence))"

lemma step_cases: "fence_step s raw opened = opened \<or> fence_step s raw opened = None
    \<or> (\<exists>fence indent marker rest. fence_step s raw opened = Some fence \<and> match_fence (strip_carriage_return raw) = Some (indent, marker, rest)
         \<and> fence = \<lparr> of_markerChar = hd marker, of_markerLen = length marker, of_openLine = strip_carriage_return raw, of_marker = marker, of_indent = indent \<rparr>)"
  by (cases opened) (auto simp: fence_step_def scan_line_def Let_def split: option.splits)

lemma match_head: "match_fence line = Some m \<Longrightarrow> fence_head line = Some m"
  by (auto simp: match_fence_def split: option.splits if_splits)

lemma step_ok:
  assumes "open_ok opened"
  shows "open_ok (fence_step s raw opened)"
  using step_cases [of s raw opened] assms fence_head_marker [OF match_head] by (fastforce simp: open_ok_def)

lemma steps_ok: "open_ok opened \<Longrightarrow> open_ok (fold (fence_step True) lines opened)"
  by (induction lines arbitrary: opened) (simp_all add: step_ok)

definition scan_open :: "string \<Rightarrow> OpenFence option" where
  "scan_open body = fold (fence_step True) (split_on line_feed body) None"

lemma openFenceMarker_scan: "openFenceMarker body = map_option of_marker (scan_open body)"
proof -
  obtain l ls where "split_on line_feed body = l # ls" using split_on_cons by blast
  then show ?thesis by (simp add: openFenceMarker_def scan_open_def scan_state carried_start_def carried_open_def)
qed

lemma scan_open_ok: "open_ok (scan_open body)"
  unfolding scan_open_def by (rule steps_ok) (simp add: open_ok_def)

lemma marker_closes:
  assumes "open_ok (Some fence)"
  shows "fence_step True (of_marker fence) (Some fence) = None"
proof -
  let ?c = "of_markerChar fence" and ?n = "of_markerLen fence"
  have m: "is_fence_char ?c" "3 \<le> ?n" "of_marker fence = replicate ?n ?c" using assms by (auto simp: open_ok_def)
  then have "last (of_marker fence) = ?c" "hd (of_marker fence) = ?c" "of_marker fence \<noteq> []" by (cases ?n; simp add: last_replicate)+
  moreover have "?c \<noteq> carriage_return" using m(1) by (auto simp: is_fence_char_def carriage_return_def)
  ultimately have "strip_carriage_return (of_marker fence) = of_marker fence" by (simp add: strip_carriage_return_def)
  moreover have "match_fence (of_marker fence) = Some ([], of_marker fence, [])" using marker_line [OF m(1,2)] m(3) by (simp add: match_fence_def)
  ultimately show ?thesis using m(3) \<open>hd (of_marker fence) = ?c\<close>
    by (simp add: fence_step_def scan_line_def closes_fence_def)
qed

lemma split_on_plain: "c \<notin> set s \<Longrightarrow> split_on c s = [s]"
  by (induction s) auto

lemma split_on_subset: "line \<in> set (split_on c s) \<Longrightarrow> set line \<subseteq> set s"
  by (induction s arbitrary: line) (fastforce split: list.splits if_splits)+

lemma close_fence_closed: "openFenceMarker (close_fence body) = None"
proof (cases "scan_open body")
  case None
  then show ?thesis by (simp add: close_fence_def openFenceMarker_scan)
next
  case (Some fence)
  have ok: "open_ok (Some fence)" using scan_open_ok [of body] Some by simp
  then have "is_fence_char (of_markerChar fence)" "of_marker fence = replicate (of_markerLen fence) (of_markerChar fence)" by (auto simp: open_ok_def)
  then have "line_feed \<notin> set (of_marker fence)" by (auto simp: is_fence_char_def line_feed_def)
  then have "split_on line_feed (of_marker fence) = [of_marker fence]" by (rule split_on_plain)
  then have "split_on line_feed (body @ line_feed # of_marker fence) = split_on line_feed body @ [of_marker fence]"
    using split_on_append [of line_feed body "line_feed # of_marker fence"] by simp
  then have "scan_open (body @ line_feed # of_marker fence) = None"
    using Some marker_closes [OF ok] by (simp add: scan_open_def)
  then show ?thesis using Some by (simp add: close_fence_def openFenceMarker_scan)
qed

section \<open>The bound of a body\<close>

lemma fold_max_start: "n \<le> fold max xs n" for n :: nat
proof (induction xs arbitrary: n)
  case (Cons x xs)
  from Cons.IH [of "max x n"] show ?case by simp
qed simp

lemma fold_max_ge: "x \<in> set xs \<Longrightarrow> x \<le> fold max xs n" for x n :: nat
proof (induction xs arbitrary: n)
  case (Cons y ys)
  then show ?case using fold_max_start [of "max y n" ys] by auto
qed simp

lemma longest_marker:
  assumes "carriage_return \<notin> set body" "line \<in> set (split_on line_feed body)" "fence_head line = Some (indent, marker, rest)"
  shows "length marker \<le> longestFenceMarker body"
proof -
  have "map (\<lambda>c. if line_terminator c then line_feed else c) body = body"
    using assms(1) by (auto simp: line_terminator_def line_feed_def carriage_return_def intro: map_idI)
  then show ?thesis unfolding longestFenceMarker_def using assms(2,3)
    by (intro fold_max_ge) (force simp: List.map_filter_def)
qed

lemma takeWhile_longer: "length (takeWhile P xs) \<le> length (takeWhile P (xs @ ys))"
  by (induction xs) auto

lemma head_of_cut:
  assumes "fence_head (u @ [ellipsis]) = Some (indent, marker, rest)"
  shows "\<exists>indent' marker' rest'. fence_head (u @ v) = Some (indent', marker', rest') \<and> length marker \<le> length marker'"
proof -
  let ?sp = "\<lambda>c. c = CHR '' ''"
  have e: "\<not> is_fence_char ellipsis" "\<not> ?sp ellipsis" by (simp_all add: ellipsis_def is_fence_char_def)
  obtain c ws where w: "dropWhile ?sp u = c # ws"
  proof (cases "dropWhile ?sp u")
    case Nil
    then have "\<forall>x \<in> set u. ?sp x" by (simp add: dropWhile_eq_Nil_conv)
    then have "dropWhile ?sp (u @ [ellipsis]) = [ellipsis]" using e by (simp add: dropWhile_append)
    then show ?thesis using assms e by (simp add: fence_head_def)
  next
    case (Cons c ws)
    then show ?thesis by (rule that)
  qed
  then have "\<exists>x \<in> set u. \<not> ?sp x" using dropWhile_eq_Nil_conv [of ?sp u] by auto
  then have app: "dropWhile ?sp (u @ x) = c # ws @ x" "takeWhile ?sp (u @ x) = takeWhile ?sp u" for x
    using w by (auto simp: dropWhile_append takeWhile_append)
  have c: "is_fence_char c" "length (takeWhile ?sp u) \<le> 3" "marker = takeWhile (\<lambda>d. d = c) (c # ws @ [ellipsis])" "3 \<le> length marker"
    using assms by (auto simp: fence_head_def app Let_def split: if_splits)
  then have "ellipsis \<noteq> c" using e by auto
  then have "marker = takeWhile (\<lambda>d. d = c) (c # ws)" using c(3) takeWhile_tail [of "\<lambda>d. d = c" ellipsis "c # ws" "[]"] by simp
  moreover have "length (takeWhile (\<lambda>d. d = c) (c # ws)) \<le> length (takeWhile (\<lambda>d. d = c) (c # ws @ v))"
    using takeWhile_longer [of "\<lambda>d. d = c" "c # ws" v] by simp
  ultimately show ?thesis using c by (simp add: fence_head_def app Let_def)
qed

lemma opened_by_line:
  "fold (fence_step True) lines opened = Some fence \<Longrightarrow> opened \<noteq> Some fence \<Longrightarrow>
     \<exists>raw \<in> set lines. \<exists>indent rest. match_fence (strip_carriage_return raw) = Some (indent, of_marker fence, rest)"
proof (induction lines arbitrary: opened)
  case (Cons l lines)
  show ?case
  proof (cases "fence_step True l opened = Some fence")
    case True
    with step_cases [of True l opened] Cons.prems(2) show ?thesis by auto
  next
    case False
    with Cons.IH [of "fence_step True l opened"] Cons.prems(1) show ?thesis by auto
  qed
qed simp

lemma cut_marker:
  assumes "carriage_return \<notin> set body" "body = p @ q" "openFenceMarker (p @ [ellipsis]) = Some marker"
  shows "length marker \<le> longestFenceMarker body \<and> 3 \<le> length marker \<and> p \<noteq> []"
proof -
  let ?lines = "split_on line_feed (p @ [ellipsis])" and ?S = "split_on line_feed p"
  obtain fence where fence: "scan_open (p @ [ellipsis]) = Some fence" "marker = of_marker fence"
    using assms(3) by (auto simp: openFenceMarker_scan)
  then obtain raw indent rest where raw: "raw \<in> set ?lines" "match_fence (strip_carriage_return raw) = Some (indent, marker, rest)"
    using opened_by_line [of ?lines None fence] by (auto simp: scan_open_def)
  have S: "?S \<noteq> []" using split_on_cons [of line_feed p] by auto
  have lines: "?lines = butlast ?S @ [last ?S @ [ellipsis]]" using split_on_append [of line_feed p "[ellipsis]"] by (simp add: ellipsis_def line_feed_def)
  have body: "split_on line_feed body = butlast ?S @ (last ?S @ hd (split_on line_feed q)) # tl (split_on line_feed q)"
    unfolding assms(2) by (rule split_on_append)
  have sub: "set raw \<subseteq> set p \<union> {ellipsis}" using raw(1) split_on_subset [of raw line_feed "p @ [ellipsis]"] by auto
  then have "carriage_return \<notin> set raw" using assms(1,2) by (auto simp: ellipsis_def carriage_return_def)
  then have "strip_carriage_return raw = raw" by (auto simp: strip_carriage_return_def dest: last_in_set)
  with raw(2) have head: "fence_head raw = Some (indent, marker, rest)" by (simp add: match_head)
  have "length marker \<le> longestFenceMarker body"
  proof (cases "raw \<in> set (butlast ?S)")
    case True
    then show ?thesis using longest_marker [OF assms(1) _ head] body by simp
  next
    case False
    then have "raw = last ?S @ [ellipsis]" using raw(1) lines by simp
    with head obtain i' m' r' where "fence_head (last ?S @ hd (split_on line_feed q)) = Some (i', m', r')" "length marker \<le> length m'"
      using head_of_cut by blast
    then show ?thesis using longest_marker [OF assms(1), of "last ?S @ hd (split_on line_feed q)" i' m' r'] body by simp
  qed
  moreover have "p \<noteq> []"
  proof
    assume "p = []"
    then have "raw = [ellipsis]" using raw(1) lines by simp
    then show False using head by (simp add: fence_head_def ellipsis_def is_fence_char_def)
  qed
  ultimately show ?thesis using fence_head_marker(1) [OF head] by simp
qed

lemma trimEnd_split: "\<exists>q. s = trimEnd s @ q"
  using takeWhile_dropWhile_id [of is_space "rev s"] by (metis rev_append rev_rev_ident trimEnd_def)

lemma length_close_fence: "length (close_fence body) = length body + (case openFenceMarker body of Some marker \<Rightarrow> length marker + 1 | None \<Rightarrow> 0)"
  by (simp add: close_fence_def split: option.split)

lemma bound_fits:
  assumes "carriage_return \<notin> set body" "0 < limit"
  shows "length (boundBody body limit) \<le> limit"
proof (cases "length (close_fence body) \<le> limit")
  case True
  then show ?thesis by (simp add: boundBody_def length_close_fence)
next
  case False
  define reserve where "reserve = longestFenceMarker body"
  define room where "room = limit - 1 - (if 0 < reserve then reserve + 1 else 0)"
  define p where "p = trimEnd (take room body)"
  have bound: "boundBody body limit = close_fence (p @ [ellipsis])"
    using False by (simp add: boundBody_def length_close_fence reserve_def room_def p_def Let_def)
  obtain q where "take room body = p @ q" using trimEnd_split p_def by blast
  then have split: "body = p @ q @ drop room body" "length p \<le> room"
    by (metis append.assoc append_take_drop_id) (metis \<open>take room body = p @ q\<close> append_eq_conv_conj length_append length_take le_add1 min.cobounded2 order_trans)
  show ?thesis
  proof (cases "openFenceMarker (p @ [ellipsis])")
    case None
    then show ?thesis using split(2) assms(2) by (simp add: bound length_close_fence room_def split: if_splits)
  next
    case (Some marker)
    from cut_marker [OF assms(1) split(1) Some] have "length marker \<le> reserve" "3 \<le> length marker" "0 < length p" by (simp_all add: reserve_def)
    then have "length marker \<le> reserve" "0 < reserve" "0 < room" using split(2) by linarith+
    then show ?thesis using Some split(2) by (auto simp: bound length_close_fence room_def split: if_splits)
  qed
qed

lemma normalized_plain: "carriage_return \<notin> set (normalize_newlines s)"
  by (induction s rule: normalize_newlines.induct) (auto simp: carriage_return_def line_feed_def)

lemma set_trim: "set (trim s) \<subseteq> set s"
proof -
  have "set (dropWhile is_space xs) \<subseteq> set xs" for xs by (auto dest: set_dropWhileD)
  from this [of s] this [of "rev (dropWhile is_space s)"] show ?thesis by (auto simp: trim_def)
qed

lemma body_plain: "carriage_return \<notin> set (skillBody content)"
proof -
  have "carriage_return \<notin> set (trim (drop k (normalize_newlines content)))" for k
    using normalized_plain [of content] set_trim [of "drop k (normalize_newlines content)"] set_drop_subset [of k "normalize_newlines content"] by blast
  from this [of 0] this show ?thesis by (auto simp: skillBody_def Let_def split: option.split)
qed

section \<open>The appendix\<close>

definition skill_cost :: "ResolvedSkillInstructions \<Rightarrow> int" where
  "skill_cost s = int (length (si_instructions s)) + perSkillWrapperCost (si_name s)"

lemma length_join: "xs \<noteq> [] \<Longrightarrow> length (join sep xs) + length sep = (\<Sum>x \<leftarrow> xs. length x + length sep)"
  by (induction sep xs rule: join.induct) auto

text \<open>What the prompt spends on the skills: each takes one character more than it is charged, but for two that are charged in excess.\<close>

lemma appendix_length:
  assumes "resolved \<noteq> []"
  shows "int (length (newline @ join newline (skill_lines resolved)))
    = APPENDIX_LABEL_CHARS + (\<Sum>s \<leftarrow> resolved. skill_cost s) + int (length resolved) - 2"
proof -
  have n: "length newline = 1" by (simp add: newline_def)
  let ?names = "join '', '' (map si_name resolved)"
  have names: "int (length ?names) + 2 = (\<Sum>s \<leftarrow> resolved. int (length (si_name s)) + 2)"
  proof -
    have "int (\<Sum>x \<leftarrow> map si_name resolved. length x + 2) = (\<Sum>s \<leftarrow> resolved. int (length (si_name s)) + 2)" by (induction resolved) auto
    then show ?thesis using assms length_join [of "map si_name resolved" "'', ''"] by simp
  qed
  have bodies: "int (\<Sum>x \<leftarrow> concat (map (\<lambda>s. [''### '' @ si_name s, si_instructions s]) resolved). length x + 1)
      = (\<Sum>s \<leftarrow> resolved. int (length (si_name s)) + int (length (si_instructions s)) + 6)" by (induction resolved) auto
  have "int (length (newline @ join newline (skill_lines resolved))) = int (\<Sum>x \<leftarrow> skill_lines resolved. length x + 1)"
    using length_join [of "skill_lines resolved" newline] assms n by (simp add: skill_lines_def)
  also have "\<dots> = 1 + int (length ''Skill instructions for the steps above ('' + length ?names + length ''):'' + 1)
      + (\<Sum>s \<leftarrow> resolved. int (length (si_name s)) + int (length (si_instructions s)) + 6)"
    using assms bodies by (simp add: skill_lines_def)
  also have "\<dots> = APPENDIX_LABEL_CHARS + int (length ?names) + (\<Sum>s \<leftarrow> resolved. int (length (si_name s)) + int (length (si_instructions s)) + 6)"
    by (simp add: APPENDIX_LABEL_CHARS_def n)
  also have "\<dots> = APPENDIX_LABEL_CHARS + (\<Sum>s \<leftarrow> resolved. skill_cost s) + int (length resolved) - 2"
  proof -
    have "(\<Sum>s \<leftarrow> resolved. skill_cost s) + int (length resolved)
        = (\<Sum>s \<leftarrow> resolved. int (length (si_name s)) + 2) + (\<Sum>s \<leftarrow> resolved. int (length (si_name s)) + int (length (si_instructions s)) + 6)"
      by (induction resolved) (auto simp: skill_cost_def perSkillWrapperCost_def n)
    then show ?thesis using names by simp
  qed
  finally show ?thesis .
qed

section \<open>Resolving\<close>

text \<open>What the loop over the declared names may add to the skills resolved so far.\<close>

definition adds_skills :: "(string \<Rightarrow> AvailableSkill option) \<Rightarrow> SkillBudget \<Rightarrow> string list \<Rightarrow> ResolvedSkillInstructions list \<Rightarrow> int \<Rightarrow>
    ResolvedSkillInstructions list \<Rightarrow> bool" where
  "adds_skills byName budget names resolved spent new \<longleftrightarrow> subseq (map si_name new) names
     \<and> spent + (\<Sum>s \<leftarrow> new. skill_cost s) \<le> sb_total budget
     \<and> (new \<noteq> [] \<longrightarrow> int (length resolved) + int (length new) \<le> sb_skillCap budget)
     \<and> list_all (\<lambda>s. byName (si_name s) \<noteq> None \<and> openFenceMarker (si_instructions s) = None
          \<and> int (length (si_instructions s)) \<le> MAX_CHARS_PER_SKILL) new"

lemma adds_none: "spent \<le> sb_total budget \<Longrightarrow> adds_skills byName budget names resolved spent []"
  by (simp add: adds_skills_def)

lemma adds_later: "adds_skills byName budget names resolved spent new \<Longrightarrow> adds_skills byName budget (name # names) resolved spent new"
  by (auto simp: adds_skills_def)

lemma adds_one:
  assumes "adds_skills byName budget names (resolved @ [s]) (spent + skill_cost s) new" "int (length resolved) < sb_skillCap budget"
    "byName (si_name s) \<noteq> None" "openFenceMarker (si_instructions s) = None" "int (length (si_instructions s)) \<le> MAX_CHARS_PER_SKILL"
  shows "adds_skills byName budget (si_name s # names) resolved spent (s # new)"
  using assms by (cases "new = []") (auto simp: adds_skills_def)

lemma bounded_skill:
  assumes "readSkillBody openSkill skill n = Inr (Some body)" "room = min MAX_CHARS_PER_SKILL (limit - spent - perSkillWrapperCost name)"
    "0 < room" "s = \<lparr> si_name = name, si_instructions = boundBody body (nat room) \<rparr>"
  shows "int (length (si_instructions s)) \<le> MAX_CHARS_PER_SKILL" "spent + skill_cost s \<le> limit" "openFenceMarker (si_instructions s) = None"
proof -
  from assms(1) have "carriage_return \<notin> set body" using body_plain by (auto simp: readSkillBody_def split: sum.splits)
  then have "int (length (si_instructions s)) \<le> room" using bound_fits [of body "nat room"] assms(3,4) by simp
  then show "int (length (si_instructions s)) \<le> MAX_CHARS_PER_SKILL" "spent + skill_cost s \<le> limit"
    using assms(2,4) by (auto simp: skill_cost_def)
  show "openFenceMarker (si_instructions s) = None" using assms(4) by (simp add: boundBody_def close_fence_closed Let_def)
qed

lemma resolve_adds:
  "spent \<le> sb_total budget \<Longrightarrow>
    \<exists>new. resolve_skills openSkill byName budget names resolved spent = resolved @ new \<and> adds_skills byName budget names resolved spent new"
proof (induction names arbitrary: resolved spent)
  case (Cons name names)
  let ?go = "resolve_skills openSkill byName budget"
  have skipped: ?case if "?go (name # names) resolved spent = ?go names resolved spent"
    unfolding that using Cons.IH [OF Cons.prems, of resolved] adds_later by blast
  have stop: ?case if "?go (name # names) resolved spent = resolved"
    using adds_none [OF Cons.prems] that by (metis append_Nil2)
  consider "sb_skillCap budget \<le> int (length resolved) \<or> sb_total budget \<le> spent"
    | (no_body) "\<nexists>skill body. byName name = Some skill \<and> readSkillBody openSkill skill (sb_readBytes budget) = Inr (Some body) \<and> body \<noteq> []"
        "\<not> (sb_skillCap budget \<le> int (length resolved) \<or> sb_total budget \<le> spent)"
    | (body) skill body where "byName name = Some skill" "readSkillBody openSkill skill (sb_readBytes budget) = Inr (Some body)" "body \<noteq> []"
        "\<not> (sb_skillCap budget \<le> int (length resolved) \<or> sb_total budget \<le> spent)" by blast
  then show ?case
  proof cases
    case 1
    then show ?thesis by (intro stop) simp
  next
    case no_body
    then show ?thesis by (intro skipped) (auto split: option.split sum.split list.split)
  next
    case body
    define room where "room = min MAX_CHARS_PER_SKILL (sb_total budget - spent - perSkillWrapperCost name)"
    define s where "s = \<lparr> si_name = name, si_instructions = boundBody body (nat room) \<rparr>"
    have step: "?go (name # names) resolved spent = (if room \<le> 0 then resolved else ?go names (resolved @ [s]) (spent + skill_cost s))"
      using body by (auto simp: room_def s_def skill_cost_def Let_def neq_Nil_conv add.assoc)
    show ?thesis
    proof (cases "room \<le> 0")
      case True
      then show ?thesis using step by (intro stop) simp
    next
      case False
      then have s: "int (length (si_instructions s)) \<le> MAX_CHARS_PER_SKILL" "spent + skill_cost s \<le> sb_total budget" "openFenceMarker (si_instructions s) = None"
        using bounded_skill [OF body(2) room_def _ s_def] by simp_all
      from Cons.IH [OF s(2), of "resolved @ [s]"] obtain new where new: "?go names (resolved @ [s]) (spent + skill_cost s) = (resolved @ [s]) @ new"
        "adds_skills byName budget names (resolved @ [s]) (spent + skill_cost s) new" by blast
      have "si_name s = name" by (simp add: s_def)
      then show ?thesis using adds_one [OF new(2) _ _ s(3,1)] new(1) step False body(1,4) by (intro exI [of _ "s # new"]) simp
    qed
  qed
qed (simp add: adds_none)

text \<open>The limit on the appendix of an operator's setting, with the space the label takes.\<close>

definition appendix_limit :: "int option \<Rightarrow> int" where
  "appendix_limit maxPromptChars = (case maxPromptChars of None \<Rightarrow> MAX_TOTAL_CHARS + APPENDIX_LABEL_CHARS
     | Some n \<Rightarrow> min (MAX_TOTAL_CHARS + APPENDIX_LABEL_CHARS) (max 0 n))"

lemma budget_limit: "sb_total (skill_budget maxPromptChars maxSkills maxSkillFileBytes) + APPENDIX_LABEL_CHARS = appendix_limit maxPromptChars"
  by (cases maxPromptChars) (simp_all add: skill_budget_def appendix_limit_def min_def)

lemma join_append: "xs \<noteq> [] \<Longrightarrow> ys \<noteq> [] \<Longrightarrow> join sep (xs @ ys) = join sep xs @ sep @ join sep ys"
  by (induction sep xs rule: join.induct) (auto simp: neq_Nil_conv)

lemma digest_appendix:
  assumes "resolved \<noteq> []" "buildEnterprisePromptSection plan resolved tracks \<noteq> []"
  shows "\<exists>steps. buildEnterprisePromptSection plan resolved tracks = steps @ newline @ join newline (skill_lines resolved)"
proof -
  obtain front where front: "prompt_lines plan resolved tracks = front @ skill_lines resolved" "front \<noteq> []"
    by (simp add: prompt_lines_def Let_def)
  have if_ne: "(if c then [] else x) \<noteq> [] \<Longrightarrow> (if c then [] else x) = x" for c and x :: string by (cases c) simp_all
  have "buildEnterprisePromptSection plan resolved tracks = join newline (prompt_lines plan resolved tracks)"
    using if_ne [OF assms(2) [unfolded buildEnterprisePromptSection_def]] unfolding buildEnterprisePromptSection_def .
  moreover have "skill_lines resolved \<noteq> []" using assms(1) by (simp add: skill_lines_def)
  ultimately show ?thesis using front join_append [of front "skill_lines resolved" newline] by metis
qed

text \<open>
  C39. The skills in a prompt are ones the work-map may point at, and their text is bounded. Each resolved skill is
  declared by a step of the plan and is one the agent has; names come once, in order, and at most eight of them. Each
  body is at most 4000 characters with the closer it may have been given and leaves no code block open, so that it
  cannot swallow the skill after it. The appendix they make at the end of the prompt is at most the operator's limit,
  never more than 12000 characters and the label, plus one character for every skill beyond the second.
\<close>

theorem inlined_skills_fit:
  assumes "resolved = resolveEnterpriseSkillInstructions openSkill plan available maxPromptChars maxSkills maxSkillFileBytes"
    "resolved \<noteq> []" "buildEnterprisePromptSection plan resolved tracks \<noteq> []"
  shows "list_all (\<lambda>s. (\<exists>node \<in> set (nodes plan). si_name s \<in> set (opt_list (skills (ontology node))))
        \<and> si_name s \<in> sk_name ` set (opt_list available)
        \<and> openFenceMarker (si_instructions s) = None \<and> length (si_instructions s) \<le> 4000) resolved
    \<and> sorted (map si_name resolved) \<and> distinct (map si_name resolved) \<and> length resolved \<le> 8
    \<and> (\<exists>steps. buildEnterprisePromptSection plan resolved tracks = steps @ newline @ join newline (skill_lines resolved))
    \<and> int (length (newline @ join newline (skill_lines resolved))) \<le> appendix_limit maxPromptChars + int (length resolved) - 2"
proof -
  let ?budget = "skill_budget maxPromptChars maxSkills maxSkillFileBytes"
  let ?byName = "map_of (js_map_of (map (\<lambda>skill. (sk_name skill, skill)) (opt_list available)))"
  have r: "resolved = resolve_skills openSkill ?byName ?budget (collectPlanDeclaredSkills plan) [] 0" "0 \<le> sb_total ?budget"
    using assms(1,2) by (auto simp: resolveEnterpriseSkillInstructions_def Let_def split: if_splits)
  with resolve_adds [OF r(2), of openSkill ?byName "collectPlanDeclaredSkills plan" "[]"]
  have adds: "adds_skills ?byName ?budget (collectPlanDeclaredSkills plan) [] 0 resolved" by auto
  have sub: "subseq (map si_name resolved) (collectPlanDeclaredSkills plan)" using adds by (simp add: adds_skills_def)
  have each: "?byName (si_name s) \<noteq> None" "openFenceMarker (si_instructions s) = None" "length (si_instructions s) \<le> 4000"
    if "s \<in> set resolved" for s
    using adds that by (auto simp: adds_skills_def list_all_iff MAX_CHARS_PER_SKILL_def)
  have available: "si_name s \<in> sk_name ` set (opt_list available)" if "s \<in> set resolved" for s
  proof -
    from each(1) [OF that] obtain skill where "?byName (si_name s) = Some skill" by blast
    from js_map_of_lookup [OF this] show ?thesis by auto
  qed
  have declared: "\<exists>node \<in> set (nodes plan). si_name s \<in> set (opt_list (skills (ontology node)))" if "s \<in> set resolved" for s
    using list_emb_set [OF sub, of "si_name s"] that by (auto simp: collectPlanDeclaredSkills_def)
  have order: "sorted (map si_name resolved)" "distinct (map si_name resolved)"
    using subseq_sorted [OF sub] subseq_distinct [OF sub] by (simp_all add: collectPlanDeclaredSkills_def)
  have count: "length resolved \<le> 8" using adds assms(2) by (auto simp: adds_skills_def skill_budget_def MAX_SKILLS_def)
  have "int (length (newline @ join newline (skill_lines resolved))) \<le> appendix_limit maxPromptChars + int (length resolved) - 2"
    using appendix_length [OF assms(2)] adds budget_limit [of maxPromptChars maxSkills maxSkillFileBytes] by (simp add: adds_skills_def)
  then show ?thesis using each(2,3) available declared order count digest_appendix [OF assms(2,3)] by (simp add: list_all_iff)
qed

text \<open>
  Three skills under a limit of 108 characters: the appendix is 109 characters long, one more than the limit.
\<close>

definition skilled_plan :: EnterpriseRunPlan where
  "skilled_plan = sample_plan \<lparr> nodes := [sample_node \<lparr> ontology := (ontology sample_node) \<lparr> skills := Some [''a'', ''b'', ''c''] \<rparr> \<rparr>] \<rparr>"

definition sample_skills :: "AvailableSkill list" where
  "sample_skills = map (\<lambda>n. \<lparr> sk_name = n, sk_filePath = n, sk_baseDir = n \<rparr>) [''a'', ''b'', ''c'']"

definition read_sample :: "AvailableSkill \<Rightarrow> int \<Rightarrow> string option result" where
  "read_sample skill n = Inr (Some (if sk_name skill = ''c'' then replicate 60 (CHR ''x'') else ''do''))"

definition inlined_sample :: "ResolvedSkillInstructions list" where
  "inlined_sample = resolveEnterpriseSkillInstructions read_sample skilled_plan (Some sample_skills) (Some 108) None None"

lemma appendix_overruns: "int (length (newline @ join newline (skill_lines inlined_sample))) = 109" "length inlined_sample = 3"
  by code_simp+

theorem inlined_skills_witness:
  "distinct (map si_name inlined_sample) \<and> appendix_limit (Some 108) = 108
   \<and> (\<exists>steps. buildEnterprisePromptSection skilled_plan inlined_sample False = steps @ newline @ join newline (skill_lines inlined_sample))
   \<and> int (length (newline @ join newline (skill_lines inlined_sample))) = 109"
proof -
  have ne: "inlined_sample \<noteq> []" using appendix_overruns(2) by auto
  have shown: "buildEnterprisePromptSection skilled_plan inlined_sample False \<noteq> []" by code_simp
  have limit: "appendix_limit (Some 108) = 108" by code_simp
  from inlined_skills_fit [OF inlined_sample_def ne shown] show ?thesis using limit appendix_overruns by blast
qed

end
