(* ===== verification/Tree_Warnings.thy ===== *)
theory Tree_Warnings
  imports Ontology_Actions Tree_References
begin

text \<open>
  The linter of imported work-maps, \<^verbatim>\<open>src/enterprise/tree-warnings.ts\<close>: declarations a step cannot use, each with the
  path of the declaration and the advice shown to the operator.
\<close>

record WorkflowTreeWarning =
  tw_path :: string
  tw_message :: string

definition WRITE_OPT_INS :: "string list" where
  "WRITE_OPT_INS = [''invoke_action'', ''group:enterprise-write'']"

section \<open>What a step may use\<close>

definition canUseTool :: "WorkflowNodeDefinition \<Rightarrow> string \<Rightarrow> bool \<Rightarrow> bool" where
  "canUseTool node toolName explicit =
     (let allow = opt_list (allowedTools (node_binding node)); deny = opt_list (deniedTools (node_binding node))
      in if explicit \<and> allow = [] then False
         else isToolAllowedByPolicyName toolName (Some \<lparr> pl_allow = Some allow, pl_deny = Some deny \<rparr>))"

definition canWrite :: "WorkflowNodeDefinition \<Rightarrow> bool \<Rightarrow> bool" where
  "canWrite node explicit \<longleftrightarrow>
     list_ex (\<lambda>tool. toLowerCase (trim tool) \<in> set WRITE_OPT_INS) (opt_list (allowedTools (node_binding node)))
     \<and> canUseTool node ''invoke_action'' explicit"

fun treeNodes :: "WorkflowNodeDefinition \<Rightarrow> WorkflowNodeDefinition list" where
  "treeNodes (WorkflowNode i title description ont children) =
     WorkflowNode i title description ont children # concat (map treeNodes (case children of None \<Rightarrow> [] | Some cs \<Rightarrow> cs))"

definition primary_property :: "OntologyEntity \<Rightarrow> OntologyProperty option" where
  "primary_property e = List.find is_primary (opt_list (ent_properties e))"

text \<open>\<open>new Map(...)\<close> over the declared parameters: the last one of an id wins.\<close>

definition parameter_map :: "OntologyAction \<Rightarrow> (string \<times> OntologyActionParameter) list" where
  "parameter_map action = js_map_of (map (\<lambda>p. (par_id p, p)) (opt_list (act_parameters action)))"

definition side_resolves :: "'s OntologyDeclarations_scheme \<Rightarrow> (string \<times> OntologyActionParameter) list \<Rightarrow> EnterpriseId \<Rightarrow> string option \<Rightarrow> bool" where
  "side_resolves scope parameters entityId named = (case Option.bind (map_of (sc_entities scope) entityId) primary_property of
     None \<Rightarrow> False
   | Some key \<Rightarrow> (case map_of parameters (case named of Some p \<Rightarrow> p | None \<Rightarrow> prop_id key) of
       None \<Rightarrow> False
     | Some parameter \<Rightarrow> prop_type key \<noteq> TyBoolean \<and> expressionTypeOf (par_type parameter) = expressionTypeOf (prop_type key)))"

definition linkEffectResolves :: "'s OntologyDeclarations_scheme \<Rightarrow> OntologyLinkEffect \<Rightarrow> (string \<times> OntologyActionParameter) list \<Rightarrow> bool" where
  "linkEffectResolves scope effect parameters = (case map_of (sc_relationships scope) (le_relationship effect) of
     None \<Rightarrow> False
   | Some rel \<Rightarrow>
       let key_id = (\<lambda>entityId. map_option prop_id (Option.bind (map_of (sc_entities scope) entityId) primary_property));
           fromParameterId = later (key_id (rel_from rel)) (le_from effect); toParameterId = later (key_id (rel_to rel)) (le_to effect)
       in if rel_from rel = rel_to rel \<and> fromParameterId = toParameterId then False
          else side_resolves scope parameters (rel_from rel) (le_from effect) \<and> side_resolves scope parameters (rel_to rel) (le_to effect))"

section \<open>Warnings of an action\<close>

definition action_path :: "string \<Rightarrow> OntologyAction \<Rightarrow> string \<Rightarrow> string" where
  "action_path stepId action field = ''node.'' @ stepId @ ''.ontology.actions.'' @ act_id action @ ''.'' @ field"

definition on_step :: "string \<Rightarrow> OntologyAction \<Rightarrow> string" where
  "on_step stepId action = ''action '' @ quoted (act_id action) @ '' on step '' @ quoted stepId"

fun other_effect :: "OntologyActionEffect \<Rightarrow> bool" where
  "other_effect (ObjectEffect e) = False"
| "other_effect _ = True"

definition effect_warnings :: "string \<Rightarrow> OntologyAction \<Rightarrow> WorkflowTreeWarning list" where
  "effect_warnings stepId action = (if write_effects action = [] \<and> \<not> list_ex other_effect (opt_list (act_effects action))
     then [\<lparr> tw_path = action_path stepId action ''effects'', tw_message = on_step stepId action @
       '' declares no write effects, so invoke_action cannot change any object with it. Give it a create/update/delete effect, or describe the work in the step'' @
       [CHR 0x27] @ ''s description instead of as an action.'' \<rparr>] else [])"

definition parameter_warnings :: "string \<Rightarrow> OntologyAction \<Rightarrow> WorkflowTreeWarning list" where
  "parameter_warnings stepId action = (if length (parameter_map action) \<noteq> length (opt_list (act_parameters action))
     then [\<lparr> tw_path = action_path stepId action ''parameters'', tw_message = on_step stepId action @
       '' declares a parameter id more than once, so every invocation fails validation. Keep one declaration per parameter id.'' \<rparr>] else [])"

definition link_warnings :: "'s OntologyDeclarations_scheme \<Rightarrow> string \<Rightarrow> OntologyAction \<Rightarrow> OntologyLinkEffect \<Rightarrow> WorkflowTreeWarning list" where
  "link_warnings scope stepId action effect = (if linkEffectResolves scope effect (parameter_map action) then []
     else [\<lparr> tw_path = action_path stepId action ''effects'', tw_message = on_step stepId action @
       '' cannot resolve both ends of relationship '' @ quoted (le_relationship effect) @
       '' on this step. Keep the relationship and both keyed object types on the same step, and declare distinct string/number endpoint parameters when needed.'' \<rparr>])"

definition writes_a :: "string \<Rightarrow> OntologyAction \<Rightarrow> OntologyObjectEffect \<Rightarrow> string" where
  "writes_a stepId action effect = on_step stepId action @ '' '' @ kind_text (oe_kind effect) @ ''s a '' @ quoted (oe_entity effect)"

definition canSupplyRequired :: "OntologyEntity \<Rightarrow> string list \<Rightarrow> (string \<times> OntologyActionParameter) list \<Rightarrow> bool" where
  "canSupplyRequired e required parameters =
     (let properties = js_map_of (map (\<lambda>p. (prop_id p, prop_type p)) (opt_list (ent_properties e)))
      in list_all (\<lambda>i. case (map_of properties i, map_of parameters i) of
           (Some propertyType, Some parameter) \<Rightarrow> expressionTypeOf (par_type parameter) = expressionTypeOf propertyType
         | _ \<Rightarrow> False) required)"

definition key_warnings :: "string \<Rightarrow> OntologyAction \<Rightarrow> OntologyObjectEffect \<Rightarrow> OntologyProperty \<Rightarrow> WorkflowTreeWarning list" where
  "key_warnings stepId action effect primaryKey = (case map_of (parameter_map action) (prop_id primaryKey) of
     None \<Rightarrow> [\<lparr> tw_path = action_path stepId action ''parameters'', tw_message = writes_a stepId action effect @
       '' but takes no '' @ quoted (prop_id primaryKey) @
       '' parameter, so no call can name the object it writes and every invocation fails validation. Add { id: '' @ prop_id primaryKey @
       '', type: '' @ value_type_text (prop_type primaryKey) @ '', required: true }.'' \<rparr>]
   | Some parameter \<Rightarrow>
       if prop_type primaryKey = TyBoolean \<or> expressionTypeOf (par_type parameter) \<noteq> expressionTypeOf (prop_type primaryKey)
       then [\<lparr> tw_path = action_path stepId action ''parameters'', tw_message = on_step stepId action @
         '' cannot use parameter '' @ quoted (prop_id primaryKey) @ '' ('' @ value_type_text (par_type parameter) @ '') as the '' @
         value_type_text (prop_type primaryKey) @ '' primaryKey of '' @ quoted (oe_entity effect) @
         ''. Object identities must be strings or numbers and the parameter must match the property type.'' \<rparr>] else [])"

definition write_warnings :: "'s OntologyDeclarations_scheme \<Rightarrow> string list \<Rightarrow> (string \<times> string list) list \<Rightarrow> bool \<Rightarrow> string \<Rightarrow> OntologyAction \<Rightarrow>
    OntologyObjectEffect \<Rightarrow> WorkflowTreeWarning list" where
  "write_warnings scope treeEntities treeRequired writable stepId action effect = (case map_of (sc_entities scope) (oe_entity effect) of
     None \<Rightarrow> if \<not> writable \<or> oe_entity effect \<notin> set treeEntities then []
       else [\<lparr> tw_path = action_path stepId action ''effects'', tw_message = writes_a stepId action effect @
         '', but this step does not declare that object type locally, so every invocation fails. Declare '' @ quoted (oe_entity effect) @
         '' on the same step as the write grant, or move the action to a step where the type is in scope.'' \<rparr>]
   | Some e \<Rightarrow> (case primary_property e of
       None \<Rightarrow> [\<lparr> tw_path = action_path stepId action ''effects'', tw_message = writes_a stepId action effect @
         '', but this step does not declare that object type with a primaryKey, so every invocation fails. Give '' @ quoted (oe_entity effect) @
         '' a primaryKey property on the same step as the write grant.'' \<rparr>]
     | Some primaryKey \<Rightarrow> key_warnings stepId action effect primaryKey
         @ (if oe_kind effect = EffCreate \<and> \<not> canSupplyRequired e (opt_list (map_of treeRequired (oe_entity effect))) (parameter_map action)
            then [\<lparr> tw_path = action_path stepId action ''parameters'', tw_message = on_step stepId action @
              '' cannot supply every required property of '' @ quoted (oe_entity effect) @
              '' on this step. Declare compatible parameters for its required properties.'' \<rparr>] else [])))"

definition action_warnings :: "'s OntologyDeclarations_scheme \<Rightarrow> string list \<Rightarrow> (string \<times> string list) list \<Rightarrow> bool \<Rightarrow> string \<Rightarrow> OntologyAction \<Rightarrow>
    WorkflowTreeWarning list" where
  "action_warnings scope treeEntities treeRequired writable stepId action =
     effect_warnings stepId action @ parameter_warnings stepId action
     @ concat (map (link_warnings scope stepId action) (link_effects action))
     @ concat (map (write_warnings scope treeEntities treeRequired writable stepId action) (write_effects action))"

section \<open>Warnings of a step and of a tree\<close>

fun is_call :: "OntologyActionEffect \<Rightarrow> bool" where
  "is_call (CallEffect e) = True"
| "is_call _ = False"

definition grant_warnings :: "string \<Rightarrow> bool \<Rightarrow> OntologyAction list \<Rightarrow> WorkflowTreeWarning list" where
  "grant_warnings stepId writable acts =
     (let localActions = filter (\<lambda>action. \<not> writable \<and> list_ex (\<lambda>effect. \<not> is_call effect) (opt_list (act_effects action))) acts
      in if localActions = [] then []
         else [\<lparr> tw_path = ''node.'' @ stepId @ ''.ontology.actions'', tw_message = ''step '' @ quoted stepId @ '' declares '' @
           (if length localActions = 1 then ''action'' else ''actions'') @ '' '' @ join '', '' (map (\<lambda>action. quoted (act_id action)) localActions) @
           '' but cannot perform an ontology write. Name invoke_action literally in this step'' @ [CHR 0x27] @
           ''s ontology.allowedTools (invoke_* alone does not opt into writes), and do not deny it '' @ [em_dash] @ '' or drop the declaration.'' \<rparr>])"

definition function_warnings :: "'s OntologyDeclarations_scheme \<Rightarrow> string \<Rightarrow> OntologyFunction \<Rightarrow> WorkflowTreeWarning list" where
  "function_warnings scope stepId f =
     (let entity = map_of (sc_entities scope) (fn_entity f);
          properties = (case entity of None \<Rightarrow> [] | Some e \<Rightarrow> map prop_id (opt_list (ent_properties e)))
      in if entity = None \<or> (case parseOntologyExpression (fn_expression f) of Inl _ \<Rightarrow> False
              | Inr expression \<Rightarrow> list_ex (\<lambda>i. i \<notin> set properties) (ontologyExpressionProperties expression))
         then [\<lparr> tw_path = ''node.'' @ stepId @ ''.ontology.functions.'' @ fn_id f, tw_message = ''function '' @ quoted (fn_id f) @
           '' needs its object type and referenced fields declared on step '' @ quoted stepId @ ''. Preceding and later steps do not supply its scope.'' \<rparr>]
         else [])"

definition knowledge_warnings :: "WorkflowNodeDefinition \<Rightarrow> bool \<Rightarrow> WorkflowTreeWarning list" where
  "knowledge_warnings node explicit =
     (if opt_list (knowledgeFoundations (node_binding node)) \<noteq> [] \<and> \<not> canUseTool node ''knowledge_search'' explicit
      then [\<lparr> tw_path = ''node.'' @ wn_id node @ ''.ontology.knowledgeFoundations'', tw_message = ''step '' @ quoted (wn_id node) @
        '' attaches a knowledge foundation but cannot reach knowledge_search, so nothing there can retrieve from it.'' \<rparr>] else [])"

definition node_warnings :: "bool \<Rightarrow> string list \<Rightarrow> (string \<times> string list) list \<Rightarrow> WorkflowNodeDefinition \<Rightarrow> WorkflowTreeWarning list" where
  "node_warnings explicit treeEntities treeRequired node =
     (let scope = mergeOntologyDeclarations [wn_ontology node]; writable = canWrite node explicit; acts = map snd (sc_actions scope)
      in grant_warnings (wn_id node) writable acts
         @ concat (map (action_warnings scope treeEntities treeRequired writable (wn_id node)) acts)
         @ concat (map (function_warnings scope (wn_id node)) (map snd (sc_functions scope)))
         @ knowledge_warnings node explicit)"

definition collectWorkflowTreeWarnings :: "WorkflowTreeDefinition \<Rightarrow> WorkflowTreeWarning list" where
  "collectWorkflowTreeWarnings tree =
     (let ns = treeNodes (tree_root tree);
          treeEntities = map fst (sc_entities (mergeOntologyDeclarations (map wn_ontology ns)))
      in concat (map (node_warnings (tree_capabilityGrants tree = Some GrantsExplicit) treeEntities (collectTreeRequiredProperties tree)) ns))"

end
