(* ===== verification/Warning_Properties.thy ===== *)
theory Warning_Properties
  imports Tree_Warnings Schema_Properties Gate_Properties
begin

text \<open>
  The linter is right: an action it warns about can never be performed, whatever the arguments and the stored objects,
  a step it says cannot write has its writes blocked by the gate, and a function it warns about can never be computed.
\<close>

section \<open>Arguments that passed\<close>

definition distinct_properties :: "'s OntologyDeclarations_scheme \<Rightarrow> bool" where
  "distinct_properties scope \<longleftrightarrow> (\<forall>(i, e) \<in> set (sc_entities scope). distinct (map prop_id (opt_list (ent_properties e))))"

lemma distinct_propertiesD: "distinct_properties scope \<Longrightarrow> map_of (sc_entities scope) i = Some e \<Longrightarrow> distinct (map prop_id (opt_list (ent_properties e)))"
  by (auto simp: distinct_properties_def dest!: map_of_SomeD)

lemma dedup_length: "length (dedup xs) = length xs \<longleftrightarrow> distinct xs"
  by (metis card_distinct distinct_card distinct_dedup length_rev set_dedup)

lemma valid_distinct:
  assumes "validateParameters action args = None"
  shows "distinct (map par_id (opt_list (act_parameters action)))"
  using assms dedup_length [of "map par_id (opt_list (act_parameters action))"]
  by (auto simp: validateParameters_def Let_def split: if_splits)

lemma valid_parameters:
  assumes "validateParameters action args = None"
  shows "parameter_map action = map (\<lambda>p. (par_id p, p)) (opt_list (act_parameters action))"
  unfolding parameter_map_def using valid_distinct [OF assms] by (intro js_map_of_distinct) (simp add: comp_def)

text \<open>A value that is not null belongs to a declared parameter of its type.\<close>

lemma valid_argument:
  assumes "validateParameters action args = None" "read_arg args k = ArgValue v" "v \<noteq> VNull"
  obtains p where "map_of (parameter_map action) k = Some p" "value_type v = expressionTypeOf (par_type p)"
proof -
  have "k \<in> fst ` set args" using read_arg_value [OF assms(2)] by force
  then have "k \<in> set (dedup (map par_id (opt_list (act_parameters action))))"
    using assms(1) by (auto simp: validateParameters_def Let_def find_None_iff split: if_splits option.splits)
  then obtain p where p: "p \<in> set (opt_list (act_parameters action))" "par_id p = k" by auto
  have "check_parameter action args p = None"
    using assms(1) p(1) by (auto simp: validateParameters_def Let_def first_some_None split: if_splits option.splits)
  then have "value_type v = expressionTypeOf (par_type p)"
    using assms(2,3) p(2) by (auto simp: check_parameter_def Let_def ontologyValueMatchesType_def split: if_splits)
  moreover have "map_of (parameter_map action) k = Some p"
    unfolding valid_parameters [OF assms(1)] using valid_distinct [OF assms(1)] p by (intro map_of_is_SomeI) (auto simp: comp_def)
  ultimately show ?thesis by (rule that [rotated])
qed

lemma identity_value:
  assumes "is_identity a"
  obtains v where "a = ArgValue v" "v \<noteq> VNull" "value_type v \<noteq> EBoolean"
  using assms by (cases a rule: is_identity.cases) auto

text \<open>An identity that matches its key is passed by a parameter the linter accepts.\<close>

lemma key_accepted:
  assumes "validateParameters action args = None" "distinct (map prop_id (opt_list (ent_properties e)))"
    "primaryKeyOf e = Some pk" "is_identity (read_arg args k)" "key_mismatch action e ent pk (read_arg args k) = None"
  obtains key p where "primary_property e = Some key" "prop_id key = pk" "map_of (parameter_map action) k = Some p"
    "prop_type key \<noteq> TyBoolean" "expressionTypeOf (par_type p) = expressionTypeOf (prop_type key)"
proof -
  from assms(3) obtain key where key: "primary_property e = Some key" "prop_id key = pk" by (auto simp: primaryKeyOf_def primary_property_def)
  then have "key \<in> set (opt_list (ent_properties e))" by (auto simp: primary_property_def find_Some_iff)
  then have "List.find (\<lambda>p. prop_id p = pk) (opt_list (ent_properties e)) = Some key"
    using assms(2) key(2) by (induction "opt_list (ent_properties e)" rule: rev_induct) (auto simp: find_Some_iff in_set_conv_nth nth_eq_iff_index_eq distinct_conv_nth)
  with assms(5) have m: "arg_matches_type (read_arg args k) (prop_type key)" by (auto simp: key_mismatch_def split: if_splits)
  from assms(4) obtain v where v: "read_arg args k = ArgValue v" "v \<noteq> VNull" "value_type v \<noteq> EBoolean" by (rule identity_value)
  from valid_argument [OF assms(1) v(1,2)] obtain p where p: "map_of (parameter_map action) k = Some p" "value_type v = expressionTypeOf (par_type p)" .
  have t: "value_type v = expressionTypeOf (prop_type key)" using m v by (simp add: ontologyValueMatchesType_def)
  then have "prop_type key \<noteq> TyBoolean" using v(3) by (cases "prop_type key") auto
  with key p t that show ?thesis by metis
qed

section \<open>Effects that were planned\<close>

lemma plan_writes_each:
  "plan_writes db scope action args planned consumed effects = Inr r \<Longrightarrow> effect \<in> set effects \<Longrightarrow>
     \<exists>c w used. planEffect db scope action args c effect = Inr (w, used)"
proof (induction effects arbitrary: planned consumed)
  case (Cons e effects)
  then obtain w c where "planEffect db scope action args consumed e = Inr (w, c)"
      "plan_writes db scope action args (planned @ [w]) c effects = Inr r"
    by (auto split: if_splits)
  with Cons show ?case by auto
qed simp

lemma plan_links_each:
  "plan_links scope action args planned consumed effects = Inr r \<Longrightarrow> effect \<in> set effects \<Longrightarrow>
     \<exists>c l used. planLinkEffect scope action args c effect = Inr (l, used)"
proof (induction effects arbitrary: planned consumed)
  case (Cons e effects)
  then obtain l c where "planLinkEffect scope action args consumed e = Inr (l, c)"
      "plan_links scope action args (planned @ [l]) c effects = Inr r"
    by auto
  with Cons show ?case by auto
qed simp

lemma planned_end_resolves:
  assumes "validateParameters action args = None" "distinct_properties scope"
    "resolve_end scope action args rel effect seen side ent named = Inr (par, i)"
  shows "side_resolves scope (parameter_map action) ent named"
    "later (map_option prop_id (Option.bind (map_of (sc_entities scope) ent) primary_property)) named = Some par"
    "rel_from rel = rel_to rel \<Longrightarrow> par \<notin> set seen"
proof -
  from assms(3) obtain e where e: "map_of (sc_entities scope) ent = Some e" by (auto simp: resolve_end_def split: option.splits)
  with assms(3) obtain pk where pk: "primaryKeyOf e = Some pk" by (auto simp: resolve_end_def split: option.splits)
  let ?par = "case named of Some p \<Rightarrow> p | None \<Rightarrow> pk"
  from assms(3) e pk have ok: "is_identity (read_arg args ?par)" "key_mismatch action e ent pk (read_arg args ?par) = None" "par = ?par"
      "rel_from rel = rel_to rel \<Longrightarrow> par \<notin> set seen"
    by (auto simp: resolve_end_def Let_def split: if_splits option.splits)
  from key_accepted [OF assms(1) distinct_propertiesD [OF assms(2) e] pk ok(1,2)] obtain key p where k:
    "primary_property e = Some key" "prop_id key = pk" "map_of (parameter_map action) ?par = Some p"
    "prop_type key \<noteq> TyBoolean" "expressionTypeOf (par_type p) = expressionTypeOf (prop_type key)" .
  show "side_resolves scope (parameter_map action) ent named" using e k by (cases named) (auto simp: side_resolves_def)
  show "later (map_option prop_id (Option.bind (map_of (sc_entities scope) ent) primary_property)) named = Some par"
    using e k(1,2) ok(3) by (simp add: later_def split: option.split)
  show "rel_from rel = rel_to rel \<Longrightarrow> par \<notin> set seen" by (rule ok(4))
qed

lemma planned_link_resolves:
  assumes "validateParameters action args = None" "distinct_properties scope" "planLinkEffect scope action args c effect = Inr (l, used)"
  shows "linkEffectResolves scope effect (parameter_map action)"
proof -
  from assms(3) obtain rel where rel: "map_of (sc_relationships scope) (le_relationship effect) = Some rel"
    by (auto simp: planLinkEffect_def split: option.splits)
  with assms(3) obtain from_par from_id to_par to_id where ends:
    "resolve_end scope action args rel effect [] True (rel_from rel) (le_from effect) = Inr (from_par, from_id)"
    "resolve_end scope action args rel effect [from_par] False (rel_to rel) (le_to effect) = Inr (to_par, to_id)"
    by (auto simp: planLinkEffect_def)
  note f = planned_end_resolves [OF assms(1,2) ends(1)] and t = planned_end_resolves [OF assms(1,2) ends(2)]
  then show ?thesis by (auto simp: linkEffectResolves_def rel Let_def)
qed

lemma created_supplies:
  assumes "validateParameters action args = None" "distinct (map prop_id (opt_list (ent_properties e)))"
    "planEffect db scope action args c effect = Inr (w, used)" "oe_kind effect = EffCreate"
    "map_of (sc_entities scope) (oe_entity effect) = Some e" "primaryKeyOf e = Some pk" "primary_property e = Some key" "prop_id key = pk"
    "\<forall>r \<in> set (opt_list (map_of (sc_treeRequired scope) (oe_entity effect))). \<not> prototype_name r"
  shows "canSupplyRequired e (opt_list (map_of (sc_treeRequired scope) (oe_entity effect))) (parameter_map action)"
proof -
  let ?ent = "oe_entity effect" and ?ps = "opt_list (ent_properties e)"
  have w: "pw_entityId w = ?ent" "pw_kind w = EffCreate" "write_checked db scope action args w"
    using plan_effect_checked [OF assms(3)] assms(4) by auto
  then obtain identity c' used' props where checked: "read_arg args pk = ArgValue identity" "is_identity (ArgValue identity)"
      "plan_properties scope action args e ?ent EffCreate pk identity (existing_properties db (sc_treeId scope, ?ent, pw_objectId w)) c' = Inr (props, used')"
      and new: "\<not> object_exists db (sc_treeId scope, ?ent, pw_objectId w)"
    using assms(5,6) by (auto simp: write_checked_def)
  have none: "existing_properties db (sc_treeId scope, ?ent, pw_objectId w) = []"
    using new by (auto simp: existing_properties_def object_exists_def split: option.split)
  note props = plan_properties_Inr [OF checked(3,1), unfolded none]
  have types: "js_map_of (map (\<lambda>p. (prop_id p, prop_type p)) ?ps) = map (\<lambda>p. (prop_id p, prop_type p)) ?ps"
    by (rule js_map_of_distinct) (use assms(2) in \<open>simp add: comp_def\<close>)
  have key: "key \<in> set ?ps" using assms(7) by (auto simp: primary_property_def find_Some_iff)
  have "\<exists>t p. map_of (map (\<lambda>p. (prop_id p, prop_type p)) ?ps) r = Some t \<and> map_of (parameter_map action) r = Some p
      \<and> expressionTypeOf (par_type p) = expressionTypeOf t" if r: "r \<in> set (opt_list (map_of (sc_treeRequired scope) ?ent))" for r
  proof -
    have "r \<in> set (required_ids scope e ?ent)" using r by (cases "map_of (sc_treeRequired scope) ?ent") (simp_all add: required_ids_def)
    then have "set_property props r" using props(3) assms(9) r by blast
    then have set: "r \<in> prop_id ` set ?ps" "read_arg args r \<noteq> ArgUndefined" "arg_value (read_arg args r) \<noteq> VNull"
      using props(1) [of r] key assms(8) checked(1) by (auto simp: set_property_def split: if_splits)
    then obtain q where q: "q \<in> set ?ps" "prop_id q = r" by auto
    with props(2) set(2) have m: "arg_matches_type (read_arg args r) (prop_type q)" by blast
    from arg_matches_value [OF m] have v: "read_arg args r = ArgValue (arg_value (read_arg args r))"
        "value_type (arg_value (read_arg args r)) = expressionTypeOf (prop_type q)"
      using set(3) by (auto simp: ontologyValueMatchesType_def)
    from valid_argument [OF assms(1) v(1) set(3)] obtain p where
      "map_of (parameter_map action) r = Some p" "value_type (arg_value (read_arg args r)) = expressionTypeOf (par_type p)" .
    moreover have "map_of (map (\<lambda>p. (prop_id p, prop_type p)) ?ps) r = Some (prop_type q)"
      using assms(2) q by (intro map_of_is_SomeI) (auto simp: comp_def)
    ultimately show ?thesis using v(2) by auto
  qed
  then show ?thesis by (fastforce simp: canSupplyRequired_def Let_def list_all_iff types split: option.split)
qed

lemma planned_write_accepted:
  assumes valid: "validateParameters action args = None" and scope: "distinct_properties scope"
    and required: "\<forall>r \<in> set (opt_list (map_of (sc_treeRequired scope) (oe_entity effect))). \<not> prototype_name r"
    and planned: "planEffect db scope action args c effect = Inr (w, used)" "oe_kind effect \<noteq> EffRead"
  shows "write_warnings scope treeEntities (sc_treeRequired scope) writable stepId action effect = []"
proof -
  let ?ent = "oe_entity effect"
  from planned(1) obtain e where e: "map_of (sc_entities scope) ?ent = Some e" by (auto simp: planEffect_def Let_def split: option.splits)
  with planned(1) obtain pk where pk: "primaryKeyOf e = Some pk" by (auto simp: planEffect_def Let_def split: option.splits)
  note distinct = distinct_propertiesD [OF scope e]
  from planned(1) e pk have ok: "is_identity (read_arg args pk)" "key_mismatch action e ?ent pk (read_arg args pk) = None"
    by (auto simp: planEffect_def Let_def split: option.splits if_splits)
  from key_accepted [OF valid distinct pk ok] obtain key p where k:
    "primary_property e = Some key" "prop_id key = pk" "map_of (parameter_map action) pk = Some p"
    "prop_type key \<noteq> TyBoolean" "expressionTypeOf (par_type p) = expressionTypeOf (prop_type key)" .
  have "canSupplyRequired e (opt_list (map_of (sc_treeRequired scope) ?ent)) (parameter_map action)" if "oe_kind effect = EffCreate"
    using created_supplies [OF valid distinct planned(1) that e pk k(1,2)] required by blast
  then show ?thesis using e k by (auto simp: write_warnings_def key_warnings_def)
qed

lemma linter_sound:
  assumes "plan_action db scope action args = Inr r" "distinct_properties scope"
    "\<forall>(i, ids) \<in> set (sc_treeRequired scope). \<forall>r \<in> set ids. \<not> prototype_name r"
  shows "action_warnings scope treeEntities (sc_treeRequired scope) writable stepId action = []"
proof -
  from assms(1) obtain ws c ls u where r: "validateParameters action args = None" "write_effects action \<noteq> [] \<or> link_effects action \<noteq> []"
      "plan_writes db scope action args [] [] (write_effects action) = Inr (ws, c)"
      "plan_links scope action args [] c (link_effects action) = Inr (ls, u)"
    by (auto simp: plan_action_def split: option.splits if_splits)
  have required: "\<forall>r \<in> set (opt_list (map_of (sc_treeRequired scope) i)). \<not> prototype_name r" for i
  proof (cases "map_of (sc_treeRequired scope) i")
    case (Some ids)
    with assms(3) show ?thesis by (fastforce dest: map_of_SomeD)
  qed simp
  have "list_ex other_effect (opt_list (act_effects action))" if "effect \<in> set (link_effects action)" for effect
  proof -
    from that obtain raw where raw: "raw \<in> set (opt_list (act_effects action))" "link_effect raw = Some effect"
      by (auto simp: link_effects_def List.map_filter_def)
    then have "other_effect raw" by (cases rule: OntologyActionEffect.exhaust [of raw]) auto
    with raw(1) show ?thesis by (auto simp: list_ex_iff)
  qed
  then have "effect_warnings stepId action = []" using r(2) by (cases "link_effects action") (auto simp: effect_warnings_def)
  moreover have "parameter_warnings stepId action = []" by (simp add: parameter_warnings_def valid_parameters [OF r(1)])
  moreover have "link_warnings scope stepId action effect = []" if "effect \<in> set (link_effects action)" for effect
    using plan_links_each [OF r(4) that] planned_link_resolves [OF r(1) assms(2)] by (auto simp: link_warnings_def)
  moreover have "write_warnings scope treeEntities (sc_treeRequired scope) writable stepId action effect = []" if "effect \<in> set (write_effects action)" for effect
  proof -
    from that obtain raw where "write_effect raw = Some effect" by (auto simp: write_effects_def List.map_filter_def)
    then have "oe_kind effect \<noteq> EffRead" by (cases raw) (auto split: if_splits)
    then show ?thesis using plan_writes_each [OF r(3) that] planned_write_accepted [OF r(1) assms(2) required] by blast
  qed
  ultimately show ?thesis by (simp add: action_warnings_def)
qed

section \<open>The declarations of a step\<close>

definition keyed :: "(string \<times> OntologyProperty) list \<Rightarrow> bool" where
  "keyed m \<longleftrightarrow> distinct (map fst m) \<and> (\<forall>x \<in> set m. prop_id (snd x) = fst x)"

lemma keyed_update: "keyed m \<Longrightarrow> prop_id p = k \<Longrightarrow> keyed (AList.update k p m)"
  unfolding keyed_def by (intro conjI distinct_update update_all) simp_all

lemma keyed_distinct: "keyed m \<Longrightarrow> distinct (map prop_id (map snd m))"
proof -
  assume "keyed m"
  then have "map prop_id (map snd m) = map fst m" "distinct (map fst m)" by (auto simp: keyed_def)
  then show ?thesis by (simp only:)
qed

lemma merge_properties_keyed: "keyed (merge_properties base extension)"
proof -
  have "keyed (foldl (\<lambda>m p. AList.update (prop_id p) p m) [] base)"
    by (rule foldl_keeps [where P = keyed]) (simp_all add: keyed_update, simp add: keyed_def)
  then show ?thesis unfolding merge_properties_def
    by (rule foldl_keeps [where P = keyed, rotated]) (simp_all add: keyed_update merge_property_def split: option.split)
qed

definition distinct_entity :: "OntologyEntity \<Rightarrow> bool" where
  "distinct_entity e \<longleftrightarrow> distinct (map prop_id (opt_list (ent_properties e)))"

lemma mergeEntity_distinct: "distinct_entity e \<Longrightarrow> (\<And>b. base = Some b \<Longrightarrow> distinct_entity b) \<Longrightarrow> distinct_entity (mergeEntity base e)"
  using keyed_distinct [OF merge_properties_keyed]
  by (auto simp: mergeEntity_def distinct_entity_def Let_def later_def split: option.split)

lemma merged_distinct:
  assumes "\<And>e. e \<in> set es \<Longrightarrow> distinct_entity e"
  shows "\<forall>x \<in> set (foldl (\<lambda>m e. AList.update (ent_id e) (mergeEntity (map_of m (ent_id e)) e) m) [] es). distinct_entity (snd x)"
proof (rule foldl_all)
  fix m :: "(string \<times> OntologyEntity) list" and e assume e: "e \<in> set es" and m: "\<forall>x \<in> set m. distinct_entity (snd x)"
  have "distinct_entity (mergeEntity (map_of m (ent_id e)) e)"
    by (rule mergeEntity_distinct [OF assms [OF e]]) (use m in \<open>fastforce dest!: map_of_SomeD\<close>)
  with m show "\<forall>x \<in> set (AList.update (ent_id e) (mergeEntity (map_of m (ent_id e)) e) m). distinct_entity (snd x)"
    by (intro update_all) simp_all
qed simp

lemma treeNodes_walk: "treeNodes n = walkWorkflowNodes n"
proof (induction n rule: node_induct)
  case (node n)
  obtain i title descr ont children where n: "n = WorkflowNode i title descr ont children" by (cases n)
  have "concat (map treeNodes cs) = concat (map walkWorkflowNodes cs)" if "children = Some cs" for cs
    using node that n by (intro arg_cong [where f = concat] map_cong) (auto simp: node_children_def)
  then show ?case unfolding n by (cases children) simp_all
qed

lemma valid_step_distinct:
  assumes "validateWorkflowTreeDefinition tree" "n \<in> set (treeNodes (tree_root tree))" "e \<in> set (opt_list (entities (node_binding n)))"
  shows "distinct_entity e"
proof -
  from assms(1,2) have "opt_ok binding_ok (wn_ontology n)"
    by (simp add: validateWorkflowTreeDefinition_def tree_fields_ok_def list_all_iff node_ok_fields_def treeNodes_walk)
  with assms(3) have "entity_ok e"
    by (auto simp: opt_ok_def binding_ok_def list_ok_def list_all_iff node_binding_def empty_binding_def split: option.splits)
  then show ?thesis by (simp add: entity_ok_def distinct_entity_def)
qed

lemma declarations_of_step: "mergeOntologyDeclarations [wn_ontology n] = mergeOntologyDeclarations [Some (node_binding n)]"
  by (cases "wn_ontology n") (simp_all add: node_binding_def mergeOntologyDeclarations_def merge_node_def empty_binding_def set_all_def)

text \<open>The warnings read the object types and relationships of a scope, nothing else.\<close>

lemma action_warnings_cong:
  assumes "sc_entities d = sc_entities scope" "sc_relationships d = sc_relationships scope"
  shows "action_warnings d treeEntities treeRequired writable stepId action = action_warnings scope treeEntities treeRequired writable stepId action"
proof -
  have side: "side_resolves d ps ent named = side_resolves scope ps ent named" for ps ent named by (simp add: side_resolves_def assms)
  have "linkEffectResolves d effect ps = linkEffectResolves scope effect ps" for effect ps
    unfolding linkEffectResolves_def assms side ..
  then have "link_warnings d stepId action = link_warnings scope stepId action" by (simp add: link_warnings_def fun_eq_iff)
  moreover have "write_warnings d treeEntities treeRequired writable stepId action = write_warnings scope treeEntities treeRequired writable stepId action"
    by (simp add: write_warnings_def assms fun_eq_iff)
  ultimately show ?thesis by (simp add: action_warnings_def)
qed

lemma warned_function_fails:
  assumes "function_warnings scope stepId f \<noteq> []" "map_of (sc_functions scope) g = Some f"
  shows "\<exists>err. compute_function scope db g i = Inl err"
proof (cases "map_of (sc_entities scope) (fn_entity f)")
  case None
  then show ?thesis by (simp add: compute_function_def assms(2))
next
  case (Some e)
  from assms(1) Some obtain expression where "parseOntologyExpression (fn_expression f) = Inr expression" "hidden_properties e expression \<noteq> []"
    by (auto simp: function_warnings_def Let_def hidden_properties_def visiblePropertiesOf_def list_ex_iff filter_empty_conv split: if_splits sum.splits)
  then have "\<exists>err. evaluate_function f e i props = Inl err" for props by (simp add: evaluate_function_def Let_def)
  then show ?thesis by (auto simp: compute_function_def assms(2) Some split: option.split)
qed

section \<open>A step that cannot write\<close>

text \<open>An entry that opts into writes also selects the tool.\<close>

lemma opt_in_selects:
  assumes "toLowerCase (trim entry) \<in> set WRITE_OPT_INS"
  shows "selector_matches [entry] (NName ''invoke_action'')"
proof -
  define low where "low = toLowerCase (trim entry)"
  have names: "normalizeToolName ''invoke_action'' = NName ''invoke_action''" "normalizeToolName ''group:enterprise-write'' = NName ''group:enterprise-write''"
    "toLowerCase (trim ''invoke_action'') = ''invoke_action''" "toLowerCase (trim ''group:enterprise-write'') = ''group:enterprise-write''"
    "selector_matches [''invoke_action''] (NName ''invoke_action'')" "selector_matches [''group:enterprise-write''] (NName ''invoke_action'')"
    by code_simp+
  from assms have low: "low = ''invoke_action'' \<or> low = ''group:enterprise-write''" by (auto simp: low_def WRITE_OPT_INS_def)
  with names(3,4) have "toLowerCase (trim low) = toLowerCase (trim entry)" by (auto simp: low_def)
  then have "normalizeToolName entry = normalizeToolName low"
    by (simp only: normalizeToolName_def normalizeLowercaseStringOrEmpty_def)
  then have "expandToolGroups [entry] = expandToolGroups [low]" by (simp add: expandToolGroups_def normalizeToolList_def)
  then have "selector_matches [entry] v = selector_matches [low] v" for v by (simp only: selector_matches_def)
  with low names(5,6) show ?thesis by auto
qed

lemma unwritable_step:
  assumes "\<not> canWrite n explicit" "ontology step = node_binding n"
  shows "\<not> explicitlyAllowsOntologyWrites step
    \<or> (opt_list (deniedTools (ontology step)) \<noteq> [] \<and> \<not> isToolAllowedByPolicyName ''invoke_action'' (deny_only (opt_list (deniedTools (ontology step)))))"
proof (cases "explicitlyAllowsOntologyWrites step")
  case True
  let ?allow = "opt_list (allowedTools (node_binding n))" and ?deny = "opt_list (deniedTools (node_binding n))"
  from True obtain entry where e: "entry \<in> set ?allow" "toLowerCase (trim entry) \<in> set WRITE_OPT_INS"
    by (auto simp: explicitlyAllowsOntologyWrites_def list_ex_iff assms(2) ONTOLOGY_WRITE_OPT_INS_def WRITE_OPT_INS_def)
  have allowed: "selector_matches ?allow (NName ''invoke_action'')" using opt_in_selects [OF e(2)] e(1) selector_matches_any by blast
  have name: "normalizeToolName ''invoke_action'' = NName ''invoke_action''" by code_simp
  have "?allow \<noteq> []" using e(1) by auto
  with assms(1) e have "\<not> isToolAllowedByPolicyName ''invoke_action'' (Some \<lparr> pl_allow = Some ?allow, pl_deny = Some ?deny \<rparr>)"
    by (auto simp: canWrite_def canUseTool_def Let_def list_ex_iff)
  with allowed have "selector_matches ?deny (NName ''invoke_action'')"
    by (auto simp: isToolAllowedByPolicyName_def makeToolPolicyMatcher_def selector_matches_def name Let_def split: if_splits)
  then have "\<not> isToolAllowedByPolicyName ''invoke_action'' (deny_only ?deny)" by (simp add: deny_only_iff name)
  moreover from this have "?deny \<noteq> []" by (auto simp: deny_only_iff selector_matches_def)
  ultimately show ?thesis by (simp add: assms(2))
qed simp

lemma unwritable_step_blocks:
  assumes "run_of st i = Some run" "plan_mode (run_plan run) = ModeEnforce"
    "findPlanNode (run_plan run) (activeNodeId (run_plan run)) = Some step" "ontology step = node_binding n" "\<not> canWrite n explicit"
    "gc_toolName call = ''invoke_action''" "gc_mcpTool call = None"
  shows "\<exists>v. snd (evaluateEnterpriseToolCall hashTree i call st) = Some v \<and> vd_blocked v"
  using assms(1)
proof (cases rule: judge_cases [of st i run hashTree call])
  case (judged node)
  let ?c = "tool_call_of hashTree run call"
  from judged assms(3) have node: "node = step" "explicitlyAllowsOntologyWrites step"
    using assms(6) by (auto simp: toolCarriesOntologyAction_def activeNodeAllowsWrites_def)
  have call: "tc_toolName ?c = ''invoke_action''" "tc_mcpTool ?c = None" using assms(6,7) by (simp_all add: tool_call_of_def)
  then have "call_owner ?c = None" "call_attached (run_plan run) step ?c = False"
    by (simp_all add: gate_defs mcpServerOwningTool_def)
  with unwritable_step [OF assms(5,4)] node(2) call(1)
  have "node_denies (tc_toolName ?c) (call_attached (run_plan run) step ?c) (call_owner ?c) (the_call ?c) step"
    by (auto simp: node_denies_def Let_def)
  moreover have "\<not> control_call ?c"
  proof -
    have "\<not> isWorkflowControlTool ''invoke_action'' None" by code_simp
    then show ?thesis by (simp add: control_call_def call)
  qed
  ultimately obtain reason where "evaluateToolCallGovernance (run_plan run) step (run_policies run) ?c = hard_denial reason"
    using node_denial by blast
  then show ?thesis using judged node(1) assms(2) by (auto simp: Let_def hard_denial_def)
qed (use assms in \<open>auto simp: Let_def\<close>)

lemma granted_no_warning: "grant_warnings stepId writable acts \<noteq> [] \<Longrightarrow> \<not> writable"
  by (auto simp: grant_warnings_def Let_def)

section \<open>What the warnings promise\<close>

text \<open>
  C40. A warning about an action, a write or a function means what it says. Take a work-map the import accepts, and a
  run planned from it and standing on a step. When the linter warned that an action of the step is itself unusable - no
  write effect, a repeated parameter, an edge or an object it cannot address, required properties it cannot supply -
  every call of the action on the step is refused with an error and changes neither the store nor the run, whatever
  the arguments and the stored objects. When it warned that the step cannot perform its local writes, the gate of an
  enforcing run blocks every call of \<open>invoke_action\<close> there; that warning says nothing of the tool itself, which would
  carry the action out. A function it warned about is never computed. Work-maps that require a property with the name
  of a member every object inherits, such as \<open>constructor\<close>, are left out: the runtime takes the inherited member for
  a value, so there a warned create can succeed.
\<close>

theorem warned_declarations_never_work:
  assumes "validateWorkflowTreeDefinition tree" "n \<in> set (treeNodes (tree_root tree))" "getEnterpriseActiveRun st r = Some run"
    "findPlanNode (run_plan run) (activeNodeId (run_plan run)) = Some step" "ontology step = node_binding n"
    "run_treeRequiredProperties run = Some (collectTreeRequiredProperties tree)"
    "list_all (\<lambda>(i, ids). list_all (\<lambda>p. \<not> prototype_name p) ids) (collectTreeRequiredProperties tree)"
    "d = mergeOntologyDeclarations [wn_ontology n]"
  shows "(map_of (sc_actions d) a = Some action \<and>
        action_warnings d treeEntities (collectTreeRequiredProperties tree) writable (wn_id n) action \<noteq> [] \<longrightarrow>
      (\<exists>err. invoke_action r a rawArgs now (st, db) = (Inl err, (st, db))))
    \<and> (grant_warnings (wn_id n) (canWrite n explicit) (map snd (sc_actions d)) \<noteq> [] \<and> r \<noteq> [] \<and> plan_mode (run_plan run) = ModeEnforce
        \<and> gc_toolName call = ''invoke_action'' \<and> gc_mcpTool call = None \<longrightarrow>
      (\<exists>v. snd (evaluateEnterpriseToolCall hashTree (Some r) call st) = Some v \<and> vd_blocked v))
    \<and> (map_of (sc_functions d) g = Some f \<and> function_warnings d (wn_id n) f \<noteq> [] \<longrightarrow>
      (\<exists>scope err. resolveActiveOntologyScope st r = Some scope \<and> compute_function scope db g i = Inl err))"
proof -
  obtain scope where scope: "resolveActiveOntologyScope st r = Some scope" "sc_entities scope = sc_entities d" "sc_relationships scope = sc_relationships d"
      "sc_actions scope = sc_actions d" "sc_functions scope = sc_functions d" "sc_treeRequired scope = collectTreeRequiredProperties tree"
    using assms(3-6) by (simp add: resolveActiveOntologyScope_def Let_def assms(8) declarations_of_step)
  have "sc_entities d = foldl (\<lambda>m e. AList.update (ent_id e) (mergeEntity (map_of m (ent_id e)) e) m) [] (opt_list (entities (node_binding n)))"
    unfolding assms(8) declarations_of_step by (simp add: mergeOntologyDeclarations_def merge_node_def)
  then have distinct: "distinct_properties scope"
    using merged_distinct [of "opt_list (entities (node_binding n))"] valid_step_distinct [OF assms(1,2)] scope(2)
    by (fastforce simp: distinct_properties_def distinct_entity_def)
  have required: "\<forall>(i, ids) \<in> set (sc_treeRequired scope). \<forall>r \<in> set ids. \<not> prototype_name r"
    using assms(7) by (auto simp: scope(6) list_all_iff)
  have "\<exists>err. invokeOntologyAction scope action args now db = (Inl err, db)"
    if "action_warnings d treeEntities (collectTreeRequiredProperties tree) writable (wn_id n) action \<noteq> []" for args
  proof (cases "plan_action db scope action args")
    case (Inr r)
    from linter_sound [OF this distinct required] that action_warnings_cong [OF scope(2,3) [symmetric]] show ?thesis by (simp add: scope(6))
  qed (simp add: invokeOntologyAction_def)
  then have "\<exists>err. invoke_action r a rawArgs now (st, db) = (Inl err, (st, db))"
    if "map_of (sc_actions d) a = Some action" "action_warnings d treeEntities (collectTreeRequiredProperties tree) writable (wn_id n) action \<noteq> []"
    using that by (auto simp: invoke_action_def Let_def scope(1,4) split: prod.splits sum.splits) (metis prod.inject sum.distinct(1))+
  moreover have "\<exists>err. compute_function scope db g i = Inl err"
    if "map_of (sc_functions d) g = Some f" "function_warnings d (wn_id n) f \<noteq> []"
  proof (rule warned_function_fails)
    show "function_warnings scope (wn_id n) f \<noteq> []" using that(2) by (simp add: function_warnings_def scope(2))
  qed (simp add: scope(5) that(1))
  moreover have "\<exists>v. snd (evaluateEnterpriseToolCall hashTree (Some r) call st) = Some v \<and> vd_blocked v"
    if "grant_warnings (wn_id n) (canWrite n explicit) (map snd (sc_actions d)) \<noteq> []" "r \<noteq> []" "plan_mode (run_plan run) = ModeEnforce"
      "gc_toolName call = ''invoke_action''" "gc_mcpTool call = None"
    by (rule unwritable_step_blocks [where run = run and step = step and n = n and explicit = explicit])
      (use that assms(3-5) granted_no_warning in \<open>auto simp: run_of_def\<close>)
  ultimately show ?thesis using scope(1) by blast
qed

text \<open>In the witness an action creates accounts without a parameter for their required balance.\<close>

definition lint_action :: OntologyAction where
  "lint_action = action_of ''open'' [parameter_of ''account'' TyId] [ObjectEffect \<lparr> oe_entity = ''account'', oe_kind = EffCreate, oe_description = None \<rparr>]"

definition lint_step :: WorkflowNodeDefinition where
  "lint_step = WorkflowNode ''intake'' ''Intake'' None (Some (graph_binding \<lparr> actions := Some [lint_action], allowedTools := Some [''invoke_action''] \<rparr>)) None"

definition lint_tree :: WorkflowTreeDefinition where
  "lint_tree = graph_tree \<lparr> tree_root := lint_step \<rparr>"

definition lint_run :: EnterpriseActiveRun where
  "lint_run = graph_run \<lparr> run_plan := (run_plan graph_run) \<lparr> nodes := flattenPlanNodes lint_step None, activeNodeId := ''intake'' \<rparr>,
     run_treeRequiredProperties := Some (collectTreeRequiredProperties lint_tree) \<rparr>"

definition lint_registry :: Registry where
  "lint_registry = empty_registry \<lparr> activeRuns := [(''r1'', lint_run)] \<rparr>"

theorem warned_declarations_witness:
  "collectWorkflowTreeWarnings lint_tree \<noteq> []
   \<and> (\<exists>err. invoke_action ''r1'' ''open'' (Some (ParamObject [(''account'', ArgValue (VStr ''a-1''))])) 5 (lint_registry, empty_db)
        = (Inl err, (lint_registry, empty_db)))"
proof -
  have run: "getEnterpriseActiveRun lint_registry ''r1'' = Some lint_run" by (simp add: getEnterpriseActiveRun_def lint_registry_def)
  have valid: "validateWorkflowTreeDefinition lint_tree" by code_simp
  have "(case findPlanNode (run_plan lint_run) (activeNodeId (run_plan lint_run)) of None \<Rightarrow> False | Some step \<Rightarrow> ontology step = node_binding lint_step)" by code_simp
  then obtain step where step: "findPlanNode (run_plan lint_run) (activeNodeId (run_plan lint_run)) = Some step" "ontology step = node_binding lint_step"
    by (auto split: option.splits)
  have mem: "lint_step \<in> set (treeNodes (tree_root lint_tree))" by (simp add: lint_tree_def lint_step_def)
  have required: "run_treeRequiredProperties lint_run = Some (collectTreeRequiredProperties lint_tree)" by (simp add: lint_run_def)
  have names: "list_all (\<lambda>(i, ids). list_all (\<lambda>p. \<not> prototype_name p) ids) (collectTreeRequiredProperties lint_tree)" by code_simp
  have "map_of (sc_actions (mergeOntologyDeclarations [wn_ontology lint_step])) ''open'' = Some lint_action" by code_simp
  moreover have "action_warnings (mergeOntologyDeclarations [wn_ontology lint_step]) [] (collectTreeRequiredProperties lint_tree) True (wn_id lint_step) lint_action \<noteq> []"
    by code_simp
  moreover have "collectWorkflowTreeWarnings lint_tree \<noteq> []" by code_simp
  ultimately show ?thesis using warned_declarations_never_work [OF valid mem run step required names refl] by blast
qed

end
