(* ===== verification/Spec2Isabelle.thy ===== *)
theory Spec2Isabelle
  imports Tree_References Expr_Soundness Governance_Properties Gate_Properties Schema_Properties Trace_Properties Registry_Properties Mediation_Properties Digest_Properties
    Launch_Properties Knowledge_Properties Skill_Properties Warning_Properties
begin

text \<open>
  Verification of the enterprise core of ClawWorks.

  \<^bold>\<open>The program.\<close> An operator imports workflow trees (work-maps) and configures governance policies. When an
  agent run starts, mediation (\<^verbatim>\<open>src/enterprise/run-mediation.ts\<close>) picks the candidate trees for the trigger,
  lets a planner choose one and a route through it (\<^verbatim>\<open>packages/enterprise-planner\<close>), lays the chosen steps out
  as a plan (\<^verbatim>\<open>plan.ts\<close>), evaluates the run-start policies and registers the run (\<^verbatim>\<open>active-runs.ts\<close>). While it
  runs, every tool call passes the gate (\<^verbatim>\<open>runtime.ts\<close> over \<^verbatim>\<open>governance.ts\<close>), the model closes and reopens
  steps with two control tools, and ontology tools read and write the object graph of the tree within the
  scope of the active step. Everything a run does is appended to a durable trace.

  \<^bold>\<open>Conventions\<close> (\<^verbatim>\<open>Prelude\<close>). Strings are lists of characters, one per code unit, over ASCII and the two
  other code units the sources print. An object type is a record, a closed union a datatype, an optional
  field an option, a \<open>Map\<close> an association list, a thrown error or a refusal the left of a sum. State is
  passed explicitly. A number is a \<open>js_number\<close> (\<^verbatim>\<open>Js_Number\<close>), with the rounding of IEEE doubles written
  out over the rationals; \<^verbatim>\<open>Js_Text\<close> is its shortest decimal text.

  \<^bold>\<open>The theories, in the order of the code.\<close>
  \<^item> \<^verbatim>\<open>Enterprise_Types\<close>: the contracts of \<^verbatim>\<open>types.ts\<close>. \<^verbatim>\<open>Tree_References\<close>: the collectors of
    \<^verbatim>\<open>tree-references.ts\<close>.
  \<^item> \<^verbatim>\<open>Expr_Syntax\<close>, \<^verbatim>\<open>Expr_Parser\<close>, \<^verbatim>\<open>Expr_Eval\<close>, \<^verbatim>\<open>Expr_Soundness\<close>: tokenizer, recursive-descent parser,
    evaluator and type checker of \<^verbatim>\<open>ontology-expression.ts\<close>; parsing is total and inverts printing, and
    well-typed expressions do not go wrong.
  \<^item> \<^verbatim>\<open>Tool_Catalog\<close>, \<^verbatim>\<open>Tool_Policy\<close>, \<^verbatim>\<open>Mcp_Names\<close>: core tools, globs and allow and deny lists
    (\<^verbatim>\<open>agents/tool-catalog.ts\<close>, \<^verbatim>\<open>glob-pattern.ts\<close>, \<^verbatim>\<open>tool-policy-shared.ts\<close>, \<^verbatim>\<open>tool-policy-match.ts\<close>) and the
    names a call may arrive under (\<^verbatim>\<open>mcp-callable-names.ts\<close>).
  \<^item> \<^verbatim>\<open>Workflow_Control\<close>, \<^verbatim>\<open>Governance\<close>, \<^verbatim>\<open>Governance_Laws\<close>, \<^verbatim>\<open>Governance_Properties\<close>: the control tools and
    the policy evaluations of \<^verbatim>\<open>governance.ts\<close>; denials win, omissions fail closed, order is irrelevant.
  \<^item> \<^verbatim>\<open>Route_Planner\<close>, \<^verbatim>\<open>Run_Plan\<close>: the planner package and the plan of a run.
  \<^item> \<^verbatim>\<open>Active_Runs\<close>, \<^verbatim>\<open>Run_Steps\<close>, \<^verbatim>\<open>Run_Gate\<close>: the registry of runs, the step cursor and the tool gate.
    \<^verbatim>\<open>Run_Machine\<close> makes them one step relation, begins that resume an earlier execution included, with an
    invariant over all reachable registries, and refines it to an abstract route of three numbers;
    \<^verbatim>\<open>Run_Properties\<close> and \<^verbatim>\<open>Gate_Properties\<close> state what follows.
  \<^item> \<^verbatim>\<open>Object_Store\<close>, \<^verbatim>\<open>Object_Laws\<close>: the instance tables of \<^verbatim>\<open>object-store.sqlite.ts\<close> as a keyed store.
    \<^verbatim>\<open>Ontology_Scope\<close>, \<^verbatim>\<open>Ontology_Actions\<close>, \<^verbatim>\<open>Ontology_Tools\<close>: \<^verbatim>\<open>ontology-runtime.ts\<close>, \<^verbatim>\<open>ontology-actions.ts\<close> and
    \<^verbatim>\<open>agents/tools/ontology-tools.ts\<close>; the \<^verbatim>\<open>Ontology_*_Laws\<close> and \<^verbatim>\<open>*_Properties\<close> theories show that actions do
    what they report, links never dangle, objects keep their types and reads stay in scope.
  \<^item> \<^verbatim>\<open>Tree_Schema\<close>, \<^verbatim>\<open>Schema_Laws\<close>, \<^verbatim>\<open>Schema_Properties\<close>: the validation of imported trees (\<^verbatim>\<open>schema.ts\<close>)
    and what an accepted tree guarantees its runs.
  \<^item> \<^verbatim>\<open>Trace_Store\<close>, \<^verbatim>\<open>Trace_Laws\<close>, \<^verbatim>\<open>Trace_Recovery\<close>, \<^verbatim>\<open>Trace_Properties\<close>: the durable trace
    (\<^verbatim>\<open>trace-store.sqlite.ts\<close>), startup recovery and the resume protocol; reads never fail whichever processes
    write, and a continuation is taken once.
  \<^item> \<^verbatim>\<open>Tree_Store\<close>, \<^verbatim>\<open>Tree_Laws\<close>, \<^verbatim>\<open>Tree_Properties\<close>: the stored work-maps and their history
    (\<^verbatim>\<open>tree-store.sqlite.ts\<close>); no definition is lost, and guarded writes act only on what their caller saw.
    \<^verbatim>\<open>Tree_Registry\<close>, \<^verbatim>\<open>Registry_Properties\<close>: \<^verbatim>\<open>tree-registry.ts\<close>, \<^verbatim>\<open>builtin-trees.ts\<close> and \<^verbatim>\<open>tree-io.ts\<close>; the
    registry hides no stored row, and what is exported is what was imported.
  \<^item> \<^verbatim>\<open>Prompt_Digest\<close>, \<^verbatim>\<open>Digest_Properties\<close>: the prompt section of a run (\<^verbatim>\<open>plan.ts\<close>); it tells the model
    the scopes and positions the gate and the step tools work with, and is empty only when there is nothing to tell.
  \<^item> \<^verbatim>\<open>Run_Mediation\<close>: \<^verbatim>\<open>run-mediation.ts\<close> and \<^verbatim>\<open>step-events.ts\<close>, which compose all of the above: a begin is two
    steps, before and after its planner, and anything may happen in between. \<^verbatim>\<open>Execution_Trails\<close>,
    \<^verbatim>\<open>Mediation_Laws\<close>, \<^verbatim>\<open>Mediation_Trails\<close>: the trail of one execution and what mediation writes to it although
    any access to the database may fail. \<^verbatim>\<open>Mediation_Invariant\<close>, \<^verbatim>\<open>Mediation_Moves\<close>, \<^verbatim>\<open>Mediation_Arrivals\<close>,
    \<^verbatim>\<open>Mediation_Begins\<close>, \<^verbatim>\<open>Mediation_Keeps\<close>, \<^verbatim>\<open>Mediation_System\<close>: the invariant that ties registry, mediated runs and
    trails, kept by every operation. \<^verbatim>\<open>Mediation_Properties\<close>: the durable trail of a run is the run, faults never
    mix executions, unreadable work-maps and withholding policies start nothing, an end closes both sides.
  \<^item> \<^verbatim>\<open>Launch_Ceiling\<close>, \<^verbatim>\<open>Collision_Names\<close>, \<^verbatim>\<open>Launch_Properties\<close>: the rest of \<^verbatim>\<open>active-runs.ts\<close>, with the server
    names of \<^verbatim>\<open>agents/agent-bundle-mcp-names.ts\<close>: what a native runtime, which calls without passing the gate, is given
    when it starts. A tool it hosts is one the gate would let through on every step unless an outward action claims it
    and refuses the arguments, which the launch check overlooks; and no rule of the run names a tool of a server it is
    given under a spelling without a collision mark. Numbered names are recognised in entries without a wildcard; an
    evaluated run shows a wildcard escape. Names that Codex hashes or truncates are left out of the property.
  \<^item> \<^verbatim>\<open>Knowledge_Runtime\<close>, \<^verbatim>\<open>Knowledge_Properties\<close>: the foundations of \<^verbatim>\<open>knowledge.ts\<close>, their loading
    (\<^verbatim>\<open>knowledge-bundle-loader.ts\<close>, \<^verbatim>\<open>builtin-knowledge.ts\<close>) and the reads behind it. A retrieval stays in the scope
    of its step, bundles of other work-maps never show, and a reload makes the registry what the database says.
  \<^item> \<^verbatim>\<open>Fence_Spans\<close>, \<^verbatim>\<open>Skill_Instructions\<close>, \<^verbatim>\<open>Skill_Properties\<close>: the fenced-block scanner of
    \<^verbatim>\<open>packages/markdown-core/src/fences.ts\<close> and the skill bodies a prompt carries (\<^verbatim>\<open>skill-instructions.ts\<close>). The search
    for a block is exact and chunks compose; a body is closed and within its limit, and the size of the appendix is known.
  \<^item> \<^verbatim>\<open>Tree_Warnings\<close>, \<^verbatim>\<open>Warning_Properties\<close>: the linter of imported work-maps (\<^verbatim>\<open>tree-warnings.ts\<close>); an action it
    finds unusable is never performed, a step it says cannot write has its writes blocked by the gate of an enforcing
    run, and a function it warns about is never computed.
  \<^item> \<^verbatim>\<open>Table_Laws\<close>: sorted queries and keyed rows, shared by the stores. \<^verbatim>\<open>Systems\<close>: the interfaces (guarded systems, refinement) the stateful components interpret.
    \<^verbatim>\<open>Sample_Data\<close>: concrete values the witnesses evaluate on.

  \<^bold>\<open>Fuel and bounds.\<close> The parser's entry point gives \<open>11 * length + 11\<close> units of fuel, and \<^verbatim>\<open>Expr_Parser\<close> proves
  that no source exhausts them. The climb from a route endpoint to the root has one unit for every node
  of the tree, and \<^verbatim>\<open>Route_Planner\<close> proves it ends. The shortest text of a double is searched over at most
  seventeen digits, enough for every double, and its exponent over four hundred places. The search for a free
  server name has one unit more than there are names in use, and \<^verbatim>\<open>Launch_Properties\<close> proves the name it finds free.

  \<^bold>\<open>Parameters.\<close> The model provider and planner, secret redaction, SHA-256, \<open>localeCompare\<close>, the text SQLite gives a
  number, the YAML and JSON libraries, the clock, fresh execution ids, the text of skill files, what a knowledge
  adapter answers and what happens meanwhile, and which accesses to the database fail are arguments of the definitions
  that use them.

  \<^bold>\<open>Not modelled.\<close> Of the enterprise core: work-map bundles (\<^verbatim>\<open>bundle-io.ts\<close>: archives and files),
  \<^verbatim>\<open>policy-compile.ts\<close> (a draft policy out of a model's reply, for an operator to paste), and opening a skill file
  inside its boundary.
  Outside it: the gateway methods and the web and native clients (rendering and transport), channels, the agent
  runner and the plugins under \<^verbatim>\<open>extensions\<close> (provider and network input and output), and the storage migrations.
\<close>

end
